(* ===== verification/Prelude.thy ===== *)
theory Prelude
  imports Main "HOL-Library.Word" "HOL-Library.Char_ord" "HOL-Library.List_Lexorder"
begin

unbundle bit_operations_syntax

text \<open>
  Shared vocabulary of the development: the machine types of the Go code, results of
  fallible functions, the wrap-around of Go's signed integers, the SQL table operations
  the satellite's metadata database is built from, and generic lemmas on lists and words.

  Go values are modelled as follows in every theory.
  \<^item> a byte is an \<open>8 word\<close>, \<open>uint16\<close>, \<open>uint32\<close> and \<open>uint64\<close> are words of that width;
  \<^item> fixed size byte arrays used as identifiers (\<open>uuid.UUID\<close>, \<open>storx.NodeID\<close>,
    \<open>storx.PieceID\<close>) are words of that many bits, most significant byte first; their
    \<open>IsZero\<close> is equality with \<open>0\<close> and their byte order is the order of the words;
  \<^item> Go strings and object keys are \<open>string\<close>, lists of 8 bit characters, ordered
    lexicographically as \<open>bytes.Compare\<close> does;
  \<^item> signed integers are \<open>int\<close>, with the wrap-around of an operation written out
    (\<open>wrap32\<close>, \<open>wrap64\<close>) where the code can overflow;
  \<^item> a returned \<open>error\<close> is the left side of a sum, a pointer that may be nil is an option.
\<close>

subsection \<open>Types\<close>

type_synonym byte = "8 word"
type_synonym uuid = "128 word"
type_synonym node_id = "256 word"
type_synonym piece_id = "256 word"
type_synonym time = int

named_theorems codec_simps "encode and decode equations of the wire formats"
named_theorems sql_simps "row level facts about the SQL table operations"

subsection \<open>Results\<close>

definition res_bind :: "'e + 'a \<Rightarrow> ('a \<Rightarrow> 'e + 'b) \<Rightarrow> 'e + 'b" where
  "res_bind r f = (case r of Inl e \<Rightarrow> Inl e | Inr a \<Rightarrow> f a)"

lemma res_bind_simps [simp]:
  "res_bind (Inl e) f = Inl e"
  "res_bind (Inr a) f = f a"
  by (simp_all add: res_bind_def)

lemma res_bind_Inr_iff: "res_bind r f = Inr b \<longleftrightarrow> (\<exists>a. r = Inr a \<and> f a = Inr b)"
  by (cases r) auto

lemma res_bind_Inl_iff:
  "res_bind r f = Inl e \<longleftrightarrow> r = Inl e \<or> (\<exists>a. r = Inr a \<and> f a = Inl e)"
  by (cases r) auto

definition is_ok :: "'e + 'a \<Rightarrow> bool" where
  "is_ok r = (case r of Inl _ \<Rightarrow> False | Inr _ \<Rightarrow> True)"

lemma is_ok_simps [simp]: "is_ok (Inr a)" "\<not> is_ok (Inl e)"
  by (simp_all add: is_ok_def)

subsection \<open>Signed wrap-around\<close>

definition wrap32 :: "int \<Rightarrow> int" where
  "wrap32 x = (x + 2147483648) mod 4294967296 - 2147483648"

definition wrap64 :: "int \<Rightarrow> int" where
  "wrap64 x = (x + 9223372036854775808) mod 18446744073709551616 - 9223372036854775808"

lemma wrap32_id: "- 2147483648 \<le> x \<Longrightarrow> x < 2147483648 \<Longrightarrow> wrap32 x = x"
  by (simp add: wrap32_def)

lemma wrap64_id:
  "- 9223372036854775808 \<le> x \<Longrightarrow> x < 9223372036854775808 \<Longrightarrow> wrap64 x = x"
  by (simp add: wrap64_def)

lemma wrap64_range: "- 9223372036854775808 \<le> wrap64 x \<and> wrap64 x < 9223372036854775808"
  by (simp add: wrap64_def)

lemma wrap64_add_left: "wrap64 (wrap64 x + y) = wrap64 (x + y)"
  unfolding wrap64_def by (simp add: mod_simps algebra_simps)

subsection \<open>SQL tables as lists of rows\<close>

definition sql_delete :: "('r \<Rightarrow> bool) \<Rightarrow> 'r list \<Rightarrow> 'r list" where
  "sql_delete P rows = filter (\<lambda>r. \<not> P r) rows"

definition sql_returning :: "('r \<Rightarrow> bool) \<Rightarrow> 'r list \<Rightarrow> 'r list" where
  "sql_returning P rows = filter P rows"

definition sql_update :: "('r \<Rightarrow> bool) \<Rightarrow> ('r \<Rightarrow> 'r) \<Rightarrow> 'r list \<Rightarrow> 'r list" where
  "sql_update P f rows = map (\<lambda>r. if P r then f r else r) rows"

definition sql_upsert :: "('r \<Rightarrow> 'k) \<Rightarrow> 'r \<Rightarrow> ('r \<Rightarrow> 'r) \<Rightarrow> 'r list \<Rightarrow> 'r list" where
  "sql_upsert key new f rows =
     (if key new \<in> key ` set rows then sql_update (\<lambda>r. key r = key new) f rows
      else rows @ [new])"

definition unique_key :: "('r \<Rightarrow> 'k) \<Rightarrow> 'r list \<Rightarrow> bool" where
  "unique_key key rows = distinct (map key rows)"

lemma set_sql_delete [sql_simps]: "set (sql_delete P rows) = {r \<in> set rows. \<not> P r}"
  by (auto simp: sql_delete_def)

lemma set_sql_returning [sql_simps]: "set (sql_returning P rows) = {r \<in> set rows. P r}"
  by (auto simp: sql_returning_def)

lemma set_sql_update [sql_simps]:
  "set (sql_update P f rows) = (\<lambda>r. if P r then f r else r) ` set rows"
  by (simp add: sql_update_def)

lemma unique_key_delete [intro]: "unique_key key rows \<Longrightarrow> unique_key key (sql_delete P rows)"
  by (simp add: unique_key_def sql_delete_def distinct_map_filter)

lemma unique_key_update:
  "unique_key key rows \<Longrightarrow> (\<And>r. P r \<Longrightarrow> key (f r) = key r) \<Longrightarrow> unique_key key (sql_update P f rows)"
proof -
  assume u: "unique_key key rows" and k: "\<And>r. P r \<Longrightarrow> key (f r) = key r"
  have "map key (sql_update P f rows) = map key rows"
    by (simp add: sql_update_def k)
  with u show ?thesis by (simp add: unique_key_def)
qed

lemma unique_key_snoc:
  "unique_key key rows \<Longrightarrow> key r \<notin> key ` set rows \<Longrightarrow> unique_key key (rows @ [r])"
  by (simp add: unique_key_def)

lemma unique_key_upsert:
  "unique_key key rows \<Longrightarrow> (\<And>r. key (f r) = key r) \<Longrightarrow> unique_key key (sql_upsert key new f rows)"
  by (simp add: sql_upsert_def unique_key_update unique_key_snoc)

lemma unique_keyD:
  "unique_key key rows \<Longrightarrow> r \<in> set rows \<Longrightarrow> s \<in> set rows \<Longrightarrow> key r = key s \<Longrightarrow> r = s"
  by (auto simp: unique_key_def distinct_map dest: inj_onD)

subsection \<open>Lists\<close>

lemma sorted_wrt_lt_distinct: "sorted_wrt (<) (xs :: 'a :: linorder list) \<Longrightarrow> distinct xs"
  by (induction xs) auto

fun has_prefix :: "'a list \<Rightarrow> 'a list \<Rightarrow> bool" where
  "has_prefix s [] = True"
| "has_prefix [] (p # ps) = False"
| "has_prefix (x # xs) (p # ps) = (x = p \<and> has_prefix xs ps)"

lemma has_prefix_iff: "has_prefix s p \<longleftrightarrow> (\<exists>t. s = p @ t)"
  by (induction s p rule: has_prefix.induct) auto

fun index_byte :: "'a list \<Rightarrow> 'a \<Rightarrow> nat option" where
  "index_byte [] c = None"
| "index_byte (x # xs) c = (if x = c then Some 0 else map_option Suc (index_byte xs c))"

lemma index_byte_None: "index_byte s c = None \<longleftrightarrow> c \<notin> set s"
  by (induction s) auto

lemma index_byte_Some:
  "index_byte s c = Some i \<Longrightarrow> i < length s \<and> s ! i = c \<and> c \<notin> set (take i s)"
  by (induction s arbitrary: i) (auto split: if_splits)

text \<open>\<open>strings.SplitN(s, sep, n)\<close> for a one byte separator: at most \<open>n\<close> pieces, the last
  one holding the rest; \<open>strings.Split\<close> is the unbounded one.\<close>

fun split_all :: "'a \<Rightarrow> 'a list \<Rightarrow> 'a list list" where
  "split_all c [] = [[]]"
| "split_all c (x # xs) =
     (if x = c then [] # split_all c xs
      else (case split_all c xs of [] \<Rightarrow> [[x]] | p # ps \<Rightarrow> (x # p) # ps))"

fun split_n :: "nat \<Rightarrow> 'a \<Rightarrow> 'a list \<Rightarrow> 'a list list" where
  "split_n 0 c s = []"
| "split_n (Suc 0) c s = [s]"
| "split_n (Suc (Suc n)) c s =
     (case index_byte s c of
        None \<Rightarrow> [s]
      | Some i \<Rightarrow> take i s # split_n (Suc n) c (drop (Suc i) s))"

lemma index_byte_append: "c \<notin> set a \<Longrightarrow> index_byte (a @ c # b) c = Some (length a)"
  by (induction a) auto

lemma split_n_step:
  "c \<notin> set a \<Longrightarrow> split_n (Suc (Suc n)) c (a @ c # b) = a # split_n (Suc n) c b"
  by (simp add: index_byte_append)

lemma split_all_not_Nil: "split_all c s \<noteq> []"
  by (induction s) (auto split: list.splits)

lemma split_all_no_sep: "c \<notin> set s \<Longrightarrow> split_all c s = [s]"
  by (induction s) auto

lemma split_all_step: "c \<notin> set a \<Longrightarrow> split_all c (a @ c # b) = a # split_all c b"
  by (induction a) auto

subsection \<open>Decimal numbers as strings\<close>

text \<open>\<open>strconv.FormatUint(n, 10)\<close> and \<open>strconv.ParseUint(s, 10, 64)\<close>.\<close>

definition digit_char :: "nat \<Rightarrow> char" where
  "digit_char d = char_of (48 + d)"

fun format_uint :: "nat \<Rightarrow> string" where
  "format_uint n = (if n < 10 then [digit_char n] else format_uint (n div 10) @ [digit_char (n mod 10)])"

declare format_uint.simps [simp del]

definition digit_val :: "char \<Rightarrow> nat option" where
  "digit_val c = (let n = of_char c in if 48 \<le> n \<and> n \<le> (57 :: nat) then Some (n - 48) else None)"

fun parse_digits :: "nat \<Rightarrow> nat \<Rightarrow> string \<Rightarrow> nat option" where
  "parse_digits bound acc [] = Some acc"
| "parse_digits bound acc (c # cs) =
     (case digit_val c of
        None \<Rightarrow> None
      | Some d \<Rightarrow> (if acc * 10 + d < bound then parse_digits bound (acc * 10 + d) cs else None))"

definition parse_uint64 :: "string \<Rightarrow> nat option" where
  "parse_uint64 s = (if s = [] then None else parse_digits (2 ^ 64) 0 s)"

lemma digit_val_digit_char [simp]: "d < 10 \<Longrightarrow> digit_val (digit_char d) = Some d"
  by (simp add: digit_val_def digit_char_def Let_def)

lemma digit_char_eq_slash [simp]: "d < 10 \<Longrightarrow> digit_char d \<noteq> CHR ''/''"
proof
  assume "d < 10" and "digit_char d = CHR ''/''"
  then have "(of_char (char_of (48 + d) :: char) :: nat) = of_char (CHR ''/'')"
    by (simp add: digit_char_def)
  with \<open>d < 10\<close> show False by simp
qed

lemma format_uint_not_Nil [simp]: "format_uint n \<noteq> []"
  by (subst format_uint.simps) simp

lemma format_uint_no_slash: "CHR ''/'' \<notin> set (format_uint n)"
proof (induction n rule: format_uint.induct)
  case (1 n)
  have "CHR ''/'' \<noteq> digit_char m" if "m < 10" for m
    using digit_char_eq_slash [OF that] by metis
  with "1" show ?case by (subst format_uint.simps) auto
qed

lemma parse_digits_append:
  "parse_digits b acc (xs @ [c]) =
     (case parse_digits b acc xs of
        None \<Rightarrow> None
      | Some v \<Rightarrow> (case digit_val c of None \<Rightarrow> None
          | Some d \<Rightarrow> if v * 10 + d < b then Some (v * 10 + d) else None))"
  by (induction xs arbitrary: acc) (auto split: option.splits)

lemma parse_format_uint: "n < b \<Longrightarrow> parse_digits b 0 (format_uint n) = Some n"
proof (induction n rule: format_uint.induct)
  case (1 n)
  show ?case
  proof (cases "n < 10")
    case True
    with "1.prems" show ?thesis by (subst format_uint.simps) simp
  next
    case False
    with "1" have "parse_digits b 0 (format_uint (n div 10)) = Some (n div 10)" by simp
    with False "1.prems" show ?thesis
      by (subst format_uint.simps) (simp add: parse_digits_append)
  qed
qed

lemma parse_uint64_format: "n < 2 ^ 64 \<Longrightarrow> parse_uint64 (format_uint n) = Some n"
  by (simp add: parse_uint64_def parse_format_uint)

end
