(* ===== verification/Bytes.thy ===== *)
theory Bytes
  imports Prelude
begin

text \<open>
  The parts of Go's \<open>encoding/binary\<close> the sources use: fixed width little and big endian
  integers and unsigned varints (\<open>PutUvarint\<close>, \<open>Uvarint\<close>), on lists of bytes, with the
  round trips every file and column format of the program rests on.
\<close>

subsection \<open>Fixed width integers\<close>

fun put_le :: "nat \<Rightarrow> 'a::len word \<Rightarrow> byte list" where
  "put_le 0 v = []"
| "put_le (Suc n) v = ucast v # put_le n (drop_bit 8 v)"

fun get_le :: "byte list \<Rightarrow> 'a::len word" where
  "get_le [] = 0"
| "get_le (b # bs) = ucast b OR push_bit 8 (get_le bs)"

definition put_be :: "nat \<Rightarrow> 'a::len word \<Rightarrow> byte list" where
  "put_be n v = rev (put_le n v)"

definition get_be :: "byte list \<Rightarrow> 'a::len word" where
  "get_be bs = get_le (rev bs)"

lemma byte_bit: "bit (b :: byte) k \<Longrightarrow> k < 8"
  using bit_imp_le_length [of b k] by simp

lemma unat_ucast_byte: "unat (ucast (x :: 'a::len word) :: byte) = unat x mod 256"
  by (simp add: unsigned_ucast_eq take_bit_eq_mod)

lemma length_put_le [simp]: "length (put_le n v) = n"
  by (induction n arbitrary: v) auto

lemma length_put_be [simp]: "length (put_be n v) = n"
  by (simp add: put_be_def)

lemma get_le_bound: "bit (get_le bs :: 'a::len word) k \<Longrightarrow> k < 8 * length bs"
proof (induction bs arbitrary: k)
  case (Cons b bs)
  from Cons.prems have "k < 8 \<or> (8 \<le> k \<and> bit (get_le bs :: 'a word) (k - 8))"
    by (auto simp: bit_simps dest: byte_bit)
  with Cons.IH [of "k - 8"] show ?case by auto
qed simp

lemma get_le_put_le: "get_le (put_le n v) = take_bit (8 * n) v"
proof (induction n arbitrary: v)
  case (Suc n)
  show ?case
    by (rule bit_eqI) (use Suc in \<open>auto simp: bit_simps\<close>)
qed simp

lemma put_le_get_le:
  "8 * length bs \<le> LENGTH('a) \<Longrightarrow> put_le (length bs) (get_le bs :: 'a::len word) = bs"
proof (induction bs)
  case (Cons b bs)
  have hi: "drop_bit 8 (get_le (b # bs) :: 'a word) = get_le bs"
  proof (rule bit_eqI)
    fix k
    show "bit (drop_bit 8 (get_le (b # bs) :: 'a word)) k = bit (get_le bs :: 'a word) k"
      using get_le_bound [of bs k, where ?'a = 'a] Cons.prems byte_bit [of b "8 + k"] by (auto simp: bit_simps)
  qed
  have lo: "ucast (get_le (b # bs) :: 'a word) = b"
    by (rule bit_eqI) (use Cons.prems in \<open>auto simp: bit_simps\<close>)
  show ?case using Cons hi lo by simp
qed simp

lemma get_le_put_le_full [codec_simps]:
  "LENGTH('a) \<le> 8 * n \<Longrightarrow> get_le (put_le n v) = (v :: 'a::len word)"
  by (simp add: get_le_put_le take_bit_word_eq_self)

lemma get_be_put_be_full [codec_simps]:
  "LENGTH('a) \<le> 8 * n \<Longrightarrow> get_be (put_be n v) = (v :: 'a::len word)"
  by (simp add: get_be_def put_be_def get_le_put_le_full)

lemma put_be_get_be:
  "8 * length bs \<le> LENGTH('a) \<Longrightarrow> put_be (length bs) (get_be bs :: 'a::len word) = bs"
  using put_le_get_le [of "rev bs", where ?'a = 'a] by (simp add: get_be_def put_be_def)

lemma take_put_be [simp]: "m = n \<Longrightarrow> take m (put_be n v @ bs) = put_be n v"
  and drop_put_be [simp]: "m = n \<Longrightarrow> drop m (put_be n v @ bs) = bs"
  by simp_all

lemma take_put_le [simp]: "m = n \<Longrightarrow> take m (put_le n v @ bs) = put_le n v"
  and drop_put_le [simp]: "m = n \<Longrightarrow> drop m (put_le n v @ bs) = bs"
  by simp_all

subsection \<open>Varints\<close>

function put_uvarint :: "64 word \<Rightarrow> byte list" where
  "put_uvarint x =
     (if x < 128 then [ucast x] else (ucast x OR 128) # put_uvarint (drop_bit 7 x))"
  by pat_completeness auto
termination
proof (relation "measure unat")
  fix x :: "64 word"
  assume "\<not> x < 128"
  then have "128 \<le> unat x" by (simp add: word_less_nat_alt)
  moreover have "unat (drop_bit 7 x) = unat x div 128"
    by (simp only: unat_drop_bit_eq) (simp add: drop_bit_eq_div)
  ultimately show "(drop_bit 7 x, x) \<in> measure unat" by simp
qed simp

declare put_uvarint.simps [simp del]

text \<open>
  \<open>binary.Uvarint\<close> returns the value and the number of bytes read; \<open>Inl\<close> stands for the
  two failures, 0 bytes read for a truncated input and a negative count for an overflow of
  64 bits.
\<close>

datatype uvarint_error = VarintTruncated | VarintOverflow

fun uvarint_loop :: "64 word \<Rightarrow> nat \<Rightarrow> byte list \<Rightarrow> uvarint_error + (64 word \<times> nat)" where
  "uvarint_loop x i [] = Inl VarintTruncated"
| "uvarint_loop x i (b # bs) =
     (if i = 10 then Inl VarintOverflow
      else if b < 128 then
        (if i = 9 \<and> b > 1 then Inl VarintOverflow
         else Inr (x OR push_bit (7 * i) (ucast b), Suc i))
      else uvarint_loop (x OR push_bit (7 * i) (ucast (b AND 127))) (Suc i) bs)"

definition uvarint :: "byte list \<Rightarrow> uvarint_error + (64 word \<times> nat)" where
  "uvarint bs = uvarint_loop 0 0 bs"

lemma bit_128: "bit (128 :: 'a::len word) k \<longleftrightarrow> k = 7 \<and> k < LENGTH('a)"
proof -
  have "(128 :: 'a word) = push_bit 7 1" by simp
  then show ?thesis by (simp only: bit_push_bit_iff) (auto simp: bit_1_iff)
qed

lemma word64_split_7:
  fixes x :: "64 word"
  shows "push_bit s (ucast ((ucast x OR 128 :: byte) AND 127)) OR push_bit (s + 7) (drop_bit 7 x)
    = push_bit s x"
proof -
  have "(c AND 127) = take_bit 7 c" for c :: byte
    by (simp add: take_bit_eq_mask mask_eq_exp_minus_1)
  moreover have "take_bit 7 (ucast x OR 128 :: byte) = take_bit 7 (ucast x)"
    by (rule bit_eqI) (auto simp: bit_take_bit_iff bit_or_iff bit_128)
  ultimately have key: "((ucast x OR 128 :: byte) AND 127) = take_bit 7 (ucast x)" by simp
  have "bit (push_bit s (ucast (take_bit 7 (ucast x :: byte))) OR push_bit (s + 7) (drop_bit 7 x)) n
    = bit (push_bit s x) n" for n
    by (cases "s + 7 \<le> n") (auto simp: bit_simps)
  then show ?thesis unfolding key by (rule bit_eqI)
qed

lemma ucast_byte_small: "(x :: 64 word) < 128 \<Longrightarrow> ucast (ucast x :: byte) = x"
proof -
  assume "x < 128"
  then have "unat x < 256" by (simp add: word_less_nat_alt)
  then have "unat (take_bit 8 x) = unat x"
    by (simp only: unsigned_take_bit_eq) (simp only: take_bit_nat_eq_self_iff, simp)
  moreover have "ucast (ucast x :: byte) = take_bit 8 x"
    by (rule bit_eqI) (auto simp: bit_simps)
  ultimately show ?thesis by (simp only: word_unat_eq_iff)
qed

lemma ucast_or_128: "\<not> (ucast (x :: 64 word) OR 128 :: byte) < 128"
proof
  assume "(ucast x OR 128 :: byte) < 128"
  then have "take_bit 7 (ucast x OR 128 :: byte) = (ucast x OR 128)"
    by (simp add: less_mask_eq take_bit_eq_mask)
  then have "bit (take_bit 7 (ucast x OR 128 :: byte)) 7"
    by (simp add: bit_or_iff bit_128)
  then show False by (simp add: bit_take_bit_iff)
qed

lemma unat_drop_7: "unat (drop_bit 7 (x :: 64 word)) = unat x div 128"
  by (simp only: unat_drop_bit_eq) (simp add: drop_bit_eq_div)

lemma uvarint_loop_put:
  "unat x < 2 ^ (64 - 7 * i) \<Longrightarrow> i \<le> 9 \<Longrightarrow>
   uvarint_loop a i (put_uvarint x @ rest)
     = Inr (a OR push_bit (7 * i) x, i + length (put_uvarint x))"
proof (induction x arbitrary: a i rule: put_uvarint.induct)
  case (1 x)
  show ?case
  proof (cases "x < 128")
    case True
    then have lt: "(ucast x :: byte) < 128"
      by (simp add: word_less_nat_alt unat_ucast_byte)
    have "\<not> (ucast x :: byte) > 1" if "i = 9"
      using "1.prems" that by (simp add: word_less_nat_alt unat_ucast_byte)
    with True lt "1.prems" show ?thesis
      by (subst put_uvarint.simps) (auto simp: ucast_byte_small put_uvarint.simps)
  next
    case False
    then have big: "128 \<le> unat x" by (simp add: word_less_nat_alt)
    have i8: "i \<le> 8"
    proof (rule ccontr)
      assume "\<not> i \<le> 8"
      with "1.prems"(2) have "i = 9" by simp
      with "1.prems"(1) big show False by simp
    qed
    have "(2::nat) ^ (64 - 7 * i) = 2 ^ (64 - 7 * Suc i) * 128"
    proof -
      have "64 - 7 * i = (64 - 7 * Suc i) + 7" using i8 by simp
      then show ?thesis by (simp only: power_add) simp
    qed
    then have b: "unat (drop_bit 7 x) < 2 ^ (64 - 7 * Suc i)"
      using "1.prems"(1) by (simp add: unat_drop_7 less_mult_imp_div_less)
    have s: "7 * Suc i = 7 * i + 7" by simp
    have put: "put_uvarint x = (ucast x OR 128) # put_uvarint (drop_bit 7 x)"
      using False by (subst put_uvarint.simps) simp
    have "uvarint_loop a i (put_uvarint x @ rest) =
      uvarint_loop (a OR push_bit (7 * i) (ucast ((ucast x OR 128 :: byte) AND 127))) (Suc i)
        (put_uvarint (drop_bit 7 x) @ rest)"
      using i8 ucast_or_128 [of x] by (simp add: put)
    also have "\<dots> = Inr ((a OR push_bit (7 * i) (ucast ((ucast x OR 128 :: byte) AND 127)))
        OR push_bit (7 * Suc i) (drop_bit 7 x), Suc i + length (put_uvarint (drop_bit 7 x)))"
      using "1.IH" [OF False b] i8 by simp
    finally show ?thesis
      by (simp only: s or.assoc word64_split_7) (simp add: put)
  qed
qed

lemma unat_lt_16: "unat (x :: 16 word) < 65536"
  using unsigned_less [of x] by simp

lemma unat_lt_32: "unat (x :: 32 word) < 4294967296"
  using unsigned_less [of x] by simp

lemma unat_lt_64: "unat (x :: 64 word) < 18446744073709551616"
  using unsigned_less [of x] by simp

lemma uvarint_put [codec_simps]:
  "uvarint (put_uvarint x @ rest) = Inr (x, length (put_uvarint x))"
  using uvarint_loop_put [of x 0 0 rest] unat_lt_64 [of x] by (simp add: uvarint_def)

lemma put_uvarint_not_Nil [simp]: "put_uvarint x \<noteq> []"
  by (subst put_uvarint.simps) simp

lemma uvarint_loop_length:
  "uvarint_loop x i bs = Inr (v, n) \<Longrightarrow> i < n \<and> n \<le> i + length bs"
  by (induction x i bs rule: uvarint_loop.induct) (auto split: if_splits)

lemma uvarint_length: "uvarint bs = Inr (v, n) \<Longrightarrow> 0 < n \<and> n \<le> length bs"
  using uvarint_loop_length [of 0 0 bs v n] by (simp add: uvarint_def)

end
