(* ===== verification/MetaTypes.thy ===== *)
theory MetaTypes
  imports Bytes "HOL-Library.Multiset"
begin

text \<open>
  The value types of the satellite's metadata database (\<open>satellite/metabase/common.go\<close>):
  locations of buckets, objects and segments and their textual and compact keys, segment
  positions, and the piece list of a segment with its verification, comparison and update.
\<close>

subsection \<open>Errors\<close>

text \<open>The error classes of the package; the string is the message without its arguments. A
  run time panic of the Go program (an index out of range) is an error of its own.\<close>

datatype meta_error =
    MetaError string
  | ErrInvalidRequest string
  | ErrObjectAlreadyExists
  | ErrPendingObjectMissing
  | ErrPermissionDenied string
  | ErrObjectNotFound string
  | ErrSegmentNotFound string
  | ErrValueChanged string
  | Panic string

type_synonym 'a meta_res = "meta_error + 'a"

subsection \<open>Locations\<close>

record BucketLocation =
  ProjectID :: uuid
  BucketName :: string

record ObjectLocation = BucketLocation +
  ObjectKey :: string

record SegmentPosition =
  Part :: "32 word"
  Index :: "32 word"

record SegmentLocation = ObjectLocation +
  Position :: SegmentPosition

record ObjectStream = ObjectLocation +
  Version :: int
  StreamID :: uuid

definition LastSegmentName :: string where "LastSegmentName = ''l''"

definition LastSegmentIndex :: "32 word" where "LastSegmentIndex = 4294967295"

definition BucketLocation_Verify :: "BucketLocation \<Rightarrow> unit meta_res" where
  "BucketLocation_Verify loc =
     (if ProjectID loc = 0 then Inl (ErrInvalidRequest ''ProjectID missing'')
      else if BucketName loc = [] then Inl (ErrInvalidRequest ''BucketName missing'')
      else Inr ())"

definition ObjectLocation_Verify :: "('a) ObjectLocation_scheme \<Rightarrow> unit meta_res" where
  "ObjectLocation_Verify obj =
     (if ProjectID obj = 0 then Inl (ErrInvalidRequest ''ProjectID missing'')
      else if BucketName obj = [] then Inl (ErrInvalidRequest ''BucketName missing'')
      else if length (ObjectKey obj) = 0 then Inl (ErrInvalidRequest ''ObjectKey missing'')
      else Inr ())"

definition SegmentLocation_Verify :: "SegmentLocation \<Rightarrow> unit meta_res" where
  "SegmentLocation_Verify seg =
     (if ProjectID seg = 0 then Inl (ErrInvalidRequest ''ProjectID missing'')
      else if BucketName seg = [] then Inl (ErrInvalidRequest ''BucketName missing'')
      else if length (ObjectKey seg) = 0 then Inl (ErrInvalidRequest ''ObjectKey missing'')
      else Inr ())"

definition ObjectStream_Verify :: "ObjectStream \<Rightarrow> unit meta_res" where
  "ObjectStream_Verify obj =
     (if ProjectID obj = 0 then Inl (ErrInvalidRequest ''ProjectID missing'')
      else if BucketName obj = [] then Inl (ErrInvalidRequest ''BucketName missing'')
      else if length (ObjectKey obj) = 0 then Inl (ErrInvalidRequest ''ObjectKey missing'')
      else if Version obj < 0 then Inl (ErrInvalidRequest ''Version invalid'')
      else if StreamID obj = 0 then Inl (ErrInvalidRequest ''StreamID missing'')
      else Inr ())"

definition SegmentLocation_Bucket :: "SegmentLocation \<Rightarrow> BucketLocation" where
  "SegmentLocation_Bucket seg = \<lparr>ProjectID = ProjectID seg, BucketName = BucketName seg\<rparr>"

definition SegmentLocation_Object :: "SegmentLocation \<Rightarrow> ObjectLocation" where
  "SegmentLocation_Object seg =
     \<lparr>ProjectID = ProjectID seg, BucketName = BucketName seg, ObjectKey = ObjectKey seg\<rparr>"

definition ObjectLocation_Bucket :: "ObjectLocation \<Rightarrow> BucketLocation" where
  "ObjectLocation_Bucket obj = \<lparr>ProjectID = ProjectID obj, BucketName = BucketName obj\<rparr>"

definition ObjectStream_Location :: "ObjectStream \<Rightarrow> ObjectLocation" where
  "ObjectStream_Location obj =
     \<lparr>ProjectID = ProjectID obj, BucketName = BucketName obj, ObjectKey = ObjectKey obj\<rparr>"

lemma ObjectLocation_Verify_ok:
  "ObjectLocation_Verify obj = Inr u \<longleftrightarrow>
     ProjectID obj \<noteq> 0 \<and> BucketName obj \<noteq> [] \<and> ObjectKey obj \<noteq> []"
  by (simp add: ObjectLocation_Verify_def)

lemma ObjectStream_Verify_ok:
  "ObjectStream_Verify obj = Inr u \<longleftrightarrow>
     ProjectID obj \<noteq> 0 \<and> BucketName obj \<noteq> [] \<and> ObjectKey obj \<noteq> [] \<and>
     0 \<le> Version obj \<and> StreamID obj \<noteq> 0"
  by (auto simp: ObjectStream_Verify_def)

subsection \<open>Bucket prefixes\<close>

text \<open>
  \<open>uuid.UUID.String\<close> and \<open>uuid.FromString\<close> belong to the \<open>common/uuid\<close> package, which is
  not part of the repository: they are the parameters \<open>uuid_string\<close> and \<open>uuid_from_string\<close>.
\<close>

definition ParseBucketPrefix ::
  "(string \<Rightarrow> uuid option) \<Rightarrow> string \<Rightarrow> BucketLocation meta_res" where
  "ParseBucketPrefix uuid_from_string pre =
     (case split_all (CHR ''/'') pre of
        [e0, e1] \<Rightarrow>
          (case uuid_from_string e0 of
             None \<Rightarrow> Inl (MetaError ''uuid'')
           | Some projectID \<Rightarrow> Inr \<lparr>ProjectID = projectID, BucketName = e1\<rparr>)
      | _ \<Rightarrow> Inl (MetaError ''invalid prefix''))"

definition BucketLocation_Prefix :: "(uuid \<Rightarrow> string) \<Rightarrow> BucketLocation \<Rightarrow> string" where
  "BucketLocation_Prefix uuid_string loc = uuid_string (ProjectID loc) @ ''/'' @ BucketName loc"

text \<open>The compact form starts with the 16 bytes of the project id.\<close>

definition byte_char :: "byte \<Rightarrow> char" where
  "byte_char b = char_of (unat b)"

definition char_byte :: "char \<Rightarrow> byte" where
  "char_byte c = of_nat (of_char c)"

lemma unat_byte_less: "unat (b :: byte) < 256"
  using unsigned_less [of b] by simp

lemma char_byte_char [simp]: "char_byte (byte_char b) = b"
  using unat_byte_less [of b] by (simp add: char_byte_def byte_char_def)

definition ParseCompactBucketPrefix :: "byte list \<Rightarrow> BucketLocation meta_res" where
  "ParseCompactBucketPrefix compact =
     (if length compact < 16 then Inl (MetaError ''invalid prefix'')
      else Inr \<lparr>ProjectID = get_be (take 16 compact),
                BucketName = map byte_char (drop 16 compact)\<rparr>)"

definition BucketLocation_CompactPrefix :: "BucketLocation \<Rightarrow> byte list" where
  "BucketLocation_CompactPrefix loc =
     put_be 16 (ProjectID loc) @ map char_byte (BucketName loc)"

lemma byte_char_byte [simp]: "byte_char (char_byte c) = c"
proof -
  have "unat (of_nat (of_char c) :: byte) = of_char c"
    by (simp add: unat_of_nat)
  then show ?thesis by (simp add: char_byte_def byte_char_def)
qed

subsection \<open>Segment positions\<close>

definition SegmentPositionFromEncoded :: "64 word \<Rightarrow> SegmentPosition" where
  "SegmentPositionFromEncoded v = \<lparr>Part = ucast (drop_bit 32 v), Index = ucast v\<rparr>"

definition SegmentPosition_Encode :: "SegmentPosition \<Rightarrow> 64 word" where
  "SegmentPosition_Encode pos = push_bit 32 (ucast (Part pos)) OR ucast (Index pos)"

definition SegmentPosition_Less :: "SegmentPosition \<Rightarrow> SegmentPosition \<Rightarrow> bool" where
  "SegmentPosition_Less pos b \<longleftrightarrow> SegmentPosition_Encode pos < SegmentPosition_Encode b"

lemma SegmentPosition_decode_encode [simp]:
  "SegmentPositionFromEncoded (SegmentPosition_Encode pos) = pos"
proof -
  have "ucast (drop_bit 32 (SegmentPosition_Encode pos)) = Part pos"
    unfolding SegmentPosition_Encode_def by (rule bit_eqI) (auto simp: bit_simps dest: bit_imp_le_length)
  moreover have "ucast (SegmentPosition_Encode pos) = Index pos"
    unfolding SegmentPosition_Encode_def by (rule bit_eqI) (auto simp: bit_simps)
  ultimately show ?thesis by (simp add: SegmentPositionFromEncoded_def)
qed

lemma SegmentPosition_encode_decode [simp]:
  "SegmentPosition_Encode (SegmentPositionFromEncoded v) = v"
  unfolding SegmentPosition_Encode_def SegmentPositionFromEncoded_def
proof (rule bit_eqI)
  fix n
  show "bit (push_bit 32 (ucast (Part \<lparr>Part = ucast (drop_bit 32 v), Index = ucast v\<rparr>)) OR
      ucast (Index \<lparr>Part = ucast (drop_bit 32 v), Index = ucast v\<rparr>) :: 64 word) n = bit v n"
    by (cases "n < 32") (auto simp: bit_simps dest: bit_imp_le_length)
qed

lemma SegmentPosition_Encode_inj:
  "SegmentPosition_Encode p = SegmentPosition_Encode q \<longleftrightarrow> p = q"
  by (metis SegmentPosition_decode_encode)

lemma unat_SegmentPosition_Encode:
  "unat (SegmentPosition_Encode pos) = unat (Part pos) * 4294967296 + unat (Index pos)"
proof -
  have p: "unat (Part pos) < 2 ^ 32" and i: "unat (Index pos) < 2 ^ 32"
    using unsigned_less [of "Part pos"] unsigned_less [of "Index pos"] by simp_all
  have "push_bit 32 (unat (Part pos)) < 2 ^ 64"
    using p by (simp add: push_bit_eq_mult)
  then have "unat (SegmentPosition_Encode pos) = push_bit 32 (unat (Part pos)) OR unat (Index pos)"
    using p i by (simp add: SegmentPosition_Encode_def unsigned_or_eq unsigned_push_bit_eq
        unsigned_ucast_eq take_bit_nat_eq_self)
  also have "\<dots> = push_bit 32 (unat (Part pos)) + unat (Index pos)"
  proof (rule disjunctive_add_eq_or [symmetric])
    have "take_bit 32 (unat (Index pos)) = unat (Index pos)"
      using i by (simp add: take_bit_nat_eq_self)
    then have "bit (unat (Index pos)) k \<Longrightarrow> k < 32" for k
      by (metis bit_take_bit_iff)
    then show "push_bit 32 (unat (Part pos)) AND unat (Index pos) = 0"
      by (intro bit_eqI) (auto simp: bit_simps not_le)
  qed
  finally show ?thesis by (simp add: push_bit_eq_mult)
qed


lemma SegmentPosition_Less_iff:
  "SegmentPosition_Less p q \<longleftrightarrow> Part p < Part q \<or> (Part p = Part q \<and> Index p < Index q)"
proof -
  have "unat (Index p) < 4294967296" "unat (Index q) < 4294967296"
    using unsigned_less [of "Index p"] unsigned_less [of "Index q"] by simp_all
  then show ?thesis
    by (auto simp: SegmentPosition_Less_def word_less_nat_alt unat_SegmentPosition_Encode
        word_unat_eq_iff)
qed

subsection \<open>Segment keys\<close>

text \<open>
  \<open>join_paths\<close> is the parameter for \<open>storx.JoinPaths\<close> of the \<open>common\<close> module. A position
  whose index is \<open>LastSegmentIndex\<close> is written as \<open>l\<close>, whatever its part.
\<close>

definition ParseSegmentKey ::
  "(string \<Rightarrow> uuid option) \<Rightarrow> string \<Rightarrow> SegmentLocation meta_res" where
  "ParseSegmentKey uuid_from_string encoded =
     (case split_n 4 (CHR ''/'') encoded of
        [e0, e1, e2, e3] \<Rightarrow>
          (case uuid_from_string e0 of
             None \<Rightarrow> Inl (MetaError ''invalid key'')
           | Some projectID \<Rightarrow>
               (if e1 = LastSegmentName then
                  Inr \<lparr>ProjectID = projectID, BucketName = e2, ObjectKey = e3,
                       Position = \<lparr>Part = 0, Index = LastSegmentIndex\<rparr>\<rparr>
                else if \<not> has_prefix e1 ''s'' then
                  Inl (MetaError ''missing segment prefix'')
                else (case parse_uint64 (drop 1 e1) of
                    None \<Rightarrow> Inl (MetaError ''segment number'')
                  | Some parsed \<Rightarrow>
                      Inr \<lparr>ProjectID = projectID, BucketName = e2, ObjectKey = e3,
                           Position = SegmentPositionFromEncoded (of_nat parsed)\<rparr>)))
      | _ \<Rightarrow> Inl (MetaError ''invalid key''))"

definition SegmentLocation_Encode ::
  "(uuid \<Rightarrow> string) \<Rightarrow> (string list \<Rightarrow> string) \<Rightarrow> SegmentLocation \<Rightarrow> string" where
  "SegmentLocation_Encode uuid_string join_paths seg =
     (let segment =
        (if Index (Position seg) \<noteq> LastSegmentIndex
         then ''s'' @ format_uint (unat (SegmentPosition_Encode (Position seg)))
         else LastSegmentName)
      in join_paths [uuid_string (ProjectID seg), segment, BucketName seg, ObjectKey seg])"

definition join_slash :: "string list \<Rightarrow> string" where
  "join_slash parts =
     (case parts of [] \<Rightarrow> [] | p # ps \<Rightarrow> p @ concat (map (\<lambda>q. CHR ''/'' # q) ps))"

lemma split_four:
  "CHR ''/'' \<notin> set a \<Longrightarrow> CHR ''/'' \<notin> set b \<Longrightarrow> CHR ''/'' \<notin> set c \<Longrightarrow>
   split_n 4 (CHR ''/'') (a @ CHR ''/'' # b @ CHR ''/'' # c @ CHR ''/'' # d) = [a, b, c, d]"
  by (simp add: numeral_eq_Suc index_byte_append)

lemma segment_name_no_slash:
  "CHR ''/'' \<notin> set (''s'' @ format_uint n)" "CHR ''/'' \<notin> set LastSegmentName"
  by (simp_all add: format_uint_no_slash LastSegmentName_def)

subsection \<open>Pieces\<close>

record Piece =
  Number :: "16 word"
  StorageNode :: node_id

type_synonym Pieces = "Piece list"

definition zero_Piece :: Piece where
  "zero_Piece = \<lparr>Number = 0, StorageNode = 0\<rparr>"

fun Pieces_Verify_from :: "Piece \<Rightarrow> Pieces \<Rightarrow> unit meta_res" where
  "Pieces_Verify_from current [] = Inr ()"
| "Pieces_Verify_from current (piece # rest) =
     (if Number piece = Number current then
        Inl (ErrInvalidRequest ''duplicated piece number'')
      else if Number piece < Number current then
        Inl (ErrInvalidRequest ''pieces should be ordered'')
      else if StorageNode piece = 0 then
        Inl (ErrInvalidRequest ''piece number is missing storage node id'')
      else Pieces_Verify_from piece rest)"

fun Pieces_Verify :: "Pieces \<Rightarrow> unit meta_res" where
  "Pieces_Verify [] = Inl (ErrInvalidRequest ''pieces missing'')"
| "Pieces_Verify (p0 # rest) =
     (if StorageNode p0 = 0 then
        Inl (ErrInvalidRequest ''piece number is missing storage node id'')
      else Pieces_Verify_from p0 rest)"

text \<open>\<open>sort.Slice\<close> by piece number; for equal numbers Go leaves the order open, the model
  takes the stable one.\<close>

definition sort_pieces :: "Pieces \<Rightarrow> Pieces" where
  "sort_pieces ps = sort_key Number ps"

definition Pieces_Equal :: "Pieces \<Rightarrow> Pieces \<Rightarrow> bool" where
  "Pieces_Equal p pieces =
     (if length p \<noteq> length pieces then False
      else list_all2 (\<lambda>a b. Number a = Number b \<and> StorageNode a = StorageNode b)
             (sort_pieces p) (sort_pieces pieces))"

text \<open>
  \<open>Update\<close> collects the pieces in a map keyed by piece number, kept here as the list of its
  entries. Reading a missing key gives Go's zero value.
\<close>

definition map_put :: "Piece \<Rightarrow> Pieces \<Rightarrow> Pieces" where
  "map_put piece m = filter (\<lambda>q. Number q \<noteq> Number piece) m @ [piece]"

definition map_get :: "Pieces \<Rightarrow> 16 word \<Rightarrow> Piece" where
  "map_get m n = (case find (\<lambda>q. Number q = n) m of None \<Rightarrow> zero_Piece | Some q \<Rightarrow> q)"

definition map_has :: "Pieces \<Rightarrow> 16 word \<Rightarrow> bool" where
  "map_has m n = (\<exists>q \<in> set m. Number q = n)"

definition update_remove :: "Piece \<Rightarrow> Pieces \<Rightarrow> Pieces" where
  "update_remove piece m =
     (if piece = zero_Piece then m
      else let existing = map_get m (Number piece) in
        if existing \<noteq> zero_Piece \<and> StorageNode existing = StorageNode piece
        then filter (\<lambda>q. Number q \<noteq> Number piece) m else m)"

fun update_add :: "Pieces \<Rightarrow> Pieces \<Rightarrow> Pieces meta_res" where
  "update_add m [] = Inr m"
| "update_add m (piece # rest) =
     (if piece = zero_Piece then update_add m rest
      else if map_has m (Number piece) then
        Inl (MetaError ''piece to add already exists'')
      else update_add (map_put piece m) rest)"

definition Pieces_Update :: "Pieces \<Rightarrow> Pieces \<Rightarrow> Pieces \<Rightarrow> Pieces meta_res" where
  "Pieces_Update p piecesToAdd piecesToRemove =
     (case update_add (fold update_remove piecesToRemove (fold map_put p [])) piecesToAdd of
        Inl e \<Rightarrow> Inl e
      | Inr m \<Rightarrow> Inr (sort_pieces m))"

definition Pieces_Add :: "Pieces \<Rightarrow> Pieces \<Rightarrow> Pieces meta_res" where
  "Pieces_Add p piecesToAdd = Pieces_Update p piecesToAdd []"

definition Pieces_Remove :: "Pieces \<Rightarrow> Pieces \<Rightarrow> Pieces meta_res" where
  "Pieces_Remove p piecesToRemove =
     (if length p = 0 then Inl (ErrInvalidRequest ''pieces missing'')
      else Pieces_Update p [] piecesToRemove)"

fun FindByNum :: "Pieces \<Rightarrow> int \<Rightarrow> Piece option" where
  "FindByNum [] pieceNum = None"
| "FindByNum (piece # rest) pieceNum =
     (if uint (Number piece) = pieceNum then Some piece else FindByNum rest pieceNum)"


subsection \<open>The piece list as a map\<close>

lemma Pieces_Verify_from_ok:
  "Pieces_Verify_from c ps = Inr u \<longleftrightarrow>
     sorted_wrt (\<lambda>a b. Number a < Number b) (c # ps) \<and> (\<forall>p \<in> set ps. StorageNode p \<noteq> 0)"
proof (induction c ps rule: Pieces_Verify_from.induct)
  case (2 c p rest)
  have "Number c < Number p \<Longrightarrow> (\<forall>x\<in>set rest. Number p < Number x) \<Longrightarrow>
    (\<forall>x\<in>set rest. Number c < Number x)"
    using less_trans by blast
  with 2 show ?case by auto
qed simp

lemma Pieces_Verify_ok:
  "Pieces_Verify ps = Inr u \<longleftrightarrow>
     ps \<noteq> [] \<and> sorted_wrt (\<lambda>a b. Number a < Number b) ps \<and> (\<forall>p \<in> set ps. StorageNode p \<noteq> 0)"
  by (cases ps) (auto simp: Pieces_Verify_from_ok simp del: sorted_wrt.simps)

lemma sorted_wrt_Number_distinct:
  "sorted_wrt (\<lambda>a b. Number a < Number b) ps \<Longrightarrow> distinct (map Number ps)"
  by (induction ps) auto

lemma strict_sorted_sort_pieces:
  "distinct (map Number ps) \<Longrightarrow> sorted_wrt (\<lambda>a b. Number a < Number b) (sort_pieces ps)"
proof -
  assume d: "distinct (map Number ps)"
  then have "mset (map Number (sort_pieces ps)) = mset (map Number ps)"
    by (simp add: sort_pieces_def)
  with d have "distinct (map Number (sort_pieces ps))"
    using mset_eq_imp_distinct_iff by blast
  then show ?thesis
    by (simp add: sort_pieces_def sorted_wrt_map strict_sorted_iff flip: sorted_wrt_map)
qed

lemma set_sort_pieces [simp]: "set (sort_pieces ps) = set ps"
  by (simp add: sort_pieces_def)

lemma sort_pieces_eq_iff:
  assumes "distinct (map Number ps)" "distinct (map Number qs)"
  shows "sort_pieces ps = sort_pieces qs \<longleftrightarrow> set ps = set qs"
proof
  assume "sort_pieces ps = sort_pieces qs"
  then show "set ps = set qs" by (metis set_sort_pieces)
next
  assume "set ps = set qs"
  moreover have "distinct ps" "distinct qs"
    using assms by (simp_all add: distinct_map)
  ultimately have "mset ps = mset qs" by (simp add: set_eq_iff_mset_eq_distinct)
  then show "sort_pieces ps = sort_pieces qs"
    unfolding sort_pieces_def
    by (rule sort_key_eq_sort_key) (use assms in \<open>auto simp: distinct_map\<close>)
qed

lemma filter_Number_id:
  "n \<notin> Number ` set m \<Longrightarrow> filter (\<lambda>q. Number q \<noteq> n) m = m"
  by (induction m) auto

lemma map_has_image: "map_has m n \<longleftrightarrow> n \<in> Number ` set m"
  by (auto simp: map_has_def image_iff)

lemma fold_map_put: "distinct (map Number (m @ ps)) \<Longrightarrow> fold map_put ps m = m @ ps"
proof (induction ps arbitrary: m)
  case (Cons p ps)
  have "filter (\<lambda>q. Number q \<noteq> Number p) m = m"
    using Cons.prems by (intro filter_Number_id) auto
  with Cons show ?case by (simp add: map_put_def)
qed simp

lemma update_remove_filter:
  assumes "distinct (map Number m)" "\<forall>p \<in> set m. StorageNode p \<noteq> 0"
  shows "update_remove r m = filter (\<lambda>q. q \<noteq> r) m"
proof (cases "r \<in> set m")
  case True
  have u: "q = r" if "q \<in> set m" "Number q = Number r" for q
    using assms(1) True that by (auto simp: distinct_map dest: inj_onD)
  have "find (\<lambda>q. Number q = Number r) m \<noteq> None"
    using True by (auto simp: find_None_iff)
  then obtain q where "find (\<lambda>q. Number q = Number r) m = Some q" by auto
  moreover then have "q = r" using u by (auto simp: find_Some_iff)
  moreover have "r \<noteq> zero_Piece" using True assms(2) by (auto simp: zero_Piece_def)
  moreover have "filter (\<lambda>q. Number q \<noteq> Number r) m = filter (\<lambda>q. q \<noteq> r) m"
    by (rule filter_cong) (use u in auto)
  ultimately show ?thesis by (simp add: update_remove_def map_get_def)
next
  case False
  have "map_get m (Number r) \<noteq> zero_Piece \<Longrightarrow>
      StorageNode (map_get m (Number r)) \<noteq> StorageNode r"
  proof
    assume a: "map_get m (Number r) \<noteq> zero_Piece"
      and b: "StorageNode (map_get m (Number r)) = StorageNode r"
    from a obtain q where f: "find (\<lambda>q. Number q = Number r) m = Some q"
      by (auto simp: map_get_def split: option.splits)
    with b have "q = r"
      by (auto simp: map_get_def find_Some_iff intro!: Piece.equality)
    with f False show False by (auto simp: find_Some_iff)
  qed
  moreover have "filter (\<lambda>q. q \<noteq> r) m = m"
    using False by (auto simp: filter_id_conv)
  ultimately show ?thesis unfolding update_remove_def Let_def by (metis (full_types))
qed

lemma distinct_map_filter_Number:
  "distinct (map Number m) \<Longrightarrow> distinct (map Number (filter P m))"
  by (rule distinct_map_filter)

lemma fold_update_remove:
  "distinct (map Number m) \<Longrightarrow> \<forall>p \<in> set m. StorageNode p \<noteq> 0 \<Longrightarrow>
   fold update_remove rs m = filter (\<lambda>q. q \<notin> set rs) m"
proof (induction rs arbitrary: m)
  case (Cons r rs)
  have "fold update_remove rs (filter (\<lambda>q. q \<noteq> r) m) =
      filter (\<lambda>q. q \<notin> set rs) (filter (\<lambda>q. q \<noteq> r) m)"
    by (rule Cons.IH) (use Cons.prems in \<open>auto simp: distinct_map_filter_Number\<close>)
  then show ?case
    using Cons.prems by (simp add: update_remove_filter conj_commute)
qed simp

lemma update_add_spec:
  "distinct (map Number m) \<Longrightarrow>
   update_add m as =
     (let added = filter (\<lambda>q. q \<noteq> zero_Piece) as in
      if distinct (map Number (m @ added)) then Inr (m @ added)
      else Inl (MetaError ''piece to add already exists''))"
proof (induction m as rule: update_add.induct)
  case (2 m p rest)
  show ?case
  proof (cases "p = zero_Piece \<or> map_has m (Number p)")
    case True
    with 2 show ?thesis by (auto simp: map_has_image Let_def)
  next
    case False
    then have "Number p \<notin> Number ` set m" by (simp add: map_has_image)
    moreover from this have "map_put p m = m @ [p]"
      by (simp add: map_put_def filter_Number_id)
    ultimately show ?thesis using False 2 by (simp add: Let_def)
  qed
qed simp


subsection \<open>Properties\<close>

text \<open>
  Lemma. On verified pieces, \<open>Pieces.Update\<close> keeps exactly the pieces that are not
  listed for removal (number and node must both match), adds every non-empty new piece, and
  returns the union ordered by piece number; it fails exactly when a number would be used
  twice.
\<close>

theorem Pieces_Update_spec:
  assumes "Pieces_Verify p = Inr ()"
  shows "Pieces_Update p a r =
    (let kept = filter (\<lambda>q. q \<notin> set r) p; added = filter (\<lambda>q. q \<noteq> zero_Piece) a in
     if distinct (map Number (kept @ added)) then Inr (sort_pieces (kept @ added))
     else Inl (MetaError ''piece to add already exists''))"
proof -
  have d: "distinct (map Number p)" and n: "\<forall>q \<in> set p. StorageNode q \<noteq> 0"
    using assms by (auto simp: Pieces_Verify_ok sorted_wrt_Number_distinct)
  have "fold map_put p [] = p" using fold_map_put [of "[]" p] d by simp
  then show ?thesis
    using d n by (simp add: Pieces_Update_def fold_update_remove update_add_spec
        distinct_map_filter_Number Let_def)
qed

definition ex_piece :: "16 word \<Rightarrow> node_id \<Rightarrow> Piece" where
  "ex_piece n s = \<lparr>Number = n, StorageNode = s\<rparr>"

theorem Pieces_Update_spec_witness:
  "Pieces_Update [ex_piece 1 10, ex_piece 4 11] [ex_piece 2 12] [ex_piece 4 11, ex_piece 1 13]
     = Inr [ex_piece 1 10, ex_piece 2 12]"
proof -
  have v: "Pieces_Verify [ex_piece 1 10, ex_piece 4 11] = Inr ()"
    by (simp add: ex_piece_def)
  show ?thesis
    by (subst Pieces_Update_spec [OF v])
      (simp add: ex_piece_def zero_Piece_def Let_def sort_pieces_def)
qed

text \<open>
  Lemma. A successful update of verified pieces with pieces that name their storage
  node yields, unless it is empty, pieces that pass \<open>Pieces.Verify\<close> again.
\<close>

theorem Pieces_Update_verified:
  assumes "Pieces_Verify p = Inr ()" and "\<forall>x \<in> set a. StorageNode x \<noteq> 0"
    and "Pieces_Update p a r = Inr q" and "q \<noteq> []"
  shows "Pieces_Verify q = Inr ()"
proof -
  define kept added where "kept = filter (\<lambda>q. q \<notin> set r) p"
    and "added = filter (\<lambda>q. q \<noteq> zero_Piece) a"
  have d: "distinct (map Number p)" and n: "\<forall>q \<in> set p. StorageNode q \<noteq> 0"
    using assms(1) by (auto simp: Pieces_Verify_ok sorted_wrt_Number_distinct)
  have "fold map_put p [] = p" using fold_map_put [of "[]" p] d by simp
  then have "Pieces_Update p a r = (if distinct (map Number (kept @ added))
      then Inr (sort_pieces (kept @ added)) else Inl (MetaError ''piece to add already exists''))"
    using d n by (simp add: Pieces_Update_def fold_update_remove update_add_spec
        distinct_map_filter_Number kept_def added_def Let_def)
  with assms(3) have q: "q = sort_pieces (kept @ added)" and "distinct (map Number (kept @ added))"
    by (auto split: if_splits)
  then have "sorted_wrt (\<lambda>a b. Number a < Number b) q"
    using strict_sorted_sort_pieces by blast
  moreover have "\<forall>x \<in> set q. StorageNode x \<noteq> 0"
    using n assms(2) by (auto simp: q kept_def added_def)
  ultimately show ?thesis using assms(4) by (simp add: Pieces_Verify_ok)
qed

theorem Pieces_Update_verified_witness:
  "Pieces_Verify [ex_piece 1 10, ex_piece 2 12] = Inr ()"
  by (rule Pieces_Update_verified [of "[ex_piece 1 10]" "[ex_piece 2 12]" "[]"])
    (simp_all add: ex_piece_def Pieces_Update_def update_remove_def map_put_def map_has_def
      zero_Piece_def sort_pieces_def)

text \<open>
  Lemma. \<open>Pieces.Equal\<close> compares pieces as sets: two lists without repeated numbers
  are equal exactly when they hold the same pieces, in whatever order.
\<close>

theorem Pieces_Equal_iff:
  assumes "distinct (map Number p)" and "distinct (map Number q)"
  shows "Pieces_Equal p q \<longleftrightarrow> set p = set q"
proof -
  have "Number a = Number b \<and> StorageNode a = StorageNode b \<longleftrightarrow> a = b" for a b :: Piece
    by auto
  then have "Pieces_Equal p q \<longleftrightarrow> length p = length q \<and> sort_pieces p = sort_pieces q"
    by (simp add: Pieces_Equal_def list_all2_eq)
  moreover have "length p = length q" if "set p = set q"
  proof -
    have "distinct p" "distinct q" using assms by (simp_all add: distinct_map)
    with that show ?thesis by (metis distinct_card)
  qed
  ultimately show ?thesis using sort_pieces_eq_iff [OF assms] by auto
qed

theorem Pieces_Equal_iff_witness:
  "Pieces_Equal [ex_piece 7 1, ex_piece 2 5] [ex_piece 2 5, ex_piece 7 1]"
  using Pieces_Equal_iff [of "[ex_piece 7 1, ex_piece 2 5]" "[ex_piece 2 5, ex_piece 7 1]"]
  by (simp add: ex_piece_def insert_commute)

text \<open>
  Lemma. A segment key parses back to the location it was made from, provided the
  bucket name and the printed project id hold no slash and the position is either below the
  reserved last index or in part 0 (the key of the last index does not record the part).
\<close>

theorem SegmentKey_roundtrip:
  assumes "uuid_from_string (uuid_string (ProjectID seg)) = Some (ProjectID seg)"
    and "CHR ''/'' \<notin> set (uuid_string (ProjectID seg))"
    and "\<And>parts. join_paths parts = join_slash parts"
    and "CHR ''/'' \<notin> set (BucketName seg)"
    and "Index (Position seg) \<noteq> LastSegmentIndex \<or> Part (Position seg) = 0"
  shows "ParseSegmentKey uuid_from_string (SegmentLocation_Encode uuid_string join_paths seg) = Inr seg"
proof -
  let ?n = "unat (SegmentPosition_Encode (Position seg))"
  have parse: "parse_uint64 (format_uint ?n) = Some ?n"
    by (rule parse_uint64_format) (simp add: unat_lt_64)
  define name where "name = (if Index (Position seg) \<noteq> LastSegmentIndex
      then ''s'' @ format_uint ?n else LastSegmentName)"
  have "CHR ''/'' \<notin> set name"
    using segment_name_no_slash by (simp add: name_def)
  then have "split_n 4 (CHR ''/'') (SegmentLocation_Encode uuid_string join_paths seg) =
      [uuid_string (ProjectID seg), name, BucketName seg, ObjectKey seg]"
    using assms(2,3,4) by (simp add: SegmentLocation_Encode_def join_slash_def split_four name_def)
  moreover have "has_prefix (''s'' @ t) ''s''" for t by (simp add: has_prefix_iff)
  ultimately show ?thesis
    using assms(1,5) parse
    by (auto simp: ParseSegmentKey_def name_def LastSegmentName_def)
qed

definition ex_segment :: SegmentLocation where
  "ex_segment = \<lparr>ProjectID = 7, BucketName = ''pics'', ObjectKey = ''a/b'',
     Position = \<lparr>Part = 2, Index = 5\<rparr>\<rparr>"

theorem SegmentKey_roundtrip_witness:
  "ParseSegmentKey (\<lambda>s. map_option of_nat (parse_uint64 s))
     (SegmentLocation_Encode (\<lambda>u. format_uint (unat u)) join_slash ex_segment) = Inr ex_segment"
  by (rule SegmentKey_roundtrip)
    (simp_all add: ex_segment_def format_uint_no_slash parse_uint64_format LastSegmentIndex_def)

text \<open>
  Lemma. The key of a segment whose index is the reserved last index does not
  distinguish parts: such a location in any part other than 0 does not survive the round
  trip.
\<close>

theorem SegmentKey_last_index_loses_part:
  assumes "uuid_from_string (uuid_string (ProjectID seg)) = Some (ProjectID seg)"
    and "CHR ''/'' \<notin> set (uuid_string (ProjectID seg))"
    and "\<And>parts. join_paths parts = join_slash parts"
    and "CHR ''/'' \<notin> set (BucketName seg)"
    and "Index (Position seg) = LastSegmentIndex"
  shows "ParseSegmentKey uuid_from_string (SegmentLocation_Encode uuid_string join_paths seg)
    = Inr (seg\<lparr>Position := \<lparr>Part = 0, Index = LastSegmentIndex\<rparr>\<rparr>)"
proof -
  have "split_n 4 (CHR ''/'') (SegmentLocation_Encode uuid_string join_paths seg) =
      [uuid_string (ProjectID seg), LastSegmentName, BucketName seg, ObjectKey seg]"
    using assms(2-5) segment_name_no_slash(2)
    by (simp add: SegmentLocation_Encode_def join_slash_def split_four)
  then show ?thesis using assms(1) by (simp add: ParseSegmentKey_def)
qed

theorem SegmentKey_last_index_loses_part_witness:
  "ParseSegmentKey (\<lambda>s. map_option of_nat (parse_uint64 s))
     (SegmentLocation_Encode (\<lambda>u. format_uint (unat u)) join_slash
       (ex_segment\<lparr>Position := \<lparr>Part = 3, Index = LastSegmentIndex\<rparr>\<rparr>))
   = Inr (ex_segment\<lparr>Position := \<lparr>Part = 0, Index = LastSegmentIndex\<rparr>\<rparr>)"
  using SegmentKey_last_index_loses_part
    [of "\<lambda>s. map_option of_nat (parse_uint64 s)" "\<lambda>u. format_uint (unat u)"
      "ex_segment\<lparr>Position := \<lparr>Part = 3, Index = LastSegmentIndex\<rparr>\<rparr>" join_slash]
  by (simp add: ex_segment_def format_uint_no_slash parse_uint64_format)

text \<open>
  Lemma. The compact bucket prefix is a bijection between bucket locations and byte
  strings of at least 16 bytes: parsing inverts printing, and printing inverts every
  successful parse.
\<close>

theorem CompactPrefix_bijection:
  "ParseCompactBucketPrefix (BucketLocation_CompactPrefix loc) = Inr loc \<and>
   (\<forall>loc'. ParseCompactBucketPrefix bs = Inr loc' \<longrightarrow> BucketLocation_CompactPrefix loc' = bs)"
proof
  show "ParseCompactBucketPrefix (BucketLocation_CompactPrefix loc) = Inr loc"
    by (simp add: ParseCompactBucketPrefix_def BucketLocation_CompactPrefix_def
        get_be_put_be_full comp_def)
  show "\<forall>loc'. ParseCompactBucketPrefix bs = Inr loc' \<longrightarrow> BucketLocation_CompactPrefix loc' = bs"
  proof (intro allI impI)
    fix loc' assume p: "ParseCompactBucketPrefix bs = Inr loc'"
    then have "16 \<le> length bs" by (auto simp: ParseCompactBucketPrefix_def split: if_splits)
    then have "put_be 16 (get_be (take 16 bs) :: uuid) = take 16 bs"
      using put_be_get_be [of "take 16 bs", where ?'a = 128] by simp
    with p show "BucketLocation_CompactPrefix loc' = bs"
      by (auto simp: ParseCompactBucketPrefix_def BucketLocation_CompactPrefix_def comp_def
          split: if_splits)
  qed
qed

theorem CompactPrefix_bijection_witness:
  "ParseCompactBucketPrefix (BucketLocation_CompactPrefix \<lparr>ProjectID = 9, BucketName = ''b''\<rparr>)
     = Inr \<lparr>ProjectID = 9, BucketName = ''b''\<rparr>"
  using CompactPrefix_bijection [of "\<lparr>ProjectID = 9, BucketName = ''b''\<rparr>" "[]"] by simp

end
