(* ===== verification/Encoding.thy ===== *)
theory Encoding
  imports MetaTypes
begin

text \<open>
  The column codecs of the metadata database (\<open>satellite/metabase/encoding.go\<close>): how segment
  positions, encryption parameters and redundancy schemes become 64 bit columns and come
  back, and how a piece becomes an element of a byte array column. A column type's
  \<open>Value\<close> / \<open>Scan\<close> pair is an interface, the locale \<open>sql_codec\<close>; each codec of the code
  is an interpretation of it.
\<close>

subsection \<open>The interface\<close>

locale sql_codec =
  fixes val :: "'a \<Rightarrow> 'v meta_res"
    and scan :: "'v \<Rightarrow> 'a meta_res"
  assumes scan_val: "val x = Inr v \<Longrightarrow> scan v = Inr x"
begin

lemma val_inj: "val x = Inr v \<Longrightarrow> val y = Inr v \<Longrightarrow> x = y"
  using scan_val [of x v] scan_val [of y v] by simp

text \<open>Comparing two columns, as an SQL \<open>CASE WHEN\<close> does, compares the values.\<close>

lemma column_eq: "val x = Inr v \<Longrightarrow> val y = Inr w \<Longrightarrow> v = w \<longleftrightarrow> x = y"
  using val_inj by auto

lemma rewrite_scanned: "val x = Inr v \<Longrightarrow> res_bind (scan v) val = Inr v"
  by (simp add: scan_val)

end

subsection \<open>Segment positions\<close>

text \<open>An \<open>int64\<close> column is its 64 bit pattern.\<close>

definition SegmentPosition_Value :: "SegmentPosition \<Rightarrow> (64 word) meta_res" where
  "SegmentPosition_Value params = Inr (SegmentPosition_Encode params)"

definition SegmentPosition_Scan :: "64 word \<Rightarrow> SegmentPosition meta_res" where
  "SegmentPosition_Scan v = Inr (SegmentPositionFromEncoded v)"

interpretation position_codec: sql_codec SegmentPosition_Value SegmentPosition_Scan
  by unfold_locales (auto simp: SegmentPosition_Value_def SegmentPosition_Scan_def)

subsection \<open>Encryption parameters\<close>

record EncryptionParameters =
  CipherSuite :: byte
  BlockSize :: "32 word"

definition EncryptionParameters_Value :: "EncryptionParameters \<Rightarrow> (64 word) meta_res" where
  "EncryptionParameters_Value params =
     Inr (get_le ([CipherSuite params] @ put_le 4 (BlockSize params) @ [0, 0, 0]))"

definition EncryptionParameters_Scan :: "64 word \<Rightarrow> EncryptionParameters meta_res" where
  "EncryptionParameters_Scan v =
     (let bs = put_le 8 v in
      Inr \<lparr>CipherSuite = bs ! 0, BlockSize = get_le (take 4 (drop 1 bs))\<rparr>)"

interpretation encryption_codec: sql_codec EncryptionParameters_Value EncryptionParameters_Scan
proof unfold_locales
  fix x :: EncryptionParameters and v
  assume "EncryptionParameters_Value x = Inr v"
  then have v: "v = get_le ([CipherSuite x] @ put_le 4 (BlockSize x) @ [0, 0, 0])"
    by (simp add: EncryptionParameters_Value_def)
  have "put_le 8 v = [CipherSuite x] @ put_le 4 (BlockSize x) @ [0, 0, 0]"
    using put_le_get_le [of "[CipherSuite x] @ put_le 4 (BlockSize x) @ [0, 0, 0]", where ?'a = 64]
    by (simp add: v del: put_le.simps get_le.simps)
  then show "EncryptionParameters_Scan v = Inr x"
    by (simp add: EncryptionParameters_Scan_def get_le_put_le_full del: put_le.simps get_le.simps)
qed

subsection \<open>Redundancy schemes\<close>

record RedundancyScheme =
  Algorithm :: byte
  ShareSize :: int
  RequiredShares :: int
  RepairShares :: int
  OptimalShares :: int
  TotalShares :: int

definition zero_RedundancyScheme :: RedundancyScheme where
  "zero_RedundancyScheme = \<lparr>Algorithm = 0, ShareSize = 0, RequiredShares = 0, RepairShares = 0,
     OptimalShares = 0, TotalShares = 0\<rparr>"

definition int_byte :: "int \<Rightarrow> byte" where
  "int_byte x = word_of_int x"

definition RedundancyScheme_Value :: "RedundancyScheme \<Rightarrow> (64 word) meta_res" where
  "RedundancyScheme_Value params =
     (if ShareSize params < 0 \<or> ShareSize params \<ge> 2 ^ 24 then
        Inl (MetaError ''invalid share size'')
      else if RequiredShares params < 0 \<or> RequiredShares params \<ge> 2 ^ 8 then
        Inl (MetaError ''invalid required shares'')
      else if RepairShares params < 0 \<or> RepairShares params \<ge> 2 ^ 8 then
        Inl (MetaError ''invalid repair shares'')
      else if OptimalShares params < 0 \<or> OptimalShares params \<ge> 2 ^ 8 then
        Inl (MetaError ''invalid optimal shares'')
      else if TotalShares params < 0 \<or> TotalShares params \<ge> 2 ^ 8 then
        Inl (MetaError ''invalid total shares'')
      else Inr (get_le
        [Algorithm params,
         int_byte (ShareSize params),
         int_byte (drop_bit 8 (ShareSize params)),
         int_byte (drop_bit 16 (ShareSize params)),
         int_byte (RequiredShares params),
         int_byte (RepairShares params),
         int_byte (OptimalShares params),
         int_byte (TotalShares params)]))"

definition RedundancyScheme_Scan :: "64 word \<Rightarrow> RedundancyScheme meta_res" where
  "RedundancyScheme_Scan v =
     (let bs = put_le 8 v in
      Inr \<lparr>Algorithm = bs ! 0,
           ShareSize = uint (bs ! 1) OR push_bit 8 (uint (bs ! 2)) OR push_bit 16 (uint (bs ! 3)),
           RequiredShares = uint (bs ! 4),
           RepairShares = uint (bs ! 5),
           OptimalShares = uint (bs ! 6),
           TotalShares = uint (bs ! 7)\<rparr>)"

lemma uint_int_byte: "uint (int_byte x) = take_bit 8 x"
  by (simp add: int_byte_def unsigned_of_int)

lemma uint_int_byte_small: "0 \<le> x \<Longrightarrow> x < 256 \<Longrightarrow> uint (int_byte x) = x"
  by (simp add: uint_int_byte take_bit_int_eq_self)

lemma three_bytes:
  fixes x :: int
  assumes "0 \<le> x" "x < 2 ^ 24"
  shows "take_bit 8 x OR push_bit 8 (take_bit 8 (drop_bit 8 x)) OR
         push_bit 16 (take_bit 8 (drop_bit 16 x)) = x"
proof -
  have "take_bit 24 x = x" using assms by (simp add: take_bit_int_eq_self)
  moreover have "take_bit 8 x OR push_bit 8 (take_bit 8 (drop_bit 8 x)) OR
         push_bit 16 (take_bit 8 (drop_bit 16 x)) = take_bit 24 x"
  proof (rule bit_eqI)
    fix n
    show "bit (take_bit 8 x OR push_bit 8 (take_bit 8 (drop_bit 8 x)) OR
         push_bit 16 (take_bit 8 (drop_bit 16 x))) n = bit (take_bit 24 x) n"
      by (cases "n < 8"; cases "n < 16") (auto simp: bit_simps)
  qed
  ultimately show ?thesis by simp
qed

interpretation redundancy_codec: sql_codec RedundancyScheme_Value RedundancyScheme_Scan
proof unfold_locales
  fix x :: RedundancyScheme and v
  assume a: "RedundancyScheme_Value x = Inr v"
  let ?bs = "[Algorithm x, int_byte (ShareSize x), int_byte (drop_bit 8 (ShareSize x)),
     int_byte (drop_bit 16 (ShareSize x)), int_byte (RequiredShares x),
     int_byte (RepairShares x), int_byte (OptimalShares x), int_byte (TotalShares x)]"
  from a have v: "v = get_le ?bs"
    and b: "0 \<le> ShareSize x" "ShareSize x < 2 ^ 24" "0 \<le> RequiredShares x" "RequiredShares x < 256"
      "0 \<le> RepairShares x" "RepairShares x < 256" "0 \<le> OptimalShares x" "OptimalShares x < 256"
      "0 \<le> TotalShares x" "TotalShares x < 256"
    by (auto simp: RedundancyScheme_Value_def split: if_splits)
  have "put_le 8 v = ?bs"
    using put_le_get_le [of ?bs, where ?'a = 64]
    by (simp add: v eval_nat_numeral del: put_le.simps get_le.simps)
  then show "RedundancyScheme_Scan v = Inr x"
    using b three_bytes [of "ShareSize x"]
    by (simp add: RedundancyScheme_Scan_def uint_int_byte take_bit_int_eq_self
        del: put_le.simps get_le.simps)
qed

subsection \<open>Pieces as byte array elements\<close>

text \<open>The element of the \<open>BYTEA[]\<close> column: a big endian piece number and the node id.\<close>

definition Piece_element :: "Piece \<Rightarrow> byte list" where
  "Piece_element piece = put_be 2 (Number piece) @ put_be 32 (StorageNode piece)"

definition Pieces_Value :: "Pieces \<Rightarrow> byte list list option" where
  "Pieces_Value pieces = (if length pieces = 0 then None else Some (map Piece_element pieces))"

definition Piece_scan :: "byte list \<Rightarrow> Piece meta_res" where
  "Piece_scan elem =
     (if length elem \<noteq> 2 + 32 then Inl (MetaError ''invalid element length'')
      else Inr \<lparr>Number = get_be (take 2 elem), StorageNode = get_be (drop 2 elem)\<rparr>)"

fun Pieces_scan_elems :: "byte list list \<Rightarrow> Pieces meta_res" where
  "Pieces_scan_elems [] = Inr []"
| "Pieces_scan_elems (e # es) =
     res_bind (Piece_scan e) (\<lambda>p. res_bind (Pieces_scan_elems es) (\<lambda>ps. Inr (p # ps)))"

definition Pieces_Scan :: "byte list list option \<Rightarrow> Pieces meta_res" where
  "Pieces_Scan value = (case value of None \<Rightarrow> Inr [] | Some es \<Rightarrow> Pieces_scan_elems es)"

lemma Piece_scan_element [codec_simps]: "Piece_scan (Piece_element p) = Inr p"
  by (simp add: Piece_scan_def Piece_element_def get_be_put_be_full)

lemma Pieces_scan_map [codec_simps]: "Pieces_scan_elems (map Piece_element ps) = Inr ps"
  by (induction ps) (auto simp: codec_simps)

interpretation pieces_codec: sql_codec "\<lambda>p. Inr (Pieces_Value p)" Pieces_Scan
  by unfold_locales (auto simp: Pieces_Value_def Pieces_Scan_def codec_simps)

subsection \<open>Properties\<close>

text \<open>
  Lemma. A redundancy scheme that the column encoding accepts (share size below
  \<open>2^24\<close>, share counts below \<open>2^8\<close>) is read back unchanged, and two accepted schemes have the
  same column exactly when they are equal.
\<close>

theorem RedundancyScheme_roundtrip:
  assumes "RedundancyScheme_Value x = Inr v" and "RedundancyScheme_Value y = Inr w"
  shows "RedundancyScheme_Scan v = Inr x \<and> (v = w \<longleftrightarrow> x = y)"
  using redundancy_codec.scan_val [OF assms(1)] redundancy_codec.column_eq [OF assms] by blast

definition ex_scheme :: RedundancyScheme where
  "ex_scheme = \<lparr>Algorithm = 1, ShareSize = 256, RequiredShares = 29, RepairShares = 35,
     OptimalShares = 80, TotalShares = 110\<rparr>"

theorem RedundancyScheme_roundtrip_witness:
  "\<exists>v. RedundancyScheme_Value ex_scheme = Inr v \<and> RedundancyScheme_Scan v = Inr ex_scheme"
proof -
  have "is_ok (RedundancyScheme_Value ex_scheme)"
    by (simp add: RedundancyScheme_Value_def ex_scheme_def)
  then obtain v where v: "RedundancyScheme_Value ex_scheme = Inr v"
    by (cases "RedundancyScheme_Value ex_scheme") auto
  then show ?thesis using RedundancyScheme_roundtrip [OF v v] by blast
qed

text \<open>
  Lemma. Encryption parameters, segment positions and piece arrays written to a column
  are read back unchanged, for all values.
\<close>

theorem column_roundtrips:
  "res_bind (EncryptionParameters_Value e) EncryptionParameters_Scan = Inr e \<and>
   res_bind (SegmentPosition_Value p) SegmentPosition_Scan = Inr p \<and>
   Pieces_Scan (Pieces_Value ps) = Inr ps"
proof -
  obtain v where v: "EncryptionParameters_Value e = Inr v"
    by (simp add: EncryptionParameters_Value_def)
  have "EncryptionParameters_Scan v = Inr e" by (rule encryption_codec.scan_val [OF v])
  moreover have "Pieces_Scan (Pieces_Value ps) = Inr ps"
    by (rule pieces_codec.scan_val) simp
  ultimately show ?thesis
    using v by (simp add: SegmentPosition_Value_def SegmentPosition_Scan_def)
qed

end
