(* ===== verification/AliasPieces.thy ===== *)
theory AliasPieces
  imports Encoding
begin

text \<open>
  The compressed piece list of a segment (\<open>satellite/metabase/aliaspiece.go\<close>): pieces are
  written in order of their number as runs of absent numbers and of node aliases, each run
  pair under a one byte header of 3 bits for the zeros and 5 bits for the aliases.
\<close>

subsection \<open>Encoding\<close>

record AliasPiece =
  ANumber :: "16 word"
  Alias :: "32 word"

type_synonym AliasPieces = "AliasPiece list"

definition aliasPieceEncodingRLE :: byte where "aliasPieceEncodingRLE = 1"
definition aliasPieceEncodingMaxZeros :: nat where "aliasPieceEncodingMaxZeros = 7"
definition aliasPieceEncodingMaxNodeAliases :: nat where "aliasPieceEncodingMaxNodeAliases = 31"

definition alias_header :: "nat \<Rightarrow> nat \<Rightarrow> byte" where
  "alias_header aliasCount zeroCount = push_bit 3 (of_nat aliasCount) OR of_nat zeroCount"

text \<open>Count absent piece numbers from the expected one up to the next piece, at most \<open>k\<close>.\<close>

fun skip_zeros :: "nat \<Rightarrow> 16 word \<Rightarrow> 16 word \<Rightarrow> nat \<times> 16 word" where
  "skip_zeros 0 expected num = (0, expected)"
| "skip_zeros (Suc k) expected num =
     (if expected = num then (0, expected)
      else case skip_zeros k (expected + 1) num of (z, e) \<Rightarrow> (Suc z, e))"

text \<open>Emit aliases of consecutive pieces, at most \<open>k\<close>: their bytes, how many, the next
  expected number and the pieces left. An alias is an \<open>int32\<close> widened to \<open>uint64\<close>.\<close>

fun emit_aliases :: "nat \<Rightarrow> 16 word \<Rightarrow> AliasPieces \<Rightarrow> byte list \<times> nat \<times> 16 word \<times> AliasPieces" where
  "emit_aliases 0 expected ps = ([], 0, expected, ps)"
| "emit_aliases (Suc k) expected [] = ([], 0, expected, [])"
| "emit_aliases (Suc k) expected (p # ps) =
     (let bs = put_uvarint (scast (Alias p)); expected' = expected + 1 in
      if ps = [] \<or> ANumber (hd ps) \<noteq> expected' then (bs, 1, expected', ps)
      else case emit_aliases k expected' ps of
             (bs', c, e, rest) \<Rightarrow> (bs @ bs', Suc c, e, rest))"

lemma skip_zeros_spec:
  "skip_zeros k e n = (z, e') \<Longrightarrow> e' = e + of_nat z \<and> z \<le> k \<and> (e' = n \<or> z = k)"
  by (induction k e n arbitrary: z e' rule: skip_zeros.induct) (auto split: if_splits prod.splits)

lemma skip_zeros_numeral [simp]:
  "skip_zeros (numeral k) e n =
     (if e = n then (0, e)
      else case skip_zeros (pred_numeral k) (e + 1) n of (z, e') \<Rightarrow> (Suc z, e'))"
  by (simp add: numeral_eq_Suc)

lemma emit_aliases_numeral [simp]:
  "emit_aliases (numeral k) e (p # ps) =
     (let bs = put_uvarint (scast (Alias p)); e' = e + 1 in
      if ps = [] \<or> ANumber (hd ps) \<noteq> e' then (bs, 1, e', ps)
      else case emit_aliases (pred_numeral k) e' ps of
             (bs', c, e, rest) \<Rightarrow> (bs @ bs', Suc c, e, rest))"
  by (simp add: numeral_eq_Suc)

lemma word16_succ:
  "(e :: 16 word) < n \<Longrightarrow> unat (e + 1) = unat e + 1 \<and> e + 1 \<le> n"
proof -
  assume lt: "e < n"
  then have "unat (e + 1) = unat e + 1"
    using unat_lt_16 [of n] by (simp add: word_less_nat_alt unat_word_ariths)
  with lt show ?thesis by (simp add: word_le_nat_alt word_less_nat_alt)
qed

lemma skip_zeros_le:
  "skip_zeros k e n = (z, e') \<Longrightarrow> e \<le> n \<Longrightarrow> e' \<le> n \<and> unat e' = unat e + z"
proof (induction k e n arbitrary: z e' rule: skip_zeros.induct)
  case (2 k e n)
  show ?case
  proof (cases "e = n")
    case False
    with "2.prems"(2) have lt: "e < n" by simp
    then have "unat (e + 1) = unat e + 1" "e + 1 \<le> n" using word16_succ by blast+
    then show ?thesis
      using "2.IH" [OF False] "2.prems"(1) False by (fastforce split: prod.splits)
  qed (use "2.prems" in auto)
qed auto

lemma emit_aliases_spec:
  "emit_aliases k e ps = (bs, c, e', rest) \<Longrightarrow>
     c \<le> k \<and> ps = take c ps @ rest \<and> length rest = length ps - c \<and> c \<le> length ps \<and>
     e' = e + of_nat c \<and> (0 < k \<longrightarrow> ps \<noteq> [] \<longrightarrow> 0 < c \<and> bs \<noteq> [])"
  by (induction k e ps arbitrary: bs c e' rest rule: emit_aliases.induct)
    (auto simp: Let_def add.assoc split: if_splits prod.splits)

function alias_bytes_loop :: "16 word \<Rightarrow> AliasPieces \<Rightarrow> byte list meta_res" where
  "alias_bytes_loop expected [] = Inr []"
| "alias_bytes_loop expected (piece # ps) =
     (if expected > ANumber piece then Inl (MetaError ''alias pieces not ordered'')
      else case skip_zeros aliasPieceEncodingMaxZeros expected (ANumber piece) of
        (zeroCount, expected') \<Rightarrow>
          if ANumber piece \<noteq> expected' then
            res_bind (alias_bytes_loop expected' (piece # ps))
              (\<lambda>bs. Inr (alias_header 0 zeroCount # bs))
          else case emit_aliases aliasPieceEncodingMaxNodeAliases expected' (piece # ps) of
            (body, aliasCount, expected'', rest) \<Rightarrow>
              res_bind (alias_bytes_loop expected'' rest)
                (\<lambda>bs. Inr (alias_header aliasCount zeroCount # body @ bs)))"
  by pat_completeness auto
termination
proof (relation "measures [\<lambda>(e, ps). length ps,
    \<lambda>(e, ps). case ps of [] \<Rightarrow> 0 | p # _ \<Rightarrow> unat (ANumber p) - unat e]", goal_cases)
  case (2 e p ps z e')
  then have sz: "skip_zeros aliasPieceEncodingMaxZeros e (ANumber p) = (z, e')" and ne: "ANumber p \<noteq> e'"
    and le: "e \<le> ANumber p" by auto
  from skip_zeros_le [OF sz le] skip_zeros_spec [OF sz] ne
  have "e' < ANumber p" "unat e' = unat e + 7"
    by (auto simp: aliasPieceEncodingMaxZeros_def)
  then show ?case by (simp add: word_less_nat_alt)
next
  case (3 e p ps z e' body y c ya e'' rest)
  then have "emit_aliases aliasPieceEncodingMaxNodeAliases e' (p # ps) = (body, c, e'', rest)" by simp
  from emit_aliases_spec [OF this] have "length rest = length (p # ps) - c" "0 < c" "c \<le> length (p # ps)"
    by (auto simp: aliasPieceEncodingMaxNodeAliases_def)
  then show ?case by (simp only: in_measures prod.case) auto
qed simp

declare alias_bytes_loop.simps(2) [simp del]

definition AliasPieces_Bytes :: "AliasPieces \<Rightarrow> byte list meta_res" where
  "AliasPieces_Bytes aliases =
     (if length aliases = 0 then Inr []
      else res_bind (alias_bytes_loop 0 aliases) (\<lambda>bs. Inr (aliasPieceEncodingRLE # bs)))"

subsection \<open>Decoding\<close>

fun read_aliases :: "nat \<Rightarrow> 16 word \<Rightarrow> byte list \<Rightarrow> (AliasPieces \<times> 16 word \<times> byte list) meta_res" where
  "read_aliases 0 pieceNumber data = Inr ([], pieceNumber, data)"
| "read_aliases (Suc k) pieceNumber data =
     (case uvarint data of
        Inl _ \<Rightarrow> Inl (MetaError ''invalid alias pieces data'')
      | Inr (v, n) \<Rightarrow>
          res_bind (read_aliases k (pieceNumber + 1) (drop n data))
            (\<lambda>(ps, num, rest). Inr (\<lparr>ANumber = pieceNumber, Alias = ucast v\<rparr> # ps, num, rest)))"

lemma read_aliases_length:
  "read_aliases k num data = Inr (ps, num', rest) \<Longrightarrow> length rest \<le> length data"
proof (induction k num data arbitrary: ps num' rest rule: read_aliases.induct)
  case (2 k num data)
  then obtain v n ps' where "uvarint data = Inr (v, n)"
    and "read_aliases k (num + 1) (drop n data) = Inr (ps', num', rest)"
    by (auto simp: res_bind_Inr_iff split: sum.splits)
  with "2.IH" show ?case by fastforce
qed simp

function set_bytes_loop :: "16 word \<Rightarrow> byte list \<Rightarrow> AliasPieces meta_res" where
  "set_bytes_loop pieceNumber [] = Inr []"
| "set_bytes_loop pieceNumber (header # data) =
     (if data = [] then Inl (MetaError ''invalid alias pieces data'')
      else case read_aliases (unat (drop_bit 3 header)) (pieceNumber + ucast (header AND 7)) data of
        Inl e \<Rightarrow> Inl e
      | Inr (ps, num, rest) \<Rightarrow> res_bind (set_bytes_loop num rest) (\<lambda>qs. Inr (ps @ qs)))"
  by pat_completeness auto
termination
  by (relation "measure (\<lambda>(_, data). length data)") (auto simp: less_Suc_eq_le dest: read_aliases_length)

definition AliasPieces_SetBytes :: "byte list \<Rightarrow> AliasPieces meta_res" where
  "AliasPieces_SetBytes data =
     (case data of
        [] \<Rightarrow> Inr []
      | d0 # rest \<Rightarrow>
          if d0 \<noteq> aliasPieceEncodingRLE then Inl (MetaError ''unknown alias pieces header'')
          else set_bytes_loop 0 rest)"

text \<open>\<open>Scan\<close> and \<open>Value\<close>, with SQL \<open>NULL\<close> as \<open>None\<close>; \<open>Bytes\<close> of no pieces is a nil slice,
  which the driver writes as \<open>NULL\<close>.\<close>

definition AliasPieces_Scan :: "byte list option \<Rightarrow> AliasPieces meta_res" where
  "AliasPieces_Scan src = (case src of None \<Rightarrow> Inr [] | Some b \<Rightarrow> AliasPieces_SetBytes b)"

definition AliasPieces_Value :: "AliasPieces \<Rightarrow> (byte list option) meta_res" where
  "AliasPieces_Value aliases =
     res_bind (AliasPieces_Bytes aliases) (\<lambda>b. Inr (if aliases = [] then None else Some b))"

definition EqualAliasPieces :: "AliasPieces \<Rightarrow> AliasPieces \<Rightarrow> bool" where
  "EqualAliasPieces xs ys =
     (if length xs \<noteq> length ys then False else list_all2 (\<lambda>y x. y = x) ys xs)"

lemma EqualAliasPieces_eq: "EqualAliasPieces xs ys \<longleftrightarrow> xs = ys"
  by (auto simp: EqualAliasPieces_def simp flip: list_all2_eq)

subsection \<open>Round trip\<close>

lemma take_bit_of_nat_byte: "z < 2 ^ n \<Longrightarrow> take_bit n (of_nat z :: byte) = of_nat z"
  by (metis take_bit_nat_eq_self take_bit_of_nat)

lemma alias_header_zeros:
  assumes "z \<le> 7"
  shows "unat (alias_header c z AND 7) = z"
proof -
  have "alias_header c z AND 7 = take_bit 3 (alias_header c z)"
    by (simp add: take_bit_eq_mask mask_eq_exp_minus_1)
  also have "\<dots> = take_bit 3 (push_bit 3 (of_nat c)) OR take_bit 3 (of_nat z)"
    by (simp only: alias_header_def take_bit_or)
  also have "\<dots> = of_nat z"
    using assms by (simp add: take_bit_push_bit take_bit_of_nat_byte)
  finally show ?thesis using assms by (simp add: unat_of_nat)
qed

lemma alias_header_count:
  assumes "c \<le> 31" "z \<le> 7"
  shows "unat (drop_bit 3 (alias_header c z)) = c"
proof -
  have "drop_bit 3 (alias_header c z) = drop_bit 3 (push_bit 3 (of_nat c)) OR drop_bit 3 (of_nat z)"
    by (simp only: alias_header_def drop_bit_or)
  moreover have "drop_bit 3 (of_nat z :: byte) = 0"
  proof -
    have "drop_bit 3 (of_nat z :: byte) = drop_bit 3 (take_bit 3 (of_nat z))"
      using assms(2) by (simp add: take_bit_of_nat_byte)
    then show ?thesis by (simp only: drop_bit_take_bit) simp
  qed
  moreover have "drop_bit 3 (push_bit 3 (of_nat c :: byte)) = take_bit 5 (of_nat c)"
    by (rule bit_eqI) (auto simp: bit_simps)
  moreover have "take_bit 5 (of_nat c :: byte) = of_nat c"
    using assms(1) by (simp add: take_bit_of_nat_byte)
  ultimately show ?thesis using assms(1) by (simp add: unat_of_nat)
qed

lemma ucast_scast_alias: "ucast (scast (a :: 32 word) :: 64 word) = a"
  by (rule bit_eqI) (auto simp: bit_simps bit_signed_iff)

lemma read_emitted:
  "emit_aliases k e ps = (bs, c, e', rest) \<Longrightarrow> ps \<noteq> [] \<Longrightarrow> ANumber (hd ps) = e \<Longrightarrow>
   read_aliases c e (bs @ tail) = Inr (take c ps, e', tail)"
proof (induction k e ps arbitrary: bs c e' rest rule: emit_aliases.induct)
  case (3 k e p ps)
  have p: "\<lparr>ANumber = e, Alias = Alias p\<rparr> = p" using "3.prems"(3) by simp
  show ?case
  proof (cases "ps = [] \<or> ANumber (hd ps) \<noteq> e + 1")
    case True
    with "3.prems" p show ?thesis
      by (auto simp: Let_def codec_simps ucast_scast_alias)
  next
    case False
    obtain bs' c' where rec: "emit_aliases k (e + 1) ps = (bs', c', e', rest)"
      and eq: "bs = put_uvarint (scast (Alias p)) @ bs'" "c = Suc c'"
      using "3.prems"(1) False by (auto simp: Let_def split: prod.splits)
    have "read_aliases c' (e + 1) (bs' @ tail) = Inr (take c' ps, e', tail)"
      using "3.IH" [OF refl refl] False rec by auto
    with eq p show ?thesis by (simp add: codec_simps ucast_scast_alias)
  qed
qed auto

lemma alias_bytes_not_Nil: "alias_bytes_loop e (p # ps) = Inr bs \<Longrightarrow> bs \<noteq> []"
  by (auto simp: alias_bytes_loop.simps(2) [of e p ps] res_bind_Inr_iff split: if_splits prod.splits)

lemma set_bytes_alias_bytes:
  "alias_bytes_loop e ps = Inr bs \<Longrightarrow> set_bytes_loop e bs = Inr ps"
proof (induction e ps arbitrary: bs rule: alias_bytes_loop.induct)
  case (2 e p ps)
  note unf = alias_bytes_loop.simps(2) [of e p ps]
  from "2.prems" have ord: "\<not> ANumber p < e" by (auto simp: unf split: if_splits)
  obtain z e' where sz: "skip_zeros aliasPieceEncodingMaxZeros e (ANumber p) = (z, e')"
    by (metis surj_pair)
  from skip_zeros_spec [OF sz] have e': "e' = e + of_nat z" and z: "z \<le> 7"
    by (auto simp: aliasPieceEncodingMaxZeros_def)
  have zeros: "e + ucast (alias_header c z AND 7) = e'" for c
  proof -
    have "(ucast (alias_header c z AND 7) :: 16 word) = of_nat (unat (alias_header c z AND 7))"
      by simp
    also have "\<dots> = of_nat z" by (simp only: alias_header_zeros [OF z])
    finally show ?thesis by (simp only: e')
  qed
  show ?case
  proof (cases "ANumber p = e'")
    case False
    with "2.prems" ord sz obtain bs' where rec: "alias_bytes_loop e' (p # ps) = Inr bs'"
      and bs: "bs = alias_header 0 z # bs'"
      by (auto simp: unf res_bind_Inr_iff)
    have "set_bytes_loop e' bs' = Inr (p # ps)"
      using "2.IH"(1) [OF ord sz [symmetric] False rec] .
    with zeros [of 0] alias_header_count [of 0 z] z alias_bytes_not_Nil [OF rec] show ?thesis
      by (simp add: bs)
  next
    case True
    obtain body c e'' rest where em:
      "emit_aliases aliasPieceEncodingMaxNodeAliases e' (p # ps) = (body, c, e'', rest)"
      by (metis surj_pair)
    from emit_aliases_spec [OF em] have c: "c \<le> 31" and body: "body \<noteq> []"
      and split: "p # ps = take c (p # ps) @ rest"
      by (auto simp: aliasPieceEncodingMaxNodeAliases_def)
    from "2.prems" ord sz True em obtain bs' where rec: "alias_bytes_loop e'' rest = Inr bs'"
      and bs: "bs = alias_header c z # body @ bs'"
      by (auto simp: unf res_bind_Inr_iff)
    have "set_bytes_loop e'' bs' = Inr rest"
      using "2.IH"(2) [OF ord sz [symmetric] _ em [symmetric] refl refl rec] True by simp
    moreover have "read_aliases c e' (body @ bs') = Inr (take c (p # ps), e'', bs')"
      by (rule read_emitted [OF em]) (simp_all add: True)
    ultimately show ?thesis
      using zeros [of c] alias_header_count [OF c z] body split by (simp add: bs)
  qed
qed simp


subsection \<open>Ordered pieces\<close>

lemma emit_last:
  "emit_aliases k e ps = (bs, c, e', rest) \<Longrightarrow> 0 < k \<Longrightarrow> ps \<noteq> [] \<Longrightarrow> ANumber (hd ps) = e \<Longrightarrow>
   ANumber (ps ! (c - 1)) + 1 = e'"
proof (induction k e ps arbitrary: bs c e' rest rule: emit_aliases.induct)
  case (3 k e p ps)
  show ?case
  proof (cases "ps = [] \<or> ANumber (hd ps) \<noteq> e + 1")
    case True
    with "3.prems" show ?thesis by (auto simp: Let_def)
  next
    case False
    obtain bs' c' where rec: "emit_aliases k (e + 1) ps = (bs', c', e', rest)"
      and c: "c = Suc c'"
      using "3.prems"(1) False by (auto simp: Let_def split: prod.splits)
    show ?thesis
    proof (cases k)
      case 0
      with rec c "3.prems" show ?thesis by simp
    next
      case (Suc k')
      have "0 < c'" using emit_aliases_spec [OF rec] Suc False by auto
      moreover have "ANumber (ps ! (c' - 1)) + 1 = e'"
        using "3.IH" [OF refl refl _ rec] False Suc by auto
      ultimately show ?thesis by (simp add: c)
    qed
  qed
qed auto

lemma alias_bytes_ok:
  "sorted_wrt (<) (map ANumber ps) \<Longrightarrow> ps \<noteq> [] \<Longrightarrow> e \<le> ANumber (hd ps) \<Longrightarrow>
   is_ok (alias_bytes_loop e ps)"
proof (induction e ps rule: alias_bytes_loop.induct)
  case (2 e p ps)
  note unf = alias_bytes_loop.simps(2) [of e p ps]
  from "2.prems" have ord: "\<not> ANumber p < e" by auto
  obtain z e' where sz: "skip_zeros aliasPieceEncodingMaxZeros e (ANumber p) = (z, e')"
    by (metis surj_pair)
  show ?case
  proof (cases "ANumber p = e'")
    case False
    have "is_ok (alias_bytes_loop e' (p # ps))"
      by (rule "2.IH"(1) [OF ord sz [symmetric] False])
        (use "2.prems" skip_zeros_le [OF sz] in auto)
    then show ?thesis
      using ord sz False by (cases "alias_bytes_loop e' (p # ps)") (auto simp: unf)
  next
    case True
    obtain body c e'' rest where em:
      "emit_aliases aliasPieceEncodingMaxNodeAliases e' (p # ps) = (body, c, e'', rest)"
      by (metis surj_pair)
    from emit_aliases_spec [OF em] have sp: "p # ps = take c (p # ps) @ rest" "0 < c"
      "c \<le> length (p # ps)"
      by (auto simp: aliasPieceEncodingMaxNodeAliases_def)
    have "is_ok (alias_bytes_loop e'' rest)"
    proof (cases "rest = []")
      case False
      have last: "ANumber ((p # ps) ! (c - 1)) + 1 = e''"
        by (rule emit_last [OF em]) (simp_all add: True aliasPieceEncodingMaxNodeAliases_def)
      have s: "sorted_wrt (<) (map ANumber (take c (p # ps) @ rest))"
        using "2.prems"(1) sp(1) by simp
      have "(p # ps) ! (c - 1) \<in> set (take c (p # ps))"
        using sp(2,3) by (auto simp: in_set_conv_nth intro!: exI [of _ "c - 1"])
      with s False have "ANumber ((p # ps) ! (c - 1)) < ANumber (hd rest)"
        by (simp add: sorted_wrt_append)
      then have "e'' \<le> ANumber (hd rest)" using word16_succ last by metis
      moreover have "sorted_wrt (<) (map ANumber rest)"
        using s by (simp add: sorted_wrt_append)
      ultimately show ?thesis
        using "2.IH"(2) [OF ord sz [symmetric] _ em [symmetric] refl refl _ False] True by auto
    qed simp
    then show ?thesis
      using ord sz True em by (cases "alias_bytes_loop e'' rest") (auto simp: unf)
  qed
qed simp

lemma alias_bytes_from:
  "e \<le> ANumber p \<Longrightarrow>
   is_ok (alias_bytes_loop e (p # ps)) = is_ok (alias_bytes_loop (ANumber p) (p # ps))"
proof (induction e "p # ps" rule: alias_bytes_loop.induct)
  case (2 e)
  have ok: "is_ok (res_bind r (\<lambda>x. Inr (f x))) = is_ok r" for r :: "byte list meta_res" and f
    by (cases r) auto
  obtain z e' where sz: "skip_zeros aliasPieceEncodingMaxZeros e (ANumber p) = (z, e')"
    by (metis surj_pair)
  have sz0: "skip_zeros aliasPieceEncodingMaxZeros (ANumber p) (ANumber p) = (0, ANumber p)"
    by (simp add: aliasPieceEncodingMaxZeros_def)
  have ord: "\<not> ANumber p < e" using "2.prems" by simp
  show ?case
  proof (cases "ANumber p = e'")
    case True
    with sz sz0 ord show ?thesis
      by (auto simp: alias_bytes_loop.simps(2) [of e] alias_bytes_loop.simps(2) [of "ANumber p"] ok
          split: prod.splits)
  next
    case False
    have "is_ok (alias_bytes_loop e' (p # ps)) = is_ok (alias_bytes_loop (ANumber p) (p # ps))"
      using "2.hyps"(1) [OF ord sz [symmetric] False] skip_zeros_le [OF sz "2.prems"] by simp
    with False sz ord show ?thesis
      by (simp add: alias_bytes_loop.simps(2) [of e] ok)
  qed
qed

subsection \<open>The column\<close>

lemma AliasPieces_SetBytes_Bytes:
  "AliasPieces_Bytes ps = Inr bs \<Longrightarrow> AliasPieces_SetBytes bs = Inr ps"
  by (auto simp: AliasPieces_Bytes_def AliasPieces_SetBytes_def res_bind_Inr_iff
      dest: set_bytes_alias_bytes split: if_splits)

interpretation alias_codec: sql_codec AliasPieces_Value AliasPieces_Scan
  by unfold_locales
    (auto simp: AliasPieces_Value_def AliasPieces_Scan_def res_bind_Inr_iff
      dest: AliasPieces_SetBytes_Bytes)

subsection \<open>Properties\<close>

text \<open>
  Property C23. Whatever piece list the compression accepts, decompressing the bytes gives
  exactly that list back, for all piece numbers and all 32 bit aliases.
\<close>

theorem AliasPieces_roundtrip:
  assumes "AliasPieces_Bytes ps = Inr bs"
  shows "AliasPieces_SetBytes bs = Inr ps"
  using assms by (rule AliasPieces_SetBytes_Bytes)

definition ex_alias :: "16 word \<Rightarrow> 32 word \<Rightarrow> AliasPiece" where
  "ex_alias n a = \<lparr>ANumber = n, Alias = a\<rparr>"

lemma ex_alias_bytes:
  "AliasPieces_Bytes [ex_alias 2 9, ex_alias 11 5] = Inr [1, 10, 9, 7, 9, 5]"
proof -
  have "put_uvarint 9 = [9]" "put_uvarint 5 = [5]"
    by (simp_all add: put_uvarint.simps)
  then show ?thesis
    by (simp add: AliasPieces_Bytes_def alias_bytes_loop.simps(2) ex_alias_def aliasPieceEncodingRLE_def
        aliasPieceEncodingMaxZeros_def aliasPieceEncodingMaxNodeAliases_def alias_header_def
        Let_def)
qed

theorem AliasPieces_roundtrip_witness:
  "AliasPieces_SetBytes [1, 10, 9, 7, 9, 5] = Inr [ex_alias 2 9, ex_alias 11 5]"
  using AliasPieces_roundtrip [OF ex_alias_bytes] .

text \<open>
  Lemma. Every list of pieces in strictly ascending order of their number can be
  compressed: the order check never refuses a list that \<open>Pieces.Verify\<close> accepts.
\<close>

theorem AliasPieces_Bytes_ordered:
  assumes "sorted_wrt (<) (map ANumber ps)"
  shows "is_ok (AliasPieces_Bytes ps)"
proof (cases ps)
  case (Cons p qs)
  then have "is_ok (alias_bytes_loop 0 ps)"
    using assms by (intro alias_bytes_ok) auto
  then show ?thesis by (cases "alias_bytes_loop 0 ps") (auto simp: AliasPieces_Bytes_def Cons)
qed (simp add: AliasPieces_Bytes_def)

theorem AliasPieces_Bytes_ordered_witness:
  "is_ok (AliasPieces_Bytes [ex_alias 2 9, ex_alias 11 5])"
  by (rule AliasPieces_Bytes_ordered) (simp add: ex_alias_def)

text \<open>
  Lemma. The order check of the compression is not complete: after a piece with the
  largest number 65535 the expected number wraps to 0, so an unordered list is accepted
  rather than refused (and, by the round trip, still decompresses to itself).
\<close>

theorem AliasPieces_unordered_accepted:
  "is_ok (AliasPieces_Bytes [ex_alias 65535 a, ex_alias n b])"
proof -
  let ?p = "ex_alias 65535 a" and ?q = "ex_alias n b"
  have wrap: "(65536 :: 16 word) = 0" by transfer simp
  have q: "is_ok (alias_bytes_loop 0 [?q])"
    by (rule alias_bytes_ok) (simp_all add: ex_alias_def)
  have "is_ok (alias_bytes_loop 65535 [?p, ?q])"
  proof (cases "n = 0")
    case True
    then show ?thesis
      by (simp add: alias_bytes_loop.simps(2) [of 65535] ex_alias_def
          aliasPieceEncodingMaxZeros_def aliasPieceEncodingMaxNodeAliases_def Let_def)
  next
    case False
    with q show ?thesis
      by (cases "alias_bytes_loop 0 [?q]")
        (auto simp: wrap alias_bytes_loop.simps(2) [of 65535] ex_alias_def
          aliasPieceEncodingMaxZeros_def aliasPieceEncodingMaxNodeAliases_def Let_def)
  qed
  then have "is_ok (alias_bytes_loop 0 [?p, ?q])"
    using alias_bytes_from [of 0 ?p "[?q]"] by (simp add: ex_alias_def)
  then show ?thesis
    by (cases "alias_bytes_loop 0 [?p, ?q]") (auto simp: AliasPieces_Bytes_def)
qed

end
