(* ===== verification/AliasCache.thy ===== *)
theory AliasCache
  imports AliasPieces
begin

text \<open>
  Node aliases (\<open>satellite/metabase/alias.go\<close>) and their write-through cache
  (\<open>satellite/metabase/aliascache.go\<close>). Storage nodes get a short integer alias from a
  database sequence; segments store aliases, and the cache translates between pieces and
  alias pieces, asking the database only when something is missing. The database behind the
  cache is the Go interface \<open>NodeAliasDB\<close>: the cache operations take its two functions as
  arguments, the locale \<open>node_alias_db\<close> states what they promise, and the table based
  implementation interprets it. Calls run one after the other, as under the cache's mutex.
\<close>

subsection \<open>The bidirectional map\<close>

type_synonym NodeAlias = "32 word"
type_synonym NodeAliasEntry = "node_id \<times> NodeAlias"

record NodeAliasMap =
  map_node :: "node_id list"
  map_alias :: "node_id \<rightharpoonup> NodeAlias"

definition setNode :: "NodeAliasMap \<Rightarrow> NodeAlias \<Rightarrow> node_id \<Rightarrow> NodeAliasMap meta_res" where
  "setNode m al v =
     (let i = sint al;
          ns = (if i \<ge> int (length (map_node m))
                then map_node m @ replicate (nat (i - int (length (map_node m)) + 1)) 0 else map_node m)
      in if i < 0 then Inl (Panic ''index out of range'')
         else Inr (m\<lparr>map_node := ns[nat i := v]\<rparr>))"

fun add_entries :: "NodeAliasEntry list \<Rightarrow> NodeAliasMap \<Rightarrow> NodeAliasMap meta_res" where
  "add_entries [] m = Inr m"
| "add_entries (e # es) m =
     res_bind (setNode m (snd e) (fst e))
       (\<lambda>m'. add_entries es (m'\<lparr>map_alias := (map_alias m')(fst e \<mapsto> snd e)\<rparr>))"

definition NewNodeAliasMap :: "NodeAliasEntry list \<Rightarrow> NodeAliasMap meta_res" where
  "NewNodeAliasMap entries =
     add_entries entries \<lparr>map_node = replicate (length entries) 0, map_alias = Map.empty\<rparr>"

fun merge_nodes :: "nat \<Rightarrow> node_id list \<Rightarrow> NodeAliasMap \<Rightarrow> NodeAliasMap meta_res" where
  "merge_nodes k [] m = Inr m"
| "merge_nodes k (v # vs) m =
     (if v \<noteq> 0 then res_bind (setNode m (of_nat k) v) (merge_nodes (Suc k) vs)
      else merge_nodes (Suc k) vs m)"

definition NodeAliasMap_Merge :: "NodeAliasMap \<Rightarrow> NodeAliasMap \<Rightarrow> NodeAliasMap meta_res" where
  "NodeAliasMap_Merge m other =
     res_bind (merge_nodes 0 (map_node other) m) (\<lambda>m'. Inr (m'\<lparr>map_alias := map_alias m' ++ map_alias other\<rparr>))"

definition NodeAliasMap_Node :: "NodeAliasMap \<Rightarrow> NodeAlias \<Rightarrow> (node_id option) meta_res" where
  "NodeAliasMap_Node m al =
     (if sint al \<ge> int (length (map_node m)) then Inr None
      else if sint al < 0 then Inl (Panic ''index out of range'')
      else let v = map_node m ! nat (sint al) in Inr (if v \<noteq> 0 then Some v else None))"

definition NodeAliasMap_Alias :: "NodeAliasMap \<Rightarrow> node_id \<Rightarrow> NodeAlias option" where
  "NodeAliasMap_Alias m n = map_alias m n"

fun NodeAliasMap_Nodes :: "NodeAliasMap \<Rightarrow> NodeAlias list \<Rightarrow> (node_id list \<times> NodeAlias list) meta_res" where
  "NodeAliasMap_Nodes m [] = Inr ([], [])"
| "NodeAliasMap_Nodes m (p # ps) =
     res_bind (NodeAliasMap_Node m p) (\<lambda>x.
       res_bind (NodeAliasMap_Nodes m ps) (\<lambda>(xs, missing).
         case x of Some v \<Rightarrow> Inr (v # xs, missing) | None \<Rightarrow> Inr (xs, p # missing)))"

fun NodeAliasMap_Aliases :: "NodeAliasMap \<Rightarrow> node_id list \<Rightarrow> NodeAlias list \<times> node_id list" where
  "NodeAliasMap_Aliases m [] = ([], [])"
| "NodeAliasMap_Aliases m (n # ns) =
     (case NodeAliasMap_Aliases m ns of (xs, missing) \<Rightarrow>
        (case map_alias m n of Some x \<Rightarrow> (x # xs, missing) | None \<Rightarrow> (xs, n # missing)))"

fun contains_aliases :: "NodeAliasMap \<Rightarrow> NodeAlias list \<Rightarrow> bool meta_res" where
  "contains_aliases m [] = Inr True"
| "contains_aliases m (al # als) =
     res_bind (NodeAliasMap_Node m al)
       (\<lambda>x. if x = None then Inr False else contains_aliases m als)"

definition ContainsAll :: "NodeAliasMap \<Rightarrow> node_id list \<Rightarrow> NodeAlias list \<Rightarrow> bool meta_res" where
  "ContainsAll m nodeIDs nodeAliases =
     (if \<exists>n \<in> set nodeIDs. map_alias m n = None then Inr False else contains_aliases m nodeAliases)"

definition NodeAliasMap_Max :: "NodeAliasMap \<Rightarrow> int" where
  "NodeAliasMap_Max m = int (length (map_node m)) - 1"

subsection \<open>The alias table\<close>

text \<open>
  The table \<open>node_aliases\<close> with its sequence. \<open>INSERT ... ON CONFLICT DO NOTHING\<close> draws a
  number from the sequence for every row it tries, conflicting or not; the sequence ends at
  \<open>MaxInt32\<close> and the statement then fails as a whole.
\<close>

record alias_table =
  alias_rows :: "NodeAliasEntry list"
  alias_seq :: nat

fun insert_aliases :: "node_id list \<Rightarrow> alias_table \<Rightarrow> alias_table option" where
  "insert_aliases [] t = Some t"
| "insert_aliases (n # ns) t =
     (if int (alias_seq t) > 2147483647 then None
      else let t' = t\<lparr>alias_seq := Suc (alias_seq t)\<rparr> in
        if n \<in> fst ` set (alias_rows t) then insert_aliases ns t'
        else insert_aliases ns (t'\<lparr>alias_rows := alias_rows t @ [(n, of_nat (alias_seq t))]\<rparr>))"

definition DB_EnsureNodeAliases :: "node_id list \<Rightarrow> alias_table \<Rightarrow> alias_table \<times> unit meta_res" where
  "DB_EnsureNodeAliases nodes t =
     (if \<exists>n \<in> set nodes. n = 0 then (t, Inl (MetaError ''tried to add alias to zero node''))
      else case insert_aliases nodes t of
        None \<Rightarrow> (t\<lparr>alias_seq := 2147483648\<rparr>, Inl (MetaError ''sequence exhausted''))
      | Some t' \<Rightarrow> (t', Inr ()))"

definition DB_ListNodeAliases :: "alias_table \<Rightarrow> (NodeAliasEntry list) meta_res" where
  "DB_ListNodeAliases t = Inr (alias_rows t)"

subsection \<open>The cache\<close>

text \<open>The state of an operation is the database and the cached map; \<open>ens\<close> and \<open>lst\<close> are the
  two functions of the \<open>NodeAliasDB\<close> interface.\<close>

definition cache_refresh ::
  "('db \<Rightarrow> (NodeAliasEntry list) meta_res) \<Rightarrow> node_id list \<Rightarrow> NodeAlias list \<Rightarrow> 'db \<Rightarrow> NodeAliasMap
   \<Rightarrow> NodeAliasMap meta_res" where
  "cache_refresh lst missingNodes missingAliases db latest =
     res_bind (if missingNodes \<noteq> [] \<or> missingAliases \<noteq> []
               then ContainsAll latest missingNodes missingAliases else Inr False)
       (\<lambda>present. if present then Inr latest
          else res_bind (lst db) (\<lambda>entries.
            res_bind (NewNodeAliasMap entries) (\<lambda>xs. NodeAliasMap_Merge xs latest)))"

definition cache_ensure ::
  "(node_id list \<Rightarrow> 'db \<Rightarrow> 'db \<times> unit meta_res) \<Rightarrow> ('db \<Rightarrow> (NodeAliasEntry list) meta_res) \<Rightarrow>
   node_id list \<Rightarrow> 'db \<Rightarrow> NodeAliasMap \<Rightarrow> 'db \<times> NodeAliasMap meta_res" where
  "cache_ensure ens lst missing db latest =
     (case ens missing db of
        (db', Inl e) \<Rightarrow> (db', Inl (MetaError ''failed to update node alias db''))
      | (db', Inr _) \<Rightarrow> (db', cache_refresh lst missing [] db' latest))"

text \<open>\<open>EnsureAliases\<close>: the database, the cached map (as left behind) and the result.\<close>

definition EnsureAliases ::
  "(node_id list \<Rightarrow> 'db \<Rightarrow> 'db \<times> unit meta_res) \<Rightarrow> ('db \<Rightarrow> (NodeAliasEntry list) meta_res) \<Rightarrow>
   node_id list \<Rightarrow> 'db \<Rightarrow> NodeAliasMap \<Rightarrow> 'db \<times> NodeAliasMap \<times> (NodeAlias list) meta_res" where
  "EnsureAliases ens lst nodes db latest =
     (case NodeAliasMap_Aliases latest nodes of (aliases, missing) \<Rightarrow>
        if missing = [] then (db, latest, Inr aliases)
        else case cache_ensure ens lst missing db latest of
          (db', Inl e) \<Rightarrow> (db', latest, Inl e)
        | (db', Inr latest') \<Rightarrow>
            (case NodeAliasMap_Aliases latest' nodes of (aliases', missing') \<Rightarrow>
               if missing' = [] then (db', latest', Inr aliases')
               else (db', latest', Inl (MetaError ''nodes still missing after ensuring''))))"

definition cache_Aliases ::
  "('db \<Rightarrow> (NodeAliasEntry list) meta_res) \<Rightarrow> node_id list \<Rightarrow> 'db \<Rightarrow> NodeAliasMap
   \<Rightarrow> NodeAliasMap \<times> (NodeAlias list) meta_res" where
  "cache_Aliases lst nodes db latest =
     (case NodeAliasMap_Aliases latest nodes of (aliases, missing) \<Rightarrow>
        if missing = [] then (latest, Inr aliases)
        else case cache_refresh lst missing [] db latest of
          Inl e \<Rightarrow> (latest, Inl (MetaError ''failed to refresh node alias db''))
        | Inr latest' \<Rightarrow>
            (case NodeAliasMap_Aliases latest' nodes of (aliases', missing') \<Rightarrow>
               if missing' \<noteq> [] then (latest', Inl (MetaError ''aliases missing''))
               else (latest', Inr aliases')))"

definition cache_Nodes ::
  "('db \<Rightarrow> (NodeAliasEntry list) meta_res) \<Rightarrow> NodeAlias list \<Rightarrow> 'db \<Rightarrow> NodeAliasMap
   \<Rightarrow> NodeAliasMap \<times> (node_id list) meta_res" where
  "cache_Nodes lst aliases db latest =
     (case NodeAliasMap_Nodes latest aliases of
        Inl e \<Rightarrow> (latest, Inl e)
      | Inr (nodes, missing) \<Rightarrow>
          if missing = [] then (latest, Inr nodes)
          else case cache_refresh lst [] missing db latest of
            Inl e \<Rightarrow> (latest, Inl (MetaError ''failed to refresh node alias db''))
          | Inr latest' \<Rightarrow>
              (case NodeAliasMap_Nodes latest' aliases of
                 Inl e \<Rightarrow> (latest', Inl e)
               | Inr (nodes', missing') \<Rightarrow>
                   if missing' = [] then (latest', Inr nodes')
                   else (latest', Inl (MetaError ''aliases missing in database''))))"

definition cache_Latest ::
  "('db \<Rightarrow> (NodeAliasEntry list) meta_res) \<Rightarrow> 'db \<Rightarrow> NodeAliasMap \<Rightarrow> NodeAliasMap \<times> NodeAliasMap meta_res" where
  "cache_Latest lst db latest =
     (case cache_refresh lst [] [] db latest of
        Inl e \<Rightarrow> (latest, Inl (MetaError ''failed to refresh node alias db''))
      | Inr latest' \<Rightarrow>
          (latest', res_bind (NewNodeAliasMap []) (\<lambda>xs. NodeAliasMap_Merge xs latest')))"

definition EnsurePiecesToAliases ::
  "(node_id list \<Rightarrow> 'db \<Rightarrow> 'db \<times> unit meta_res) \<Rightarrow> ('db \<Rightarrow> (NodeAliasEntry list) meta_res) \<Rightarrow>
   Pieces \<Rightarrow> 'db \<Rightarrow> NodeAliasMap \<Rightarrow> 'db \<times> NodeAliasMap \<times> AliasPieces meta_res" where
  "EnsurePiecesToAliases ens lst pieces db latest =
     (if length pieces = 0 then (db, latest, Inr [])
      else case EnsureAliases ens lst (map StorageNode pieces) db latest of
        (db', latest', Inl e) \<Rightarrow> (db', latest', Inl e)
      | (db', latest', Inr aliases) \<Rightarrow>
          (db', latest', Inr (map2 (\<lambda>p a. \<lparr>ANumber = Number p, Alias = a\<rparr>) pieces aliases)))"

text \<open>\<open>ConvertAliasesToPieces\<close>: one pass over the cached map, and, when something was missing,
  a second pass over the refreshed one that gives up at the first alias still unknown.\<close>

fun convert_pass :: "NodeAliasMap \<Rightarrow> AliasPieces \<Rightarrow> (Pieces \<times> NodeAlias list) meta_res" where
  "convert_pass m [] = Inr ([], [])"
| "convert_pass m (ap # aps) =
     res_bind (NodeAliasMap_Node m (Alias ap)) (\<lambda>x.
       res_bind (convert_pass m aps) (\<lambda>(ps, missing).
         case x of
           None \<Rightarrow> Inr (zero_Piece # ps, Alias ap # missing)
         | Some n \<Rightarrow> Inr (\<lparr>Number = ANumber ap, StorageNode = n\<rparr> # ps, missing)))"

fun convert_again :: "NodeAliasMap \<Rightarrow> AliasPieces \<Rightarrow> Pieces meta_res" where
  "convert_again m [] = Inr []"
| "convert_again m (ap # aps) =
     res_bind (NodeAliasMap_Node m (Alias ap)) (\<lambda>x.
       case x of
         None \<Rightarrow> Inl (MetaError ''aliases missing in database'')
       | Some n \<Rightarrow> res_bind (convert_again m aps)
           (\<lambda>ps. Inr (\<lparr>Number = ANumber ap, StorageNode = n\<rparr> # ps)))"

definition ConvertAliasesToPieces ::
  "('db \<Rightarrow> (NodeAliasEntry list) meta_res) \<Rightarrow> AliasPieces \<Rightarrow> 'db \<Rightarrow> NodeAliasMap
   \<Rightarrow> NodeAliasMap \<times> Pieces meta_res" where
  "ConvertAliasesToPieces lst aliasPieces db latest =
     (if length aliasPieces = 0 then (latest, Inr [])
      else case convert_pass latest aliasPieces of
        Inl e \<Rightarrow> (latest, Inl e)
      | Inr (pieces, missing) \<Rightarrow>
          if missing = [] then (latest, Inr pieces)
          else case cache_refresh lst [] missing db latest of
            Inl e \<Rightarrow> (latest, Inl (MetaError ''failed to refresh node alias db''))
          | Inr latest' \<Rightarrow> (latest', convert_again latest' aliasPieces))"


subsection \<open>The map as a pair of partial functions\<close>

definition slot :: "NodeAliasMap \<Rightarrow> NodeAlias \<Rightarrow> node_id option" where
  "slot m a =
     (if 0 \<le> sint a \<and> nat (sint a) < length (map_node m) \<and> map_node m ! nat (sint a) \<noteq> 0
      then Some (map_node m ! nat (sint a)) else None)"

definition small_map :: "NodeAliasMap \<Rightarrow> bool" where
  "small_map m \<longleftrightarrow> length (map_node m) \<le> 2147483648"

lemma sint_alias_less: "sint (a :: 32 word) < 2147483648"
  using sint_less [of a] by simp

lemma nat_sint_alias_less: "nat (sint (a :: 32 word)) < 2147483648"
  using sint_alias_less [of a] by linarith

lemma sint_of_nat_alias: "k < 2147483648 \<Longrightarrow> sint (of_nat k :: 32 word) = int k"
  by (simp add: signed_of_nat signed_take_bit_int_eq_self)

lemma nat_sint_inj: "0 \<le> sint (a :: 32 word) \<Longrightarrow> 0 \<le> sint b \<Longrightarrow> nat (sint a) = nat (sint b) \<longleftrightarrow> a = b"
  by (metis int_nat_eq signed_word_eqI)

lemma slot_nonneg: "slot m a = Some n \<Longrightarrow> 0 \<le> sint a \<and> n \<noteq> 0"
  by (auto simp: slot_def split: if_splits)

lemma setNode_slot:
  assumes "0 \<le> sint a" "small_map m"
  shows "\<exists>m'. setNode m a v = Inr m' \<and> small_map m' \<and> map_alias m' = map_alias m \<and>
     slot m' = (slot m)(a := if v = 0 then None else Some v)"
proof -
  define i where "i = nat (sint a)"
  define ns where "ns = (if length (map_node m) \<le> i
      then map_node m @ replicate (i - length (map_node m) + 1) 0 else map_node m)"
  have i: "i < 2147483648" "int i = sint a" using assms(1) sint_alias_less [of a] by (auto simp: i_def)
  have len: "i < length ns" "length ns \<le> 2147483648"
    using assms(2) i by (auto simp: ns_def small_map_def)
  have get: "k < length ns \<and> ns ! k \<noteq> 0 \<longleftrightarrow> k < length (map_node m) \<and> map_node m ! k \<noteq> 0"
    "k < length ns \<Longrightarrow> ns ! k \<noteq> 0 \<Longrightarrow> ns ! k = map_node m ! k" for k
    by (auto simp: ns_def nth_append simp del: replicate_Suc split: if_splits)
  have ns: "(if int (length (map_node m)) \<le> sint a
      then map_node m @ replicate (nat (sint a - int (length (map_node m)) + 1)) 0 else map_node m) = ns"
    using i(2) by (auto simp: ns_def nat_add_distrib nat_diff_distrib simp flip: i(2))
  have "slot (m\<lparr>map_node := ns[i := v]\<rparr>) b = ((slot m)(a := if v = 0 then None else Some v)) b" for b
  proof (cases "b = a")
    case True
    then show ?thesis using assms(1) len by (simp add: slot_def i_def)
  next
    case False
    then have "0 \<le> sint b \<Longrightarrow> nat (sint b) \<noteq> i" using nat_sint_inj assms(1) by (simp add: i_def)
    then show ?thesis using False get [of "nat (sint b)"] by (auto simp: slot_def)
  qed
  then have "slot (m\<lparr>map_node := ns[i := v]\<rparr>) = (slot m)(a := if v = 0 then None else Some v)" by blast
  moreover have "setNode m a v = Inr (m\<lparr>map_node := ns[i := v]\<rparr>)"
    using assms(1) ns by (simp add: setNode_def Let_def i_def)
  ultimately show ?thesis using len by (simp add: small_map_def)
qed

definition list_slot :: "nat \<Rightarrow> node_id list \<Rightarrow> NodeAlias \<Rightarrow> node_id option" where
  "list_slot k vs a =
     (if 0 \<le> sint a \<and> k \<le> nat (sint a) \<and> nat (sint a) < k + length vs \<and> vs ! (nat (sint a) - k) \<noteq> 0
      then Some (vs ! (nat (sint a) - k)) else None)"

lemma list_slot_Nil [simp]: "list_slot k [] = Map.empty"
  by (rule ext) (simp add: list_slot_def)

lemma list_slot_Cons:
  assumes "k < 2147483648"
  shows "list_slot k (v # vs) =
    (if v = 0 then list_slot (Suc k) vs else (list_slot (Suc k) vs)(of_nat k \<mapsto> v))"
proof (rule ext)
  fix a :: NodeAlias
  have k: "a = of_nat k \<longleftrightarrow> 0 \<le> sint a \<and> nat (sint a) = k"
    using sint_of_nat_alias [OF assms] nat_sint_inj [of a "of_nat k"] by auto
  show "list_slot k (v # vs) a =
      (if v = 0 then list_slot (Suc k) vs else (list_slot (Suc k) vs)(of_nat k \<mapsto> v)) a"
  proof (cases "0 \<le> sint a \<and> k \<le> nat (sint a)")
    case False
    then have "a \<noteq> of_nat k" using k by auto
    with False show ?thesis by (auto simp: list_slot_def)
  next
    case True
    then obtain j where j: "nat (sint a) = k + j" using le_Suc_ex by blast
    show ?thesis
    proof (cases j)
      case 0
      then have "a = of_nat k" using k True j by simp
      with 0 j True show ?thesis by (auto simp: list_slot_def)
    next
      case (Suc j')
      then have "a \<noteq> of_nat k" using k True j by simp
      with Suc j True show ?thesis by (auto simp: list_slot_def)
    qed
  qed
qed

lemma list_slot_0: "list_slot 0 (map_node m) = slot m"
  by (rule ext) (simp add: list_slot_def slot_def)

lemma merge_nodes_slot:
  assumes "small_map m" "k + length vs \<le> 2147483648"
  shows "\<exists>m'. merge_nodes k vs m = Inr m' \<and> small_map m' \<and> map_alias m' = map_alias m \<and>
     slot m' = slot m ++ list_slot k vs"
  using assms
proof (induction k vs m rule: merge_nodes.induct)
  case (2 k v vs m)
  show ?case
  proof (cases "v = 0")
    case True
    with 2 show ?thesis by (simp add: list_slot_Cons)
  next
    case False
    have k: "k < 2147483648" using "2.prems" by simp
    then obtain m1 where m1: "setNode m (of_nat k) v = Inr m1" "small_map m1"
      "map_alias m1 = map_alias m" "slot m1 = (slot m)(of_nat k \<mapsto> v)"
      using setNode_slot [of "of_nat k" m v] sint_of_nat_alias [OF k] "2.prems"(1) False by auto
    then obtain m' where m': "merge_nodes (Suc k) vs m1 = Inr m'" "small_map m'" "map_alias m' = map_alias m1"
      "slot m' = slot m1 ++ list_slot (Suc k) vs"
      using "2.IH"(1) [OF False m1(2)] "2.prems"(2) by (metis add_Suc_shift length_Cons)
    have "of_nat k \<notin> dom (list_slot (Suc k) vs)"
      using sint_of_nat_alias [OF k] by (auto simp: list_slot_def)
    then have "slot m ++ (list_slot (Suc k) vs)(of_nat k \<mapsto> v) =
        (slot m)(of_nat k \<mapsto> v) ++ list_slot (Suc k) vs"
      by (intro ext) (auto simp: map_add_def dom_def split: option.splits)
    then have "slot m' = slot m ++ list_slot k (v # vs)"
      using m'(4) m1(4) False by (simp only: list_slot_Cons [OF k] if_False)
    with m1(1,3) m'(1,2,3) False show ?thesis by (simp add: res_bind_def)
  qed
qed simp

text \<open>A map agrees with a set of entries when its two directions are inverse to each other and
  hold only pairs of the set.\<close>

definition good_entries :: "NodeAliasEntry set \<Rightarrow> bool" where
  "good_entries E \<longleftrightarrow> (\<forall>(n, a) \<in> E. n \<noteq> 0 \<and> 0 < sint a) \<and>
     (\<forall>(n, a) \<in> E. \<forall>(n', a') \<in> E. n = n' \<longleftrightarrow> a = a')"

definition map_ok :: "NodeAliasEntry set \<Rightarrow> NodeAliasMap \<Rightarrow> bool" where
  "map_ok E m \<longleftrightarrow> small_map m \<and> (\<forall>n a. map_alias m n = Some a \<longleftrightarrow> slot m a = Some n) \<and>
     (\<forall>n a. map_alias m n = Some a \<longrightarrow> (n, a) \<in> E)"

definition map_full :: "NodeAliasEntry set \<Rightarrow> NodeAliasMap \<Rightarrow> bool" where
  "map_full E m \<longleftrightarrow> (\<forall>(n, a) \<in> E. map_alias m n = Some a)"

lemma good_entriesD:
  "good_entries E \<Longrightarrow> (n, a) \<in> E \<Longrightarrow> n \<noteq> 0 \<and> 0 < sint a"
  "good_entries E \<Longrightarrow> (n, a) \<in> E \<Longrightarrow> (n, a') \<in> E \<Longrightarrow> a = a'"
  "good_entries E \<Longrightarrow> (n, a) \<in> E \<Longrightarrow> (n', a) \<in> E \<Longrightarrow> n = n'"
  by (fastforce simp: good_entries_def)+

lemma map_ok_mono: "map_ok E m \<Longrightarrow> E \<subseteq> E' \<Longrightarrow> map_ok E' m"
  by (auto simp: map_ok_def)

lemma map_ok_slot: "map_ok E m \<Longrightarrow> slot m a = Some n \<longleftrightarrow> map_alias m n = Some a"
  by (simp add: map_ok_def)

lemma map_ok_in: "map_ok E m \<Longrightarrow> map_alias m n = Some a \<Longrightarrow> (n, a) \<in> E"
  by (simp add: map_ok_def)

lemma map_ok_slot_in: "map_ok E m \<Longrightarrow> slot m a \<noteq> None \<Longrightarrow> (the (slot m a), a) \<in> E"
  using map_ok_slot [of E m a] map_ok_in [of E m _ a] by force

lemma add_entry_ok:
  assumes "good_entries E" "(n, a) \<in> E" "map_ok E m"
  shows "\<exists>m1. setNode m a n = Inr m1 \<and> map_ok E (m1\<lparr>map_alias := (map_alias m1)(n \<mapsto> a)\<rparr>) \<and>
     map_alias m1 = map_alias m"
proof -
  have na: "n \<noteq> 0" "0 < sint a" using good_entriesD(1) [OF assms(1,2)] by auto
  obtain m1 where m1: "setNode m a n = Inr m1" "small_map m1" "map_alias m1 = map_alias m"
    "slot m1 = (slot m)(a \<mapsto> n)"
    using setNode_slot [of a m n] na assms(3) by (auto simp: map_ok_def)
  define m2 where "m2 = m1\<lparr>map_alias := (map_alias m1)(n \<mapsto> a)\<rparr>"
  have s: "slot m2 = slot m1" "small_map m2 = small_map m1"
    by (auto simp: fun_eq_iff slot_def small_map_def m2_def)
  have "map_alias m2 n' = Some a' \<longleftrightarrow> slot m2 a' = Some n'" for n' a'
  proof -
    have iff: "slot m a' = Some n' \<longleftrightarrow> map_alias m n' = Some a'" by (rule map_ok_slot [OF assms(3)])
    have "n' = n \<longleftrightarrow> a' = a" if "map_alias m n' = Some a'"
      using map_ok_in [OF assms(3) that] good_entriesD(2,3) [OF assms(1,2)] by blast
    then show ?thesis unfolding s m1(4) by (cases "n' = n"; cases "a' = a") (use iff in \<open>auto simp: m2_def m1(3)\<close>)
  qed
  moreover have "map_alias m2 n' = Some a' \<Longrightarrow> (n', a') \<in> E" for n' a'
    using map_ok_in [OF assms(3)] assms(2) by (auto simp: m2_def m1 split: if_splits)
  ultimately have "map_ok E m2" using m1 by (simp add: map_ok_def s)
  with m1 show ?thesis by (simp add: m2_def)
qed

lemma add_entries_ok:
  assumes "good_entries E" "set es \<subseteq> E" "map_ok E m"
  shows "\<exists>m'. add_entries es m = Inr m' \<and> map_ok E m' \<and> map_full (set es) m' \<and>
     map_alias m \<subseteq>\<^sub>m map_alias m'"
  using assms(2,3)
proof (induction es arbitrary: m)
  case Nil
  then show ?case by (simp add: map_full_def)
next
  case (Cons e es)
  obtain n a where e: "e = (n, a)" by (cases e)
  obtain m1 where m1: "setNode m a n = Inr m1" "map_alias m1 = map_alias m"
    "map_ok E (m1\<lparr>map_alias := (map_alias m1)(n \<mapsto> a)\<rparr>)"
    using add_entry_ok [OF assms(1) _ Cons.prems(2), of n a] Cons.prems(1) e by auto
  then obtain m' where m': "add_entries es (m1\<lparr>map_alias := (map_alias m1)(n \<mapsto> a)\<rparr>) = Inr m'"
    "map_ok E m'" "map_full (set es) m'" "(map_alias m)(n \<mapsto> a) \<subseteq>\<^sub>m map_alias m'"
    using Cons.IH [OF _ m1(3)] Cons.prems(1) m1(2) by (auto simp del: fun_upd_apply)
  have "map_alias m n = None \<or> map_alias m n = Some a"
    using map_ok_in [OF Cons.prems(2), of n] good_entriesD(2) [OF assms(1), of n a] Cons.prems(1) e
    by (cases "map_alias m n") auto
  then have "map_alias m \<subseteq>\<^sub>m (map_alias m)(n \<mapsto> a)" by (auto simp: map_le_def)
  then have "map_alias m \<subseteq>\<^sub>m map_alias m'" using m'(4) by (rule map_le_trans)
  moreover have "map_alias m' n = Some a" using m'(4) by (auto simp: map_le_def)
  ultimately show ?case
    using m' by (auto simp: e m1(1) res_bind_def map_full_def)
qed

lemma good_entries_length:
  assumes "good_entries (set es)" "distinct es"
  shows "length es \<le> 2147483648"
proof -
  let ?f = "\<lambda>e. nat (sint (snd e))"
  have "inj_on ?f (set es)"
  proof (rule inj_onI)
    fix x y assume xy: "x \<in> set es" "y \<in> set es" "?f x = ?f y"
    have "snd x = snd y"
      using good_entriesD(1) [OF assms(1), of "fst x" "snd x"] good_entriesD(1) [OF assms(1), of "fst y" "snd y"]
        nat_sint_inj [of "snd x" "snd y"] xy by simp
    then show "x = y"
      using good_entriesD(3) [OF assms(1), of "fst x" "snd x" "fst y"] xy
      by (metis prod.collapse)
  qed
  then have "length es = card (?f ` set es)" using assms(2) by (simp add: card_image distinct_card)
  also have "\<dots> \<le> card {0..<2147483648::nat}"
    by (rule card_mono) (auto simp: nat_sint_alias_less)
  finally show ?thesis by simp
qed

lemma NewNodeAliasMap_ok:
  assumes "good_entries (set es)" "distinct es"
  shows "\<exists>m. NewNodeAliasMap es = Inr m \<and> map_ok (set es) m \<and> map_full (set es) m"
proof -
  let ?m = "\<lparr>map_node = replicate (length es) 0, map_alias = Map.empty\<rparr> :: NodeAliasMap"
  have "map_ok (set es) ?m"
    using good_entries_length [OF assms] by (simp add: map_ok_def small_map_def slot_def)
  from add_entries_ok [OF assms(1) subset_refl this] show ?thesis
    by (auto simp: NewNodeAliasMap_def)
qed

lemma map_add_agree:
  assumes "\<And>x y. f x = Some y \<Longrightarrow> R x y" "\<And>x y. g x = Some y \<Longrightarrow> R x y"
    and "\<And>x y y'. R x y \<Longrightarrow> R x y' \<Longrightarrow> y = y'"
  shows "(f ++ g) x = Some y \<longleftrightarrow> f x = Some y \<or> g x = Some y"
  using assms(1) [of x] assms(2) [of x] assms(3) [of x] by (cases "g x") (auto simp: map_add_Some_iff)

lemma NodeAliasMap_Merge_ok:
  assumes "good_entries E" "map_ok E m" "map_ok E other"
  shows "\<exists>m'. NodeAliasMap_Merge m other = Inr m' \<and> map_ok E m' \<and> (map_full E m \<longrightarrow> map_full E m') \<and>
     map_alias m' = map_alias m ++ map_alias other"
proof -
  obtain m1 where m1: "merge_nodes 0 (map_node other) m = Inr m1" "small_map m1"
    "map_alias m1 = map_alias m" "slot m1 = slot m ++ slot other"
    using merge_nodes_slot [of m 0 "map_node other"] assms(2,3)
    by (auto simp: map_ok_def small_map_def list_slot_0)
  define m2 where "m2 = m1\<lparr>map_alias := map_alias m1 ++ map_alias other\<rparr>"
  have s: "slot m2 = slot m1" "small_map m2 = small_map m1"
    by (auto simp: fun_eq_iff slot_def small_map_def m2_def)
  have in_E: "map_alias m n = Some a \<Longrightarrow> (n, a) \<in> E" "map_alias other n = Some a \<Longrightarrow> (n, a) \<in> E" for n a
    using map_ok_in assms(2,3) by blast+
  note sl = map_ok_slot [OF assms(2)] map_ok_slot [OF assms(3)]
  note unique = good_entriesD(2,3) [OF assms(1)]
  have al: "map_alias m2 n = Some a \<longleftrightarrow> map_alias m n = Some a \<or> map_alias other n = Some a" for n a
    using map_add_agree [of "map_alias m" "\<lambda>n a. (n, a) \<in> E" "map_alias other" n a] in_E unique(1)
    by (simp add: m2_def m1(3))
  have "slot m2 a = Some n \<longleftrightarrow> slot m a = Some n \<or> slot other a = Some n" for n a
    unfolding s m1(4)
    by (rule map_add_agree [where R = "\<lambda>a n. (n, a) \<in> E"]) (use in_E unique(2) sl in blast)+
  then have "map_alias m2 n = Some a \<longleftrightarrow> slot m2 a = Some n" for n a
    by (simp add: al sl)
  moreover have "map_alias m2 n = Some a \<Longrightarrow> (n, a) \<in> E" for n a
    using in_E by (auto simp: m2_def m1(3) map_add_Some_iff)
  ultimately have "map_ok E m2" using m1(2) by (simp add: map_ok_def s)
  moreover have "map_full E m2" if "map_full E m"
    using that by (auto simp: map_full_def al)
  moreover have "map_alias m2 = map_alias m ++ map_alias other" by (simp add: m2_def m1(3))
  ultimately show ?thesis using m1(1) by (simp add: NodeAliasMap_Merge_def res_bind_def m2_def)
qed

lemma NodeAliasMap_Node_slot: "0 \<le> sint a \<Longrightarrow> NodeAliasMap_Node m a = Inr (slot m a)"
  by (auto simp: NodeAliasMap_Node_def slot_def Let_def)

lemma NodeAliasMap_Aliases_spec:
  "NodeAliasMap_Aliases m ns = (map (the \<circ> map_alias m) (filter (\<lambda>n. map_alias m n \<noteq> None) ns),
     filter (\<lambda>n. map_alias m n = None) ns)"
  by (induction ns) (auto split: option.splits)

lemma NodeAliasMap_Nodes_spec:
  "\<forall>a \<in> set as. 0 \<le> sint a \<Longrightarrow>
   NodeAliasMap_Nodes m as = Inr (map (the \<circ> slot m) (filter (\<lambda>a. slot m a \<noteq> None) as),
     filter (\<lambda>a. slot m a = None) as)"
  by (induction as) (auto simp: NodeAliasMap_Node_slot res_bind_def split: option.splits)

lemma ContainsAll_spec:
  "\<forall>a \<in> set as. 0 \<le> sint a \<Longrightarrow>
   ContainsAll m ns as = Inr ((\<forall>n \<in> set ns. map_alias m n \<noteq> None) \<and> (\<forall>a \<in> set as. slot m a \<noteq> None))"
proof -
  assume a: "\<forall>a \<in> set as. 0 \<le> sint a"
  then have "contains_aliases m as = Inr (\<forall>a \<in> set as. slot m a \<noteq> None)"
    by (induction as) (auto simp: NodeAliasMap_Node_slot res_bind_def)
  then show ?thesis by (auto simp: ContainsAll_def)
qed

lemma convert_pass_spec:
  "\<forall>ap \<in> set aps. 0 \<le> sint (Alias ap) \<Longrightarrow>
   \<exists>ps. convert_pass m aps = Inr (ps, filter (\<lambda>a. slot m a = None) (map Alias aps)) \<and>
     (filter (\<lambda>a. slot m a = None) (map Alias aps) = [] \<longrightarrow>
        ps = map (\<lambda>ap. \<lparr>Number = ANumber ap, StorageNode = the (slot m (Alias ap))\<rparr>) aps)"
  by (induction aps) (auto simp: NodeAliasMap_Node_slot res_bind_def split: option.splits)

lemma convert_again_spec:
  "\<forall>ap \<in> set aps. 0 \<le> sint (Alias ap) \<Longrightarrow>
   convert_again m aps =
     (if \<forall>ap \<in> set aps. slot m (Alias ap) \<noteq> None
      then Inr (map (\<lambda>ap. \<lparr>Number = ANumber ap, StorageNode = the (slot m (Alias ap))\<rparr>) aps)
      else Inl (MetaError ''aliases missing in database''))"
  by (induction aps) (auto simp: NodeAliasMap_Node_slot res_bind_def split: option.splits)


subsection \<open>The interface of the alias database\<close>

text \<open>
  What the cache relies on: \<open>inv\<close> is the invariant of the database and \<open>entries\<close> the pairs it
  holds. Listing returns them all; ensuring never loses one and, when it succeeds, has
  one for every node asked for.
\<close>

locale node_alias_db =
  fixes ens :: "node_id list \<Rightarrow> 'db \<Rightarrow> 'db \<times> unit meta_res"
    and lst :: "'db \<Rightarrow> (NodeAliasEntry list) meta_res"
    and inv :: "'db \<Rightarrow> bool"
    and entries :: "'db \<Rightarrow> NodeAliasEntry set"
  assumes entries_good: "inv db \<Longrightarrow> good_entries (entries db)"
    and list_entries: "inv db \<Longrightarrow> lst db = Inr es \<Longrightarrow> set es = entries db \<and> distinct es"
    and ensure_inv: "inv db \<Longrightarrow> inv (fst (ens ns db))"
    and ensure_mono: "inv db \<Longrightarrow> entries db \<subseteq> entries (fst (ens ns db))"
    and ensure_has: "inv db \<Longrightarrow> ens ns db = (db', Inr u) \<Longrightarrow> set ns \<subseteq> fst ` entries db'"
begin

lemma entries_nonneg: "inv db \<Longrightarrow> (n, a) \<in> entries db \<Longrightarrow> 0 \<le> sint a"
  using good_entriesD(1) [OF entries_good] by fastforce

lemma refresh_ok:
  assumes "inv db" "map_ok (entries db) m" "\<forall>a \<in> set as. 0 \<le> sint a"
    and "cache_refresh lst ns as db m = Inr m'"
  shows "map_ok (entries db) m' \<and> (map_full (entries db) m' \<or>
     m' = m \<and> (\<forall>n \<in> set ns. map_alias m n \<noteq> None) \<and> (\<forall>a \<in> set as. slot m a \<noteq> None))"
proof (cases "(ns \<noteq> [] \<or> as \<noteq> []) \<and> ContainsAll m ns as = Inr True")
  case True
  then have "m' = m" using assms(4) by (auto simp: cache_refresh_def res_bind_def)
  then show ?thesis using True ContainsAll_spec [OF assms(3)] assms(2) by simp
next
  case False
  then obtain es m1 where es: "lst db = Inr es" and m1: "NewNodeAliasMap es = Inr m1"
    and m': "NodeAliasMap_Merge m1 m = Inr m'"
    using assms(4) ContainsAll_spec [OF assms(3), of m ns]
    by (auto simp: cache_refresh_def res_bind_Inr_iff split: if_splits)
  have eq: "set es = entries db" "distinct es" using list_entries [OF assms(1) es] by auto
  with entries_good [OF assms(1)] m1 have "map_ok (entries db) m1" "map_full (entries db) m1"
    using NewNodeAliasMap_ok [of es] by auto
  from NodeAliasMap_Merge_ok [OF entries_good [OF assms(1)] this(1) assms(2)] this(2) m'
  show ?thesis by auto
qed

lemma refresh_succeeds:
  assumes "inv db" "map_ok (entries db) m" "\<forall>a \<in> set as. 0 \<le> sint a" "lst db = Inr es"
  shows "\<exists>m'. cache_refresh lst ns as db m = Inr m'"
proof -
  have eq: "set es = entries db" "distinct es" using list_entries [OF assms(1,4)] by auto
  then obtain m1 where m1: "NewNodeAliasMap es = Inr m1" "map_ok (entries db) m1"
    using NewNodeAliasMap_ok [of es] entries_good [OF assms(1)] by auto
  obtain m2 where "NodeAliasMap_Merge m1 m = Inr m2"
    using NodeAliasMap_Merge_ok [OF entries_good [OF assms(1)] m1(2) assms(2)] by blast
  with m1 assms(4) show ?thesis
    using ContainsAll_spec [OF assms(3), of m ns] by (auto simp: cache_refresh_def res_bind_def)
qed

lemma full_Aliases:
  assumes "map_full E m" "set ns \<subseteq> fst ` E"
  shows "snd (NodeAliasMap_Aliases m ns) = []"
  using assms by (fastforce simp: NodeAliasMap_Aliases_spec map_full_def filter_empty_conv)

lemma Aliases_complete:
  assumes "map_ok E m" "NodeAliasMap_Aliases m ns = (as, [])"
  shows "list_all2 (\<lambda>n a. (n, a) \<in> E) ns as"
proof -
  have all: "\<forall>n \<in> set ns. map_alias m n \<noteq> None" and as: "as = map (the \<circ> map_alias m) ns"
    using assms(2) by (auto simp: NodeAliasMap_Aliases_spec filter_empty_conv filter_id_conv)
  then show ?thesis
    using map_ok_in [OF assms(1)] by (auto simp: list_all2_conv_all_nth)
qed

lemma EnsureAliases_ok:
  assumes "inv db" "map_ok (entries db) m" "EnsureAliases ens lst ns db m = (db', m', res)"
  shows "inv db' \<and> entries db \<subseteq> entries db' \<and> map_ok (entries db') m' \<and>
    (\<forall>as. res = Inr as \<longrightarrow> list_all2 (\<lambda>n a. (n, a) \<in> entries db') ns as)"
proof -
  obtain as0 miss where q: "NodeAliasMap_Aliases m ns = (as0, miss)" by fastforce
  show ?thesis
  proof (cases "miss = []")
    case True
    then have "db' = db" "m' = m" "res = Inr as0" using assms(3) q by (auto simp: EnsureAliases_def)
    then show ?thesis
      using assms(1,2) Aliases_complete [OF assms(2), of ns as0] q True by auto
  next
    case False
    obtain db1 r where e: "ens miss db = (db1, r)" by fastforce
    have db1: "inv db1" "entries db \<subseteq> entries db1"
      using ensure_inv [OF assms(1), of miss] ensure_mono [OF assms(1), of miss] e by auto
    have m1: "map_ok (entries db1) m" using map_ok_mono [OF assms(2) db1(2)] .
    have "db' = db1 \<and> (m' = m \<and> (\<exists>er. res = Inl er) \<or> cache_refresh lst miss [] db1 m = Inr m' \<and>
        (\<forall>as. res = Inr as \<longrightarrow> NodeAliasMap_Aliases m' ns = (as, [])))"
      using assms(3) q False e
      by (auto simp: EnsureAliases_def cache_ensure_def split: sum.splits prod.splits if_splits)
    then show ?thesis
      using db1 m1 refresh_ok [OF db1(1) m1, of "[]" miss m'] Aliases_complete [of "entries db1" m' ns]
      by auto
  qed
qed

lemma EnsureAliases_total:
  assumes "inv db" "map_ok (entries db) m" "EnsureAliases ens lst ns db m = (db', m', res)"
    and "\<And>e. snd (ens (snd (NodeAliasMap_Aliases m ns)) db) \<noteq> Inl e" and "\<And>db e. lst db \<noteq> Inl e"
  shows "\<exists>as. res = Inr as"
proof -
  obtain as0 miss where q: "NodeAliasMap_Aliases m ns = (as0, miss)" by fastforce
  show ?thesis
  proof (cases "miss = []")
    case True
    then show ?thesis using assms(3) q by (auto simp: EnsureAliases_def)
  next
    case False
    obtain db1 where e: "ens miss db = (db1, Inr ())"
      using assms(4) q by (cases "ens miss db"; cases "snd (ens miss db)") auto
    have db1: "inv db1" "entries db \<subseteq> entries db1"
      using ensure_inv [OF assms(1), of miss] ensure_mono [OF assms(1), of miss] e by auto
    have m1: "map_ok (entries db1) m" using map_ok_mono [OF assms(2) db1(2)] .
    obtain es where "lst db1 = Inr es" using assms(5) by (cases "lst db1") auto
    then obtain m2 where m2: "cache_refresh lst miss [] db1 m = Inr m2"
      using refresh_succeeds [OF db1(1) m1, of "[]"] by auto
    have "\<exists>n \<in> set miss. map_alias m n = None"
      using q False by (auto simp: NodeAliasMap_Aliases_spec filter_empty_conv)
    with refresh_ok [OF db1(1) m1 _ m2] have ok: "map_ok (entries db1) m2" "map_full (entries db1) m2"
      by auto
    have "map_alias m2 n \<noteq> None" if "n \<in> set ns" for n
    proof (cases "map_alias m n")
      case None
      then have "n \<in> set miss" using q that by (auto simp: NodeAliasMap_Aliases_spec)
      then show ?thesis using ensure_has [OF assms(1) e] ok(2) by (fastforce simp: map_full_def)
    next
      case (Some a)
      then have "(n, a) \<in> entries db1" using map_ok_in [OF m1] by simp
      then show ?thesis using ok(2) by (auto simp: map_full_def)
    qed
    then have "snd (NodeAliasMap_Aliases m2 ns) = []"
      by (simp add: NodeAliasMap_Aliases_spec filter_empty_conv)
    then show ?thesis
      using assms(3) q False e m2
      by (auto simp: EnsureAliases_def cache_ensure_def split: prod.splits if_splits)
  qed
qed

lemma convert_result:
  assumes "map_ok E m" "\<forall>ap \<in> set aps. slot m (Alias ap) \<noteq> None"
  shows "list_all2 (\<lambda>ap p. Number p = ANumber ap \<and> (StorageNode p, Alias ap) \<in> E) aps
    (map (\<lambda>ap. \<lparr>Number = ANumber ap, StorageNode = the (slot m (Alias ap))\<rparr>) aps)"
proof -
  have "(the (slot m (Alias ap)), Alias ap) \<in> E" if "ap \<in> set aps" for ap
    using assms(2) that map_ok_slot_in [OF assms(1)] by blast
  then show ?thesis by (simp add: list_all2_map2 list_all2_same)
qed

lemma Convert_ok:
  assumes "inv db" "map_ok (entries db) m" "\<forall>ap \<in> set aps. 0 \<le> sint (Alias ap)"
    and "ConvertAliasesToPieces lst aps db m = (m', res)"
  shows "map_ok (entries db) m' \<and> (\<forall>ps. res = Inr ps \<longrightarrow>
    list_all2 (\<lambda>ap p. Number p = ANumber ap \<and> (StorageNode p, Alias ap) \<in> entries db) aps ps)"
proof -
  define miss where "miss = filter (\<lambda>a. slot m a = None) (map Alias aps)"
  obtain ps0 where ps0: "convert_pass m aps = Inr (ps0, miss)"
    "miss = [] \<longrightarrow> ps0 = map (\<lambda>ap. \<lparr>Number = ANumber ap, StorageNode = the (slot m (Alias ap))\<rparr>) aps"
    using convert_pass_spec [OF assms(3), of m] by (auto simp: miss_def)
  consider (empty) "aps = []" | (hit) "aps \<noteq> []" "miss = []" | (miss) "aps \<noteq> []" "miss \<noteq> []" by blast
  then show ?thesis
  proof cases
    case empty
    then show ?thesis using assms(2,4) by (auto simp: ConvertAliasesToPieces_def)
  next
    case hit
    then have "\<forall>ap \<in> set aps. slot m (Alias ap) \<noteq> None"
      by (auto simp: miss_def filter_empty_conv)
    then show ?thesis
      using hit ps0 assms(2,4) convert_result by (auto simp: ConvertAliasesToPieces_def)
  next
    case miss
    have nn: "\<forall>a \<in> set miss. 0 \<le> sint a" using assms(3) by (auto simp: miss_def)
    have "m' = m \<and> (\<exists>e. res = Inl e) \<or>
        cache_refresh lst [] miss db m = Inr m' \<and> res = convert_again m' aps"
      using assms(4) miss ps0 by (auto simp: ConvertAliasesToPieces_def split: sum.splits)
    then show ?thesis
      using assms(2) refresh_ok [OF assms(1,2) nn, of "[]" m'] convert_result [of "entries db" m' aps]
      by (auto simp: convert_again_spec [OF assms(3)] split: if_splits)
  qed
qed

lemma Convert_total:
  assumes "inv db" "map_ok (entries db) m" "Alias ` set aps \<subseteq> snd ` entries db" "\<And>e. lst db \<noteq> Inl e"
    and "ConvertAliasesToPieces lst aps db m = (m', res)"
  shows "\<exists>ps. res = Inr ps"
proof -
  have pos: "\<forall>ap \<in> set aps. 0 \<le> sint (Alias ap)"
    using assms(3) entries_nonneg [OF assms(1)] by fastforce
  define miss where "miss = filter (\<lambda>a. slot m a = None) (map Alias aps)"
  obtain ps0 where ps0: "convert_pass m aps = Inr (ps0, miss)"
    using convert_pass_spec [OF pos, of m] by (auto simp: miss_def)
  have nn: "\<forall>a \<in> set miss. 0 \<le> sint a" using pos by (auto simp: miss_def)
  show ?thesis
  proof (cases "aps = [] \<or> miss = []")
    case True
    then show ?thesis using assms(5) ps0 by (cases "aps = []") (auto simp: ConvertAliasesToPieces_def)
  next
    case False
    obtain es where "lst db = Inr es" using assms(4) by (cases "lst db") auto
    then obtain m2 where m2: "cache_refresh lst [] miss db m = Inr m2"
      using refresh_succeeds [OF assms(1,2) nn, of es "[]"] by auto
    have "\<exists>a \<in> set miss. slot m a = None" using False by (auto simp: miss_def filter_empty_conv)
    with refresh_ok [OF assms(1,2) nn m2] have ok: "map_ok (entries db) m2" "map_full (entries db) m2"
      by auto
    have "slot m2 (Alias ap) \<noteq> None" if ap: "ap \<in> set aps" for ap
    proof -
      obtain n where "(n, Alias ap) \<in> entries db" using assms(3) ap by fastforce
      then have "map_alias m2 n = Some (Alias ap)" using ok(2) by (auto simp: map_full_def)
      then show ?thesis using map_ok_slot [OF ok(1), of "Alias ap" n] by simp
    qed
    then show ?thesis
      using assms(5) False ps0 m2 convert_again_spec [OF pos, of m2]
      by (auto simp: ConvertAliasesToPieces_def)
  qed
qed

lemma EnsurePieces_ok:
  assumes "inv db" "map_ok (entries db) m" "EnsurePiecesToAliases ens lst ps db m = (db', m', res)"
  shows "inv db' \<and> entries db \<subseteq> entries db' \<and> map_ok (entries db') m' \<and>
    (\<forall>aps. res = Inr aps \<longrightarrow>
       list_all2 (\<lambda>ap p. Number p = ANumber ap \<and> (StorageNode p, Alias ap) \<in> entries db') aps ps)"
proof (cases "ps = []")
  case True
  then show ?thesis using assms by (auto simp: EnsurePiecesToAliases_def)
next
  case False
  obtain r where r: "EnsureAliases ens lst (map StorageNode ps) db m = (db', m', r)"
    and res: "res = map_sum id (map2 (\<lambda>p a. \<lparr>ANumber = Number p, Alias = a\<rparr>) ps) r"
    using assms(3) False by (auto simp: EnsurePiecesToAliases_def split: prod.splits sum.splits)
  show ?thesis
    using EnsureAliases_ok [OF assms(1,2) r]
    by (cases r) (auto simp: res list_all2_conv_all_nth)
qed

lemma pieces_roundtrip:
  assumes "inv db" "map_ok (entries db) m" "EnsurePiecesToAliases ens lst ps db m = (db', m', Inr aps)"
    and "inv db2" "entries db' \<subseteq> entries db2" "map_ok (entries db2) m2" "\<And>e. lst db2 \<noteq> Inl e"
  shows "\<exists>m2'. ConvertAliasesToPieces lst aps db2 m2 = (m2', Inr ps) \<and> map_ok (entries db2) m2'"
proof -
  obtain m2' res where c: "ConvertAliasesToPieces lst aps db2 m2 = (m2', res)" by fastforce
  have all: "list_all2 (\<lambda>ap p. Number p = ANumber ap \<and> (StorageNode p, Alias ap) \<in> entries db2) aps ps"
    using EnsurePieces_ok [OF assms(1-3)] assms(5) by (auto elim: list_all2_mono)
  then have sub: "Alias ` set aps \<subseteq> snd ` entries db2"
    by (auto simp: list_all2_conv_all_nth in_set_conv_nth image_iff) (metis snd_conv)
  then have pos: "\<forall>ap \<in> set aps. 0 \<le> sint (Alias ap)"
    using entries_nonneg [OF assms(4)] by fastforce
  obtain ps' where ps': "res = Inr ps'" using Convert_total [OF assms(4,6) sub assms(7) c] by blast
  with Convert_ok [OF assms(4,6) pos c]
  have "list_all2 (\<lambda>ap p. Number p = ANumber ap \<and> (StorageNode p, Alias ap) \<in> entries db2) aps ps'"
    by simp
  with all have "list_all2 (\<lambda>p q. p = q) ps ps'"
    using good_entriesD(3) [OF entries_good [OF assms(4)]]
    by (auto simp: list_all2_conv_all_nth intro!: Piece.equality)
  then have "ps' = ps" by (simp flip: list_all2_eq)
  then show ?thesis using c ps' Convert_ok [OF assms(4,6) pos c] by blast
qed

lemma cache_Aliases_ok:
  assumes "inv db" "map_ok (entries db) m" "cache_Aliases lst ns db m = (m', res)"
  shows "map_ok (entries db) m' \<and> (\<forall>as. res = Inr as \<longrightarrow> list_all2 (\<lambda>n a. (n, a) \<in> entries db) ns as)"
proof -
  obtain as0 miss where q: "NodeAliasMap_Aliases m ns = (as0, miss)" by fastforce
  have "m' = m \<and> (\<forall>as. res = Inr as \<longrightarrow> NodeAliasMap_Aliases m ns = (as, [])) \<or>
      cache_refresh lst miss [] db m = Inr m' \<and> (\<forall>as. res = Inr as \<longrightarrow> NodeAliasMap_Aliases m' ns = (as, []))"
    using assms(3) q by (auto simp: cache_Aliases_def split: sum.splits prod.splits if_splits)
  then show ?thesis
    using assms(2) refresh_ok [OF assms(1,2), of "[]" miss m'] Aliases_complete [of "entries db" m' ns]
    by auto
qed

lemma cache_Nodes_ok:
  assumes "inv db" "map_ok (entries db) m" "\<forall>a \<in> set as. 0 \<le> sint a" "cache_Nodes lst as db m = (m', res)"
  shows "map_ok (entries db) m' \<and> (\<forall>ns. res = Inr ns \<longrightarrow> list_all2 (\<lambda>a n. (n, a) \<in> entries db) as ns)"
proof -
  have done_ok: "list_all2 (\<lambda>a n. (n, a) \<in> entries db) as ns"
    if "map_ok (entries db) m1" "NodeAliasMap_Nodes m1 as = Inr (ns, [])" for m1 ns
  proof -
    have "\<forall>a \<in> set as. slot m1 a \<noteq> None" "ns = map (the \<circ> slot m1) as"
      using that(2) by (auto simp: NodeAliasMap_Nodes_spec [OF assms(3)] filter_empty_conv filter_id_conv)
    then show ?thesis
      using map_ok_slot_in [OF that(1)] by (simp add: list_all2_map2 list_all2_same)
  qed
  obtain ns0 miss where q: "NodeAliasMap_Nodes m as = Inr (ns0, miss)" "set miss \<subseteq> set as"
    using NodeAliasMap_Nodes_spec [OF assms(3), of m] by auto
  then have nn: "\<forall>a \<in> set miss. 0 \<le> sint a" using assms(3) by auto
  have "m' = m \<and> (\<forall>ns. res = Inr ns \<longrightarrow> NodeAliasMap_Nodes m as = Inr (ns, [])) \<or>
      cache_refresh lst [] miss db m = Inr m' \<and> (\<forall>ns. res = Inr ns \<longrightarrow> NodeAliasMap_Nodes m' as = Inr (ns, []))"
    using assms(4) q(1) by (auto simp: cache_Nodes_def split: sum.splits prod.splits if_splits)
  then show ?thesis
    using assms(2) done_ok refresh_ok [OF assms(1,2) nn, of "[]" m'] by auto
qed

lemma cache_Latest_ok:
  assumes "inv db" "map_ok (entries db) m" "cache_Latest lst db m = (m', res)"
  shows "map_ok (entries db) m' \<and>
    (\<forall>xs. res = Inr xs \<longrightarrow> map_ok (entries db) xs \<and> map_full (entries db) xs)"
proof (cases "cache_refresh lst [] [] db m")
  case (Inl e)
  then show ?thesis using assms by (auto simp: cache_Latest_def)
next
  case (Inr m1)
  then obtain es m0 where es: "lst db = Inr es" "NewNodeAliasMap es = Inr m0" "NodeAliasMap_Merge m0 m = Inr m1"
    by (auto simp: cache_refresh_def res_bind_Inr_iff)
  have eq: "set es = entries db" "distinct es" using list_entries [OF assms(1) es(1)] by auto
  note good = entries_good [OF assms(1)]
  have m0: "map_ok (entries db) m0" "map_full (entries db) m0"
    using NewNodeAliasMap_ok [of es] eq good es(2) by auto
  have m1: "map_ok (entries db) m1" "map_full (entries db) m1"
    using NodeAliasMap_Merge_ok [OF good m0(1) assms(2)] m0(2) es(3) by auto
  obtain e0 where e0: "NewNodeAliasMap [] = Inr e0" "map_ok (entries db) e0"
    using NewNodeAliasMap_ok [of "[]"] map_ok_mono [of "{}"] by (auto simp: good_entries_def)
  obtain xs where xs: "NodeAliasMap_Merge e0 m1 = Inr xs" "map_ok (entries db) xs"
    "map_alias xs = map_alias e0 ++ map_alias m1"
    using NodeAliasMap_Merge_ok [OF good e0(2) m1(1)] by blast
  then have "map_full (entries db) xs" using m1(2) by (auto simp: map_full_def)
  then show ?thesis using assms(3) Inr e0 xs m1 by (auto simp: cache_Latest_def res_bind_def)
qed

end

subsection \<open>The alias table keeps the contract\<close>

definition table_inv :: "alias_table \<Rightarrow> bool" where
  "table_inv t \<longleftrightarrow> 0 < alias_seq t \<and> distinct (map fst (alias_rows t)) \<and>
     distinct (map snd (alias_rows t)) \<and>
     (\<forall>(n, a) \<in> set (alias_rows t). n \<noteq> 0 \<and> 0 < sint a \<and> sint a < int (alias_seq t))"

definition table_entries :: "alias_table \<Rightarrow> NodeAliasEntry set" where
  "table_entries t = set (alias_rows t)"

lemma distinct_map_unique:
  "distinct (map f xs) \<Longrightarrow> x \<in> set xs \<Longrightarrow> y \<in> set xs \<Longrightarrow> f x = f y \<longleftrightarrow> x = y"
  by (auto simp: distinct_map dest: inj_onD)

lemma table_inv_good:
  assumes "table_inv t"
  shows "good_entries (table_entries t)"
proof -
  have "fst x = fst y \<longleftrightarrow> x = y" "snd x = snd y \<longleftrightarrow> x = y"
    if "x \<in> set (alias_rows t)" "y \<in> set (alias_rows t)" for x y
    using assms that distinct_map_unique [of fst "alias_rows t" x y]
      distinct_map_unique [of snd "alias_rows t" x y] by (simp_all add: table_inv_def)
  then show ?thesis using assms unfolding good_entries_def table_entries_def table_inv_def by fastforce
qed

lemma table_inv_insert:
  assumes "table_inv t" "n \<noteq> 0" "n \<notin> fst ` set (alias_rows t)" "alias_seq t \<le> 2147483647"
  shows "table_inv (t\<lparr>alias_seq := Suc (alias_seq t), alias_rows := alias_rows t @ [(n, of_nat (alias_seq t))]\<rparr>)"
proof -
  have s: "sint (of_nat (alias_seq t) :: 32 word) = int (alias_seq t)"
    using assms(4) by (simp add: sint_of_nat_alias)
  have "of_nat (alias_seq t) \<notin> snd ` set (alias_rows t)"
    using assms(1) s by (fastforce simp: table_inv_def)
  then show ?thesis using assms s by (fastforce simp: table_inv_def)
qed

lemma insert_aliases_ok:
  "insert_aliases ns t = Some t' \<Longrightarrow> table_inv t \<Longrightarrow> 0 \<notin> set ns \<Longrightarrow>
   table_inv t' \<and> set (alias_rows t) \<subseteq> set (alias_rows t') \<and> set ns \<subseteq> fst ` set (alias_rows t')"
proof (induction ns t rule: insert_aliases.induct)
  case (2 n ns t)
  have seq: "alias_seq t \<le> 2147483647" using "2.prems"(1) by (simp split: if_splits)
  show ?case
  proof (cases "n \<in> fst ` set (alias_rows t)")
    case True
    have "table_inv (t\<lparr>alias_seq := Suc (alias_seq t)\<rparr>)" using "2.prems"(2) by (fastforce simp: table_inv_def)
    with True 2 seq show ?thesis by (auto simp: Let_def)
  next
    case False
    have "table_inv (t\<lparr>alias_seq := Suc (alias_seq t), alias_rows := alias_rows t @ [(n, of_nat (alias_seq t))]\<rparr>)"
      using table_inv_insert [OF "2.prems"(2) _ False seq] "2.prems"(3) by auto
    with False 2 seq show ?thesis by (force simp: Let_def)
  qed
qed simp

lemma table_inv_seq: "table_inv t \<Longrightarrow> table_inv (t\<lparr>alias_seq := 2147483648\<rparr>)"
  by (auto simp: table_inv_def sint_alias_less)

interpretation alias_db: node_alias_db DB_EnsureNodeAliases DB_ListNodeAliases table_inv table_entries
proof unfold_locales
  fix t :: alias_table and es
  assume t: "table_inv t"
  show "good_entries (table_entries t)" using t by (rule table_inv_good)
  show "set es = table_entries t \<and> distinct es" if "DB_ListNodeAliases t = Inr es"
    using that t by (auto simp: DB_ListNodeAliases_def table_entries_def table_inv_def distinct_map)
  fix ns
  show "table_inv (fst (DB_EnsureNodeAliases ns t))"
    using t insert_aliases_ok [of ns t] table_inv_seq [OF t]
    by (auto simp: DB_EnsureNodeAliases_def split: option.split)
  show "table_entries t \<subseteq> table_entries (fst (DB_EnsureNodeAliases ns t))"
    using t insert_aliases_ok [of ns t]
    by (fastforce simp: DB_EnsureNodeAliases_def table_entries_def split: option.split)
  show "set ns \<subseteq> fst ` table_entries t'" if "DB_EnsureNodeAliases ns t = (t', Inr u)" for t' u
    using that t insert_aliases_ok [of ns t]
    by (auto simp: DB_EnsureNodeAliases_def table_entries_def split: if_splits option.splits)
qed

lemma insert_aliases_succeeds:
  "alias_seq t + length ns \<le> 2147483648 \<Longrightarrow> \<exists>t'. insert_aliases ns t = Some t'"
  by (induction ns t rule: insert_aliases.induct) (auto simp: Let_def)

lemma table_ensure_total:
  assumes "table_inv t" "map_ok (table_entries t) m"
    and "EnsureAliases DB_EnsureNodeAliases DB_ListNodeAliases ns t m = (t', m', res)"
    and "0 \<notin> set ns" "alias_seq t + length ns \<le> 2147483648"
  shows "\<exists>as. res = Inr as"
proof (rule alias_db.EnsureAliases_total [OF assms(1-3)])
  let ?miss = "snd (NodeAliasMap_Aliases m ns)"
  have miss: "set ?miss \<subseteq> set ns" "length ?miss \<le> length ns"
    by (auto simp: NodeAliasMap_Aliases_spec)
  obtain t1 where "insert_aliases ?miss t = Some t1"
    using insert_aliases_succeeds [of t ?miss] miss assms(5) by fastforce
  then show "snd (DB_EnsureNodeAliases ?miss t) \<noteq> Inl e" for e
    using assms(4) miss(1) by (auto simp: DB_EnsureNodeAliases_def)
qed (simp add: DB_ListNodeAliases_def)

subsection \<open>Properties\<close>

text \<open>
  Property C34. Pieces written as alias pieces are read back unchanged: after a successful
  \<open>EnsurePiecesToAliases\<close>, \<open>ConvertAliasesToPieces\<close> returns the original pieces against any
  later state of the table and from any cache that agrees with it, for instance the stale or
  empty cache of another process.
\<close>

theorem pieces_alias_roundtrip:
  assumes "table_inv t" and "map_ok (table_entries t) m"
    and "EnsurePiecesToAliases DB_EnsureNodeAliases DB_ListNodeAliases ps t m = (t', m', Inr aps)"
    and "table_inv t2" and "table_entries t' \<subseteq> table_entries t2" and "map_ok (table_entries t2) m2"
  shows "\<exists>m2'. ConvertAliasesToPieces DB_ListNodeAliases aps t2 m2 = (m2', Inr ps) \<and>
    map_ok (table_entries t2) m2'"
  using alias_db.pieces_roundtrip [OF assms] by (simp add: DB_ListNodeAliases_def)

definition empty_table :: alias_table where
  "empty_table = \<lparr>alias_rows = [], alias_seq = 1\<rparr>"

definition empty_map :: NodeAliasMap where
  "empty_map = \<lparr>map_node = [], map_alias = Map.empty\<rparr>"

lemma empty_ok [simp]: "table_inv empty_table" "map_ok E empty_map"
  by (simp_all add: empty_table_def empty_map_def table_inv_def map_ok_def small_map_def slot_def)

lemma NewNodeAliasMap_empty [simp]: "NewNodeAliasMap [] = Inr empty_map"
  by (simp add: NewNodeAliasMap_def empty_map_def)

lemma empty_table_seq: "alias_seq empty_table = 1"
  by (simp add: empty_table_def)

theorem pieces_alias_roundtrip_witness:
  "\<exists>t' m' aps m2'. EnsurePiecesToAliases DB_EnsureNodeAliases DB_ListNodeAliases
       [ex_piece 0 10, ex_piece 3 11] empty_table empty_map = (t', m', Inr aps) \<and>
     ConvertAliasesToPieces DB_ListNodeAliases aps t' empty_map = (m2', Inr [ex_piece 0 10, ex_piece 3 11])"
proof -
  let ?ps = "[ex_piece 0 10, ex_piece 3 11]"
  obtain t' m' r where e:
    "EnsureAliases DB_EnsureNodeAliases DB_ListNodeAliases (map StorageNode ?ps) empty_table empty_map = (t', m', r)"
    by (metis surj_pair)
  obtain as where "r = Inr as"
    using table_ensure_total [OF _ _ e] by (auto simp: ex_piece_def empty_table_seq)
  then obtain aps where p:
    "EnsurePiecesToAliases DB_EnsureNodeAliases DB_ListNodeAliases ?ps empty_table empty_map = (t', m', Inr aps)"
    using e by (simp add: EnsurePiecesToAliases_def)
  have "table_inv t'" using alias_db.EnsurePieces_ok [OF _ _ p] by simp
  then show ?thesis
    using pieces_alias_roundtrip [OF _ _ p, of t' empty_map] p by auto
qed

text \<open>
  Lemma. \<open>EnsureAliases\<close> on the table gives every node, in order, the alias the table
  holds for it, keeps all earlier entries and the agreement of the cache with the table, and
  it fails only for a zero node or when the sequence is used up.
\<close>

theorem EnsureAliases_correct:
  assumes "table_inv t" and "map_ok (table_entries t) m"
    and "EnsureAliases DB_EnsureNodeAliases DB_ListNodeAliases ns t m = (t', m', res)"
  shows "table_inv t' \<and> table_entries t \<subseteq> table_entries t' \<and> map_ok (table_entries t') m' \<and>
    (\<forall>as. res = Inr as \<longrightarrow> list_all2 (\<lambda>n a. (n, a) \<in> table_entries t') ns as) \<and>
    (0 \<notin> set ns \<and> alias_seq t + length ns \<le> 2147483648 \<longrightarrow> (\<exists>as. res = Inr as))"
  using alias_db.EnsureAliases_ok [OF assms] table_ensure_total [OF assms] by blast

theorem EnsureAliases_correct_witness:
  "\<exists>t' m' as. EnsureAliases DB_EnsureNodeAliases DB_ListNodeAliases [5, 9, 5] empty_table empty_map
     = (t', m', Inr as)"
proof -
  obtain t' m' res where e:
    "EnsureAliases DB_EnsureNodeAliases DB_ListNodeAliases [5, 9, 5] empty_table empty_map = (t', m', res)"
    by (metis surj_pair)
  from EnsureAliases_correct [OF _ _ e] show ?thesis using e by (auto simp: empty_table_seq)
qed

text \<open>
  Lemma. Reading through the cache never answers with a pair the table does not hold:
  the cache stays in agreement with the table under \<open>Aliases\<close>, \<open>Nodes\<close> and \<open>Latest\<close>, their
  results list exactly the partners of what was asked, and \<open>Latest\<close> returns every entry.
\<close>

theorem cache_reads_ok:
  assumes "table_inv t" and "map_ok (table_entries t) m" and "\<forall>a \<in> set as. 0 \<le> sint a"
  shows "map_ok (table_entries t) (fst (cache_Aliases DB_ListNodeAliases ns t m)) \<and>
    (\<forall>as'. snd (cache_Aliases DB_ListNodeAliases ns t m) = Inr as' \<longrightarrow>
       list_all2 (\<lambda>n a. (n, a) \<in> table_entries t) ns as') \<and>
    map_ok (table_entries t) (fst (cache_Nodes DB_ListNodeAliases as t m)) \<and>
    (\<forall>ns'. snd (cache_Nodes DB_ListNodeAliases as t m) = Inr ns' \<longrightarrow>
       list_all2 (\<lambda>a n. (n, a) \<in> table_entries t) as ns') \<and>
    map_ok (table_entries t) (fst (cache_Latest DB_ListNodeAliases t m)) \<and>
    (\<forall>xs. snd (cache_Latest DB_ListNodeAliases t m) = Inr xs \<longrightarrow>
       (\<forall>n a. map_alias xs n = Some a \<longleftrightarrow> (n, a) \<in> table_entries t))"
  using alias_db.cache_Aliases_ok [OF assms(1,2) prod.collapse [symmetric], of ns]
    alias_db.cache_Nodes_ok [OF assms prod.collapse [symmetric]]
    alias_db.cache_Latest_ok [OF assms(1,2) prod.collapse [symmetric]]
  by (auto simp: map_full_def dest: map_ok_in)

theorem cache_reads_ok_witness:
  "let t = \<lparr>alias_rows = [(7, 1)], alias_seq = 2\<rparr> in
   \<forall>ns'. snd (cache_Nodes DB_ListNodeAliases [1] t empty_map) = Inr ns' \<longrightarrow>
     list_all2 (\<lambda>a n. (n, a) \<in> table_entries t) [1] ns'"
proof -
  have "table_inv \<lparr>alias_rows = [(7, 1)], alias_seq = 2\<rparr>" by (simp add: table_inv_def)
  from cache_reads_ok [OF this, of empty_map "[1]" "[]"] show ?thesis by (simp add: Let_def)
qed

end
