(* ===== verification/CommitActions.thy ===== *)
theory CommitActions
  imports MetaTypes
begin

text \<open>
  The computations behind committing an object, from
  \<open>satellite/metabase/commit_object.go\<close> and \<open>satellite/metabase/commit.go\<close>: matching the
  positions the uplink names with the segments in the database, new plain offsets, the fixed
  segment size, the totals, and the limits on parts. Sizes are \<open>int\<close> values of Go's
  \<open>int32\<close>; offsets and totals are \<open>int64\<close> and their additions wrap around (\<open>wrap64\<close>).
\<close>

subsection \<open>Segments of a commit\<close>

record segmentInfoForCommit =
  info_Position :: SegmentPosition
  info_EncryptedSize :: int
  info_PlainOffset :: int
  info_PlainSize :: int

record segmentToCommit =
  commit_Position :: SegmentPosition
  OldPlainOffset :: int
  commit_PlainSize :: int
  commit_EncryptedSize :: int

fun verify_order_from :: "SegmentPosition \<Rightarrow> SegmentPosition list \<Rightarrow> unit meta_res" where
  "verify_order_from prev [] = Inr ()"
| "verify_order_from prev (next_pos # ps) =
     (if \<not> SegmentPosition_Less prev next_pos then Inl (MetaError ''segments not in ascending order'')
      else verify_order_from next_pos ps)"

definition verifySegmentOrder :: "SegmentPosition list \<Rightarrow> unit meta_res" where
  "verifySegmentOrder positions =
     (case positions of [] \<Rightarrow> Inr () | p # ps \<Rightarrow> verify_order_from p ps)"

text \<open>The calls \<open>diffSegmentsWithDatabase\<close> makes to its callback, in order.\<close>

fun diffSegmentsWithDatabase ::
  "SegmentPosition list \<Rightarrow> segmentInfoForCommit list
   \<Rightarrow> (SegmentPosition option \<times> segmentInfoForCommit option) list" where
  "diffSegmentsWithDatabase (a # as) (b # bs) =
     (if a = info_Position b then (Some a, Some b) # diffSegmentsWithDatabase as bs
      else if SegmentPosition_Less a (info_Position b)
        then (Some a, None) # diffSegmentsWithDatabase as (b # bs)
      else (None, Some b) # diffSegmentsWithDatabase (a # as) bs)"
| "diffSegmentsWithDatabase as [] = map (\<lambda>a. (Some a, None)) as"
| "diffSegmentsWithDatabase [] bs = map (\<lambda>b. (None, Some b)) bs"

definition to_commit :: "SegmentPosition \<Rightarrow> segmentInfoForCommit \<Rightarrow> segmentToCommit" where
  "to_commit a b = \<lparr>commit_Position = a, OldPlainOffset = info_PlainOffset b,
     commit_PlainSize = info_PlainSize b, commit_EncryptedSize = info_EncryptedSize b\<rparr>"

text \<open>One callback of \<open>determineCommitActions\<close> on its three variables: the invalid positions,
  the segments to commit and those to delete.\<close>

fun commit_callback ::
  "SegmentPosition option \<times> segmentInfoForCommit option
   \<Rightarrow> SegmentPosition list \<times> segmentToCommit list \<times> SegmentPosition list
   \<Rightarrow> SegmentPosition list \<times> segmentToCommit list \<times> SegmentPosition list" where
  "commit_callback (Some a, None) (invalid, commit, del) = (invalid @ [a], commit, del)"
| "commit_callback (None, Some b) (invalid, commit, del) = (invalid, commit, del @ [info_Position b])"
| "commit_callback (Some a, Some b) (invalid, commit, del) = (invalid, commit @ [to_commit a b], del)"
| "commit_callback (None, None) st = st"

definition determineCommitActions ::
  "SegmentPosition list \<Rightarrow> segmentInfoForCommit list
   \<Rightarrow> (segmentToCommit list \<times> SegmentPosition list) meta_res" where
  "determineCommitActions segments inDatabase =
     (case fold commit_callback (diffSegmentsWithDatabase segments inDatabase) ([], [], []) of
        (invalid, commit, del) \<Rightarrow>
          if invalid \<noteq> [] then Inl (MetaError ''segments and database does not match'')
          else Inr (commit, del))"

definition convertToFinalSegments :: "segmentInfoForCommit list \<Rightarrow> segmentToCommit list" where
  "convertToFinalSegments segs = map (\<lambda>seg. to_commit (info_Position seg) seg) segs"

subsection \<open>Offsets, sizes and parts\<close>

text \<open>The batch of \<open>updateSegmentOffsets\<close>: positions whose stored offset is not the expected
  one, with the expected one.\<close>

fun offset_batch :: "int \<Rightarrow> segmentToCommit list \<Rightarrow> (SegmentPosition \<times> int) list" where
  "offset_batch expectedOffset [] = []"
| "offset_batch expectedOffset (u # us) =
     (if OldPlainOffset u \<noteq> expectedOffset then [(commit_Position u, expectedOffset)] else [])
       @ offset_batch (wrap64 (expectedOffset + commit_PlainSize u)) us"

fun fixed_size_loop :: "nat \<Rightarrow> int \<Rightarrow> segmentToCommit list \<Rightarrow> int" where
  "fixed_size_loop i fixed [] = fixed"
| "fixed_size_loop i fixed (seg # rest) =
     (if Part (commit_Position seg) \<noteq> 0 \<or> Index (commit_Position seg) \<noteq> of_nat i then - 1
      else if rest \<noteq> [] \<and> commit_PlainSize seg \<noteq> fixed then - 1
      else fixed_size_loop (Suc i) fixed rest)"

definition fixedSegmentSize :: "segmentToCommit list \<Rightarrow> int" where
  "fixedSegmentSize finalSegments =
     (case finalSegments of [] \<Rightarrow> 0
      | seg # _ \<Rightarrow> fixed_size_loop 0 (commit_PlainSize seg) finalSegments)"

definition totalPlainSize :: "segmentToCommit list \<Rightarrow> int" where
  "totalPlainSize segs = fold (\<lambda>seg t. wrap64 (t + commit_PlainSize seg)) segs 0"

definition totalEncryptedSize :: "segmentToCommit list \<Rightarrow> int" where
  "totalEncryptedSize segs = fold (\<lambda>seg t. wrap64 (t + commit_EncryptedSize seg)) segs 0"

text \<open>\<open>validateParts\<close> with the map from part numbers to sizes as an association list; which of
  several undersized parts is reported depends on Go's map order and is not part of the
  error.\<close>

fun add_part :: "segmentInfoForCommit \<Rightarrow> (32 word \<times> int) list \<Rightarrow> (32 word \<times> int) list" where
  "add_part seg [] = [(Part (info_Position seg), wrap64 (info_PlainSize seg))]"
| "add_part seg ((p, s) # ps) =
     (if p = Part (info_Position seg) then (p, wrap64 (s + info_PlainSize seg)) # ps
      else (p, s) # add_part seg ps)"

definition validateParts :: "int \<Rightarrow> int \<Rightarrow> segmentInfoForCommit list \<Rightarrow> unit meta_res" where
  "validateParts maxNumberOfParts minPartSize segments =
     (let partSize = fold add_part segments [];
          lastPart = fold (\<lambda>seg l. if l < Part (info_Position seg) then Part (info_Position seg) else l)
            segments 0
      in if int (length partSize) > maxNumberOfParts
           then Inl (MetaError ''exceeded maximum number of parts'')
         else if \<exists>(part, sz) \<in> set partSize. part \<noteq> lastPart \<and> sz < minPartSize
           then Inl (MetaError ''size of part is below minimum threshold'')
         else Inr ())"

subsection \<open>Ascending positions\<close>

definition ascending :: "SegmentPosition list \<Rightarrow> bool" where
  "ascending ps \<longleftrightarrow> sorted_wrt SegmentPosition_Less ps"

lemma Less_trans: "SegmentPosition_Less a b \<Longrightarrow> SegmentPosition_Less b c \<Longrightarrow> SegmentPosition_Less a c"
  by (auto simp: SegmentPosition_Less_iff)

lemma Less_irrefl [simp]: "\<not> SegmentPosition_Less a a"
  by (simp add: SegmentPosition_Less_iff)

lemma Less_linear: "a \<noteq> b \<Longrightarrow> \<not> SegmentPosition_Less a b \<Longrightarrow> SegmentPosition_Less b a"
  by (auto simp: SegmentPosition_Less_iff not_less intro!: SegmentPosition.equality)

lemma verify_order_from_ok:
  "verify_order_from p ps = Inr () \<longleftrightarrow> ascending (p # ps)"
proof (induction p ps rule: verify_order_from.induct)
  case (2 prev p ps)
  then show ?case by (auto simp: ascending_def intro: Less_trans)
qed (simp add: ascending_def)

lemma verifySegmentOrder_ok: "verifySegmentOrder ps = Inr () \<longleftrightarrow> ascending ps"
  by (cases ps) (simp_all add: verifySegmentOrder_def verify_order_from_ok, simp add: ascending_def)

lemma ascending_Cons: "ascending (p # ps) \<longleftrightarrow> (\<forall>q \<in> set ps. SegmentPosition_Less p q) \<and> ascending ps"
  by (simp add: ascending_def)

lemma ascending_distinct: "ascending ps \<Longrightarrow> distinct ps"
  by (induction ps) (auto simp: ascending_Cons)

text \<open>What the events amount to: positions without a segment, pairs, segments without a position.\<close>

definition invalid_of :: "SegmentPosition list \<Rightarrow> segmentInfoForCommit list \<Rightarrow> SegmentPosition list" where
  "invalid_of as bs = filter (\<lambda>a. a \<notin> info_Position ` set bs) as"

lemma fold_commit_callback:
  "fold commit_callback evs (i, c, d) =
    (i @ [a. (Some a, None) \<leftarrow> evs], c @ [to_commit a b. (Some a, Some b) \<leftarrow> evs],
     d @ [info_Position b. (None, Some b) \<leftarrow> evs])"
proof (induction evs arbitrary: i c d)
  case (Cons ev evs)
  then show ?case by (cases ev; cases "fst ev"; cases "snd ev") auto
qed simp

lemma diff_events:
  assumes "ascending as" "ascending (map info_Position bs)"
  shows "[a. (Some a, None) \<leftarrow> diffSegmentsWithDatabase as bs] = invalid_of as bs \<and>
    [to_commit a b. (Some a, Some b) \<leftarrow> diffSegmentsWithDatabase as bs]
      = map (\<lambda>b. to_commit (info_Position b) b) (filter (\<lambda>b. info_Position b \<in> set as) bs) \<and>
    [info_Position b. (None, Some b) \<leftarrow> diffSegmentsWithDatabase as bs]
      = map info_Position (filter (\<lambda>b. info_Position b \<notin> set as) bs)"
  using assms
proof (induction as bs rule: diffSegmentsWithDatabase.induct)
  case (1 a as b bs)
  have as: "\<forall>q \<in> set as. SegmentPosition_Less a q" "ascending as"
    and bs: "\<forall>q \<in> set bs. SegmentPosition_Less (info_Position b) (info_Position q)"
      "ascending (map info_Position bs)"
    using "1.prems" by (auto simp: ascending_Cons)
  consider (eq) "a = info_Position b" | (less) "a \<noteq> info_Position b" "SegmentPosition_Less a (info_Position b)"
    | (greater) "a \<noteq> info_Position b" "\<not> SegmentPosition_Less a (info_Position b)" by blast
  then show ?case
  proof cases
    case eq
    have "filter (\<lambda>q. info_Position q \<in> set (a # as)) bs = filter (\<lambda>q. info_Position q \<in> set as) bs"
      "filter (\<lambda>q. info_Position q \<notin> set (a # as)) bs = filter (\<lambda>q. info_Position q \<notin> set as) bs"
      using bs(1) eq by (auto intro!: filter_cong)
    moreover have "invalid_of (a # as) (b # bs) = invalid_of as bs"
      using as(1) eq by (auto simp: invalid_of_def intro!: filter_cong)
    ultimately show ?thesis using "1.IH"(1) [OF eq as(2) bs(2)] eq by simp
  next
    case less
    have below: "SegmentPosition_Less a (info_Position q)" if "q \<in> set (b # bs)" for q
      using less(2) bs(1) that Less_trans by auto
    have ne: "info_Position q \<noteq> a" if "q \<in> set (b # bs)" for q using below [OF that] by auto
    then have "filter (\<lambda>q. info_Position q \<in> set (a # as)) (b # bs)
        = filter (\<lambda>q. info_Position q \<in> set as) (b # bs)"
      "filter (\<lambda>q. info_Position q \<notin> set (a # as)) (b # bs)
        = filter (\<lambda>q. info_Position q \<notin> set as) (b # bs)"
      by (auto intro!: filter_cong)
    moreover have "invalid_of (a # as) (b # bs) = a # invalid_of as (b # bs)"
      using ne by (auto simp: invalid_of_def image_iff)
    ultimately show ?thesis
      using "1.IH"(2) [OF less as(2) "1.prems"(2)] less by (simp only: diffSegmentsWithDatabase.simps) simp
  next
    case greater
    then have lt: "SegmentPosition_Less (info_Position b) a" using Less_linear by blast
    then have "info_Position b \<notin> set (a # as)" using as(1) Less_trans greater(1) by fastforce
    moreover from this have "invalid_of (a # as) (b # bs) = invalid_of (a # as) bs"
      by (auto simp: invalid_of_def intro!: filter_cong)
    ultimately show ?thesis using "1.IH"(3) [OF greater "1.prems"(1) bs(2)] greater by simp
  qed
next
  case (2 as)
  then show ?case by (induction as) (auto simp: invalid_of_def ascending_Cons)
next
  case (3 b bs)
  have "concat (map ((\<lambda>x. case x of (None, Some b) \<Rightarrow> [info_Position b] | _ \<Rightarrow> []) \<circ> (\<lambda>b. (None, Some b))) bs)
      = map info_Position bs" for bs
    by (induction bs) auto
  then show ?case by (simp add: invalid_of_def comp_def)
qed

lemma invalid_of_Nil: "invalid_of as bs = [] \<longleftrightarrow> set as \<subseteq> info_Position ` set bs"
  by (auto simp: invalid_of_def filter_empty_conv)

lemma ascending_set_eq: "ascending xs \<Longrightarrow> ascending ys \<Longrightarrow> set xs = set ys \<Longrightarrow> xs = ys"
proof (induction xs arbitrary: ys)
  case (Cons x xs)
  then obtain y ys' where ys: "ys = y # ys'" by (cases ys) auto
  have "x = y"
  proof (rule ccontr)
    assume "x \<noteq> y"
    with Cons.prems(3) ys have "y \<in> set xs" "x \<in> set ys'" by auto
    with Cons.prems ys show False
      by (auto simp: ascending_Cons) (meson Less_irrefl Less_trans)
  qed
  moreover have "x \<notin> set xs" "y \<notin> set ys'" using Cons.prems ys by (auto simp: ascending_Cons)
  ultimately have "set xs = set ys'" using Cons.prems(3) ys by (simp add: insert_ident)
  then show ?case using Cons ys \<open>x = y\<close> by (auto simp: ascending_Cons)
qed simp

lemma ascending_filter: "ascending (map f xs) \<Longrightarrow> ascending (map f (filter P xs))"
  by (induction xs) (auto simp: ascending_Cons)

lemma commit_Position_final: "map commit_Position (convertToFinalSegments bs) = map info_Position bs"
  by (simp add: convertToFinalSegments_def to_commit_def)

text \<open>The offsets the segments should have, and what is left after the batch is applied.\<close>

fun expected_offsets :: "int \<Rightarrow> segmentToCommit list \<Rightarrow> int list" where
  "expected_offsets e [] = []"
| "expected_offsets e (u # us) = e # expected_offsets (wrap64 (e + commit_PlainSize u)) us"

lemma expected_offsets_length [simp]: "length (expected_offsets e us) = length us"
  by (induction us arbitrary: e) auto

lemma wrap64_idem [simp]: "wrap64 (wrap64 x) = wrap64 x"
  using wrap64_range [of x] wrap64_id by simp

lemma expected_offsets_nth:
  "wrap64 e = e \<Longrightarrow> i < length us \<Longrightarrow>
   expected_offsets e us ! i = wrap64 (e + sum_list (map commit_PlainSize (take i us)))"
proof (induction us arbitrary: e i)
  case (Cons u us)
  then show ?case by (cases i) (simp_all add: wrap64_add_left add.assoc)
qed simp

lemma offset_batch_keys: "fst ` set (offset_batch e us) \<subseteq> commit_Position ` set us"
  by (induction us arbitrary: e) fastforce+

definition new_offset :: "(SegmentPosition \<times> int) list \<Rightarrow> SegmentPosition \<Rightarrow> int \<Rightarrow> int" where
  "new_offset batch pos off = (case map_of batch pos of Some off' \<Rightarrow> off' | None \<Rightarrow> off)"

lemma offset_batch_apply:
  "distinct (map commit_Position us) \<Longrightarrow>
   map (\<lambda>u. new_offset (offset_batch e us) (commit_Position u) (OldPlainOffset u)) us = expected_offsets e us"
proof (induction us arbitrary: e)
  case (Cons u us)
  let ?b = "offset_batch (wrap64 (e + commit_PlainSize u)) us"
  have none: "map_of ?b (commit_Position u) = None"
    using offset_batch_keys [of "wrap64 (e + commit_PlainSize u)" us] Cons.prems
    by (auto simp: map_of_eq_None_iff)
  have "new_offset (offset_batch e (u # us)) (commit_Position v) = new_offset ?b (commit_Position v)"
    if "v \<in> set us" for v
    using imageI [OF that, of commit_Position] Cons.prems
    by (cases "commit_Position v = commit_Position u") (auto simp: new_offset_def fun_eq_iff)
  then have "map (\<lambda>u'. new_offset (offset_batch e (u # us)) (commit_Position u') (OldPlainOffset u')) us
      = expected_offsets (wrap64 (e + commit_PlainSize u)) us"
    using Cons by (simp cong: map_cong)
  moreover have "new_offset (offset_batch e (u # us)) (commit_Position u) (OldPlainOffset u) = e"
    using none by (simp add: new_offset_def)
  ultimately show ?case by simp
qed simp

lemma fold_wrap64_sum: "wrap64 t = t \<Longrightarrow>
   fold (\<lambda>seg t. wrap64 (t + f seg)) segs t = wrap64 (t + sum_list (map f segs))"
  by (induction segs arbitrary: t) (simp_all add: wrap64_add_left add.assoc)

lemma wrap64_0 [simp]: "wrap64 0 = 0" by (simp add: wrap64_def)

lemma totals_sum:
  "totalPlainSize segs = wrap64 (sum_list (map commit_PlainSize segs))"
  "totalEncryptedSize segs = wrap64 (sum_list (map commit_EncryptedSize segs))"
  by (simp_all add: totalPlainSize_def totalEncryptedSize_def fold_wrap64_sum)

lemma fixed_size_loop_iff:
  "s \<noteq> - 1 \<Longrightarrow> fixed_size_loop i f segs = s \<longleftrightarrow> f = s \<and>
     (\<forall>k < length segs. Part (commit_Position (segs ! k)) = 0 \<and>
        Index (commit_Position (segs ! k)) = of_nat (i + k) \<and>
        (Suc k < length segs \<longrightarrow> commit_PlainSize (segs ! k) = f))"
proof (induction i f segs rule: fixed_size_loop.induct)
  case (2 i f seg rest)
  have all: "(\<forall>k < length (seg # rest). P k) \<longleftrightarrow> P 0 \<and> (\<forall>k < length rest. P (Suc k))" for P
    by (auto simp: less_Suc_eq_0_disj)
  show ?case
    using 2 by (subst all) auto
qed auto

lemma add_part_map_of:
  "map_of (add_part seg ps) p =
    (if p = Part (info_Position seg)
     then Some (wrap64 ((case map_of ps p of Some s \<Rightarrow> s | None \<Rightarrow> 0) + info_PlainSize seg))
     else map_of ps p)"
  by (induction seg ps rule: add_part.induct) auto

lemma add_part_distinct: "distinct (map fst ps) \<Longrightarrow> distinct (map fst (add_part seg ps))"
proof (induction seg ps rule: add_part.induct)
  case (2 seg p s ps)
  have "fst ` set (add_part seg ps) = insert (Part (info_Position seg)) (fst ` set ps)"
    by (induction seg ps rule: add_part.induct) auto
  with 2 show ?case by auto
qed simp

definition part_size :: "segmentInfoForCommit list \<Rightarrow> 32 word \<Rightarrow> int" where
  "part_size segs p =
     wrap64 (sum_list (map info_PlainSize (filter (\<lambda>s. Part (info_Position s) = p) segs)))"

lemma fold_add_part:
  "distinct (map fst ps) \<Longrightarrow> \<forall>s \<in> snd ` set ps. wrap64 s = s \<Longrightarrow>
   distinct (map fst (fold add_part segs ps)) \<and>
   map_of (fold add_part segs ps) p =
     (if p \<in> fst ` set ps \<union> (Part \<circ> info_Position) ` set segs
      then Some (wrap64 ((case map_of ps p of Some s \<Rightarrow> s | None \<Rightarrow> 0)
        + sum_list (map info_PlainSize (filter (\<lambda>s. Part (info_Position s) = p) segs))))
      else None)"
proof (induction segs arbitrary: ps)
  case Nil
  then show ?case
    by (auto simp: map_of_eq_None_iff split: option.splits dest: map_of_SomeD)
next
  case (Cons seg segs)
  have keys: "fst ` set (add_part seg qs) = insert (Part (info_Position seg)) (fst ` set qs)" for qs
    by (induction seg qs rule: add_part.induct) auto
  have "\<forall>s \<in> snd ` set (add_part seg ps). wrap64 s = s"
    using Cons.prems(2) by (induction seg ps rule: add_part.induct) auto
  with Cons.IH [OF add_part_distinct [OF Cons.prems(1)]] show ?case
    by (auto simp: add_part_map_of keys wrap64_add_left add.assoc split: option.split)
qed

lemma fold_last_part:
  "fold (\<lambda>seg l. if l < Part (info_Position seg) then Part (info_Position seg) else l) segs l
    = Max (insert l ((Part \<circ> info_Position) ` set segs))"
proof (induction segs arbitrary: l)
  case (Cons seg segs)
  have "(if l < Part (info_Position seg) then Part (info_Position seg) else l) = max l (Part (info_Position seg))"
    by (auto simp: max_def not_less)
  then show ?case
    using Cons by (cases "segs = []") (simp_all add: Max_insert2 insert_commute max.left_commute max.assoc)
qed simp

subsection \<open>Properties\<close>

text \<open>
  Lemma. For positions in ascending order and database segments in ascending order,
  \<open>determineCommitActions\<close> fails exactly when a named position has no segment; otherwise it
  commits exactly the named segments, in their order and with the sizes of the database, and
  deletes exactly the others.
\<close>

theorem determineCommitActions_spec:
  assumes "verifySegmentOrder segments = Inr ()" and "ascending (map info_Position inDatabase)"
  shows "determineCommitActions segments inDatabase =
      (if set segments \<subseteq> info_Position ` set inDatabase
       then Inr (convertToFinalSegments (filter (\<lambda>b. info_Position b \<in> set segments) inDatabase),
         map info_Position (filter (\<lambda>b. info_Position b \<notin> set segments) inDatabase))
       else Inl (MetaError ''segments and database does not match'')) \<and>
    (\<forall>commit del. determineCommitActions segments inDatabase = Inr (commit, del) \<longrightarrow>
       map commit_Position commit = segments)"
proof -
  have asc: "ascending segments" using assms(1) by (simp add: verifySegmentOrder_ok)
  have eq: "determineCommitActions segments inDatabase =
      (if set segments \<subseteq> info_Position ` set inDatabase
       then Inr (convertToFinalSegments (filter (\<lambda>b. info_Position b \<in> set segments) inDatabase),
         map info_Position (filter (\<lambda>b. info_Position b \<notin> set segments) inDatabase))
       else Inl (MetaError ''segments and database does not match''))"
    unfolding determineCommitActions_def fold_commit_callback
    using diff_events [OF asc assms(2)]
    by (simp add: invalid_of_Nil convertToFinalSegments_def)
  moreover have "map info_Position (filter (\<lambda>b. info_Position b \<in> set segments) inDatabase) = segments"
    if "set segments \<subseteq> info_Position ` set inDatabase"
    by (rule ascending_set_eq [OF ascending_filter [OF assms(2)] asc]) (use that in auto)
  ultimately show ?thesis by (auto simp: commit_Position_final split: if_splits)
qed

definition ex_info :: "32 word \<Rightarrow> 32 word \<Rightarrow> int \<Rightarrow> segmentInfoForCommit" where
  "ex_info p i s = \<lparr>info_Position = \<lparr>Part = p, Index = i\<rparr>, info_EncryptedSize = s + 16,
     info_PlainOffset = 0, info_PlainSize = s\<rparr>"

theorem determineCommitActions_spec_witness:
  "\<exists>commit. determineCommitActions [\<lparr>Part = 0, Index = 1\<rparr>] [ex_info 0 0 5, ex_info 0 1 7]
     = Inr (commit, [\<lparr>Part = 0, Index = 0\<rparr>])"
  using determineCommitActions_spec [of "[\<lparr>Part = 0, Index = 1\<rparr>]" "[ex_info 0 0 5, ex_info 0 1 7]"]
  by (simp add: ex_info_def verifySegmentOrder_def ascending_def SegmentPosition_Less_iff)

text \<open>
  Lemma. After the batch of \<open>updateSegmentOffsets\<close> every segment's offset is the sum of
  the plain sizes before it (as an \<open>int64\<close>), whatever the stored offsets were; and the batch
  contains no update that would change nothing.
\<close>

theorem updateSegmentOffsets_spec:
  assumes "distinct (map commit_Position us)" and "i < length us"
  shows "new_offset (offset_batch 0 us) (commit_Position (us ! i)) (OldPlainOffset (us ! i))
      = wrap64 (sum_list (map commit_PlainSize (take i us))) \<and>
    (\<forall>(p, off) \<in> set (offset_batch 0 us). \<exists>u \<in> set us. commit_Position u = p \<and> OldPlainOffset u \<noteq> off)"
proof -
  have "\<forall>(p, off) \<in> set (offset_batch e us). \<exists>u \<in> set us. commit_Position u = p \<and> OldPlainOffset u \<noteq> off" for e
    by (induction us arbitrary: e) fastforce+
  moreover have "new_offset (offset_batch 0 us) (commit_Position (us ! i)) (OldPlainOffset (us ! i))
      = expected_offsets 0 us ! i"
    using offset_batch_apply [OF assms(1), of 0] assms(2) by (metis (no_types, lifting) nth_map)
  ultimately show ?thesis using expected_offsets_nth [of 0 i us] assms(2) by simp
qed

theorem updateSegmentOffsets_spec_witness:
  "let us = convertToFinalSegments [ex_info 0 0 5, ex_info 0 1 7, ex_info 1 0 9] in
   new_offset (offset_batch 0 us) \<lparr>Part = 1, Index = 0\<rparr> 0 = 12"
  using updateSegmentOffsets_spec [of "convertToFinalSegments [ex_info 0 0 5, ex_info 0 1 7, ex_info 1 0 9]" 2]
  by (simp add: convertToFinalSegments_def to_commit_def ex_info_def wrap64_id numeral_2_eq_2)

text \<open>
  Lemma. A fixed segment size other than -1 is reported exactly when the segments are
  numbered consecutively from 0 in part 0 and all but the last have that plain size; then
  the offset of segment \<open>k\<close> is \<open>k\<close> times the fixed size.
\<close>

theorem fixedSegmentSize_spec:
  assumes "s \<noteq> - 1" and "us \<noteq> []"
  shows "(fixedSegmentSize us = s \<longleftrightarrow> commit_PlainSize (hd us) = s \<and>
      (\<forall>k < length us. commit_Position (us ! k) = \<lparr>Part = 0, Index = of_nat k\<rparr> \<and>
         (Suc k < length us \<longrightarrow> commit_PlainSize (us ! k) = s))) \<and>
    (fixedSegmentSize us = s \<longrightarrow>
      (\<forall>k < length us. expected_offsets 0 us ! k = wrap64 (int k * s)))"
proof -
  have pos: "Part q = 0 \<and> Index q = of_nat k \<longleftrightarrow> q = \<lparr>Part = 0, Index = of_nat k\<rparr>" for q k
    by (auto intro: SegmentPosition.equality)
  have iff: "fixedSegmentSize us = s \<longleftrightarrow> commit_PlainSize (hd us) = s \<and>
      (\<forall>k < length us. commit_Position (us ! k) = \<lparr>Part = 0, Index = of_nat k\<rparr> \<and>
         (Suc k < length us \<longrightarrow> commit_PlainSize (us ! k) = s))"
    using fixed_size_loop_iff [OF assms(1), of 0 "commit_PlainSize (hd us)" us] assms(2)
    by (cases us) (auto simp: fixedSegmentSize_def pos [symmetric])
  have "expected_offsets 0 us ! k = wrap64 (int k * s)" if "fixedSegmentSize us = s" "k < length us" for k
  proof -
    have "map commit_PlainSize (take k us) = replicate k s"
      using that iff by (intro nth_equalityI) auto
    then show ?thesis using expected_offsets_nth [of 0 k us] that(2) by (simp add: sum_list_replicate)
  qed
  with iff show ?thesis by blast
qed

theorem fixedSegmentSize_spec_witness:
  "fixedSegmentSize (convertToFinalSegments [ex_info 0 0 5, ex_info 0 1 5, ex_info 0 2 3]) = 5"
  using fixedSegmentSize_spec [of 5 "convertToFinalSegments [ex_info 0 0 5, ex_info 0 1 5, ex_info 0 2 3]"]
  by (simp add: convertToFinalSegments_def to_commit_def ex_info_def less_Suc_eq)

text \<open>
  Lemma. \<open>validateParts\<close> accepts the segments exactly when they have at most the
  allowed number of distinct parts and every part but the one with the highest number holds
  at least the minimum plain size.
\<close>

theorem validateParts_spec:
  "validateParts maxParts minSize segs = Inr () \<longleftrightarrow>
    int (card ((Part \<circ> info_Position) ` set segs)) \<le> maxParts \<and>
    (\<forall>p \<in> (Part \<circ> info_Position) ` set segs.
       p \<noteq> Max ((Part \<circ> info_Position) ` set segs) \<longrightarrow> minSize \<le> part_size segs p)"
proof (cases "segs = []")
  case False
  let ?parts = "(Part \<circ> info_Position) ` set segs" and ?m = "fold add_part segs []"
  note m = fold_add_part [of "[]" segs, simplified]
  have fin: "finite ?parts" "?parts \<noteq> {}" using False by auto
  have max: "Max (insert 0 ?parts) = Max ?parts"
    using fin by (simp add: max_def)
  have "set (map fst ?m) = ?parts"
  proof -
    have "p \<in> fst ` set ?m \<longleftrightarrow> p \<in> ?parts" for p
      using m [of p] map_of_eq_None_iff [of ?m p] by (auto split: if_splits)
    then show ?thesis by auto
  qed
  then have len: "length ?m = card ?parts"
    using m by (metis distinct_card length_map)
  have "(p, s) \<in> set ?m \<longleftrightarrow> p \<in> ?parts \<and> s = part_size segs p" for p s
    using m [of p] by (auto simp: part_size_def split: if_splits simp flip: map_of_eq_Some_iff)
  then have "(\<exists>(p, s) \<in> set ?m. p \<noteq> Max ?parts \<and> s < minSize) \<longleftrightarrow>
      (\<exists>p \<in> ?parts. p \<noteq> Max ?parts \<and> part_size segs p < minSize)" by auto
  moreover have "fold (\<lambda>seg l. if l < Part (info_Position seg) then Part (info_Position seg) else l) segs 0
      = Max ?parts"
    by (simp only: fold_last_part max)
  ultimately have "validateParts maxParts minSize segs =
      (if int (card ?parts) > maxParts then Inl (MetaError ''exceeded maximum number of parts'')
       else if \<exists>p \<in> ?parts. p \<noteq> Max ?parts \<and> part_size segs p < minSize
         then Inl (MetaError ''size of part is below minimum threshold'')
       else Inr ())"
    by (simp only: validateParts_def Let_def len)
  then show ?thesis by (simp add: not_less) (meson linorder_not_le)
qed (simp add: validateParts_def)

theorem validateParts_spec_witness:
  "validateParts 2 8 [ex_info 0 0 5, ex_info 0 1 7, ex_info 1 0 3] = Inr () \<and>
   validateParts 2 20 [ex_info 0 0 5, ex_info 0 1 7, ex_info 1 0 3] \<noteq> Inr ()"
  unfolding validateParts_spec by (simp add: ex_info_def part_size_def wrap64_id)

end
