(* ===== verification/MetaStore.thy ===== *)
theory MetaStore
  imports AliasCache CommitActions
begin

text \<open>
  The metadata database of the satellite: its tables (\<open>satellite/metabase/db.go\<close>,
  \<open>raw.go\<close>), reading objects and segments (\<open>get.go\<close>), and the operations that begin objects
  and write segments (\<open>commit.go\<close>). Tables are lists of rows; every operation takes the
  statement time \<open>now\<close> where the SQL says \<open>now()\<close>, and returns the store it leaves together
  with its result. Statements run one after the other (the database serialises them).
\<close>

subsection \<open>Tables\<close>

datatype ObjectStatus = Pending | Committed

record Object = ObjectStream +
  CreatedAt :: time
  ExpiresAt :: "time option"
  Status :: ObjectStatus
  SegmentCount :: int
  EncryptedMetadataNonce :: "byte list option"
  EncryptedMetadata :: "byte list option"
  EncryptedMetadataEncryptedKey :: "byte list option"
  TotalPlainSize :: int
  TotalEncryptedSize :: int
  FixedSegmentSize :: int
  Encryption :: EncryptionParameters
  ZombieDeletionDeadline :: "time option"

record Segment =
  seg_StreamID :: uuid
  seg_Position :: SegmentPosition
  seg_CreatedAt :: time
  seg_RepairedAt :: "time option"
  seg_ExpiresAt :: "time option"
  seg_RootPieceID :: piece_id
  seg_EncryptedKeyNonce :: "byte list"
  seg_EncryptedKey :: "byte list"
  seg_EncryptedSize :: int
  seg_PlainOffset :: int
  seg_PlainSize :: int
  seg_EncryptedETag :: "byte list option"
  seg_Redundancy :: "64 word"
  seg_InlineData :: "byte list option"
  seg_AliasPieces :: "byte list option"
  seg_Placement :: "int option"

record SegmentCopy =
  copy_StreamID :: uuid
  copy_AncestorStreamID :: uuid

record store =
  objects :: "Object list"
  segments :: "Segment list"
  copies :: "SegmentCopy list"
  alias_db :: alias_table
  alias_map :: NodeAliasMap

record config =
  MinPartSize :: int
  MaxNumberOfParts :: int
  ServerSideCopy :: bool
  MultipleVersions :: bool

text \<open>The primary keys.\<close>

definition object_key :: "Object \<Rightarrow> uuid \<times> string \<times> string \<times> int" where
  "object_key r = (ProjectID r, BucketName r, ObjectKey r, Version r)"

definition segment_key :: "Segment \<Rightarrow> uuid \<times> SegmentPosition" where
  "segment_key r = (seg_StreamID r, seg_Position r)"

definition sql_insert :: "('r \<Rightarrow> 'k) \<Rightarrow> 'r \<Rightarrow> 'r list \<Rightarrow> 'r list option" where
  "sql_insert key new rows = (if key new \<in> key ` set rows then None else Some (rows @ [new]))"

definition int4 :: "int \<Rightarrow> bool" where
  "int4 x \<longleftrightarrow> - 2147483648 \<le> x \<and> x \<le> 2147483647"

text \<open>\<open>ORDER BY position\<close> compares \<open>int8\<close> columns, that is, signed values.\<close>

definition order_by_position :: "Segment list \<Rightarrow> Segment list" where
  "order_by_position = sort_key (\<lambda>s. sint (SegmentPosition_Encode (seg_Position s)))"

definition same_location :: "('a) ObjectLocation_scheme \<Rightarrow> ('b) ObjectLocation_scheme \<Rightarrow> bool" where
  "same_location a b \<longleftrightarrow> ProjectID a = ProjectID b \<and> BucketName a = BucketName b \<and> ObjectKey a = ObjectKey b"

text \<open>The row an \<open>ObjectStream\<close> argument names.\<close>

definition names_row :: "ObjectStream \<Rightarrow> Object \<Rightarrow> bool" where
  "names_row obj r \<longleftrightarrow> same_location obj r \<and> Version r = Version obj \<and> StreamID r = StreamID obj"

definition unexpired :: "time \<Rightarrow> Object \<Rightarrow> bool" where
  "unexpired now r \<longleftrightarrow> (case ExpiresAt r of None \<Rightarrow> True | Some t \<Rightarrow> t > now)"

definition NextVersion :: int where "NextVersion = 0"

definition zero_EncryptionParameters :: EncryptionParameters where
  "zero_EncryptionParameters = \<lparr>CipherSuite = 0, BlockSize = 0\<rparr>"

subsection \<open>Transactions\<close>

text \<open>\<open>txutil.WithTx\<close>: an error rolls the tables back; the alias table and the cached map are
  reached outside the transaction and keep what was done to them.\<close>

definition with_tx :: "(store \<Rightarrow> store \<times> 'a meta_res) \<Rightarrow> store \<Rightarrow> store \<times> 'a meta_res" where
  "with_tx body s =
     (case body s of
        (s', Inl e) \<Rightarrow> (s\<lparr>alias_db := alias_db s', alias_map := alias_map s'\<rparr>, Inl e)
      | (s', Inr x) \<Rightarrow> (s', Inr x))"

text \<open>The two uses of the alias cache, on the store.\<close>

definition store_EnsurePieces :: "Pieces \<Rightarrow> store \<Rightarrow> store \<times> AliasPieces meta_res" where
  "store_EnsurePieces ps s =
     (case EnsurePiecesToAliases DB_EnsureNodeAliases DB_ListNodeAliases ps (alias_db s) (alias_map s) of
        (t, m, r) \<Rightarrow> (s\<lparr>alias_db := t, alias_map := m\<rparr>, r))"

definition store_ConvertAliases :: "AliasPieces \<Rightarrow> store \<Rightarrow> store \<times> Pieces meta_res" where
  "store_ConvertAliases aps s =
     (case ConvertAliasesToPieces DB_ListNodeAliases aps (alias_db s) (alias_map s) of
        (m, r) \<Rightarrow> (s\<lparr>alias_map := m\<rparr>, r))"

subsection \<open>Beginning an object\<close>

record BeginObject =
  begin_Stream :: ObjectStream
  begin_ExpiresAt :: "time option"
  begin_ZombieDeletionDeadline :: "time option"
  begin_EncryptedMetadata :: "byte list option"
  begin_EncryptedMetadataNonce :: "byte list option"
  begin_EncryptedMetadataEncryptedKey :: "byte list option"
  begin_Encryption :: EncryptionParameters

definition verify_metadata ::
  "byte list option \<Rightarrow> byte list option \<Rightarrow> byte list option \<Rightarrow> unit meta_res" where
  "verify_metadata metadata nonce key =
     (if metadata = None \<and> (nonce \<noteq> None \<or> key \<noteq> None)
      then Inl (ErrInvalidRequest ''EncryptedMetadataNonce and EncryptedMetadataEncryptedKey must be not set if EncryptedMetadata is not set'')
      else if metadata \<noteq> None \<and> (nonce = None \<or> key = None)
      then Inl (ErrInvalidRequest ''EncryptedMetadataNonce and EncryptedMetadataEncryptedKey must be set if EncryptedMetadata is set'')
      else Inr ())"

definition BeginObjectNextVersion_Verify :: "BeginObject \<Rightarrow> unit meta_res" where
  "BeginObjectNextVersion_Verify opts =
     res_bind (ObjectStream_Verify (begin_Stream opts)) (\<lambda>_.
       if Version (begin_Stream opts) \<noteq> NextVersion
       then Inl (ErrInvalidRequest ''Version should be metabase.NextVersion'')
       else verify_metadata (begin_EncryptedMetadata opts) (begin_EncryptedMetadataNonce opts)
         (begin_EncryptedMetadataEncryptedKey opts))"

definition BeginObjectExactVersion_Verify :: "BeginObject \<Rightarrow> unit meta_res" where
  "BeginObjectExactVersion_Verify opts =
     res_bind (ObjectStream_Verify (begin_Stream opts)) (\<lambda>_.
       if Version (begin_Stream opts) = NextVersion
       then Inl (ErrInvalidRequest ''Version should not be metabase.NextVersion'')
       else verify_metadata (begin_EncryptedMetadata opts) (begin_EncryptedMetadataNonce opts)
         (begin_EncryptedMetadataEncryptedKey opts))"

definition defaultZombieDeletionPeriod :: int where
  "defaultZombieDeletionPeriod = 24 * 60 * 60 * 1000000000"

text \<open>The row the two \<open>INSERT\<close> statements write; unlisted columns take the defaults of the
  schema.\<close>

definition begin_row :: "time \<Rightarrow> int \<Rightarrow> BeginObject \<Rightarrow> Object" where
  "begin_row now version opts =
     \<lparr>ProjectID = ProjectID (begin_Stream opts), BucketName = BucketName (begin_Stream opts),
      ObjectKey = ObjectKey (begin_Stream opts), Version = version,
      StreamID = StreamID (begin_Stream opts),
      CreatedAt = now, ExpiresAt = begin_ExpiresAt opts, Status = Pending, SegmentCount = 0,
      EncryptedMetadataNonce = begin_EncryptedMetadataNonce opts,
      EncryptedMetadata = begin_EncryptedMetadata opts,
      EncryptedMetadataEncryptedKey = begin_EncryptedMetadataEncryptedKey opts,
      TotalPlainSize = 0, TotalEncryptedSize = 0, FixedSegmentSize = 0,
      Encryption = begin_Encryption opts,
      ZombieDeletionDeadline = Some (case begin_ZombieDeletionDeadline opts of
        Some t \<Rightarrow> t | None \<Rightarrow> now + defaultZombieDeletionPeriod)\<rparr>"

text \<open>The object returned to the caller does not repeat the metadata.\<close>

definition begin_result :: "Object \<Rightarrow> Object" where
  "begin_result r = r\<lparr>EncryptedMetadataNonce := None, EncryptedMetadata := None,
     EncryptedMetadataEncryptedKey := None\<rparr>"

definition highest_version :: "('a) ObjectLocation_scheme \<Rightarrow> Object list \<Rightarrow> int option" where
  "highest_version loc rows =
     (case filter (same_location loc) rows of
        [] \<Rightarrow> None
      | r # rs \<Rightarrow> Some (fold (\<lambda>x v. max v (Version x)) rs (Version r)))"

definition BeginObjectNextVersion :: "time \<Rightarrow> BeginObject \<Rightarrow> store \<Rightarrow> store \<times> Object meta_res" where
  "BeginObjectNextVersion now opts s =
     (case BeginObjectNextVersion_Verify opts of
        Inl e \<Rightarrow> (s, Inl e)
      | Inr _ \<Rightarrow>
          let version = (case highest_version (begin_Stream opts) (objects s) of
                Some v \<Rightarrow> v + 1 | None \<Rightarrow> 1);
              row = begin_row now version opts
          in if \<not> int4 version then (s, Inl (MetaError ''unable to insert object''))
             else case sql_insert object_key row (objects s) of
               None \<Rightarrow> (s, Inl (MetaError ''unable to insert object''))
             | Some rows \<Rightarrow> (s\<lparr>objects := rows\<rparr>, Inr (begin_result row)))"

definition BeginObjectExactVersion :: "time \<Rightarrow> BeginObject \<Rightarrow> store \<Rightarrow> store \<times> Object meta_res" where
  "BeginObjectExactVersion now opts s =
     (case BeginObjectExactVersion_Verify opts of
        Inl e \<Rightarrow> (s, Inl e)
      | Inr _ \<Rightarrow>
          let row = begin_row now (Version (begin_Stream opts)) opts
          in if \<not> int4 (Version (begin_Stream opts)) then (s, Inl (MetaError ''unable to insert object''))
             else case sql_insert object_key row (objects s) of
               None \<Rightarrow> (s, Inl ErrObjectAlreadyExists)
             | Some rows \<Rightarrow> (s\<lparr>objects := rows\<rparr>, Inr (begin_result row)))"

subsection \<open>Writing segments\<close>

definition pending_exists :: "ObjectStream \<Rightarrow> store \<Rightarrow> bool" where
  "pending_exists obj s \<longleftrightarrow> (\<exists>r \<in> set (objects s). names_row obj r \<and> Status r = Pending)"

definition BeginSegment :: "ObjectStream \<Rightarrow> piece_id \<Rightarrow> Pieces \<Rightarrow> store \<Rightarrow> unit meta_res" where
  "BeginSegment obj rootPieceID pieces s =
     res_bind (ObjectStream_Verify obj) (\<lambda>_.
     res_bind (Pieces_Verify pieces) (\<lambda>_.
       if rootPieceID = 0 then Inl (ErrInvalidRequest ''RootPieceID missing'')
       else if \<not> pending_exists obj s then Inl ErrPendingObjectMissing
       else Inr ()))"

record CommitSegmentOpts =
  cs_Stream :: ObjectStream
  cs_Position :: SegmentPosition
  cs_RootPieceID :: piece_id
  cs_ExpiresAt :: "time option"
  cs_EncryptedKeyNonce :: "byte list"
  cs_EncryptedKey :: "byte list"
  cs_PlainOffset :: int
  cs_PlainSize :: int
  cs_EncryptedSize :: int
  cs_EncryptedETag :: "byte list option"
  cs_Redundancy :: RedundancyScheme
  cs_Pieces :: Pieces
  cs_Placement :: int

text \<open>\<open>validatePlainSize\<close> is the constant \<open>false\<close>, so the plain size is not checked.\<close>

definition CommitSegment_Verify :: "CommitSegmentOpts \<Rightarrow> unit meta_res" where
  "CommitSegment_Verify opts =
     res_bind (ObjectStream_Verify (cs_Stream opts)) (\<lambda>_.
     res_bind (Pieces_Verify (cs_Pieces opts)) (\<lambda>_.
       if cs_RootPieceID opts = 0 then Inl (ErrInvalidRequest ''RootPieceID missing'')
       else if cs_EncryptedKey opts = [] then Inl (ErrInvalidRequest ''EncryptedKey missing'')
       else if cs_EncryptedKeyNonce opts = [] then Inl (ErrInvalidRequest ''EncryptedKeyNonce missing'')
       else if cs_EncryptedSize opts \<le> 0 then Inl (ErrInvalidRequest ''EncryptedSize negative or zero'')
       else if cs_PlainOffset opts < 0 then Inl (ErrInvalidRequest ''PlainOffset negative'')
       else if cs_Redundancy opts = zero_RedundancyScheme then Inl (ErrInvalidRequest ''Redundancy zero'')
       else if int (length (cs_Pieces opts)) < OptimalShares (cs_Redundancy opts)
       then Inl (ErrInvalidRequest ''number of pieces is less than redundancy optimal shares value'')
       else Inr ()))"

definition remote_row :: "time \<Rightarrow> CommitSegmentOpts \<Rightarrow> 64 word \<Rightarrow> byte list option \<Rightarrow> Segment" where
  "remote_row now opts redundancy aliasPieces =
     \<lparr>seg_StreamID = StreamID (cs_Stream opts), seg_Position = cs_Position opts,
      seg_CreatedAt = now, seg_RepairedAt = None, seg_ExpiresAt = cs_ExpiresAt opts,
      seg_RootPieceID = cs_RootPieceID opts,
      seg_EncryptedKeyNonce = cs_EncryptedKeyNonce opts, seg_EncryptedKey = cs_EncryptedKey opts,
      seg_EncryptedSize = cs_EncryptedSize opts, seg_PlainOffset = cs_PlainOffset opts,
      seg_PlainSize = cs_PlainSize opts, seg_EncryptedETag = cs_EncryptedETag opts,
      seg_Redundancy = redundancy, seg_InlineData = None, seg_AliasPieces = aliasPieces,
      seg_Placement = Some (cs_Placement opts)\<rparr>"

text \<open>The \<open>DO UPDATE\<close> of the statement leaves the columns it does not name.\<close>

definition remote_update :: "Segment \<Rightarrow> Segment \<Rightarrow> Segment" where
  "remote_update new r =
     r\<lparr>seg_ExpiresAt := seg_ExpiresAt new, seg_RootPieceID := seg_RootPieceID new,
       seg_EncryptedKeyNonce := seg_EncryptedKeyNonce new, seg_EncryptedKey := seg_EncryptedKey new,
       seg_EncryptedSize := seg_EncryptedSize new, seg_PlainOffset := seg_PlainOffset new,
       seg_PlainSize := seg_PlainSize new, seg_EncryptedETag := seg_EncryptedETag new,
       seg_Redundancy := seg_Redundancy new, seg_AliasPieces := seg_AliasPieces new,
       seg_Placement := seg_Placement new\<rparr>"

definition CommitSegment :: "time \<Rightarrow> CommitSegmentOpts \<Rightarrow> store \<Rightarrow> store \<times> unit meta_res" where
  "CommitSegment now opts s =
     (case CommitSegment_Verify opts of
        Inl e \<Rightarrow> (s, Inl e)
      | Inr _ \<Rightarrow>
          (case store_EnsurePieces (cs_Pieces opts) s of
             (s', Inl e) \<Rightarrow> (s', Inl (MetaError ''unable to convert pieces to aliases''))
           | (s', Inr aliasPieces) \<Rightarrow>
               (case res_bind (RedundancyScheme_Value (cs_Redundancy opts)) (\<lambda>red.
                        res_bind (AliasPieces_Value aliasPieces) (\<lambda>ap. Inr (red, ap))) of
                  Inl e \<Rightarrow> (s', Inl (MetaError ''unable to insert segment''))
                | Inr (red, ap) \<Rightarrow>
                    if \<not> pending_exists (cs_Stream opts) s' then (s', Inl ErrPendingObjectMissing)
                    else let row = remote_row now opts red ap
                      in (s'\<lparr>segments := sql_upsert segment_key row (remote_update row) (segments s')\<rparr>,
                          Inr ()))))"

record CommitInlineSegmentOpts =
  ci_Stream :: ObjectStream
  ci_Position :: SegmentPosition
  ci_ExpiresAt :: "time option"
  ci_EncryptedKeyNonce :: "byte list"
  ci_EncryptedKey :: "byte list"
  ci_PlainOffset :: int
  ci_PlainSize :: int
  ci_EncryptedETag :: "byte list option"
  ci_InlineData :: "byte list option"

definition CommitInlineSegment_Verify :: "CommitInlineSegmentOpts \<Rightarrow> unit meta_res" where
  "CommitInlineSegment_Verify opts =
     res_bind (ObjectStream_Verify (ci_Stream opts)) (\<lambda>_.
       if ci_EncryptedKey opts = [] then Inl (ErrInvalidRequest ''EncryptedKey missing'')
       else if ci_EncryptedKeyNonce opts = [] then Inl (ErrInvalidRequest ''EncryptedKeyNonce missing'')
       else if ci_PlainOffset opts < 0 then Inl (ErrInvalidRequest ''PlainOffset negative'')
       else Inr ())"

definition inline_length :: "byte list option \<Rightarrow> int" where
  "inline_length d = (case d of None \<Rightarrow> 0 | Some b \<Rightarrow> int (length b))"

definition inline_row :: "time \<Rightarrow> CommitInlineSegmentOpts \<Rightarrow> Segment" where
  "inline_row now opts =
     \<lparr>seg_StreamID = StreamID (ci_Stream opts), seg_Position = ci_Position opts,
      seg_CreatedAt = now, seg_RepairedAt = None, seg_ExpiresAt = ci_ExpiresAt opts,
      seg_RootPieceID = 0,
      seg_EncryptedKeyNonce = ci_EncryptedKeyNonce opts, seg_EncryptedKey = ci_EncryptedKey opts,
      seg_EncryptedSize = inline_length (ci_InlineData opts), seg_PlainOffset = ci_PlainOffset opts,
      seg_PlainSize = ci_PlainSize opts, seg_EncryptedETag = ci_EncryptedETag opts,
      seg_Redundancy = 0, seg_InlineData = ci_InlineData opts, seg_AliasPieces = None,
      seg_Placement = None\<rparr>"

definition inline_update :: "Segment \<Rightarrow> Segment \<Rightarrow> Segment" where
  "inline_update new r =
     r\<lparr>seg_ExpiresAt := seg_ExpiresAt new, seg_RootPieceID := seg_RootPieceID new,
       seg_EncryptedKeyNonce := seg_EncryptedKeyNonce new, seg_EncryptedKey := seg_EncryptedKey new,
       seg_EncryptedSize := seg_EncryptedSize new, seg_PlainOffset := seg_PlainOffset new,
       seg_PlainSize := seg_PlainSize new, seg_EncryptedETag := seg_EncryptedETag new,
       seg_InlineData := seg_InlineData new\<rparr>"

definition CommitInlineSegment :: "time \<Rightarrow> CommitInlineSegmentOpts \<Rightarrow> store \<Rightarrow> store \<times> unit meta_res" where
  "CommitInlineSegment now opts s =
     (case CommitInlineSegment_Verify opts of
        Inl e \<Rightarrow> (s, Inl e)
      | Inr _ \<Rightarrow>
          if \<not> int4 (inline_length (ci_InlineData opts))
          then (s, Inl (MetaError ''unable to insert segment''))
          else if \<not> pending_exists (ci_Stream opts) s then (s, Inl ErrPendingObjectMissing)
          else let row = inline_row now opts
            in (s\<lparr>segments := sql_upsert segment_key row (inline_update row) (segments s)\<rparr>, Inr ()))"

subsection \<open>Reading\<close>

definition GetObjectExactVersion :: "time \<Rightarrow> int \<Rightarrow> ObjectLocation \<Rightarrow> store \<Rightarrow> Object meta_res" where
  "GetObjectExactVersion now version loc s =
     res_bind (ObjectLocation_Verify loc) (\<lambda>_.
       if version \<le> 0 then Inl (ErrInvalidRequest ''Version invalid'')
       else case filter (\<lambda>r. same_location loc r \<and> Version r = version \<and> Status r = Committed \<and>
               unexpired now r) (objects s) of
         [] \<Rightarrow> Inl (ErrObjectNotFound ''metabase: sql: no rows in result set'')
       | r # _ \<Rightarrow> Inr (r\<lparr>ZombieDeletionDeadline := None\<rparr>))"

definition GetObjectLastCommitted :: "time \<Rightarrow> ObjectLocation \<Rightarrow> store \<Rightarrow> Object meta_res" where
  "GetObjectLastCommitted now loc s =
     res_bind (ObjectLocation_Verify loc) (\<lambda>_.
       case sort_key (\<lambda>r. - Version r)
              (filter (\<lambda>r. same_location loc r \<and> Status r = Committed \<and> unexpired now r) (objects s)) of
         [] \<Rightarrow> Inl (ErrObjectNotFound ''metabase: sql: no rows in result set'')
       | r # _ \<Rightarrow> Inr (r\<lparr>ZombieDeletionDeadline := None\<rparr>))"

definition BucketEmpty :: "uuid \<Rightarrow> string \<Rightarrow> store \<Rightarrow> bool meta_res" where
  "BucketEmpty projectID bucketName s =
     (if projectID = 0 then Inl (ErrInvalidRequest ''ProjectID missing'')
      else if bucketName = [] then Inl (ErrInvalidRequest ''BucketName missing'')
      else Inr (\<not> (\<exists>r \<in> set (objects s). ProjectID r = projectID \<and> BucketName r = bucketName)))"

end
