(* ===== verification/MetaDelete.thy ===== *)
theory MetaDelete
  imports MetaStore
begin

text \<open>
  Deleting objects (\<open>satellite/metabase/delete.go\<close>). A statement deletes object rows with the
  segment rows of their streams and returns one result row per deleted segment (one with
  \<open>NULL\<close> columns for an object without segments); a scan turns those rows into the objects
  deleted and the pieces to remove from storage nodes. With server-side copy a deleted object
  may be the ancestor of copies that have no pieces of their own: one of them is promoted and
  inherits the pieces.
\<close>

subsection \<open>Statements\<close>

record DeletedSegmentInfo =
  del_RootPieceID :: piece_id
  del_Pieces :: Pieces

record DeleteObjectResult =
  res_Objects :: "Object list"
  res_Segments :: "DeletedSegmentInfo list"

record deletedRemoteSegmentInfo =
  rem_Position :: SegmentPosition
  rem_RootPieceID :: piece_id
  rem_Pieces :: Pieces
  rem_RepairedAt :: "time option"

record deletedObjectInfo =
  info_Object :: Object
  info_Segments :: "deletedRemoteSegmentInfo list"
  info_PromotedAncestor :: "uuid option"

definition exact_version :: "'a ObjectLocation_scheme \<Rightarrow> int \<Rightarrow> Object \<Rightarrow> bool" where
  "exact_version loc version r \<longleftrightarrow> same_location loc r \<and> Version r = version"

text \<open>\<open>version IN (SELECT version ... committed and not expired)\<close> at the same location.\<close>

definition last_committed :: "time \<Rightarrow> 'a ObjectLocation_scheme \<Rightarrow> Object list \<Rightarrow> Object \<Rightarrow> bool" where
  "last_committed now loc rows r \<longleftrightarrow> same_location loc r \<and>
     (\<exists>q \<in> set rows. same_location loc q \<and> Status q = Committed \<and> unexpired now q \<and> Version q = Version r)"

definition deleted_streams :: "(Object \<Rightarrow> bool) \<Rightarrow> store \<Rightarrow> uuid set" where
  "deleted_streams P s = StreamID ` set (sql_returning P (objects s))"

definition left_join :: "Object list \<Rightarrow> Segment list \<Rightarrow> (Object \<times> Segment option) list" where
  "left_join objs segs = concat (map (\<lambda>r.
     (case filter (\<lambda>g. seg_StreamID g = StreamID r) segs of
        [] \<Rightarrow> [(r, None)] | gs \<Rightarrow> map (\<lambda>g. (r, Some g)) gs)) objs)"

text \<open>The statement shared by the operations without server-side copy.\<close>

definition delete_objects_sql :: "(Object \<Rightarrow> bool) \<Rightarrow> store \<Rightarrow> store \<times> (Object \<times> Segment option) list" where
  "delete_objects_sql P s =
     (let streams = deleted_streams P s in
      (s\<lparr>objects := sql_delete P (objects s),
         segments := sql_delete (\<lambda>g. seg_StreamID g \<in> streams) (segments s)\<rparr>,
       left_join (sql_returning P (objects s))
         (sql_returning (\<lambda>g. seg_StreamID g \<in> streams) (segments s))))"

text \<open>\<open>promoted_ancestors\<close>: SQL does not say which copy \<open>DISTINCT ON\<close> keeps; the model takes
  the first in the order of the table.\<close>

definition promoted_ancestor :: "uuid set \<Rightarrow> uuid \<Rightarrow> SegmentCopy list \<Rightarrow> uuid option" where
  "promoted_ancestor deleted stream cs =
     map_option copy_StreamID
       (find (\<lambda>c. copy_AncestorStreamID c = stream \<and> copy_StreamID c \<notin> deleted) cs)"

definition delete_objects_copy_sql ::
  "(Object \<Rightarrow> bool) \<Rightarrow> store \<Rightarrow> store \<times> (Object \<times> Segment option \<times> uuid option) list" where
  "delete_objects_copy_sql P s =
     (let streams = deleted_streams P s;
          rows = left_join (sort_key StreamID (sql_returning P (objects s)))
            (sql_returning (\<lambda>g. seg_StreamID g \<in> streams) (segments s))
      in (s\<lparr>objects := sql_delete P (objects s),
            segments := sql_delete (\<lambda>g. seg_StreamID g \<in> streams) (segments s),
            copies := sql_delete (\<lambda>c. copy_StreamID c \<in> streams) (copies s)\<rparr>,
          map (\<lambda>(r, g). (r, g, promoted_ancestor streams (StreamID r) (copies s))) rows))"

subsection \<open>Scanning the results\<close>

definition scan_pieces :: "Segment \<Rightarrow> store \<Rightarrow> store \<times> Pieces meta_res" where
  "scan_pieces g s =
     (case AliasPieces_Scan (seg_AliasPieces g) of
        Inl e \<Rightarrow> (s, Inl (MetaError ''unable to delete object''))
      | Inr aps \<Rightarrow> store_ConvertAliases aps s)"

text \<open>The scanned object has no zombie deadline; consecutive rows of one stream are one object.\<close>

definition add_object :: "Object \<Rightarrow> Object list \<Rightarrow> Object list" where
  "add_object r objs =
     (if objs = [] \<or> StreamID (last objs) \<noteq> StreamID r
      then objs @ [r\<lparr>ZombieDeletionDeadline := None\<rparr>] else objs)"

fun scanObjectDeletion ::
  "(Object \<times> Segment option) list \<Rightarrow> DeleteObjectResult \<Rightarrow> store \<Rightarrow> store \<times> DeleteObjectResult meta_res" where
  "scanObjectDeletion [] acc s = (s, Inr acc)"
| "scanObjectDeletion ((r, g) # rows) acc s =
     (let acc' = acc\<lparr>res_Objects := add_object r (res_Objects acc)\<rparr> in
      case g of
        None \<Rightarrow> scanObjectDeletion rows acc' s
      | Some seg \<Rightarrow>
          (case scan_pieces seg s of
             (s', Inl e) \<Rightarrow> (s', Inl e)
           | (s', Inr pieces) \<Rightarrow>
               scanObjectDeletion rows
                 (if length pieces > 0
                  then acc'\<lparr>res_Segments := res_Segments acc' @
                    [\<lparr>del_RootPieceID = seg_RootPieceID seg, del_Pieces = pieces\<rparr>]\<rparr>
                  else acc') s'))"

definition empty_result :: DeleteObjectResult where
  "empty_result = \<lparr>res_Objects = [], res_Segments = []\<rparr>"

definition add_info :: "Object \<Rightarrow> uuid option \<Rightarrow> deletedObjectInfo list \<Rightarrow> deletedObjectInfo list" where
  "add_info r promoted acc =
     (if acc = [] \<or> StreamID (info_Object (last acc)) \<noteq> StreamID r
      then acc @ [\<lparr>info_Object = r\<lparr>ZombieDeletionDeadline := None\<rparr>, info_Segments = [],
        info_PromotedAncestor = promoted\<rparr>] else acc)"

definition add_info_segment ::
  "deletedRemoteSegmentInfo \<Rightarrow> deletedObjectInfo list \<Rightarrow> deletedObjectInfo list" where
  "add_info_segment seg acc =
     butlast acc @ [(last acc)\<lparr>info_Segments := info_Segments (last acc) @ [seg]\<rparr>]"

fun scanObjectDeletionServerSideCopy ::
  "(Object \<times> Segment option \<times> uuid option) list \<Rightarrow> deletedObjectInfo list \<Rightarrow> store
   \<Rightarrow> store \<times> (deletedObjectInfo list) meta_res" where
  "scanObjectDeletionServerSideCopy [] acc s = (s, Inr acc)"
| "scanObjectDeletionServerSideCopy ((r, g, promoted) # rows) acc s =
     (let acc' = add_info r promoted acc in
      case g of
        None \<Rightarrow> scanObjectDeletionServerSideCopy rows acc' s
      | Some seg \<Rightarrow>
          (case scan_pieces seg s of
             (s', Inl e) \<Rightarrow> (s', Inl e)
           | (s', Inr pieces) \<Rightarrow>
               scanObjectDeletionServerSideCopy rows
                 (if length pieces > 0
                  then add_info_segment \<lparr>rem_Position = seg_Position seg,
                    rem_RootPieceID = seg_RootPieceID seg, rem_Pieces = pieces,
                    rem_RepairedAt = seg_RepairedAt seg\<rparr> acc'
                  else acc') s'))"

subsection \<open>Promoting a new ancestor\<close>

fun encode_segments ::
  "deletedRemoteSegmentInfo list \<Rightarrow> store
   \<Rightarrow> store \<times> ((SegmentPosition \<times> byte list \<times> time option) list) meta_res" where
  "encode_segments [] s = (s, Inr [])"
| "encode_segments (g # gs) s =
     (case store_EnsurePieces (rem_Pieces g) s of
        (s', Inl e) \<Rightarrow> (s', Inl e)
      | (s', Inr aliases) \<Rightarrow>
          (case AliasPieces_Bytes aliases of
             Inl e \<Rightarrow> (s', Inl e)
           | Inr bs \<Rightarrow>
               (case encode_segments gs s' of
                  (s'', Inl e) \<Rightarrow> (s'', Inl e)
                | (s'', Inr rest) \<Rightarrow> (s'', Inr ((rem_Position g, bs, rem_RepairedAt g) # rest)))))"

definition is_segment_of :: "uuid \<Rightarrow> ('p \<times> 'x) list \<Rightarrow> (SegmentPosition \<Rightarrow> 'p) \<Rightarrow> Segment \<Rightarrow> bool" where
  "is_segment_of stream batch f g \<longleftrightarrow>
     seg_StreamID g = stream \<and> f (seg_Position g) \<in> fst ` set batch"

definition promote_one :: "deletedObjectInfo \<Rightarrow> uuid \<Rightarrow> store \<Rightarrow> store \<times> unit meta_res" where
  "promote_one info new s =
     (case encode_segments (info_Segments info) s of
        (s1, Inl e) \<Rightarrow> (s1, Inl e)
      | (s1, Inr batch) \<Rightarrow>
          let old = StreamID (info_Object info);
              copies2 = sql_delete (\<lambda>c. copy_StreamID c = new) (copies s1);
              children = (\<lambda>c. copy_AncestorStreamID c = old);
              chosen = is_segment_of new batch id;
              copies3 = sql_update children (\<lambda>c. c\<lparr>copy_AncestorStreamID := new\<rparr>) copies2;
              segments3 = sql_update chosen
                (\<lambda>g. case map_of batch (seg_Position g) of
                   None \<Rightarrow> g
                 | Some (bs, repaired) \<Rightarrow> g\<lparr>seg_AliasPieces := Some bs, seg_RepairedAt := repaired\<rparr>)
                (segments s1)
          in if length (sql_returning (\<lambda>c. copy_StreamID c = new) (copies s1)) \<noteq> 1
               then (s1, Inl (MetaError ''new ancestor was not deleted from segment copies''))
             else if \<exists>c \<in> set copies3. copy_StreamID c = copy_AncestorStreamID c
               then (s1, Inl (MetaError ''not_self_ancestor''))
             else if length (sql_returning chosen (segments s1)) \<noteq> length (info_Segments info)
               then (s1, Inl (MetaError ''not all new ancestor segments were update''))
             else (s1\<lparr>copies := copies3, segments := segments3\<rparr>, Inr ()))"

fun promoteNewAncestors :: "deletedObjectInfo list \<Rightarrow> store \<Rightarrow> store \<times> unit meta_res" where
  "promoteNewAncestors [] s = (s, Inr ())"
| "promoteNewAncestors (info # infos) s =
     (case info_PromotedAncestor info of
        None \<Rightarrow> promoteNewAncestors infos s
      | Some new \<Rightarrow>
          (case promote_one info new s of
             (s', Inl e) \<Rightarrow> (s', Inl e)
           | (s', Inr _) \<Rightarrow> promoteNewAncestors infos s'))"

subsection \<open>The operations\<close>

definition delete_serverside_copy ::
  "(Object \<Rightarrow> bool) \<Rightarrow> store \<Rightarrow> store \<times> (deletedObjectInfo list) meta_res" where
  "delete_serverside_copy P s =
     (case delete_objects_copy_sql P s of
        (s1, rows) \<Rightarrow>
          (case scanObjectDeletionServerSideCopy rows [] s1 of
             (s2, Inl e) \<Rightarrow> (s2, Inl e)
           | (s2, Inr infos) \<Rightarrow>
               (case promoteNewAncestors infos s2 of
                  (s3, Inl e) \<Rightarrow> (s3, Inl e)
                | (s3, Inr _) \<Rightarrow> (s3, Inr infos))))"

text \<open>Segments of an object whose pieces went to a promoted ancestor are not reported.\<close>

definition result_of_infos :: "deletedObjectInfo list \<Rightarrow> DeleteObjectResult" where
  "result_of_infos infos =
     \<lparr>res_Objects = map info_Object infos,
      res_Segments = concat (map (\<lambda>info.
        if info_PromotedAncestor info \<noteq> None then []
        else map (\<lambda>g. \<lparr>del_RootPieceID = rem_RootPieceID g, del_Pieces = rem_Pieces g\<rparr>)
          (info_Segments info)) infos)\<rparr>"

definition delete_with_config :: "config \<Rightarrow> (Object \<Rightarrow> bool) \<Rightarrow> store \<Rightarrow> store \<times> DeleteObjectResult meta_res" where
  "delete_with_config cfg P s =
     (if ServerSideCopy cfg then
        (case delete_serverside_copy P s of
           (s', Inl e) \<Rightarrow> (s', Inl e)
         | (s', Inr infos) \<Rightarrow> (s', Inr (result_of_infos infos)))
      else
        (case delete_objects_sql P s of
           (s', rows) \<Rightarrow> scanObjectDeletion rows empty_result s'))"

definition DeleteObjectExactVersion_Verify :: "int \<Rightarrow> ObjectLocation \<Rightarrow> unit meta_res" where
  "DeleteObjectExactVersion_Verify version loc =
     res_bind (ObjectLocation_Verify loc) (\<lambda>_.
       if version \<le> 0 then Inl (ErrInvalidRequest ''Version invalid'') else Inr ())"

definition delete_exact :: "config \<Rightarrow> int \<Rightarrow> ObjectLocation \<Rightarrow> store \<Rightarrow> store \<times> DeleteObjectResult meta_res" where
  "delete_exact cfg version loc s =
     (case DeleteObjectExactVersion_Verify version loc of
        Inl e \<Rightarrow> (s, Inl e)
      | Inr _ \<Rightarrow> delete_with_config cfg (exact_version loc version) s)"

definition DeleteObjectExactVersion ::
  "config \<Rightarrow> int \<Rightarrow> ObjectLocation \<Rightarrow> store \<Rightarrow> store \<times> DeleteObjectResult meta_res" where
  "DeleteObjectExactVersion cfg version loc s = with_tx (delete_exact cfg version loc) s"

definition delete_last :: "config \<Rightarrow> time \<Rightarrow> ObjectLocation \<Rightarrow> store \<Rightarrow> store \<times> DeleteObjectResult meta_res" where
  "delete_last cfg now loc s =
     (case ObjectLocation_Verify loc of
        Inl e \<Rightarrow> (s, Inl e)
      | Inr _ \<Rightarrow> delete_with_config cfg (last_committed now loc (objects s)) s)"

definition DeleteObjectLastCommitted ::
  "config \<Rightarrow> time \<Rightarrow> ObjectLocation \<Rightarrow> store \<Rightarrow> store \<times> DeleteObjectResult meta_res" where
  "DeleteObjectLastCommitted cfg now loc s = with_tx (delete_last cfg now loc) s"

text \<open>The operations outside a transaction: when the scan of the results fails, the rows are
  already gone.\<close>

definition scan_outside_tx ::
  "(Object \<Rightarrow> bool) \<Rightarrow> store \<Rightarrow> store \<times> DeleteObjectResult meta_res" where
  "scan_outside_tx P s =
     (case delete_objects_sql P s of (s', rows) \<Rightarrow> scanObjectDeletion rows empty_result s')"

definition require_deleted ::
  "store \<times> DeleteObjectResult meta_res \<Rightarrow> store \<times> DeleteObjectResult meta_res" where
  "require_deleted sr =
     (case sr of
        (s, Inl e) \<Rightarrow> (s, Inl e)
      | (s, Inr res) \<Rightarrow> if res_Objects res = [] then (s, Inl (ErrObjectNotFound ''metabase: no rows deleted''))
          else (s, Inr res))"

definition DeletePendingObject :: "ObjectStream \<Rightarrow> store \<Rightarrow> store \<times> DeleteObjectResult meta_res" where
  "DeletePendingObject obj s =
     (case ObjectStream_Verify obj of
        Inl e \<Rightarrow> (s, Inl e)
      | Inr _ \<Rightarrow> require_deleted (scan_outside_tx (\<lambda>r. names_row obj r \<and> Status r = Pending) s))"

definition DeleteObjectAnyStatusAllVersions ::
  "config \<Rightarrow> ObjectLocation \<Rightarrow> store \<Rightarrow> store \<times> DeleteObjectResult meta_res" where
  "DeleteObjectAnyStatusAllVersions cfg loc s =
     (if ServerSideCopy cfg
      then (s, Inl (MetaError ''method cannot be used when server-side copy is enabled''))
      else case ObjectLocation_Verify loc of
        Inl e \<Rightarrow> (s, Inl e)
      | Inr _ \<Rightarrow> require_deleted (scan_outside_tx (same_location loc) s))"

fun verify_locations :: "ObjectLocation list \<Rightarrow> unit meta_res" where
  "verify_locations [] = Inr ()"
| "verify_locations (loc # locs) =
     (case ObjectLocation_Verify loc of Inl e \<Rightarrow> Inl e | Inr _ \<Rightarrow> verify_locations locs)"

definition DeleteObjectsAllVersions_Verify :: "ObjectLocation list \<Rightarrow> unit meta_res" where
  "DeleteObjectsAllVersions_Verify locs =
     (case locs of
        [] \<Rightarrow> Inr ()
      | first # rest \<Rightarrow>
          if length locs > 1000
          then Inl (ErrInvalidRequest ''cannot delete more than 1000 objects in a single request'')
          else res_bind (verify_locations locs) (\<lambda>_.
            if \<exists>item \<in> set rest. ProjectID first \<noteq> ProjectID item \<or> BucketName first \<noteq> BucketName item
            then Inl (ErrInvalidRequest ''all objects must be in the same bucket'')
            else Inr ()))"

definition DeleteObjectsAllVersions ::
  "config \<Rightarrow> ObjectLocation list \<Rightarrow> store \<Rightarrow> store \<times> DeleteObjectResult meta_res" where
  "DeleteObjectsAllVersions cfg locs s =
     (if ServerSideCopy cfg
      then (s, Inl (MetaError ''method cannot be used when server-side copy is enabled''))
      else case locs of
        [] \<Rightarrow> (s, Inr empty_result)
      | first # _ \<Rightarrow>
          (case DeleteObjectsAllVersions_Verify locs of
             Inl e \<Rightarrow> (s, Inl e)
           | Inr _ \<Rightarrow> scan_outside_tx
               (\<lambda>r. ProjectID r = ProjectID first \<and> BucketName r = BucketName first \<and>
                  ObjectKey r \<in> ObjectKey ` set locs \<and> Status r = Committed) s))"

end
