(* ===== verification/MetaCommit.thy ===== *)
theory MetaCommit
  imports MetaDelete
begin

text \<open>
  Committing objects: \<open>CommitObject\<close> (\<open>satellite/metabase/commit.go\<close>) and
  \<open>CommitObjectWithSegments\<close> (\<open>commit_object.go\<close>), with the statements that fetch a stream's
  segments, rewrite their offsets, delete the segments left out and turn the pending row into
  a committed one.
\<close>

subsection \<open>Statements\<close>

definition segment_info :: "Segment \<Rightarrow> segmentInfoForCommit" where
  "segment_info g = \<lparr>info_Position = seg_Position g, info_EncryptedSize = seg_EncryptedSize g,
     info_PlainOffset = seg_PlainOffset g, info_PlainSize = seg_PlainSize g\<rparr>"

definition fetchSegmentsForCommit :: "uuid \<Rightarrow> store \<Rightarrow> segmentInfoForCommit list" where
  "fetchSegmentsForCommit stream s =
     map segment_info (order_by_position (filter (\<lambda>g. seg_StreamID g = stream) (segments s)))"

definition updateSegmentOffsets :: "uuid \<Rightarrow> segmentToCommit list \<Rightarrow> store \<Rightarrow> store \<times> unit meta_res" where
  "updateSegmentOffsets stream updates s =
     (let batch = offset_batch 0 updates;
          chosen = is_segment_of stream batch id
      in if batch = [] then (s, Inr ())
         else if length (sql_returning chosen (segments s)) \<noteq> length batch
         then (s, Inl (MetaError ''not all segments were updated''))
         else (s\<lparr>segments := sql_update chosen
             (\<lambda>g. g\<lparr>seg_PlainOffset := new_offset batch (seg_Position g) (seg_PlainOffset g)\<rparr>)
             (segments s)\<rparr>, Inr ()))"

fun scan_deleted_segments ::
  "Segment list \<Rightarrow> DeletedSegmentInfo list \<Rightarrow> store \<Rightarrow> store \<times> (DeletedSegmentInfo list) meta_res" where
  "scan_deleted_segments [] acc s = (s, Inr acc)"
| "scan_deleted_segments (g # gs) acc s =
     (case AliasPieces_Scan (seg_AliasPieces g) of
        Inl e \<Rightarrow> (s, Inl (MetaError ''unable to delete segments''))
      | Inr aps \<Rightarrow>
          if seg_RootPieceID g = 0 then scan_deleted_segments gs acc s
          else (case store_ConvertAliases aps s of
              (s', Inl e) \<Rightarrow> (s', Inl (MetaError ''unable to delete segments''))
            | (s', Inr pieces) \<Rightarrow>
                scan_deleted_segments gs
                  (acc @ [\<lparr>del_RootPieceID = seg_RootPieceID g, del_Pieces = pieces\<rparr>]) s'))"

definition deleteSegmentsNotInCommit ::
  "uuid \<Rightarrow> SegmentPosition list \<Rightarrow> store \<Rightarrow> store \<times> (DeletedSegmentInfo list) meta_res" where
  "deleteSegmentsNotInCommit stream positions s =
     (if length positions = 0 then (s, Inr [])
      else let gone = (\<lambda>g. seg_StreamID g = stream \<and> seg_Position g \<in> set positions)
        in scan_deleted_segments (sql_returning gone (segments s)) []
             (s\<lparr>segments := sql_delete gone (segments s)\<rparr>))"

text \<open>\<open>UPDATE objects ... RETURNING\<close> on the pending row: the store and the updated rows.\<close>

definition update_pending :: "ObjectStream \<Rightarrow> (Object \<Rightarrow> Object) \<Rightarrow> store \<Rightarrow> store \<times> Object list" where
  "update_pending obj f s =
     (let chosen = (\<lambda>r. names_row obj r \<and> Status r = Pending) in
      (s\<lparr>objects := sql_update chosen f (objects s)\<rparr>, map f (sql_returning chosen (objects s))))"

subsection \<open>CommitObject\<close>

record CommitObjectOpts =
  co_Stream :: ObjectStream
  co_Encryption :: EncryptionParameters
  co_OverrideEncryptedMetadata :: bool
  co_EncryptedMetadata :: "byte list option"
  co_EncryptedMetadataNonce :: "byte list option"
  co_EncryptedMetadataEncryptedKey :: "byte list option"
  co_DisallowDelete :: bool

definition CommitObject_Verify :: "CommitObjectOpts \<Rightarrow> unit meta_res" where
  "CommitObject_Verify c =
     res_bind (ObjectStream_Verify (co_Stream c)) (\<lambda>_.
       if CipherSuite (co_Encryption c) \<noteq> 0 \<and> sint (BlockSize (co_Encryption c)) \<le> 0
       then Inl (ErrInvalidRequest ''Encryption.BlockSize is negative or zero'')
       else if co_OverrideEncryptedMetadata c
       then verify_metadata (co_EncryptedMetadata c) (co_EncryptedMetadataNonce c)
         (co_EncryptedMetadataEncryptedKey c)
       else Inr ())"

text \<open>\<open>encryption = CASE ...\<close>; the column is never null, so \<open>NULL\<close> fails the statement.\<close>

definition commit_encryption :: "EncryptionParameters \<Rightarrow> EncryptionParameters \<Rightarrow> EncryptionParameters option" where
  "commit_encryption new old =
     (if old = zero_EncryptionParameters \<and> new \<noteq> zero_EncryptionParameters then Some new
      else if old = zero_EncryptionParameters \<and> new = zero_EncryptionParameters then None
      else Some old)"

definition commit_row ::
  "CommitObjectOpts \<Rightarrow> segmentToCommit list \<Rightarrow> Object \<Rightarrow> Object" where
  "commit_row opts finalSegments r =
     (let r' = r\<lparr>Status := Committed, SegmentCount := int (length finalSegments),
            TotalPlainSize := totalPlainSize finalSegments,
            TotalEncryptedSize := totalEncryptedSize finalSegments,
            FixedSegmentSize := fixedSegmentSize finalSegments,
            ZombieDeletionDeadline := None,
            Encryption := (case commit_encryption (co_Encryption opts) (Encryption r) of
              Some e \<Rightarrow> e | None \<Rightarrow> Encryption r)\<rparr>
      in if co_OverrideEncryptedMetadata opts
         then r'\<lparr>EncryptedMetadataNonce := co_EncryptedMetadataNonce opts,
                 EncryptedMetadata := co_EncryptedMetadata opts,
                 EncryptedMetadataEncryptedKey := co_EncryptedMetadataEncryptedKey opts\<rparr>
         else r')"

fun delete_versions ::
  "config \<Rightarrow> ObjectLocation \<Rightarrow> int list \<Rightarrow> DeletedSegmentInfo list \<Rightarrow> store
   \<Rightarrow> store \<times> (DeletedSegmentInfo list) meta_res" where
  "delete_versions cfg loc [] acc s = (s, Inr acc)"
| "delete_versions cfg loc (v # vs) acc s =
     (case delete_exact cfg v loc s of
        (s', Inl e) \<Rightarrow> (s', Inl (MetaError ''failed to delete existing object''))
      | (s', Inr res) \<Rightarrow> delete_versions cfg loc vs (acc @ res_Segments res) s')"

text \<open>The body of the transaction; the deleted segments are what \<open>OnDelete\<close> is called with.\<close>

definition commit_object_tx ::
  "config \<Rightarrow> CommitObjectOpts \<Rightarrow> store \<Rightarrow> store \<times> (Object \<times> DeletedSegmentInfo list) meta_res" where
  "commit_object_tx cfg opts s =
     (let obj = co_Stream opts;
          segs = fetchSegmentsForCommit (StreamID obj) s;
          finalSegments = convertToFinalSegments segs
      in case validateParts (MaxNumberOfParts cfg) (MinPartSize cfg) segs of
           Inl e \<Rightarrow> (s, Inl e)
         | Inr _ \<Rightarrow>
             (case updateSegmentOffsets (StreamID obj) finalSegments s of
                (s1, Inl e) \<Rightarrow> (s1, Inl (MetaError ''failed to update segments''))
              | (s1, Inr _) \<Rightarrow>
                  let versionsToDelete = map Version (filter
                        (\<lambda>r. same_location obj r \<and> Status r = Committed) (objects s1))
                  in if versionsToDelete \<noteq> [] \<and> co_DisallowDelete opts
                     then (s1, Inl (ErrPermissionDenied ''no permissions to delete existing object''))
                     else (case update_pending obj (commit_row opts finalSegments) s1 of
                        (s2, []) \<Rightarrow> (s1, Inl (ErrObjectNotFound
                            ''metabase: object with specified version and pending status is missing''))
                      | (s2, r # _) \<Rightarrow>
                          if \<exists>q \<in> set (objects s1). names_row obj q \<and> Status q = Pending \<and>
                               commit_encryption (co_Encryption opts) (Encryption q) = None
                          then (s1, Inl (ErrInvalidRequest ''Encryption is missing''))
                          else if \<not> int4 (int (length segs))
                          then (s1, Inl (MetaError ''failed to update object''))
                          else (case delete_versions cfg (ObjectStream_Location obj) versionsToDelete [] s2 of
                              (s3, Inl e) \<Rightarrow> (s3, Inl e)
                            | (s3, Inr deleted) \<Rightarrow> (s3, Inr (r, deleted))))))"

definition CommitObject ::
  "config \<Rightarrow> CommitObjectOpts \<Rightarrow> store \<Rightarrow> store \<times> (Object \<times> DeletedSegmentInfo list) meta_res" where
  "CommitObject cfg opts s =
     (case CommitObject_Verify opts of
        Inl e \<Rightarrow> (s, Inl e)
      | Inr _ \<Rightarrow> with_tx (commit_object_tx cfg opts) s)"

subsection \<open>CommitObjectWithSegments\<close>

record CommitWithSegmentsOpts =
  cw_Stream :: ObjectStream
  cw_EncryptedMetadata :: "byte list option"
  cw_EncryptedMetadataNonce :: "byte list option"
  cw_EncryptedMetadataEncryptedKey :: "byte list option"
  cw_Segments :: "SegmentPosition list"

definition commit_with_segments_row ::
  "CommitWithSegmentsOpts \<Rightarrow> segmentToCommit list \<Rightarrow> Object \<Rightarrow> Object" where
  "commit_with_segments_row opts finalSegments r =
     r\<lparr>Status := Committed, SegmentCount := int (length finalSegments),
       EncryptedMetadataNonce := cw_EncryptedMetadataNonce opts,
       EncryptedMetadata := cw_EncryptedMetadata opts,
       EncryptedMetadataEncryptedKey := cw_EncryptedMetadataEncryptedKey opts,
       TotalPlainSize := totalPlainSize finalSegments,
       TotalEncryptedSize := totalEncryptedSize finalSegments,
       FixedSegmentSize := fixedSegmentSize finalSegments,
       ZombieDeletionDeadline := None\<rparr>"

definition commit_with_segments_tx ::
  "CommitWithSegmentsOpts \<Rightarrow> store \<Rightarrow> store \<times> (Object \<times> DeletedSegmentInfo list) meta_res" where
  "commit_with_segments_tx opts s =
     (let obj = cw_Stream opts in
      case determineCommitActions (cw_Segments opts) (fetchSegmentsForCommit (StreamID obj) s) of
        Inl e \<Rightarrow> (s, Inl e)
      | Inr (finalSegments, segmentsToDelete) \<Rightarrow>
          (case updateSegmentOffsets (StreamID obj) finalSegments s of
             (s1, Inl e) \<Rightarrow> (s1, Inl e)
           | (s1, Inr _) \<Rightarrow>
               (case deleteSegmentsNotInCommit (StreamID obj) segmentsToDelete s1 of
                  (s2, Inl e) \<Rightarrow> (s2, Inl e)
                | (s2, Inr deleted) \<Rightarrow>
                    (case update_pending obj (commit_with_segments_row opts finalSegments) s2 of
                       (s3, []) \<Rightarrow> (s2, Inl (ErrObjectNotFound
                           ''metabase: object with specified version and pending status is missing''))
                     | (s3, r # _) \<Rightarrow>
                         if \<not> int4 (int (length finalSegments))
                         then (s2, Inl (MetaError ''failed to update object''))
                         else (s3, Inr (r, deleted))))))"

definition CommitObjectWithSegments ::
  "CommitWithSegmentsOpts \<Rightarrow> store \<Rightarrow> store \<times> (Object \<times> DeletedSegmentInfo list) meta_res" where
  "CommitObjectWithSegments opts s =
     (case ObjectStream_Verify (cw_Stream opts) of
        Inl e \<Rightarrow> (s, Inl e)
      | Inr _ \<Rightarrow>
          (case verifySegmentOrder (cw_Segments opts) of
             Inl e \<Rightarrow> (s, Inl e)
           | Inr _ \<Rightarrow> with_tx (commit_with_segments_tx opts) s))"

end
