(* ===== verification/MetaMove.thy ===== *)
theory MetaMove
  imports MetaCommit
begin

text \<open>
  Operations on committed objects: moving and server-side copying
  (\<open>satellite/metabase/move_object.go\<close>, \<open>copy_object.go\<close>), replacing a segment's pieces
  (\<open>update.go\<close>) and an object's metadata (\<open>metadata.go\<close>), reading a segment through its ancestor
  (\<open>get.go\<close>), and the batches that delete expired and abandoned objects
  (\<open>delete_objects.go\<close>).
\<close>

subsection \<open>Beginning a move or copy\<close>

record EncryptedKeyAndNonce =
  key_Position :: SegmentPosition
  key_EncryptedKeyNonce :: "byte list"
  key_EncryptedKey :: "byte list"

record BeginMoveCopyResults =
  bm_StreamID :: uuid
  bm_Version :: int
  bm_EncryptedMetadata :: "byte list option"
  bm_EncryptedMetadataKeyNonce :: "byte list option"
  bm_EncryptedMetadataKey :: "byte list option"
  bm_EncryptedKeysNonces :: "EncryptedKeyAndNonce list"
  bm_EncryptionParameters :: EncryptionParameters

definition MoveSegmentLimit :: int where "MoveSegmentLimit = 10000"
definition CopySegmentLimit :: int where "CopySegmentLimit = 10000"

text \<open>\<open>verifyLimits\<close> is the caller's callback; \<open>Inr ()\<close> always where it is nil.\<close>

definition beginMoveCopyObject ::
  "time \<Rightarrow> ObjectLocation \<Rightarrow> int \<Rightarrow> (int \<Rightarrow> int \<Rightarrow> unit meta_res) \<Rightarrow> store \<Rightarrow> BeginMoveCopyResults meta_res" where
  "beginMoveCopyObject now loc segmentLimit verifyLimits s =
     res_bind (ObjectLocation_Verify loc) (\<lambda>_.
     res_bind (GetObjectLastCommitted now loc s) (\<lambda>r.
       if SegmentCount r > segmentLimit then Inl (ErrInvalidRequest ''object has too many segments'')
       else res_bind (verifyLimits (TotalEncryptedSize r) (SegmentCount r)) (\<lambda>_.
         Inr \<lparr>bm_StreamID = StreamID r, bm_Version = Version r,
              bm_EncryptedMetadata = EncryptedMetadata r,
              bm_EncryptedMetadataKeyNonce = EncryptedMetadataNonce r,
              bm_EncryptedMetadataKey = EncryptedMetadataEncryptedKey r,
              bm_EncryptedKeysNonces = map (\<lambda>g. \<lparr>key_Position = seg_Position g,
                  key_EncryptedKeyNonce = seg_EncryptedKeyNonce g, key_EncryptedKey = seg_EncryptedKey g\<rparr>)
                (order_by_position (filter (\<lambda>g. seg_StreamID g = StreamID r) (segments s))),
              bm_EncryptionParameters = Encryption r\<rparr>)))"

definition BeginMoveObject :: "time \<Rightarrow> ObjectLocation \<Rightarrow> store \<Rightarrow> BeginMoveCopyResults meta_res" where
  "BeginMoveObject now loc s = beginMoveCopyObject now loc MoveSegmentLimit (\<lambda>_ _. Inr ()) s"

definition BeginCopyObject ::
  "time \<Rightarrow> ObjectLocation \<Rightarrow> (int \<Rightarrow> int \<Rightarrow> unit meta_res) \<Rightarrow> store \<Rightarrow> BeginMoveCopyResults meta_res" where
  "BeginCopyObject now loc verifyLimits s = beginMoveCopyObject now loc CopySegmentLimit verifyLimits s"

subsection \<open>Finishing a move\<close>

text \<open>A nonce is 24 bytes; how it becomes a column is code of another module (\<open>nonceColumn\<close>).\<close>

type_synonym nonce = "192 word"

record FinishMoveOpts =
  fm_Stream :: ObjectStream
  fm_NewBucket :: string
  fm_NewSegmentKeys :: "EncryptedKeyAndNonce list"
  fm_NewEncryptedObjectKey :: string
  fm_NewEncryptedMetadataKeyNonce :: nonce
  fm_NewEncryptedMetadataKey :: "byte list option"

definition FinishMoveObject_Verify :: "FinishMoveOpts \<Rightarrow> unit meta_res" where
  "FinishMoveObject_Verify m =
     res_bind (ObjectStream_Verify (fm_Stream m)) (\<lambda>_.
       if length (fm_NewBucket m) = 0 then Inl (ErrInvalidRequest ''NewBucket is missing'')
       else if length (fm_NewEncryptedObjectKey m) = 0
       then Inl (ErrInvalidRequest ''NewEncryptedObjectKey is missing'')
       else Inr ())"

definition target_location :: "ObjectStream \<Rightarrow> string \<Rightarrow> string \<Rightarrow> ObjectLocation" where
  "target_location obj bucket key = \<lparr>ProjectID = ProjectID obj, BucketName = bucket, ObjectKey = key\<rparr>"

text \<open>The scan of the rows at the target in order of version: a committed row is an error; a
  pending row of the moved version asks for the version after the highest.\<close>

fun scan_target :: "int \<Rightarrow> Object list \<Rightarrow> bool \<Rightarrow> int \<Rightarrow> (bool \<times> int) meta_res" where
  "scan_target version [] useNew highest = Inr (useNew, highest)"
| "scan_target version (r # rs) useNew highest =
     (if Status r = Committed then Inl ErrObjectAlreadyExists
      else scan_target version rs (useNew \<or> (Status r = Pending \<and> Version r = version)) (Version r))"

definition move_target_version :: "config \<Rightarrow> FinishMoveOpts \<Rightarrow> store \<Rightarrow> int meta_res" where
  "move_target_version cfg opts s =
     (if MultipleVersions cfg then
        res_bind (scan_target (Version (fm_Stream opts))
            (sort_key Version (filter (same_location
               (target_location (fm_Stream opts) (fm_NewBucket opts) (fm_NewEncryptedObjectKey opts)))
               (objects s))) False 0)
          (\<lambda>(useNew, highest). Inr (if useNew then highest + 1 else Version (fm_Stream opts)))
      else Inr (Version (fm_Stream opts)))"

definition move_row :: "(nonce \<Rightarrow> byte list option) \<Rightarrow> FinishMoveOpts \<Rightarrow> int \<Rightarrow> Object \<Rightarrow> Object" where
  "move_row nonceColumn opts version r =
     r\<lparr>BucketName := fm_NewBucket opts, ObjectKey := fm_NewEncryptedObjectKey opts, Version := version,
       EncryptedMetadataEncryptedKey :=
         (if EncryptedMetadata r \<noteq> None then fm_NewEncryptedMetadataKey opts
          else EncryptedMetadataEncryptedKey r),
       EncryptedMetadataNonce :=
         (if EncryptedMetadata r \<noteq> None then nonceColumn (fm_NewEncryptedMetadataKeyNonce opts)
          else EncryptedMetadataNonce r)\<rparr>"

definition key_length :: "byte list option \<Rightarrow> nat" where
  "key_length k = (case k of None \<Rightarrow> 0 | Some b \<Rightarrow> length b)"

definition rekey_segments :: "uuid \<Rightarrow> EncryptedKeyAndNonce list \<Rightarrow> Segment list \<Rightarrow> Segment list" where
  "rekey_segments stream keys segs =
     sql_update (\<lambda>g. seg_StreamID g = stream \<and> seg_Position g \<in> key_Position ` set keys)
       (\<lambda>g. case find (\<lambda>k. key_Position k = seg_Position g) keys of
          None \<Rightarrow> g
        | Some k \<Rightarrow> g\<lparr>seg_EncryptedKeyNonce := key_EncryptedKeyNonce k,
            seg_EncryptedKey := key_EncryptedKey k\<rparr>) segs"

definition finish_move_tx ::
  "config \<Rightarrow> (nonce \<Rightarrow> byte list option) \<Rightarrow> FinishMoveOpts \<Rightarrow> store \<Rightarrow> store \<times> unit meta_res" where
  "finish_move_tx cfg nonceColumn opts s =
     (case move_target_version cfg opts s of
        Inl e \<Rightarrow> (s, Inl e)
      | Inr version \<Rightarrow>
          let obj = fm_Stream opts;
              chosen = exact_version obj (Version obj);
              rows = sql_update chosen (move_row nonceColumn opts version) (objects s)
          in if \<not> int4 version then (s, Inl (MetaError ''unable to update object''))
             else if \<not> unique_key object_key rows then (s, Inl ErrObjectAlreadyExists)
             else (case sql_returning chosen (objects s) of
               [] \<Rightarrow> (s, Inl (ErrObjectNotFound ''object not found''))
             | r # _ \<Rightarrow>
                 let hasMetadata = key_length (EncryptedMetadata r) > 0;
                     chosen_segs = (\<lambda>g. seg_StreamID g = StreamID obj \<and>
                        seg_Position g \<in> key_Position ` set (fm_NewSegmentKeys opts))
                 in if StreamID r \<noteq> StreamID obj
                      then (s, Inl (ErrObjectNotFound ''object was changed during move''))
                    else if SegmentCount r \<noteq> int (length (fm_NewSegmentKeys opts))
                      then (s, Inl (ErrInvalidRequest ''wrong number of segments keys received''))
                    else if hasMetadata \<and> fm_NewEncryptedMetadataKeyNonce opts = 0 \<and>
                        key_length (fm_NewEncryptedMetadataKey opts) \<noteq> 0
                      then (s, Inl (ErrInvalidRequest ''EncryptedMetadataKeyNonce is missing''))
                    else if hasMetadata \<and> key_length (fm_NewEncryptedMetadataKey opts) = 0 \<and>
                        fm_NewEncryptedMetadataKeyNonce opts \<noteq> 0
                      then (s, Inl (ErrInvalidRequest ''EncryptedMetadataKey is missing''))
                    else if length (sql_returning chosen_segs (segments s)) \<noteq> length (fm_NewSegmentKeys opts)
                      then (s, Inl (MetaError ''segment is missing''))
                    else (s\<lparr>objects := rows,
                        segments := rekey_segments (StreamID obj) (fm_NewSegmentKeys opts) (segments s)\<rparr>,
                      Inr ())))"

definition FinishMoveObject ::
  "config \<Rightarrow> (nonce \<Rightarrow> byte list option) \<Rightarrow> FinishMoveOpts \<Rightarrow> store \<Rightarrow> store \<times> unit meta_res" where
  "FinishMoveObject cfg nonceColumn opts s =
     (case FinishMoveObject_Verify opts of
        Inl e \<Rightarrow> (s, Inl e)
      | Inr _ \<Rightarrow> with_tx (finish_move_tx cfg nonceColumn opts) s)"

subsection \<open>Finishing a copy\<close>

record FinishCopyOpts =
  fc_Stream :: ObjectStream
  fc_NewBucket :: string
  fc_NewEncryptedObjectKey :: string
  fc_NewStreamID :: uuid
  fc_OverrideMetadata :: bool
  fc_NewEncryptedMetadata :: "byte list option"
  fc_NewEncryptedMetadataKeyNonce :: nonce
  fc_NewEncryptedMetadataKey :: "byte list option"
  fc_NewSegmentKeys :: "EncryptedKeyAndNonce list"

definition FinishCopyObject_Verify :: "FinishCopyOpts \<Rightarrow> unit meta_res" where
  "FinishCopyObject_Verify c =
     res_bind (ObjectStream_Verify (fc_Stream c)) (\<lambda>_.
       let nonceZero = fc_NewEncryptedMetadataKeyNonce c = 0; key = fc_NewEncryptedMetadataKey c in
       if length (fc_NewBucket c) = 0 then Inl (ErrInvalidRequest ''NewBucket is missing'')
       else if fc_NewStreamID c = 0 then Inl (ErrInvalidRequest ''NewStreamID is missing'')
       else if StreamID (fc_Stream c) = fc_NewStreamID c
       then Inl (ErrInvalidRequest ''StreamIDs are identical'')
       else if length (fc_NewEncryptedObjectKey c) = 0
       then Inl (ErrInvalidRequest ''NewEncryptedObjectKey is missing'')
       else if fc_OverrideMetadata c then
         if fc_NewEncryptedMetadata c = None \<and> (\<not> nonceZero \<or> key \<noteq> None)
         then Inl (ErrInvalidRequest ''EncryptedMetadataNonce and EncryptedMetadataEncryptedKey must be not set if EncryptedMetadata is not set'')
         else if fc_NewEncryptedMetadata c \<noteq> None \<and> (nonceZero \<or> key = None)
         then Inl (ErrInvalidRequest ''EncryptedMetadataNonce and EncryptedMetadataEncryptedKey must be set if EncryptedMetadata is set'')
         else Inr ()
       else if nonceZero \<and> key_length key \<noteq> 0
       then Inl (ErrInvalidRequest ''EncryptedMetadataKeyNonce is missing'')
       else if key_length key = 0 \<and> \<not> nonceZero
       then Inl (ErrInvalidRequest ''EncryptedMetadataKey is missing'')
       else Inr ())"

text \<open>\<open>getObjectAtCopySourceAndDestination\<close>: the source row, the stream that holds its pieces,
  the committed row at the destination and the next free version there. The subquery for the
  destination version groups by status, so it yields the highest committed one. When there is
  no row at the source, the row at the destination is the first of the \<open>UNION\<close> and is read as
  if it were the source.\<close>

definition ancestor_of :: "uuid \<Rightarrow> SegmentCopy list \<Rightarrow> uuid option" where
  "ancestor_of stream cs = map_option copy_AncestorStreamID (find (\<lambda>c. copy_StreamID c = stream) cs)"

text \<open>The time axis starts at Go's zero time. The columns the query does not select keep their
  zero values.\<close>

definition zero_time :: time where "zero_time = 0"

definition copy_source :: "Object \<Rightarrow> Object" where
  "copy_source r = r\<lparr>CreatedAt := zero_time, Status := Committed, EncryptedMetadataNonce := None,
     EncryptedMetadataEncryptedKey := None, ZombieDeletionDeadline := None\<rparr>"

definition getObjectAtCopySourceAndDestination ::
  "FinishCopyOpts \<Rightarrow> store \<Rightarrow> (Object \<times> uuid \<times> Object option \<times> int) meta_res" where
  "getObjectAtCopySourceAndDestination opts s =
     (let obj = fc_Stream opts;
          dest = target_location obj (fc_NewBucket opts) (fc_NewEncryptedObjectKey opts);
          highest = (case highest_version dest (objects s) of None \<Rightarrow> 0 | Some v \<Rightarrow> v);
          committed = highest_version dest (filter (\<lambda>r. Status r = Committed) (objects s));
          at_dest = (case committed of None \<Rightarrow> None
            | Some v \<Rightarrow> find (exact_version dest v) (objects s))
      in case filter (\<lambda>r. exact_version obj (Version obj) r \<and> Status r = Committed) (objects s) of
           [] \<Rightarrow> (case at_dest of
               None \<Rightarrow> Inl (ErrObjectNotFound ''source object not found'')
             | Some d \<Rightarrow> if StreamID d \<noteq> StreamID obj
                 then Inl (ErrObjectNotFound ''object was changed during copy'')
                 else Inr (copy_source (d\<lparr>BucketName := BucketName obj, ObjectKey := ObjectKey obj,
                     Version := Version obj, EncryptedMetadata := None\<rparr>), StreamID d, None, highest + 1))
         | r # _ \<Rightarrow>
             if StreamID r \<noteq> StreamID obj then Inl (ErrObjectNotFound ''object was changed during copy'')
             else Inr (copy_source r, (case ancestor_of (StreamID r) (copies s) of Some a \<Rightarrow> a | None \<Rightarrow> StreamID r),
                 at_dest, highest + 1))"

definition copy_source_segments :: "Object \<Rightarrow> store \<Rightarrow> Segment list" where
  "copy_source_segments r s =
     take (nat (SegmentCount r)) (order_by_position (filter (\<lambda>g. seg_StreamID g = StreamID r) (segments s)))"

definition copy_segment :: "time \<Rightarrow> uuid \<Rightarrow> EncryptedKeyAndNonce \<Rightarrow> Segment \<Rightarrow> Segment" where
  "copy_segment now stream k g =
     \<lparr>seg_StreamID = stream, seg_Position = key_Position k, seg_CreatedAt = now, seg_RepairedAt = None,
      seg_ExpiresAt = seg_ExpiresAt g, seg_RootPieceID = seg_RootPieceID g,
      seg_EncryptedKeyNonce = key_EncryptedKeyNonce k, seg_EncryptedKey = key_EncryptedKey k,
      seg_EncryptedSize = seg_EncryptedSize g, seg_PlainOffset = seg_PlainOffset g,
      seg_PlainSize = seg_PlainSize g, seg_EncryptedETag = None,
      seg_Redundancy = seg_Redundancy g, seg_InlineData = seg_InlineData g,
      seg_AliasPieces = None, seg_Placement = None\<rparr>"

definition only_inline :: "Segment list \<Rightarrow> bool" where
  "only_inline segs \<longleftrightarrow>
     (\<forall>g \<in> set segs. \<not> (seg_EncryptedSize g > 0 \<and> key_length (seg_InlineData g) = 0))"

definition copy_row ::
  "(nonce \<Rightarrow> byte list option) \<Rightarrow> time \<Rightarrow> FinishCopyOpts \<Rightarrow> Object \<Rightarrow> int \<Rightarrow> Object" where
  "copy_row nonceColumn now opts r version =
     r\<lparr>ProjectID := ProjectID (fc_Stream opts), BucketName := fc_NewBucket opts,
       ObjectKey := fc_NewEncryptedObjectKey opts, Version := version, StreamID := fc_NewStreamID opts,
       CreatedAt := now, Status := Committed,
       EncryptedMetadata := (if fc_OverrideMetadata opts then fc_NewEncryptedMetadata opts
         else EncryptedMetadata r),
       EncryptedMetadataNonce := nonceColumn (fc_NewEncryptedMetadataKeyNonce opts),
       EncryptedMetadataEncryptedKey := fc_NewEncryptedMetadataKey opts,
       ZombieDeletionDeadline := None\<rparr>"

text \<open>Deleting what is at the destination first; when that was the ancestor of the source, the
  promoted copy is the ancestor from now on.\<close>

definition clear_destination ::
  "config \<Rightarrow> FinishCopyOpts \<Rightarrow> Object option \<Rightarrow> uuid \<Rightarrow> store \<Rightarrow> store \<times> uuid meta_res" where
  "clear_destination cfg opts at_dest ancestor s =
     (case at_dest of
        None \<Rightarrow> (s, Inr ancestor)
      | Some d \<Rightarrow>
          (case delete_serverside_copy
              (exact_version d (if MultipleVersions cfg then Version d else Version (fc_Stream opts))) s of
             (s1, Inl e) \<Rightarrow> (s1, Inl (MetaError ''unable to delete existing object at copy destination''))
           | (s1, Inr infos) \<Rightarrow>
               if ancestor = StreamID d then
                 (case infos of
                    [] \<Rightarrow> (s1, Inl (MetaError ''ancestor is gone, please retry operation''))
                  | info # _ \<Rightarrow> (case info_PromotedAncestor info of
                        None \<Rightarrow> (s1, Inl (Panic ''nil pointer dereference''))
                      | Some a \<Rightarrow> (s1, Inr a)))
               else (s1, Inr ancestor)))"

definition insert_copy ::
  "(nonce \<Rightarrow> byte list option) \<Rightarrow> time \<Rightarrow> FinishCopyOpts \<Rightarrow> Object \<Rightarrow> int \<Rightarrow> Segment list \<Rightarrow> uuid \<Rightarrow> store
   \<Rightarrow> store \<times> Object meta_res" where
  "insert_copy nonceColumn now opts source version segs ancestor s =
     (let row = copy_row nonceColumn now opts source version;
          new_segs = map2 (copy_segment now (fc_NewStreamID opts)) (fc_NewSegmentKeys opts) segs;
          link = \<lparr>copy_StreamID = fc_NewStreamID opts, copy_AncestorStreamID = ancestor\<rparr>
      in if \<not> int4 version then (s, Inl (MetaError ''unable to copy object''))
         else case sql_insert object_key row (objects s) of
           None \<Rightarrow> (s, Inl (MetaError ''unable to copy object''))
         | Some rows \<Rightarrow>
             if \<not> unique_key segment_key (segments s @ new_segs)
               then (s, Inl (MetaError ''unable to copy segments''))
             else if only_inline segs
               then (s\<lparr>objects := rows, segments := segments s @ new_segs\<rparr>, Inr row)
             else if fc_NewStreamID opts = ancestor
               then (s, Inl (MetaError ''unable to copy object''))
             else (case sql_insert copy_StreamID link (copies s) of
                 None \<Rightarrow> (s, Inl (MetaError ''unable to copy object''))
               | Some cs \<Rightarrow> (s\<lparr>objects := rows, segments := segments s @ new_segs, copies := cs\<rparr>,
                   Inr row)))"

definition finish_copy_tx ::
  "config \<Rightarrow> (nonce \<Rightarrow> byte list option) \<Rightarrow> (int \<Rightarrow> int \<Rightarrow> unit meta_res) \<Rightarrow> time \<Rightarrow> FinishCopyOpts
   \<Rightarrow> store \<Rightarrow> store \<times> Object meta_res" where
  "finish_copy_tx cfg nonceColumn verifyLimits now opts s =
     (case getObjectAtCopySourceAndDestination opts s of
        Inl e \<Rightarrow> (s, Inl e)
      | Inr (source, ancestor, at_dest, next) \<Rightarrow>
          let version = (if MultipleVersions cfg then next else Version (fc_Stream opts));
              segs = copy_source_segments source s
          in if (case at_dest of Some d \<Rightarrow> StreamID d = StreamID source | None \<Rightarrow> False)
             then (s, Inr (source\<lparr>EncryptedMetadata := None\<rparr>))
             else case verifyLimits (TotalEncryptedSize source) (SegmentCount source) of
               Inl e \<Rightarrow> (s, Inl e)
             | Inr _ \<Rightarrow>
                 if SegmentCount source \<noteq> int (length (fc_NewSegmentKeys opts))
                   then (s, Inl (ErrInvalidRequest ''wrong number of segments keys received''))
                 else if int (length segs) \<noteq> SegmentCount source
                   then (s, Inl (MetaError ''could not load all of the segment information''))
                 else if map key_Position (fc_NewSegmentKeys opts) \<noteq> map seg_Position segs
                   then (s, Inl (MetaError ''missing new segment keys for segment''))
                 else (case clear_destination cfg opts at_dest ancestor s of
                     (s1, Inl e) \<Rightarrow> (s1, Inl e)
                   | (s1, Inr ancestor') \<Rightarrow>
                       insert_copy nonceColumn now opts source version segs ancestor' s1))"

text \<open>The object returned is the row as inserted, with the new location, stream and metadata
  written over it.\<close>

definition FinishCopyObject ::
  "config \<Rightarrow> (nonce \<Rightarrow> byte list option) \<Rightarrow> (int \<Rightarrow> int \<Rightarrow> unit meta_res) \<Rightarrow> (nonce \<Rightarrow> byte list) \<Rightarrow> time
   \<Rightarrow> FinishCopyOpts \<Rightarrow> store \<Rightarrow> store \<times> Object meta_res" where
  "FinishCopyObject cfg nonceColumn verifyLimits nonceBytes now opts s =
     (case FinishCopyObject_Verify opts of
        Inl e \<Rightarrow> (s, Inl e)
      | Inr _ \<Rightarrow>
          (case with_tx (finish_copy_tx cfg nonceColumn verifyLimits now opts) s of
             (s', Inl e) \<Rightarrow> (s', Inl e)
           | (s', Inr r) \<Rightarrow> (s', Inr (r\<lparr>StreamID := fc_NewStreamID opts, BucketName := fc_NewBucket opts,
               ObjectKey := fc_NewEncryptedObjectKey opts,
               EncryptedMetadataEncryptedKey := fc_NewEncryptedMetadataKey opts,
               EncryptedMetadataNonce := (if fc_NewEncryptedMetadataKeyNonce opts \<noteq> 0
                 then Some (nonceBytes (fc_NewEncryptedMetadataKeyNonce opts)) else None)\<rparr>))))"

subsection \<open>Replacing pieces and metadata\<close>

record UpdatePiecesOpts =
  up_StreamID :: uuid
  up_Position :: SegmentPosition
  up_OldPieces :: Pieces
  up_NewRedundancy :: RedundancyScheme
  up_NewPieces :: Pieces
  up_NewRepairedAt :: time

definition prefix_invalid :: "string \<Rightarrow> unit meta_res \<Rightarrow> unit meta_res" where
  "prefix_invalid p r =
     (case r of Inl (ErrInvalidRequest m) \<Rightarrow> Inl (ErrInvalidRequest (p @ m)) | _ \<Rightarrow> r)"

definition UpdateSegmentPieces_Verify :: "UpdatePiecesOpts \<Rightarrow> unit meta_res" where
  "UpdateSegmentPieces_Verify opts =
     (if up_StreamID opts = 0 then Inl (ErrInvalidRequest ''StreamID missing'')
      else res_bind (prefix_invalid ''OldPieces: '' (Pieces_Verify (up_OldPieces opts))) (\<lambda>_.
        if up_NewRedundancy opts = zero_RedundancyScheme then Inl (ErrInvalidRequest ''NewRedundancy zero'')
        else if int (length (up_NewPieces opts)) < RepairShares (up_NewRedundancy opts)
        then Inl (ErrInvalidRequest ''number of new pieces is less than new redundancy repair shares value'')
        else prefix_invalid ''NewPieces: '' (Pieces_Verify (up_NewPieces opts))))"

text \<open>The statement's \<open>CASE\<close> branches; comparing with \<open>NULL\<close> is not true.\<close>

definition update_pieces_row ::
  "byte list option \<Rightarrow> byte list option \<Rightarrow> 64 word \<Rightarrow> time \<Rightarrow> Segment \<Rightarrow> Segment" where
  "update_pieces_row old new redundancy repairedAt g =
     (if seg_AliasPieces g \<noteq> None \<and> seg_AliasPieces g = old
      then g\<lparr>seg_AliasPieces := new, seg_Redundancy := redundancy,
        seg_RepairedAt := (if repairedAt \<noteq> zero_time then Some repairedAt else seg_RepairedAt g)\<rparr>
      else g)"

definition UpdateSegmentPieces :: "UpdatePiecesOpts \<Rightarrow> store \<Rightarrow> store \<times> unit meta_res" where
  "UpdateSegmentPieces opts s =
     (case UpdateSegmentPieces_Verify opts of
        Inl e \<Rightarrow> (s, Inl e)
      | Inr _ \<Rightarrow>
      (case store_EnsurePieces (up_OldPieces opts) s of
         (s1, Inl e) \<Rightarrow> (s1, Inl (MetaError ''unable to convert pieces to aliases''))
       | (s1, Inr oldPieces) \<Rightarrow>
      (case store_EnsurePieces (up_NewPieces opts) s1 of
         (s2, Inl e) \<Rightarrow> (s2, Inl (MetaError ''unable to convert pieces to aliases''))
       | (s2, Inr newPieces) \<Rightarrow>
      (case res_bind (AliasPieces_Value oldPieces) (\<lambda>ov. res_bind (AliasPieces_Value newPieces) (\<lambda>nv.
              res_bind (RedundancyScheme_Value (up_NewRedundancy opts)) (\<lambda>red. Inr (ov, nv, red)))) of
         Inl e \<Rightarrow> (s2, Inl (MetaError ''unable to update segment pieces''))
       | Inr (ov, nv, red) \<Rightarrow>
           let chosen = (\<lambda>g. seg_StreamID g = up_StreamID opts \<and> seg_Position g = up_Position opts);
               f = update_pieces_row ov nv red (up_NewRepairedAt opts);
               s3 = s2\<lparr>segments := sql_update chosen f (segments s2)\<rparr>
           in (case map f (sql_returning chosen (segments s2)) of
                [] \<Rightarrow> (s2, Inl (ErrSegmentNotFound ''segment missing''))
              | g # _ \<Rightarrow>
                  (case AliasPieces_Scan (seg_AliasPieces g) of
                     Inl e \<Rightarrow> (s3, Inl (MetaError ''unable to update segment pieces''))
                   | Inr resultPieces \<Rightarrow>
                       if \<not> EqualAliasPieces newPieces resultPieces
                       then (s3, Inl (ErrValueChanged ''segment remote_alias_pieces field was changed''))
                       else (s3, Inr ())))))))"

record UpdateMetadataOpts =
  um_Location :: ObjectLocation
  um_StreamID :: uuid
  um_EncryptedMetadata :: "byte list option"
  um_EncryptedMetadataNonce :: "byte list option"
  um_EncryptedMetadataEncryptedKey :: "byte list option"

definition UpdateObjectMetadata_Verify :: "UpdateMetadataOpts \<Rightarrow> unit meta_res" where
  "UpdateObjectMetadata_Verify opts =
     (if ProjectID (um_Location opts) = 0 then Inl (ErrInvalidRequest ''ProjectID missing'')
      else if BucketName (um_Location opts) = [] then Inl (ErrInvalidRequest ''BucketName missing'')
      else if length (ObjectKey (um_Location opts)) = 0 then Inl (ErrInvalidRequest ''ObjectKey missing'')
      else if um_StreamID opts = 0 then Inl (ErrInvalidRequest ''StreamID missing'')
      else Inr ())"

definition UpdateObjectMetadata :: "time \<Rightarrow> UpdateMetadataOpts \<Rightarrow> store \<Rightarrow> store \<times> unit meta_res" where
  "UpdateObjectMetadata now opts s =
     (case UpdateObjectMetadata_Verify opts of
        Inl e \<Rightarrow> (s, Inl e)
      | Inr _ \<Rightarrow>
          let chosen = (\<lambda>r. last_committed now (um_Location opts) (objects s) r \<and>
                StreamID r = um_StreamID opts \<and> Status r = Committed)
          in if sql_returning chosen (objects s) = []
             then (s, Inl (ErrObjectNotFound ''object with specified version and committed status is missing''))
             else (s\<lparr>objects := sql_update chosen
                 (\<lambda>r. r\<lparr>EncryptedMetadataNonce := um_EncryptedMetadataNonce opts,
                   EncryptedMetadata := um_EncryptedMetadata opts,
                   EncryptedMetadataEncryptedKey := um_EncryptedMetadataEncryptedKey opts\<rparr>)
                 (objects s)\<rparr>, Inr ()))"

subsection \<open>Reading a segment\<close>

text \<open>A segment as the code returns it: its row and its pieces. A copy has no pieces of its own
  and takes them, the root piece and the repair time from the ancestor's row.\<close>

definition PiecesInAncestorSegment :: "Segment \<Rightarrow> Pieces \<Rightarrow> bool" where
  "PiecesInAncestorSegment g pieces \<longleftrightarrow>
     seg_EncryptedSize g \<noteq> 0 \<and> key_length (seg_InlineData g) = 0 \<and> length pieces = 0"

definition Segment_Inline :: "Segment \<Rightarrow> Pieces \<Rightarrow> bool" where
  "Segment_Inline g pieces \<longleftrightarrow>
     RedundancyScheme_Scan (seg_Redundancy g) = Inr zero_RedundancyScheme \<and> length pieces = 0"

definition updateWithAncestorSegment ::
  "Segment \<Rightarrow> Pieces \<Rightarrow> store \<Rightarrow> store \<times> (Segment \<times> Pieces) meta_res" where
  "updateWithAncestorSegment g pieces s =
     (if \<not> PiecesInAncestorSegment g pieces then (s, Inr (g, pieces))
      else case filter (\<lambda>a. (\<exists>c \<in> set (copies s). copy_StreamID c = seg_StreamID g \<and>
               copy_AncestorStreamID c = seg_StreamID a) \<and> seg_Position a = seg_Position g) (segments s) of
        [] \<Rightarrow> (s, Inl (ErrSegmentNotFound ''segment missing''))
      | a # _ \<Rightarrow>
          (case AliasPieces_Scan (seg_AliasPieces a) of
             Inl e \<Rightarrow> (s, Inl (MetaError ''unable to query segment''))
           | Inr aps \<Rightarrow>
               (case store_ConvertAliases aps s of
                  (s', Inl e) \<Rightarrow> (s', Inl (MetaError ''unable to convert aliases to pieces''))
                | (s', Inr ps) \<Rightarrow>
                    (s', Inr (g\<lparr>seg_RootPieceID := seg_RootPieceID a, seg_RepairedAt := seg_RepairedAt a\<rparr>, ps)))))"

definition load_segment :: "config \<Rightarrow> Segment \<Rightarrow> store \<Rightarrow> store \<times> (Segment \<times> Pieces) meta_res" where
  "load_segment cfg g s =
     (case AliasPieces_Scan (seg_AliasPieces g) of
        Inl e \<Rightarrow> (s, Inl (MetaError ''unable to query segment''))
      | Inr aps \<Rightarrow>
          (case (if length aps > 0 then store_ConvertAliases aps s else (s, Inr [])) of
             (s', Inl e) \<Rightarrow> (s', Inl (MetaError ''unable to convert aliases to pieces''))
           | (s', Inr pieces) \<Rightarrow>
               if ServerSideCopy cfg then updateWithAncestorSegment g pieces s'
               else (s', Inr (g, pieces))))"

definition GetSegmentByPosition ::
  "config \<Rightarrow> uuid \<Rightarrow> SegmentPosition \<Rightarrow> store \<Rightarrow> store \<times> (Segment \<times> Pieces) meta_res" where
  "GetSegmentByPosition cfg stream pos s =
     (if stream = 0 then (s, Inl (ErrInvalidRequest ''StreamID missing''))
      else case filter (\<lambda>g. segment_key g = (stream, pos)) (segments s) of
        [] \<Rightarrow> (s, Inl (ErrSegmentNotFound ''segment missing''))
      | g # _ \<Rightarrow> load_segment cfg g s)"

text \<open>The query does not select the expiration.\<close>

definition GetLatestObjectLastSegment ::
  "config \<Rightarrow> ObjectLocation \<Rightarrow> store \<Rightarrow> store \<times> (Segment \<times> Pieces) meta_res" where
  "GetLatestObjectLastSegment cfg loc s =
     (case ObjectLocation_Verify loc of
        Inl e \<Rightarrow> (s, Inl e)
      | Inr _ \<Rightarrow>
          let streams = map StreamID (take 1 (sort_key (\<lambda>r. - Version r)
                (filter (\<lambda>r. same_location loc r \<and> Status r = Committed) (objects s))))
          in (case rev (order_by_position (filter (\<lambda>g. seg_StreamID g \<in> set streams) (segments s))) of
               [] \<Rightarrow> (s, Inl (ErrObjectNotFound ''metabase: object or segment missing''))
             | g # _ \<Rightarrow> load_segment cfg (g\<lparr>seg_ExpiresAt := None\<rparr>) s))"

end
