(* ===== verification/MetaGC.thy ===== *)
theory MetaGC
  imports MetaMove "HOL-Library.Product_Lexorder"
begin

text \<open>
  The background deletion of expired and of abandoned pending objects
  (\<open>satellite/metabase/delete_objects.go\<close>): batches of rows in the order of the primary key,
  each selected by one statement and deleted by the next, until a batch comes back empty.
\<close>

definition deleteBatchsizeLimit :: int where "deleteBatchsizeLimit = 1000"

text \<open>\<open>intLimitRange.Ensure\<close>.\<close>

definition ensure_limit :: "int \<Rightarrow> int \<Rightarrow> int" where
  "ensure_limit limit v = (if v \<le> 0 \<or> v > limit then limit else v)"

definition select_expired :: "time \<Rightarrow> Object \<Rightarrow> bool" where
  "select_expired expiredBefore r \<longleftrightarrow> (case ExpiresAt r of None \<Rightarrow> False | Some t \<Rightarrow> t < expiredBefore)"

definition select_zombie :: "time \<Rightarrow> Object \<Rightarrow> bool" where
  "select_zombie deadlineBefore r \<longleftrightarrow> Status r = Pending \<and>
     (case ZombieDeletionDeadline r of None \<Rightarrow> True | Some t \<Rightarrow> t < deadlineBefore)"

definition select_batch ::
  "(Object \<Rightarrow> bool) \<Rightarrow> uuid \<times> string \<times> string \<times> int \<Rightarrow> nat \<Rightarrow> store \<Rightarrow> Object list" where
  "select_batch P startAfter batchsize s =
     take batchsize (sort_key object_key (filter (\<lambda>r. startAfter < object_key r \<and> P r) (objects s)))"

definition object_stream :: "Object \<Rightarrow> ObjectStream" where
  "object_stream r = \<lparr>ProjectID = ProjectID r, BucketName = BucketName r, ObjectKey = ObjectKey r,
     Version = Version r, StreamID = StreamID r\<rparr>"

text \<open>The statement pair of \<open>deleteObjectsAndSegments\<close>: the segments of the stream go whether
  or not the row was still there.\<close>

definition delete_object_and_segments :: "ObjectStream \<Rightarrow> store \<Rightarrow> store" where
  "delete_object_and_segments obj s =
     s\<lparr>objects := sql_delete (names_row obj) (objects s),
       segments := sql_delete (\<lambda>g. seg_StreamID g = StreamID obj) (segments s)\<rparr>"

definition recent_segment :: "time \<Rightarrow> uuid \<Rightarrow> store \<Rightarrow> bool" where
  "recent_segment inactiveDeadline stream s \<longleftrightarrow>
     (\<exists>g \<in> set (segments s). seg_StreamID g = stream \<and> seg_CreatedAt g > inactiveDeadline)"

definition delete_inactive_object :: "time \<Rightarrow> ObjectStream \<Rightarrow> store \<Rightarrow> store" where
  "delete_inactive_object inactiveDeadline obj s =
     (let recent = recent_segment inactiveDeadline (StreamID obj) s;
          none = \<not> (\<exists>g \<in> set (segments s). seg_StreamID g = StreamID obj)
      in s\<lparr>objects := sql_delete (\<lambda>r. names_row obj r \<and> (none \<or> \<not> recent)) (objects s),
           segments := sql_delete (\<lambda>g. seg_StreamID g = StreamID obj \<and> \<not> recent) (segments s)\<rparr>)"

definition deleteObjectsAndSegments :: "ObjectStream list \<Rightarrow> store \<Rightarrow> store" where
  "deleteObjectsAndSegments objs s = fold delete_object_and_segments objs s"

definition deleteInactiveObjectsAndSegments :: "time \<Rightarrow> ObjectStream list \<Rightarrow> store \<Rightarrow> store" where
  "deleteInactiveObjectsAndSegments inactiveDeadline objs s =
     fold (delete_inactive_object inactiveDeadline) objs s"

text \<open>\<open>inactive = None\<close> deletes expired objects, \<open>Some t\<close> zombies inactive since \<open>t\<close>.\<close>

definition delete_batch :: "time option \<Rightarrow> Object list \<Rightarrow> store \<Rightarrow> store" where
  "delete_batch inactive rows s =
     (case inactive of
        None \<Rightarrow> deleteObjectsAndSegments (map object_stream rows) s
      | Some t \<Rightarrow> deleteInactiveObjectsAndSegments t (map object_stream rows) s)"

lemma delete_batch_filter:
  "\<exists>Q. objects (delete_batch inactive rows s) = filter Q (objects s)"
proof -
  have "\<exists>Q. objects (fold f rs s) = filter Q (objects s)"
    if step: "\<And>r s. \<exists>Q. objects (f r s) = filter Q (objects s)" for f and rs :: "ObjectStream list"
  proof (induction rs arbitrary: s)
    case Nil
    show ?case by (rule exI [of _ "\<lambda>_. True"]) simp
  next
    case (Cons r rs)
    obtain Q where "objects (f r s) = filter Q (objects s)" using step by blast
    moreover obtain Q' where "objects (fold f rs (f r s)) = filter Q' (objects (f r s))"
      using Cons by blast
    ultimately show ?case by (auto simp: filter_filter)
  qed
  note fold_filter = this
  have "\<exists>Q. objects (delete_object_and_segments r s) = filter Q (objects s)" for r s
    by (auto simp: delete_object_and_segments_def sql_delete_def)
  moreover have "\<exists>Q. objects (delete_inactive_object t r s) = filter Q (objects s)" for t r s
    by (auto simp: delete_inactive_object_def Let_def sql_delete_def)
  ultimately show ?thesis
    using fold_filter [of delete_object_and_segments] fold_filter [of "delete_inactive_object t" for t]
    unfolding delete_batch_def deleteObjectsAndSegments_def deleteInactiveObjectsAndSegments_def
    by (cases inactive) simp_all
qed

function delete_batches ::
  "(Object \<Rightarrow> bool) \<Rightarrow> time option \<Rightarrow> nat \<Rightarrow> uuid \<times> string \<times> string \<times> int \<Rightarrow> store \<Rightarrow> store" where
  "delete_batches P inactive batchsize startAfter s =
     (let rows = select_batch P startAfter batchsize s;
          s' = delete_batch inactive rows s
      in if rows = [] \<or> StreamID (last rows) = 0 then s'
         else delete_batches P inactive batchsize (object_key (last rows)) s')"
  by pat_completeness auto
termination
proof (relation "measure (\<lambda>(P, inactive, n, start, s). length (filter (\<lambda>r. start < object_key r) (objects s)))", goal_cases)
  case (2 P inactive n start s rows s')
  then have rows: "rows = select_batch P start n s" "rows \<noteq> []" and s': "s' = delete_batch inactive rows s" by auto
  obtain Q where Q: "objects s' = filter Q (objects s)" using delete_batch_filter s' by blast
  have "last rows \<in> set rows" using rows(2) by simp
  then have l: "last rows \<in> set (objects s)" "start < object_key (last rows)"
    by (auto simp: rows(1) select_batch_def dest!: in_set_takeD)
  let ?k = "object_key (last rows)"
  have "length (filter (\<lambda>r. ?k < object_key r \<and> Q r) xs) \<le> length (filter (\<lambda>r. start < object_key r) xs)" for xs
    using l(2) by (induction xs) auto
  moreover have "length (filter (\<lambda>r. ?k < object_key r \<and> Q r) xs) < length (filter (\<lambda>r. start < object_key r) xs)"
    if "last rows \<in> set xs" for xs
    using that
  proof (induction xs)
    case (Cons x xs)
    have le: "length (filter (\<lambda>r. ?k < object_key r \<and> Q r) xs) \<le> length (filter (\<lambda>r. start < object_key r) xs)"
      using l(2) by (induction xs) auto
    show ?case
    proof (cases "last rows = x")
      case True
      then show ?thesis using le l(2) by auto
    next
      case False
      then show ?thesis using Cons l(2) by auto
    qed
  qed simp
  ultimately show ?case using l(1) by (simp add: Q conj_commute)
qed simp

declare delete_batches.simps [simp del]

definition zero_key :: "uuid \<times> string \<times> string \<times> int" where
  "zero_key = (0, [], [], 0)"

definition DeleteExpiredObjects :: "time \<Rightarrow> int \<Rightarrow> store \<Rightarrow> store" where
  "DeleteExpiredObjects expiredBefore batchSize s =
     delete_batches (select_expired expiredBefore) None
       (nat (ensure_limit deleteBatchsizeLimit batchSize)) zero_key s"

definition DeleteZombieObjects :: "time \<Rightarrow> time \<Rightarrow> int \<Rightarrow> store \<Rightarrow> store" where
  "DeleteZombieObjects deadlineBefore inactiveDeadline batchSize s =
     delete_batches (select_zombie deadlineBefore) (Some inactiveDeadline)
       (nat (ensure_limit deleteBatchsizeLimit batchSize)) zero_key s"

end
