(* ===== verification/MetaInvariant.thy ===== *)
theory MetaInvariant
  imports MetaGC
begin

text \<open>
  What the operations of the metadata database keep true: keys are unique, every segment
  belongs to an object, and every committed object is complete, that is, its counts, totals
  and plain offsets are those of its segments.
\<close>

subsection \<open>The invariant\<close>

text \<open>The segments of a stream as a commit sees them.\<close>

definition stream_segments :: "uuid \<Rightarrow> store \<Rightarrow> segmentToCommit list" where
  "stream_segments stream s = convertToFinalSegments (fetchSegmentsForCommit stream s)"

definition complete_with :: "segmentToCommit list \<Rightarrow> Object \<Rightarrow> bool" where
  "complete_with us r \<longleftrightarrow> SegmentCount r = int (length us) \<and> TotalPlainSize r = totalPlainSize us \<and>
     TotalEncryptedSize r = totalEncryptedSize us \<and> FixedSegmentSize r = fixedSegmentSize us \<and>
     map OldPlainOffset us = expected_offsets 0 us"

definition keys_ok :: "store \<Rightarrow> bool" where
  "keys_ok s \<longleftrightarrow> unique_key object_key (objects s) \<and> unique_key segment_key (segments s) \<and>
     unique_key copy_StreamID (copies s) \<and> unique_key StreamID (objects s) \<and>
     (\<forall>c \<in> set (copies s). copy_StreamID c \<noteq> copy_AncestorStreamID c)"

definition segments_owned :: "store \<Rightarrow> bool" where
  "segments_owned s \<longleftrightarrow> seg_StreamID ` set (segments s) \<subseteq> StreamID ` set (objects s)"

definition committed_complete :: "store \<Rightarrow> bool" where
  "committed_complete s \<longleftrightarrow>
     (\<forall>r \<in> set (objects s). Status r = Committed \<longrightarrow> complete_with (stream_segments (StreamID r) s) r)"

definition store_inv :: "store \<Rightarrow> bool" where
  "store_inv s \<longleftrightarrow> keys_ok s \<and> segments_owned s \<and> committed_complete s"

definition same_tables :: "store \<Rightarrow> store \<Rightarrow> bool" where
  "same_tables s s' \<longleftrightarrow> objects s' = objects s \<and> segments s' = segments s \<and> copies s' = copies s"

lemma same_tables_refl [simp]: "same_tables s s"
  by (simp add: same_tables_def)

lemma same_tables_trans: "same_tables s s' \<Longrightarrow> same_tables s' s'' \<Longrightarrow> same_tables s s''"
  by (simp add: same_tables_def)

lemma same_tables_inv: "same_tables s s' \<Longrightarrow> store_inv s' \<longleftrightarrow> store_inv s"
  by (simp add: same_tables_def store_inv_def keys_ok_def segments_owned_def committed_complete_def
      stream_segments_def fetchSegmentsForCommit_def)

lemma same_tables_keep: "store_inv s \<Longrightarrow> same_tables s s' \<Longrightarrow> store_inv s' \<and> objects s' = objects s"
  using same_tables_inv [of s s'] by (simp add: same_tables_def)

lemma with_tx_cases:
  assumes "with_tx body s = (s', r)"
  obtains (error) e where "r = Inl e" "same_tables s s'"
    | (success) x where "r = Inr x" "body s = (s', Inr x)"
  using assms by (auto simp: with_tx_def same_tables_def split: prod.splits sum.splits)

lemma with_tx_inv:
  assumes "store_inv s" "\<And>s' x. body s = (s', Inr x) \<Longrightarrow> store_inv s'"
  shows "store_inv (fst (with_tx body s))"
proof -
  obtain s' r where e: "with_tx body s = (s', r)" by fastforce
  then show ?thesis
    by (cases rule: with_tx_cases) (use assms e same_tables_inv in auto)
qed

lemma store_EnsurePieces_tables: "store_EnsurePieces ps s = (s', r) \<Longrightarrow> same_tables s s'"
  by (auto simp: store_EnsurePieces_def same_tables_def split: prod.splits)

lemma store_ConvertAliases_tables: "store_ConvertAliases aps s = (s', r) \<Longrightarrow> same_tables s s'"
  by (auto simp: store_ConvertAliases_def same_tables_def split: prod.splits)

lemma scan_pieces_tables: "scan_pieces g s = (s', r) \<Longrightarrow> same_tables s s'"
  by (auto simp: scan_pieces_def split: sum.splits dest: store_ConvertAliases_tables)

lemma scanObjectDeletion_tables: "scanObjectDeletion rows acc s = (s', r) \<Longrightarrow> same_tables s s'"
  by (induction rows acc s rule: scanObjectDeletion.induct)
    (auto simp: Let_def split: option.splits prod.splits sum.splits
      dest: scan_pieces_tables intro: same_tables_trans)

lemma scanServerSideCopy_tables: "scanObjectDeletionServerSideCopy rows acc s = (s', r) \<Longrightarrow> same_tables s s'"
  by (induction rows acc s rule: scanObjectDeletionServerSideCopy.induct)
    (auto simp: Let_def split: option.splits prod.splits sum.splits
      dest: scan_pieces_tables intro: same_tables_trans)

lemma encode_segments_tables: "encode_segments gs s = (s', r) \<Longrightarrow> same_tables s s'"
proof (induction gs arbitrary: s s' r)
  case (Cons g gs)
  then show ?case
    by (fastforce split: prod.splits sum.splits dest: store_EnsurePieces_tables intro: same_tables_trans)
qed simp

subsection \<open>Positions and streams\<close>

definition segs_of :: "uuid \<Rightarrow> store \<Rightarrow> Segment list" where
  "segs_of stream s = filter (\<lambda>g. seg_StreamID g = stream) (segments s)"

lemma fetch_segs_of: "fetchSegmentsForCommit stream s = map segment_info (order_by_position (segs_of stream s))"
  by (simp add: fetchSegmentsForCommit_def segs_of_def)

lemma insort_key_map: "(\<And>x. f (h x) = f x) \<Longrightarrow> insort_key f (h x) (map h xs) = map h (insort_key f x xs)"
  by (induction xs) auto

lemma sort_key_map_inv: "(\<And>x. f (h x) = f x) \<Longrightarrow> sort_key f (map h xs) = map h (sort_key f xs)"
  by (induction xs) (simp_all add: insort_key_map)

lemma order_map:
  "(\<And>g. seg_Position (h g) = seg_Position g) \<Longrightarrow> order_by_position (map h gs) = map h (order_by_position gs)"
  unfolding order_by_position_def by (rule sort_key_map_inv) simp

lemma image_sql_update: "(\<And>r. P r \<Longrightarrow> f (g r) = f r) \<Longrightarrow> f ` set (sql_update P g rows) = f ` set rows"
  by (induction rows) (auto simp: sql_update_def)

text \<open>Updates that keep position, sizes and offset do not change what a commit sees.\<close>

lemma fetch_update_same:
  assumes "\<And>g. segment_info (f g) = segment_info g \<and> seg_StreamID (f g) = seg_StreamID g"
  shows "fetchSegmentsForCommit stream (s\<lparr>segments := sql_update P f (segments s)\<rparr>) = fetchSegmentsForCommit stream s"
proof -
  let ?h = "\<lambda>g. if P g then f g else g"
  have pos: "seg_Position (?h g) = seg_Position g" for g
    using assms [of g] by (auto simp: segment_info_def)
  have "segs_of stream (s\<lparr>segments := sql_update P f (segments s)\<rparr>) = map ?h (segs_of stream s)"
    using assms by (auto simp: segs_of_def sql_update_def filter_map comp_def intro!: arg_cong [where f = "map _"] filter_cong)
  then show ?thesis
    using assms by (simp add: fetch_segs_of order_map pos comp_def)
qed

lemma fetch_filter_other:
  "filter (\<lambda>g. seg_StreamID g = stream) segs = filter (\<lambda>g. seg_StreamID g = stream) (segments s) \<Longrightarrow>
   fetchSegmentsForCommit stream (s\<lparr>segments := segs\<rparr>) = fetchSegmentsForCommit stream s"
  by (simp add: fetchSegmentsForCommit_def)

lemma filter_sql_delete_other:
  "(\<And>g. P g \<Longrightarrow> \<not> Q g) \<Longrightarrow> filter P (sql_delete Q xs) = filter P xs"
  by (auto simp: sql_delete_def intro!: filter_cong)

lemma filter_sql_update_other:
  "(\<And>g. Q g \<Longrightarrow> \<not> P g \<and> \<not> P (f g)) \<Longrightarrow> filter P (sql_update Q f xs) = filter P xs"
  by (induction xs) (auto simp: sql_update_def)

lemma filter_sql_upsert_other:
  "\<not> P new \<Longrightarrow> (\<And>g. key g = key new \<Longrightarrow> \<not> P g \<and> \<not> P (f g)) \<Longrightarrow>
   filter P (sql_upsert key new f xs) = filter P xs"
  by (simp add: sql_upsert_def filter_sql_update_other)

lemma still_complete:
  "store_inv s \<Longrightarrow> r \<in> set (objects s) \<Longrightarrow> Status r = Committed \<Longrightarrow>
   fetchSegmentsForCommit (StreamID r) s' = fetchSegmentsForCommit (StreamID r) s \<Longrightarrow>
   complete_with (stream_segments (StreamID r) s') r"
  by (simp add: stream_segments_def store_inv_def committed_complete_def)

subsection \<open>Deleting\<close>

lemma stream_unique:
  "store_inv s \<Longrightarrow> r \<in> set (objects s) \<Longrightarrow> q \<in> set (objects s) \<Longrightarrow> StreamID r = StreamID q \<Longrightarrow> r = q"
  by (auto simp: store_inv_def keys_ok_def dest: unique_keyD)

lemma delete_inv:
  assumes inv: "store_inv s"
    and s': "objects s' = sql_delete P (objects s)"
      "segments s' = sql_delete (\<lambda>g. seg_StreamID g \<in> deleted_streams P s) (segments s)"
      "copies s' = sql_delete Q (copies s)"
  shows "store_inv s'"
proof -
  have keys: "keys_ok s'" using inv by (auto simp: store_inv_def keys_ok_def s' sql_simps)
  have "seg_StreamID g \<in> StreamID ` set (objects s')" if "g \<in> set (segments s')" for g
  proof -
    have g: "g \<in> set (segments s)" "seg_StreamID g \<notin> deleted_streams P s"
      using that by (auto simp: s' sql_simps)
    then obtain r where "r \<in> set (objects s)" "StreamID r = seg_StreamID g"
      using inv by (force simp: store_inv_def segments_owned_def)
    with g show ?thesis by (force simp: s' sql_simps deleted_streams_def)
  qed
  moreover have "complete_with (stream_segments (StreamID r) s') r"
    if r: "r \<in> set (objects s')" "Status r = Committed" for r
  proof -
    have r0: "r \<in> set (objects s)" "\<not> P r" using r by (auto simp: s' sql_simps)
    have "StreamID r \<notin> deleted_streams P s"
      using stream_unique [OF inv r0(1)] r0(2) by (fastforce simp: deleted_streams_def sql_simps)
    then have "fetchSegmentsForCommit (StreamID r) s' = fetchSegmentsForCommit (StreamID r) s"
      unfolding fetchSegmentsForCommit_def s' by (subst filter_sql_delete_other) auto
    then show ?thesis by (rule still_complete [OF inv r0(1) r(2)])
  qed
  ultimately show ?thesis
    using keys by (auto simp: store_inv_def segments_owned_def committed_complete_def)
qed

lemma delete_objects_sql_inv: "store_inv s \<Longrightarrow> store_inv (fst (delete_objects_sql P s))"
  by (rule delete_inv [where P = P and Q = "\<lambda>_. False"])
    (auto simp: delete_objects_sql_def Let_def sql_delete_def)

lemma delete_objects_copy_sql_inv: "store_inv s \<Longrightarrow> store_inv (fst (delete_objects_copy_sql P s))"
  by (rule delete_inv [where P = P and Q = "\<lambda>c. copy_StreamID c \<in> deleted_streams P s"])
    (auto simp: delete_objects_copy_sql_def Let_def)

lemma segments_update_inv:
  assumes "store_inv s" "objects s' = objects s"
    and "keys_ok s'"
    and "segments s' = sql_update P f (segments s)"
    and "\<And>g. segment_info (f g) = segment_info g \<and> seg_StreamID (f g) = seg_StreamID g"
  shows "store_inv s'"
proof -
  have "fetchSegmentsForCommit st s' = fetchSegmentsForCommit st s" for st
    using fetch_update_same [OF assms(5), where P = P and s = s and stream = st] assms(4)
    by (simp add: fetchSegmentsForCommit_def)
  moreover have "seg_StreamID ` set (segments s') = seg_StreamID ` set (segments s)"
    using assms(5) by (simp add: assms(4) image_sql_update)
  ultimately show ?thesis
    using assms(1-3) by (auto simp: store_inv_def segments_owned_def committed_complete_def stream_segments_def)
qed

lemma promote_one_inv:
  assumes "store_inv s" "promote_one info new s = (s', Inr u)"
  shows "store_inv s' \<and> objects s' = objects s"
proof -
  let ?old = "StreamID (info_Object info)"
  obtain s1 batch where e: "encode_segments (info_Segments info) s = (s1, Inr batch)"
    using assms(2) by (auto simp: promote_one_def split: prod.splits sum.splits)
  have t: "same_tables s s1" by (rule encode_segments_tables [OF e])
  then have inv1: "store_inv s1" using assms(1) same_tables_inv by blast
  let ?f = "\<lambda>g. case map_of batch (seg_Position g) of None \<Rightarrow> g
      | Some (bs, repaired) \<Rightarrow> g\<lparr>seg_AliasPieces := Some bs, seg_RepairedAt := repaired\<rparr>"
  have f: "segment_info (?f g) = segment_info g \<and> seg_StreamID (?f g) = seg_StreamID g" for g
    by (auto simp: segment_info_def split: option.splits)
  have s': "objects s' = objects s1" "segments s' = sql_update (is_segment_of new batch id) ?f (segments s1)"
    "copies s' = sql_update (\<lambda>c. copy_AncestorStreamID c = ?old) (\<lambda>c. c\<lparr>copy_AncestorStreamID := new\<rparr>)
       (sql_delete (\<lambda>c. copy_StreamID c = new) (copies s1))"
    "\<forall>c \<in> set (copies s'). copy_StreamID c \<noteq> copy_AncestorStreamID c"
    using assms(2) e by (auto simp: promote_one_def Let_def split: if_splits)
  have "unique_key segment_key (segments s')"
    unfolding s' by (rule unique_key_update)
      (use inv1 in \<open>auto simp: store_inv_def keys_ok_def segment_key_def split: option.splits\<close>)
  moreover have "unique_key copy_StreamID (copies s')"
    unfolding s' by (rule unique_key_update [OF unique_key_delete])
      (use inv1 in \<open>auto simp: store_inv_def keys_ok_def\<close>)
  ultimately have "keys_ok s'" using inv1 s'(1,4) by (simp add: store_inv_def keys_ok_def)
  then show ?thesis
    using segments_update_inv [OF inv1 s'(1) _ s'(2) f] t s'(1) by (simp add: same_tables_def)
qed

lemma promoteNewAncestors_inv:
  "store_inv s \<Longrightarrow> promoteNewAncestors infos s = (s', Inr u) \<Longrightarrow> store_inv s' \<and> objects s' = objects s"
proof (induction infos s rule: promoteNewAncestors.induct)
  case (2 info infos s)
  show ?case
  proof (cases "info_PromotedAncestor info")
    case None
    with 2 show ?thesis by simp
  next
    case (Some new)
    then obtain s1 where s1: "promote_one info new s = (s1, Inr ())" "promoteNewAncestors infos s1 = (s', Inr u)"
      using "2.prems"(2) by (auto split: prod.splits sum.splits)
    with promote_one_inv [OF "2.prems"(1) s1(1)] "2.IH"(2) [OF Some s1(1) [symmetric] refl] show ?thesis by auto
  qed
qed simp

lemma delete_serverside_copy_inv:
  assumes "store_inv s" "delete_serverside_copy P s = (s', Inr infos)"
  shows "store_inv s' \<and> objects s' = sql_delete P (objects s)"
proof -
  obtain s1 rows where d: "delete_objects_copy_sql P s = (s1, rows)" by fastforce
  then have s1: "store_inv s1" "objects s1 = sql_delete P (objects s)"
    using delete_objects_copy_sql_inv [OF assms(1), of P] by (auto simp: delete_objects_copy_sql_def Let_def)
  obtain s2 infos' where s2: "scanObjectDeletionServerSideCopy rows [] s1 = (s2, Inr infos')"
    "promoteNewAncestors infos' s2 = (s', Inr ())"
    using assms(2) d by (auto simp: delete_serverside_copy_def split: prod.splits sum.splits)
  have t: "same_tables s1 s2" by (rule scanServerSideCopy_tables [OF s2(1)])
  then have "store_inv s2" using s1 same_tables_inv by blast
  with promoteNewAncestors_inv [OF _ s2(2)] s1 t show ?thesis by (simp add: same_tables_def)
qed

lemma delete_with_config_inv:
  assumes "store_inv s" "delete_with_config cfg P s = (s', Inr res)"
  shows "store_inv s' \<and> objects s' = sql_delete P (objects s)"
proof (cases "ServerSideCopy cfg")
  case True
  then show ?thesis
    using assms delete_serverside_copy_inv [OF assms(1), of P]
    by (auto simp: delete_with_config_def split: prod.splits sum.splits)
next
  case False
  obtain s1 rows where d: "delete_objects_sql P s = (s1, rows)" by fastforce
  then have "same_tables s1 s'"
    using assms(2) False by (auto simp: delete_with_config_def dest: scanObjectDeletion_tables)
  moreover have "store_inv s1" "objects s1 = sql_delete P (objects s)"
    using delete_objects_sql_inv [OF assms(1), of P] d by (auto simp: delete_objects_sql_def Let_def)
  ultimately show ?thesis using same_tables_keep by metis
qed

lemma delete_exact_inv:
  "store_inv s \<Longrightarrow> delete_exact cfg v loc s = (s', Inr res) \<Longrightarrow>
   store_inv s' \<and> objects s' = sql_delete (exact_version loc v) (objects s)"
  by (auto simp: delete_exact_def split: sum.splits dest: delete_with_config_inv)

lemma scan_outside_tx_inv:
  assumes "store_inv s"
  shows "store_inv (fst (scan_outside_tx P s)) \<and> objects (fst (scan_outside_tx P s)) = sql_delete P (objects s)"
proof -
  obtain s1 rows where d: "delete_objects_sql P s = (s1, rows)" by fastforce
  obtain s' r where e: "scanObjectDeletion rows empty_result s1 = (s', r)" by fastforce
  have "same_tables s1 s'" by (rule scanObjectDeletion_tables [OF e])
  moreover have "store_inv s1" "objects s1 = sql_delete P (objects s)"
    using delete_objects_sql_inv [OF assms, of P] d by (auto simp: delete_objects_sql_def Let_def)
  ultimately have "store_inv s' \<and> objects s' = sql_delete P (objects s)" using same_tables_keep by metis
  then show ?thesis using d e by (simp add: scan_outside_tx_def)
qed

lemma require_deleted_fst: "fst (require_deleted x) = fst x"
  by (cases x) (auto simp: require_deleted_def split: sum.splits)

lemma delete_ops_inv:
  assumes "store_inv s"
  shows "store_inv (fst (DeleteObjectExactVersion cfg v loc s))"
    "store_inv (fst (DeleteObjectLastCommitted cfg now loc s))"
    "store_inv (fst (DeletePendingObject obj s))"
    "store_inv (fst (DeleteObjectAnyStatusAllVersions cfg loc s))"
    "store_inv (fst (DeleteObjectsAllVersions cfg locs s))"
proof -
  show "store_inv (fst (DeleteObjectExactVersion cfg v loc s))"
    unfolding DeleteObjectExactVersion_def
    by (rule with_tx_inv [OF assms]) (use delete_exact_inv [OF assms] in blast)
  show "store_inv (fst (DeleteObjectLastCommitted cfg now loc s))"
    unfolding DeleteObjectLastCommitted_def
    by (rule with_tx_inv [OF assms])
      (use delete_with_config_inv [OF assms] in \<open>auto simp: delete_last_def split: sum.splits\<close>)
  show "store_inv (fst (DeletePendingObject obj s))"
    using assms scan_outside_tx_inv [OF assms]
    by (auto simp: DeletePendingObject_def require_deleted_fst split: sum.split)
  show "store_inv (fst (DeleteObjectAnyStatusAllVersions cfg loc s))"
    using assms scan_outside_tx_inv [OF assms]
    by (auto simp: DeleteObjectAnyStatusAllVersions_def require_deleted_fst split: sum.split)
  show "store_inv (fst (DeleteObjectsAllVersions cfg locs s))"
    using assms scan_outside_tx_inv [OF assms]
    by (auto simp: DeleteObjectsAllVersions_def split: sum.split list.split)
qed

subsection \<open>Beginning objects and writing segments\<close>

text \<open>Stream ids are random: an operation that brings a new one brings a fresh one.\<close>

definition fresh_stream :: "uuid \<Rightarrow> store \<Rightarrow> bool" where
  "fresh_stream stream s \<longleftrightarrow> stream \<notin> StreamID ` set (objects s) \<and>
     stream \<notin> copy_StreamID ` set (copies s) \<and> stream \<notin> copy_AncestorStreamID ` set (copies s)"

lemma fresh_no_segments: "store_inv s \<Longrightarrow> fresh_stream st s \<Longrightarrow> g \<in> set (segments s) \<Longrightarrow> seg_StreamID g \<noteq> st"
  by (auto simp: store_inv_def segments_owned_def fresh_stream_def)

lemma add_object_inv:
  assumes inv: "store_inv s" and new: "object_key r \<notin> object_key ` set (objects s)"
    and "StreamID r \<notin> StreamID ` set (objects s)"
    and s': "objects s' = objects s @ [r]" "keys_ok (s'\<lparr>objects := objects s\<rparr>)"
    and "\<And>q. q \<in> set (objects s) \<Longrightarrow> Status q = Committed \<Longrightarrow>
       fetchSegmentsForCommit (StreamID q) s' = fetchSegmentsForCommit (StreamID q) s"
    and "Status r = Committed \<Longrightarrow> complete_with (stream_segments (StreamID r) s') r"
    and "seg_StreamID ` set (segments s') \<subseteq> insert (StreamID r) (seg_StreamID ` set (segments s))"
  shows "store_inv s'"
proof -
  have "keys_ok s'"
    using s' new assms(3) by (auto simp: keys_ok_def intro: unique_key_snoc)
  moreover have "segments_owned s'"
    using inv assms(8) s'(1) by (auto simp: store_inv_def segments_owned_def)
  moreover have "committed_complete s'"
    using still_complete [OF inv] assms(6,7) s'(1) by (auto simp: committed_complete_def)
  ultimately show ?thesis by (simp add: store_inv_def)
qed

lemma begin_inv:
  assumes inv: "store_inv s" and "fresh_stream (StreamID (begin_Stream opts)) s"
    and "sql_insert object_key (begin_row now v opts) (objects s) = Some rows"
  shows "store_inv (s\<lparr>objects := rows\<rparr>)"
proof (rule add_object_inv [OF inv, where r = "begin_row now v opts"])
  show "keys_ok (s\<lparr>objects := rows, objects := objects s\<rparr>)" using inv by (simp add: store_inv_def)
  show "fetchSegmentsForCommit (StreamID q) (s\<lparr>objects := rows\<rparr>) = fetchSegmentsForCommit (StreamID q) s" for q
    by (simp add: fetchSegmentsForCommit_def)
qed (use assms(2,3) in \<open>auto simp: sql_insert_def fresh_stream_def begin_row_def split: if_splits\<close>)

lemma begin_ops_inv:
  assumes "store_inv s" "fresh_stream (StreamID (begin_Stream opts)) s"
  shows "store_inv (fst (BeginObjectNextVersion now opts s))"
    "store_inv (fst (BeginObjectExactVersion now opts s))"
  using assms begin_inv [OF assms]
  by (auto simp: BeginObjectNextVersion_def BeginObjectExactVersion_def Let_def
      split: sum.split option.split)

lemma upsert_segment_inv:
  assumes inv: "store_inv s" and pend: "pending_exists obj s" and st: "seg_StreamID new = StreamID obj"
    and f: "\<And>g. segment_key (f g) = segment_key g"
  shows "store_inv (s\<lparr>segments := sql_upsert segment_key new f (segments s)\<rparr>)"
    (is "store_inv ?s")
proof -
  obtain r0 where r0: "r0 \<in> set (objects s)" "StreamID r0 = StreamID obj" "Status r0 = Pending"
    using pend by (auto simp: pending_exists_def names_row_def)
  have "unique_key segment_key (segments ?s)"
    using inv f by (auto simp: store_inv_def keys_ok_def intro: unique_key_upsert)
  then have keys: "keys_ok ?s" using inv by (simp add: store_inv_def keys_ok_def)
  have f': "seg_StreamID (f g) = seg_StreamID g" for g using f [of g] by (simp add: segment_key_def)
  have "seg_StreamID ` set (segments ?s) \<subseteq> insert (StreamID obj) (seg_StreamID ` set (segments s))"
    using st f' by (auto simp: sql_upsert_def sql_simps)
  then have owned: "segments_owned ?s"
    using inv r0 by (force simp: store_inv_def segments_owned_def)
  have "complete_with (stream_segments (StreamID r) ?s) r"
    if r: "r \<in> set (objects s)" "Status r = Committed" for r
  proof (rule still_complete [OF inv r])
    have "StreamID r \<noteq> StreamID obj" using stream_unique [OF inv r(1) r0(1)] r0 r(2) by auto
    then show "fetchSegmentsForCommit (StreamID r) ?s = fetchSegmentsForCommit (StreamID r) s"
      using st f' by (intro fetch_filter_other filter_sql_upsert_other) (auto simp: segment_key_def)
  qed
  then have "committed_complete ?s" by (simp add: committed_complete_def)
  with keys owned show ?thesis by (simp add: store_inv_def)
qed

lemma CommitSegment_inv:
  assumes "store_inv s"
  shows "store_inv (fst (CommitSegment now opts s))"
proof (cases "CommitSegment_Verify opts")
  case (Inr u)
  obtain s' r where e: "store_EnsurePieces (cs_Pieces opts) s = (s', r)" by fastforce
  then have inv': "store_inv s'" using assms same_tables_keep store_EnsurePieces_tables by blast
  have "store_inv (s'\<lparr>segments := sql_upsert segment_key (remote_row now opts red ap)
      (remote_update (remote_row now opts red ap)) (segments s')\<rparr>)"
    if "pending_exists (cs_Stream opts) s'" for red ap
    by (rule upsert_segment_inv [OF inv' that]) (simp_all add: remote_row_def remote_update_def segment_key_def)
  then show ?thesis
    using inv' Inr e by (auto simp: CommitSegment_def Let_def split: sum.split)
qed (simp add: CommitSegment_def assms)

lemma CommitInlineSegment_inv:
  assumes "store_inv s"
  shows "store_inv (fst (CommitInlineSegment now opts s))"
proof -
  have "store_inv (s\<lparr>segments := sql_upsert segment_key (inline_row now opts)
      (inline_update (inline_row now opts)) (segments s)\<rparr>)"
    if "pending_exists (ci_Stream opts) s"
    by (rule upsert_segment_inv [OF assms that]) (simp_all add: inline_row_def inline_update_def segment_key_def)
  then show ?thesis
    using assms by (auto simp: CommitInlineSegment_def Let_def split: sum.split)
qed

subsection \<open>Committing\<close>

definition set_offset :: "(SegmentPosition \<times> int) list \<Rightarrow> segmentToCommit \<Rightarrow> segmentToCommit" where
  "set_offset batch u = u\<lparr>OldPlainOffset := new_offset batch (commit_Position u) (OldPlainOffset u)\<rparr>"

lemma set_offset_simps [simp]:
  "commit_Position (set_offset b u) = commit_Position u"
  "commit_PlainSize (set_offset b u) = commit_PlainSize u"
  "commit_EncryptedSize (set_offset b u) = commit_EncryptedSize u"
  by (simp_all add: set_offset_def)

lemma same_sizes:
  assumes "map commit_PlainSize us = map commit_PlainSize vs"
    "map commit_EncryptedSize us = map commit_EncryptedSize vs"
    "map commit_Position us = map commit_Position vs"
  shows "totalPlainSize us = totalPlainSize vs" "totalEncryptedSize us = totalEncryptedSize vs"
    "fixedSegmentSize us = fixedSegmentSize vs" "expected_offsets e us = expected_offsets e vs"
proof -
  show "totalPlainSize us = totalPlainSize vs" "totalEncryptedSize us = totalEncryptedSize vs"
    using assms by (simp_all add: totals_sum)
  have loop: "fixed_size_loop i f us = fixed_size_loop i f vs" for i f
    using assms(1,3)
  proof (induction us arbitrary: vs i)
    case (Cons u us)
    then show ?case by (cases vs) auto
  qed simp
  show "fixedSegmentSize us = fixedSegmentSize vs"
  proof (cases us)
    case Nil
    then show ?thesis using assms(1) by simp
  next
    case (Cons u us')
    then obtain v vs' where vs: "vs = v # vs'" "commit_PlainSize v = commit_PlainSize u"
      using assms(1) by (cases vs) auto
    show ?thesis
      using loop [of 0 "commit_PlainSize u"] unfolding fixedSegmentSize_def Cons vs(1) list.case vs(2) .
  qed
  show "expected_offsets e us = expected_offsets e vs"
    using assms(1)
  proof (induction us arbitrary: vs e)
    case (Cons u us)
    then obtain v vs' where vs: "vs = v # vs'" "commit_PlainSize v = commit_PlainSize u"
      "map commit_PlainSize us = map commit_PlainSize vs'"
      by (cases vs) auto
    then show ?case using Cons.IH [of vs' "wrap64 (e + commit_PlainSize u)"] by simp
  qed simp
qed

lemma complete_set_offset:
  assumes "distinct (map commit_Position us)"
    and "SegmentCount r = int (length us)" "TotalPlainSize r = totalPlainSize us"
    and "TotalEncryptedSize r = totalEncryptedSize us" "FixedSegmentSize r = fixedSegmentSize us"
  shows "complete_with (map (set_offset (offset_batch 0 us)) us) r"
proof -
  let ?vs = "map (set_offset (offset_batch 0 us)) us"
  have "map OldPlainOffset ?vs = expected_offsets 0 us"
    using offset_batch_apply [OF assms(1), of 0] by (simp add: set_offset_def comp_def)
  moreover have "totalPlainSize ?vs = totalPlainSize us" "totalEncryptedSize ?vs = totalEncryptedSize us"
    "fixedSegmentSize ?vs = fixedSegmentSize us" "expected_offsets 0 ?vs = expected_offsets 0 us"
    by (rule same_sizes; simp add: comp_def)+
  ultimately show ?thesis using assms(2-5) by (simp add: complete_with_def)
qed

lemma updateSegmentOffsets_result:
  assumes "updateSegmentOffsets stream us s = (s1, Inr u)" "keys_ok s"
  shows "objects s1 = objects s" "copies s1 = copies s" "keys_ok s1"
    "seg_StreamID ` set (segments s1) = seg_StreamID ` set (segments s)"
    "stream_segments stream s1 = map (set_offset (offset_batch 0 us)) (stream_segments stream s)"
    "\<And>st. st \<noteq> stream \<Longrightarrow> fetchSegmentsForCommit st s1 = fetchSegmentsForCommit st s"
proof -
  let ?b = "offset_batch 0 us"
  let ?h = "\<lambda>g. g\<lparr>seg_PlainOffset := new_offset ?b (seg_Position g) (seg_PlainOffset g)\<rparr>"
  let ?P = "is_segment_of stream ?b id"
  have id: "?h g = g" if "seg_StreamID g = stream" "\<not> ?P g" for g
    using that by (auto simp: is_segment_of_def new_offset_def map_of_eq_None_iff [THEN iffD2])
  have s1: "s1 = s\<lparr>segments := sql_update ?P ?h (segments s)\<rparr>"
  proof (cases "?b = []")
    case True
    then have "sql_update ?P ?h (segments s) = segments s"
      by (simp add: sql_update_def is_segment_of_def map_idI)
    with True show ?thesis using assms(1) by (simp add: updateSegmentOffsets_def)
  next
    case False
    then show ?thesis using assms(1) by (auto simp: updateSegmentOffsets_def Let_def split: if_splits)
  qed
  show "objects s1 = objects s" "copies s1 = copies s" by (simp_all add: s1)
  have "unique_key segment_key (sql_update ?P ?h (segments s))"
    using assms(2) by (intro unique_key_update) (auto simp: keys_ok_def segment_key_def)
  then show "keys_ok s1" using assms(2) by (simp add: keys_ok_def s1)
  show "seg_StreamID ` set (segments s1) = seg_StreamID ` set (segments s)"
    by (simp add: s1 image_sql_update)
  have "filter (\<lambda>g. seg_StreamID g = stream) (sql_update ?P ?h xs)
      = map ?h (filter (\<lambda>g. seg_StreamID g = stream) xs)" for xs
  proof (induction xs)
    case (Cons g xs)
    then show ?case using id [of g] by (auto simp: sql_update_def is_segment_of_def)
  qed (simp add: sql_update_def)
  then have "segs_of stream s1 = map ?h (segs_of stream s)" by (simp add: s1 segs_of_def)
  then show "stream_segments stream s1 = map (set_offset ?b) (stream_segments stream s)"
    by (simp add: stream_segments_def fetch_segs_of order_map convertToFinalSegments_def comp_def
        segment_info_def to_commit_def set_offset_def)
  show "fetchSegmentsForCommit st s1 = fetchSegmentsForCommit st s" if "st \<noteq> stream" for st
    using that unfolding s1
    by (intro fetch_filter_other filter_sql_update_other) (auto simp: is_segment_of_def)
qed

lemma commit_pending_inv:
  assumes inv: "store_inv s"
    and s1: "objects s1 = objects s" "keys_ok s1"
      "seg_StreamID ` set (segments s1) \<subseteq> seg_StreamID ` set (segments s)"
      "\<And>st. st \<noteq> StreamID obj \<Longrightarrow> fetchSegmentsForCommit st s1 = fetchSegmentsForCommit st s"
    and up: "update_pending obj f s1 = (s2, r # rest)"
    and f: "\<And>q. object_key (f q) = object_key q" "\<And>q. StreamID (f q) = StreamID q"
      "\<And>q. complete_with (stream_segments (StreamID obj) s1) (f q)"
  shows "store_inv s2"
proof -
  let ?C = "\<lambda>q. names_row obj q \<and> Status q = Pending"
  have s2: "s2 = s1\<lparr>objects := sql_update ?C f (objects s1)\<rparr>"
    and "sql_returning ?C (objects s1) \<noteq> []"
    using up by (auto simp: update_pending_def Let_def)
  then obtain q0 where q0: "q0 \<in> set (objects s)" "?C q0"
    using s1(1) by (auto simp: sql_returning_def filter_empty_conv)
  have "unique_key object_key (objects s2)" "unique_key StreamID (objects s2)"
    using s1(2) f by (auto simp: s2 keys_ok_def intro!: unique_key_update)
  then have keys: "keys_ok s2" using s1(2) by (simp add: keys_ok_def s2)
  have "StreamID ` set (objects s2) = StreamID ` set (objects s)"
    by (simp add: s2 image_sql_update f s1(1))
  then have owned: "segments_owned s2"
    using order_trans [OF s1(3), of "StreamID ` set (objects s)"] inv
    by (simp add: store_inv_def segments_owned_def s2)
  have "complete_with (stream_segments (StreamID q) s2) q"
    if q: "q \<in> set (objects s2)" "Status q = Committed" for q
  proof -
    have fetch: "fetchSegmentsForCommit st s2 = fetchSegmentsForCommit st s1" for st
      by (simp add: s2 fetchSegmentsForCommit_def)
    consider (new) p where "q = f p" "?C p" | (old) "q \<in> set (objects s)" "\<not> ?C q"
      using q(1) s1(1) by (auto simp: s2 sql_simps)
    then show ?thesis
    proof cases
      case new
      then show ?thesis using f(2,3) fetch by (auto simp: stream_segments_def names_row_def)
    next
      case old
      then have "StreamID q \<noteq> StreamID obj"
        using stream_unique [OF inv old(1) q0(1)] q0(2) by (auto simp: names_row_def)
      then show ?thesis using still_complete [OF inv old(1) q(2)] fetch s1(4) by simp
    qed
  qed
  with keys owned show ?thesis by (simp add: store_inv_def committed_complete_def)
qed

lemma position_column_inj:
  "sint (SegmentPosition_Encode p) = sint (SegmentPosition_Encode q) \<longleftrightarrow> p = q"
  by (metis SegmentPosition_Encode_inj signed_word_eqI)

lemma order_set [simp]: "set (order_by_position gs) = set gs" "length (order_by_position gs) = length gs"
  by (simp_all add: order_by_position_def)

lemma fetch_positions_distinct:
  assumes "keys_ok s"
  shows "distinct (map info_Position (fetchSegmentsForCommit stream s))"
proof -
  have "distinct (map seg_Position (segs_of stream s))"
    using assms by (auto simp: keys_ok_def unique_key_def segs_of_def segment_key_def distinct_map inj_on_def)
  then have "distinct (map seg_Position (order_by_position (segs_of stream s)))"
    by (metis order_by_position_def distinct_map distinct_sort set_sort)
  then show ?thesis by (simp add: fetch_segs_of comp_def segment_info_def)
qed

lemma stream_segments_distinct: "keys_ok s \<Longrightarrow> distinct (map commit_Position (stream_segments stream s))"
  using fetch_positions_distinct by (simp add: stream_segments_def commit_Position_final)

lemma commit_row_simps:
  "object_key (commit_row opts us q) = object_key q" "StreamID (commit_row opts us q) = StreamID q"
  "Status (commit_row opts us q) = Committed"
  "SegmentCount (commit_row opts us q) = int (length us)"
  "TotalPlainSize (commit_row opts us q) = totalPlainSize us"
  "TotalEncryptedSize (commit_row opts us q) = totalEncryptedSize us"
  "FixedSegmentSize (commit_row opts us q) = fixedSegmentSize us"
  by (simp_all add: commit_row_def object_key_def Let_def)

lemma delete_versions_inv:
  "store_inv s \<Longrightarrow> delete_versions cfg loc vs acc s = (s', Inr del) \<Longrightarrow>
   store_inv s' \<and> objects s' = filter (\<lambda>r. \<not> (same_location loc r \<and> Version r \<in> set vs)) (objects s)"
proof (induction vs arbitrary: acc s)
  case (Cons v vs)
  then obtain s1 res where s1: "delete_exact cfg v loc s = (s1, Inr res)"
    "delete_versions cfg loc vs (acc @ res_Segments res) s1 = (s', Inr del)"
    by (auto split: prod.splits sum.splits)
  from delete_exact_inv [OF Cons.prems(1) s1(1)] Cons.IH [OF _ s1(2)]
  show ?case by (auto simp: sql_delete_def exact_version_def intro!: filter_cong)
qed simp

text \<open>What the success of the transaction of \<open>CommitObject\<close> means, step by step.\<close>

lemma commit_object_tx_success:
  assumes "commit_object_tx cfg opts s = (s', Inr (r, deleted))"
  obtains s1 s2 rest where
    "validateParts (MaxNumberOfParts cfg) (MinPartSize cfg)
       (fetchSegmentsForCommit (StreamID (co_Stream opts)) s) = Inr ()"
    "updateSegmentOffsets (StreamID (co_Stream opts)) (stream_segments (StreamID (co_Stream opts)) s) s = (s1, Inr ())"
    "update_pending (co_Stream opts) (commit_row opts (stream_segments (StreamID (co_Stream opts)) s)) s1
       = (s2, r # rest)"
    "delete_versions cfg (ObjectStream_Location (co_Stream opts))
       (map Version (filter (\<lambda>r. same_location (co_Stream opts) r \<and> Status r = Committed) (objects s1))) [] s2
       = (s', Inr deleted)"
    "co_DisallowDelete opts \<longrightarrow>
       filter (\<lambda>r. same_location (co_Stream opts) r \<and> Status r = Committed) (objects s1) = []"
  using assms
  by (auto simp: commit_object_tx_def Let_def stream_segments_def
      split: sum.splits prod.splits if_splits list.splits)

lemma CommitObject_inv:
  assumes inv: "store_inv s"
  shows "store_inv (fst (CommitObject cfg opts s))"
proof -
  have "store_inv s'" if "commit_object_tx cfg opts s = (s', Inr (r, deleted))" for s' r deleted
  proof -
    let ?st = "StreamID (co_Stream opts)"
    from that obtain s1 s2 rest where
      s1: "updateSegmentOffsets ?st (stream_segments ?st s) s = (s1, Inr ())"
      and s2: "update_pending (co_Stream opts) (commit_row opts (stream_segments ?st s)) s1 = (s2, r # rest)"
      and del: "delete_versions cfg (ObjectStream_Location (co_Stream opts))
       (map Version (filter (\<lambda>r. same_location (co_Stream opts) r \<and> Status r = Committed) (objects s1))) [] s2
       = (s', Inr deleted)"
      by (rule commit_object_tx_success)
    have keys: "keys_ok s" using inv by (simp add: store_inv_def)
    note s1r = updateSegmentOffsets_result [OF s1 keys]
    have "store_inv s2"
    proof (rule commit_pending_inv [OF inv s1r(1,3) _ s1r(6) s2])
      show "complete_with (stream_segments ?st s1) (commit_row opts (stream_segments ?st s) q)" for q
        unfolding s1r(5)
        by (rule complete_set_offset [OF stream_segments_distinct [OF keys]]) (simp_all add: commit_row_simps)
    qed (simp_all add: s1r(4) commit_row_simps)
    with delete_versions_inv [OF _ del] show ?thesis by blast
  qed
  then show ?thesis
    unfolding CommitObject_def using inv by (auto split: sum.split intro!: with_tx_inv)
qed

subsection \<open>Committing a choice of segments\<close>

definition event_commits :: "(SegmentPosition option \<times> segmentInfoForCommit option) list \<Rightarrow> segmentInfoForCommit list" where
  "event_commits evs = [b. (Some a, Some b) \<leftarrow> evs]"

definition event_deletes :: "(SegmentPosition option \<times> segmentInfoForCommit option) list \<Rightarrow> segmentInfoForCommit list" where
  "event_deletes evs = [b. (None, Some b) \<leftarrow> evs]"

lemma event_simps [simp]:
  "event_commits ((Some a, Some b) # evs) = b # event_commits evs"
  "event_commits ((None, y) # evs) = event_commits evs"
  "event_commits ((x, None) # evs) = event_commits evs"
  "event_deletes ((None, Some b) # evs) = b # event_deletes evs"
  "event_deletes ((Some a, y) # evs) = event_deletes evs"
  "event_deletes ((x, None) # evs) = event_deletes evs"
  "event_commits [] = []" "event_deletes [] = []"
  by (auto simp: event_commits_def event_deletes_def split: option.splits)

text \<open>Whatever the order of the two lists, every database segment is committed or deleted.\<close>

lemma diff_partition:
  "distinct bs \<Longrightarrow>
   filter (\<lambda>b. b \<in> set (event_commits (diffSegmentsWithDatabase as bs))) bs
     = event_commits (diffSegmentsWithDatabase as bs) \<and>
   filter (\<lambda>b. b \<notin> set (event_commits (diffSegmentsWithDatabase as bs))) bs
     = event_deletes (diffSegmentsWithDatabase as bs) \<and>
   (\<forall>a b. (Some a, Some b) \<in> set (diffSegmentsWithDatabase as bs) \<longrightarrow> a = info_Position b)"
proof (induction as bs rule: diffSegmentsWithDatabase.induct)
  case (1 a as b bs)
  have bs: "distinct bs" "b \<notin> set bs" using "1.prems" by auto
  consider (eq) "a = info_Position b" | (less) "a \<noteq> info_Position b" "SegmentPosition_Less a (info_Position b)"
    | (greater) "a \<noteq> info_Position b" "\<not> SegmentPosition_Less a (info_Position b)" by blast
  then show ?case
  proof cases
    case eq
    let ?c = "event_commits (diffSegmentsWithDatabase as bs)"
    have "filter (\<lambda>x. x \<in> set (b # ?c)) bs = filter (\<lambda>x. x \<in> set ?c) bs"
      "filter (\<lambda>x. x \<notin> set (b # ?c)) bs = filter (\<lambda>x. x \<notin> set ?c) bs"
      using bs(2) by (auto intro!: filter_cong)
    then show ?thesis using "1.IH"(1) [OF eq bs(1)] eq by auto
  next
    case less
    then show ?thesis using "1.IH"(2) [OF less "1.prems"] by simp
  next
    case greater
    let ?c = "event_commits (diffSegmentsWithDatabase (a # as) bs)"
    have "set ?c \<subseteq> set bs" using "1.IH"(3) [OF greater bs(1)] by (metis filter_is_subset)
    then have "b \<notin> set ?c" using bs(2) by blast
    then show ?thesis using "1.IH"(3) [OF greater bs(1)] greater by auto
  qed
next
  case (2 as)
  show ?case by (induction as) auto
next
  case (3 b bs)
  have "event_commits (map (\<lambda>b. (None, Some b)) xs) = []" "event_deletes (map (\<lambda>b. (None, Some b)) xs) = xs" for xs
    by (induction xs) auto
  from this [of "b # bs"] show ?case by (simp only: diffSegmentsWithDatabase.simps) auto
qed

lemma commits_of_events:
  "(\<forall>a b. (Some a, Some b) \<in> set evs \<longrightarrow> a = info_Position b) \<Longrightarrow>
   [to_commit a b. (Some a, Some b) \<leftarrow> evs] = convertToFinalSegments (event_commits evs)"
  "[info_Position b. (None, Some b) \<leftarrow> evs] = map info_Position (event_deletes evs)"
proof (induction evs)
  case (Cons ev evs)
  {
    case 1
    then show ?case using Cons.IH(1)
      by (cases ev; cases "fst ev"; cases "snd ev") (auto simp: convertToFinalSegments_def)
  next
    case 2
    then show ?case using Cons.IH(2) by (cases ev; cases "fst ev"; cases "snd ev") auto
  }
qed (simp_all add: convertToFinalSegments_def)

lemma determineCommitActions_partition:
  assumes "determineCommitActions as bs = Inr (fin, del)" "distinct (map info_Position bs)"
  shows "fin = filter (\<lambda>u. commit_Position u \<notin> set del) (convertToFinalSegments bs)"
proof -
  let ?evs = "diffSegmentsWithDatabase as bs"
  have "distinct bs" using assms(2) by (simp add: distinct_map)
  note part = diff_partition [OF this, of as]
  have fin: "fin = convertToFinalSegments (event_commits ?evs)"
    and del: "del = map info_Position (event_deletes ?evs)"
    using assms(1) part commits_of_events [of ?evs]
    by (auto simp: determineCommitActions_def fold_commit_callback split: if_splits)
  have "info_Position b \<notin> set del \<longleftrightarrow> b \<in> set (event_commits ?evs)" if b: "b \<in> set bs" for b
  proof -
    have "event_deletes ?evs = filter (\<lambda>b. b \<notin> set (event_commits ?evs)) bs" using part by simp
    then have "set del = info_Position ` {b \<in> set bs. b \<notin> set (event_commits ?evs)}"
      by (simp add: del)
    then show ?thesis using b assms(2) by (auto simp: distinct_map inj_on_def)
  qed
  then have "filter (\<lambda>b. info_Position b \<notin> set del) bs = event_commits ?evs"
    using part by (metis (mono_tags, lifting) filter_cong)
  then show ?thesis
    by (simp add: fin convertToFinalSegments_def filter_map comp_def to_commit_def)
qed

lemma fetch_delete_positions:
  "fetchSegmentsForCommit stream
     (s\<lparr>segments := sql_delete (\<lambda>g. seg_StreamID g = stream \<and> seg_Position g \<in> D) (segments s)\<rparr>)
   = filter (\<lambda>i. info_Position i \<notin> D) (fetchSegmentsForCommit stream s)"
proof -
  have "filter (\<lambda>g. seg_StreamID g = stream)
      (sql_delete (\<lambda>g. seg_StreamID g = stream \<and> seg_Position g \<in> D) xs)
    = filter (\<lambda>g. seg_Position g \<notin> D) (filter (\<lambda>g. seg_StreamID g = stream) xs)" for xs :: "Segment list"
    by (auto simp: sql_delete_def intro!: filter_cong)
  then have "fetchSegmentsForCommit stream
      (s\<lparr>segments := sql_delete (\<lambda>g. seg_StreamID g = stream \<and> seg_Position g \<in> D) (segments s)\<rparr>)
    = map segment_info (filter (\<lambda>g. seg_Position g \<notin> D)
        (order_by_position (filter (\<lambda>g. seg_StreamID g = stream) (segments s))))"
    unfolding fetchSegmentsForCommit_def order_by_position_def filter_sort by simp
  then show ?thesis
    by (simp add: fetchSegmentsForCommit_def filter_map comp_def segment_info_def)
qed

lemma scan_deleted_tables: "scan_deleted_segments gs acc s = (s', r) \<Longrightarrow> same_tables s s'"
proof (induction gs acc s rule: scan_deleted_segments.induct)
  case (2 g gs acc s)
  then show ?case
    by (auto split: sum.splits prod.splits if_splits dest: store_ConvertAliases_tables intro: same_tables_trans)
qed simp

lemma deleteSegmentsNotInCommit_result:
  assumes "deleteSegmentsNotInCommit stream ps s = (s', Inr deleted)"
  shows "same_tables (s\<lparr>segments := sql_delete (\<lambda>g. seg_StreamID g = stream \<and> seg_Position g \<in> set ps)
    (segments s)\<rparr>) s'"
proof (cases "ps = []")
  case True
  then show ?thesis using assms by (simp add: deleteSegmentsNotInCommit_def same_tables_def sql_delete_def)
next
  case False
  then show ?thesis
    using assms by (auto simp: deleteSegmentsNotInCommit_def Let_def dest: scan_deleted_tables)
qed

lemma commit_with_segments_row_simps:
  "object_key (commit_with_segments_row opts us q) = object_key q"
  "StreamID (commit_with_segments_row opts us q) = StreamID q"
  "SegmentCount (commit_with_segments_row opts us q) = int (length us)"
  "TotalPlainSize (commit_with_segments_row opts us q) = totalPlainSize us"
  "TotalEncryptedSize (commit_with_segments_row opts us q) = totalEncryptedSize us"
  "FixedSegmentSize (commit_with_segments_row opts us q) = fixedSegmentSize us"
  by (simp_all add: commit_with_segments_row_def object_key_def)

lemma CommitObjectWithSegments_inv:
  assumes inv: "store_inv s"
  shows "store_inv (fst (CommitObjectWithSegments opts s))"
proof -
  have "store_inv s3" if tx: "commit_with_segments_tx opts s = (s3, Inr (r, deleted))" for s3 r deleted
  proof -
    let ?st = "StreamID (cw_Stream opts)"
    from tx obtain fin del s1 s2 rest where
      act: "determineCommitActions (cw_Segments opts) (fetchSegmentsForCommit ?st s) = Inr (fin, del)"
      and s1: "updateSegmentOffsets ?st fin s = (s1, Inr ())"
      and s2: "deleteSegmentsNotInCommit ?st del s1 = (s2, Inr deleted)"
      and s3: "update_pending (cw_Stream opts) (commit_with_segments_row opts fin) s2 = (s3, r # rest)"
      by (auto simp: commit_with_segments_tx_def Let_def split: sum.splits prod.splits if_splits list.splits)
    have keys: "keys_ok s" using inv by (simp add: store_inv_def)
    note s1r = updateSegmentOffsets_result [OF s1 keys]
    define D :: "Segment \<Rightarrow> bool" where "D = (\<lambda>g. seg_StreamID g = ?st \<and> seg_Position g \<in> set del)"
    have t: "objects s2 = objects s" "copies s2 = copies s1" "segments s2 = sql_delete D (segments s1)"
      using deleteSegmentsNotInCommit_result [OF s2] by (simp_all add: same_tables_def D_def s1r)
    have fin: "fin = filter (\<lambda>u. commit_Position u \<notin> set del) (stream_segments ?st s)"
      unfolding stream_segments_def
      by (rule determineCommitActions_partition [OF act fetch_positions_distinct [OF keys]])
    have dist: "distinct (map commit_Position fin)"
      using stream_segments_distinct [OF keys] unfolding fin by (rule distinct_map_filter)
    have f2: "fetchSegmentsForCommit ?st s2
        = filter (\<lambda>i. info_Position i \<notin> set del) (fetchSegmentsForCommit ?st s1)"
      using fetch_delete_positions [of ?st "set del" s1] t(3)
      by (simp add: fetchSegmentsForCommit_def D_def)
    have "stream_segments ?st s2
        = filter (\<lambda>u. commit_Position u \<notin> set del) (stream_segments ?st s1)"
      by (simp add: stream_segments_def f2 convertToFinalSegments_def filter_map comp_def to_commit_def)
    then have seg2: "stream_segments ?st s2 = map (set_offset (offset_batch 0 fin)) fin"
      by (simp add: s1r(5) fin filter_map comp_def)
    have keys2: "keys_ok s2"
      using s1r(1,3) t by (auto simp: keys_ok_def)
    have "store_inv s3"
    proof (rule commit_pending_inv [OF inv t(1) keys2 _ _ s3])
      show "seg_StreamID ` set (segments s2) \<subseteq> seg_StreamID ` set (segments s)"
        using s1r(4) by (auto simp: t(3) sql_simps)
      show "fetchSegmentsForCommit st s2 = fetchSegmentsForCommit st s" if "st \<noteq> ?st" for st
      proof -
        have "fetchSegmentsForCommit st s2 = fetchSegmentsForCommit st s1"
          unfolding fetchSegmentsForCommit_def t(3)
          by (subst filter_sql_delete_other) (use that in \<open>auto simp: D_def\<close>)
        then show ?thesis using s1r(6) [OF that] by simp
      qed
      show "complete_with (stream_segments ?st s2) (commit_with_segments_row opts fin q)" for q
        unfolding seg2 by (rule complete_set_offset [OF dist]) (simp_all add: commit_with_segments_row_simps)
    qed (simp_all add: commit_with_segments_row_simps)
    then show ?thesis .
  qed
  then show ?thesis
    unfolding CommitObjectWithSegments_def using inv by (auto split: sum.split intro!: with_tx_inv)
qed

subsection \<open>Moving, copying, updating\<close>

lemma objects_update_inv:
  assumes inv: "store_inv s" and "objects s' = sql_update C f (objects s)" and "keys_ok s'"
    and f: "\<And>q us. complete_with us (f q) \<longleftrightarrow> complete_with us q" "\<And>q. StreamID (f q) = StreamID q"
      "\<And>q. Status (f q) = Status q"
    and "\<And>st. fetchSegmentsForCommit st s' = fetchSegmentsForCommit st s"
    and "seg_StreamID ` set (segments s') = seg_StreamID ` set (segments s)"
  shows "store_inv s'"
proof -
  have "StreamID ` set (objects s') = StreamID ` set (objects s)"
    by (simp add: assms(2) image_sql_update f)
  then have "segments_owned s'" using inv assms(8) by (simp add: store_inv_def segments_owned_def)
  moreover have "complete_with (stream_segments (StreamID q) s') q"
    if q: "q \<in> set (objects s')" "Status q = Committed" for q
  proof -
    obtain p where p: "p \<in> set (objects s)" "q = (if C p then f p else p)"
      using q(1) by (auto simp: assms(2) sql_simps)
    then have "Status p = Committed" "StreamID q = StreamID p" "complete_with us q \<longleftrightarrow> complete_with us p" for us
      using q(2) f by (auto split: if_splits)
    then show ?thesis using still_complete [OF inv p(1)] assms(7) by simp
  qed
  ultimately show ?thesis using assms(3) by (simp add: store_inv_def committed_complete_def)
qed

lemma FinishMoveObject_inv:
  assumes inv: "store_inv s"
  shows "store_inv (fst (FinishMoveObject cfg nc opts s))"
proof -
  have "store_inv s'" if tx: "finish_move_tx cfg nc opts s = (s', Inr u)" for s' u
  proof -
    let ?C = "exact_version (fm_Stream opts) (Version (fm_Stream opts))"
    from tx obtain version where
      rows: "objects s' = sql_update ?C (move_row nc opts version) (objects s)"
      and u: "unique_key object_key (objects s')"
      and segs: "segments s' = rekey_segments (StreamID (fm_Stream opts)) (fm_NewSegmentKeys opts) (segments s)"
      and cp: "copies s' = copies s"
      by (auto simp: finish_move_tx_def Let_def split: sum.splits prod.splits if_splits list.splits)
    let ?Q = "\<lambda>g. seg_StreamID g = StreamID (fm_Stream opts) \<and>
      seg_Position g \<in> key_Position ` set (fm_NewSegmentKeys opts)"
    let ?h = "\<lambda>g. case find (\<lambda>k. key_Position k = seg_Position g) (fm_NewSegmentKeys opts) of
        None \<Rightarrow> g | Some k \<Rightarrow> g\<lparr>seg_EncryptedKeyNonce := key_EncryptedKeyNonce k,
            seg_EncryptedKey := key_EncryptedKey k\<rparr>"
    have segs': "segments s' = sql_update ?Q ?h (segments s)" by (simp add: segs rekey_segments_def)
    have h: "segment_info (?h g) = segment_info g \<and> seg_StreamID (?h g) = seg_StreamID g" for g
      by (auto simp: segment_info_def split: option.split)
    have "unique_key segment_key (segments s')"
      unfolding segs' by (rule unique_key_update)
        (use inv in \<open>auto simp: store_inv_def keys_ok_def segment_key_def split: option.split\<close>)
    moreover have "unique_key StreamID (objects s')"
      unfolding rows by (rule unique_key_update)
        (use inv in \<open>auto simp: store_inv_def keys_ok_def move_row_def\<close>)
    ultimately have keys: "keys_ok s'" using inv u cp by (simp add: store_inv_def keys_ok_def)
    show ?thesis
    proof (rule objects_update_inv [OF inv rows keys])
      show "fetchSegmentsForCommit st s' = fetchSegmentsForCommit st s" for st
        using fetch_update_same [OF h, where s = s and stream = st] by (simp add: fetchSegmentsForCommit_def segs')
      show "seg_StreamID ` set (segments s') = seg_StreamID ` set (segments s)"
        unfolding segs' by (rule image_sql_update) (simp add: h)
    qed (auto simp: move_row_def complete_with_def)
  qed
  then show ?thesis
    unfolding FinishMoveObject_def using inv by (auto split: sum.split intro!: with_tx_inv)
qed

lemma UpdateObjectMetadata_inv:
  assumes inv: "store_inv s"
  shows "store_inv (fst (UpdateObjectMetadata now opts s))"
proof -
  let ?C = "\<lambda>r. last_committed now (um_Location opts) (objects s) r \<and>
    StreamID r = um_StreamID opts \<and> Status r = Committed"
  let ?f = "\<lambda>r. r\<lparr>EncryptedMetadataNonce := um_EncryptedMetadataNonce opts,
    EncryptedMetadata := um_EncryptedMetadata opts,
    EncryptedMetadataEncryptedKey := um_EncryptedMetadataEncryptedKey opts\<rparr>"
  let ?s = "s\<lparr>objects := sql_update ?C ?f (objects s)\<rparr>"
  have "unique_key object_key (objects ?s)" "unique_key StreamID (objects ?s)"
    using inv by (auto simp: store_inv_def keys_ok_def object_key_def intro!: unique_key_update)
  then have "keys_ok ?s" using inv by (simp add: store_inv_def keys_ok_def)
  then have "store_inv ?s"
    by (intro objects_update_inv [OF inv, where s' = ?s and C = ?C and f = ?f])
      (auto simp: complete_with_def fetchSegmentsForCommit_def)
  then show ?thesis using inv by (auto simp: UpdateObjectMetadata_def Let_def split: sum.split)
qed

lemma UpdateSegmentPieces_inv:
  assumes inv: "store_inv s"
  shows "store_inv (fst (UpdateSegmentPieces opts s))"
proof (cases "UpdateSegmentPieces_Verify opts")
  case (Inr u)
  obtain s1 r1 where e1: "store_EnsurePieces (up_OldPieces opts) s = (s1, r1)" by fastforce
  obtain s2 r2 where e2: "store_EnsurePieces (up_NewPieces opts) s1 = (s2, r2)" by fastforce
  have inv1: "store_inv s1" "store_inv s2"
    using inv same_tables_keep store_EnsurePieces_tables e1 e2 by blast+
  have "store_inv (s2\<lparr>segments := sql_update P (update_pieces_row ov nv red t) (segments s2)\<rparr>)"
    (is "store_inv ?s") for P ov nv red t
  proof (rule segments_update_inv [OF inv1(2)])
    have "unique_key segment_key (segments ?s)"
      using inv1(2) by (auto simp: store_inv_def keys_ok_def update_pieces_row_def segment_key_def
          intro!: unique_key_update)
    then show "keys_ok ?s" using inv1(2) by (simp add: store_inv_def keys_ok_def)
    show "segments ?s = sql_update P (update_pieces_row ov nv red t) (segments s2)" by simp
  qed (auto simp: update_pieces_row_def segment_info_def)
  then show ?thesis
    using inv1 Inr e1 e2 by (auto simp: UpdateSegmentPieces_def Let_def split: sum.split list.split)
qed (simp add: UpdateSegmentPieces_def inv)

lemma highest_version_member:
  assumes "highest_version loc rows = Some v"
  shows "\<exists>r \<in> set rows. same_location loc r \<and> Version r = v"
proof -
  obtain r rs where f: "filter (same_location loc) rows = r # rs"
    and v: "v = fold (\<lambda>x v. max v (Version x)) rs (Version r)"
    using assms by (auto simp: highest_version_def split: list.splits)
  have "fold (\<lambda>x v. max v (Version x)) rs w \<in> insert w (Version ` set rs)" for w
    by (induction rs arbitrary: w) (auto simp: max_def)
  then have "v \<in> Version ` set (r # rs)" unfolding v by fastforce
  then show ?thesis by (auto simp flip: f)
qed

text \<open>Whatever row is read as the source of a copy, it has the counts of a committed object with
  the requested stream.\<close>

lemma copy_source_row:
  assumes inv: "store_inv s" and "getObjectAtCopySourceAndDestination opts s = Inr (src, ancestor, dst, next)"
  shows "StreamID src = StreamID (fc_Stream opts) \<and>
    (\<exists>r \<in> set (objects s). Status r = Committed \<and> StreamID r = StreamID src \<and>
       (\<forall>us. complete_with us r \<longrightarrow> complete_with us src))"
proof -
  let ?obj = "fc_Stream opts"
  let ?dest = "target_location ?obj (fc_NewBucket opts) (fc_NewEncryptedObjectKey opts)"
  show ?thesis
  proof (cases "filter (\<lambda>r. exact_version ?obj (Version ?obj) r \<and> Status r = Committed) (objects s)")
    case (Cons r rs)
    then have "r \<in> set (objects s)" "Status r = Committed" by (auto dest: filter_eq_ConsD)
    moreover have "src = copy_source r" "StreamID r = StreamID ?obj"
      using assms(2) Cons by (auto simp: getObjectAtCopySourceAndDestination_def Let_def split: if_splits)
    ultimately show ?thesis by (auto simp: copy_source_def complete_with_def)
  next
    case Nil
    then obtain v d where v: "highest_version ?dest (filter (\<lambda>r. Status r = Committed) (objects s)) = Some v"
      and d: "find (exact_version ?dest v) (objects s) = Some d" "StreamID d = StreamID ?obj"
      and src: "src = copy_source (d\<lparr>BucketName := BucketName ?obj, ObjectKey := ObjectKey ?obj,
        Version := Version ?obj, EncryptedMetadata := None\<rparr>)"
      using assms(2)
      by (auto simp: getObjectAtCopySourceAndDestination_def Let_def split: option.splits if_splits)
    obtain q where q: "q \<in> set (objects s)" "Status q = Committed" "same_location ?dest q" "Version q = v"
      using highest_version_member [OF v] by auto
    have d': "d \<in> set (objects s)" "exact_version ?dest v d" using d(1) by (auto simp: find_Some_iff)
    have "object_key d = object_key q"
      using q d'(2) by (auto simp: exact_version_def same_location_def object_key_def)
    then have "d = q" using inv d'(1) q(1) by (auto simp: store_inv_def keys_ok_def dest: unique_keyD)
    then show ?thesis using d'(1) q(2) d(2) by (auto simp: src copy_source_def complete_with_def)
  qed
qed

lemma clear_destination_inv:
  assumes "store_inv s" "clear_destination cfg opts dst a s = (s1, Inr a')"
  shows "store_inv s1 \<and> set (objects s1) \<subseteq> set (objects s)"
  using assms delete_serverside_copy_inv [OF assms(1)]
  by (auto simp: clear_destination_def sql_simps split: option.splits prod.splits sum.splits if_splits list.splits)

lemma order_sorted:
  "sorted (map (\<lambda>g. sint (SegmentPosition_Encode (seg_Position g))) gs) \<Longrightarrow> order_by_position gs = gs"
  by (simp add: order_by_position_def sort_key_id_if_sorted)

lemma copied_segments:
  assumes "map key_Position ks = map seg_Position gs"
  shows "map segment_info (map2 (copy_segment now st) ks gs) = map segment_info gs"
    "map seg_Position (map2 (copy_segment now st) ks gs) = map seg_Position gs"
    "\<forall>g \<in> set (map2 (copy_segment now st) ks gs). seg_StreamID g = st"
proof -
  have l: "length ks = length gs" using assms by (metis length_map)
  have k: "i < length gs \<Longrightarrow> key_Position (ks ! i) = seg_Position (gs ! i)" for i
    using assms l by (metis nth_map)
  show "map segment_info (map2 (copy_segment now st) ks gs) = map segment_info gs"
    "map seg_Position (map2 (copy_segment now st) ks gs) = map seg_Position gs"
    using l k by (auto simp: list_eq_iff_nth_eq segment_info_def copy_segment_def)
  show "\<forall>g \<in> set (map2 (copy_segment now st) ks gs). seg_StreamID g = st"
    by (auto simp: copy_segment_def)
qed

lemma filter_append_right: "\<forall>x \<in> set xs. \<not> P x \<Longrightarrow> \<forall>y \<in> set ys. P y \<Longrightarrow> filter P (xs @ ys) = ys"
  by simp

lemma filter_append_left: "\<forall>y \<in> set ys. \<not> P y \<Longrightarrow> filter P (xs @ ys) = filter P xs"
  by simp

lemma finish_copy_tx_inv:
  assumes inv: "store_inv s" and fresh: "fresh_stream (fc_NewStreamID opts) s"
    and tx: "finish_copy_tx cfg nc vl now opts s = (s', Inr r)"
  shows "store_inv s'"
proof -
  let ?st = "fc_NewStreamID opts"
  obtain src ancestor dst next_version where
    get: "getObjectAtCopySourceAndDestination opts s = Inr (src, ancestor, dst, next_version)"
    using tx by (auto simp: finish_copy_tx_def split: sum.splits)
  let ?segs = "copy_source_segments src s" and ?ks = "fc_NewSegmentKeys opts"
  have "s' = s \<or> (\<exists>s1 a version. map key_Position ?ks = map seg_Position ?segs \<and>
      int (length ?segs) = SegmentCount src \<and> clear_destination cfg opts dst ancestor s = (s1, Inr a) \<and>
      insert_copy nc now opts src version ?segs a s1 = (s', Inr r))"
    using tx get by (auto simp: finish_copy_tx_def Let_def split: sum.splits prod.splits if_splits)
  then show ?thesis
  proof
    assume "s' = s"
    with inv show ?thesis by simp
  next
    assume "\<exists>s1 a version. map key_Position ?ks = map seg_Position ?segs \<and>
      int (length ?segs) = SegmentCount src \<and> clear_destination cfg opts dst ancestor s = (s1, Inr a) \<and>
      insert_copy nc now opts src version ?segs a s1 = (s', Inr r)"
    then obtain s1 a version where ks: "map key_Position ?ks = map seg_Position ?segs"
      and cl: "clear_destination cfg opts dst ancestor s = (s1, Inr a)"
      and ins: "insert_copy nc now opts src version ?segs a s1 = (s', Inr r)" by blast
    have inv1: "store_inv s1" and sub: "set (objects s1) \<subseteq> set (objects s)"
      using clear_destination_inv [OF inv cl] by auto
    obtain q where q: "q \<in> set (objects s)" "Status q = Committed" "StreamID q = StreamID src"
      "\<And>us. complete_with us q \<Longrightarrow> complete_with us src"
      using copy_source_row [OF inv get] by blast
    have comp: "complete_with (stream_segments (StreamID src) s) src"
      using inv q by (auto simp: store_inv_def committed_complete_def)
    then have "SegmentCount src = int (length (segs_of (StreamID src) s))"
      by (simp add: complete_with_def stream_segments_def fetch_segs_of convertToFinalSegments_def)
    then have segs: "?segs = order_by_position (segs_of (StreamID src) s)"
      by (simp add: copy_source_segments_def segs_of_def)
    let ?new = "map2 (copy_segment now ?st) ?ks ?segs" and ?row = "copy_row nc now opts src version"
    note new = copied_segments [OF ks, of now ?st]
    have s': "objects s' = objects s1 @ [?row]" "segments s' = segments s1 @ ?new"
      "unique_key segment_key (segments s')" "object_key ?row \<notin> object_key ` set (objects s1)"
      "unique_key copy_StreamID (copies s')" "\<forall>c \<in> set (copies s'). copy_StreamID c \<noteq> copy_AncestorStreamID c"
      using ins inv1
      by (auto simp: insert_copy_def Let_def sql_insert_def store_inv_def keys_ok_def
          intro!: unique_key_snoc split: if_splits option.splits)
    have fresh1: "?st \<notin> StreamID ` set (objects s1)" using fresh sub by (auto simp: fresh_stream_def)
    have none: "seg_StreamID g \<noteq> ?st" if "g \<in> set (segments s1)" for g
    proof -
      have "seg_StreamID g \<in> StreamID ` set (objects s1)"
        using that inv1 by (auto simp: store_inv_def segments_owned_def)
      then show ?thesis using fresh1 by auto
    qed
    have "sorted (map (\<lambda>g. sint (SegmentPosition_Encode (seg_Position g))) ?segs)"
      unfolding segs by (simp add: order_by_position_def)
    then have "sorted (map (\<lambda>p. sint (SegmentPosition_Encode p)) (map seg_Position ?new))"
      unfolding new(2) by (simp add: comp_def)
    then have e2: "order_by_position ?new = ?new" by (intro order_sorted) (simp add: comp_def)
    have "filter (\<lambda>g. seg_StreamID g = ?st) (segments s') = ?new"
      unfolding s'(2) by (rule filter_append_right [OF _ new(3)]) (use none in blast)
    then have e1: "segs_of ?st s' = ?new" by (simp only: segs_of_def)
    have "fetchSegmentsForCommit ?st s' = fetchSegmentsForCommit (StreamID src) s"
      by (simp only: fetch_segs_of e1 e2 new(1)) (simp only: segs)
    then have seg': "stream_segments ?st s' = stream_segments (StreamID src) s" by (simp add: stream_segments_def)
    show ?thesis
    proof (rule add_object_inv [OF inv1 s'(4) _ s'(1)])
      show "StreamID ?row \<notin> StreamID ` set (objects s1)" using fresh1 by (simp add: copy_row_def)
      show "keys_ok (s'\<lparr>objects := objects s1\<rparr>)"
        using s' inv1 by (simp add: store_inv_def keys_ok_def)
      show "fetchSegmentsForCommit (StreamID p) s' = fetchSegmentsForCommit (StreamID p) s1"
        if "p \<in> set (objects s1)" for p
      proof -
        have "\<forall>g \<in> set ?new. seg_StreamID g \<noteq> StreamID p" using that fresh1 new(3) by auto
        from filter_append_left [OF this] show ?thesis by (simp only: fetchSegmentsForCommit_def s'(2))
      qed
      show "complete_with (stream_segments (StreamID ?row) s') ?row"
        using comp seg' by (simp add: copy_row_def complete_with_def)
      show "seg_StreamID ` set (segments s') \<subseteq> insert (StreamID ?row) (seg_StreamID ` set (segments s1))"
        using new(3) by (auto simp: s'(2) copy_row_def)
    qed
  qed
qed

lemma FinishCopyObject_inv:
  assumes "store_inv s" "fresh_stream (fc_NewStreamID opts) s"
  shows "store_inv (fst (FinishCopyObject cfg nc vl nb now opts s))"
proof -
  obtain s' r where e: "with_tx (finish_copy_tx cfg nc vl now opts) s = (s', r)" by fastforce
  have "store_inv s'"
    using with_tx_inv [OF assms(1), of "finish_copy_tx cfg nc vl now opts"] finish_copy_tx_inv [OF assms] e
    by fastforce
  then show ?thesis using e assms(1) by (auto simp: FinishCopyObject_def split: sum.splits)
qed

subsection \<open>Background deletion\<close>

text \<open>A statement pair keeps the invariant when the stream it names belongs to the row it names
  or to no row at all.\<close>

definition stream_at :: "ObjectStream \<Rightarrow> store \<Rightarrow> bool" where
  "stream_at obj s \<longleftrightarrow> (\<forall>r \<in> set (objects s). StreamID r = StreamID obj \<longrightarrow> names_row obj r)"

lemma delete_stream_inv:
  assumes inv: "store_inv s" and at: "stream_at obj s"
  shows "store_inv (delete_object_and_segments obj s)"
proof -
  have same: "(\<forall>g \<in> set (segments s). seg_StreamID g = StreamID obj \<longleftrightarrow> seg_StreamID g \<in> deleted_streams (names_row obj) s)"
  proof
    fix g assume "g \<in> set (segments s)"
    then obtain r where r: "r \<in> set (objects s)" "StreamID r = seg_StreamID g"
      using inv by (force simp: store_inv_def segments_owned_def)
    then show "seg_StreamID g = StreamID obj \<longleftrightarrow> seg_StreamID g \<in> deleted_streams (names_row obj) s"
      using at by (force simp: deleted_streams_def sql_simps stream_at_def names_row_def)
  qed
  show ?thesis
  proof (rule delete_inv [OF inv, where P = "names_row obj" and Q = "\<lambda>_. False"])
    show "segments (delete_object_and_segments obj s)
        = sql_delete (\<lambda>g. seg_StreamID g \<in> deleted_streams (names_row obj) s) (segments s)"
      using same by (auto simp: delete_object_and_segments_def sql_delete_def intro!: filter_cong)
  qed (simp_all add: delete_object_and_segments_def sql_delete_def)
qed

lemma delete_inactive_cases:
  "delete_inactive_object t obj s = s \<or> delete_inactive_object t obj s = delete_object_and_segments obj s"
proof (cases "recent_segment t (StreamID obj) s")
  case True
  then have "\<exists>g \<in> set (segments s). seg_StreamID g = StreamID obj" by (auto simp: recent_segment_def)
  with True show ?thesis by (simp add: delete_inactive_object_def sql_delete_def)
next
  case False
  then show ?thesis by (simp add: delete_inactive_object_def delete_object_and_segments_def)
qed

lemma stream_at_subset: "set (objects s') \<subseteq> set (objects s) \<Longrightarrow> stream_at obj s \<Longrightarrow> stream_at obj s'"
  by (auto simp: stream_at_def)

lemma delete_batch_inv:
  assumes "store_inv s" "\<forall>r \<in> set rows. stream_at (object_stream r) s"
  shows "store_inv (delete_batch inactive rows s)"
proof -
  have "store_inv (fold f rs s)"
    if "\<And>obj s. store_inv s \<Longrightarrow> stream_at obj s \<Longrightarrow> store_inv (f obj s)"
      and "\<And>obj s. set (objects (f obj s)) \<subseteq> set (objects s)"
      and "store_inv s" "\<forall>obj \<in> set rs. stream_at obj s" for f and rs :: "ObjectStream list" and s
    using that(3,4)
  proof (induction rs arbitrary: s)
    case (Cons obj rs)
    have "\<forall>o' \<in> set rs. stream_at o' (f obj s)"
      using Cons.prems(2) stream_at_subset [OF that(2)] by auto
    with Cons that(1) show ?case by simp
  qed simp
  note fold_inv = this
  have sub: "set (objects (delete_object_and_segments obj s)) \<subseteq> set (objects s)" for obj s
    by (auto simp: delete_object_and_segments_def sql_simps)
  have "store_inv (delete_inactive_object t obj s)" if "store_inv s" "stream_at obj s" for t obj s
    using delete_inactive_cases [of t obj s] delete_stream_inv [OF that] that by auto
  moreover have "set (objects (delete_inactive_object t obj s)) \<subseteq> set (objects s)" for t obj s
    using delete_inactive_cases [of t obj s] sub [of obj s] by auto
  ultimately show ?thesis
    using assms fold_inv [OF delete_stream_inv sub] fold_inv [of "delete_inactive_object t" for t]
    by (auto simp: delete_batch_def deleteObjectsAndSegments_def deleteInactiveObjectsAndSegments_def
        split: option.split)
qed

lemma select_batch_at:
  "store_inv s \<Longrightarrow> r \<in> set (select_batch P k n s) \<Longrightarrow> r \<in> set (objects s) \<and> P r \<and> k < object_key r \<and>
     stream_at (object_stream r) s"
proof -
  assume inv: "store_inv s" and "r \<in> set (select_batch P k n s)"
  then have r: "r \<in> set (objects s)" "P r" "k < object_key r"
    by (auto simp: select_batch_def dest!: in_set_takeD)
  then show ?thesis
    using stream_unique [OF inv] by (auto simp: stream_at_def object_stream_def names_row_def same_location_def)
qed

subsection \<open>Reachable stores\<close>

text \<open>One operation of the database; an operation that brings a stream id brings a fresh one.
  \<open>single_step\<close> holds every operation, two of them under the condition that lets them keep at
  most one committed version at a location: \<open>CommitObjectWithSegments\<close>, which leaves earlier
  versions in place, at a location without a committed version, and a copy whose source is
  still where it was begun. \<open>meta_step\<close> adds these two without the conditions.

  The deletion of expired and abandoned objects selects a batch with one statement, which may
  read an older state (\<open>AS OF SYSTEM TIME\<close>), and deletes it with later ones. Its step,
  \<open>delete_selected\<close>, is the deletion of an arbitrary batch: whatever was selected, whenever, and
  whatever happened to the objects in between, but for one thing: an object that still exists is
  where it was selected. The statements delete the row by its location and the segments by
  their stream, so an object moved in between loses its segments and keeps its row
  (\<open>stale_selection_of_moved\<close> in \<open>MetaSweep\<close>).\<close>

definition source_in_place :: "FinishCopyOpts \<Rightarrow> store \<Rightarrow> bool" where
  "source_in_place fc s \<longleftrightarrow>
     (\<exists>r \<in> set (objects s). exact_version (fc_Stream fc) (Version (fc_Stream fc)) r \<and> Status r = Committed)"

definition none_committed :: "CommitWithSegmentsOpts \<Rightarrow> store \<Rightarrow> bool" where
  "none_committed cw s \<longleftrightarrow>
     (\<forall>r \<in> set (objects s). same_location (cw_Stream cw) r \<longrightarrow> Status r \<noteq> Committed)"

inductive single_step :: "config \<Rightarrow> store \<Rightarrow> store \<Rightarrow> bool" for cfg where
  begin_next: "fresh_stream (StreamID (begin_Stream b)) s \<Longrightarrow>
    single_step cfg s (fst (BeginObjectNextVersion now b s))"
| begin_exact: "fresh_stream (StreamID (begin_Stream b)) s \<Longrightarrow>
    single_step cfg s (fst (BeginObjectExactVersion now b s))"
| commit_segment: "single_step cfg s (fst (CommitSegment now cs s))"
| commit_inline: "single_step cfg s (fst (CommitInlineSegment now ci s))"
| commit_object: "single_step cfg s (fst (CommitObject cfg co s))"
| commit_first: "none_committed cw s \<Longrightarrow> single_step cfg s (fst (CommitObjectWithSegments cw s))"
| delete_exact: "single_step cfg s (fst (DeleteObjectExactVersion cfg v loc s))"
| delete_last: "single_step cfg s (fst (DeleteObjectLastCommitted cfg now loc s))"
| delete_pending: "single_step cfg s (fst (DeletePendingObject obj s))"
| delete_any_status: "single_step cfg s (fst (DeleteObjectAnyStatusAllVersions cfg loc s))"
| delete_all_versions: "single_step cfg s (fst (DeleteObjectsAllVersions cfg locs s))"
| finish_move: "single_step cfg s (fst (FinishMoveObject cfg nc fm s))"
| finish_copy: "fresh_stream (fc_NewStreamID fc) s \<Longrightarrow> source_in_place fc s \<Longrightarrow>
    single_step cfg s (fst (FinishCopyObject cfg nc vl nb now fc s))"
| update_pieces: "single_step cfg s (fst (UpdateSegmentPieces up s))"
| update_metadata: "single_step cfg s (fst (UpdateObjectMetadata now um s))"
| get_segment: "single_step cfg s (fst (GetSegmentByPosition cfg st pos s))"
| get_last_segment: "single_step cfg s (fst (GetLatestObjectLastSegment cfg loc s))"
| delete_selected: "\<forall>r \<in> set rows. stream_at (object_stream r) s \<Longrightarrow>
    single_step cfg s (delete_batch inactive rows s)"

inductive meta_step :: "config \<Rightarrow> store \<Rightarrow> store \<Rightarrow> bool" for cfg where
  single: "single_step cfg s s' \<Longrightarrow> meta_step cfg s s'"
| commit_with_segments: "meta_step cfg s (fst (CommitObjectWithSegments cw s))"
| any_finish_copy: "fresh_stream (fc_NewStreamID fc) s \<Longrightarrow>
    meta_step cfg s (fst (FinishCopyObject cfg nc vl nb now fc s))"

text \<open>A whole sweep run alone is a sequence of these steps.\<close>

lemma delete_batches_steps:
  "store_inv s \<Longrightarrow> (single_step cfg)\<^sup>*\<^sup>* s (delete_batches P inactive n k s)"
proof (induction P inactive n k s rule: delete_batches.induct)
  case (1 P inactive n k s)
  let ?s' = "delete_batch inactive (select_batch P k n s) s"
  have at: "\<forall>r \<in> set (select_batch P k n s). stream_at (object_stream r) s"
    using select_batch_at [OF "1.prems"] by blast
  then have step: "single_step cfg s ?s'" by (rule delete_selected)
  have "(single_step cfg)\<^sup>*\<^sup>* ?s' (delete_batches P inactive n (object_key (last (select_batch P k n s))) ?s')"
    if "\<not> (select_batch P k n s = [] \<or> StreamID (last (select_batch P k n s)) = 0)"
    by (rule "1.IH" [OF refl refl that delete_batch_inv [OF "1.prems" at]])
  with step show ?case
    by (subst delete_batches.simps) (auto simp: Let_def intro: converse_rtranclp_into_rtranclp)
qed

lemma sweep_steps:
  assumes "store_inv s"
  shows "(single_step cfg)\<^sup>*\<^sup>* s (DeleteExpiredObjects t n s)" "(single_step cfg)\<^sup>*\<^sup>* s (DeleteZombieObjects d t n s)"
  unfolding DeleteExpiredObjects_def DeleteZombieObjects_def by (rule delete_batches_steps [OF assms])+

definition empty_store :: store where
  "empty_store = \<lparr>objects = [], segments = [], copies = [], alias_db = empty_table, alias_map = empty_map\<rparr>"

definition reachable :: "config \<Rightarrow> store \<Rightarrow> bool" where
  "reachable cfg s \<longleftrightarrow> (meta_step cfg)\<^sup>*\<^sup>* empty_store s"

lemma load_segment_tables: "same_tables s (fst (load_segment cfg g s))"
proof -
  have upd: "same_tables s (fst (updateWithAncestorSegment g ps s))" for ps s
    by (auto simp: updateWithAncestorSegment_def split: list.split sum.split prod.split
        dest: store_ConvertAliases_tables)
  show ?thesis
    using upd by (auto simp: load_segment_def split: sum.split prod.split
        dest: store_ConvertAliases_tables intro: same_tables_trans)
qed

lemma reads_tables:
  "same_tables s (fst (GetSegmentByPosition cfg st pos s))"
  "same_tables s (fst (GetLatestObjectLastSegment cfg loc s))"
  using load_segment_tables
  by (auto simp: GetSegmentByPosition_def GetLatestObjectLastSegment_def Let_def split: list.split sum.split)

lemma single_step_inv: "single_step cfg s s' \<Longrightarrow> store_inv s \<Longrightarrow> store_inv s'"
proof (induction rule: single_step.induct)
  case (get_segment s st pos)
  then show ?case using same_tables_keep reads_tables by blast
next
  case (get_last_segment s loc)
  then show ?case using same_tables_keep reads_tables by blast
qed (simp_all add: begin_ops_inv CommitSegment_inv CommitInlineSegment_inv CommitObject_inv
    CommitObjectWithSegments_inv delete_ops_inv FinishMoveObject_inv FinishCopyObject_inv
    UpdateSegmentPieces_inv UpdateObjectMetadata_inv delete_batch_inv)

lemma meta_step_inv: "meta_step cfg s s' \<Longrightarrow> store_inv s \<Longrightarrow> store_inv s'"
  by (induction rule: meta_step.induct)
    (simp_all add: single_step_inv CommitObjectWithSegments_inv FinishCopyObject_inv)

lemma empty_store_inv: "store_inv empty_store"
  by (simp add: store_inv_def keys_ok_def segments_owned_def committed_complete_def empty_store_def
      unique_key_def)

lemma reachable_inv: "reachable cfg s \<Longrightarrow> store_inv s"
  unfolding reachable_def
  by (induction rule: rtranclp_induct) (simp_all add: empty_store_inv meta_step_inv)

end
