(* ===== verification/MetaProps.thy ===== *)
theory MetaProps
  imports MetaInvariant
begin

text \<open>
  What the metadata operations promise, stated on the operations of the preceding theories:
  the invariant of every reachable store, at most one committed version per location, what is
  written is read back, the background deletion deletes exactly what it should, and the
  behaviours at the edges (stale selections, overwritten segments, a copy that races a move).
\<close>

subsection \<open>Reading back pieces\<close>

definition alias_ok :: "store \<Rightarrow> bool" where
  "alias_ok s \<longleftrightarrow> table_inv (alias_db s) \<and> map_ok (table_entries (alias_db s)) (alias_map s)"

lemma EnsurePieces_alias_ok:
  assumes "alias_ok s" "store_EnsurePieces ps s = (s', r)"
  shows "alias_ok s' \<and> table_entries (alias_db s) \<subseteq> table_entries (alias_db s')"
proof -
  obtain t m where e: "EnsurePiecesToAliases DB_EnsureNodeAliases DB_ListNodeAliases ps (alias_db s) (alias_map s) = (t, m, r)"
    and s': "s' = s\<lparr>alias_db := t, alias_map := m\<rparr>"
    using assms(2) by (auto simp: store_EnsurePieces_def split: prod.splits)
  show ?thesis
    using alias_db.EnsurePieces_ok [OF _ _ e] assms(1) by (auto simp: alias_ok_def s')
qed

lemma ConvertAliases_roundtrip:
  assumes "alias_ok s" "store_EnsurePieces ps s = (s1, Inr aps)"
    and "alias_ok s2" "table_entries (alias_db s1) \<subseteq> table_entries (alias_db s2)"
  shows "\<exists>s3. store_ConvertAliases aps s2 = (s3, Inr ps) \<and> alias_ok s3 \<and> same_tables s2 s3"
proof -
  obtain t m where e: "EnsurePiecesToAliases DB_EnsureNodeAliases DB_ListNodeAliases ps (alias_db s) (alias_map s)
      = (t, m, Inr aps)" and s1: "alias_db s1 = t"
    using assms(2) by (auto simp: store_EnsurePieces_def split: prod.splits)
  obtain m2 where "ConvertAliasesToPieces DB_ListNodeAliases aps (alias_db s2) (alias_map s2) = (m2, Inr ps)"
    "map_ok (table_entries (alias_db s2)) m2"
    using alias_db.pieces_roundtrip [OF _ _ e, of "alias_db s2" "alias_map s2"] assms(1,3,4) s1
    by (auto simp: alias_ok_def DB_ListNodeAliases_def)
  then show ?thesis
    using assms(3) by (auto simp: store_ConvertAliases_def alias_ok_def same_tables_def)
qed

lemma EnsurePieces_nonempty:
  assumes "alias_ok s" "store_EnsurePieces ps s = (s1, Inr aps)"
  shows "length aps = length ps"
proof -
  obtain t m where e: "EnsurePiecesToAliases DB_EnsureNodeAliases DB_ListNodeAliases ps (alias_db s) (alias_map s)
      = (t, m, Inr aps)"
    using assms(2) by (auto simp: store_EnsurePieces_def split: prod.splits)
  show ?thesis using alias_db.EnsurePieces_ok [OF _ _ e] assms(1)
    by (auto simp: alias_ok_def dest: list_all2_lengthD)
qed

text \<open>A row whose column was written from pieces is read back with these pieces.\<close>

lemma load_written:
  assumes "alias_ok s" "store_EnsurePieces ps s = (s1, Inr aps)" "ps \<noteq> []"
    and "AliasPieces_Value aps = Inr (seg_AliasPieces g)"
    and "alias_ok s2" "table_entries (alias_db s1) \<subseteq> table_entries (alias_db s2)"
  shows "\<exists>s3. load_segment cfg g s2 = (s3, Inr (g, ps)) \<and> same_tables s2 s3 \<and> alias_ok s3"
proof -
  have "AliasPieces_Scan (seg_AliasPieces g) = Inr aps"
    by (rule alias_codec.scan_val [OF assms(4)])
  moreover have "length aps > 0" using EnsurePieces_nonempty [OF assms(1,2)] assms(3) by simp
  moreover obtain s3 where "store_ConvertAliases aps s2 = (s3, Inr ps)" "alias_ok s3" "same_tables s2 s3"
    using ConvertAliases_roundtrip [OF assms(1,2,5,6)] by blast
  moreover have "\<not> PiecesInAncestorSegment g ps" using assms(3) by (simp add: PiecesInAncestorSegment_def)
  ultimately show ?thesis by (auto simp: load_segment_def updateWithAncestorSegment_def)
qed

lemma same_location_sym: "same_location a b \<Longrightarrow> same_location b a"
  and same_location_trans: "same_location a b \<Longrightarrow> same_location b c \<Longrightarrow> same_location a c"
  and same_location_refl [simp]: "same_location a a"
  by (simp_all add: same_location_def)

lemma object_row_unique:
  "store_inv s \<Longrightarrow> r \<in> set (objects s) \<Longrightarrow> q \<in> set (objects s) \<Longrightarrow> same_location r q \<Longrightarrow>
   Version r = Version q \<Longrightarrow> r = q"
  by (rule unique_keyD [of object_key "objects s"])
    (simp_all add: store_inv_def keys_ok_def object_key_def same_location_def)

lemma find_SomeD: "find P xs = Some x \<Longrightarrow> x \<in> set xs \<and> P x"
  by (auto simp: find_Some_iff)

lemma unique_filter: "unique_key key rows \<Longrightarrow> r \<in> set rows \<Longrightarrow> filter (\<lambda>x. key x = key r) rows = [r]"
proof (induction rows)
  case (Cons x rows)
  then show ?case
    by (cases "x = r") (auto simp: unique_key_def filter_empty_conv image_iff)
qed simp

lemma sql_update_member: "r \<in> set rows \<Longrightarrow> P r \<Longrightarrow> f r \<in> set (sql_update P f rows)"
  by (induction rows) (auto simp: sql_update_def)

lemma upsert_member:
  "r \<in> set rows \<Longrightarrow> key r = key new \<Longrightarrow> f r \<in> set (sql_upsert key new f rows)"
  unfolding sql_upsert_def
  by (subst if_P) (auto intro: sql_update_member rev_image_eqI [of r])

lemma CommitSegment_success:
  assumes "CommitSegment now opts s = (s', Inr u)"
  obtains s1 aps red ap where "store_EnsurePieces (cs_Pieces opts) s = (s1, Inr aps)"
    "CommitSegment_Verify opts = Inr ()"
    "AliasPieces_Value aps = Inr ap" "RedundancyScheme_Value (cs_Redundancy opts) = Inr red"
    "pending_exists (cs_Stream opts) s1"
    "s' = s1\<lparr>segments := sql_upsert segment_key (remote_row now opts red ap)
       (remote_update (remote_row now opts red ap)) (segments s1)\<rparr>"
  using assms
  by (auto simp: CommitSegment_def Let_def res_bind_Inr_iff split: sum.splits prod.splits if_splits)

text \<open>The one row at the position after a successful \<open>CommitSegment\<close>.\<close>

lemma CommitSegment_row:
  assumes "store_inv s" and "alias_ok s" and "CommitSegment now opts s = (s', Inr ())"
  obtains s1 aps g where "store_EnsurePieces (cs_Pieces opts) s = (s1, Inr aps)"
    "cs_Pieces opts \<noteq> []" "StreamID (cs_Stream opts) \<noteq> 0"
    "filter (\<lambda>x. segment_key x = (StreamID (cs_Stream opts), cs_Position opts)) (segments s') = [g]"
    "AliasPieces_Value aps = Inr (seg_AliasPieces g)" "alias_ok s'"
    "table_entries (alias_db s1) = table_entries (alias_db s')"
    "seg_PlainSize g = cs_PlainSize opts" "seg_EncryptedSize g = cs_EncryptedSize opts"
    "seg_PlainOffset g = cs_PlainOffset opts" "seg_EncryptedKey g = cs_EncryptedKey opts"
    "seg_RootPieceID g = cs_RootPieceID opts"
    "RedundancyScheme_Scan (seg_Redundancy g) = Inr (cs_Redundancy opts)"
proof -
  from assms(3) obtain s1 aps red ap where e: "store_EnsurePieces (cs_Pieces opts) s = (s1, Inr aps)"
    and v: "CommitSegment_Verify opts = Inr ()" "AliasPieces_Value aps = Inr ap"
      "RedundancyScheme_Value (cs_Redundancy opts) = Inr red"
    and s': "s' = s1\<lparr>segments := sql_upsert segment_key (remote_row now opts red ap)
       (remote_update (remote_row now opts red ap)) (segments s1)\<rparr>"
    by (rule CommitSegment_success)
  let ?new = "remote_row now opts red ap" and ?k = "(StreamID (cs_Stream opts), cs_Position opts)"
  have k: "segment_key ?new = ?k" by (simp add: segment_key_def remote_row_def)
  have "store_inv s'" using CommitSegment_inv [OF assms(1), of now opts] assms(3) by simp
  then have u: "unique_key segment_key (segments s')" by (simp add: store_inv_def keys_ok_def)
  obtain g where g: "g \<in> set (segments s')" "segment_key g = ?k" "seg_AliasPieces g = ap"
      "seg_PlainSize g = cs_PlainSize opts" "seg_EncryptedSize g = cs_EncryptedSize opts"
      "seg_PlainOffset g = cs_PlainOffset opts" "seg_EncryptedKey g = cs_EncryptedKey opts"
      "seg_RootPieceID g = cs_RootPieceID opts" "seg_Redundancy g = red"
  proof (cases "segment_key ?new \<in> segment_key ` set (segments s1)")
    case True
    then obtain r where r: "r \<in> set (segments s1)" "segment_key r = segment_key ?new" by auto
    have "remote_update ?new r \<in> set (segments s')"
      using upsert_member [OF r, of "remote_update ?new"] by (simp add: s')
    moreover have "segment_key (remote_update ?new r) = ?k"
      using r(2) k by (simp add: remote_update_def segment_key_def)
    ultimately show thesis by (rule that) (simp_all add: remote_update_def remote_row_def)
  next
    case False
    then have "?new \<in> set (segments s')" by (simp add: s' sql_upsert_def)
    from this k show thesis by (rule that) (simp_all add: remote_row_def)
  qed
  have f: "filter (\<lambda>x. segment_key x = ?k) (segments s') = [g]"
    using unique_filter [OF u g(1)] g(2) by simp
  have ok1: "alias_ok s1" using EnsurePieces_alias_ok [OF assms(2) e] by simp
  then have ok': "alias_ok s'" "table_entries (alias_db s1) = table_entries (alias_db s')"
    by (simp_all add: s' alias_ok_def)
  have ne: "cs_Pieces opts \<noteq> []" using v(1)
    by (auto simp: CommitSegment_Verify_def res_bind_Inr_iff Pieces_Verify_ok)
  have nz: "StreamID (cs_Stream opts) \<noteq> 0" using v(1)
    by (auto simp: CommitSegment_Verify_def res_bind_Inr_iff ObjectStream_Verify_ok)
  have "RedundancyScheme_Scan (seg_Redundancy g) = Inr (cs_Redundancy opts)"
    using redundancy_codec.scan_val [OF v(3)] g(9) by simp
  then show thesis using that [OF e ne nz f _ ok'] v(2) g(3-8) by simp
qed

text \<open>Every column of the row at the position that the statement names, and the rows at other positions.\<close>

lemma CommitSegment_columns:
  assumes "store_inv s" "CommitSegment now opts s = (s', Inr ())"
    and "g \<in> set (segments s')" "segment_key g = (StreamID (cs_Stream opts), cs_Position opts)"
  shows "seg_PlainSize g = cs_PlainSize opts \<and> seg_EncryptedSize g = cs_EncryptedSize opts \<and>
    seg_PlainOffset g = cs_PlainOffset opts \<and> seg_EncryptedKey g = cs_EncryptedKey opts \<and>
    seg_EncryptedKeyNonce g = cs_EncryptedKeyNonce opts \<and> seg_EncryptedETag g = cs_EncryptedETag opts \<and>
    seg_RootPieceID g = cs_RootPieceID opts \<and> seg_ExpiresAt g = cs_ExpiresAt opts \<and>
    seg_Placement g = Some (cs_Placement opts) \<and> RedundancyScheme_Scan (seg_Redundancy g) = Inr (cs_Redundancy opts)"
    and "filter (\<lambda>g. segment_key g \<noteq> (StreamID (cs_Stream opts), cs_Position opts)) (segments s')
      = filter (\<lambda>g. segment_key g \<noteq> (StreamID (cs_Stream opts), cs_Position opts)) (segments s)"
proof -
  from assms(2) obtain s1 aps red ap where e: "store_EnsurePieces (cs_Pieces opts) s = (s1, Inr aps)"
    and red: "RedundancyScheme_Value (cs_Redundancy opts) = Inr red"
    and s': "s' = s1\<lparr>segments := sql_upsert segment_key (remote_row now opts red ap)
       (remote_update (remote_row now opts red ap)) (segments s1)\<rparr>"
    by (rule CommitSegment_success)
  let ?new = "remote_row now opts red ap" and ?k = "(StreamID (cs_Stream opts), cs_Position opts)"
  have k: "segment_key ?new = ?k" by (simp add: segment_key_def remote_row_def)
  have upd: "segment_key (remote_update ?new r) = segment_key r" for r
    by (simp add: remote_update_def segment_key_def)
  have tabs: "segments s1 = segments s" using store_EnsurePieces_tables [OF e] by (simp add: same_tables_def)
  consider "g = ?new" | r where "segment_key r = ?k" "g = remote_update ?new r"
    using assms(3,4) k by (auto simp: s' sql_upsert_def sql_update_def split: if_splits) (metis image_eqI)
  then show "seg_PlainSize g = cs_PlainSize opts \<and> seg_EncryptedSize g = cs_EncryptedSize opts \<and>
    seg_PlainOffset g = cs_PlainOffset opts \<and> seg_EncryptedKey g = cs_EncryptedKey opts \<and>
    seg_EncryptedKeyNonce g = cs_EncryptedKeyNonce opts \<and> seg_EncryptedETag g = cs_EncryptedETag opts \<and>
    seg_RootPieceID g = cs_RootPieceID opts \<and> seg_ExpiresAt g = cs_ExpiresAt opts \<and>
    seg_Placement g = Some (cs_Placement opts) \<and> RedundancyScheme_Scan (seg_Redundancy g) = Inr (cs_Redundancy opts)"
    using redundancy_codec.scan_val [OF red] by cases (simp_all add: remote_update_def remote_row_def)
  have "filter (\<lambda>g. segment_key g \<noteq> ?k) (sql_update (\<lambda>r. segment_key r = segment_key ?new) (remote_update ?new) xs)
      = filter (\<lambda>g. segment_key g \<noteq> ?k) xs" for xs
    by (rule filter_sql_update_other) (simp add: k upd)
  then show "filter (\<lambda>g. segment_key g \<noteq> ?k) (segments s') = filter (\<lambda>g. segment_key g \<noteq> ?k) (segments s)"
    by (simp add: s' sql_upsert_def tabs k)
qed

text \<open>
  Property C9. What \<open>CommitSegment\<close> wrote is what \<open>GetSegmentByPosition\<close> returns: the
  pieces, through the alias table and the compressed column, the sizes, the offset, the key with its nonce, the
  ETag, the expiration, the placement and the redundancy scheme, also when the position was written before; and
  no segment at another position has changed.
\<close>

theorem CommitSegment_read_back:
  assumes "store_inv s" and "alias_ok s" and "CommitSegment now opts s = (s', Inr ())"
  shows "(\<exists>s'' g. GetSegmentByPosition cfg (StreamID (cs_Stream opts)) (cs_Position opts) s'
      = (s'', Inr (g, cs_Pieces opts)) \<and>
    seg_PlainSize g = cs_PlainSize opts \<and> seg_EncryptedSize g = cs_EncryptedSize opts \<and>
    seg_PlainOffset g = cs_PlainOffset opts \<and> seg_EncryptedKey g = cs_EncryptedKey opts \<and>
    seg_EncryptedKeyNonce g = cs_EncryptedKeyNonce opts \<and> seg_EncryptedETag g = cs_EncryptedETag opts \<and>
    seg_RootPieceID g = cs_RootPieceID opts \<and> seg_ExpiresAt g = cs_ExpiresAt opts \<and>
    seg_Placement g = Some (cs_Placement opts) \<and>
    RedundancyScheme_Scan (seg_Redundancy g) = Inr (cs_Redundancy opts)) \<and>
    filter (\<lambda>g. segment_key g \<noteq> (StreamID (cs_Stream opts), cs_Position opts)) (segments s')
      = filter (\<lambda>g. segment_key g \<noteq> (StreamID (cs_Stream opts), cs_Position opts)) (segments s)"
  using assms
proof (rule CommitSegment_row)
  fix s1 aps g
  assume e: "store_EnsurePieces (cs_Pieces opts) s = (s1, Inr aps)" "cs_Pieces opts \<noteq> []"
    and nz: "StreamID (cs_Stream opts) \<noteq> 0"
    and f: "filter (\<lambda>x. segment_key x = (StreamID (cs_Stream opts), cs_Position opts)) (segments s') = [g]"
    and ap: "AliasPieces_Value aps = Inr (seg_AliasPieces g)" and ok: "alias_ok s'"
    and t: "table_entries (alias_db s1) = table_entries (alias_db s')"
  obtain s3 where "load_segment cfg g s' = (s3, Inr (g, cs_Pieces opts))"
    using load_written [OF assms(2) e ap ok] t by blast
  then have "GetSegmentByPosition cfg (StreamID (cs_Stream opts)) (cs_Position opts) s' = (s3, Inr (g, cs_Pieces opts))"
    using f nz by (simp add: GetSegmentByPosition_def)
  moreover have "g \<in> set (segments s')" "segment_key g = (StreamID (cs_Stream opts), cs_Position opts)"
    using filter_eq_ConsD [OF f] by auto
  note CommitSegment_columns [OF assms(1,3) this]
  ultimately show ?thesis by blast
qed

text \<open>
  Lemma. An inline segment written over a remote one at the same position leaves the
  remote columns in place: the segment then has the inline data and no root piece, but still
  reads back with the old pieces and redundancy scheme.
\<close>

theorem CommitInlineSegment_over_remote:
  assumes "store_inv s" and "alias_ok s" and "CommitSegment now cs s = (s1, Inr ())"
    and "CommitInlineSegment now' ci s1 = (s2, Inr ())"
    and "StreamID (ci_Stream ci) = StreamID (cs_Stream cs)" and "ci_Position ci = cs_Position cs"
  shows "\<exists>s3 g. GetSegmentByPosition cfg (StreamID (ci_Stream ci)) (ci_Position ci) s2
      = (s3, Inr (g, cs_Pieces cs)) \<and>
    seg_InlineData g = ci_InlineData ci \<and> seg_RootPieceID g = 0 \<and>
    RedundancyScheme_Scan (seg_Redundancy g) = Inr (cs_Redundancy cs)"
  using assms(1-3)
proof (rule CommitSegment_row)
  fix s0 aps g
  assume e: "store_EnsurePieces (cs_Pieces cs) s = (s0, Inr aps)" "cs_Pieces cs \<noteq> []"
    and nz: "StreamID (cs_Stream cs) \<noteq> 0"
    and f: "filter (\<lambda>x. segment_key x = (StreamID (cs_Stream cs), cs_Position cs)) (segments s1) = [g]"
    and ap: "AliasPieces_Value aps = Inr (seg_AliasPieces g)" and ok: "alias_ok s1"
    and t: "table_entries (alias_db s0) = table_entries (alias_db s1)"
    and red: "RedundancyScheme_Scan (seg_Redundancy g) = Inr (cs_Redundancy cs)"
  let ?new = "inline_row now' ci" and ?k = "(StreamID (cs_Stream cs), cs_Position cs)"
  let ?g = "inline_update ?new g"
  have s2: "s2 = s1\<lparr>segments := sql_upsert segment_key ?new (inline_update ?new) (segments s1)\<rparr>"
    using assms(4) by (auto simp: CommitInlineSegment_def Let_def split: sum.splits if_splits)
  have k: "segment_key ?new = ?k" using assms(5,6) by (simp add: segment_key_def inline_row_def)
  have g: "g \<in> set (segments s1)" "segment_key g = segment_key ?new"
    using filter_eq_ConsD [OF f] k by auto
  have "?g \<in> set (segments s2)" using upsert_member [OF g, of "inline_update ?new"] by (simp add: s2)
  moreover have "segment_key ?g = ?k" using g(2) k by (simp add: inline_update_def segment_key_def)
  moreover have "store_inv s2"
    using CommitInlineSegment_inv [OF CommitSegment_inv [OF assms(1)], of now' ci now cs] assms(3,4) by simp
  ultimately have f2: "filter (\<lambda>x. segment_key x = ?k) (segments s2) = [?g]"
    using unique_filter [of segment_key "segments s2" ?g] by (simp add: store_inv_def keys_ok_def)
  have "alias_ok s2" "table_entries (alias_db s0) \<subseteq> table_entries (alias_db s2)"
    using ok t by (simp_all add: s2 alias_ok_def)
  moreover have "AliasPieces_Value aps = Inr (seg_AliasPieces ?g)" using ap by (simp add: inline_update_def)
  ultimately obtain s3 where "load_segment cfg ?g s2 = (s3, Inr (?g, cs_Pieces cs))"
    using load_written [OF assms(2) e] by blast
  then have "GetSegmentByPosition cfg (StreamID (ci_Stream ci)) (ci_Position ci) s2 = (s3, Inr (?g, cs_Pieces cs))"
    using f2 nz assms(5,6) by (simp add: GetSegmentByPosition_def)
  moreover have "seg_InlineData ?g = ci_InlineData ci" "seg_RootPieceID ?g = 0"
    "RedundancyScheme_Scan (seg_Redundancy ?g) = Inr (cs_Redundancy cs)"
    using red by (simp_all add: inline_update_def inline_row_def)
  ultimately show ?thesis by blast
qed

lemma UpdateSegmentPieces_success:
  assumes "UpdateSegmentPieces opts s = (s', Inr u)"
  obtains s1 s2 old new ov nv red g rest where "UpdateSegmentPieces_Verify opts = Inr ()"
    "store_EnsurePieces (up_OldPieces opts) s = (s1, Inr old)"
    "store_EnsurePieces (up_NewPieces opts) s1 = (s2, Inr new)"
    "AliasPieces_Value old = Inr ov" "AliasPieces_Value new = Inr nv"
    "RedundancyScheme_Value (up_NewRedundancy opts) = Inr red"
    "filter (\<lambda>g. seg_StreamID g = up_StreamID opts \<and> seg_Position g = up_Position opts) (segments s2) = g # rest"
    "AliasPieces_Scan (seg_AliasPieces (update_pieces_row ov nv red (up_NewRepairedAt opts) g)) = Inr new"
    "s' = s2\<lparr>segments := sql_update
       (\<lambda>g. seg_StreamID g = up_StreamID opts \<and> seg_Position g = up_Position opts)
       (update_pieces_row ov nv red (up_NewRepairedAt opts)) (segments s2)\<rparr>"
  using assms
  by (auto simp: UpdateSegmentPieces_def Let_def res_bind_Inr_iff sql_returning_def EqualAliasPieces_eq
      split: sum.splits prod.splits if_splits list.splits)

text \<open>
  Lemma. After a successful \<open>UpdateSegmentPieces\<close> the segment reads back with exactly
  the new pieces, and no other segment has changed.
\<close>

theorem UpdateSegmentPieces_read_back:
  assumes "store_inv s" and "alias_ok s" and "UpdateSegmentPieces opts s = (s', Inr ())"
  shows "(\<exists>s'' g. GetSegmentByPosition cfg (up_StreamID opts) (up_Position opts) s'
      = (s'', Inr (g, up_NewPieces opts))) \<and>
    filter (\<lambda>g. segment_key g \<noteq> (up_StreamID opts, up_Position opts)) (segments s')
      = filter (\<lambda>g. segment_key g \<noteq> (up_StreamID opts, up_Position opts)) (segments s)"
proof -
  from assms(3) obtain s1 s2 old new ov nv red g0 rest where
    v: "UpdateSegmentPieces_Verify opts = Inr ()" and
    e1: "store_EnsurePieces (up_OldPieces opts) s = (s1, Inr old)" and
    e2: "store_EnsurePieces (up_NewPieces opts) s1 = (s2, Inr new)" and
    nv: "AliasPieces_Value new = Inr nv" and
    g0: "filter (\<lambda>g. seg_StreamID g = up_StreamID opts \<and> seg_Position g = up_Position opts) (segments s2) = g0 # rest"
    and scan: "AliasPieces_Scan (seg_AliasPieces (update_pieces_row ov nv red (up_NewRepairedAt opts) g0)) = Inr new"
    and s': "s' = s2\<lparr>segments := sql_update
       (\<lambda>g. seg_StreamID g = up_StreamID opts \<and> seg_Position g = up_Position opts)
       (update_pieces_row ov nv red (up_NewRepairedAt opts)) (segments s2)\<rparr>"
    by (rule UpdateSegmentPieces_success)
  let ?P = "\<lambda>g. seg_StreamID g = up_StreamID opts \<and> seg_Position g = up_Position opts"
  let ?f = "update_pieces_row ov nv red (up_NewRepairedAt opts)"
  let ?k = "(up_StreamID opts, up_Position opts)"
  have key: "segment_key (?f g) = segment_key g" for g
    by (simp add: update_pieces_row_def segment_key_def)
  have P: "?P g \<longleftrightarrow> segment_key g = ?k" for g by (auto simp: segment_key_def)
  have ok: "alias_ok s1" "alias_ok s2" using EnsurePieces_alias_ok assms(2) e1 e2 by blast+
  have tabs: "same_tables s s2"
    using store_EnsurePieces_tables [OF e1] store_EnsurePieces_tables [OF e2] same_tables_trans by blast
  have "store_inv s'" using UpdateSegmentPieces_inv [OF assms(1), of opts] assms(3) by simp
  then have u: "unique_key segment_key (segments s')" by (simp add: store_inv_def keys_ok_def)
  have "g0 \<in> set (segments s2)" "?P g0" using filter_eq_ConsD [OF g0] by auto
  then have g: "?f g0 \<in> set (segments s')" "segment_key (?f g0) = ?k"
    by (auto simp: s' sql_simps key P)
  have f: "filter (\<lambda>x. segment_key x = ?k) (segments s') = [?f g0]"
    using unique_filter [OF u g(1)] g(2) by simp
  have ne: "up_NewPieces opts \<noteq> []" "up_StreamID opts \<noteq> 0" using v
    by (auto simp: UpdateSegmentPieces_Verify_def res_bind_Inr_iff prefix_invalid_def Pieces_Verify_ok
        split: sum.splits meta_error.splits if_splits)
  have "alias_ok s'" "table_entries (alias_db s2) \<subseteq> table_entries (alias_db s')"
    using ok(2) by (simp_all add: s' alias_ok_def)
  from ConvertAliases_roundtrip [OF ok(1) e2 this]
  obtain s3 where "store_ConvertAliases new s' = (s3, Inr (up_NewPieces opts))" by blast
  moreover have "0 < length new" using EnsurePieces_nonempty [OF ok(1) e2] ne(1) by simp
  ultimately have "load_segment cfg (?f g0) s' = (s3, Inr (?f g0, up_NewPieces opts))"
    using scan ne(1) by (simp add: load_segment_def updateWithAncestorSegment_def PiecesInAncestorSegment_def)
  then have "GetSegmentByPosition cfg (up_StreamID opts) (up_Position opts) s' = (s3, Inr (?f g0, up_NewPieces opts))"
    using f ne(2) by (simp add: GetSegmentByPosition_def)
  moreover have "filter (\<lambda>g. segment_key g \<noteq> ?k) (segments s') = filter (\<lambda>g. segment_key g \<noteq> ?k) (segments s)"
  proof -
    have "filter (\<lambda>g. segment_key g \<noteq> ?k) (sql_update ?P ?f xs) = filter (\<lambda>g. segment_key g \<noteq> ?k) xs" for xs
      by (rule filter_sql_update_other) (simp add: key P)
    then show ?thesis using tabs by (simp add: s' same_tables_def)
  qed
  ultimately show ?thesis by blast
qed

subsection \<open>Reachable stores\<close>

lemma stream_segments_map:
  "stream_segments stream s = map (\<lambda>g. \<lparr>commit_Position = seg_Position g, OldPlainOffset = seg_PlainOffset g,
     commit_PlainSize = seg_PlainSize g, commit_EncryptedSize = seg_EncryptedSize g\<rparr>)
     (order_by_position (segs_of stream s))"
  by (simp add: stream_segments_def fetch_segs_of convertToFinalSegments_def to_commit_def segment_info_def comp_def)

text \<open>The counts, totals and offsets of a committed object, in terms of its rows.\<close>

lemma committed_segments:
  assumes inv: "store_inv s" and r: "r \<in> set (objects s)" "Status r = Committed"
    and gs: "gs = order_by_position (filter (\<lambda>g. seg_StreamID g = StreamID r) (segments s))"
  shows "SegmentCount r = int (length gs) \<and> TotalPlainSize r = wrap64 (sum_list (map seg_PlainSize gs)) \<and>
    TotalEncryptedSize r = wrap64 (sum_list (map seg_EncryptedSize gs)) \<and>
    (\<forall>i < length gs. seg_PlainOffset (gs ! i) = wrap64 (sum_list (map seg_PlainSize (take i gs))))"
proof -
  let ?us = "stream_segments (StreamID r) s"
  have us: "map commit_PlainSize ?us = map seg_PlainSize gs" "map commit_EncryptedSize ?us = map seg_EncryptedSize gs"
    "map OldPlainOffset ?us = map seg_PlainOffset gs" "length ?us = length gs"
    by (simp_all add: stream_segments_map segs_of_def gs)
  have c: "complete_with ?us r" using inv r by (simp add: store_inv_def committed_complete_def)
  have "seg_PlainOffset (gs ! i) = wrap64 (sum_list (map seg_PlainSize (take i gs)))" if "i < length gs" for i
  proof -
    have "map seg_PlainOffset gs ! i = expected_offsets 0 ?us ! i" using c us(3) by (simp add: complete_with_def)
    moreover have "map commit_PlainSize (take i ?us) = map seg_PlainSize (take i gs)"
      using us(1) by (simp flip: take_map)
    ultimately show ?thesis using expected_offsets_nth [of 0 i ?us] that us(4) by simp
  qed
  with c us show ?thesis by (simp add: complete_with_def totals_sum)
qed

text \<open>A small store: one object of one inline segment, begun, written and committed.\<close>

definition ex_cfg :: config where
  "ex_cfg = \<lparr>MinPartSize = 5, MaxNumberOfParts = 10, ServerSideCopy = True, MultipleVersions = True\<rparr>"

definition ex_stream :: "int \<Rightarrow> uuid \<Rightarrow> ObjectStream" where
  "ex_stream v st = \<lparr>ProjectID = 1, BucketName = ''b'', ObjectKey = ''k'', Version = v, StreamID = st\<rparr>"

definition ex_begin :: "ObjectStream \<Rightarrow> BeginObject" where
  "ex_begin obj = \<lparr>begin_Stream = obj, begin_ExpiresAt = None, begin_ZombieDeletionDeadline = None,
     begin_EncryptedMetadata = None, begin_EncryptedMetadataNonce = None,
     begin_EncryptedMetadataEncryptedKey = None, begin_Encryption = \<lparr>CipherSuite = 1, BlockSize = 256\<rparr>\<rparr>"

definition ex_inline :: "ObjectStream \<Rightarrow> CommitInlineSegmentOpts" where
  "ex_inline obj = \<lparr>ci_Stream = obj, ci_Position = \<lparr>Part = 0, Index = 0\<rparr>, ci_ExpiresAt = None,
     ci_EncryptedKeyNonce = [1], ci_EncryptedKey = [2], ci_PlainOffset = 0, ci_PlainSize = 3,
     ci_EncryptedETag = None, ci_InlineData = Some [7, 8, 9]\<rparr>"

definition ex_commit :: "ObjectStream \<Rightarrow> CommitObjectOpts" where
  "ex_commit obj = \<lparr>co_Stream = obj, co_Encryption = \<lparr>CipherSuite = 1, BlockSize = 256\<rparr>,
     co_OverrideEncryptedMetadata = False, co_EncryptedMetadata = None, co_EncryptedMetadataNonce = None,
     co_EncryptedMetadataEncryptedKey = None, co_DisallowDelete = False\<rparr>"

definition ex_begun :: store where
  "ex_begun = fst (BeginObjectExactVersion 10 (ex_begin (ex_stream 1 5)) empty_store)"

definition ex_written :: store where
  "ex_written = fst (CommitInlineSegment 11 (ex_inline (ex_stream 1 5)) ex_begun)"

definition ex_committed :: store where
  "ex_committed = fst (CommitObject ex_cfg (ex_commit (ex_stream 1 5)) ex_written)"

lemmas ex_defs = ex_stream_def ex_begin_def ex_inline_def ex_commit_def ex_cfg_def

lemma ex_begun_eval: "ex_begun = empty_store\<lparr>objects := [begin_row 10 1 (ex_begin (ex_stream 1 5))]\<rparr>"
  by (simp add: ex_begun_def BeginObjectExactVersion_def BeginObjectExactVersion_Verify_def ex_defs
      ObjectStream_Verify_def ObjectLocation_Verify_def verify_metadata_def NextVersion_def int4_def
      sql_insert_def empty_store_def Let_def)

lemma ex_written_eval:
  "ex_written = ex_begun\<lparr>segments := [inline_row 11 (ex_inline (ex_stream 1 5))]\<rparr>"
  by (simp add: ex_written_def ex_begun_eval begin_row_def CommitInlineSegment_def CommitInlineSegment_Verify_def ex_defs
      ObjectStream_Verify_def ObjectLocation_Verify_def int4_def inline_length_def pending_exists_def
      names_row_def same_location_def sql_upsert_def empty_store_def Let_def)

lemma ex_committed_eval:
  "ex_committed = ex_written\<lparr>objects := [commit_row (ex_commit (ex_stream 1 5))
     [\<lparr>commit_Position = \<lparr>Part = 0, Index = 0\<rparr>, OldPlainOffset = 0, commit_PlainSize = 3, commit_EncryptedSize = 3\<rparr>]
     (begin_row 10 1 (ex_begin (ex_stream 1 5)))]\<rparr>"
  by code_simp

lemma reachable_empty: "reachable cfg empty_store"
  by (simp add: reachable_def)

lemma reachable_step: "reachable cfg s \<Longrightarrow> meta_step cfg s s' \<Longrightarrow> reachable cfg s'"
  unfolding reachable_def by (rule rtranclp.rtrancl_into_rtrancl)

lemma ex_reachable: "reachable ex_cfg ex_begun" "reachable ex_cfg ex_written" "reachable ex_cfg ex_committed"
proof -
  show begun: "reachable ex_cfg ex_begun"
    by (rule reachable_step [OF reachable_empty single])
      (use begin_exact [of "ex_begin (ex_stream 1 5)" empty_store] in \<open>simp add: ex_begun_def fresh_stream_def empty_store_def\<close>)
  show written: "reachable ex_cfg ex_written"
    unfolding ex_written_def by (rule reachable_step [OF begun single [OF commit_inline]])
  show "reachable ex_cfg ex_committed"
    unfolding ex_committed_def by (rule reachable_step [OF written single [OF commit_object]])
qed

text \<open>
  Property C3. In every store the operations can produce, objects are unique by location and
  version and by stream, segments by stream and position, no segment is left without its object, and
  every committed object is complete: its segment count and its total sizes are those of its
  segments, and each segment's plain offset is the sum of the plain sizes before it. The sweeps of
  expired and abandoned objects take part statement by statement, with batches selected at any
  earlier time, under one condition of their step: an object that still exists when it is
  deleted is where it was selected. An object moved in between loses its segments
  (\<open>stale_selection_of_moved\<close>).
\<close>

theorem reachable_objects_complete:
  assumes "reachable cfg s"
  shows "distinct (map object_key (objects s)) \<and> distinct (map StreamID (objects s)) \<and>
    distinct (map segment_key (segments s)) \<and>
    (\<forall>g \<in> set (segments s). \<exists>r \<in> set (objects s). StreamID r = seg_StreamID g) \<and>
    (\<forall>r \<in> set (objects s). Status r = Committed \<longrightarrow>
      (let gs = order_by_position (filter (\<lambda>g. seg_StreamID g = StreamID r) (segments s)) in
       SegmentCount r = int (length gs) \<and>
       TotalPlainSize r = wrap64 (sum_list (map seg_PlainSize gs)) \<and>
       TotalEncryptedSize r = wrap64 (sum_list (map seg_EncryptedSize gs)) \<and>
       (\<forall>i < length gs. seg_PlainOffset (gs ! i) = wrap64 (sum_list (map seg_PlainSize (take i gs))))))"
proof -
  have inv: "store_inv s" by (rule reachable_inv [OF assms])
  have "\<exists>r \<in> set (objects s). StreamID r = seg_StreamID g" if "g \<in> set (segments s)" for g
    using inv that by (force simp: store_inv_def segments_owned_def)
  moreover note committed_segments [OF inv]
  ultimately show ?thesis using inv
    by (auto simp: store_inv_def keys_ok_def unique_key_def Let_def)
qed

theorem reachable_objects_complete_witness:
  "distinct (map object_key (objects ex_committed)) \<and>
   SegmentCount (hd (objects ex_committed)) = 1 \<and> TotalPlainSize (hd (objects ex_committed)) = 3"
proof -
  define r where "r = hd (objects ex_committed)"
  have one: "r \<in> set (objects ex_committed)" "Status r = Committed"
    "order_by_position (filter (\<lambda>g. seg_StreamID g = StreamID r) (segments ex_committed))
       = [inline_row 11 (ex_inline (ex_stream 1 5))]"
    unfolding r_def by code_simp+
  have "seg_PlainSize (inline_row 11 (ex_inline (ex_stream 1 5))) = 3" by code_simp
  then show ?thesis
    using reachable_objects_complete [OF ex_reachable(3)] one(1,2)
    unfolding r_def [symmetric] by (auto simp only: Let_def one(3)) (simp_all add: wrap64_id)
qed

subsection \<open>A remote segment\<close>

definition ex_scheme :: RedundancyScheme where
  "ex_scheme = \<lparr>Algorithm = 1, ShareSize = 256, RequiredShares = 1, RepairShares = 2,
     OptimalShares = 2, TotalShares = 3\<rparr>"

definition ex_pieces :: "node_id \<Rightarrow> Pieces" where
  "ex_pieces n = [\<lparr>Number = 0, StorageNode = n\<rparr>, \<lparr>Number = 2, StorageNode = n + 1\<rparr>]"

definition ex_remote :: CommitSegmentOpts where
  "ex_remote = \<lparr>cs_Stream = ex_stream 1 5, cs_Position = \<lparr>Part = 0, Index = 0\<rparr>, cs_RootPieceID = 33,
     cs_ExpiresAt = None, cs_EncryptedKeyNonce = [1], cs_EncryptedKey = [2], cs_PlainOffset = 0,
     cs_PlainSize = 512, cs_EncryptedSize = 1024, cs_EncryptedETag = None, cs_Redundancy = ex_scheme,
     cs_Pieces = ex_pieces 70, cs_Placement = 0\<rparr>"

definition ex_uploaded :: store where
  "ex_uploaded = fst (CommitSegment 11 ex_remote ex_begun)"

lemma ex_uploaded_ok: "CommitSegment 11 ex_remote ex_begun = (ex_uploaded, Inr ())"
proof -
  have "snd (CommitSegment 11 ex_remote ex_begun) = Inr ()" by code_simp
  then show ?thesis unfolding ex_uploaded_def by (metis prod.collapse)
qed

lemma ex_alias_ok: "alias_ok ex_begun"
  by (simp add: ex_begun_eval alias_ok_def empty_store_def)

lemma ex_store_inv: "store_inv ex_begun" "store_inv ex_uploaded"
  using reachable_inv [OF ex_reachable(1)] CommitSegment_inv [of ex_begun 11 ex_remote]
  by (simp_all add: ex_uploaded_def)

theorem CommitSegment_read_back_witness:
  "\<exists>s' g. GetSegmentByPosition ex_cfg 5 \<lparr>Part = 0, Index = 0\<rparr> ex_uploaded = (s', Inr (g, ex_pieces 70)) \<and>
     seg_EncryptedSize g = 1024"
  using CommitSegment_read_back [OF ex_store_inv(1) ex_alias_ok ex_uploaded_ok, of ex_cfg]
  by (auto simp: ex_remote_def ex_stream_def)

theorem CommitInlineSegment_over_remote_witness:
  "\<exists>s2 s3 g. CommitInlineSegment 12 (ex_inline (ex_stream 1 5)) ex_uploaded = (s2, Inr ()) \<and>
     GetSegmentByPosition ex_cfg 5 \<lparr>Part = 0, Index = 0\<rparr> s2 = (s3, Inr (g, ex_pieces 70)) \<and>
     seg_InlineData g = Some [7, 8, 9] \<and> seg_RootPieceID g = 0"
proof -
  have "snd (CommitInlineSegment 12 (ex_inline (ex_stream 1 5)) ex_uploaded) = Inr ()" by code_simp
  then obtain s2 where s2: "CommitInlineSegment 12 (ex_inline (ex_stream 1 5)) ex_uploaded = (s2, Inr ())"
    by (metis prod.collapse)
  from CommitInlineSegment_over_remote [OF ex_store_inv(1) ex_alias_ok ex_uploaded_ok s2, of ex_cfg] s2
  show ?thesis by (auto simp: ex_remote_def ex_stream_def ex_inline_def)
qed

definition ex_repair :: UpdatePiecesOpts where
  "ex_repair = \<lparr>up_StreamID = 5, up_Position = \<lparr>Part = 0, Index = 0\<rparr>, up_OldPieces = ex_pieces 70,
     up_NewRedundancy = ex_scheme, up_NewPieces = ex_pieces 80, up_NewRepairedAt = 60\<rparr>"

theorem UpdateSegmentPieces_read_back_witness:
  "\<exists>s' s'' g. UpdateSegmentPieces ex_repair ex_uploaded = (s', Inr ()) \<and>
     GetSegmentByPosition ex_cfg 5 \<lparr>Part = 0, Index = 0\<rparr> s' = (s'', Inr (g, ex_pieces 80))"
proof -
  have "alias_ok ex_uploaded"
  proof (rule CommitSegment_row [OF ex_store_inv(1) ex_alias_ok ex_uploaded_ok])
  qed
  moreover have "snd (UpdateSegmentPieces ex_repair ex_uploaded) = Inr ()" by code_simp
  then obtain s' where s': "UpdateSegmentPieces ex_repair ex_uploaded = (s', Inr ())"
    by (metis prod.collapse)
  ultimately show ?thesis
    using UpdateSegmentPieces_read_back [OF ex_store_inv(2) _ s', of ex_cfg]
    by (auto simp: ex_repair_def)
qed

end
