(* ===== verification/MetaAlias.thy ===== *)
theory MetaAlias
  imports MetaProps
begin

text \<open>
  What a column of alias pieces stands for, given the alias table, and that every operation
  keeps the cached map in agreement with the table, so that columns keep their meaning in every
  reachable store.
\<close>

subsection \<open>What a column of alias pieces stands for\<close>

definition converts :: "NodeAliasEntry set \<Rightarrow> AliasPieces \<Rightarrow> Pieces \<Rightarrow> bool" where
  "converts E aps ps \<longleftrightarrow> list_all2 (\<lambda>ap p. Number p = ANumber ap \<and> (StorageNode p, Alias ap) \<in> E) aps ps"

lemma converts_length: "converts E aps ps \<Longrightarrow> length aps = length ps"
  by (auto simp: converts_def dest: list_all2_lengthD)

lemma converts_mono: "converts E aps ps \<Longrightarrow> E \<subseteq> E' \<Longrightarrow> converts E' aps ps"
  unfolding converts_def by (erule list_all2_mono) auto

lemma convert_pass_nonneg: "convert_pass m aps = Inr x \<Longrightarrow> \<forall>ap \<in> set aps. 0 \<le> sint (Alias ap)"
  by (induction aps arbitrary: x)
    (auto simp: res_bind_Inr_iff NodeAliasMap_Node_def Let_def split: if_splits)

lemma Convert_any:
  assumes "alias_ok s" "store_ConvertAliases aps s = (s', r)"
  shows "alias_ok s' \<and> same_tables s s' \<and> alias_db s' = alias_db s \<and>
    (\<forall>ps. r = Inr ps \<longrightarrow> converts (table_entries (alias_db s)) aps ps)"
proof -
  obtain m where c: "ConvertAliasesToPieces DB_ListNodeAliases aps (alias_db s) (alias_map s) = (m, r)"
    and s': "s' = s\<lparr>alias_map := m\<rparr>"
    using assms(2) by (auto simp: store_ConvertAliases_def split: prod.splits)
  have "map_ok (table_entries (alias_db s)) m \<and> (\<forall>ps. r = Inr ps \<longrightarrow> converts (table_entries (alias_db s)) aps ps)"
  proof (cases "convert_pass (alias_map s) aps")
    case (Inl e)
    then have "aps \<noteq> []" by auto
    with Inl c assms(1) show ?thesis by (auto simp: ConvertAliasesToPieces_def alias_ok_def)
  next
    case (Inr x)
    from alias_db.Convert_ok [OF _ _ convert_pass_nonneg [OF Inr] c] assms(1)
    show ?thesis by (simp add: alias_ok_def converts_def)
  qed
  then show ?thesis using assms(1) by (simp add: s' alias_ok_def same_tables_def)
qed

lemma Convert_complete:
  assumes "alias_ok s" "converts (table_entries (alias_db s)) aps ps"
  shows "\<exists>s'. store_ConvertAliases aps s = (s', Inr ps)"
proof -
  let ?E = "table_entries (alias_db s)"
  have inv: "table_inv (alias_db s)" "map_ok ?E (alias_map s)" using assms(1) by (simp_all add: alias_ok_def)
  obtain m r where c: "ConvertAliasesToPieces DB_ListNodeAliases aps (alias_db s) (alias_map s) = (m, r)" by fastforce
  have sub: "Alias ` set aps \<subseteq> snd ` ?E"
    using assms(2) by (force simp: converts_def list_all2_conv_all_nth in_set_conv_nth image_iff)
  then have pos: "\<forall>ap \<in> set aps. 0 \<le> sint (Alias ap)"
    using alias_db.entries_nonneg [OF inv(1)] by fastforce
  obtain qs where r: "r = Inr qs"
    using alias_db.Convert_total [OF inv sub _ c] by (auto simp: DB_ListNodeAliases_def)
  with alias_db.Convert_ok [OF inv pos c] have "converts ?E aps qs" by (simp add: converts_def)
  then have "qs = ps"
    using assms(2) good_entriesD(3) [OF alias_db.entries_good [OF inv(1)]]
    by (auto simp: converts_def list_all2_conv_all_nth intro!: nth_equalityI Piece.equality)
  then show ?thesis using c r by (auto simp: store_ConvertAliases_def)
qed

subsection \<open>Every operation keeps the aliases in order\<close>

named_theorems alias_steps "what an operation leaves of the alias table and its cached map"

lemma alias_ok_update [simp]:
  "alias_ok (s\<lparr>objects := os\<rparr>) = alias_ok s" "alias_ok (s\<lparr>segments := gs\<rparr>) = alias_ok s"
  "alias_ok (s\<lparr>copies := cs\<rparr>) = alias_ok s"
  by (simp_all add: alias_ok_def)

lemma alias_ok_fields:
  "alias_ok s \<Longrightarrow> alias_db s' = alias_db s \<Longrightarrow> alias_map s' = alias_map s \<Longrightarrow> alias_ok s'"
  by (simp add: alias_ok_def)

lemma EnsurePieces_alias [alias_steps]: "alias_ok s \<Longrightarrow> alias_ok (fst (store_EnsurePieces ps s))"
  using EnsurePieces_alias_ok [of s ps] by (cases "store_EnsurePieces ps s") auto

lemma Convert_alias [alias_steps]: "alias_ok s \<Longrightarrow> alias_ok (fst (store_ConvertAliases aps s))"
  using Convert_any [of s aps] by (cases "store_ConvertAliases aps s") auto

lemma alias_fst: "alias_ok (fst x) \<Longrightarrow> x = (a, b) \<Longrightarrow> alias_ok a"
  by simp

lemma scan_pieces_alias [alias_steps]: "alias_ok s \<Longrightarrow> alias_ok (fst (scan_pieces g s))"
  by (auto simp: scan_pieces_def alias_steps split: sum.split)

lemma scanObjectDeletion_alias [alias_steps]: "alias_ok s \<Longrightarrow> alias_ok (fst (scanObjectDeletion rows acc s))"
proof (induction rows acc s rule: scanObjectDeletion.induct)
  case (2 r g rows acc s)
  show ?case
  proof (cases g)
    case (Some seg)
    obtain s1 x where e: "scan_pieces seg s = (s1, x)" by fastforce
    have "alias_ok s1" using alias_fst [OF scan_pieces_alias [OF "2.prems"] e] .
    then show ?thesis using "2.IH"(2) [OF refl Some e [symmetric]] Some e by (cases x) (auto simp: Let_def)
  qed (use 2 in \<open>simp add: Let_def\<close>)
qed simp

lemma scanServerSideCopy_alias [alias_steps]:
  "alias_ok s \<Longrightarrow> alias_ok (fst (scanObjectDeletionServerSideCopy rows acc s))"
proof (induction rows acc s rule: scanObjectDeletionServerSideCopy.induct)
  case (2 r g promoted rows acc s)
  show ?case
  proof (cases g)
    case (Some seg)
    obtain s1 x where e: "scan_pieces seg s = (s1, x)" by fastforce
    have "alias_ok s1" using alias_fst [OF scan_pieces_alias [OF "2.prems"] e] .
    then show ?thesis using "2.IH"(2) [OF refl Some e [symmetric]] Some e by (cases x) (auto simp: Let_def)
  qed (use 2 in \<open>simp add: Let_def\<close>)
qed simp

lemma scan_deleted_alias [alias_steps]: "alias_ok s \<Longrightarrow> alias_ok (fst (scan_deleted_segments gs acc s))"
proof (induction gs arbitrary: acc s)
  case (Cons g gs)
  then show ?case
    using Convert_any [OF Cons.prems]
    by (auto split: sum.split prod.split)
qed simp

lemma encode_segments_alias [alias_steps]: "alias_ok s \<Longrightarrow> alias_ok (fst (encode_segments gs s))"
proof (induction gs arbitrary: s)
  case (Cons g gs)
  then show ?case
    using EnsurePieces_alias_ok [OF Cons.prems, of "rem_Pieces g"]
    by (auto split: sum.split prod.split) (metis fst_conv)+
qed simp

lemma with_tx_alias:
  "alias_ok (fst (body s)) \<Longrightarrow> alias_ok (fst (with_tx body s))"
  by (auto simp: with_tx_def alias_ok_def split: prod.split sum.split)

lemma promote_one_alias [alias_steps]: "alias_ok s \<Longrightarrow> alias_ok (fst (promote_one info new s))"
  using encode_segments_alias [of s "info_Segments info"]
  by (auto simp: promote_one_def Let_def split: sum.split prod.split)

lemma promote_alias [alias_steps]: "alias_ok s \<Longrightarrow> alias_ok (fst (promoteNewAncestors infos s))"
proof (induction infos s rule: promoteNewAncestors.induct)
  case (2 info infos s)
  show ?case
  proof (cases "info_PromotedAncestor info")
    case (Some new)
    obtain s1 x where e: "promote_one info new s = (s1, x)" by fastforce
    have "alias_ok s1" using alias_fst [OF promote_one_alias [OF "2.prems"] e] .
    then show ?thesis using "2.IH"(2) [OF Some e [symmetric]] Some e by (cases x) auto
  qed (use 2 in simp)
qed simp

lemma delete_sql_alias [alias_steps]:
  "alias_ok s \<Longrightarrow> alias_ok (fst (delete_objects_sql P s))"
  "alias_ok s \<Longrightarrow> alias_ok (fst (delete_objects_copy_sql P s))"
  by (simp_all add: delete_objects_sql_def delete_objects_copy_sql_def Let_def)

lemma delete_serverside_copy_alias [alias_steps]:
  "alias_ok s \<Longrightarrow> alias_ok (fst (delete_serverside_copy P s))"
proof -
  assume ok: "alias_ok s"
  obtain s1 rows where 1: "delete_objects_copy_sql P s = (s1, rows)" by fastforce
  obtain s2 x where 2: "scanObjectDeletionServerSideCopy rows [] s1 = (s2, x)" by fastforce
  have "alias_ok s2" using ok 1 2 delete_sql_alias(2) scanServerSideCopy_alias by (metis fst_conv)
  then show ?thesis using 1 2
    by (auto simp: delete_serverside_copy_def split: sum.split prod.split dest: alias_fst [OF promote_alias])
qed

lemma delete_with_config_alias [alias_steps]: "alias_ok s \<Longrightarrow> alias_ok (fst (delete_with_config cfg P s))"
proof -
  assume ok: "alias_ok s"
  obtain s1 x where "delete_serverside_copy P s = (s1, x)" by fastforce
  moreover obtain s2 rows where "delete_objects_sql P s = (s2, rows)" by fastforce
  ultimately show ?thesis
    using ok delete_serverside_copy_alias [OF ok, of P] delete_sql_alias(1) [OF ok, of P] scanObjectDeletion_alias
    by (auto simp: delete_with_config_def split: sum.split)
qed

lemma delete_exact_alias [alias_steps]: "alias_ok s \<Longrightarrow> alias_ok (fst (delete_exact cfg v loc s))"
  by (auto simp: delete_exact_def alias_steps split: sum.split)

lemma scan_outside_alias [alias_steps]: "alias_ok s \<Longrightarrow> alias_ok (fst (scan_outside_tx P s))"
proof -
  assume ok: "alias_ok s"
  obtain s2 rows where "delete_objects_sql P s = (s2, rows)" by fastforce
  then show ?thesis using delete_sql_alias(1) [OF ok, of P] scanObjectDeletion_alias
    by (simp add: scan_outside_tx_def)
qed

lemma delete_ops_alias [alias_steps]:
  assumes "alias_ok s"
  shows "alias_ok (fst (DeleteObjectExactVersion cfg v loc s))"
    "alias_ok (fst (DeleteObjectLastCommitted cfg now loc s))"
    "alias_ok (fst (DeletePendingObject obj s))"
    "alias_ok (fst (DeleteObjectAnyStatusAllVersions cfg loc s))"
    "alias_ok (fst (DeleteObjectsAllVersions cfg locs s))"
  using assms
  by (auto simp: DeleteObjectExactVersion_def DeleteObjectLastCommitted_def delete_last_def DeletePendingObject_def
      DeleteObjectAnyStatusAllVersions_def DeleteObjectsAllVersions_def require_deleted_fst alias_steps
      split: sum.split list.split intro!: with_tx_alias)

lemma begin_alias [alias_steps]:
  assumes "alias_ok s"
  shows "alias_ok (fst (BeginObjectNextVersion now b s))" "alias_ok (fst (BeginObjectExactVersion now b s))"
  using assms
  by (auto simp: BeginObjectNextVersion_def BeginObjectExactVersion_def Let_def split: sum.split option.split)

lemma write_segment_alias [alias_steps]:
  assumes "alias_ok s"
  shows "alias_ok (fst (CommitSegment now cs s))" "alias_ok (fst (CommitInlineSegment now ci s))"
  using assms alias_fst [OF EnsurePieces_alias [OF assms]]
  by (auto simp: CommitSegment_def CommitInlineSegment_def Let_def split: sum.split prod.split)

lemma update_offsets_alias [alias_steps]: "alias_ok s \<Longrightarrow> alias_ok (fst (updateSegmentOffsets st us s))"
  by (simp add: updateSegmentOffsets_def Let_def)

lemma delete_versions_alias [alias_steps]: "alias_ok s \<Longrightarrow> alias_ok (fst (delete_versions cfg loc vs acc s))"
proof (induction vs arbitrary: acc s)
  case (Cons v vs)
  obtain s1 x where e: "delete_exact cfg v loc s = (s1, x)" by fastforce
  have "alias_ok s1" using alias_fst [OF delete_exact_alias [OF Cons.prems] e] .
  with Cons.IH e show ?case by (cases x) auto
qed simp

lemma update_pending_alias [alias_steps]: "alias_ok s \<Longrightarrow> alias_ok (fst (update_pending obj f s))"
  by (simp add: update_pending_def Let_def)

lemma commit_object_alias [alias_steps]:
  assumes ok: "alias_ok s"
  shows "alias_ok (fst (CommitObject cfg opts s))"
proof -
  have "alias_ok (fst (commit_object_tx cfg opts s))"
  proof -
    let ?us = "convertToFinalSegments (fetchSegmentsForCommit (StreamID (co_Stream opts)) s)"
    obtain s1 x where 1: "updateSegmentOffsets (StreamID (co_Stream opts)) ?us s = (s1, x)" by fastforce
    have ok1: "alias_ok s1" using alias_fst [OF update_offsets_alias [OF ok] 1] .
    obtain s2 rows where 2: "update_pending (co_Stream opts) (commit_row opts ?us) s1 = (s2, rows)" by fastforce
    have ok2: "alias_ok s2" using alias_fst [OF update_pending_alias [OF ok1] 2] .
    show ?thesis using ok 1 2 ok1 ok2 alias_fst [OF delete_versions_alias [OF ok2]]
      by (auto simp: commit_object_tx_def Let_def split: sum.split prod.split list.split)
  qed
  then show ?thesis using ok with_tx_alias by (auto simp: CommitObject_def split: sum.split)
qed

lemma commit_with_segments_alias [alias_steps]:
  assumes ok: "alias_ok s"
  shows "alias_ok (fst (CommitObjectWithSegments opts s))"
proof -
  let ?st = "StreamID (cw_Stream opts)"
  have "alias_ok (fst (commit_with_segments_tx opts s))"
  proof (cases "determineCommitActions (cw_Segments opts) (fetchSegmentsForCommit ?st s)")
    case (Inr p)
    obtain final gone where p: "p = (final, gone)" by fastforce
    obtain s1 x where 1: "updateSegmentOffsets ?st final s = (s1, x)" by fastforce
    have ok1: "alias_ok s1" using alias_fst [OF update_offsets_alias [OF ok] 1] .
    obtain s2 y where 2: "deleteSegmentsNotInCommit ?st gone s1 = (s2, y)" by fastforce
    have "alias_ok (fst (deleteSegmentsNotInCommit ?st gone s1))"
      using ok1 by (simp add: deleteSegmentsNotInCommit_def Let_def scan_deleted_alias)
    from alias_fst [OF this 2] have ok2: "alias_ok s2" .
    obtain s3 rows where 3: "update_pending (cw_Stream opts) (commit_with_segments_row opts final) s2 = (s3, rows)"
      by fastforce
    have ok3: "alias_ok s3" using alias_fst [OF update_pending_alias [OF ok2] 3] .
    show ?thesis using Inr p 1 2 3 ok1 ok2 ok3
      by (auto simp: commit_with_segments_tx_def Let_def split: sum.split list.split)
  qed (use ok in \<open>simp add: commit_with_segments_tx_def Let_def\<close>)
  then show ?thesis using ok with_tx_alias by (auto simp: CommitObjectWithSegments_def split: sum.split)
qed

lemma finish_move_alias [alias_steps]:
  assumes ok: "alias_ok s"
  shows "alias_ok (fst (FinishMoveObject cfg nc opts s))"
proof -
  have "alias_ok (fst (finish_move_tx cfg nc opts s))"
    using ok by (auto simp: finish_move_tx_def Let_def split: sum.split list.split)
  then show ?thesis using ok with_tx_alias by (auto simp: FinishMoveObject_def split: sum.split)
qed

lemma finish_copy_alias [alias_steps]:
  assumes ok: "alias_ok s"
  shows "alias_ok (fst (FinishCopyObject cfg nc vl nb now opts s))"
proof -
  have clear: "alias_ok (fst (clear_destination cfg opts d a s))" for d a
    using ok alias_fst [OF delete_serverside_copy_alias [OF ok]]
    by (auto simp: clear_destination_def split: option.split sum.split prod.split list.split)
  have ins: "alias_ok (fst (insert_copy nc now opts src v segs a s'))" if "alias_ok s'" for src v segs a s'
    using that by (auto simp: insert_copy_def Let_def split: option.split)
  have "alias_ok (fst (finish_copy_tx cfg nc vl now opts s))"
  proof (cases "getObjectAtCopySourceAndDestination opts s")
    case (Inr p)
    obtain src anc d nv where p: "p = (src, anc, d, nv)" by (metis prod_cases4)
    obtain s1 x where c: "clear_destination cfg opts d anc s = (s1, x)" by fastforce
    have "alias_ok s1" using alias_fst [OF clear c] .
    then show ?thesis using Inr p c ok ins by (simp add: finish_copy_tx_def Let_def split: sum.split)
  qed (use ok in \<open>simp add: finish_copy_tx_def\<close>)
  then have "alias_ok (fst (with_tx (finish_copy_tx cfg nc vl now opts) s))" by (rule with_tx_alias)
  then show ?thesis using ok
    by (cases "with_tx (finish_copy_tx cfg nc vl now opts) s") (auto simp: FinishCopyObject_def split: sum.split)
qed

lemma update_alias [alias_steps]:
  assumes ok: "alias_ok s"
  shows "alias_ok (fst (UpdateSegmentPieces up s))" "alias_ok (fst (UpdateObjectMetadata now um s))"
proof -
  obtain s1 x where 1: "store_EnsurePieces (up_OldPieces up) s = (s1, x)" by fastforce
  have ok1: "alias_ok s1" using alias_fst [OF EnsurePieces_alias [OF ok] 1] .
  obtain s2 y where 2: "store_EnsurePieces (up_NewPieces up) s1 = (s2, y)" by fastforce
  have ok2: "alias_ok s2" using alias_fst [OF EnsurePieces_alias [OF ok1] 2] .
  show "alias_ok (fst (UpdateSegmentPieces up s))"
    using ok 1 2 ok1 ok2 by (auto simp: UpdateSegmentPieces_def Let_def split: sum.split list.split)
  show "alias_ok (fst (UpdateObjectMetadata now um s))"
    using ok by (auto simp: UpdateObjectMetadata_def Let_def split: sum.split)
qed

lemma load_segment_alias [alias_steps]:
  assumes ok: "alias_ok s"
  shows "alias_ok (fst (load_segment cfg g s))"
proof -
  have anc: "alias_ok (fst (updateWithAncestorSegment g ps s'))" if "alias_ok s'" for ps s'
    using that alias_fst [OF Convert_alias [OF that]]
    by (auto simp: updateWithAncestorSegment_def split: list.split sum.split prod.split)
  then show ?thesis using ok alias_fst [OF Convert_alias [OF ok]]
    by (auto simp: load_segment_def split: sum.split prod.split)
qed

lemma read_alias [alias_steps]:
  assumes "alias_ok s"
  shows "alias_ok (fst (GetSegmentByPosition cfg st pos s))" "alias_ok (fst (GetLatestObjectLastSegment cfg loc s))"
  using assms
  by (auto simp: GetSegmentByPosition_def GetLatestObjectLastSegment_def Let_def alias_steps
      split: list.split sum.split)

lemma fold_alias: "(\<And>r s. alias_ok s \<Longrightarrow> alias_ok (f r s)) \<Longrightarrow> alias_ok s \<Longrightarrow> alias_ok (fold f rs s)"
  by (induction rs arbitrary: s) auto

lemma sweep_one_alias:
  "alias_ok s \<Longrightarrow> alias_ok (delete_object_and_segments r s)" "alias_ok s \<Longrightarrow> alias_ok (delete_inactive_object t r s)"
  by (simp_all add: delete_object_and_segments_def delete_inactive_object_def Let_def alias_ok_def)

lemma sweep_alias [alias_steps]: "alias_ok s \<Longrightarrow> alias_ok (delete_batch inactive rows s)"
  unfolding delete_batch_def deleteObjectsAndSegments_def deleteInactiveObjectsAndSegments_def
  by (cases inactive) (simp_all add: fold_alias sweep_one_alias)

lemma single_step_alias: "single_step cfg s s' \<Longrightarrow> alias_ok s \<Longrightarrow> alias_ok s'"
  by (induction rule: single_step.induct) (simp_all add: alias_steps)

lemma meta_step_alias: "meta_step cfg s s' \<Longrightarrow> alias_ok s \<Longrightarrow> alias_ok s'"
  by (induction rule: meta_step.induct) (simp_all add: single_step_alias alias_steps)

lemma reachable_alias_ok: "reachable cfg s \<Longrightarrow> alias_ok s"
  unfolding reachable_def
proof (induction rule: rtranclp_induct)
  case base
  show ?case by (simp add: alias_ok_def empty_store_def)
qed (rule meta_step_alias)

end
