(* ===== verification/MetaVersions.thy ===== *)
theory MetaVersions
  imports MetaProps
begin

text \<open>
  How many committed versions a location has: at most one with \<open>MultipleVersions\<close>, as long as
  every copy finds its source where it was begun and \<open>CommitObjectWithSegments\<close> is not used over
  an earlier version. Includes what a successful commit leaves at a location, and the race of a
  copy with a move after which one location holds two committed versions.
\<close>

definition single_committed :: "store \<Rightarrow> bool" where
  "single_committed s \<longleftrightarrow> (\<forall>r \<in> set (objects s). \<forall>q \<in> set (objects s).
     Status r = Committed \<longrightarrow> Status q = Committed \<longrightarrow> same_location r q \<longrightarrow> r = q)"

lemma single_committedD:
  "single_committed s \<Longrightarrow> r \<in> set (objects s) \<Longrightarrow> q \<in> set (objects s) \<Longrightarrow> Status r = Committed \<Longrightarrow>
   Status q = Committed \<Longrightarrow> same_location r q \<Longrightarrow> r = q"
  by (auto simp: single_committed_def)

lemma single_subset: "single_committed s \<Longrightarrow> set (objects s') \<subseteq> set (objects s) \<Longrightarrow> single_committed s'"
  by (auto simp: single_committed_def)

lemma single_same: "single_committed s \<Longrightarrow> objects s' = objects s \<Longrightarrow> single_committed s'"
  by (simp add: single_committed_def)

lemma single_pending_row:
  "single_committed s \<Longrightarrow> objects s' = objects s @ [r] \<Longrightarrow> Status r = Pending \<Longrightarrow> single_committed s'"
  by (auto simp: single_committed_def)

lemma single_update:
  assumes "single_committed s" "objects s' = sql_update P f (objects s)"
    and "\<And>r. Status (f r) = Status r \<and> same_location (f r) r"
  shows "single_committed s'"
proof -
  have g: "Status (if P r then f r else r) = Status r" "same_location (if P r then f r else r) r" for r
    using assms(3) by auto
  have "r = q" if rq: "r \<in> set (objects s')" "q \<in> set (objects s')" "Status r = Committed"
    "Status q = Committed" "same_location r q" for r q
  proof -
    obtain r0 q0 where 0: "r0 \<in> set (objects s)" "q0 \<in> set (objects s)"
      and r: "r = (if P r0 then f r0 else r0)" and q: "q = (if P q0 then f q0 else q0)"
      using rq(1,2) by (auto simp: assms(2) sql_update_def)
    have "same_location r0 q0"
      using g(2) [of r0] g(2) [of q0] rq(5) unfolding r q same_location_def by simp
    moreover have "Status r0 = Committed" "Status q0 = Committed"
      using g(1) [of r0] g(1) [of q0] rq(3,4) unfolding r q by simp_all
    ultimately show ?thesis using single_committedD [OF assms(1) 0] r q by simp
  qed
  then show ?thesis by (auto simp: single_committed_def)
qed

lemma with_tx_single:
  assumes "single_committed s" "\<And>s' x. body s = (s', Inr x) \<Longrightarrow> single_committed s'"
  shows "single_committed (fst (with_tx body s))"
proof -
  obtain s' r where e: "with_tx body s = (s', r)" by fastforce
  then show ?thesis
    by (cases rule: with_tx_cases) (use assms e in \<open>auto simp: same_tables_def intro: single_same\<close>)
qed

subsection \<open>Committing\<close>

text \<open>What the objects are after a successful \<open>CommitObject\<close>.\<close>

lemma CommitObject_objects:
  assumes "store_inv s" "CommitObject cfg opts s = (s', Inr (r, deleted))"
  defines "obj \<equiv> co_Stream opts"
  shows "objects s' = filter (\<lambda>q. \<not> (same_location obj q \<and>
      (\<exists>p \<in> set (objects s). same_location obj p \<and> Status p = Committed \<and> Version p = Version q)))
    (sql_update (\<lambda>q. names_row obj q \<and> Status q = Pending)
      (commit_row opts (stream_segments (StreamID obj) s)) (objects s))"
    and "\<exists>q \<in> set (objects s). names_row obj q \<and> Status q = Pending \<and>
      r = commit_row opts (stream_segments (StreamID obj) s) q"
proof -
  have tx: "commit_object_tx cfg opts s = (s', Inr (r, deleted))"
    using assms(2) by (auto simp: CommitObject_def split: sum.splits elim!: with_tx_cases)
  then obtain s1 s2 rest where
    s1: "updateSegmentOffsets (StreamID obj) (stream_segments (StreamID obj) s) s = (s1, Inr ())"
    and s2: "update_pending obj (commit_row opts (stream_segments (StreamID obj) s)) s1 = (s2, r # rest)"
    and del: "delete_versions cfg (ObjectStream_Location obj)
       (map Version (filter (\<lambda>r. same_location obj r \<and> Status r = Committed) (objects s1))) [] s2
       = (s', Inr deleted)"
    unfolding obj_def by (rule commit_object_tx_success)
  have keys: "keys_ok s" using assms(1) by (simp add: store_inv_def)
  note s1r = updateSegmentOffsets_result [OF s1 keys]
  have inv2: "store_inv s2"
  proof (rule commit_pending_inv [OF assms(1) s1r(1,3) _ s1r(6) s2])
    show "complete_with (stream_segments (StreamID obj) s1) (commit_row opts (stream_segments (StreamID obj) s) q)" for q
      unfolding s1r(5)
      by (rule complete_set_offset [OF stream_segments_distinct [OF keys]]) (simp_all add: commit_row_simps)
  qed (simp_all add: s1r(4) commit_row_simps)
  have loc: "same_location (ObjectStream_Location obj) q \<longleftrightarrow> same_location obj q" for q :: Object
    by (simp add: same_location_def ObjectStream_Location_def)
  show "objects s' = filter (\<lambda>q. \<not> (same_location obj q \<and>
      (\<exists>p \<in> set (objects s). same_location obj p \<and> Status p = Committed \<and> Version p = Version q)))
    (sql_update (\<lambda>q. names_row obj q \<and> Status q = Pending)
      (commit_row opts (stream_segments (StreamID obj) s)) (objects s))"
    using delete_versions_inv [OF inv2 del] s2 s1r(1)
    by (auto simp: update_pending_def Let_def loc image_iff intro!: filter_cong)
  show "\<exists>q \<in> set (objects s). names_row obj q \<and> Status q = Pending \<and>
      r = commit_row opts (stream_segments (StreamID obj) s) q"
  proof -
    have "r \<in> commit_row opts (stream_segments (StreamID obj) s) `
        {q \<in> set (objects s). names_row obj q \<and> Status q = Pending}"
      using s2 s1r(1) by (auto simp: update_pending_def Let_def sql_returning_def map_eq_Cons_conv dest!: filter_eq_ConsD)
    then show ?thesis by auto
  qed
qed

lemma CommitObject_single:
  assumes inv: "store_inv s" and one: "single_committed s"
  shows "single_committed (fst (CommitObject cfg opts s))"
proof -
  obtain s' res where e: "CommitObject cfg opts s = (s', res)" by fastforce
  show ?thesis
  proof (cases res)
    case (Inl err)
    have "objects s' = objects s"
      using e Inl by (auto simp: CommitObject_def same_tables_def split: sum.splits elim!: with_tx_cases)
    then show ?thesis using single_same [OF one] e by simp
  next
    case (Inr rd)
    obtain r0 deleted where rd: "rd = (r0, deleted)" by fastforce
    let ?obj = "co_Stream opts" and ?f = "commit_row opts (stream_segments (StreamID (co_Stream opts)) s)"
    let ?P = "\<lambda>q. names_row ?obj q \<and> Status q = Pending"
    have o: "objects s' = filter (\<lambda>q. \<not> (same_location ?obj q \<and>
        (\<exists>p \<in> set (objects s). same_location ?obj p \<and> Status p = Committed \<and> Version p = Version q)))
      (sql_update ?P ?f (objects s))"
      by (rule CommitObject_objects(1) [OF inv]) (use e Inr rd in simp)
    have key: "object_key (?f q) = object_key q" for q by (rule commit_row_simps)
    have loc: "same_location a (?f q) \<longleftrightarrow> same_location a q" for a :: Object and q
      using key [of q] by (auto simp: same_location_def object_key_def)
    have "r = q" if rq: "r \<in> set (objects s')" "q \<in> set (objects s')" "Status r = Committed"
      "Status q = Committed" "same_location r q" for r q
    proof -
      have row: "(x \<in> set (objects s) \<and> \<not> same_location ?obj x) \<or>
          (same_location ?obj x \<and> (\<exists>y \<in> set (objects s). ?P y \<and> x = ?f y))"
        if x: "x \<in> set (objects s')" "Status x = Committed" for x
      proof -
        obtain y where y: "y \<in> set (objects s)" "x = (if ?P y then ?f y else y)"
          using x(1) by (auto simp: o sql_update_def)
        show ?thesis
        proof (cases "?P y")
          case True
          then have "same_location ?obj x" using y key [of y] by (auto simp: same_location_def object_key_def names_row_def)
          then show ?thesis using True y by auto
        next
          case False
          then have "x = y" "\<not> same_location ?obj x" using y x by (auto simp: o)
          then show ?thesis using y by simp
        qed
      qed
      have l: "same_location ?obj r \<longleftrightarrow> same_location ?obj q" using rq(5) by (auto simp: same_location_def)
      show ?thesis
      proof (cases "same_location ?obj r")
        case False
        then show ?thesis using row rq l single_committedD [OF one] by blast
      next
        case True
        then obtain r1 q1 where 1: "r1 \<in> set (objects s)" "?P r1" "r = ?f r1" "q1 \<in> set (objects s)" "?P q1" "q = ?f q1"
          using row [OF rq(1,3)] row [OF rq(2,4)] l by blast
        have "r1 = q1" by (rule object_row_unique [OF inv 1(1,4)])
          (use 1(2,5) in \<open>auto simp: names_row_def same_location_def\<close>)
        then show ?thesis using 1 by simp
      qed
    qed
    then show ?thesis using e by (simp add: single_committed_def)
  qed
qed

subsection \<open>Moving and copying\<close>

lemma scan_target_none:
  "scan_target v rows b h = Inr x \<Longrightarrow> r \<in> set rows \<Longrightarrow> Status r \<noteq> Committed"
  by (induction rows arbitrary: b h) (auto split: if_splits)

lemma FinishMove_single:
  assumes inv: "store_inv s" and one: "single_committed s" and cfg: "MultipleVersions cfg"
  shows "single_committed (fst (FinishMoveObject cfg nc opts s))"
proof -
  have "single_committed s'" if tx: "finish_move_tx cfg nc opts s = (s', Inr u)" for s' u
  proof -
    let ?C = "exact_version (fm_Stream opts) (Version (fm_Stream opts))"
    let ?to = "target_location (fm_Stream opts) (fm_NewBucket opts) (fm_NewEncryptedObjectKey opts)"
    from tx obtain version where v: "move_target_version cfg opts s = Inr version"
      and rows: "objects s' = sql_update ?C (move_row nc opts version) (objects s)"
      by (auto simp: finish_move_tx_def Let_def split: sum.splits prod.splits if_splits list.splits)
    from v cfg obtain x where "scan_target (Version (fm_Stream opts))
        (sort_key Version (filter (same_location ?to) (objects s))) False 0 = Inr x"
      by (auto simp: move_target_version_def res_bind_Inr_iff)
    then have free: "Status q \<noteq> Committed" if "q \<in> set (objects s)" "same_location ?to q" for q
      using scan_target_none [of _ _ _ _ _ q] that by simp
    have at: "same_location ?to (move_row nc opts version q)" if "?C q" for q
      using that by (simp add: same_location_def target_location_def move_row_def exact_version_def)
    have st: "Status (move_row nc opts version q) = Status q" for q by (simp add: move_row_def)
    have "r = q" if rq: "r \<in> set (objects s')" "q \<in> set (objects s')" "Status r = Committed"
      "Status q = Committed" "same_location r q" for r q
    proof -
      obtain r0 q0 where 0: "r0 \<in> set (objects s)" "q0 \<in> set (objects s)"
        and r: "r = (if ?C r0 then move_row nc opts version r0 else r0)"
        and q: "q = (if ?C q0 then move_row nc opts version q0 else q0)"
        using rq(1,2) by (auto simp: rows sql_update_def)
      consider "?C r0" "?C q0" | "\<not> ?C r0" "\<not> ?C q0" | "?C r0" "\<not> ?C q0" | "\<not> ?C r0" "?C q0" by blast
      then show ?thesis
      proof cases
        case 1
        then have "same_location r0 q0" "Version r0 = Version q0"
          by (auto simp: exact_version_def same_location_def)
        then show ?thesis using object_row_unique [OF inv 0] r q by simp
      next
        case 2
        then show ?thesis using r q single_committedD [OF one 0] rq by simp
      next
        case 3
        then have "same_location ?to q" using at [of r0] r rq(5) by (auto intro: same_location_trans)
        with 3 show ?thesis using free [OF 0(2)] q rq(4) by simp
      next
        case 4
        then have "same_location ?to r"
          using at [of q0] q rq(5) by (auto intro: same_location_trans same_location_sym)
        with 4 show ?thesis using free [OF 0(1)] r rq(3) by simp
      qed
    qed
    then show ?thesis by (auto simp: single_committed_def)
  qed
  then show ?thesis
    unfolding FinishMoveObject_def using one by (auto split: sum.split intro!: with_tx_single)
qed

lemma highest_version_None: "highest_version loc rows = None \<longleftrightarrow> (\<forall>r \<in> set rows. \<not> same_location loc r)"
  by (cases "filter (same_location loc) rows")
    (auto simp: highest_version_def filter_empty_conv dest: filter_eq_ConsD)

lemma fold_max_mem: "fold (\<lambda>x v. max v (f x)) rs (v :: int) \<in> insert v (f ` set rs)"
  by (induction rs arbitrary: v) (fastforce simp: max_def)+

lemma fold_max_ge: "v \<le> fold (\<lambda>x v. max v (f x)) rs (v :: int) \<and>
   (\<forall>r \<in> set rs. f r \<le> fold (\<lambda>x v. max v (f x)) rs v)"
proof (induction rs arbitrary: v)
  case (Cons r rs)
  have "max v (f r) \<le> fold (\<lambda>x v. max v (f x)) rs (max v (f r))" using Cons [of "max v (f r)"] by simp
  then have "v \<le> fold (\<lambda>x v. max v (f x)) rs (max v (f r))" "f r \<le> fold (\<lambda>x v. max v (f x)) rs (max v (f r))"
    by linarith+
  with Cons [of "max v (f r)"] show ?case by simp
qed simp

lemma highest_version_Some:
  assumes "highest_version loc rows = Some v"
  shows "(\<exists>r \<in> set rows. same_location loc r \<and> Version r = v) \<and>
    (\<forall>r \<in> set rows. same_location loc r \<longrightarrow> Version r \<le> v)"
proof -
  obtain r rs where f: "filter (same_location loc) rows = r # rs"
    and v: "v = fold (\<lambda>x v. max v (Version x)) rs (Version r)"
    using assms by (auto simp: highest_version_def split: list.splits)
  have "v \<in> Version ` set (r # rs)" using fold_max_mem [of Version rs "Version r"] v by auto
  moreover have "\<forall>q \<in> set (r # rs). Version q \<le> v" using fold_max_ge [of "Version r" Version rs] v by auto
  ultimately show ?thesis unfolding f [symmetric] by auto
qed

lemma copy_clears_destination:
  assumes inv: "store_inv s" and one: "single_committed s" and "source_in_place opts s"
    and cfg: "MultipleVersions cfg"
    and get: "getObjectAtCopySourceAndDestination opts s = Inr (src, ancestor, dst, nv)"
    and cl: "clear_destination cfg opts dst ancestor s = (s1, Inr a)"
    and q: "q \<in> set (objects s1)" "Status q = Committed"
  shows "\<not> same_location (target_location (fc_Stream opts) (fc_NewBucket opts) (fc_NewEncryptedObjectKey opts)) q"
proof
  let ?dest = "target_location (fc_Stream opts) (fc_NewBucket opts) (fc_NewEncryptedObjectKey opts)"
  let ?h = "highest_version ?dest (filter (\<lambda>r. Status r = Committed) (objects s))"
  assume at: "same_location ?dest q"
  have q0: "q \<in> set (objects s)" using clear_destination_inv [OF inv cl] q by auto
  obtain r rs where "filter (\<lambda>r. exact_version (fc_Stream opts) (Version (fc_Stream opts)) r \<and> Status r = Committed)
      (objects s) = r # rs"
    using assms(3) by (cases "filter (\<lambda>r. exact_version (fc_Stream opts) (Version (fc_Stream opts)) r \<and>
      Status r = Committed) (objects s)") (auto simp: source_in_place_def filter_empty_conv)
  then have dst: "dst = (case ?h of None \<Rightarrow> None | Some v \<Rightarrow> find (exact_version ?dest v) (objects s))"
    using get by (auto simp: getObjectAtCopySourceAndDestination_def Let_def split: if_splits)
  have "?h \<noteq> None" using q0 q(2) at by (auto simp: highest_version_None)
  then obtain v where v: "?h = Some v" by blast
  then obtain p where p: "p \<in> set (objects s)" "Status p = Committed" "same_location ?dest p" "Version p = v"
    using highest_version_Some [OF v] by auto
  have "p = q" by (rule single_committedD [OF one p(1) q0 p(2) q(2)])
      (use p(3) at in \<open>auto intro: same_location_trans same_location_sym\<close>)
  have "find (exact_version ?dest v) (objects s) \<noteq> None"
    using p by (auto simp: find_None_iff exact_version_def)
  then obtain d where d: "dst = Some d" "d \<in> set (objects s)" "exact_version ?dest v d"
    using dst v find_SomeD by fastforce
  have "d = q" by (rule object_row_unique [OF inv d(2) q0])
      (use d(3) p(4) at \<open>p = q\<close> in \<open>auto simp: exact_version_def intro: same_location_trans same_location_sym\<close>)
  obtain infos where "delete_serverside_copy (exact_version d (Version d)) s = (s1, Inr infos)"
    using cl d(1) cfg by (auto simp: clear_destination_def split: prod.splits sum.splits if_splits list.splits option.splits)
  then have "objects s1 = sql_delete (exact_version d (Version d)) (objects s)"
    using delete_serverside_copy_inv [OF inv] by blast
  then show False using q(1) \<open>d = q\<close> by (simp add: sql_simps exact_version_def)
qed

lemma FinishCopy_single:
  assumes inv: "store_inv s" and one: "single_committed s" and src: "source_in_place opts s"
    and cfg: "MultipleVersions cfg"
  shows "single_committed (fst (FinishCopyObject cfg nc vl nb now opts s))"
proof -
  let ?dest = "target_location (fc_Stream opts) (fc_NewBucket opts) (fc_NewEncryptedObjectKey opts)"
  have tx: "single_committed s'" if tx: "finish_copy_tx cfg nc vl now opts s = (s', Inr r)" for s' r
  proof -
    obtain source ancestor dst nv where
      get: "getObjectAtCopySourceAndDestination opts s = Inr (source, ancestor, dst, nv)"
      using tx by (auto simp: finish_copy_tx_def split: sum.splits)
    have "s' = s \<or> (\<exists>s1 a version segs. clear_destination cfg opts dst ancestor s = (s1, Inr a) \<and>
        insert_copy nc now opts source version segs a s1 = (s', Inr r))"
      using tx get by (auto simp: finish_copy_tx_def Let_def split: sum.splits prod.splits if_splits)
    then show ?thesis
    proof (elim disjE exE conjE)
      fix s1 a version segs
      assume cl: "clear_destination cfg opts dst ancestor s = (s1, Inr a)"
        and ins: "insert_copy nc now opts source version segs a s1 = (s', Inr r)"
      let ?row = "copy_row nc now opts source version"
      have rows: "objects s' = objects s1 @ [?row]"
        using ins by (auto simp: insert_copy_def Let_def sql_insert_def split: if_splits option.splits)
      have sub: "set (objects s1) \<subseteq> set (objects s)" using clear_destination_inv [OF inv cl] by blast
      have one1: "single_committed s1" by (rule single_subset [OF one sub])
      have "same_location ?dest ?row"
        by (simp add: same_location_def target_location_def copy_row_def)
      then have free: "\<not> same_location ?row q" if "q \<in> set (objects s1)" "Status q = Committed" for q
        using copy_clears_destination [OF inv one src cfg get cl that] same_location_trans by blast
      have "r = q" if "r \<in> set (objects s')" "q \<in> set (objects s')" "Status r = Committed"
        "Status q = Committed" "same_location r q" for r q
        using that free same_location_sym single_committedD [OF one1] unfolding rows by auto
      then show ?thesis by (auto simp: single_committed_def)
    qed (use one in simp)
  qed
  obtain s' res where e: "with_tx (finish_copy_tx cfg nc vl now opts) s = (s', res)" by fastforce
  have "single_committed (fst (with_tx (finish_copy_tx cfg nc vl now opts) s))"
    by (rule with_tx_single [OF one]) (rule tx)
  then have "single_committed s'" using e by simp
  then show ?thesis using e one by (auto simp: FinishCopyObject_def split: sum.splits)
qed

subsection \<open>Committing with a list of segments\<close>

lemma CommitObjectWithSegments_objects:
  assumes "store_inv s" "CommitObjectWithSegments opts s = (s', Inr res)"
  shows "\<exists>f. objects s' = sql_update (\<lambda>q. names_row (cw_Stream opts) q \<and> Status q = Pending) f (objects s) \<and>
    (\<forall>q. same_location (f q) q)"
proof -
  let ?st = "StreamID (cw_Stream opts)"
  from assms(2) have tx: "commit_with_segments_tx opts s = (s', Inr res)"
    by (auto simp: CommitObjectWithSegments_def split: sum.splits elim!: with_tx_cases)
  then obtain fin del deleted s1 s2 where
    s1: "updateSegmentOffsets ?st fin s = (s1, Inr ())"
    and s2: "deleteSegmentsNotInCommit ?st del s1 = (s2, Inr deleted)"
    and s3: "fst (update_pending (cw_Stream opts) (commit_with_segments_row opts fin) s2) = s'"
    by (auto simp: commit_with_segments_tx_def Let_def split: sum.splits prod.splits if_splits list.splits)
  have "keys_ok s" using assms(1) by (simp add: store_inv_def)
  then have "objects s2 = objects s"
    using updateSegmentOffsets_result(1) [OF s1] deleteSegmentsNotInCommit_result [OF s2] by (simp add: same_tables_def)
  then have "objects s' = sql_update (\<lambda>q. names_row (cw_Stream opts) q \<and> Status q = Pending)
      (commit_with_segments_row opts fin) (objects s)"
    using s3 by (auto simp: update_pending_def Let_def)
  then show ?thesis
    by (intro exI [of _ "commit_with_segments_row opts fin"]) (simp add: commit_with_segments_row_def same_location_def)
qed

lemma CommitWithSegments_single:
  assumes inv: "store_inv s" and one: "single_committed s" and none: "none_committed opts s"
  shows "single_committed (fst (CommitObjectWithSegments opts s))"
proof -
  let ?obj = "cw_Stream opts"
  let ?P = "\<lambda>q. names_row ?obj q \<and> Status q = Pending"
  obtain s' res where e: "CommitObjectWithSegments opts s = (s', res)" by fastforce
  show ?thesis
  proof (cases res)
    case (Inl err)
    have "objects s' = objects s"
      using e Inl by (auto simp: CommitObjectWithSegments_def same_tables_def split: sum.splits elim!: with_tx_cases)
    then show ?thesis using single_same [OF one] e by simp
  next
    case (Inr x)
    then obtain f where o: "objects s' = sql_update ?P f (objects s)" and f: "\<And>q. same_location (f q) q"
      using CommitObjectWithSegments_objects [OF inv] e by blast
    have "r = q" if rq: "r \<in> set (objects s')" "q \<in> set (objects s')" "Status r = Committed"
      "Status q = Committed" "same_location r q" for r q
    proof -
      obtain r0 q0 where 0: "r0 \<in> set (objects s)" "q0 \<in> set (objects s)"
        and r: "r = (if ?P r0 then f r0 else r0)" and q: "q = (if ?P q0 then f q0 else q0)"
        using rq(1,2) by (auto simp: o sql_update_def)
      have at: "same_location ?obj (f p)" if "?P p" for p
        using that f [of p] by (simp add: names_row_def same_location_def)
      have free: False if "p \<in> set (objects s)" "Status p = Committed" "same_location ?obj p" for p
        using none that by (auto simp: none_committed_def)
      show ?thesis
      proof (cases "?P r0"; cases "?P q0")
        assume "?P r0" "?P q0"
        then have "r0 = q0" using stream_unique [OF inv 0] by (simp add: names_row_def)
        then show ?thesis by (simp add: r q)
      next
        assume p: "?P r0" "\<not> ?P q0"
        then have e: "r = f r0" "q = q0" using r q by (simp_all only: if_True if_False simp_thms)
        have "same_location ?obj q0" using at [OF p(1)] rq(5) unfolding e by (rule same_location_trans)
        then show ?thesis using free [OF 0(2)] rq(4) e(2) by blast
      next
        assume p: "\<not> ?P r0" "?P q0"
        then have e: "r = r0" "q = f q0" using r q by (simp_all only: if_True if_False simp_thms)
        have "same_location ?obj r0"
          using at [OF p(2)] same_location_sym [OF rq(5)] unfolding e by (rule same_location_trans)
        then show ?thesis using free [OF 0(1)] rq(3) e(1) by blast
      next
        assume "\<not> ?P r0" "\<not> ?P q0"
        then have e: "r = r0" "q = q0" using r q by (simp_all only: if_False)
        show ?thesis using single_committedD [OF one 0] rq(3-) unfolding e by blast
      qed
    qed
    then show ?thesis using e by (auto simp: single_committed_def)
  qed
qed

subsection \<open>All operations\<close>

lemma delete_objects_subset:
  assumes inv: "store_inv s"
  shows "set (objects (fst (DeleteObjectExactVersion cfg v loc s))) \<subseteq> set (objects s)"
    "set (objects (fst (DeleteObjectLastCommitted cfg now loc s))) \<subseteq> set (objects s)"
    "set (objects (fst (DeletePendingObject obj s))) \<subseteq> set (objects s)"
    "set (objects (fst (DeleteObjectAnyStatusAllVersions cfg loc s))) \<subseteq> set (objects s)"
    "set (objects (fst (DeleteObjectsAllVersions cfg locs s))) \<subseteq> set (objects s)"
proof -
  have tx: "set (objects (fst (with_tx body s))) \<subseteq> set (objects s)"
    if "\<And>s' x. body s = (s', Inr x) \<Longrightarrow> set (objects s') \<subseteq> set (objects s)" for body :: "store \<Rightarrow> store \<times> 'a meta_res"
  proof -
    obtain s' r where e: "with_tx body s = (s', r)" by fastforce
    then show ?thesis by (cases rule: with_tx_cases) (use that e in \<open>auto simp: same_tables_def\<close>)
  qed
  show "set (objects (fst (DeleteObjectExactVersion cfg v loc s))) \<subseteq> set (objects s)"
    unfolding DeleteObjectExactVersion_def
    by (rule tx) (use delete_exact_inv [OF inv] in \<open>force simp: sql_simps\<close>)
  show "set (objects (fst (DeleteObjectLastCommitted cfg now loc s))) \<subseteq> set (objects s)"
    unfolding DeleteObjectLastCommitted_def
    by (rule tx) (use delete_with_config_inv [OF inv] in \<open>force simp: delete_last_def sql_simps split: sum.splits\<close>)
  show "set (objects (fst (DeletePendingObject obj s))) \<subseteq> set (objects s)"
    "set (objects (fst (DeleteObjectAnyStatusAllVersions cfg loc s))) \<subseteq> set (objects s)"
    "set (objects (fst (DeleteObjectsAllVersions cfg locs s))) \<subseteq> set (objects s)"
    using scan_outside_tx_inv [OF inv]
    by (auto simp: DeletePendingObject_def DeleteObjectAnyStatusAllVersions_def DeleteObjectsAllVersions_def
        require_deleted_fst sql_simps split: sum.split list.split)
qed

lemma delete_batch_subset: "set (objects (delete_batch inactive rows s)) \<subseteq> set (objects s)"
  using delete_batch_filter [of inactive rows s] by auto

lemma write_segment_objects:
  "objects (fst (CommitSegment now cs s)) = objects s"
  "objects (fst (CommitInlineSegment now ci s)) = objects s"
  "objects (fst (UpdateSegmentPieces up s)) = objects s"
  using store_EnsurePieces_tables
  by (auto simp: CommitSegment_def CommitInlineSegment_def UpdateSegmentPieces_def Let_def same_tables_def
      split: sum.split prod.split list.split)

lemma single_step_single:
  "single_step cfg s s' \<Longrightarrow> MultipleVersions cfg \<Longrightarrow> store_inv s \<Longrightarrow> single_committed s \<Longrightarrow> single_committed s'"
proof (induction rule: single_step.induct)
  case (begin_next b s now)
  then show ?case
    by (auto simp: BeginObjectNextVersion_def Let_def sql_insert_def begin_row_def
        split: sum.split option.split intro: single_pending_row)
next
  case (begin_exact b s now)
  then show ?case
    by (auto simp: BeginObjectExactVersion_def Let_def sql_insert_def begin_row_def
        split: sum.split option.split intro: single_pending_row)
next
  case (update_metadata s now um)
  then show ?case
    by (auto simp: UpdateObjectMetadata_def Let_def same_location_def split: sum.split
        intro!: single_update [of s])
next
  case (get_segment s st pos)
  then show ?case using reads_tables(1) by (auto simp: same_tables_def intro: single_same)
next
  case (get_last_segment s loc)
  then show ?case using reads_tables(2) by (auto simp: same_tables_def intro: single_same)
qed (auto intro: single_same [OF _ write_segment_objects(1)] single_same [OF _ write_segment_objects(2)]
    single_same [OF _ write_segment_objects(3)] CommitObject_single CommitWithSegments_single FinishMove_single FinishCopy_single
    single_subset [OF _ delete_objects_subset(1)] single_subset [OF _ delete_objects_subset(2)]
    single_subset [OF _ delete_objects_subset(3)] single_subset [OF _ delete_objects_subset(4)]
    single_subset [OF _ delete_objects_subset(5)]
    single_subset [OF _ delete_batch_subset])

lemma single_steps:
  assumes "(single_step cfg)\<^sup>*\<^sup>* empty_store s" "MultipleVersions cfg"
  shows "store_inv s \<and> single_committed s"
  using assms(1)
proof (induction rule: rtranclp_induct)
  case base
  have "single_committed empty_store" by (simp add: single_committed_def empty_store_def)
  then show ?case using empty_store_inv by simp
next
  case (step s s')
  then show ?case using single_step_inv single_step_single [OF step(2) assms(2)] by blast
qed

text \<open>
  Property C7. With \<open>MultipleVersions\<close> on, whatever the order of begins, commits, deletions,
  moves, copies, updates and background sweeps, a location has at most one committed version,
  under two conditions the steps carry: every copy finds its source object at the location and
  version it was begun with (see \<open>copy_racing_move\<close> for one that does not), and
  \<open>CommitObjectWithSegments\<close>, which the satellite does not call, is only used at a location without a
  committed version (see \<open>commit_with_segments_keeps_earlier\<close>).
\<close>

theorem at_most_one_committed:
  assumes "MultipleVersions cfg" and "(single_step cfg)\<^sup>*\<^sup>* empty_store s"
    and "r \<in> set (objects s)" "q \<in> set (objects s)"
    and "Status r = Committed" "Status q = Committed" "same_location r q"
  shows "r = q"
  using single_steps [OF assms(2,1)] single_committedD assms(3-) by blast

text \<open>A second object written at the same location; its commit removes the first.\<close>

definition ex_second :: store where
  "ex_second = fst (CommitObject ex_cfg (ex_commit (ex_stream 2 6))
     (fst (BeginObjectExactVersion 20 (ex_begin (ex_stream 2 6)) ex_committed)))"

lemma ex_second_reachable: "(single_step ex_cfg)\<^sup>*\<^sup>* empty_store ex_second"
proof -
  let ?b = "fst (BeginObjectExactVersion 20 (ex_begin (ex_stream 2 6)) ex_committed)"
  have "single_step ex_cfg empty_store ex_begun"
    using begin_exact [of "ex_begin (ex_stream 1 5)" empty_store ex_cfg 10]
    by (simp add: ex_begun_def fresh_stream_def empty_store_def)
  moreover have "single_step ex_cfg ex_begun ex_written" unfolding ex_written_def by (rule commit_inline)
  moreover have "single_step ex_cfg ex_written ex_committed" unfolding ex_committed_def by (rule commit_object)
  moreover have "fresh_stream (StreamID (begin_Stream (ex_begin (ex_stream 2 6)))) ex_committed"
    unfolding fresh_stream_def by code_simp
  then have "single_step ex_cfg ex_committed ?b" by (rule begin_exact)
  moreover have "single_step ex_cfg ?b ex_second" unfolding ex_second_def by (rule commit_object)
  ultimately show ?thesis by (meson rtranclp.rtrancl_into_rtrancl rtranclp.rtrancl_refl)
qed

theorem at_most_one_committed_witness:
  "length (objects ex_second) = 1 \<and> Status (hd (objects ex_second)) = Committed \<and>
   Version (hd (objects ex_second)) = 2 \<and> hd (objects ex_second) = last (objects ex_second)"
proof -
  have c: "length (objects ex_second) = 1 \<and> Status (hd (objects ex_second)) = Committed \<and>
      Version (hd (objects ex_second)) = 2"
    by code_simp
  then have "objects ex_second \<noteq> []" "hd (objects ex_second) = last (objects ex_second)"
    by (cases "objects ex_second"; simp)+
  with c show ?thesis
    using at_most_one_committed [of ex_cfg ex_second "hd (objects ex_second)" "last (objects ex_second)"]
      ex_second_reachable by (simp add: ex_cfg_def)
qed

text \<open>The same, committed with a list of its segments: the first version stays beside it.\<close>

definition ex_beside :: store where
  "ex_beside = fst (CommitObjectWithSegments
     \<lparr>cw_Stream = ex_stream 2 6, cw_EncryptedMetadata = None, cw_EncryptedMetadataNonce = None,
      cw_EncryptedMetadataEncryptedKey = None, cw_Segments = []\<rparr>
     (fst (BeginObjectExactVersion 20 (ex_begin (ex_stream 2 6)) ex_committed)))"

lemma ex_beside_reachable: "reachable ex_cfg ex_beside"
proof -
  let ?b = "fst (BeginObjectExactVersion 20 (ex_begin (ex_stream 2 6)) ex_committed)"
  have "fresh_stream (StreamID (begin_Stream (ex_begin (ex_stream 2 6)))) ex_committed"
    unfolding fresh_stream_def by code_simp
  then have "reachable ex_cfg ?b" by (intro reachable_step [OF ex_reachable(3)] single begin_exact)
  then show ?thesis unfolding ex_beside_def by (rule reachable_step) (rule commit_with_segments)
qed

lemma beside_objects: "map (\<lambda>r. (object_key r, Status r)) (objects ex_beside)
    = [((1, ''b'', ''k'', 1), Committed), ((1, ''b'', ''k'', 2), Committed)]"
  by code_simp

text \<open>
  Lemma. \<open>CommitObjectWithSegments\<close> leaves an earlier committed version of the location in place,
  also with \<open>MultipleVersions\<close>, where \<open>CommitObject\<close> deletes it.
\<close>

theorem commit_with_segments_keeps_earlier:
  "MultipleVersions ex_cfg \<and> reachable ex_cfg ex_beside \<and>
   map (\<lambda>r. (object_key r, Status r)) (objects ex_beside)
     = [((1, ''b'', ''k'', 1), Committed), ((1, ''b'', ''k'', 2), Committed)]"
  using ex_beside_reachable beside_objects by (simp add: ex_cfg_def)

text \<open>A copy begun at ``k'' and finished after the object was moved to the copy's destination.\<close>

definition ex_keys :: "EncryptedKeyAndNonce list" where
  "ex_keys = [\<lparr>key_Position = \<lparr>Part = 0, Index = 0\<rparr>, key_EncryptedKeyNonce = [3], key_EncryptedKey = [4]\<rparr>]"

definition ex_move :: FinishMoveOpts where
  "ex_move = \<lparr>fm_Stream = ex_stream 1 5, fm_NewBucket = ''b'', fm_NewSegmentKeys = ex_keys,
     fm_NewEncryptedObjectKey = ''k2'', fm_NewEncryptedMetadataKeyNonce = 0, fm_NewEncryptedMetadataKey = None\<rparr>"

definition ex_copy :: FinishCopyOpts where
  "ex_copy = \<lparr>fc_Stream = ex_stream 1 5, fc_NewBucket = ''b'', fc_NewEncryptedObjectKey = ''k2'',
     fc_NewStreamID = 9, fc_OverrideMetadata = False, fc_NewEncryptedMetadata = None,
     fc_NewEncryptedMetadataKeyNonce = 0, fc_NewEncryptedMetadataKey = None, fc_NewSegmentKeys = ex_keys\<rparr>"

definition ex_moved :: store where
  "ex_moved = fst (FinishMoveObject ex_cfg (\<lambda>_. None) ex_move ex_committed)"

definition ex_raced :: store where
  "ex_raced = fst (FinishCopyObject ex_cfg (\<lambda>_. None) (\<lambda>_ _. Inr ()) (\<lambda>_. []) 30 ex_copy ex_moved)"

lemma ex_raced_reachable: "reachable ex_cfg ex_raced"
proof -
  have "reachable ex_cfg ex_moved" unfolding ex_moved_def
    by (rule reachable_step [OF ex_reachable(3) single [OF finish_move]])
  moreover have "fresh_stream (fc_NewStreamID ex_copy) ex_moved" unfolding fresh_stream_def by code_simp
  ultimately show ?thesis unfolding ex_raced_def by (rule reachable_step [OF _ any_finish_copy])
qed

text \<open>
  Lemma. Without that proviso it fails: when the source was moved to the destination of
  the copy in between, the only row the query of \<open>FinishCopyObject\<close> returns is the
  destination's, the code reads it as the source, and the copy is inserted beside it. The
  location then has two committed versions, and the older one is visible again once the newer
  one is deleted.
\<close>

theorem copy_racing_move:
  "reachable ex_cfg ex_raced \<and>
   (let dest = target_location (ex_stream 1 5) ''b'' ''k2'' in
    length (filter (\<lambda>r. same_location dest r \<and> Status r = Committed) (objects ex_raced)) = 2 \<and>
    map_sum id StreamID (GetObjectLastCommitted 40 dest ex_raced) = Inr 9 \<and>
    map_sum id StreamID (GetObjectLastCommitted 40 dest
      (fst (DeleteObjectExactVersion ex_cfg 2 dest ex_raced))) = Inr 5)"
  using ex_raced_reachable
proof (rule conjI)
  show "let dest = target_location (ex_stream 1 5) ''b'' ''k2'' in
    length (filter (\<lambda>r. same_location dest r \<and> Status r = Committed) (objects ex_raced)) = 2 \<and>
    map_sum id StreamID (GetObjectLastCommitted 40 dest ex_raced) = Inr 9 \<and>
    map_sum id StreamID (GetObjectLastCommitted 40 dest
      (fst (DeleteObjectExactVersion ex_cfg 2 dest ex_raced))) = Inr 5"
    by code_simp
qed

lemma CommitObject_disallow:
  assumes "store_inv s" "CommitObject cfg opts s = (s', Inr (r, deleted))" "co_DisallowDelete opts"
  shows "\<not> (\<exists>q \<in> set (objects s). same_location (co_Stream opts) q \<and> Status q = Committed)"
proof -
  let ?st = "StreamID (co_Stream opts)"
  have "commit_object_tx cfg opts s = (s', Inr (r, deleted))"
    using assms(2) by (auto simp: CommitObject_def split: sum.splits elim!: with_tx_cases)
  then obtain s1 where "updateSegmentOffsets ?st (stream_segments ?st s) s = (s1, Inr ())"
    "filter (\<lambda>r. same_location (co_Stream opts) r \<and> Status r = Committed) (objects s1) = []"
    using assms(3) by (elim commit_object_tx_success) auto
  moreover from this have "objects s1 = objects s"
    using updateSegmentOffsets_result(1) assms(1) by (auto simp: store_inv_def)
  ultimately show ?thesis by (auto simp: filter_empty_conv)
qed

text \<open>
  Property C10. What a successful \<open>CommitObject\<close> leaves: the returned row is the only committed
  one at its location, complete with respect to the segments of its stream; objects at other
  locations are as before; and without permission to delete it
  only succeeds when there was no committed version.
\<close>

theorem CommitObject_result:
  assumes "store_inv s" and "CommitObject cfg opts s = (s', Inr (r, deleted))"
  defines "obj \<equiv> co_Stream opts"
  shows "filter (\<lambda>q. same_location obj q \<and> Status q = Committed) (objects s') = [r] \<and>
    StreamID r = StreamID obj \<and> Version r = Version obj \<and>
    complete_with (stream_segments (StreamID r) s') r \<and>
    filter (\<lambda>q. \<not> same_location obj q) (objects s') = filter (\<lambda>q. \<not> same_location obj q) (objects s) \<and>
    (co_DisallowDelete opts \<longrightarrow>
       \<not> (\<exists>q \<in> set (objects s). same_location obj q \<and> Status q = Committed))"
proof -
  let ?f = "commit_row opts (stream_segments (StreamID obj) s)"
  let ?P = "\<lambda>q. names_row obj q \<and> Status q = Pending"
  let ?old = "\<lambda>q. \<exists>p \<in> set (objects s). same_location obj p \<and> Status p = Committed \<and> Version p = Version q"
  have o: "objects s' = filter (\<lambda>q. \<not> (same_location obj q \<and> ?old q)) (sql_update ?P ?f (objects s))"
    unfolding obj_def by (rule CommitObject_objects(1) [OF assms(1,2)])
  obtain p where p: "p \<in> set (objects s)" "?P p" "r = ?f p"
    using CommitObject_objects(2) [OF assms(1,2)] obj_def by blast
  have key: "object_key (?f q) = object_key q" "StreamID (?f q) = StreamID q" "Status (?f q) = Committed" for q
    by (simp_all add: commit_row_simps)
  have loc: "same_location obj (?f q) \<longleftrightarrow> same_location obj q" "Version (?f q) = Version q" for q
    using key(1) [of q] by (auto simp: same_location_def object_key_def)
  have only: "q = p" if "q \<in> set (objects s)" "?P q" for q
    by (rule object_row_unique [OF assms(1) that(1) p(1)])
      (use that p(2) in \<open>auto simp: names_row_def same_location_def\<close>)
  have notold: "\<not> ?old p"
  proof
    assume "?old p"
    then obtain q where q: "q \<in> set (objects s)" "same_location obj q" "Status q = Committed" "Version q = Version p" by blast
    have "q = p" by (rule object_row_unique [OF assms(1) q(1) p(1) _ q(4)])
        (use q(2) p(2) in \<open>auto simp: names_row_def same_location_def\<close>)
    then show False using q(3) p(2) by simp
  qed
  let ?g = "\<lambda>q. if ?P q then ?f q else q"
  let ?A = "\<lambda>q. \<not> (same_location obj q \<and> ?old q) \<and> same_location obj q \<and> Status q = Committed"
  have A: "?A (?g q) \<longleftrightarrow> q = p" if q: "q \<in> set (objects s)" for q
  proof (cases "?P q")
    case True
    then have "q = p" by (rule only [OF q])
    then show ?thesis using True notold loc key(3) by (auto simp: names_row_def)
  next
    case False
    then show ?thesis using p(2) q by auto
  qed
  have d: "distinct (objects s)"
    using assms(1) by (auto simp: store_inv_def keys_ok_def unique_key_def distinct_map)
  have "filter (\<lambda>q. q = p) (objects s) = [p]"
    using unique_filter [of "\<lambda>x. x" "objects s" p] d p(1) by (simp add: unique_key_def)
  moreover have "filter (\<lambda>q. ?A (?g q)) (objects s) = filter (\<lambda>q. q = p) (objects s)"
    by (rule filter_cong [OF refl A])
  ultimately have one: "filter (\<lambda>q. same_location obj q \<and> Status q = Committed) (objects s') = [r]"
    using p(2,3) by (simp add: o sql_update_def filter_map comp_def)
  have "filter (\<lambda>q. \<not> same_location obj q) (objects s') = filter (\<lambda>q. \<not> same_location obj q) (sql_update ?P ?f (objects s))"
    unfolding o filter_filter by (rule filter_cong) auto
  also have "\<dots> = filter (\<lambda>q. \<not> same_location obj q) (objects s)"
    by (rule filter_sql_update_other) (auto simp: loc names_row_def)
  finally have rest: "filter (\<lambda>q. \<not> same_location obj q) (objects s') = filter (\<lambda>q. \<not> same_location obj q) (objects s)" .
  have r: "r \<in> set (objects s')" "Status r = Committed" using filter_eq_ConsD [OF one] by auto
  have "store_inv s'" using CommitObject_inv [OF assms(1), of cfg opts] assms(2) by simp
  then have "complete_with (stream_segments (StreamID r) s') r"
    using r by (simp add: store_inv_def committed_complete_def)
  moreover have "\<not> (\<exists>q \<in> set (objects s). same_location obj q \<and> Status q = Committed)" if "co_DisallowDelete opts"
    using CommitObject_disallow [OF assms(1,2) that] by (simp add: obj_def)
  moreover have "StreamID r = StreamID obj" "Version r = Version obj"
    using p(2,3) key(2) loc(2) by (auto simp: names_row_def)
  ultimately show ?thesis using one rest by blast
qed

theorem CommitObject_result_witness:
  "\<exists>r. filter (\<lambda>q. same_location (ex_stream 1 5) q \<and> Status q = Committed) (objects ex_committed) = [r] \<and>
     StreamID r = 5"
proof -
  have inv: "store_inv ex_written" by (rule reachable_inv [OF ex_reachable(2)])
  have "\<exists>r d. snd (CommitObject ex_cfg (ex_commit (ex_stream 1 5)) ex_written) = Inr (r, d)"
    by (intro exI) code_simp
  then obtain r d where "CommitObject ex_cfg (ex_commit (ex_stream 1 5)) ex_written = (ex_committed, Inr (r, d))"
    by (metis ex_committed_def prod.collapse)
  from CommitObject_result [OF inv this] show ?thesis by (auto simp: ex_commit_def ex_stream_def)
qed

text \<open>
  Lemma. \<open>BeginObjectNextVersion\<close> adds exactly one pending row, whose version is one more
  than the highest at its location, or 1 at a new location, so it is above every existing one.
\<close>

theorem BeginObjectNextVersion_result:
  assumes "BeginObjectNextVersion now opts s = (s', Inr r)"
  shows "objects s' = objects s @ [begin_row now (Version r) opts] \<and> segments s' = segments s \<and>
    (\<forall>q \<in> set (objects s). same_location (begin_Stream opts) q \<longrightarrow> Version q < Version r) \<and>
    ((\<forall>q \<in> set (objects s). \<not> same_location (begin_Stream opts) q) \<longrightarrow> Version r = 1) \<and>
    Status r = Pending \<and> StreamID r = StreamID (begin_Stream opts) \<and> EncryptedMetadata r = None"
proof -
  obtain v where v: "v = (case highest_version (begin_Stream opts) (objects s) of Some v \<Rightarrow> v + 1 | None \<Rightarrow> 1)"
    and rows: "objects s' = objects s @ [begin_row now v opts]" "segments s' = segments s"
    and r: "r = begin_result (begin_row now v opts)"
    using assms by (auto simp: BeginObjectNextVersion_def Let_def sql_insert_def
        split: sum.splits option.splits if_splits)
  have "Version q < v" if "q \<in> set (objects s)" "same_location (begin_Stream opts) q" for q
  proof (cases "highest_version (begin_Stream opts) (objects s)")
    case None
    then show ?thesis using that by (simp add: highest_version_None)
  next
    case (Some h)
    then show ?thesis using highest_version_Some [OF Some] that v by fastforce
  qed
  moreover have "v = 1" if "\<forall>q \<in> set (objects s). \<not> same_location (begin_Stream opts) q"
    using that v highest_version_None [of "begin_Stream opts" "objects s"] by simp
  ultimately show ?thesis using rows r by (simp add: begin_result_def begin_row_def)
qed

theorem BeginObjectNextVersion_result_witness:
  "Version (last (objects (fst (BeginObjectNextVersion 50 (ex_begin (ex_stream 0 8)) ex_committed)))) = 2"
proof -
  let ?x = "BeginObjectNextVersion 50 (ex_begin (ex_stream 0 8)) ex_committed"
  have "map_sum id Version (snd ?x) = Inr 2" by code_simp
  then obtain r where r: "?x = (fst ?x, Inr r)" "Version r = 2"
    by (cases ?x; cases "snd ?x") auto
  from BeginObjectNextVersion_result [OF r(1)] r(2) show ?thesis by (simp add: begin_row_def)
qed

lemma sort_key_hd: "sort_key f xs = y # ys \<Longrightarrow> y \<in> set xs \<and> (\<forall>x \<in> set xs. f y \<le> (f x :: int))"
proof -
  assume e: "sort_key f xs = y # ys"
  have "set xs = set (y # ys)" using set_sort [of f xs] e by simp
  moreover have "sorted (map f (y # ys))" using sorted_sort_key [of f xs] e by simp
  ultimately show ?thesis by auto
qed

text \<open>
  Lemma. \<open>GetObjectLastCommitted\<close> returns the committed, unexpired object of the highest
  version at the location, with all its columns but the zombie deadline, and fails with
  \<open>ErrObjectNotFound\<close> exactly when there is none.
\<close>

theorem GetObjectLastCommitted_result:
  fixes now :: time and loc :: ObjectLocation
  assumes "ObjectLocation_Verify loc = Inr ()"
  defines "live \<equiv> \<lambda>q. same_location loc q \<and> Status q = Committed \<and> unexpired now q"
  shows "case GetObjectLastCommitted now loc s of
      Inr r \<Rightarrow> \<exists>q \<in> set (objects s). live q \<and> r = q\<lparr>ZombieDeletionDeadline := None\<rparr> \<and>
        (\<forall>p \<in> set (objects s). live p \<longrightarrow> Version p \<le> Version r)
    | Inl e \<Rightarrow> e = ErrObjectNotFound ''metabase: sql: no rows in result set'' \<and>
        \<not> (\<exists>q \<in> set (objects s). live q)"
proof (cases "sort_key (\<lambda>r. - Version r) (filter live (objects s))")
  case Nil
  then have "filter live (objects s) = []"
    using length_sort [of "\<lambda>r. - Version r" "filter live (objects s)"] by simp
  with Nil assms(1) show ?thesis
    by (auto simp: GetObjectLastCommitted_def live_def filter_empty_conv)
next
  case (Cons r rs)
  from sort_key_hd [OF Cons] Cons assms(1) show ?thesis
    by (auto simp: GetObjectLastCommitted_def live_def)
qed

theorem GetObjectLastCommitted_result_witness:
  "\<exists>r. GetObjectLastCommitted 40 (target_location (ex_stream 1 5) ''b'' ''k2'') ex_raced = Inr r \<and>
     Version r = 2 \<and> (\<forall>p \<in> set (objects ex_raced). Version p \<le> 2)"
proof -
  let ?loc = "target_location (ex_stream 1 5) ''b'' ''k2''"
  let ?g = "GetObjectLastCommitted 40 ?loc ex_raced"
  have v: "ObjectLocation_Verify ?loc = Inr ()" by code_simp
  have "map_sum id Version ?g = Inr 2" by code_simp
  then obtain r where r: "?g = Inr r" "Version r = 2" by (cases ?g) auto
  moreover have "\<forall>p \<in> set (objects ex_raced). same_location ?loc p \<and> Status p = Committed \<and> unexpired 40 p"
    by code_simp
  ultimately show ?thesis using GetObjectLastCommitted_result [OF v, where now = 40 and s = ex_raced] by auto
qed

text \<open>
  Lemma. \<open>DeleteObjectLastCommitted\<close> deletes every committed, unexpired version at the
  location, not only the last, and nothing else: its subquery has no limit.
\<close>

theorem DeleteObjectLastCommitted_result:
  assumes "store_inv s" and "DeleteObjectLastCommitted cfg now loc s = (s', Inr res)"
  shows "objects s' = filter (\<lambda>r. \<not> (same_location loc r \<and> Status r = Committed \<and> unexpired now r)) (objects s)"
proof -
  have d: "delete_last cfg now loc s = (s', Inr res)"
    using assms(2) by (auto simp: DeleteObjectLastCommitted_def elim!: with_tx_cases)
  then have "objects s' = sql_delete (last_committed now loc (objects s)) (objects s)"
    using delete_with_config_inv [OF assms(1)] by (auto simp: delete_last_def split: sum.splits)
  moreover have "last_committed now loc (objects s) r \<longleftrightarrow>
      same_location loc r \<and> Status r = Committed \<and> unexpired now r" if "r \<in> set (objects s)" for r
  proof -
    have "q = r" if "q \<in> set (objects s)" "same_location loc q" "same_location loc r" "Version q = Version r" for q
      by (rule object_row_unique [OF assms(1) that(1) \<open>r \<in> set (objects s)\<close> _ that(4)])
        (use that in \<open>auto simp: same_location_def\<close>)
    then show ?thesis using that by (auto simp: last_committed_def)
  qed
  ultimately show ?thesis by (simp add: sql_delete_def cong: filter_cong)
qed

theorem DeleteObjectLastCommitted_result_witness:
  "length (objects ex_raced) = 2 \<and>
   objects (fst (DeleteObjectLastCommitted ex_cfg 40 (target_location (ex_stream 1 5) ''b'' ''k2'') ex_raced)) = []"
proof -
  let ?loc = "target_location (ex_stream 1 5) ''b'' ''k2''"
  let ?d = "DeleteObjectLastCommitted ex_cfg 40 ?loc ex_raced"
  have inv: "store_inv ex_raced" by (rule reachable_inv [OF ex_raced_reachable])
  have "map_sum id (length \<circ> res_Objects) (snd ?d) = Inr 2" by code_simp
  then obtain res where r: "?d = (fst ?d, Inr res)" by (cases ?d; cases "snd ?d") auto
  have "\<forall>p \<in> set (objects ex_raced). same_location ?loc p \<and> Status p = Committed \<and> unexpired 40 p"
    "length (objects ex_raced) = 2"
    by code_simp+
  then show ?thesis using DeleteObjectLastCommitted_result [OF inv r] by (simp add: filter_empty_conv)
qed

end
