(* ===== verification/MetaPromote.thy ===== *)
theory MetaPromote
  imports MetaAlias MetaVersions
begin

text \<open>
  Server-side copies share the pieces of their ancestor. This theory shows that deleting an
  object never changes what another object's segments read back: a copy of the deleted object
  takes over its pieces, and the other copies read them there.
\<close>

subsection \<open>Where pieces are stored\<close>

text \<open>The pieces of a row's own column.\<close>

definition column_pieces :: "NodeAliasEntry set \<Rightarrow> byte list option \<Rightarrow> Pieces \<Rightarrow> bool" where
  "column_pieces E col ps \<longleftrightarrow> (\<exists>aps. AliasPieces_Scan col = Inr aps \<and> converts E aps ps)"

lemma column_mono: "column_pieces E col ps \<Longrightarrow> E \<subseteq> E' \<Longrightarrow> column_pieces E' col ps"
  by (auto simp: column_pieces_def intro: converts_mono)

lemma column_None [simp]: "column_pieces E None ps \<longleftrightarrow> ps = []"
  by (simp add: column_pieces_def AliasPieces_Scan_def converts_def)

definition remote :: "Segment \<Rightarrow> bool" where
  "remote g \<longleftrightarrow> seg_EncryptedSize g \<noteq> 0 \<and> key_length (seg_InlineData g) = 0"

definition ancestor_segments :: "Segment \<Rightarrow> store \<Rightarrow> Segment list" where
  "ancestor_segments g s = filter (\<lambda>a. (\<exists>c \<in> set (copies s). copy_StreamID c = seg_StreamID g \<and>
     copy_AncestorStreamID c = seg_StreamID a) \<and> seg_Position a = seg_Position g) (segments s)"

lemma ancestor_segments_one:
  assumes "store_inv s" "a \<in> set (segments s)" "seg_Position a = seg_Position g"
    and "c \<in> set (copies s)" "copy_StreamID c = seg_StreamID g" "copy_AncestorStreamID c = seg_StreamID a"
  shows "ancestor_segments g s = [a]"
proof -
  have u: "unique_key segment_key (segments s)" "unique_key copy_StreamID (copies s)"
    using assms(1) by (simp_all add: store_inv_def keys_ok_def)
  have "(\<exists>d \<in> set (copies s). copy_StreamID d = seg_StreamID g \<and> copy_AncestorStreamID d = seg_StreamID x) \<and>
      seg_Position x = seg_Position g \<longleftrightarrow> segment_key x = segment_key a" for x
  proof -
    have "d = c" if "d \<in> set (copies s)" "copy_StreamID d = seg_StreamID g" for d
      by (rule unique_keyD [OF u(2) that(1) assms(4)]) (simp add: that(2) assms(5))
    then have "(\<exists>d \<in> set (copies s). copy_StreamID d = seg_StreamID g \<and> copy_AncestorStreamID d = seg_StreamID x)
        \<longleftrightarrow> seg_StreamID x = seg_StreamID a"
      using assms(4-6) by metis
    then show ?thesis by (simp add: segment_key_def assms(3))
  qed
  then have "ancestor_segments g s = filter (\<lambda>x. segment_key x = segment_key a) (segments s)"
    by (simp add: ancestor_segments_def)
  then show ?thesis using unique_filter [OF u(1) assms(2)] by simp
qed

text \<open>Reading a segment that has pieces: from its own column or from the ancestor's.\<close>

lemma load_segment_pieces:
  assumes ok: "alias_ok s" and cfg: "ServerSideCopy cfg"
    and ld: "load_segment cfg g s = (s', Inr (g', ps))" and ne: "ps \<noteq> []"
  shows "column_pieces (table_entries (alias_db s)) (seg_AliasPieces g) ps \<and> g' = g \<or>
    column_pieces (table_entries (alias_db s)) (seg_AliasPieces g) [] \<and> remote g \<and>
    (\<exists>a rest. ancestor_segments g s = a # rest \<and>
       column_pieces (table_entries (alias_db s)) (seg_AliasPieces a) ps \<and>
       g' = g\<lparr>seg_RootPieceID := seg_RootPieceID a, seg_RepairedAt := seg_RepairedAt a\<rparr>)"
proof -
  let ?E = "table_entries (alias_db s)"
  obtain aps where aps: "AliasPieces_Scan (seg_AliasPieces g) = Inr aps"
    using ld by (auto simp: load_segment_def split: sum.splits)
  obtain s1 qs where own: "(if length aps > 0 then store_ConvertAliases aps s else (s, Inr [])) = (s1, Inr qs)"
    and up: "updateWithAncestorSegment g qs s1 = (s', Inr (g', ps))"
    using ld aps cfg by (auto simp: load_segment_def split: sum.splits prod.splits if_splits)
  have s1: "alias_ok s1" "same_tables s s1" "alias_db s1 = alias_db s" "converts ?E aps qs"
    using own ok Convert_any [OF ok, of aps s1 "Inr qs"]
    by (auto simp: converts_def split: if_splits)
  have col: "column_pieces ?E (seg_AliasPieces g) qs" using aps s1(4) by (auto simp: column_pieces_def)
  show ?thesis
  proof (cases "PiecesInAncestorSegment g qs")
    case False
    then show ?thesis using up col by (simp add: updateWithAncestorSegment_def)
  next
    case True
    then obtain a rest where a: "ancestor_segments g s1 = a # rest"
      using up by (auto simp: updateWithAncestorSegment_def ancestor_segments_def split: list.splits)
    then obtain bps where b: "AliasPieces_Scan (seg_AliasPieces a) = Inr bps"
      "store_ConvertAliases bps s1 = (s', Inr ps)"
      "g' = g\<lparr>seg_RootPieceID := seg_RootPieceID a, seg_RepairedAt := seg_RepairedAt a\<rparr>"
      using up True by (auto simp: updateWithAncestorSegment_def ancestor_segments_def
          split: list.splits sum.splits prod.splits)
    have "converts ?E bps ps" using Convert_any [OF s1(1) b(2)] s1(3) by simp
    then have "column_pieces ?E (seg_AliasPieces a) ps" using b(1) by (auto simp: column_pieces_def)
    moreover have "ancestor_segments g s = a # rest"
      using a s1(2) by (simp add: ancestor_segments_def same_tables_def)
    ultimately show ?thesis using True col b(3)
      by (auto simp: PiecesInAncestorSegment_def remote_def)
  qed
qed

lemma load_own:
  assumes ok: "alias_ok s" and col: "column_pieces (table_entries (alias_db s)) (seg_AliasPieces g) ps" and "ps \<noteq> []"
  shows "\<exists>s'. load_segment cfg g s = (s', Inr (g, ps))"
proof -
  obtain aps where aps: "AliasPieces_Scan (seg_AliasPieces g) = Inr aps" "converts (table_entries (alias_db s)) aps ps"
    using col by (auto simp: column_pieces_def)
  then have "0 < length aps" using converts_length assms(3) by fastforce
  with aps Convert_complete [OF ok aps(2)] assms(3) show ?thesis
    by (auto simp: load_segment_def updateWithAncestorSegment_def PiecesInAncestorSegment_def)
qed

lemma load_ancestor:
  assumes ok: "alias_ok s" and cfg: "ServerSideCopy cfg" and "remote g"
    and own: "column_pieces (table_entries (alias_db s)) (seg_AliasPieces g) []"
    and a: "ancestor_segments g s = a # rest"
    and col: "column_pieces (table_entries (alias_db s)) (seg_AliasPieces a) ps"
  shows "\<exists>s'. load_segment cfg g s
    = (s', Inr (g\<lparr>seg_RootPieceID := seg_RootPieceID a, seg_RepairedAt := seg_RepairedAt a\<rparr>, ps))"
proof -
  have "AliasPieces_Scan (seg_AliasPieces g) = Inr []"
    using own by (auto simp: column_pieces_def dest: converts_length)
  moreover obtain bps where "AliasPieces_Scan (seg_AliasPieces a) = Inr bps"
    "converts (table_entries (alias_db s)) bps ps"
    using col by (auto simp: column_pieces_def)
  ultimately show ?thesis
    using Convert_complete [OF ok] cfg a assms(3)
    by (fastforce simp: load_segment_def updateWithAncestorSegment_def PiecesInAncestorSegment_def
        remote_def ancestor_segments_def)
qed

subsection \<open>The scan and the promotion\<close>

text \<open>The segments a scan keeps of one deleted object: those with pieces, in order.\<close>

definition kept_segments :: "NodeAliasEntry set \<Rightarrow> Segment list \<Rightarrow> deletedRemoteSegmentInfo list \<Rightarrow> bool" where
  "kept_segments E gs infos \<longleftrightarrow>
     (\<forall>g \<in> set gs. \<forall>ps. column_pieces E (seg_AliasPieces g) ps \<longrightarrow> ps \<noteq> [] \<longrightarrow>
        \<lparr>rem_Position = seg_Position g, rem_RootPieceID = seg_RootPieceID g, rem_Pieces = ps,
         rem_RepairedAt = seg_RepairedAt g\<rparr> \<in> set infos) \<and>
     set (map rem_Position infos) \<subseteq> seg_Position ` set gs \<and>
     (distinct (map seg_Position gs) \<longrightarrow> distinct (map rem_Position infos))"

lemma column_unique:
  assumes "table_inv t" "column_pieces (table_entries t) col ps" "column_pieces (table_entries t) col qs"
  shows "ps = qs"
  using assms(2,3) good_entriesD(3) [OF alias_db.entries_good [OF assms(1)]]
  by (auto simp: column_pieces_def converts_def list_all2_conv_all_nth intro!: nth_equalityI Piece.equality)

lemma kept_Cons_skip:
  assumes "kept_segments E gs infos" "\<And>ps. column_pieces E (seg_AliasPieces g) ps \<Longrightarrow> ps = []"
  shows "kept_segments E (g # gs) infos"
  using assms by (auto simp: kept_segments_def)

lemma kept_Cons:
  assumes "kept_segments E gs infos" "\<And>qs. column_pieces E (seg_AliasPieces g) qs \<Longrightarrow> qs = ps"
  shows "kept_segments E (g # gs) (\<lparr>rem_Position = seg_Position g, rem_RootPieceID = seg_RootPieceID g,
     rem_Pieces = ps, rem_RepairedAt = seg_RepairedAt g\<rparr> # infos)"
  using assms by (auto simp: kept_segments_def)

lemma scan_pieces_ok:
  assumes "alias_ok s" "scan_pieces g s = (s', Inr ps)"
  shows "alias_ok s' \<and> alias_db s' = alias_db s \<and> column_pieces (table_entries (alias_db s)) (seg_AliasPieces g) ps"
  using assms(2) Convert_any [OF assms(1)]
  by (auto simp: scan_pieces_def column_pieces_def split: sum.splits)

lemma scan_one_object:
  assumes "alias_ok s" "acc \<noteq> []" "StreamID (info_Object (last acc)) = StreamID r"
    and "scanObjectDeletionServerSideCopy (map (\<lambda>g. (r, Some g, promoted)) gs) acc s = (s', Inr infos)"
  shows "alias_ok s' \<and> alias_db s' = alias_db s \<and>
    (\<exists>new. infos = butlast acc @ [(last acc)\<lparr>info_Segments := info_Segments (last acc) @ new\<rparr>] \<and>
       kept_segments (table_entries (alias_db s)) gs new)"
  using assms
proof (induction gs arbitrary: acc s)
  case Nil
  have "kept_segments (table_entries (alias_db s)) [] []" by (simp add: kept_segments_def)
  then show ?case using Nil by (auto intro!: exI [of _ "[]"])
next
  case (Cons g gs)
  have same: "add_info r promoted acc = acc" using Cons.prems(2,3) by (simp add: add_info_def)
  obtain s1 ps where sc: "scan_pieces g s = (s1, Inr ps)"
    using Cons.prems(4) by (auto simp: Let_def split: prod.splits sum.splits)
  note s1 = scan_pieces_ok [OF Cons.prems(1) sc]
  let ?i = "\<lparr>rem_Position = seg_Position g, rem_RootPieceID = seg_RootPieceID g, rem_Pieces = ps,
    rem_RepairedAt = seg_RepairedAt g\<rparr>"
  let ?acc = "if length ps > 0 then add_info_segment ?i acc else acc"
  have rest: "scanObjectDeletionServerSideCopy (map (\<lambda>g. (r, Some g, promoted)) gs) ?acc s1 = (s', Inr infos)"
    using Cons.prems(4) sc by (simp add: Let_def same)
  have only: "qs = ps" if "column_pieces (table_entries (alias_db s)) (seg_AliasPieces g) qs" for qs
    by (rule column_unique [of "alias_db s"]) (use Cons.prems(1) s1 that in \<open>auto simp: alias_ok_def\<close>)
  have acc: "?acc \<noteq> []" "StreamID (info_Object (last ?acc)) = StreamID r"
    using Cons.prems(2,3) by (simp_all add: add_info_segment_def)
  obtain new where new: "alias_ok s'" "alias_db s' = alias_db s1"
    "infos = butlast ?acc @ [(last ?acc)\<lparr>info_Segments := info_Segments (last ?acc) @ new\<rparr>]"
    "kept_segments (table_entries (alias_db s1)) gs new"
    using Cons.IH [OF _ acc rest] s1 by blast
  show ?case
  proof (cases "ps = []")
    case True
    then have "kept_segments (table_entries (alias_db s)) (g # gs) new"
      using kept_Cons_skip [of _ gs new g] new(4) s1 only by simp
    with True new s1 show ?thesis by auto
  next
    case False
    then have "kept_segments (table_entries (alias_db s)) (g # gs) (?i # new)"
      using kept_Cons [of _ gs new g ps] new(4) s1 only by simp
    with False new s1 show ?thesis by (auto simp: add_info_segment_def)
  qed
qed

lemma encode_segments_ok:
  assumes "alias_ok s" "encode_segments infos s = (s', Inr batch)"
  shows "alias_ok s' \<and> table_entries (alias_db s) \<subseteq> table_entries (alias_db s') \<and>
    list_all2 (\<lambda>i (pos, bs, rep). pos = rem_Position i \<and> rep = rem_RepairedAt i \<and>
      column_pieces (table_entries (alias_db s')) (Some bs) (rem_Pieces i)) infos batch"
  using assms
proof (induction infos arbitrary: s batch)
  case (Cons i infos)
  obtain s1 aps bs rest where e: "store_EnsurePieces (rem_Pieces i) s = (s1, Inr aps)"
    "AliasPieces_Bytes aps = Inr bs" "encode_segments infos s1 = (s', Inr rest)"
    and batch: "batch = (rem_Position i, bs, rem_RepairedAt i) # rest"
    using Cons.prems(2) by (auto split: prod.splits sum.splits)
  have s1: "alias_ok s1" "table_entries (alias_db s) \<subseteq> table_entries (alias_db s1)"
    using EnsurePieces_alias_ok [OF Cons.prems(1) e(1)] by auto
  note IH = Cons.IH [OF s1(1) e(3)]
  have "converts (table_entries (alias_db s1)) aps (rem_Pieces i)"
  proof -
    obtain t m where "EnsurePiecesToAliases DB_EnsureNodeAliases DB_ListNodeAliases (rem_Pieces i)
        (alias_db s) (alias_map s) = (t, m, Inr aps)" "alias_db s1 = t"
      using e(1) by (auto simp: store_EnsurePieces_def split: prod.splits)
    with alias_db.EnsurePieces_ok [OF _ _ this(1)] Cons.prems(1) show ?thesis
      by (auto simp: converts_def alias_ok_def)
  qed
  then have "column_pieces (table_entries (alias_db s1)) (Some bs) (rem_Pieces i)"
    using AliasPieces_SetBytes_Bytes [OF e(2)] by (auto simp: column_pieces_def AliasPieces_Scan_def)
  then have "column_pieces (table_entries (alias_db s')) (Some bs) (rem_Pieces i)"
    using IH column_mono by blast
  with IH s1 show ?case by (auto simp: batch)
qed simp

lemma encode_positions:
  "list_all2 (\<lambda>i (pos, bs, rep). pos = rem_Position i \<and> rep = rem_RepairedAt i \<and> Q bs i) infos batch \<Longrightarrow>
   map fst batch = map rem_Position infos"
  by (induction rule: list_all2_induct) auto

text \<open>What a successful promotion does to the rows.\<close>

lemma promote_one_rows:
  assumes ok: "alias_ok s" and inv: "store_inv s" and pr: "promote_one info new s = (s', Inr ())"
    and d: "distinct (map rem_Position (info_Segments info))"
  obtains f where "alias_ok s'" "table_entries (alias_db s) \<subseteq> table_entries (alias_db s')"
    "objects s' = objects s" "segments s' = map f (segments s)"
    "copies s' = sql_update (\<lambda>c. copy_AncestorStreamID c = StreamID (info_Object info))
       (\<lambda>c. c\<lparr>copy_AncestorStreamID := new\<rparr>) (sql_delete (\<lambda>c. copy_StreamID c = new) (copies s))"
    "\<And>g. seg_StreamID g \<noteq> new \<Longrightarrow> f g = g"
    "\<And>g i. seg_StreamID g = new \<Longrightarrow> i \<in> set (info_Segments info) \<Longrightarrow> rem_Position i = seg_Position g \<Longrightarrow>
       \<exists>bs. f g = g\<lparr>seg_AliasPieces := Some bs, seg_RepairedAt := rem_RepairedAt i\<rparr> \<and>
         column_pieces (table_entries (alias_db s')) (Some bs) (rem_Pieces i)"
    "\<And>g. segment_key (f g) = segment_key g"
    "\<And>i. i \<in> set (info_Segments info) \<Longrightarrow>
       \<exists>g \<in> set (segments s). seg_StreamID g = new \<and> seg_Position g = rem_Position i"
proof -
  let ?infos = "info_Segments info"
  obtain s1 batch where e: "encode_segments ?infos s = (s1, Inr batch)"
    using pr by (auto simp: promote_one_def split: prod.splits sum.splits)
  note en = encode_segments_ok [OF ok e]
  have tab: "same_tables s s1" by (rule encode_segments_tables [OF e])
  have seg1: "segments s1 = segments s" "copies s1 = copies s" "objects s1 = objects s"
    using tab by (auto simp: same_tables_def)
  define chosen where "chosen = is_segment_of new batch id"
  define f where "f = (\<lambda>g. if chosen g then (case map_of batch (seg_Position g) of
                   None \<Rightarrow> g
                 | Some (bs, repaired) \<Rightarrow> g\<lparr>seg_AliasPieces := Some bs, seg_RepairedAt := repaired\<rparr>) else g)"
  have s': "segments s' = map f (segments s)" "objects s' = objects s" "alias_db s' = alias_db s1"
      "alias_map s' = alias_map s1"
    "copies s' = sql_update (\<lambda>c. copy_AncestorStreamID c = StreamID (info_Object info))
       (\<lambda>c. c\<lparr>copy_AncestorStreamID := new\<rparr>) (sql_delete (\<lambda>c. copy_StreamID c = new) (copies s))"
    and count: "length (filter chosen (segments s)) = length ?infos"
    using pr e seg1 by (auto simp: promote_one_def Let_def chosen_def f_def sql_update_def sql_returning_def split: if_splits)
  have pos: "map fst batch = map rem_Position ?infos"
    by (rule encode_positions [OF conjunct2 [OF conjunct2 [OF en]]])
  then have dp: "distinct (map fst batch)" using d by simp
  have chosen: "chosen g \<longleftrightarrow> seg_StreamID g = new \<and> seg_Position g \<in> set (map rem_Position ?infos)" for g
    using pos by (simp add: chosen_def is_segment_of_def flip: set_map)
  have up: "\<exists>bs. f g = g\<lparr>seg_AliasPieces := Some bs, seg_RepairedAt := rem_RepairedAt i\<rparr> \<and>
      column_pieces (table_entries (alias_db s')) (Some bs) (rem_Pieces i)"
    if at: "seg_StreamID g = new" "i \<in> set ?infos" "rem_Position i = seg_Position g" for g i
  proof -
    obtain k where k: "k < length ?infos" "?infos ! k = i" using at(2) by (auto simp: in_set_conv_nth)
    obtain p bs rep where b: "batch ! k = (p, bs, rep)" by (metis prod_cases3)
    with k en have x: "k < length batch" "p = rem_Position i" "rep = rem_RepairedAt i"
      "column_pieces (table_entries (alias_db s1)) (Some bs) (rem_Pieces i)"
      by (auto simp: list_all2_conv_all_nth)
    then have "(seg_Position g, bs, rem_RepairedAt i) \<in> set batch" using b at(3) by (metis nth_mem)
    with dp have "map_of batch (seg_Position g) = Some (bs, rem_RepairedAt i)" by simp
    moreover have "chosen g" using at by (auto simp: chosen rev_image_eqI)
    ultimately show ?thesis using x(4) s'(3) by (intro exI [of _ bs]) (simp add: f_def)
  qed
  have "set (map seg_Position (filter chosen (segments s))) = set (map rem_Position ?infos)"
  proof (rule card_subset_eq)
    have "unique_key segment_key (segments s)" using inv by (simp add: store_inv_def keys_ok_def)
    then have "distinct (map segment_key (filter chosen (segments s)))"
      by (simp add: unique_key_def distinct_map_filter)
    then have "distinct (map seg_Position (filter chosen (segments s)))"
      by (auto simp: distinct_map segment_key_def chosen inj_on_def)
    then show "card (set (map seg_Position (filter chosen (segments s)))) = card (set (map rem_Position ?infos))"
      using distinct_card [of "map seg_Position (filter chosen (segments s))"] distinct_card [OF d] count
      by (simp only: length_map)
  qed (auto simp: chosen)
  then have row: "\<exists>g \<in> set (segments s). seg_StreamID g = new \<and> seg_Position g = rem_Position i"
    if "i \<in> set ?infos" for i
  proof -
    have "rem_Position i \<in> seg_Position ` set (filter chosen (segments s))"
      using that \<open>set (map seg_Position (filter chosen (segments s))) = set (map rem_Position ?infos)\<close> by auto
    then show ?thesis by (auto simp: chosen)
  qed
  show thesis
  proof (rule that [of f])
    show "alias_ok s'" using en s'(3,4) by (simp add: alias_ok_def)
    show "table_entries (alias_db s) \<subseteq> table_entries (alias_db s')" using en s'(3) by simp
    show "f g = g" if "seg_StreamID g \<noteq> new" for g using that by (simp add: f_def chosen)
    show "segment_key (f g) = segment_key g" for g by (auto simp: f_def segment_key_def split: option.split)
  qed (use s' up row in blast)+
qed

subsection \<open>Deleting one object\<close>

text \<open>The rows of copies as \<open>FinishCopyObject\<close> writes them: no pieces of their own, the root
  piece of the ancestor's segment.\<close>

definition copies_bare :: "store \<Rightarrow> bool" where
  "copies_bare s \<longleftrightarrow> (\<forall>c \<in> set (copies s). \<forall>g \<in> set (segments s). seg_StreamID g = copy_StreamID c \<longrightarrow>
     seg_AliasPieces g = None \<and>
     (\<forall>a \<in> set (segments s). seg_StreamID a = copy_AncestorStreamID c \<longrightarrow> seg_Position a = seg_Position g \<longrightarrow>
        seg_RootPieceID g = seg_RootPieceID a))"

lemma left_join_single:
  "left_join [r] gs = (case filter (\<lambda>g. seg_StreamID g = StreamID r) gs of
     [] \<Rightarrow> [(r, None)] | xs \<Rightarrow> map (\<lambda>g. (r, Some g)) xs)"
  by (simp add: left_join_def)

text \<open>Deleting the one object \<open>r\<close>: its rows go, then, when it had copies, one is promoted.\<close>

lemma delete_single:
  assumes inv: "store_inv s" and ok: "alias_ok s"
    and sel: "sql_returning P (objects s) = [r]"
    and del: "delete_serverside_copy P s = (s', Inr infos)"
  obtains s2 info where "alias_ok s2" "alias_db s2 = alias_db s" "store_inv s2"
    "segments s2 = filter (\<lambda>g. seg_StreamID g \<noteq> StreamID r) (segments s)"
    "copies s2 = filter (\<lambda>c. copy_StreamID c \<noteq> StreamID r) (copies s)"
    "StreamID (info_Object info) = StreamID r"
    "info_PromotedAncestor info = promoted_ancestor {StreamID r} (StreamID r) (copies s)"
    "kept_segments (table_entries (alias_db s)) (filter (\<lambda>g. seg_StreamID g = StreamID r) (segments s)) (info_Segments info)"
    "promoteNewAncestors [info] s2 = (s', Inr ())"
proof -
  have streams: "deleted_streams P s = {StreamID r}" using sel by (simp add: deleted_streams_def)
  let ?gs = "filter (\<lambda>g. seg_StreamID g = StreamID r) (segments s)"
  let ?pr = "promoted_ancestor {StreamID r} (StreamID r) (copies s)"
  obtain s1 rows where d: "delete_objects_copy_sql P s = (s1, rows)" by fastforce
  then have rows: "rows = map (\<lambda>(q, g). (q, g, promoted_ancestor {StreamID r} (StreamID q) (copies s))) (left_join [r] ?gs)"
    and s1: "segments s1 = filter (\<lambda>g. seg_StreamID g \<noteq> StreamID r) (segments s)"
      "copies s1 = filter (\<lambda>c. copy_StreamID c \<noteq> StreamID r) (copies s)" "alias_db s1 = alias_db s"
      "alias_map s1 = alias_map s"
    using sel by (auto simp: delete_objects_copy_sql_def Let_def streams sql_delete_def sql_returning_def)
  have inv1: "store_inv s1" using delete_objects_copy_sql_inv [OF inv, of P] d by simp
  have ok1: "alias_ok s1" using ok s1 by (simp add: alias_ok_def)
  obtain s2 infos' where sc: "scanObjectDeletionServerSideCopy rows [] s1 = (s2, Inr infos')"
    and pr: "promoteNewAncestors infos' s2 = (s', Inr ())"
    using del d by (auto simp: delete_serverside_copy_def split: prod.splits sum.splits)
  have tab: "same_tables s1 s2" by (rule scanServerSideCopy_tables [OF sc])
  have s2: "store_inv s2" "segments s2 = segments s1" "copies s2 = copies s1"
    using same_tables_inv [OF tab] inv1 tab by (auto simp: same_tables_def)
  let ?o = "r\<lparr>ZombieDeletionDeadline := None\<rparr>"
  let ?i = "\<lparr>info_Object = ?o, info_Segments = [], info_PromotedAncestor = ?pr\<rparr>"
  show thesis
  proof (cases ?gs)
    case Nil
    then have "infos' = [?i]" "s2 = s1" using sc rows by (auto simp: left_join_single add_info_def)
    moreover have "kept_segments E [] []" for E by (simp add: kept_segments_def)
    ultimately show thesis using that [of s2 ?i] pr s2 ok1 s1 Nil by simp
  next
    case (Cons g gs)
    have rows': "rows = map (\<lambda>g. (r, Some g, ?pr)) ?gs"
      by (simp only: rows left_join_single filter_filter conj_absorb) (simp only: Cons list.case list.map prod.case, simp)
    have "scanObjectDeletionServerSideCopy rows [] s1 = scanObjectDeletionServerSideCopy rows [?i] s1"
      unfolding rows' Cons by (simp add: add_info_def Let_def)
    then have "scanObjectDeletionServerSideCopy (map (\<lambda>g. (r, Some g, ?pr)) ?gs) [?i] s1 = (s2, Inr infos')"
      using sc rows' by simp
    from scan_one_object [OF ok1 _ _ this] obtain new where
      "alias_ok s2" "alias_db s2 = alias_db s1" "infos' = [?i\<lparr>info_Segments := new\<rparr>]"
      "kept_segments (table_entries (alias_db s1)) ?gs new" by auto
    then show thesis using that [of s2 "?i\<lparr>info_Segments := new\<rparr>"] pr s2 s1 by simp
  qed
qed

lemma stream_positions_distinct:
  assumes "store_inv s"
  shows "distinct (map seg_Position (filter (\<lambda>g. seg_StreamID g = st) (segments s)))"
proof -
  have "unique_key segment_key (segments s)" using assms by (simp add: store_inv_def keys_ok_def)
  then have "distinct (map segment_key (filter (\<lambda>g. seg_StreamID g = st) (segments s)))"
    by (simp add: unique_key_def distinct_map_filter)
  then show ?thesis by (auto simp: distinct_map segment_key_def inj_on_def)
qed

lemma delete_none:
  assumes "sql_returning P (objects s) = []"
  shows "delete_serverside_copy P s = (s, Inr [])"
proof -
  have "sql_delete P (objects s) = objects s"
    using assms by (auto simp: sql_delete_def sql_returning_def filter_empty_conv)
  then show ?thesis
    using assms by (simp add: delete_serverside_copy_def delete_objects_copy_sql_def deleted_streams_def
        left_join_def sql_delete_def Let_def)
qed

lemma exact_version_single:
  assumes "store_inv s"
  shows "sql_returning (exact_version loc v) (objects s) = [] \<or>
    (\<exists>r. sql_returning (exact_version loc v) (objects s) = [r])"
proof -
  have "distinct (objects s)" using assms by (auto simp: store_inv_def keys_ok_def unique_key_def distinct_map)
  then have d: "distinct (sql_returning (exact_version loc v) (objects s))" by (simp add: sql_returning_def)
  have same: "x = y" if "x \<in> set (sql_returning (exact_version loc v) (objects s))"
    "y \<in> set (sql_returning (exact_version loc v) (objects s))" for x y
    by (rule object_row_unique [OF assms]) (use that in \<open>auto simp: sql_simps exact_version_def same_location_def\<close>)
  show ?thesis
  proof (cases "sql_returning (exact_version loc v) (objects s)")
    case (Cons x xs)
    have "xs = []"
    proof (cases xs)
      case (Cons y ys)
      then have "x = y" using same [of x y] \<open>sql_returning _ _ = x # xs\<close> by simp
      then show ?thesis using d Cons \<open>sql_returning _ _ = x # xs\<close> by simp
    qed
    with Cons show ?thesis by simp
  qed simp
qed

text \<open>Where the pieces a read returned are stored, and that a read finds them there.\<close>

definition stored_at :: "NodeAliasEntry set \<Rightarrow> Segment list \<Rightarrow> SegmentCopy list \<Rightarrow> Segment \<Rightarrow> Segment \<Rightarrow> Pieces \<Rightarrow> bool" where
  "stored_at E segs cs row g ps \<longleftrightarrow>
     column_pieces E (seg_AliasPieces row) ps \<and> g = row \<or>
     column_pieces E (seg_AliasPieces row) [] \<and> remote row \<and>
     (\<exists>a \<in> set segs. \<exists>c \<in> set cs. copy_StreamID c = seg_StreamID row \<and>
         copy_AncestorStreamID c = seg_StreamID a \<and> seg_Position a = seg_Position row \<and>
         column_pieces E (seg_AliasPieces a) ps \<and>
         g = row\<lparr>seg_RootPieceID := seg_RootPieceID a, seg_RepairedAt := seg_RepairedAt a\<rparr>)"

lemma load_stored:
  assumes "alias_ok s" "ServerSideCopy cfg" "load_segment cfg row s = (s', Inr (g, ps))" "ps \<noteq> []"
  shows "stored_at (table_entries (alias_db s)) (segments s) (copies s) row g ps"
  using load_segment_pieces [OF assms]
proof (elim disjE conjE exE)
  fix a rest
  assume own: "column_pieces (table_entries (alias_db s)) (seg_AliasPieces row) []" "remote row"
    and anc: "ancestor_segments row s = a # rest"
    and a: "column_pieces (table_entries (alias_db s)) (seg_AliasPieces a) ps"
      "g = row\<lparr>seg_RootPieceID := seg_RootPieceID a, seg_RepairedAt := seg_RepairedAt a\<rparr>"
  have "a \<in> set (ancestor_segments row s)" unfolding anc by simp
  then obtain c where "a \<in> set (segments s)" "c \<in> set (copies s)" "copy_StreamID c = seg_StreamID row"
    "copy_AncestorStreamID c = seg_StreamID a" "seg_Position a = seg_Position row"
    unfolding ancestor_segments_def by auto
  with own a show ?thesis unfolding stored_at_def by blast
qed (simp add: stored_at_def)

lemma stored_load:
  assumes ok: "alias_ok s" and inv: "store_inv s" and cfg: "ServerSideCopy cfg" and ne: "ps \<noteq> []"
    and at: "stored_at (table_entries (alias_db s)) (segments s) (copies s) row g ps"
  shows "\<exists>s'. load_segment cfg row s = (s', Inr (g, ps))"
  using at unfolding stored_at_def
proof (elim disjE conjE bexE)
  assume "column_pieces (table_entries (alias_db s)) (seg_AliasPieces row) ps" "g = row"
  then show ?thesis using load_own [OF ok _ ne] by blast
next
  fix a c
  assume own: "column_pieces (table_entries (alias_db s)) (seg_AliasPieces row) []" "remote row"
    and a: "a \<in> set (segments s)" and c: "c \<in> set (copies s)" "copy_StreamID c = seg_StreamID row"
      "copy_AncestorStreamID c = seg_StreamID a" and pos: "seg_Position a = seg_Position row"
    and col: "column_pieces (table_entries (alias_db s)) (seg_AliasPieces a) ps"
    and g: "g = row\<lparr>seg_RootPieceID := seg_RootPieceID a, seg_RepairedAt := seg_RepairedAt a\<rparr>"
  have "ancestor_segments row s = [a]" by (rule ancestor_segments_one [OF inv a pos c])
  then show ?thesis using load_ancestor [OF ok cfg own(2,1) _ col] g by blast
qed

text \<open>The rows after the deletion of \<open>r\<close>, when no copy was promoted.\<close>

lemma stored_without_promotion:
  assumes at: "stored_at E (segments s) (copies s) row g ps" and st: "seg_StreamID row \<noteq> StreamID r"
    and segs: "segments s' = filter (\<lambda>g. seg_StreamID g \<noteq> StreamID r) (segments s)"
    and cps: "copies s' = filter (\<lambda>c. copy_StreamID c \<noteq> StreamID r) (copies s)"
    and no: "\<And>c. c \<in> set (copies s) \<Longrightarrow> copy_StreamID c = seg_StreamID row \<Longrightarrow> copy_AncestorStreamID c \<noteq> StreamID r"
  shows "stored_at E (segments s') (copies s') row g ps"
  using at unfolding stored_at_def
proof (elim disjE conjE bexE, goal_cases)
  case 1
  then show ?case by simp
next
  case (2 a c)
  then have "copy_AncestorStreamID c \<noteq> StreamID r" using no by blast
  with 2 st have "a \<in> set (segments s')" "c \<in> set (copies s')" by (auto simp: segs cps)
  with 2 show ?case by blast
qed

lemma stored_mono: "stored_at E segs cs row g ps \<Longrightarrow> E \<subseteq> E' \<Longrightarrow> stored_at E' segs cs row g ps"
  unfolding stored_at_def using column_mono by blast

text \<open>The rows after a promotion: a segment either is where it was, or reads the pieces of the
  deleted ancestor from the promoted copy.\<close>

lemma promoted_reads:
  assumes inv: "store_inv s" and bare: "copies_bare s" and cfg: "ServerSideCopy cfg" and ne: "ps \<noteq> []"
    and how: "stored_at (table_entries (alias_db s)) (segments s) (copies s) row g ps"
    and row: "row \<in> set (segments s)" and other: "seg_StreamID row \<noteq> StreamID r"
    and s2: "alias_ok s2" "alias_db s2 = alias_db s" "store_inv s2"
    and segs: "segments s2 = filter (\<lambda>g. seg_StreamID g \<noteq> StreamID r) (segments s)"
    and cps: "copies s2 = filter (\<lambda>c. copy_StreamID c \<noteq> StreamID r) (copies s)"
    and info: "StreamID (info_Object info) = StreamID r"
      "promoted_ancestor {StreamID r} (StreamID r) (copies s) = Some new"
      "kept_segments (table_entries (alias_db s)) (filter (\<lambda>g. seg_StreamID g = StreamID r) (segments s)) (info_Segments info)"
    and pr: "promote_one info new s2 = (s', Inr ())"
  shows "\<exists>row' \<in> set (segments s'). segment_key row' = segment_key row \<and>
    (\<exists>s3 g'. load_segment cfg row' s' = (s3, Inr (g', ps)) \<and>
      g'\<lparr>seg_AliasPieces := None\<rparr> = g\<lparr>seg_AliasPieces := None\<rparr>)"
proof -
  let ?E = "table_entries (alias_db s)" and ?E' = "table_entries (alias_db s')"
  have d: "distinct (map rem_Position (info_Segments info))"
    using info(3) stream_positions_distinct [OF inv] by (auto simp: kept_segments_def)
  obtain f where ok': "alias_ok s'" and sub0: "table_entries (alias_db s2) \<subseteq> ?E'"
    and "objects s' = objects s2" and segs': "segments s' = map f (segments s2)"
    and cps': "copies s' = sql_update (\<lambda>c. copy_AncestorStreamID c = StreamID (info_Object info))
       (\<lambda>c. c\<lparr>copy_AncestorStreamID := new\<rparr>) (sql_delete (\<lambda>c. copy_StreamID c = new) (copies s2))"
    and same: "\<And>g. seg_StreamID g \<noteq> new \<Longrightarrow> f g = g"
    and up: "\<And>g i. seg_StreamID g = new \<Longrightarrow> i \<in> set (info_Segments info) \<Longrightarrow> rem_Position i = seg_Position g \<Longrightarrow>
       \<exists>bs. f g = g\<lparr>seg_AliasPieces := Some bs, seg_RepairedAt := rem_RepairedAt i\<rparr> \<and>
         column_pieces ?E' (Some bs) (rem_Pieces i)"
    and fkey: "\<And>g. segment_key (f g) = segment_key g"
    and present: "\<And>i. i \<in> set (info_Segments info) \<Longrightarrow>
       \<exists>g \<in> set (segments s2). seg_StreamID g = new \<and> seg_Position g = rem_Position i"
    by (rule promote_one_rows [OF s2(1,3) pr d]) blast
  have sub: "?E \<subseteq> ?E'" using sub0 s2(2) by simp
  have inv': "store_inv s'" using promote_one_inv [OF s2(3) pr] by blast
  obtain c0 where c0: "c0 \<in> set (copies s)" "copy_StreamID c0 = new" "copy_AncestorStreamID c0 = StreamID r"
    "new \<noteq> StreamID r"
    using info(2) find_SomeD by (fastforce simp: promoted_ancestor_def)
  have keys: "unique_key copy_StreamID (copies s)" using inv by (simp add: store_inv_def keys_ok_def)
  have c0_only: "c = c0" if "c \<in> set (copies s)" "copy_StreamID c = new" for c
    by (rule unique_keyD [OF keys that(1) c0(1)]) (simp add: that(2) c0(2))
  have none: "seg_AliasPieces x = None" if "x \<in> set (segments s)" "seg_StreamID x = new" for x
    using bare c0 that by (auto simp: copies_bare_def)
  have root: "seg_RootPieceID x = seg_RootPieceID a"
    if "x \<in> set (segments s)" "seg_StreamID x = new" "a \<in> set (segments s)" "seg_StreamID a = StreamID r"
      "seg_Position a = seg_Position x" for x a
    using bare c0 that by (auto simp: copies_bare_def)
  have moved: "f x \<in> set (segments s')" if "x \<in> set (segments s)" "seg_StreamID x \<noteq> StreamID r" for x
    using that by (auto simp: segs' segs)
  have kept: "x \<in> set (segments s')" if "x \<in> set (segments s)" "seg_StreamID x \<noteq> StreamID r" "seg_StreamID x \<noteq> new" for x
    using moved [OF that(1,2)] same [OF that(3)] by simp
  have load: ?thesis if "x \<in> set (segments s')" "segment_key x = segment_key row"
    "stored_at ?E' (segments s') (copies s') x g' ps"
    "g'\<lparr>seg_AliasPieces := None\<rparr> = g\<lparr>seg_AliasPieces := None\<rparr>" for x g'
    using stored_load [OF ok' inv' cfg ne that(3)] that(1,2,4) by blast
  from how show ?thesis unfolding stored_at_def
  proof (elim disjE conjE bexE)
    assume own: "column_pieces ?E (seg_AliasPieces row) ps" and g: "g = row"
    have "seg_StreamID row \<noteq> new" using own none [OF row] ne by auto
    then have "row \<in> set (segments s')" using kept row other by blast
    then show ?thesis
      by (rule load [where g' = g]) (use own sub g column_mono in \<open>auto simp: stored_at_def\<close>)
  next
    fix a c
    assume own: "column_pieces ?E (seg_AliasPieces row) []" "remote row"
      and a: "a \<in> set (segments s)" and c: "c \<in> set (copies s)" "copy_StreamID c = seg_StreamID row"
        "copy_AncestorStreamID c = seg_StreamID a" and pos: "seg_Position a = seg_Position row"
      and col: "column_pieces ?E (seg_AliasPieces a) ps"
      and g: "g = row\<lparr>seg_RootPieceID := seg_RootPieceID a, seg_RepairedAt := seg_RepairedAt a\<rparr>"
    have own': "column_pieces ?E' (seg_AliasPieces row) []" using column_mono [OF own(1) sub] .
    show ?thesis
    proof (cases "seg_StreamID a = StreamID r")
      case False
      have "seg_StreamID row \<noteq> new" using c0_only [OF c(1)] c(2,3) c0(3) False by auto
      moreover have "seg_StreamID a \<noteq> new" using col none [OF a] ne by auto
      ultimately have rows: "row \<in> set (segments s')" "a \<in> set (segments s')" using kept row other a False by blast+
      have "c \<in> set (copies s')"
        using c False other \<open>seg_StreamID row \<noteq> new\<close> info(1) by (auto simp: cps' cps sql_simps)
      then have "stored_at ?E' (segments s') (copies s') row g ps"
        unfolding stored_at_def using own' own(2) rows(2) c pos g column_mono [OF col sub] by blast
      then show ?thesis by (rule load [OF rows(1) refl]) simp
    next
      case True
      let ?i = "\<lparr>rem_Position = seg_Position a, rem_RootPieceID = seg_RootPieceID a, rem_Pieces = ps,
        rem_RepairedAt = seg_RepairedAt a\<rparr>"
      have i: "?i \<in> set (info_Segments info)" using info(3) a True col ne by (auto simp: kept_segments_def)
      show ?thesis
      proof (cases "seg_StreamID row = new")
        case True
        obtain bs where bs: "f row = row\<lparr>seg_AliasPieces := Some bs, seg_RepairedAt := seg_RepairedAt a\<rparr>"
          "column_pieces ?E' (Some bs) ps"
          using up [OF True i] pos by auto
        have "seg_RootPieceID row = seg_RootPieceID a"
          by (rule root [OF row True a \<open>seg_StreamID a = StreamID r\<close> pos])
        then have "(f row)\<lparr>seg_AliasPieces := None\<rparr> = g\<lparr>seg_AliasPieces := None\<rparr>" using bs g by simp
        moreover have "stored_at ?E' (segments s') (copies s') (f row) (f row) ps"
          using bs by (simp add: stored_at_def)
        ultimately show ?thesis using load [OF moved [OF row other] fkey] by blast
      next
        case False
        obtain n where n: "n \<in> set (segments s2)" "seg_StreamID n = new" "seg_Position n = seg_Position a"
          using present [OF i] by auto
        then have ns: "n \<in> set (segments s)" by (simp add: segs)
        obtain bs where bs: "f n = n\<lparr>seg_AliasPieces := Some bs, seg_RepairedAt := seg_RepairedAt a\<rparr>"
          "column_pieces ?E' (Some bs) ps"
          using up [OF n(2) i] n(3) by auto
        have rn: "seg_RootPieceID n = seg_RootPieceID a"
          by (rule root [OF ns n(2) a \<open>seg_StreamID a = StreamID r\<close>]) (simp add: n(3))
        have fn: "f n \<in> set (segments s')" using moved [OF ns] n(2) c0(4) by blast
        let ?c = "c\<lparr>copy_AncestorStreamID := new\<rparr>"
        have "?c \<in> set (copies s')"
          using c other False info(1) \<open>seg_StreamID a = StreamID r\<close> by (auto simp: cps' cps sql_simps)
        then have "stored_at ?E' (segments s') (copies s') row g ps"
          unfolding stored_at_def using own' own(2) fn c(2) n bs rn pos g
          by (intro disjI2 conjI bexI [of _ "f n"] bexI [of _ ?c]) auto
        then show ?thesis by (rule load [OF kept [OF row other False] refl]) simp
      qed
    qed
  qed
qed

text \<open>
  Property C8. Deleting an object version never changes what the segments of another object read
  back. In particular a copy whose ancestor is deleted still reads the same pieces with the same
  root piece, repair time, keys and sizes: only where its pieces are stored may change.
\<close>

theorem delete_keeps_other_segments:
  assumes inv: "store_inv s" and ok: "alias_ok s" and bare: "copies_bare s" and cfg: "ServerSideCopy cfg"
    and del: "DeleteObjectExactVersion cfg v loc s = (s', Inr res)"
    and st: "st \<in> StreamID ` set (objects s')"
    and get: "GetSegmentByPosition cfg st pos s = (s1, Inr (g, ps))" and ne: "ps \<noteq> []"
  shows "\<exists>s2 g'. GetSegmentByPosition cfg st pos s' = (s2, Inr (g', ps)) \<and>
    g'\<lparr>seg_AliasPieces := None\<rparr> = g\<lparr>seg_AliasPieces := None\<rparr>"
proof -
  let ?P = "exact_version loc v" and ?E = "table_entries (alias_db s)"
  have "delete_exact cfg v loc s = (s', Inr res)"
    using del by (auto simp: DeleteObjectExactVersion_def elim!: with_tx_cases)
  then obtain infos where dsc: "delete_serverside_copy ?P s = (s', Inr infos)"
    using cfg by (auto simp: delete_exact_def delete_with_config_def split: sum.splits prod.splits)
  have inv': "store_inv s'" "objects s' = sql_delete ?P (objects s)"
    using delete_serverside_copy_inv [OF inv dsc] by auto
  have nz: "st \<noteq> 0" using get by (auto simp: GetSegmentByPosition_def)
  obtain row rest where f: "filter (\<lambda>g. segment_key g = (st, pos)) (segments s) = row # rest"
    and ld: "load_segment cfg row s = (s1, Inr (g, ps))"
    using get nz by (auto simp: GetSegmentByPosition_def split: list.splits)
  then have row: "row \<in> set (segments s)" "segment_key row = (st, pos)"
    using filter_eq_ConsD [OF f] by auto
  have row_st: "seg_StreamID row = st" "seg_Position row = pos" using row(2) by (auto simp: segment_key_def)
  have how: "stored_at ?E (segments s) (copies s) row g ps" by (rule load_stored [OF ok cfg ld ne])
  have found: "GetSegmentByPosition cfg st pos s' = load_segment cfg row' s'"
    if "row' \<in> set (segments s')" "segment_key row' = (st, pos)" for row'
  proof -
    have "unique_key segment_key (segments s')" using inv'(1) by (simp add: store_inv_def keys_ok_def)
    from unique_filter [OF this that(1)] nz that(2) show ?thesis by (simp add: GetSegmentByPosition_def)
  qed
  have result: ?thesis
    if "row' \<in> set (segments s')" "segment_key row' = (st, pos)" "load_segment cfg row' s' = (s2, Inr (g', ps))"
      "g'\<lparr>seg_AliasPieces := None\<rparr> = g\<lparr>seg_AliasPieces := None\<rparr>" for row' s2 g'
    using found [OF that(1,2)] that(3,4) by auto
  consider (none) "sql_returning ?P (objects s) = []" | (one) r where "sql_returning ?P (objects s) = [r]"
    using exact_version_single [OF inv] by blast
  then show ?thesis
  proof cases
    case none
    then have "s' = s" using dsc delete_none by simp
    then show ?thesis using get by blast
  next
    case (one r)
    have r: "r \<in> set (objects s)" "?P r" using one filter_eq_ConsD unfolding sql_returning_def by fastforce+
    have other: "st \<noteq> StreamID r"
    proof
      assume "st = StreamID r"
      then obtain q where "q \<in> set (objects s)" "\<not> ?P q" "StreamID q = StreamID r"
        using st by (auto simp: inv'(2) sql_simps)
      then show False using stream_unique [OF inv _ r(1)] r(2) by blast
    qed
    from delete_single [OF inv ok one dsc]
    obtain s2 info where s2: "alias_ok s2" "alias_db s2 = alias_db s" "store_inv s2"
      and segs: "segments s2 = filter (\<lambda>g. seg_StreamID g \<noteq> StreamID r) (segments s)"
      and cps: "copies s2 = filter (\<lambda>c. copy_StreamID c \<noteq> StreamID r) (copies s)"
      and info: "StreamID (info_Object info) = StreamID r"
      "info_PromotedAncestor info = promoted_ancestor {StreamID r} (StreamID r) (copies s)"
      "kept_segments ?E (filter (\<lambda>g. seg_StreamID g = StreamID r) (segments s)) (info_Segments info)"
      and pr: "promoteNewAncestors [info] s2 = (s', Inr ())" by blast
    show ?thesis
    proof (cases "info_PromotedAncestor info")
      case None
      have no: "copy_AncestorStreamID c \<noteq> StreamID r" if "c \<in> set (copies s)" "copy_StreamID c = st" for c
        using None that other info(2) by (auto simp: promoted_ancestor_def find_None_iff)
      have s': "s' = s2" using pr None by simp
      have "stored_at ?E (segments s2) (copies s2) row g ps"
        by (rule stored_without_promotion [OF how _ segs cps]) (use row_st other no in auto)
      then obtain sx where "load_segment cfg row s2 = (sx, Inr (g, ps))"
        using stored_load [OF s2(1,3) cfg ne] s2(2) by auto
      moreover have "row \<in> set (segments s2)" using row(1) row_st other by (simp add: segs)
      ultimately show ?thesis using result [of row] row(2) s' by blast
    next
      case (Some new)
      then have p1: "promote_one info new s2 = (s', Inr ())" using pr by (auto split: prod.splits sum.splits)
      from promoted_reads [OF inv bare cfg ne how row(1) _ s2 segs cps info(1) _ info(3) p1] Some info(2) row_st other
      obtain row' s3 g' where "row' \<in> set (segments s')" "segment_key row' = segment_key row"
        "load_segment cfg row' s' = (s3, Inr (g', ps))"
        "g'\<lparr>seg_AliasPieces := None\<rparr> = g\<lparr>seg_AliasPieces := None\<rparr>" by auto
      then show ?thesis using result row(2) by metis
    qed
  qed
qed

text \<open>An object with one remote segment, its copy at ``k2'', and the deletion of the original.\<close>

definition ex_original :: store where
  "ex_original = fst (CommitObject ex_cfg (ex_commit (ex_stream 1 5)) ex_uploaded)"

definition ex_copied :: store where
  "ex_copied = fst (FinishCopyObject ex_cfg (\<lambda>_. None) (\<lambda>_ _. Inr ()) (\<lambda>_. []) 30 ex_copy ex_original)"

lemma ex_copied_reachable: "reachable ex_cfg ex_copied"
proof -
  have "reachable ex_cfg ex_uploaded"
    unfolding ex_uploaded_def by (rule reachable_step [OF ex_reachable(1) single [OF commit_segment]])
  then have "reachable ex_cfg ex_original"
    unfolding ex_original_def by (rule reachable_step [OF _ single [OF commit_object]])
  moreover have "fresh_stream (fc_NewStreamID ex_copy) ex_original" unfolding fresh_stream_def by code_simp
  ultimately show ?thesis unfolding ex_copied_def by (rule reachable_step [OF _ any_finish_copy])
qed

theorem delete_keeps_other_segments_witness:
  "\<exists>s2 g. GetSegmentByPosition ex_cfg 9 \<lparr>Part = 0, Index = 0\<rparr>
     (fst (DeleteObjectExactVersion ex_cfg 1 (target_location (ex_stream 1 5) ''b'' ''k'') ex_copied))
     = (s2, Inr (g, ex_pieces 70))"
proof -
  let ?d = "DeleteObjectExactVersion ex_cfg 1 (target_location (ex_stream 1 5) ''b'' ''k'') ex_copied"
  let ?g = "GetSegmentByPosition ex_cfg 9 \<lparr>Part = 0, Index = 0\<rparr> ex_copied"
  have "is_ok (snd ?d)" by code_simp
  then obtain res where d: "?d = (fst ?d, Inr res)" by (cases ?d; cases "snd ?d") auto
  have "map_sum id snd (snd ?g) = Inr (ex_pieces 70)" by code_simp
  then obtain g where g: "?g = (fst ?g, Inr (g, ex_pieces 70))" by (cases ?g; cases "snd ?g") auto
  have bare: "copies_bare ex_copied" by code_simp
  have st: "9 \<in> StreamID ` set (objects (fst ?d))" by code_simp
  have "ServerSideCopy ex_cfg" "ex_pieces 70 \<noteq> []" by (simp_all add: ex_cfg_def ex_pieces_def)
  then show ?thesis
    using delete_keeps_other_segments [OF reachable_inv [OF ex_copied_reachable] reachable_alias_ok [OF ex_copied_reachable] bare _ d st g]
    by blast
qed

end
