(* ===== verification/MetaSweep.thy ===== *)
theory MetaSweep
  imports MetaVersions
begin

text \<open>
  What the background deletion deletes: exactly the selected rows, with their segments, whatever
  the batch size, and for pending objects only those without recent segments, as one sequential
  run of selections and deletions over the current tables. Then what a stale selection, made
  before other operations or read \<open>AS OF SYSTEM TIME\<close>, deletes: an object committed since, and the
  segments of an object moved since.
\<close>

subsection \<open>One batch\<close>

text \<open>Whether the statement for a selected row deletes it.\<close>

definition swept :: "time option \<Rightarrow> store \<Rightarrow> uuid \<Rightarrow> bool" where
  "swept inactive s stream \<longleftrightarrow>
     (case inactive of None \<Rightarrow> True | Some t \<Rightarrow> \<not> recent_segment t stream s)"

definition sweep_one :: "time option \<Rightarrow> ObjectStream \<Rightarrow> store \<Rightarrow> store" where
  "sweep_one inactive = (case inactive of None \<Rightarrow> delete_object_and_segments | Some t \<Rightarrow> delete_inactive_object t)"

lemma delete_batch_fold: "delete_batch inactive rows s = fold (sweep_one inactive) (map object_stream rows) s"
  by (cases inactive) (simp_all add: delete_batch_def deleteObjectsAndSegments_def
      deleteInactiveObjectsAndSegments_def sweep_one_def)

lemma sweep_one_cases:
  "sweep_one inactive obj s =
     (if swept inactive s (StreamID obj) then delete_object_and_segments obj s else s)"
proof (cases inactive)
  case None
  then show ?thesis by (simp add: sweep_one_def swept_def)
next
  case (Some t)
  have "\<exists>g \<in> set (segments s). seg_StreamID g = StreamID obj" if "recent_segment t (StreamID obj) s"
    using that by (auto simp: recent_segment_def)
  then show ?thesis
    by (auto simp: Some sweep_one_def swept_def delete_inactive_object_def delete_object_and_segments_def
        Let_def sql_delete_def)
qed

lemma names_own_row:
  assumes "store_inv s" "r \<in> set (objects s)" "q \<in> set (objects s)"
  shows "names_row (object_stream r) q \<longleftrightarrow> q = r"
  using stream_unique [OF assms(1,3,2)]
  by (auto simp: names_row_def object_stream_def same_location_def)

lemma swept_other:
  assumes "StreamID r \<noteq> st"
  shows "swept inactive (sweep_one inactive (object_stream r) s) st = swept inactive s st"
proof -
  have "recent_segment t st (delete_object_and_segments (object_stream r) s) = recent_segment t st s" for t
    using assms by (auto simp: recent_segment_def delete_object_and_segments_def sql_simps object_stream_def)
  then show ?thesis by (auto simp: sweep_one_cases swept_def split: option.split)
qed

lemma sweep_rows:
  assumes "store_inv s" "distinct rows" "set rows \<subseteq> set (objects s)"
  shows "objects (delete_batch inactive rows s)
      = filter (\<lambda>r. \<not> (r \<in> set rows \<and> swept inactive s (StreamID r))) (objects s) \<and>
    segments (delete_batch inactive rows s)
      = filter (\<lambda>g. \<not> (seg_StreamID g \<in> StreamID ` set rows \<and> swept inactive s (seg_StreamID g))) (segments s) \<and>
    copies (delete_batch inactive rows s) = copies s"
  using assms
proof (induction rows arbitrary: s)
  case Nil
  show ?case by (simp add: delete_batch_fold)
next
  case (Cons r rows)
  let ?s1 = "sweep_one inactive (object_stream r) s" and ?sw = "swept inactive s (StreamID r)"
  have r: "r \<in> set (objects s)" using Cons.prems(3) by simp
  have st: "StreamID (object_stream r) = StreamID r" by (simp add: object_stream_def)
  have s1: "objects ?s1 = filter (\<lambda>q. \<not> (q = r \<and> ?sw)) (objects s)"
    "segments ?s1 = filter (\<lambda>g. \<not> (seg_StreamID g = StreamID r \<and> ?sw)) (segments s)" "copies ?s1 = copies s"
    using names_own_row [OF Cons.prems(1) r]
    by (auto simp: sweep_one_cases st delete_object_and_segments_def sql_delete_def intro!: filter_cong)
  have at: "stream_at (object_stream r) s"
    using names_own_row [OF Cons.prems(1) r] stream_unique [OF Cons.prems(1) _ r] by (auto simp: stream_at_def st)
  have inv1: "store_inv ?s1"
    using delete_stream_inv [OF Cons.prems(1) at] Cons.prems(1) by (simp add: sweep_one_cases)
  have sub: "set rows \<subseteq> set (objects ?s1)" using Cons.prems by (auto simp: s1)
  have other: "swept inactive ?s1 (StreamID q) = swept inactive s (StreamID q)" if "q \<in> set rows" for q
  proof (rule swept_other)
    have "q \<in> set (objects s)" "q \<noteq> r" using that Cons.prems by auto
    then show "StreamID r \<noteq> StreamID q" using stream_unique [OF Cons.prems(1) r] by metis
  qed
  have IH: "objects (delete_batch inactive rows ?s1)
      = filter (\<lambda>q. \<not> (q \<in> set rows \<and> swept inactive ?s1 (StreamID q))) (objects ?s1)"
    "segments (delete_batch inactive rows ?s1)
      = filter (\<lambda>g. \<not> (seg_StreamID g \<in> StreamID ` set rows \<and> swept inactive ?s1 (seg_StreamID g))) (segments ?s1)"
    "copies (delete_batch inactive rows ?s1) = copies ?s1"
    using Cons.IH [OF inv1 _ sub] Cons.prems(2) by auto
  have e: "delete_batch inactive (r # rows) s = delete_batch inactive rows ?s1"
    by (simp add: delete_batch_fold)
  have "objects (delete_batch inactive (r # rows) s)
      = filter (\<lambda>q. \<not> (q \<in> set (r # rows) \<and> swept inactive s (StreamID q))) (objects s)"
    unfolding e IH s1 filter_filter
    by (rule filter_cong [OF refl]) (use other in auto)
  moreover have "segments (delete_batch inactive (r # rows) s)
      = filter (\<lambda>g. \<not> (seg_StreamID g \<in> StreamID ` set (r # rows) \<and> swept inactive s (seg_StreamID g))) (segments s)"
    unfolding e IH s1 filter_filter
    by (rule filter_cong [OF refl]) (use other in auto)
  ultimately show ?case using e IH(3) s1(3) by simp
qed

subsection \<open>All batches\<close>

text \<open>A batch takes the smallest keys: a selected row is in it or above its last row.\<close>

lemma take_sorted_split:
  assumes "sorted (map f xs)" "distinct (map f xs)" "take n xs \<noteq> []" "x \<in> set xs"
  shows "x \<in> set (take n xs) \<or> (f (last (take n xs)) :: 'k :: linorder) < f x"
proof (rule disjCI)
  assume notlater: "\<not> f (last (take n xs)) < f x"
  show "x \<in> set (take n xs)"
  proof (rule ccontr)
    assume notin: "x \<notin> set (take n xs)"
    then have "x \<in> set (drop n xs)" using assms(4) by (metis Un_iff append_take_drop_id set_append)
    moreover have l: "last (take n xs) \<in> set (take n xs)" using assms(3) by simp
    moreover have "sorted (map f (take n xs @ drop n xs))" using assms(1) by simp
    ultimately have "f (last (take n xs)) \<le> f x"
      unfolding map_append sorted_append by auto
    then have "f (last (take n xs)) = f x" using notlater by simp
    moreover have "last (take n xs) \<in> set xs" using l by (rule in_set_takeD)
    ultimately have "last (take n xs) = x" using assms(2,4) by (simp add: distinct_map inj_on_def)
    with l notin show False by simp
  qed
qed

lemma batch_split:
  assumes inv: "store_inv s" and rows: "rows = select_batch P k n s" "rows \<noteq> []" and r: "r \<in> set (objects s)"
  shows "k < object_key r \<and> P r \<longleftrightarrow> r \<in> set rows \<or> object_key (last rows) < object_key r \<and> P r"
proof -
  define xs where "xs = sort_key object_key (filter (\<lambda>r. k < object_key r \<and> P r) (objects s))"
  have rows': "rows = take n xs" by (simp add: rows(1) select_batch_def xs_def)
  have keys: "inj_on object_key (set (objects s))" "distinct (objects s)"
    using inv by (auto simp: store_inv_def keys_ok_def unique_key_def distinct_map)
  have "inj_on object_key (set xs)" by (rule inj_on_subset [OF keys(1)]) (auto simp: xs_def)
  then have d: "distinct (map object_key xs)" using keys(2) by (simp add: distinct_map xs_def)
  have s: "sorted (map object_key xs)" by (simp add: xs_def)
  have xs: "q \<in> set xs \<longleftrightarrow> q \<in> set (objects s) \<and> k < object_key q \<and> P q" for q
    by (auto simp: xs_def)
  have "last rows \<in> set rows" using rows(2) by simp
  then have "k < object_key (last rows)" using xs unfolding rows' by (blast dest: in_set_takeD)
  then show ?thesis
    using take_sorted_split [OF s d, of n r] rows(2) xs r unfolding rows'
    by (blast dest: in_set_takeD intro: less_trans)
qed

lemma delete_batches_result:
  assumes "store_inv s" "0 < n" "\<forall>r \<in> set (objects s). StreamID r \<noteq> 0"
  shows "objects (delete_batches P inactive n k s)
      = filter (\<lambda>r. \<not> (k < object_key r \<and> P r \<and> swept inactive s (StreamID r))) (objects s) \<and>
    segments (delete_batches P inactive n k s)
      = filter (\<lambda>g. \<not> (\<exists>r \<in> set (objects s). StreamID r = seg_StreamID g \<and> k < object_key r \<and> P r \<and>
          swept inactive s (StreamID r))) (segments s)"
  using assms
proof (induction P inactive n k s rule: delete_batches.induct)
  case (1 P inactive n k s)
  define rows where "rows = select_batch P k n s"
  let ?s' = "delete_batch inactive rows s"
  have sub: "set rows \<subseteq> {r \<in> set (objects s). k < object_key r \<and> P r}"
    by (auto simp: rows_def select_batch_def dest!: in_set_takeD)
  have step: "delete_batches P inactive n k s =
      (if rows = [] \<or> StreamID (last rows) = 0 then ?s' else delete_batches P inactive n (object_key (last rows)) ?s')"
    by (subst delete_batches.simps) (simp add: rows_def Let_def)
  show ?case
  proof (cases "rows = []")
    case True
    then have "filter (\<lambda>r. k < object_key r \<and> P r) (objects s) = []"
      using "1.prems"(2) length_sort [of object_key "filter (\<lambda>r. k < object_key r \<and> P r) (objects s)"]
      by (simp add: rows_def select_batch_def)
    then have none: "\<not> (k < object_key r \<and> P r)" if "r \<in> set (objects s)" for r
      using that by (simp add: filter_empty_conv)
    have "objects s = filter (\<lambda>r. \<not> (k < object_key r \<and> P r \<and> swept inactive s (StreamID r))) (objects s)"
      using none by (intro filter_True [symmetric]) blast
    moreover have "segments s = filter (\<lambda>g. \<not> (\<exists>r \<in> set (objects s). StreamID r = seg_StreamID g \<and>
        k < object_key r \<and> P r \<and> swept inactive s (StreamID r))) (segments s)"
      using none by (intro filter_True [symmetric]) blast
    ultimately show ?thesis using step True by (simp add: delete_batch_fold)
  next
    case False
    let ?k = "object_key (last rows)"
    have l: "last rows \<in> set rows" using False by simp
    then have nz: "StreamID (last rows) \<noteq> 0" using sub "1.prems"(3) by blast
    have "distinct (objects s)" using "1.prems"(1) by (auto simp: store_inv_def keys_ok_def unique_key_def distinct_map)
    then have d: "distinct rows" by (simp add: rows_def select_batch_def)
    have sub': "set rows \<subseteq> set (objects s)" using sub by blast
    note rw = sweep_rows [OF "1.prems"(1) d sub', of inactive]
    have inv': "store_inv ?s'"
      by (rule delete_batch_inv [OF "1.prems"(1)]) (use select_batch_at [OF "1.prems"(1)] rows_def in blast)
    have IH: "objects (delete_batches P inactive n ?k ?s')
        = filter (\<lambda>r. \<not> (?k < object_key r \<and> P r \<and> swept inactive ?s' (StreamID r))) (objects ?s')"
      "segments (delete_batches P inactive n ?k ?s')
        = filter (\<lambda>g. \<not> (\<exists>r \<in> set (objects ?s'). StreamID r = seg_StreamID g \<and> ?k < object_key r \<and> P r \<and>
          swept inactive ?s' (StreamID r))) (segments ?s')"
      using "1.IH" [OF rows_def refl _ inv' "1.prems"(2)] False nz "1.prems"(3) rw by auto
    have split: "k < object_key r \<and> P r \<longleftrightarrow> r \<in> set rows \<or> ?k < object_key r \<and> P r" if "r \<in> set (objects s)" for r
      by (rule batch_split [OF "1.prems"(1) rows_def False that])
    have keep: "swept inactive ?s' st = swept inactive s st"
      if st: "\<not> (st \<in> StreamID ` set rows \<and> swept inactive s st)" for st
    proof -
      have "recent_segment t st ?s' = recent_segment t st s" for t
        using st rw by (auto simp: recent_segment_def)
      then show ?thesis unfolding swept_def by (cases inactive) simp_all
    qed
    have st: "StreamID r \<in> StreamID ` set rows \<longleftrightarrow> r \<in> set rows" if "r \<in> set (objects s)" for r
      using stream_unique [OF "1.prems"(1) that] sub' by blast
    have "objects (delete_batches P inactive n ?k ?s')
        = filter (\<lambda>r. \<not> (k < object_key r \<and> P r \<and> swept inactive s (StreamID r))) (objects s)"
      unfolding IH(1) rw [THEN conjunct1] filter_filter
    proof (rule filter_cong [OF refl])
      fix r assume r: "r \<in> set (objects s)"
      show "(\<not> (r \<in> set rows \<and> swept inactive s (StreamID r)) \<and>
          \<not> (?k < object_key r \<and> P r \<and> swept inactive ?s' (StreamID r))) =
        (\<not> (k < object_key r \<and> P r \<and> swept inactive s (StreamID r)))"
        using split [OF r] keep [of "StreamID r"] st [OF r] by blast
    qed
    moreover have "segments (delete_batches P inactive n ?k ?s')
        = filter (\<lambda>g. \<not> (\<exists>r \<in> set (objects s). StreamID r = seg_StreamID g \<and> k < object_key r \<and> P r \<and>
          swept inactive s (StreamID r))) (segments s)"
      unfolding IH(2) rw [THEN conjunct2, THEN conjunct1] filter_filter
    proof (rule filter_cong [OF refl])
      fix g
      let ?st = "seg_StreamID g"
      let ?now = "?st \<in> StreamID ` set rows \<and> swept inactive s ?st"
      let ?later = "\<exists>r \<in> set (objects ?s'). StreamID r = ?st \<and> ?k < object_key r \<and> P r \<and>
          swept inactive ?s' (StreamID r)"
      have o: "r \<in> set (objects ?s') \<longleftrightarrow> r \<in> set (objects s) \<and> \<not> (r \<in> set rows \<and> swept inactive s (StreamID r))" for r
        using rw by auto
      have "(\<exists>r \<in> set (objects s). StreamID r = ?st \<and> k < object_key r \<and> P r \<and> swept inactive s (StreamID r))
          \<longleftrightarrow> ?now \<or> ?later"
      proof
        assume "\<exists>r \<in> set (objects s). StreamID r = ?st \<and> k < object_key r \<and> P r \<and> swept inactive s (StreamID r)"
        then obtain r where r: "r \<in> set (objects s)" "StreamID r = ?st" "k < object_key r \<and> P r"
          "swept inactive s (StreamID r)" by blast
        show "?now \<or> ?later"
          using split [OF r(1)] r keep [of "StreamID r"] st [OF r(1)] o by metis
      next
        assume "?now \<or> ?later"
        then show "\<exists>r \<in> set (objects s). StreamID r = ?st \<and> k < object_key r \<and> P r \<and> swept inactive s (StreamID r)"
        proof
          assume ?now
          then obtain q where q: "q \<in> set rows" "?st = StreamID q" "swept inactive s (StreamID q)" by auto
          then have "q \<in> set (objects s)" using sub' by blast
          with q split [OF this] show ?thesis by metis
        next
          assume ?later
          then obtain r where r: "r \<in> set (objects ?s')" "StreamID r = ?st" "?k < object_key r" "P r"
            "swept inactive ?s' (StreamID r)" by blast
          then have r0: "r \<in> set (objects s)" "\<not> (r \<in> set rows \<and> swept inactive s (StreamID r))" using o by blast+
          with keep [of "StreamID r"] st [OF r0(1)] r(5) have "swept inactive s (StreamID r)" by blast
          with r r0(1) split [OF r0(1)] show ?thesis by metis
        qed
      qed
      then show "(\<not> ?now \<and> \<not> ?later) = (\<not> (\<exists>r \<in> set (objects s). StreamID r = ?st \<and>
          k < object_key r \<and> P r \<and> swept inactive s (StreamID r)))" by blast
    qed
    ultimately show ?thesis using step False nz by simp
  qed
qed

subsection \<open>The two deletions\<close>

definition ids_present :: "store \<Rightarrow> bool" where
  "ids_present s \<longleftrightarrow> (\<forall>r \<in> set (objects s). ProjectID r \<noteq> 0 \<and> StreamID r \<noteq> 0)"

lemma zero_key_less: "ProjectID r \<noteq> 0 \<Longrightarrow> zero_key < object_key r"
  by (simp add: zero_key_def object_key_def word_neq_0_conv)

lemma ensure_limit_pos: "0 < nat (ensure_limit deleteBatchsizeLimit n)"
  by (simp add: ensure_limit_def deleteBatchsizeLimit_def)

lemma sweep_all:
  fixes P :: "Object \<Rightarrow> bool" and inactive :: "time option" and n :: int
  assumes "store_inv s" "ids_present s"
  defines "s' \<equiv> delete_batches P inactive (nat (ensure_limit deleteBatchsizeLimit n)) zero_key s"
  shows "objects s' = filter (\<lambda>r. \<not> (P r \<and> swept inactive s (StreamID r))) (objects s) \<and>
    segments s' = filter (\<lambda>g. \<not> (\<exists>r \<in> set (objects s). StreamID r = seg_StreamID g \<and> P r \<and>
        swept inactive s (StreamID r))) (segments s)"
proof -
  have above: "zero_key < object_key r" if "r \<in> set (objects s)" for r
    using that assms(2) zero_key_less by (auto simp: ids_present_def)
  have nz: "\<forall>r \<in> set (objects s). StreamID r \<noteq> 0" using assms(2) by (simp add: ids_present_def)
  have "objects s' = filter (\<lambda>r. \<not> (zero_key < object_key r \<and> P r \<and> swept inactive s (StreamID r))) (objects s)"
    "segments s' = filter (\<lambda>g. \<not> (\<exists>r \<in> set (objects s). StreamID r = seg_StreamID g \<and>
        zero_key < object_key r \<and> P r \<and> swept inactive s (StreamID r))) (segments s)"
    using delete_batches_result [OF assms(1) ensure_limit_pos nz] by (auto simp: s'_def)
  then show ?thesis using above by (auto intro!: filter_cong)
qed

text \<open>What the two operations promise to delete, said without their queries.\<close>

definition expired_before :: "time \<Rightarrow> Object \<Rightarrow> bool" where
  "expired_before t r \<longleftrightarrow> (\<exists>e. ExpiresAt r = Some e \<and> e < t)"

definition abandoned :: "time \<Rightarrow> time \<Rightarrow> store \<Rightarrow> Object \<Rightarrow> bool" where
  "abandoned deadline inactive s r \<longleftrightarrow> Status r = Pending \<and>
     (\<forall>d. ZombieDeletionDeadline r = Some d \<longrightarrow> d < deadline) \<and>
     (\<forall>g \<in> set (segments s). seg_StreamID g = StreamID r \<longrightarrow> seg_CreatedAt g \<le> inactive)"

lemma select_expired_iff: "select_expired t r \<longleftrightarrow> expired_before t r"
  by (simp add: select_expired_def expired_before_def split: option.splits)

lemma select_zombie_iff:
  "select_zombie d r \<and> \<not> recent_segment t (StreamID r) s \<longleftrightarrow> abandoned d t s r"
  by (auto simp: select_zombie_def recent_segment_def abandoned_def split: option.splits)

text \<open>
  Property C32. \<open>DeleteExpiredObjects\<close> deletes exactly the objects whose expiration lies before the
  given time, pending or committed, and exactly their segments, whatever the batch size.
\<close>

theorem DeleteExpiredObjects_result:
  assumes "store_inv s" and "ids_present s"
  shows "objects (DeleteExpiredObjects t n s) = filter (\<lambda>r. \<not> expired_before t r) (objects s) \<and>
    segments (DeleteExpiredObjects t n s)
      = filter (\<lambda>g. \<not> (\<exists>r \<in> set (objects s). StreamID r = seg_StreamID g \<and> expired_before t r)) (segments s)"
  using sweep_all [OF assms, of "select_expired t" None n]
  by (simp add: DeleteExpiredObjects_def swept_def select_expired_iff)

text \<open>
  Property C33. \<open>DeleteZombieObjects\<close> deletes exactly the pending objects whose deadline has passed
  and that have no segment created after the inactivity deadline; a committed object and a
  pending one still being written are kept with all their segments.
\<close>

theorem DeleteZombieObjects_result:
  assumes "store_inv s" and "ids_present s"
  shows "objects (DeleteZombieObjects d t n s) = filter (\<lambda>r. \<not> abandoned d t s r) (objects s) \<and>
    segments (DeleteZombieObjects d t n s)
      = filter (\<lambda>g. \<not> (\<exists>r \<in> set (objects s). StreamID r = seg_StreamID g \<and> abandoned d t s r)) (segments s)"
  using sweep_all [OF assms, of "select_zombie d" "Some t" n]
  by (simp add: DeleteZombieObjects_def swept_def select_zombie_iff)

text \<open>A committed object and a pending one that expire at 90.\<close>

definition ex_mixed :: store where
  "ex_mixed = fst (BeginObjectExactVersion 20
     ((ex_begin (ex_stream 2 6))\<lparr>begin_ExpiresAt := Some 90\<rparr>) ex_committed)"

lemma ex_mixed_ok: "store_inv ex_mixed" "ids_present ex_mixed"
proof -
  have "fresh_stream (StreamID (begin_Stream ((ex_begin (ex_stream 2 6))\<lparr>begin_ExpiresAt := Some 90\<rparr>))) ex_committed"
    unfolding fresh_stream_def by code_simp
  then have "reachable ex_cfg ex_mixed"
    unfolding ex_mixed_def by (intro reachable_step [OF ex_reachable(3)] single begin_exact)
  then show "store_inv ex_mixed" by (rule reachable_inv)
  show "ids_present ex_mixed" unfolding ids_present_def by code_simp
qed

theorem DeleteExpiredObjects_result_witness:
  "map Version (objects ex_mixed) = [1, 2] \<and> map Version (objects (DeleteExpiredObjects 100 1 ex_mixed)) = [1]"
proof -
  have "map Version (filter (\<lambda>r. \<not> select_expired 100 r) (objects ex_mixed)) = [1]"
    "map Version (objects ex_mixed) = [1, 2]" by code_simp+
  note this [unfolded select_expired_iff]
  then show ?thesis using DeleteExpiredObjects_result [OF ex_mixed_ok, of 100 1] by simp
qed

theorem DeleteZombieObjects_result_witness:
  "map Status (objects ex_mixed) = [Committed, Pending] \<and>
   map Status (objects (DeleteZombieObjects 90000000000000 50 1 ex_mixed)) = [Committed]"
proof -
  have "map Status (filter (\<lambda>r. \<not> (select_zombie 90000000000000 r \<and> \<not> recent_segment 50 (StreamID r) ex_mixed))
      (objects ex_mixed)) = [Committed]"
    "map Status (objects ex_mixed) = [Committed, Pending]" by code_simp+
  note this [unfolded select_zombie_iff]
  then show ?thesis using DeleteZombieObjects_result [OF ex_mixed_ok, of 90000000000000 50 1] by simp
qed

subsection \<open>A stale selection\<close>

text \<open>
  Lemma. The statement that deletes a selected zombie checks its segments but not that it is
  still pending. A batch selected while the object was pending, by a query that may read an
  older state, deletes the object after it has been committed.
\<close>

theorem stale_zombie_selection:
  "(let rows = select_batch (select_zombie 90000000000000) zero_key 1000 ex_written;
        after = delete_batch (Some 50) rows ex_committed
    in map Status (objects ex_committed) = [Committed] \<and> length (segments ex_committed) = 1 \<and>
       objects after = [] \<and> segments after = [])"
  by code_simp

text \<open>An object that expires at 90, committed and then moved from ``k'' to ``k2'', as a sweep sees it
  before and after the move.\<close>

definition ex_expiring :: store where
  "ex_expiring = fst (CommitObject ex_cfg (ex_commit (ex_stream 1 5))
     (fst (CommitInlineSegment 11 (ex_inline (ex_stream 1 5))
       (fst (BeginObjectExactVersion 10 ((ex_begin (ex_stream 1 5))\<lparr>begin_ExpiresAt := Some 90\<rparr>) empty_store)))))"

text \<open>
  Lemma. The statement that deletes a selected object finds the row by its location and the
  segments by their stream, and deletes the segments whether or not it found the row. An
  expired object selected before it is moved and deleted after keeps its row at the new location,
  committed with a segment count of one, and loses its segments.
\<close>

theorem stale_selection_of_moved:
  "(let rows = select_batch (select_expired 100) zero_key 1000 ex_expiring;
        moved = fst (FinishMoveObject ex_cfg (\<lambda>_. None) ex_move ex_expiring);
        after = delete_batch None rows moved
    in map ObjectKey rows = [''k''] \<and> length (segments moved) = 1 \<and>
       map (\<lambda>r. (ObjectKey r, Status r, SegmentCount r)) (objects after) = [(''k2'', Committed, 1)] \<and>
       segments after = [])"
  by code_simp

end
