(* ===== verification/Paging.thy ===== *)
theory Paging
  imports Prelude "HOL-Library.Product_Lexorder"
begin

text \<open>
  Iteration in batches, as the iterators of \<open>satellite/metabase\<close> do it: a query returns at most
  \<open>n\<close> rows after a cursor, in the order of a key; the iterator hands them out one at a time,
  moves its cursor to the row handed out, and asks again once a full batch is used up. The
  table may change between two calls. The locale states what an iterator has to provide; its
  lemmas say that no row is handed out twice and that no row that was there all along is missed.
\<close>

record ('r, 'c) pages =
  pg_rows :: "'r list"
  pg_index :: nat
  pg_cursor :: 'c

definition page_query ::
  "('s \<Rightarrow> 'r list) \<Rightarrow> ('r \<Rightarrow> 'k :: linorder) \<Rightarrow> ('c \<Rightarrow> 'r \<Rightarrow> bool) \<Rightarrow> nat \<Rightarrow> 's \<Rightarrow> 'c \<Rightarrow> 'r list" where
  "page_query rows key beyond n s c = take n (sort_key key (filter (beyond c) (rows s)))"

text \<open>\<open>query\<close> is \<open>doNextQuery\<close> on the tables at the time of the call.\<close>

definition page_next ::
  "('s \<Rightarrow> 'c \<Rightarrow> 'r list) \<Rightarrow> ('r \<Rightarrow> 'c) \<Rightarrow> nat \<Rightarrow> 's \<Rightarrow> ('r, 'c) pages \<Rightarrow> 'r option \<times> ('r, 'c) pages" where
  "page_next query cur n s p =
     (case pg_rows p of
        r # rs \<Rightarrow> (Some r, \<lparr>pg_rows = rs, pg_index = Suc (pg_index p), pg_cursor = cur r\<rparr>)
      | [] \<Rightarrow>
          if pg_index p < n then (None, p)
          else (case query s (pg_cursor p) of
             [] \<Rightarrow> (None, p\<lparr>pg_rows := [], pg_index := 0\<rparr>)
           | r # rs \<Rightarrow> (Some r, \<lparr>pg_rows = rs, pg_index = 1, pg_cursor = cur r\<rparr>)))"

definition page_start :: "('s \<Rightarrow> 'c \<Rightarrow> 'r list) \<Rightarrow> 's \<Rightarrow> 'c \<Rightarrow> ('r, 'c) pages" where
  "page_start query s c = \<lparr>pg_rows = query s c, pg_index = 0, pg_cursor = c\<rparr>"

text \<open>The calls of a caller that stops at the first \<open>false\<close>, each against the tables of its
  time; the flag says that \<open>false\<close> was reached.\<close>

fun run_calls :: "('s \<Rightarrow> 'p \<Rightarrow> 'r option \<times> 'p) \<Rightarrow> 's list \<Rightarrow> 'p \<Rightarrow> 'r list \<times> bool" where
  "run_calls step [] p = ([], False)"
| "run_calls step (s # ss) p =
     (case step s p of
        (None, p') \<Rightarrow> ([], True)
      | (Some r, p') \<Rightarrow> (case run_calls step ss p' of (rs, finished) \<Rightarrow> (r # rs, finished)))"

lemma run_calls_length: "run_calls step ss p = (rs, False) \<Longrightarrow> length rs = length ss"
  by (induction ss arbitrary: p rs) (auto split: prod.splits option.splits)

lemma strictly_sorted_eq:
  fixes xs ys :: "'k :: linorder list"
  shows "sorted_wrt (<) xs \<Longrightarrow> sorted_wrt (<) ys \<Longrightarrow> set xs = set ys \<Longrightarrow> xs = ys"
  by (simp add: sorted_distinct_set_unique strict_sorted_iff)

lemma sorted_key_unique:
  assumes "sorted_wrt (\<lambda>x y. key x < (key y :: 'k :: linorder)) xs"
    and "sorted_wrt (\<lambda>x y. key x < key y) ys" and "set xs = set ys"
  shows "xs = ys"
proof -
  have "map key xs = map key ys"
    using assms by (intro strictly_sorted_eq) (simp_all add: sorted_wrt_map)
  moreover have "inj_on key (set xs \<union> set ys)"
  proof -
    have "sorted_wrt (<) (map key xs)" using assms(1) by (simp add: sorted_wrt_map)
    then have "distinct (map key xs)" by (rule sorted_wrt_lt_distinct)
    then show ?thesis using assms(3) by (simp add: distinct_map)
  qed
  ultimately show ?thesis using map_inj_on by blast
qed

lemma sort_key_strict:
  assumes "distinct (map (key :: 'r \<Rightarrow> 'k :: linorder) rows)"
  shows "sorted_wrt (\<lambda>x y. key x < key y) (sort_key key rows)"
proof -
  have "distinct (map key (sort_key key rows))" using assms by (simp add: distinct_map)
  then have "sorted_wrt (<) (map key (sort_key key rows))" by (simp add: strict_sorted_iff)
  then show ?thesis by (simp add: sorted_wrt_map)
qed

lemma sorted_wrt_take: "sorted_wrt P xs \<Longrightarrow> sorted_wrt P (take n xs)"
  by (metis append_take_drop_id sorted_wrt_append)

lemma take_before_rest:
  assumes "sorted_wrt P xs" and "x \<in> set (take n xs)" and "y \<in> set xs" and "y \<notin> set (take n xs)"
  shows "P x y"
proof -
  have "sorted_wrt P (take n xs @ drop n xs)" using assms(1) by (simp only: append_take_drop_id)
  moreover have "y \<in> set (drop n xs)"
    using assms(3,4) by (metis Un_iff append_take_drop_id set_append)
  ultimately show ?thesis using assms(2) by (simp only: sorted_wrt_append)
qed

text \<open>What an iterator provides: the rows of the tables it lists, their key, which rows are
  beyond a cursor, and the cursor of a row.\<close>

locale batches =
  fixes rows :: "'s \<Rightarrow> 'r list"
    and key :: "'r \<Rightarrow> 'k :: linorder"
    and beyond :: "'c \<Rightarrow> 'r \<Rightarrow> bool"
    and cur :: "'r \<Rightarrow> 'c"
  assumes beyond_cur: "beyond (cur q) r \<longleftrightarrow> key q < key r"
    and beyond_mono: "beyond c q \<Longrightarrow> key q < key r \<Longrightarrow> beyond c r"
begin

abbreviation query :: "nat \<Rightarrow> 's \<Rightarrow> 'c \<Rightarrow> 'r list" where
  "query n \<equiv> page_query rows key beyond n"

definition stable :: "'s set \<Rightarrow> 'r \<Rightarrow> bool" where
  "stable S r \<longleftrightarrow> (\<forall>s \<in> S. r \<in> set (rows s))"

definition good :: "'s set \<Rightarrow> bool" where
  "good S \<longleftrightarrow> (\<forall>s \<in> S. distinct (map key (rows s)))"

definition owes :: "nat \<Rightarrow> 's set \<Rightarrow> ('r, 'c) pages \<Rightarrow> bool" where
  "owes n S p \<longleftrightarrow>
     sorted_wrt (\<lambda>x y. key x < key y) (pg_rows p) \<and>
     (\<forall>r \<in> set (pg_rows p). beyond (pg_cursor p) r \<and> (\<exists>s \<in> S. r \<in> set (rows s))) \<and>
     (\<forall>r. stable S r \<longrightarrow> beyond (pg_cursor p) r \<longrightarrow> r \<in> set (pg_rows p) \<or>
        pg_index p + length (pg_rows p) = n \<and> (\<forall>q \<in> set (pg_rows p). key q < key r))"

lemma query_sorted:
  "good S \<Longrightarrow> s \<in> S \<Longrightarrow> sorted_wrt (\<lambda>x y. key x < key y) (query n s c)"
  unfolding page_query_def good_def
  by (intro sorted_wrt_take sort_key_strict) (simp add: distinct_map_filter)

lemma query_rows: "r \<in> set (query n s c) \<Longrightarrow> r \<in> set (rows s) \<and> beyond c r"
  unfolding page_query_def by (auto dest!: in_set_takeD)

lemma query_covers:
  assumes "good S" and "s \<in> S" and "stable S r" and "beyond c r" and "r \<notin> set (query n s c)"
  shows "length (query n s c) = n \<and> (\<forall>q \<in> set (query n s c). key q < key r)"
proof -
  let ?all = "sort_key key (filter (beyond c) (rows s))"
  have s: "sorted_wrt (\<lambda>x y. key x < key y) ?all"
    using assms(1,2) unfolding good_def by (intro sort_key_strict) (simp add: distinct_map_filter)
  have r: "r \<in> set ?all" using assms(2-4) by (simp add: stable_def)
  have n: "r \<notin> set (take n ?all)" using assms(5) by (simp add: page_query_def)
  then have "n < length ?all" using r by (metis leI take_all_iff)
  then have "length (take n ?all) = n" by simp
  then show ?thesis using take_before_rest [OF s _ r n] by (simp add: page_query_def)
qed

lemma owes_start: "good S \<Longrightarrow> s \<in> S \<Longrightarrow> owes n S (page_start (query n) s c)"
  using query_sorted [of S s n c] query_rows [of _ n s c] query_covers [of S s _ c n]
  by (auto simp: owes_def page_start_def)

lemma owes_cons:
  assumes "owes n S \<lparr>pg_rows = r # rs, pg_index = i, pg_cursor = c\<rparr>"
  shows "owes n S \<lparr>pg_rows = rs, pg_index = Suc i, pg_cursor = cur r\<rparr> \<and> beyond c r \<and>
    (\<exists>s \<in> S. r \<in> set (rows s)) \<and> (\<forall>q. stable S q \<longrightarrow> beyond c q \<longrightarrow> q = r \<or> key r < key q)"
  using assms beyond_cur beyond_mono [of c r] by (auto simp: owes_def)

lemma owes_requery:
  assumes "good S" and "s \<in> S"
  shows "owes n S \<lparr>pg_rows = query n s c, pg_index = 0, pg_cursor = c\<rparr>"
  using owes_start [OF assms, of n c] by (simp add: page_start_def)

lemma next_Some:
  assumes "good S" and "s \<in> S" and "owes n S p" and "page_next (query n) cur n s p = (Some r, p')"
  shows "owes n S p' \<and> pg_cursor p' = cur r \<and> beyond (pg_cursor p) r \<and> (\<exists>s \<in> S. r \<in> set (rows s)) \<and>
    (\<forall>q. stable S q \<longrightarrow> beyond (pg_cursor p) q \<longrightarrow> q = r \<or> key r < key q)"
proof (cases "pg_rows p")
  case (Cons q qs)
  then have "r = q" "p' = \<lparr>pg_rows = qs, pg_index = Suc (pg_index p), pg_cursor = cur r\<rparr>"
    using assms(4) by (auto simp: page_next_def)
  then show ?thesis
    using owes_cons [of n S r qs "pg_index p" "pg_cursor p"] assms(3) Cons by (cases p) auto
next
  case Nil
  then obtain qs where "query n s (pg_cursor p) = r # qs"
    and "p' = \<lparr>pg_rows = qs, pg_index = 1, pg_cursor = cur r\<rparr>"
    using assms(4) by (auto simp: page_next_def split: if_splits list.splits)
  then show ?thesis
    using owes_cons [of n S r qs 0 "pg_cursor p"] owes_requery [OF assms(1,2), of n "pg_cursor p"] by simp
qed

lemma next_None:
  assumes "good S" and "s \<in> S" and "0 < n" and "owes n S p" and "page_next (query n) cur n s p = (None, p')"
  shows "\<not> (stable S q \<and> beyond (pg_cursor p) q)"
proof
  assume q: "stable S q \<and> beyond (pg_cursor p) q"
  have e: "pg_rows p = []" using assms(5) by (auto simp: page_next_def split: list.splits if_splits)
  then have "pg_index p = n" using assms(4) q by (auto simp: owes_def)
  then have "query n s (pg_cursor p) = []"
    using assms(5) e by (auto simp: page_next_def split: list.splits if_splits)
  then show False using query_covers [OF assms(1,2), of q "pg_cursor p" n] q assms(3) by auto
qed

text \<open>All rows handed out are in strictly ascending order, beyond the start, and were in the
  tables; once the iteration is over nothing that stayed in the tables was missed.\<close>

lemma run_calls_owes:
  assumes "good S" and "0 < n" and "set ss \<subseteq> S" and "owes n S p"
    and "run_calls (page_next (query n) cur n) ss p = (rs, finished)"
  shows "sorted_wrt (\<lambda>x y. key x < key y) rs \<and>
    (\<forall>r \<in> set rs. beyond (pg_cursor p) r \<and> (\<exists>s \<in> S. r \<in> set (rows s))) \<and>
    (finished \<longrightarrow> (\<forall>q. stable S q \<longrightarrow> beyond (pg_cursor p) q \<longrightarrow> q \<in> set rs))"
  using assms(3-5)
proof (induction ss arbitrary: p rs)
  case Nil
  then show ?case by simp
next
  case (Cons s ss)
  obtain res p' where n: "page_next (query n) cur n s p = (res, p')" by fastforce
  show ?case
  proof (cases res)
    case None
    have "s \<in> S" using Cons.prems(1) by simp
    have "\<not> (stable S q \<and> beyond (pg_cursor p) q)" for q
      using next_None [OF assms(1) \<open>s \<in> S\<close> assms(2) Cons.prems(2)] n None by blast
    then show ?thesis using Cons.prems(3) n None by auto
  next
    case (Some r)
    have "s \<in> S" using Cons.prems(1) by simp
    note step = next_Some [OF assms(1) \<open>s \<in> S\<close> Cons.prems(2) n [unfolded Some]]
    obtain rs' where rs': "run_calls (page_next (query n) cur n) ss p' = (rs', finished)" "rs = r # rs'"
      using Cons.prems(3) n Some by (auto split: prod.splits)
    have sub: "set ss \<subseteq> S" using Cons.prems(1) by simp
    have "owes n S p'" using step by blast
    note ih = Cons.IH [OF sub this rs'(1)]
    have c: "beyond (pg_cursor p') q \<longleftrightarrow> key r < key q" for q using step beyond_cur by simp
    have m: "key r < key q \<Longrightarrow> beyond (pg_cursor p) q" for q using step beyond_mono by blast
    show ?thesis using ih step m unfolding c rs'(2) by auto
  qed
qed

theorem run_sound:
  assumes "good S" and "0 < n" and "s0 \<in> S" and "set ss \<subseteq> S"
    and "run_calls (page_next (query n) cur n) ss (page_start (query n) s0 c) = (rs, finished)"
  shows "sorted_wrt (\<lambda>x y. key x < key y) rs" and "r \<in> set rs \<Longrightarrow> beyond c r \<and> (\<exists>s \<in> S. r \<in> set (rows s))"
    and "finished \<Longrightarrow> stable S q \<Longrightarrow> beyond c q \<Longrightarrow> q \<in> set rs"
  using run_calls_owes [OF assms(1,2,4) owes_start [OF assms(1,3)] assms(5)]
  by (auto simp: page_start_def)

text \<open>Against tables that do not change, the rows handed out do not depend on the batch size.\<close>

theorem run_constant:
  assumes "\<And>s. s \<in> set (s0 # ss) \<Longrightarrow> rows s = R" and "distinct (map key R)" and "0 < n"
    and "length (filter (beyond c) R) < length ss"
  shows "run_calls (page_next (query n) cur n) ss (page_start (query n) s0 c) =
    (sort_key key (filter (beyond c) R), True)"
proof -
  let ?S = "set (s0 # ss)"
  obtain rs finished where r:
    "run_calls (page_next (query n) cur n) ss (page_start (query n) s0 c) = (rs, finished)"
    by fastforce
  have g: "good ?S" using assms(1,2) by (auto simp: good_def)
  have sub: "s0 \<in> ?S" "set ss \<subseteq> ?S" by auto
  note sound = run_sound [OF g assms(3) sub r]
  have st: "stable ?S q \<longleftrightarrow> q \<in> set R" for q using assms(1) by (auto simp: stable_def)
  have rows: "(\<exists>s \<in> ?S. q \<in> set (rows s)) \<longleftrightarrow> q \<in> set R" for q using assms(1) by auto
  have "set rs \<subseteq> set (filter (beyond c) R)" using sound(2) rows by auto
  moreover have "distinct rs"
  proof -
    have "sorted_wrt (<) (map key rs)" using sound(1) by (simp add: sorted_wrt_map)
    then show ?thesis using sorted_wrt_lt_distinct distinct_map by blast
  qed
  ultimately have "length rs \<le> length (filter (beyond c) R)"
    by (metis (no_types) List.finite_set card_length card_mono distinct_card le_trans)
  then have f: finished using run_calls_length [of _ _ _ rs] r assms(4) by (cases finished) fastforce+
  have "rs = sort_key key (filter (beyond c) R)"
  proof (rule sorted_key_unique)
    show "sorted_wrt (\<lambda>x y. key x < key y) rs" using sound(1) by simp
    show "sorted_wrt (\<lambda>x y. key x < key y) (sort_key key (filter (beyond c) R))"
      using assms(2) by (intro sort_key_strict) (simp add: distinct_map_filter)
    show "set rs = set (sort_key key (filter (beyond c) R))"
      using sound(2) sound(3) [OF f] st rows by auto
  qed
  then show ?thesis using r f by simp
qed

theorem run_static:
  assumes "distinct (map key (rows s))" and "0 < n" and "length (filter (beyond c) (rows s)) < k"
  shows "run_calls (page_next (query n) cur n) (replicate k s) (page_start (query n) s c) =
    (sort_key key (filter (beyond c) (rows s)), True)"
  using assms by (intro run_constant) auto

end

end
