(* ===== verification/MetaList.thy ===== *)
theory MetaList
  imports MetaStore Paging
begin

text \<open>
  Listing the objects of a bucket: the iterator of \<open>satellite/metabase/iterator.go\<close> and
  \<open>list.go\<close>, and the single query of \<open>list_objects.go\<close>. An iterator is a value that every
  call of \<open>Next\<close> returns changed, next to the caller's item; a call sees the tables of its
  time. Object keys are compared bytewise.
\<close>

subsection \<open>Keys\<close>

definition Delimiter :: char where "Delimiter = CHR ''/''"

definition next_char :: "char \<Rightarrow> char" where
  "next_char c = char_of (of_char c + 1 :: nat)"

definition prefixLimit :: "string \<Rightarrow> string" where
  "prefixLimit a =
     (if a = [] then []
      else if last a = CHR 0xFF then a @ [CHR 0x00]
      else butlast a @ [next_char (last a)])"

definition lessKey :: "string \<Rightarrow> string \<Rightarrow> bool" where
  "lessKey a b \<longleftrightarrow> a < b"

definition nextBucket :: "string \<Rightarrow> string" where
  "nextBucket b = b @ [CHR 0x00]"

subsection \<open>Entries and cursors\<close>

text \<open>\<open>None\<close> is the zero value of the status.\<close>

record ObjectEntry =
  e_IsPrefix :: bool
  e_ObjectKey :: string
  e_Version :: int
  e_StreamID :: uuid
  e_CreatedAt :: time
  e_ExpiresAt :: "time option"
  e_Status :: "ObjectStatus option"
  e_SegmentCount :: int
  e_EncryptedMetadataNonce :: "byte list option"
  e_EncryptedMetadata :: "byte list option"
  e_EncryptedMetadataEncryptedKey :: "byte list option"
  e_TotalPlainSize :: int
  e_TotalEncryptedSize :: int
  e_FixedSegmentSize :: int
  e_Encryption :: EncryptionParameters

definition zero_ObjectEntry :: ObjectEntry where
  "zero_ObjectEntry = \<lparr>e_IsPrefix = False, e_ObjectKey = [], e_Version = 0, e_StreamID = 0,
     e_CreatedAt = 0, e_ExpiresAt = None, e_Status = None, e_SegmentCount = 0,
     e_EncryptedMetadataNonce = None, e_EncryptedMetadata = None,
     e_EncryptedMetadataEncryptedKey = None, e_TotalPlainSize = 0, e_TotalEncryptedSize = 0,
     e_FixedSegmentSize = 0, e_Encryption = zero_EncryptionParameters\<rparr>"

record IterateCursor =
  cursor_Key :: string
  cursor_Version :: int

record iterateCursor =
  ic_Key :: string
  ic_Version :: int
  ic_StreamID :: uuid
  ic_Inclusive :: bool

record IterateObjectsWithStatus =
  io_ProjectID :: uuid
  io_BucketName :: string
  io_Recursive :: bool
  io_BatchSize :: int
  io_Prefix :: string
  io_Cursor :: IterateCursor
  io_Status :: "ObjectStatus option"
  io_IncludeCustomMetadata :: bool
  io_IncludeSystemMetadata :: bool

definition IterateObjectsWithStatus_Verify :: "IterateObjectsWithStatus \<Rightarrow> unit meta_res" where
  "IterateObjectsWithStatus_Verify opts =
     (if io_ProjectID opts = 0 then Inl (ErrInvalidRequest ''ProjectID missing'')
      else if io_BucketName opts = [] then Inl (ErrInvalidRequest ''BucketName missing'')
      else if io_BatchSize opts < 0 then Inl (ErrInvalidRequest ''BatchSize is negative'')
      else if io_Status opts = None then Inl (ErrInvalidRequest ''Status is not supported'')
      else Inr ())"

record IteratePendingObjectsByKeyOpts =
  ip_Location :: ObjectLocation
  ip_BatchSize :: int
  ip_Cursor_StreamID :: uuid

definition IteratePendingObjectsByKey_Verify :: "IteratePendingObjectsByKeyOpts \<Rightarrow> unit meta_res" where
  "IteratePendingObjectsByKey_Verify opts =
     res_bind (ObjectLocation_Verify (ip_Location opts)) (\<lambda>_.
       if ip_BatchSize opts < 0 then Inl (ErrInvalidRequest ''BatchSize is negative'') else Inr ())"

text \<open>\<open>ListLimit\<close>, \<open>batchsizeLimit\<close> and \<open>intLimitRange.Ensure\<close>.\<close>

definition ListLimit :: int where "ListLimit = 1000"
definition batchsizeLimit :: int where "batchsizeLimit = ListLimit + 1"

definition ensure_range :: "int \<Rightarrow> int \<Rightarrow> int" where
  "ensure_range limit v = (if v \<le> 0 \<or> v > limit then limit else v)"

subsection \<open>The iterator\<close>

datatype next_query = AllVersionsWithStatus | StreamsByKey

record objectsIterator =
  it_projectID :: uuid
  it_bucketName :: string
  it_status :: "ObjectStatus option"
  it_prefix :: string
  it_prefixLimit :: string
  it_batchSize :: int
  it_recursive :: bool
  it_includeCustomMetadata :: bool
  it_includeSystemMetadata :: bool
  it_curIndex :: int
  it_curRows :: "Object list"
  it_cursor :: iterateCursor
  it_skipPrefix :: string
  it_doNextQuery :: next_query

text \<open>The rows of the query carry the key from the end of the prefix on.\<close>

definition select_row :: "nat \<Rightarrow> Object \<Rightarrow> Object" where
  "select_row k r = r\<lparr>ObjectKey := drop k (ObjectKey r)\<rparr>"

definition doNextQueryAllVersionsWithStatus :: "time \<Rightarrow> objectsIterator \<Rightarrow> store \<Rightarrow> Object list" where
  "doNextQueryAllVersionsWithStatus now it s =
     (let c = it_cursor it;
          start = (it_projectID it, it_bucketName it, ic_Key c, ic_Version c);
          after = (\<lambda>r. if ic_Inclusive c then start \<le> object_key r else start < object_key r);
          before = (\<lambda>r. if it_prefixLimit it = []
            then (ProjectID r, BucketName r) < (it_projectID it, nextBucket (it_bucketName it))
            else (ProjectID r, BucketName r, ObjectKey r) <
              (it_projectID it, it_bucketName it, it_prefixLimit it))
      in map (select_row (if it_prefixLimit it = [] then 0 else length (it_prefix it)))
           (take (nat (it_batchSize it)) (sort_key object_key (filter
             (\<lambda>r. after r \<and> before r \<and> Some (Status r) = it_status it \<and> unexpired now r) (objects s)))))"

definition doNextQueryStreamsByKey :: "objectsIterator \<Rightarrow> store \<Rightarrow> Object list" where
  "doNextQueryStreamsByKey it s =
     take (nat (it_batchSize it)) (sort_key StreamID (filter
       (\<lambda>r. ProjectID r = it_projectID it \<and> BucketName r = it_bucketName it \<and>
          ObjectKey r = ic_Key (it_cursor it) \<and> StreamID r > ic_StreamID (it_cursor it) \<and>
          Status r = Pending) (objects s)))"

definition doNextQuery :: "time \<Rightarrow> objectsIterator \<Rightarrow> store \<Rightarrow> Object list" where
  "doNextQuery now it s =
     (case it_doNextQuery it of
        AllVersionsWithStatus \<Rightarrow> doNextQueryAllVersionsWithStatus now it s
      | StreamsByKey \<Rightarrow> doNextQueryStreamsByKey it s)"

text \<open>\<open>scanItem\<close> writes into the caller's item: columns that were not selected keep what the
  item held.\<close>

definition scan_system :: "Object \<Rightarrow> ObjectEntry \<Rightarrow> ObjectEntry" where
  "scan_system r item =
     item\<lparr>e_CreatedAt := CreatedAt r, e_ExpiresAt := ExpiresAt r, e_SegmentCount := SegmentCount r,
       e_TotalPlainSize := TotalPlainSize r, e_TotalEncryptedSize := TotalEncryptedSize r,
       e_FixedSegmentSize := FixedSegmentSize r\<rparr>"

definition scan_custom :: "Object \<Rightarrow> ObjectEntry \<Rightarrow> ObjectEntry" where
  "scan_custom r item =
     item\<lparr>e_EncryptedMetadataNonce := EncryptedMetadataNonce r, e_EncryptedMetadata := EncryptedMetadata r,
       e_EncryptedMetadataEncryptedKey := EncryptedMetadataEncryptedKey r\<rparr>"

definition scanItem :: "objectsIterator \<Rightarrow> Object \<Rightarrow> ObjectEntry \<Rightarrow> ObjectEntry" where
  "scanItem it r item =
     (let base = item\<lparr>e_IsPrefix := False, e_Status := it_status it, e_ObjectKey := ObjectKey r,
            e_StreamID := StreamID r, e_Version := Version r, e_Encryption := Encryption r\<rparr>;
          system = (if it_includeSystemMetadata it then scan_system r base else base)
      in if it_includeCustomMetadata it then scan_custom r system else system)"

definition advance ::
  "objectsIterator \<Rightarrow> Object \<Rightarrow> Object list \<Rightarrow> ObjectEntry \<Rightarrow> bool \<times> ObjectEntry \<times> objectsIterator" where
  "advance it r rows item =
     (let item' = scanItem it r item in
      (True, item', it\<lparr>it_curRows := rows, it_curIndex := it_curIndex it + 1,
        it_cursor := (it_cursor it)\<lparr>ic_Key := it_prefix it @ e_ObjectKey item',
          ic_Version := e_Version item', ic_StreamID := e_StreamID item'\<rparr>\<rparr>))"

definition skip_cursor :: "objectsIterator \<Rightarrow> objectsIterator" where
  "skip_cursor it =
     (let afterPrefix = drop (length (it_prefix it)) (ic_Key (it_cursor it)) in
      if it_recursive it then it
      else case index_byte afterPrefix Delimiter of
        None \<Rightarrow> it
      | Some p \<Rightarrow> it\<lparr>it_cursor := (it_cursor it)\<lparr>
          ic_Key := it_prefix it @ prefixLimit (take (p + 1) afterPrefix),
          ic_StreamID := 0, ic_Version := 0\<rparr>\<rparr>)"

definition iterator_next ::
  "time \<Rightarrow> store \<Rightarrow> objectsIterator \<Rightarrow> ObjectEntry \<Rightarrow> bool \<times> ObjectEntry \<times> objectsIterator" where
  "iterator_next now s it item =
     (case it_curRows it of
        r # rows \<Rightarrow> advance it r rows item
      | [] \<Rightarrow>
          if it_curIndex it < it_batchSize it then (False, item, it)
          else let it' = skip_cursor it in
            (case doNextQuery now it' s of
               [] \<Rightarrow> (False, item, it'\<lparr>it_curRows := [], it_curIndex := 0\<rparr>)
             | r # rows \<Rightarrow> advance (it'\<lparr>it_curIndex := 0\<rparr>) r rows item))"

text \<open>Skipping what is under the prefix returned before; \<open>None\<close> is a loop that does not end.\<close>

partial_function (option) skip_past ::
  "time \<Rightarrow> store \<Rightarrow> objectsIterator \<Rightarrow> ObjectEntry \<Rightarrow> (bool \<times> ObjectEntry \<times> objectsIterator) option" where
  "skip_past now s it item =
     (if has_prefix (e_ObjectKey item) (it_skipPrefix it) then
        (case iterator_next now s it item of
           (found, item', it') \<Rightarrow>
             if \<not> found then Some (False, item', it') else skip_past now s it' item')
      else Some (True, item, it))"

declare skip_past.simps [code]

definition as_prefix :: "objectsIterator \<Rightarrow> ObjectEntry \<Rightarrow> bool \<times> ObjectEntry \<times> objectsIterator" where
  "as_prefix it item =
     (case index_byte (e_ObjectKey item) Delimiter of
        None \<Rightarrow> (True, item, it)
      | Some p \<Rightarrow>
          (True, zero_ObjectEntry\<lparr>e_IsPrefix := True, e_ObjectKey := take (p + 1) (e_ObjectKey item),
             e_Status := it_status it\<rparr>,
           it\<lparr>it_skipPrefix := take (p + 1) (e_ObjectKey item)\<rparr>))"

definition iterator_Next ::
  "time \<Rightarrow> store \<Rightarrow> objectsIterator \<Rightarrow> ObjectEntry \<Rightarrow> (bool \<times> ObjectEntry \<times> objectsIterator) option" where
  "iterator_Next now s it item =
     (if it_recursive it then Some (iterator_next now s it item)
      else case (if it_skipPrefix it \<noteq> [] then skip_past now s it item
                 else Some (iterator_next now s it item)) of
        None \<Rightarrow> None
      | Some (False, item', it') \<Rightarrow> Some (False, item', it')
      | Some (True, item', it') \<Rightarrow> Some (as_prefix (it'\<lparr>it_skipPrefix := []\<rparr>) item'))"

subsection \<open>Starting\<close>

definition firstIterateCursor :: "bool \<Rightarrow> IterateCursor \<Rightarrow> string \<Rightarrow> iterateCursor" where
  "firstIterateCursor recursive cursor pre =
     (let same = \<lparr>ic_Key = cursor_Key cursor, ic_Version = cursor_Version cursor, ic_StreamID = 0,
            ic_Inclusive = False\<rparr> in
      if recursive \<or> \<not> has_prefix (cursor_Key cursor) pre then same
      else case index_byte (drop (length pre) (cursor_Key cursor)) Delimiter of
        None \<Rightarrow> same
      | Some p \<Rightarrow> \<lparr>ic_Key = take (length pre + p) (cursor_Key cursor) @ [next_char Delimiter],
          ic_Version = -1, ic_StreamID = 0, ic_Inclusive = True\<rparr>)"

definition iterate :: "time \<Rightarrow> objectsIterator \<Rightarrow> store \<Rightarrow> objectsIterator" where
  "iterate now it s =
     (let it1 = it\<lparr>it_batchSize := ensure_range batchsizeLimit (it_batchSize it)\<rparr> in
      it1\<lparr>it_curRows := doNextQuery now it1 s, it_cursor := (it_cursor it1)\<lparr>ic_Inclusive := False\<rparr>\<rparr>)"

definition iterateAllVersionsWithStatus ::
  "time \<Rightarrow> IterateObjectsWithStatus \<Rightarrow> store \<Rightarrow> objectsIterator" where
  "iterateAllVersionsWithStatus now opts s =
     (let first = firstIterateCursor (io_Recursive opts) (io_Cursor opts) (io_Prefix opts);
          cursor = (if lessKey (ic_Key first) (io_Prefix opts)
            then first\<lparr>ic_Key := io_Prefix opts, ic_Version := -1, ic_Inclusive := True\<rparr> else first)
      in iterate now
        \<lparr>it_projectID = io_ProjectID opts, it_bucketName = io_BucketName opts, it_status = io_Status opts,
         it_prefix = io_Prefix opts, it_prefixLimit = prefixLimit (io_Prefix opts),
         it_batchSize = io_BatchSize opts, it_recursive = io_Recursive opts,
         it_includeCustomMetadata = io_IncludeCustomMetadata opts,
         it_includeSystemMetadata = io_IncludeSystemMetadata opts,
         it_curIndex = 0, it_curRows = [], it_cursor = cursor, it_skipPrefix = [],
         it_doNextQuery = AllVersionsWithStatus\<rparr> s)"

definition iteratePendingObjectsByKey ::
  "time \<Rightarrow> IteratePendingObjectsByKeyOpts \<Rightarrow> store \<Rightarrow> objectsIterator" where
  "iteratePendingObjectsByKey now opts s =
     iterate now
       \<lparr>it_projectID = ProjectID (ip_Location opts), it_bucketName = BucketName (ip_Location opts),
        it_status = Some Pending, it_prefix = [], it_prefixLimit = [],
        it_batchSize = ip_BatchSize opts, it_recursive = True,
        it_includeCustomMetadata = True, it_includeSystemMetadata = True,
        it_curIndex = 0, it_curRows = [],
        it_cursor = \<lparr>ic_Key = ObjectKey (ip_Location opts), ic_Version = 0,
          ic_StreamID = ip_Cursor_StreamID opts, ic_Inclusive = False\<rparr>,
        it_skipPrefix = [], it_doNextQuery = StreamsByKey\<rparr> s"

text \<open>The two entry points return the iterator the callback gets.\<close>

definition IterateObjectsAllVersionsWithStatus ::
  "time \<Rightarrow> IterateObjectsWithStatus \<Rightarrow> store \<Rightarrow> objectsIterator meta_res" where
  "IterateObjectsAllVersionsWithStatus now opts s =
     res_bind (IterateObjectsWithStatus_Verify opts) (\<lambda>_. Inr (iterateAllVersionsWithStatus now opts s))"

definition IteratePendingObjectsByKey ::
  "time \<Rightarrow> IteratePendingObjectsByKeyOpts \<Rightarrow> store \<Rightarrow> objectsIterator meta_res" where
  "IteratePendingObjectsByKey now opts s =
     res_bind (IteratePendingObjectsByKey_Verify opts) (\<lambda>_. Inr (iteratePendingObjectsByKey now opts s))"

text \<open>A callback that calls \<open>Next\<close> with one item until it returns false, each call at its own
  time on its own tables; \<open>None\<close> when a call does not return.\<close>

fun iterate_calls ::
  "(time \<times> store) list \<Rightarrow> objectsIterator \<Rightarrow> ObjectEntry \<Rightarrow> (ObjectEntry list \<times> bool) option" where
  "iterate_calls [] it item = Some ([], False)"
| "iterate_calls ((now, s) # calls) it item =
     (case iterator_Next now s it item of
        None \<Rightarrow> None
      | Some (False, item', it') \<Rightarrow> Some ([], True)
      | Some (True, item', it') \<Rightarrow>
          map_option (\<lambda>(items, finished). (item' # items, finished)) (iterate_calls calls it' item'))"

end
