(* ===== verification/MetaListing.thy ===== *)
theory MetaListing
  imports MetaList
begin

text \<open>
  What listing a bucket returns: the iterator in recursive mode hands out the rows of a bucket
  under a prefix in the order of their keys and versions, also while the tables change; in
  non-recursive mode it hands out what is left after everything under a delimiter is collapsed
  into one prefix. Both are independent of the batch size.
\<close>

subsection \<open>The order of keys\<close>

lemma append_less_cancel [simp]: "(a @ x < a @ y) = (x < (y :: 'a :: linorder list))"
  by (induction a) auto

lemma append_le_cancel [simp]: "(a @ x \<le> a @ y) = (x \<le> (y :: 'a :: linorder list))"
  by (induction a) auto

lemma le_append [simp]: "a \<le> a @ (x :: 'a :: linorder list)"
  by (induction a) auto

lemma list_between:
  fixes a :: "'a :: linorder list"
  shows "a @ x \<le> k \<Longrightarrow> k < a @ y \<Longrightarrow> \<exists>t. k = a @ t \<and> x \<le> t \<and> t < y"
proof (induction a arbitrary: k)
  case Nil
  then show ?case by simp
next
  case (Cons c a)
  then obtain d k' where "k = d # k'" by (cases k) auto
  with Cons show ?case by auto
qed

lemma less_next_char:
  assumes "c \<noteq> CHR 0xFF"
  shows "d < next_char c \<longleftrightarrow> d \<le> c"
proof -
  have "(of_char c :: nat) < 256" by simp
  moreover have "(of_char c :: nat) \<noteq> 255"
  proof
    assume "(of_char c :: nat) = 255"
    then have "char_of (of_char c :: nat) = (char_of (255 :: nat) :: char)" by simp
    moreover have "(char_of (255 :: nat) :: char) = CHR 0xFF" by code_simp
    ultimately show False using assms by simp
  qed
  ultimately have "(of_char c :: nat) + 1 < 256" by linarith
  then have "(of_char (next_char c) :: nat) = of_char c + 1"
    by (simp add: next_char_def of_char_of)
  then show ?thesis by (simp add: less_char_def less_eq_char_def less_Suc_eq_le)
qed

definition prefix_ok :: "string \<Rightarrow> bool" where
  "prefix_ok pre \<longleftrightarrow> pre = [] \<or> last pre \<noteq> CHR 0xFF"

lemma prefixLimit_eq_Nil [simp]: "prefixLimit p = [] \<longleftrightarrow> p = []"
  by (simp add: prefixLimit_def)

lemma prefix_range:
  assumes "pre \<noteq> []" and "last pre \<noteq> CHR 0xFF"
  shows "has_prefix k pre \<longleftrightarrow> pre \<le> k \<and> k < prefixLimit pre"
proof -
  obtain a c where p: "pre = a @ [c]" using assms(1) by (metis append_butlast_last_id)
  have c: "c \<noteq> CHR 0xFF" using assms(2) p by simp
  have lim: "prefixLimit (a @ [c]) = a @ [next_char c]" using c by (simp add: prefixLimit_def)
  have nc: "c < next_char c" using less_next_char [OF c] by blast
  show ?thesis
  proof
    assume "has_prefix k pre"
    then obtain t where "k = a @ c # t" by (auto simp: has_prefix_iff p)
    then show "pre \<le> k \<and> k < prefixLimit pre" using nc by (simp add: lim p)
  next
    assume k: "pre \<le> k \<and> k < prefixLimit pre"
    then obtain t where t: "k = a @ t" "[c] \<le> t" "t < [next_char c]"
      using list_between [of a "[c]" k "[next_char c]"] by (auto simp: lim p)
    then obtain d u where u: "t = d # u" by (cases t) auto
    with t have "c \<le> d" "d < next_char c" by auto
    then have "d = c" using less_next_char [OF c] by force
    then show "has_prefix k pre" using t(1) u by (simp add: has_prefix_iff p)
  qed
qed

lemma has_prefix_Nil [simp]: "has_prefix k []"
  by (cases k) auto

lemma has_prefix_append [simp]: "has_prefix (p @ k) p"
  by (auto simp: has_prefix_iff)

lemma nextBucket_between: "b \<le> b' \<Longrightarrow> b' < nextBucket b \<Longrightarrow> b' = b"
proof -
  assume "b \<le> b'" "b' < nextBucket b"
  then obtain t where t: "b' = b @ t" "t < [CHR 0x00]"
    using list_between [of b "[]" b' "[CHR 0x00]"] by (auto simp: nextBucket_def)
  have "t = []"
  proof (cases t)
    case (Cons d u)
    then have "d < CHR 0x00" using t(2) by auto
    then show ?thesis by (simp add: less_char_def)
  qed
  then show ?thesis using t(1) by simp
qed

lemma less_nextBucket [simp]: "b < nextBucket b"
  using append_less_cancel [of b "[]" "[CHR 0x00]"] by (simp add: nextBucket_def)

subsection \<open>The rows of a query\<close>

definition listing_key :: "Object \<Rightarrow> string \<times> int" where
  "listing_key r = (ObjectKey r, Version r)"

definition in_listing :: "time \<Rightarrow> uuid \<Rightarrow> string \<Rightarrow> ObjectStatus option \<Rightarrow> string \<Rightarrow> Object \<Rightarrow> bool" where
  "in_listing now p b st pre r \<longleftrightarrow> ProjectID r = p \<and> BucketName r = b \<and> Some (Status r) = st \<and>
     unexpired now r \<and> has_prefix (ObjectKey r) pre"

definition listing_rows ::
  "uuid \<Rightarrow> string \<Rightarrow> ObjectStatus option \<Rightarrow> string \<Rightarrow> time \<times> store \<Rightarrow> Object list" where
  "listing_rows p b st pre = (\<lambda>(now, s). filter (in_listing now p b st pre) (objects s))"

definition beyond_cursor :: "iterateCursor \<Rightarrow> Object \<Rightarrow> bool" where
  "beyond_cursor c r \<longleftrightarrow>
     (if ic_Inclusive c then (ic_Key c, ic_Version c) \<le> listing_key r
      else (ic_Key c, ic_Version c) < listing_key r)"

definition row_cursor :: "Object \<Rightarrow> iterateCursor" where
  "row_cursor r = \<lparr>ic_Key = ObjectKey r, ic_Version = Version r, ic_StreamID = StreamID r,
     ic_Inclusive = False\<rparr>"

interpretation listing: batches "listing_rows p b st pre" listing_key beyond_cursor row_cursor
  for p b st pre
  by unfold_locales (auto simp: beyond_cursor_def row_cursor_def listing_key_def split: if_splits)

lemma insort_key_order_cong:
  "(\<And>y. y \<in> set ys \<Longrightarrow> f x \<le> f y \<longleftrightarrow> g x \<le> g y) \<Longrightarrow> insort_key f x ys = insort_key g x ys"
  by (induction ys) auto

lemma sort_key_order_cong:
  assumes "\<And>x y. x \<in> set xs \<Longrightarrow> y \<in> set xs \<Longrightarrow> f x \<le> f y \<longleftrightarrow> g x \<le> g y"
  shows "sort_key f xs = sort_key g xs"
  using assms
proof (induction xs)
  case (Cons x xs)
  then have "sort_key f xs = sort_key g xs" by simp
  then show ?case using Cons.prems insort_key_order_cong [of "sort_key g xs" f x g] by simp
qed simp

text \<open>The conditions on the tuples of the two queries, said on the columns.\<close>

lemma query_condition:
  assumes "prefix_ok pre" and "pre \<le> k"
  shows "(if incl then (p, b, k, v) \<le> object_key r else (p, b, k, v) < object_key r) \<and>
      (if prefixLimit pre = [] then (ProjectID r, BucketName r) < (p, nextBucket b)
       else (ProjectID r, BucketName r, ObjectKey r) < (p, b, prefixLimit pre)) \<longleftrightarrow>
    ProjectID r = p \<and> BucketName r = b \<and> has_prefix (ObjectKey r) pre \<and>
      (if incl then (k, v) \<le> listing_key r else (k, v) < listing_key r)"
    (is "?after \<and> ?before \<longleftrightarrow> ?P \<and> ?B \<and> ?pre \<and> ?beyond")
proof
  assume l: "?after \<and> ?before"
  then have "p \<le> ProjectID r" "ProjectID r \<le> p" by (auto simp: object_key_def split: if_splits)
  then have P: "ProjectID r = p" by simp
  with l have "b \<le> BucketName r" by (auto simp: object_key_def split: if_splits)
  moreover have "BucketName r < nextBucket b"
    using l P le_less_trans [OF _ less_nextBucket, of _ b] by (auto split: if_splits)
  ultimately have B: "BucketName r = b" by (rule nextBucket_between)
  have K: "?beyond" using l P B by (auto simp: object_key_def listing_key_def split: if_splits)
  then have "pre \<le> ObjectKey r" using assms(2) by (auto simp: listing_key_def split: if_splits)
  then have "?pre"
    using l P B assms(1) prefix_range [of pre] by (cases "pre = []") (auto simp: prefix_ok_def)
  with P B K show "?P \<and> ?B \<and> ?pre \<and> ?beyond" by simp
next
  assume r: "?P \<and> ?B \<and> ?pre \<and> ?beyond"
  then have "?before"
    using assms(1) prefix_range [of pre] by (cases "pre = []") (auto simp: prefix_ok_def)
  then show "?after \<and> ?before" using r by (auto simp: object_key_def listing_key_def)
qed

abbreviation listing_of :: "objectsIterator \<Rightarrow> time \<times> store \<Rightarrow> Object list" where
  "listing_of it \<equiv> listing_rows (it_projectID it) (it_bucketName it) (it_status it) (it_prefix it)"

definition listing_iterator :: "objectsIterator \<Rightarrow> bool" where
  "listing_iterator it \<longleftrightarrow> it_doNextQuery it = AllVersionsWithStatus \<and>
     it_prefixLimit it = prefixLimit (it_prefix it) \<and> prefix_ok (it_prefix it) \<and>
     it_prefix it \<le> ic_Key (it_cursor it) \<and> 0 < it_batchSize it"

lemma doNextQuery_page:
  assumes "listing_iterator it"
  shows "doNextQuery now it s = map (select_row (length (it_prefix it)))
    (page_query (listing_of it) listing_key beyond_cursor (nat (it_batchSize it)) (now, s) (it_cursor it))"
proof -
  let ?c = "it_cursor it" and ?p = "it_projectID it" and ?b = "it_bucketName it" and ?pre = "it_prefix it"
  let ?sel = "\<lambda>r. ((if ic_Inclusive ?c then (?p, ?b, ic_Key ?c, ic_Version ?c) \<le> object_key r
       else (?p, ?b, ic_Key ?c, ic_Version ?c) < object_key r) \<and>
     (if prefixLimit ?pre = [] then (ProjectID r, BucketName r) < (?p, nextBucket ?b)
      else (ProjectID r, BucketName r, ObjectKey r) < (?p, ?b, prefixLimit ?pre))) \<and>
     Some (Status r) = it_status it \<and> unexpired now r"
  have ok: "prefix_ok ?pre" "?pre \<le> ic_Key ?c" using assms by (auto simp: listing_iterator_def)
  have "?sel r \<longleftrightarrow> beyond_cursor ?c r \<and> in_listing now ?p ?b (it_status it) ?pre r" for r
    unfolding query_condition [OF ok] by (auto simp: beyond_cursor_def in_listing_def)
  then have f: "filter ?sel (objects s) = filter (beyond_cursor ?c) (listing_of it (now, s))"
    by (auto simp: listing_rows_def intro: filter_cong)
  have "sort_key object_key (filter ?sel (objects s)) = sort_key listing_key (filter ?sel (objects s))"
    unfolding f by (intro sort_key_order_cong)
      (auto simp: listing_rows_def in_listing_def object_key_def listing_key_def)
  then have "sort_key object_key (filter ?sel (objects s)) =
      sort_key listing_key (filter (beyond_cursor ?c) (listing_of it (now, s)))"
    by (simp only: f)
  moreover have "(if it_prefixLimit it = [] then 0 else length ?pre) = length ?pre"
    using assms by (auto simp: listing_iterator_def)
  moreover have "doNextQuery now it s =
      map (select_row (if it_prefixLimit it = [] then 0 else length ?pre))
        (take (nat (it_batchSize it)) (sort_key object_key (filter ?sel (objects s))))"
  proof -
    have q: "it_doNextQuery it = AllVersionsWithStatus" and l: "it_prefixLimit it = prefixLimit ?pre"
      using assms by (auto simp: listing_iterator_def)
    show ?thesis
      unfolding doNextQuery_def q next_query.case doNextQueryAllVersionsWithStatus_def Let_def l
      by (simp only: conj_assoc)
  qed
  ultimately show ?thesis by (simp only: page_query_def)
qed

subsection \<open>Recursive listing\<close>

definition entry_of :: "objectsIterator \<Rightarrow> ObjectEntry \<Rightarrow> Object \<Rightarrow> ObjectEntry" where
  "entry_of it item r = scanItem it (select_row (length (it_prefix it)) r) item"

lemma scanItem_overwrites: "scanItem it r (scanItem it r' item) = scanItem it r item"
  by (simp add: scanItem_def scan_system_def scan_custom_def Let_def)

lemma scanItem_fields [simp]:
  "e_ObjectKey (scanItem it r item) = ObjectKey r"
  "e_Version (scanItem it r item) = Version r"
  "e_StreamID (scanItem it r item) = StreamID r"
  "e_IsPrefix (scanItem it r item) = False"
  by (simp_all add: scanItem_def scan_system_def scan_custom_def Let_def)

lemma scanItem_same [simp]:
  "scanItem (it\<lparr>it_curRows := a, it_curIndex := b, it_cursor := c\<rparr>) = scanItem it"
  by (intro ext) (simp add: scanItem_def scan_system_def scan_custom_def Let_def)

lemma select_row_fields [simp]:
  "ObjectKey (select_row k r) = drop k (ObjectKey r)"
  "Version (select_row k r) = Version r" "StreamID (select_row k r) = StreamID r"
  by (simp_all add: select_row_def)

lemma has_prefix_drop: "has_prefix k pre \<Longrightarrow> pre @ drop (length pre) k = k"
  by (auto simp: has_prefix_iff)

text \<open>The iterator and the pages of the batched iteration move in step.\<close>

definition in_step :: "objectsIterator \<Rightarrow> (Object, iterateCursor) pages \<Rightarrow> bool" where
  "in_step it p \<longleftrightarrow> listing_iterator it \<and> it_recursive it \<and>
     it_curRows it = map (select_row (length (it_prefix it))) (pg_rows p) \<and>
     it_curIndex it = int (pg_index p) \<and> (pg_index p = 0 \<or> it_cursor it = pg_cursor p) \<and>
     (\<forall>r \<in> set (pg_rows p). has_prefix (ObjectKey r) (it_prefix it)) \<and> \<not> ic_Inclusive (it_cursor it)"

abbreviation pages_query where
  "pages_query it \<equiv> page_query (listing_of it) listing_key beyond_cursor (nat (it_batchSize it))"

lemma pages_query_prefix:
  "r \<in> set (pages_query it calls c) \<Longrightarrow> has_prefix (ObjectKey r) (it_prefix it)"
  by (auto simp: page_query_def listing_rows_def in_listing_def split: prod.splits dest!: in_set_takeD)

lemma advance_in_step:
  assumes "listing_iterator it" and "it_recursive it" and "\<not> ic_Inclusive (it_cursor it)"
    and "it_curIndex it = int i"
    and "\<And>q. q \<in> set (r # rs) \<Longrightarrow> has_prefix (ObjectKey q) (it_prefix it)"
  shows "\<exists>x y z. advance it (select_row (length (it_prefix it)) r)
      (map (select_row (length (it_prefix it))) rs) item =
        (True, entry_of it item r, it\<lparr>it_curRows := x, it_curIndex := y, it_cursor := z\<rparr>) \<and>
    in_step (it\<lparr>it_curRows := x, it_curIndex := y, it_cursor := z\<rparr>)
      \<lparr>pg_rows = rs, pg_index = Suc i, pg_cursor = row_cursor r\<rparr>"
proof -
  have k: "it_prefix it @ drop (length (it_prefix it)) (ObjectKey r) = ObjectKey r"
    using assms(5) by (intro has_prefix_drop) simp
  moreover have "it_prefix it \<le> ObjectKey r" using k le_append by metis
  ultimately show ?thesis
    using assms
    by (intro exI) (auto simp: advance_def entry_of_def Let_def in_step_def listing_iterator_def row_cursor_def)
qed

lemma in_step_next:
  assumes "in_step it p"
    and "page_next (pages_query it) row_cursor (nat (it_batchSize it)) (now, s) p = (res, p')"
  shows "case res of
      None \<Rightarrow> \<exists>it'. iterator_next now s it item = (False, item, it')
    | Some r \<Rightarrow> \<exists>x y z. iterator_next now s it item =
          (True, entry_of it item r, it\<lparr>it_curRows := x, it_curIndex := y, it_cursor := z\<rparr>) \<and>
        in_step (it\<lparr>it_curRows := x, it_curIndex := y, it_cursor := z\<rparr>) p'"
proof -
  have l: "listing_iterator it" "it_recursive it" "\<not> ic_Inclusive (it_cursor it)" "0 < it_batchSize it"
    using assms(1) by (auto simp: in_step_def listing_iterator_def)
  show ?thesis
  proof (cases "pg_rows p")
    case (Cons r rs)
    then have e: "it_curRows it = select_row (length (it_prefix it)) r # map (select_row (length (it_prefix it))) rs"
      "it_curIndex it = int (pg_index p)" "\<And>q. q \<in> set (r # rs) \<Longrightarrow> has_prefix (ObjectKey q) (it_prefix it)"
      using assms(1) by (auto simp: in_step_def)
    have "res = Some r" "p' = \<lparr>pg_rows = rs, pg_index = Suc (pg_index p), pg_cursor = row_cursor r\<rparr>"
      using assms(2) Cons by (auto simp: page_next_def)
    then show ?thesis
      using advance_in_step [OF l(1-3) e(2), of r rs item, OF e(3)] by (auto simp: iterator_next_def e(1))
  next
    case Nil
    then have e: "it_curRows it = []" "it_curIndex it = int (pg_index p)" using assms(1) by (auto simp: in_step_def)
    show ?thesis
    proof (cases "pg_index p < nat (it_batchSize it)")
      case True
      then have "it_curIndex it < it_batchSize it" using e(2) by linarith
      then show ?thesis using assms(2) Nil True e(1) by (auto simp: page_next_def iterator_next_def)
    next
      case False
      then have i: "\<not> it_curIndex it < it_batchSize it" "pg_index p \<noteq> 0" using e(2) l(4) by linarith+
      then have c: "it_cursor it = pg_cursor p" using assms(1) by (auto simp: in_step_def)
      have skip: "skip_cursor it = it" using l(2) by (simp add: skip_cursor_def Let_def)
      have q: "doNextQuery now it s = map (select_row (length (it_prefix it))) (pages_query it (now, s) (pg_cursor p))"
        using doNextQuery_page [OF l(1), of now s] c by simp
      show ?thesis
      proof (cases "pages_query it (now, s) (pg_cursor p)")
        case q': Nil
        then show ?thesis using assms(2) Nil False i(1) e(1) q
          by (auto simp: page_next_def iterator_next_def skip Let_def)
      next
        case q': (Cons r rs)
        have pre: "\<And>q. q \<in> set (r # rs) \<Longrightarrow> has_prefix (ObjectKey q) (it_prefix it)"
          using pages_query_prefix [of _ it "(now, s)" "pg_cursor p"] q' by auto
        have "res = Some r" "p' = \<lparr>pg_rows = rs, pg_index = Suc 0, pg_cursor = row_cursor r\<rparr>"
          using assms(2) Nil False q' by (auto simp: page_next_def)
        moreover have "listing_iterator (it\<lparr>it_curIndex := 0\<rparr>)"
          using l(1) by (simp add: listing_iterator_def)
        then have "\<exists>x y z. advance (it\<lparr>it_curIndex := 0\<rparr>) (select_row (length (it_prefix it)) r)
              (map (select_row (length (it_prefix it))) rs) item =
            (True, entry_of it item r, it\<lparr>it_curRows := x, it_curIndex := y, it_cursor := z\<rparr>) \<and>
            in_step (it\<lparr>it_curRows := x, it_curIndex := y, it_cursor := z\<rparr>)
              \<lparr>pg_rows = rs, pg_index = Suc 0, pg_cursor = row_cursor r\<rparr>"
          using advance_in_step [where it = "it\<lparr>it_curIndex := 0\<rparr>" and i = 0 and r = r and rs = rs and item = item] l pre
          by (auto simp: entry_of_def scanItem_def Let_def)
        ultimately show ?thesis using i(1) e(1) q q' by (auto simp: iterator_next_def skip Let_def)
      qed
    qed
  qed
qed

lemma iterate_calls_in_step:
  assumes "in_step it p"
    and "run_calls (page_next (pages_query it) row_cursor (nat (it_batchSize it))) calls p = (rs, finished)"
  shows "iterate_calls calls it item = Some (map (entry_of it item) rs, finished)"
  using assms
proof (induction calls arbitrary: it p rs item)
  case Nil
  then show ?case by simp
next
  case (Cons call calls)
  obtain now s where call: "call = (now, s)" by fastforce
  obtain res p' where n:
    "page_next (pages_query it) row_cursor (nat (it_batchSize it)) (now, s) p = (res, p')" by fastforce
  have rec: "it_recursive it" using Cons.prems(1) by (simp add: in_step_def)
  note step = in_step_next [OF Cons.prems(1) n, of item]
  show ?case
  proof (cases res)
    case None
    then show ?thesis using step Cons.prems(2) n by (auto simp: call iterator_Next_def rec)
  next
    case (Some r)
    obtain x y z where it': "iterator_next now s it item =
          (True, entry_of it item r, it\<lparr>it_curRows := x, it_curIndex := y, it_cursor := z\<rparr>)"
        "in_step (it\<lparr>it_curRows := x, it_curIndex := y, it_cursor := z\<rparr>) p'"
      using step Some by auto
    obtain rs' where rs': "rs = r # rs'"
      "run_calls (page_next (pages_query it) row_cursor (nat (it_batchSize it))) calls p' = (rs', finished)"
      using Cons.prems(2) n Some by (auto simp: call split: prod.splits)
    have "iterate_calls calls (it\<lparr>it_curRows := x, it_curIndex := y, it_cursor := z\<rparr>) (entry_of it item r) =
        Some (map (entry_of it (entry_of it item r)) rs', finished)"
      using Cons.IH [OF it'(2), of rs' "entry_of it item r"] rs'(2) by (simp add: entry_of_def)
    then show ?thesis
      by (simp add: call iterator_Next_def rec it'(1) rs'(1) entry_of_def scanItem_overwrites)
  qed
qed

text \<open>Where an iteration starts, and the rows after the caller's cursor.\<close>

definition start_cursor :: "IterateObjectsWithStatus \<Rightarrow> iterateCursor" where
  "start_cursor opts =
     (let first = firstIterateCursor (io_Recursive opts) (io_Cursor opts) (io_Prefix opts) in
      if lessKey (ic_Key first) (io_Prefix opts)
      then first\<lparr>ic_Key := io_Prefix opts, ic_Version := -1, ic_Inclusive := True\<rparr> else first)"

abbreviation listed :: "IterateObjectsWithStatus \<Rightarrow> time \<times> store \<Rightarrow> Object list" where
  "listed opts \<equiv> listing_rows (io_ProjectID opts) (io_BucketName opts) (io_Status opts) (io_Prefix opts)"

definition after_cursor :: "IterateObjectsWithStatus \<Rightarrow> Object \<Rightarrow> bool" where
  "after_cursor opts r \<longleftrightarrow>
     (cursor_Key (io_Cursor opts), cursor_Version (io_Cursor opts)) < (ObjectKey r, Version r)"

definition versions_positive :: "store \<Rightarrow> bool" where
  "versions_positive s \<longleftrightarrow> (\<forall>r \<in> set (objects s). 0 < Version r)"

lemma start_cursor_beyond:
  assumes "io_Recursive opts" and "has_prefix (ObjectKey r) (io_Prefix opts)" and "0 < Version r"
  shows "beyond_cursor (start_cursor opts) r \<longleftrightarrow> after_cursor opts r"
proof -
  have "io_Prefix opts \<le> ObjectKey r" using assms(2) by (auto simp: has_prefix_iff)
  then show ?thesis
    using assms(1,3)
    by (auto simp: start_cursor_def firstIterateCursor_def Let_def lessKey_def beyond_cursor_def
        listing_key_def after_cursor_def)
qed

lemma iterate_fields:
  assumes "IterateObjectsAllVersionsWithStatus now opts s = Inr it"
  shows "it_projectID it = io_ProjectID opts" "it_bucketName it = io_BucketName opts"
    "it_status it = io_Status opts" "it_prefix it = io_Prefix opts"
    "it_prefixLimit it = prefixLimit (io_Prefix opts)" "it_recursive it = io_Recursive opts"
    "it_skipPrefix it = []" "it_curIndex it = 0" "it_doNextQuery it = AllVersionsWithStatus"
    "0 < it_batchSize it" "ic_Key (it_cursor it) = ic_Key (start_cursor opts)"
    "\<not> ic_Inclusive (it_cursor it)" "io_Prefix opts \<le> ic_Key (start_cursor opts)"
  using assms
  by (auto simp: IterateObjectsAllVersionsWithStatus_def res_bind_Inr_iff iterateAllVersionsWithStatus_def
      iterate_def Let_def start_cursor_def lessKey_def ensure_range_def batchsizeLimit_def ListLimit_def)

lemma iterate_rows:
  assumes "IterateObjectsAllVersionsWithStatus now opts s = Inr it" and "prefix_ok (io_Prefix opts)"
  shows "it_curRows it = map (select_row (length (io_Prefix opts)))
      (page_query (listed opts) listing_key beyond_cursor (nat (it_batchSize it)) (now, s) (start_cursor opts))"
    and "listing_iterator it"
proof -
  note f = iterate_fields [OF assms(1)]
  define it0 where "it0 = it\<lparr>it_curRows := [], it_cursor := start_cursor opts\<rparr>"
  have "listing_iterator it0" using f assms(2) by (simp add: listing_iterator_def it0_def)
  note q = doNextQuery_page [OF this, of now s]
  have "it_curRows it = doNextQuery now it0 s"
    using assms(1)
    by (auto simp: IterateObjectsAllVersionsWithStatus_def res_bind_Inr_iff iterateAllVersionsWithStatus_def
        iterate_def Let_def start_cursor_def it0_def intro!: arg_cong [of _ _ "\<lambda>i. doNextQuery now i s"])
  then show "it_curRows it = map (select_row (length (io_Prefix opts)))
      (page_query (listed opts) listing_key beyond_cursor (nat (it_batchSize it)) (now, s) (start_cursor opts))"
    using q f by (simp add: it0_def)
  show "listing_iterator it" using f assms(2) by (simp add: listing_iterator_def)
qed

lemma iterate_in_step:
  assumes "IterateObjectsAllVersionsWithStatus now opts s = Inr it" and "prefix_ok (io_Prefix opts)"
    and "io_Recursive opts"
  shows "in_step it (page_start (page_query (listed opts) listing_key beyond_cursor (nat (it_batchSize it)))
    (now, s) (start_cursor opts))"
  using iterate_fields [OF assms(1)] iterate_rows [OF assms(1,2)] assms(3)
    pages_query_prefix [of _ it "(now, s)" "start_cursor opts"]
  by (auto simp: in_step_def page_start_def)

lemma listed_unique:
  "unique_key object_key (objects s) \<Longrightarrow> distinct (map listing_key (listed opts (now, s)))"
  unfolding unique_key_def listing_rows_def
  by (auto simp: distinct_map inj_on_def object_key_def listing_key_def in_listing_def)

lemma listed_length: "length (listed opts (now, s)) \<le> length (objects s)"
  by (simp add: listing_rows_def)

lemma listing_key_eta: "listing_key = (\<lambda>r. (ObjectKey r, Version r))"
  by (intro ext) (simp add: listing_key_def)

lemma recursive_listing:
  assumes "IterateObjectsAllVersionsWithStatus now opts s = Inr it" and "io_Recursive opts"
    and "prefix_ok (io_Prefix opts)" and "unique_key object_key (objects s)" and "versions_positive s"
    and "length (objects s) < k"
  shows "iterate_calls (replicate k (now, s)) it item = Some (map (entry_of it item)
    (sort_key (\<lambda>r. (ObjectKey r, Version r)) (filter (after_cursor opts) (listed opts (now, s)))), True)"
proof -
  let ?n = "nat (it_batchSize it)"
  have f: "filter (beyond_cursor (start_cursor opts)) (listed opts (now, s)) =
      filter (after_cursor opts) (listed opts (now, s))"
    using start_cursor_beyond [OF assms(2)] assms(5)
    by (auto simp: listing_rows_def in_listing_def versions_positive_def intro!: filter_cong)
  have l: "length (filter (beyond_cursor (start_cursor opts)) (listed opts (now, s))) < k"
    using listed_length [of opts now s] assms(6) length_filter_le le_less_trans by (metis order.trans)
  have n: "0 < ?n" using iterate_fields(10) [OF assms(1)] by simp
  note run = listing.run_static [OF listed_unique [OF assms(4)] n l]
  have "listing_of it = listed opts" using iterate_fields [OF assms(1)] by simp
  then show ?thesis
    using iterate_calls_in_step [OF iterate_in_step [OF assms(1,3,2)], of "replicate k (now, s)"] run
    by (simp add: f flip: listing_key_eta)
qed

text \<open>
  Property C17. Listing a bucket recursively, with tables that change between the calls: the
  entries come in strictly ascending order of key and version, so nothing is listed twice;
  every entry is a matching row after the cursor that was in the tables at the time of some
  call; and when the iteration has ended, every row that matched all the time was listed.
\<close>

theorem recursive_listing_stable:
  assumes "IterateObjectsAllVersionsWithStatus now opts s = Inr it" and "io_Recursive opts"
    and "prefix_ok (io_Prefix opts)"
    and "\<forall>(t, s') \<in> insert (now, s) (set calls). unique_key object_key (objects s') \<and> versions_positive s'"
    and "iterate_calls calls it item = Some (items, finished)"
  shows "sorted_wrt (\<lambda>a b. (e_ObjectKey a, e_Version a) < (e_ObjectKey b, e_Version b)) items \<and>
    (\<forall>e \<in> set items. \<exists>(t, s') \<in> insert (now, s) (set calls). \<exists>r \<in> set (listed opts (t, s')).
       after_cursor opts r \<and> e = entry_of it item r) \<and>
    (finished \<longrightarrow> (\<forall>r. (\<forall>call \<in> insert (now, s) (set calls). r \<in> set (listed opts call)) \<longrightarrow>
       after_cursor opts r \<longrightarrow> entry_of it item r \<in> set items))"
proof -
  let ?n = "nat (it_batchSize it)" and ?S = "insert (now, s) (set calls)"
  have lo: "listing_of it = listed opts" using iterate_fields [OF assms(1)] by simp
  obtain rs fin where run: "run_calls (page_next (pages_query it) row_cursor ?n) calls
      (page_start (pages_query it) (now, s) (start_cursor opts)) = (rs, fin)" by fastforce
  have r: "items = map (entry_of it item) rs" "finished = fin"
    using iterate_calls_in_step [OF iterate_in_step [OF assms(1,3,2)], of calls rs fin item] run lo assms(5)
    by auto
  have g: "listing.good (io_ProjectID opts) (io_BucketName opts) (io_Status opts) (io_Prefix opts) ?S"
    using assms(4) listed_unique [of _ opts] unfolding listing.good_def by auto
  have n: "0 < ?n" using iterate_fields(10) [OF assms(1)] by simp
  have run': "run_calls (page_next (page_query (listed opts) listing_key beyond_cursor ?n) row_cursor ?n) calls
      (page_start (page_query (listed opts) listing_key beyond_cursor ?n) (now, s) (start_cursor opts)) = (rs, fin)"
    using run lo by simp
  have "(now, s) \<in> ?S" "set calls \<subseteq> ?S" by auto
  note sound = listing.run_sound [OF g n this run']
  have pos: "0 < Version q \<and> has_prefix (ObjectKey q) (io_Prefix opts)"
    if "q \<in> set (listed opts c)" "c \<in> ?S" for q c
    using that assms(4) by (auto simp: listing_rows_def in_listing_def versions_positive_def split: prod.splits)
  have b: "beyond_cursor (start_cursor opts) q \<longleftrightarrow> after_cursor opts q"
    if "q \<in> set (listed opts c)" "c \<in> ?S" for q c
    using start_cursor_beyond [OF assms(2)] pos [OF that] by blast
  have pre: "has_prefix (ObjectKey q) (io_Prefix opts)" if "q \<in> set rs" for q
    using sound(2) [OF that] pos by blast
  have keys: "(e_ObjectKey (entry_of it item x), e_Version (entry_of it item x)) <
      (e_ObjectKey (entry_of it item y), e_Version (entry_of it item y))"
    if xy: "x \<in> set rs" "y \<in> set rs" "listing_key x < listing_key y" for x y
  proof -
    obtain a b where "ObjectKey x = io_Prefix opts @ a" "ObjectKey y = io_Prefix opts @ b"
      using pre [OF xy(1)] pre [OF xy(2)] by (auto simp: has_prefix_iff)
    then show ?thesis
      using xy(3) by (auto simp: entry_of_def listing_key_def iterate_fields(4) [OF assms(1)])
  qed
  have "sorted_wrt (\<lambda>a b. (e_ObjectKey a, e_Version a) < (e_ObjectKey b, e_Version b)) items"
    unfolding r sorted_wrt_map
    by (rule sorted_wrt_mono_rel [OF keys sound(1)]) auto
  moreover have "\<exists>(t, s') \<in> ?S. \<exists>r \<in> set (listed opts (t, s')). after_cursor opts r \<and> e = entry_of it item r"
    if "e \<in> set items" for e
    using that sound(2) b unfolding r by fastforce
  moreover have "entry_of it item q \<in> set items"
    if "finished" "\<forall>call \<in> ?S. q \<in> set (listed opts call)" "after_cursor opts q" for q
  proof -
    have "listing.stable (io_ProjectID opts) (io_BucketName opts) (io_Status opts) (io_Prefix opts) ?S q"
      using that(2) unfolding listing.stable_def by auto
    then have "q \<in> set rs" using sound(3) b that r by blast
    then show ?thesis by (simp add: r)
  qed
  ultimately show ?thesis by blast
qed

subsection \<open>Non-recursive listing\<close>

text \<open>The part of a key up to its first delimiter, and what a row is listed as.\<close>

definition first_segment :: "string \<Rightarrow> string option" where
  "first_segment key = map_option (\<lambda>p. take (p + 1) key) (index_byte key Delimiter)"

definition prefix_entry :: "ObjectStatus option \<Rightarrow> string \<Rightarrow> ObjectEntry" where
  "prefix_entry st p = zero_ObjectEntry\<lparr>e_IsPrefix := True, e_ObjectKey := p, e_Status := st\<rparr>"

definition relative_key :: "objectsIterator \<Rightarrow> Object \<Rightarrow> string" where
  "relative_key it r = drop (length (it_prefix it)) (ObjectKey r)"

definition collapsed :: "objectsIterator \<Rightarrow> Object \<Rightarrow> ObjectEntry" where
  "collapsed it r =
     (case first_segment (relative_key it r) of
        None \<Rightarrow> entry_of it zero_ObjectEntry r
      | Some p \<Rightarrow> prefix_entry (it_status it) p)"

lemma first_segment_Some:
  "first_segment key = Some p \<longleftrightarrow> (\<exists>a b. p = a @ [Delimiter] \<and> Delimiter \<notin> set a \<and> key = p @ b)"
proof
  assume "first_segment key = Some p"
  then obtain i where i: "index_byte key Delimiter = Some i" "p = take (i + 1) key"
    by (auto simp: first_segment_def)
  note d = index_byte_Some [OF i(1)]
  then have "p = take i key @ [Delimiter]" using i(2) by (simp add: take_Suc_conv_app_nth)
  moreover have "key = p @ drop (i + 1) key" using i(2) by simp
  ultimately show "\<exists>a b. p = a @ [Delimiter] \<and> Delimiter \<notin> set a \<and> key = p @ b"
    using d by blast
next
  assume "\<exists>a b. p = a @ [Delimiter] \<and> Delimiter \<notin> set a \<and> key = p @ b"
  then show "first_segment key = Some p"
    using index_byte_append [of Delimiter] by (auto simp: first_segment_def)
qed

lemma first_segment_prefix:
  assumes "first_segment key = Some p"
  shows "first_segment key' = Some p \<longleftrightarrow> has_prefix key' p"
  using assms by (auto simp: first_segment_Some has_prefix_iff)

lemma first_segment_last:
  "first_segment key = Some p \<Longrightarrow> p \<noteq> [] \<and> last p \<noteq> CHR 0xFF \<and> has_prefix key p"
  by (auto simp: first_segment_Some Delimiter_def has_prefix_iff)

lemma zero_scan [simp]:
  "scanItem it r (prefix_entry st p) = scanItem it r zero_ObjectEntry"
  by (simp add: scanItem_def scan_system_def scan_custom_def Let_def prefix_entry_def)

text \<open>The iterator owes the rows \<open>R\<close>, a tail of the sorted rows \<open>A\<close> of the listing.\<close>

definition owes_rows :: "Object list \<Rightarrow> objectsIterator \<Rightarrow> Object list \<Rightarrow> bool" where
  "owes_rows A it R \<longleftrightarrow> listing_iterator it \<and> \<not> it_recursive it \<and> \<not> ic_Inclusive (it_cursor it) \<and>
     0 \<le> it_curIndex it \<and> it_curIndex it \<le> it_batchSize it \<and>
     it_curRows it = map (select_row (length (it_prefix it)))
       (take (nat (it_batchSize it) - nat (it_curIndex it)) R) \<and>
     (\<exists>c. R = filter (beyond_cursor c) A) \<and>
     (0 < it_curIndex it \<longrightarrow> R = filter (beyond_cursor (it_cursor it)) A)"

text \<open>\<open>A\<close> is what the tables hold for the listing.\<close>

definition all_rows :: "objectsIterator \<Rightarrow> time \<times> store \<Rightarrow> Object list \<Rightarrow> bool" where
  "all_rows it call A \<longleftrightarrow> A = sort_key listing_key (listing_of it call) \<and>
     distinct (map listing_key (listing_of it call)) \<and> (\<forall>r \<in> set A. 0 < Version r)"

lemma all_rows_sorted: "all_rows it call A \<Longrightarrow> sorted_wrt (\<lambda>x y. listing_key x < listing_key y) A"
  by (simp add: all_rows_def sort_key_strict)

lemma all_rows_prefix: "all_rows it call A \<Longrightarrow> r \<in> set A \<Longrightarrow> has_prefix (ObjectKey r) (it_prefix it)"
  by (auto simp: all_rows_def listing_rows_def in_listing_def split: prod.splits)

lemma all_rows_query:
  assumes "listing_iterator it" and "all_rows it (now, s) A"
  shows "doNextQuery now it s = map (select_row (length (it_prefix it)))
    (take (nat (it_batchSize it)) (filter (beyond_cursor (it_cursor it)) A))"
  using assms by (simp add: doNextQuery_page page_query_def all_rows_def filter_sort)

lemma filter_beyond_tail:
  assumes "sorted_wrt (\<lambda>x y. listing_key x < listing_key y) A" and "filter (beyond_cursor c) A = r # R"
  shows "R = filter (beyond_cursor (row_cursor r)) A"
proof -
  have s: "sorted_wrt (\<lambda>x y. listing_key x < listing_key y) (r # R)"
    using sorted_wrt_filter [OF assms(1), of "beyond_cursor c"] assms(2) by simp
  show ?thesis
  proof (rule sorted_key_unique [of listing_key])
    show "sorted_wrt (\<lambda>x y. listing_key x < listing_key y) R" using s by simp
    show "sorted_wrt (\<lambda>x y. listing_key x < listing_key y) (filter (beyond_cursor (row_cursor r)) A)"
      using assms(1) by (rule sorted_wrt_filter)
    have r: "set (filter (beyond_cursor c) A) = insert r (set R)" using assms(2) by simp
    have "q \<in> set R \<longleftrightarrow> q \<in> set A \<and> listing_key r < listing_key q" for q
    proof
      assume "q \<in> set R"
      then show "q \<in> set A \<and> listing_key r < listing_key q" using s r by auto
    next
      assume q: "q \<in> set A \<and> listing_key r < listing_key q"
      have "beyond_cursor c r" using r by auto
      then have "beyond_cursor c q" using q listing.beyond_mono by blast
      then have "q \<in> insert r (set R)" using q r by auto
      then show "q \<in> set R" using q by auto
    qed
    then show "set R = set (filter (beyond_cursor (row_cursor r)) A)"
      using listing.beyond_cur [of r] by auto
  qed
qed

text \<open>The query after a batch skips what is under the prefix of the last key.\<close>

definition skip_under :: "objectsIterator \<Rightarrow> string \<Rightarrow> Object list \<Rightarrow> Object list" where
  "skip_under it key R =
     (case first_segment key of
        None \<Rightarrow> R
      | Some p \<Rightarrow> dropWhile (\<lambda>r. first_segment (relative_key it r) = Some p) R)"

lemma sorted_dropWhile_filter:
  assumes "sorted_wrt lt R" and "\<And>x y. x \<in> set R \<Longrightarrow> y \<in> set R \<Longrightarrow> lt x y \<Longrightarrow> \<not> P x \<Longrightarrow> \<not> P y"
  shows "dropWhile P R = filter (\<lambda>r. \<not> P r) R"
  using assms
proof (induction R)
  case (Cons r R)
  show ?case
  proof (cases "P r")
    case True
    have "dropWhile P R = filter (\<lambda>r. \<not> P r) R"
    proof (rule Cons.IH)
      show "sorted_wrt lt R" using Cons.prems(1) by simp
      show "\<not> P y" if "x \<in> set R" "y \<in> set R" "lt x y" "\<not> P x" for x y
        using Cons.prems(2) [of x y] that by simp
    qed
    with True show ?thesis by simp
  next
    case False
    then have "\<not> P q" if "q \<in> set R" for q
      using Cons.prems(1) Cons.prems(2) [of r q] that by simp
    then show ?thesis using False by simp
  qed
qed simp

lemma skip_cursor_rows:
  assumes "all_rows it call A" and "\<not> it_recursive it" and "\<not> ic_Inclusive (it_cursor it)"
    and "ic_Key (it_cursor it) = it_prefix it @ key"
  shows "filter (beyond_cursor (it_cursor (skip_cursor it))) A =
    skip_under it key (filter (beyond_cursor (it_cursor it)) A)"
proof (cases "first_segment key")
  case None
  then have "skip_cursor it = it"
    using assms(2,4) by (auto simp: skip_cursor_def first_segment_def Let_def split: option.splits)
  then show ?thesis using None by (simp add: skip_under_def)
next
  case (Some p)
  let ?R = "filter (beyond_cursor (it_cursor it)) A" and ?P = "\<lambda>r. first_segment (relative_key it r) = Some p"
  note p = first_segment_last [OF Some]
  obtain i where i: "index_byte key Delimiter = Some i" "p = take (i + 1) key"
    using Some by (auto simp: first_segment_def)
  let ?c = "it_cursor (skip_cursor it)"
  have c: "ic_Key ?c = it_prefix it @ prefixLimit p" "ic_Version ?c = 0" "\<not> ic_Inclusive ?c"
    using assms(2-4) i by (simp_all add: skip_cursor_def Let_def)
  have kp: "p \<le> key" "key < prefixLimit p" using p prefix_range [of p key] by auto
  have rk: "ObjectKey r = it_prefix it @ relative_key it r" if "r \<in> set A" for r
    using all_rows_prefix [OF assms(1) that] has_prefix_drop by (metis relative_key_def)
  have P: "?P r \<longleftrightarrow> p \<le> relative_key it r \<and> relative_key it r < prefixLimit p" for r
    using first_segment_prefix [OF Some] prefix_range [of p] p by blast
  have b: "beyond_cursor ?c r \<longleftrightarrow> prefixLimit p \<le> relative_key it r" if "r \<in> set A" for r
  proof -
    have "0 < Version r" using assms(1) that by (simp add: all_rows_def)
    then show ?thesis using rk [OF that] c by (auto simp: beyond_cursor_def listing_key_def)
  qed
  have R: "p \<le> relative_key it r" if "r \<in> set ?R" for r
  proof -
    have "r \<in> set A" "beyond_cursor (it_cursor it) r" using that by auto
    then have "key \<le> relative_key it r"
      using rk assms(3,4) by (auto simp: beyond_cursor_def listing_key_def)
    then show ?thesis using kp by simp
  qed
  have "dropWhile ?P ?R = filter (\<lambda>r. \<not> ?P r) ?R"
  proof (rule sorted_dropWhile_filter)
    show "sorted_wrt (\<lambda>x y. listing_key x < listing_key y) ?R"
      using all_rows_sorted [OF assms(1)] by (rule sorted_wrt_filter)
    show "\<not> ?P y" if xy: "x \<in> set ?R" "y \<in> set ?R" "listing_key x < listing_key y" "\<not> ?P x" for x y
    proof -
      have A: "x \<in> set A" "y \<in> set A" using xy by auto
      have "prefixLimit p \<le> relative_key it x" using P [of x] R [OF xy(1)] xy(4) by auto
      also have "\<dots> \<le> relative_key it y"
        using xy(3) rk [OF A(1)] rk [OF A(2)] by (auto simp: listing_key_def)
      finally show ?thesis using P [of y] by auto
    qed
  qed
  also have "\<dots> = filter (beyond_cursor ?c) A"
  proof -
    have "\<not> ?P r \<and> beyond_cursor (it_cursor it) r \<longleftrightarrow> beyond_cursor ?c r" if r: "r \<in> set A" for r
    proof
      assume l: "\<not> ?P r \<and> beyond_cursor (it_cursor it) r"
      then have "p \<le> relative_key it r" using R [of r] r by simp
      then show "beyond_cursor ?c r" using l P [of r] b [OF r] by auto
    next
      assume "beyond_cursor ?c r"
      then have l: "prefixLimit p \<le> relative_key it r" using b [OF r] by simp
      then have "key < relative_key it r" using kp by simp
      then have "beyond_cursor (it_cursor it) r"
        using rk [OF r] assms(3,4) by (auto simp: beyond_cursor_def listing_key_def)
      then show "\<not> ?P r \<and> beyond_cursor (it_cursor it) r" using P [of r] l by auto
    qed
    then show ?thesis by (auto simp: filter_filter intro!: filter_cong)
  qed
  finally show ?thesis using Some by (simp add: skip_under_def)
qed

text \<open>One call of \<open>next\<close>: it may skip what is under the prefix of the last key, and returns the
  first of the rows left.\<close>

lemma advance_owes:
  assumes "listing_iterator it" and "\<not> it_recursive it" and "\<not> ic_Inclusive (it_cursor it)"
    and "0 \<le> it_curIndex it" and "it_curIndex it < it_batchSize it"
    and "all_rows it call A" and "filter (beyond_cursor c) A = r # R"
    and "rows = map (select_row (length (it_prefix it)))
      (take (nat (it_batchSize it) - nat (it_curIndex it + 1)) R)"
  shows "\<exists>x y z. advance it (select_row (length (it_prefix it)) r) rows item =
      (True, entry_of it item r, it\<lparr>it_curRows := x, it_curIndex := y, it_cursor := z\<rparr>) \<and>
    owes_rows A (it\<lparr>it_curRows := x, it_curIndex := y, it_cursor := z\<rparr>) R \<and> 0 < y \<and>
    ic_Key z = it_prefix it @ relative_key it r"
proof -
  have "r \<in> set (filter (beyond_cursor c) A)" using assms(7) by simp
  then have "r \<in> set A" by simp
  then have k: "it_prefix it @ drop (length (it_prefix it)) (ObjectKey r) = ObjectKey r"
    using all_rows_prefix [OF assms(6)] has_prefix_drop by blast
  moreover have "it_prefix it \<le> ObjectKey r" using k le_append by metis
  moreover have "R = filter (beyond_cursor (row_cursor r)) A"
    using filter_beyond_tail [OF all_rows_sorted [OF assms(6)] assms(7)] .
  moreover have "(it_cursor it)\<lparr>ic_Key := ObjectKey r, ic_Version := Version r, ic_StreamID := StreamID r\<rparr> =
      row_cursor r"
    using assms(3) by (cases "it_cursor it") (simp add: row_cursor_def)
  ultimately show ?thesis
    using assms(1-5,8)
    by (intro exI [of _ rows] exI [of _ "it_curIndex it + 1"] exI [of _ "row_cursor r"])
      (auto simp: advance_def entry_of_def Let_def owes_rows_def listing_iterator_def relative_key_def
        row_cursor_def)
qed

lemma listing_iterator_skip:
  assumes "listing_iterator it" and "ic_Key (it_cursor it) = it_prefix it @ key"
  shows "listing_iterator (skip_cursor it)"
  using assms by (auto simp: skip_cursor_def listing_iterator_def Let_def split: option.splits)

lemma skip_cursor_fields [simp]:
  "it_projectID (skip_cursor it) = it_projectID it" "it_bucketName (skip_cursor it) = it_bucketName it"
  "it_status (skip_cursor it) = it_status it" "it_prefix (skip_cursor it) = it_prefix it"
  "it_batchSize (skip_cursor it) = it_batchSize it" "it_recursive (skip_cursor it) = it_recursive it"
  "it_skipPrefix (skip_cursor it) = it_skipPrefix it" "it_curIndex (skip_cursor it) = it_curIndex it"
  "ic_Inclusive (it_cursor (skip_cursor it)) = ic_Inclusive (it_cursor it)"
  by (simp_all add: skip_cursor_def Let_def split: option.splits)

lemma skip_cursor_eq: "\<exists>z. skip_cursor it = it\<lparr>it_cursor := z\<rparr>"
  by (auto simp: skip_cursor_def Let_def split: option.splits intro: exI [of _ "it_cursor it"])

lemma next_owes:
  assumes "owes_rows A it R" and "all_rows it (now, s) A"
    and "ic_Key (it_cursor it) = it_prefix it @ key"
  shows "\<exists>R2. (R2 = R \<or> 0 < it_curIndex it \<and> R2 = skip_under it key R) \<and>
    (case R2 of
       [] \<Rightarrow> \<exists>it'. iterator_next now s it item = (False, item, it')
     | r # R' \<Rightarrow> \<exists>x y z. iterator_next now s it item =
          (True, entry_of it item r, it\<lparr>it_curRows := x, it_curIndex := y, it_cursor := z\<rparr>) \<and>
        owes_rows A (it\<lparr>it_curRows := x, it_curIndex := y, it_cursor := z\<rparr>) R' \<and> 0 < y \<and>
        ic_Key z = it_prefix it @ relative_key it r)"
proof -
  note o = assms(1) [unfolded owes_rows_def]
  have l: "listing_iterator it" "\<not> it_recursive it" "\<not> ic_Inclusive (it_cursor it)" "0 \<le> it_curIndex it"
    and n: "0 < it_batchSize it"
    and rows: "it_curRows it = map (select_row (length (it_prefix it)))
      (take (nat (it_batchSize it) - nat (it_curIndex it)) R)"
    using o by (auto simp: listing_iterator_def)
  obtain c where c: "R = filter (beyond_cursor c) A" using o by blast
  show ?thesis
  proof (cases "it_curIndex it < it_batchSize it")
    case True
    show ?thesis
    proof (cases R)
      case Nil
      then show ?thesis using rows True by (intro exI [of _ R]) (simp add: iterator_next_def)
    next
      case (Cons r R')
      have t: "take (nat (it_batchSize it) - nat (it_curIndex it)) R =
          r # take (nat (it_batchSize it) - nat (it_curIndex it + 1)) R'"
      proof -
        have "nat (it_batchSize it) - nat (it_curIndex it) =
            Suc (nat (it_batchSize it) - nat (it_curIndex it + 1))" using True l(4) by linarith
        then show ?thesis using Cons by simp
      qed
      show ?thesis
        using advance_owes [OF l(1-4) True assms(2) c [symmetric, unfolded Cons] refl, of item] rows Cons t
        by (intro exI [of _ R]) (simp add: iterator_next_def)
    qed
  next
    case False
    then have i: "it_curIndex it = it_batchSize it" "0 < it_curIndex it" using o n by auto
    then have R: "R = filter (beyond_cursor (it_cursor it)) A" using o by blast
    let ?it = "skip_cursor it"
    have e: "it_curRows it = []" using rows i(1) by simp
    have rows2: "filter (beyond_cursor (it_cursor ?it)) A = skip_under it key R"
      using skip_cursor_rows [OF assms(2) l(2,3) assms(3)] R by simp
    have all2: "all_rows ?it (now, s) A" using assms(2) by (simp add: all_rows_def)
    have li: "listing_iterator ?it" using listing_iterator_skip [OF l(1) assms(3)] .
    have q: "doNextQuery now ?it s = map (select_row (length (it_prefix it)))
        (take (nat (it_batchSize it)) (skip_under it key R))"
      using all_rows_query [OF li all2] rows2 by simp
    obtain z0 where z0: "?it = it\<lparr>it_cursor := z0\<rparr>" using skip_cursor_eq by blast
    show ?thesis
    proof (cases "skip_under it key R")
      case Nil
      then show ?thesis
        using i e q by (intro exI [of _ "skip_under it key R"]) (simp add: iterator_next_def Let_def)
    next
      case (Cons r R')
      let ?it0 = "?it\<lparr>it_curIndex := 0\<rparr>"
      have t: "take (nat (it_batchSize it)) (skip_under it key R) = r # take (nat (it_batchSize it) - 1) R'"
        using n Cons by (cases "nat (it_batchSize it)") auto
      have "listing_iterator ?it0" "all_rows ?it0 (now, s) A"
        using li all2 by (simp_all add: listing_iterator_def all_rows_def)
      then have "\<exists>x y z. advance ?it0 (select_row (length (it_prefix it)) r)
            (map (select_row (length (it_prefix it))) (take (nat (it_batchSize it) - 1) R')) item =
          (True, entry_of ?it0 item r, ?it0\<lparr>it_curRows := x, it_curIndex := y, it_cursor := z\<rparr>) \<and>
        owes_rows A (?it0\<lparr>it_curRows := x, it_curIndex := y, it_cursor := z\<rparr>) R' \<and> 0 < y \<and>
        ic_Key z = it_prefix it @ relative_key ?it0 r"
        using advance_owes [of ?it0 "(now, s)" A "it_cursor ?it" r R'
            "map (select_row (length (it_prefix it))) (take (nat (it_batchSize it) - 1) R')" item]
          l n rows2 Cons by simp
      then show ?thesis
        using i e q t Cons
        by (intro exI [of _ "skip_under it key R"])
          (auto simp: iterator_next_def Let_def z0 entry_of_def relative_key_def scanItem_def)
    qed
  qed
qed

lemma entry_of_key [simp]: "e_ObjectKey (entry_of it item r) = relative_key it r"
  by (simp add: entry_of_def relative_key_def)

lemma entry_of_again [simp]: "entry_of it (entry_of it item q) r = entry_of it item r"
  by (simp add: entry_of_def scanItem_def scan_system_def scan_custom_def Let_def)

lemma moved_same [simp]:
  "entry_of (it\<lparr>it_curRows := x, it_curIndex := y, it_cursor := z\<rparr>) = entry_of it"
  "relative_key (it\<lparr>it_curRows := x, it_curIndex := y, it_cursor := z\<rparr>) = relative_key it"
  "all_rows (it\<lparr>it_curRows := x, it_curIndex := y, it_cursor := z\<rparr>) call A = all_rows it call A"
  by (simp_all add: entry_of_def relative_key_def all_rows_def fun_eq_iff)

text \<open>The loop that skips the rows under the prefix returned last.\<close>

lemma skip_past_owes:
  assumes "owes_rows A it R" and "all_rows it (now, s) A"
    and "ic_Key (it_cursor it) = it_prefix it @ key" and "first_segment key = Some p"
    and "it_skipPrefix it = p" and "has_prefix (e_ObjectKey item) p"
  shows "case dropWhile (\<lambda>r. first_segment (relative_key it r) = Some p) R of
      [] \<Rightarrow> \<exists>item' it'. skip_past now s it item = Some (False, item', it')
    | r # R' \<Rightarrow> \<exists>x y z. skip_past now s it item =
          Some (True, entry_of it item r, it\<lparr>it_curRows := x, it_curIndex := y, it_cursor := z\<rparr>) \<and>
        owes_rows A (it\<lparr>it_curRows := x, it_curIndex := y, it_cursor := z\<rparr>) R' \<and> 0 < y \<and>
        ic_Key z = it_prefix it @ relative_key it r"
  using assms
proof (induction "length R" arbitrary: it R key item rule: less_induct)
  case less
  let ?P = "\<lambda>r. first_segment (relative_key it r) = Some p"
  have P: "?P r \<longleftrightarrow> has_prefix (relative_key it r) p" for r
    using first_segment_prefix [OF less.prems(4)] .
  obtain R2 where R2: "R2 = R \<or> R2 = dropWhile ?P R"
    and next2: "case R2 of
       [] \<Rightarrow> \<exists>it'. iterator_next now s it item = (False, item, it')
     | r # R' \<Rightarrow> \<exists>x y z. iterator_next now s it item =
          (True, entry_of it item r, it\<lparr>it_curRows := x, it_curIndex := y, it_cursor := z\<rparr>) \<and>
        owes_rows A (it\<lparr>it_curRows := x, it_curIndex := y, it_cursor := z\<rparr>) R' \<and> 0 < y \<and>
        ic_Key z = it_prefix it @ relative_key it r"
    using next_owes [OF less.prems(1-3), of item] less.prems(4) by (auto simp: skip_under_def)
  have D: "dropWhile ?P R2 = dropWhile ?P R" using R2 by auto
  show ?case
  proof (cases R2)
    case Nil
    then have "dropWhile ?P R = []" using D by simp
    then show ?thesis
      using next2 Nil less.prems(5,6)
      by (auto simp: skip_past.simps [of now s it item] simp del: dropWhile_eq_Nil_conv)
  next
    case (Cons r R')
    then obtain x y z where it': "iterator_next now s it item =
          (True, entry_of it item r, it\<lparr>it_curRows := x, it_curIndex := y, it_cursor := z\<rparr>)"
        "owes_rows A (it\<lparr>it_curRows := x, it_curIndex := y, it_cursor := z\<rparr>) R'" "0 < y"
        "ic_Key z = it_prefix it @ relative_key it r"
      using next2 by auto
    let ?it = "it\<lparr>it_curRows := x, it_curIndex := y, it_cursor := z\<rparr>"
    have u: "skip_past now s it item = skip_past now s ?it (entry_of it item r)"
      using less.prems(5,6) it'(1) by (simp add: skip_past.simps [of now s it item])
    show ?thesis
    proof (cases "?P r")
      case False
      then have "skip_past now s ?it (entry_of it item r) = Some (True, entry_of it item r, ?it)"
        using P less.prems(5) by (simp add: skip_past.simps [of now s ?it])
      moreover have "dropWhile ?P R = r # R'" using D Cons False by simp
      ultimately show ?thesis using u it' by auto
    next
      case True
      have "length R2 \<le> length R" using R2 length_dropWhile_le [of ?P R] by auto
      then have len: "length R' < length R" using Cons by simp
      have "dropWhile ?P R = dropWhile ?P R'" using D Cons True by simp
      moreover have "first_segment (relative_key it r) = Some p" "has_prefix (relative_key it r) p"
        using True P by auto
      note ih = less.hyps [OF len it'(2), of "relative_key it r" "entry_of it item r"]
      ultimately show ?thesis
        using ih u less.prems(2,5) it'(4) True
        by (cases "dropWhile ?P R'") (auto simp: P simp del: dropWhile_eq_Nil_conv)
    qed
  qed
qed

text \<open>Between two calls of \<open>Next\<close>: the key of the last row and the rows still owed.\<close>

definition ready :: "Object list \<Rightarrow> objectsIterator \<Rightarrow> ObjectEntry \<Rightarrow> string \<Rightarrow> Object list \<Rightarrow> bool" where
  "ready A it item key R \<longleftrightarrow> owes_rows A it R \<and> ic_Key (it_cursor it) = it_prefix it @ key \<and>
     it_skipPrefix it = (if 0 < it_curIndex it then case_option [] id (first_segment key) else []) \<and>
     (it_skipPrefix it \<noteq> [] \<longrightarrow> e_ObjectKey item = it_skipPrefix it) \<and>
     (\<forall>r. entry_of it item r = entry_of it zero_ObjectEntry r)"

definition due :: "objectsIterator \<Rightarrow> string \<Rightarrow> Object list \<Rightarrow> Object list" where
  "due it key R = (if 0 < it_curIndex it then skip_under it key R else R)"

lemma as_prefix_collapsed:
  assumes "owes_rows A it R'" and "0 < it_curIndex it"
    and "ic_Key (it_cursor it) = it_prefix it @ relative_key it r"
    and "\<forall>q. entry_of it item q = entry_of it zero_ObjectEntry q"
  shows "\<exists>p. as_prefix (it\<lparr>it_skipPrefix := []\<rparr>) (entry_of it item r) =
      (True, collapsed it r, it\<lparr>it_skipPrefix := p\<rparr>) \<and>
    ready A (it\<lparr>it_skipPrefix := p\<rparr>) (collapsed it r) (relative_key it r) R'"
proof -
  have same: "entry_of (it\<lparr>it_skipPrefix := p\<rparr>) = entry_of it"
    "relative_key (it\<lparr>it_skipPrefix := p\<rparr>) = relative_key it" for p
    by (simp_all add: entry_of_def scanItem_def relative_key_def fun_eq_iff)
  have o: "owes_rows A (it\<lparr>it_skipPrefix := p\<rparr>) R'" for p
    using assms(1) by (simp add: owes_rows_def listing_iterator_def)
  show ?thesis
  proof (cases "index_byte (relative_key it r) Delimiter")
    case None
    then show ?thesis
      using assms(2-4) o
      by (intro exI [of _ "[]"])
        (auto simp: as_prefix_def collapsed_def first_segment_def ready_def same)
  next
    case (Some i)
    then have fs: "first_segment (relative_key it r) = Some (take (i + 1) (relative_key it r))"
      by (simp add: first_segment_def)
    have "entry_of it (prefix_entry st p) q = entry_of it zero_ObjectEntry q" for st p q
      by (simp add: entry_of_def)
    then show ?thesis
      using assms(2-4) o Some fs
      by (intro exI [of _ "take (i + 1) (relative_key it r)"])
        (auto simp: as_prefix_def collapsed_def ready_def same prefix_entry_def)
  qed
qed

lemma Next_ready:
  assumes "ready A it item key R" and "all_rows it (now, s) A"
  shows "case due it key R of
      [] \<Rightarrow> \<exists>item' it'. iterator_Next now s it item = Some (False, item', it')
    | r # R' \<Rightarrow> \<exists>x y z p. iterator_Next now s it item = Some (True, collapsed it r,
          it\<lparr>it_curRows := x, it_curIndex := y, it_cursor := z, it_skipPrefix := p\<rparr>) \<and> 0 < y \<and>
        ready A (it\<lparr>it_curRows := x, it_curIndex := y, it_cursor := z, it_skipPrefix := p\<rparr>)
          (collapsed it r) (relative_key it r) R'"
proof -
  note r = assms(1) [unfolded ready_def]
  have rec: "\<not> it_recursive it" and o: "owes_rows A it R" and k: "ic_Key (it_cursor it) = it_prefix it @ key"
    using r by (auto simp: owes_rows_def)
  define base where "base = (if it_skipPrefix it \<noteq> [] then skip_past now s it item
    else Some (iterator_next now s it item))"
  have base: "case due it key R of
      [] \<Rightarrow> \<exists>item' it'. base = Some (False, item', it')
    | r # R' \<Rightarrow> \<exists>x y z. base =
          Some (True, entry_of it item r, it\<lparr>it_curRows := x, it_curIndex := y, it_cursor := z\<rparr>) \<and>
        owes_rows A (it\<lparr>it_curRows := x, it_curIndex := y, it_cursor := z\<rparr>) R' \<and> 0 < y \<and>
        ic_Key z = it_prefix it @ relative_key it r"
  proof (cases "0 < it_curIndex it \<and> first_segment key \<noteq> None")
    case True
    then obtain p where p: "first_segment key = Some p" by auto
    then have sp: "it_skipPrefix it = p" "p \<noteq> []" using r True first_segment_last by auto
    have hp: "has_prefix (e_ObjectKey item) p" using r sp by (cases p) (auto simp: has_prefix_iff)
    have "base = skip_past now s it item"
      "due it key R = dropWhile (\<lambda>r. first_segment (relative_key it r) = Some p) R"
      using True p sp by (simp_all add: due_def skip_under_def base_def)
    then show ?thesis using skip_past_owes [OF o assms(2) k p sp(1) hp] by (simp only:)
  next
    case False
    then have b: "it_skipPrefix it = []" "due it key R = R"
      and same: "0 < it_curIndex it \<Longrightarrow> skip_under it key R = R"
      using r by (auto simp: due_def skip_under_def)
    have "base = Some (iterator_next now s it item)" using b(1) by (simp add: base_def)
    then show ?thesis
      using next_owes [OF o assms(2) k, of item] same unfolding b(2) by (cases R) auto
  qed
  have N: "iterator_Next now s it item = (case base of
        None \<Rightarrow> None
      | Some (False, item', it') \<Rightarrow> Some (False, item', it')
      | Some (True, item', it') \<Rightarrow> Some (as_prefix (it'\<lparr>it_skipPrefix := []\<rparr>) item'))"
    using rec by (simp add: iterator_Next_def base_def)
  show ?thesis
  proof (cases "due it key R")
    case Nil
    then show ?thesis using base N by auto
  next
    case (Cons q R')
    then obtain x y z where b: "base =
          Some (True, entry_of it item q, it\<lparr>it_curRows := x, it_curIndex := y, it_cursor := z\<rparr>)"
        "owes_rows A (it\<lparr>it_curRows := x, it_curIndex := y, it_cursor := z\<rparr>) R'" "0 < y"
        "ic_Key z = it_prefix it @ relative_key it q"
      using base by auto
    have "collapsed (it\<lparr>it_curRows := x, it_curIndex := y, it_cursor := z\<rparr>) q = collapsed it q"
      by (simp add: collapsed_def split: option.split)
    then show ?thesis
      using as_prefix_collapsed [OF b(2), of q item] b(3,4) r Cons N b(1) by fastforce
  qed
qed

lemma collapsed_eq:
  assumes "all_rows it call A" and "filter (beyond_cursor c) A = r # R" and "q \<in> set R"
  shows "collapsed it q = collapsed it r \<longleftrightarrow>
    (\<exists>p. first_segment (relative_key it r) = Some p \<and> first_segment (relative_key it q) = Some p)"
proof -
  have A: "r \<in> set A" "q \<in> set A" using assms(2,3) by (metis filter_is_subset list.set_intros subsetD)+
  have "sorted_wrt (\<lambda>x y. listing_key x < listing_key y) (r # R)"
    using sorted_wrt_filter [OF all_rows_sorted [OF assms(1)], of "beyond_cursor c"] assms(2) by simp
  then have "listing_key r < listing_key q" using assms(3) by simp
  moreover have "ObjectKey r = it_prefix it @ relative_key it r" "ObjectKey q = it_prefix it @ relative_key it q"
    using A all_rows_prefix [OF assms(1)] has_prefix_drop unfolding relative_key_def by metis+
  ultimately have ne: "\<not> (relative_key it r = relative_key it q \<and> Version r = Version q)"
    by (auto simp: listing_key_def)
  have f: "e_IsPrefix (entry_of it i x) = False" "e_Version (entry_of it i x) = Version x" for i x
    by (simp_all add: entry_of_def)
  have g: "e_IsPrefix (prefix_entry st p)" "e_ObjectKey (prefix_entry st p) = p" for st p
    by (simp_all add: prefix_entry_def)
  show ?thesis
    using ne f g unfolding collapsed_def by (auto split: option.splits) (metis entry_of_key f g)+
qed

lemma due_collapsed:
  assumes "ready A it item (relative_key it r) R" and "0 < it_curIndex it"
    and "all_rows it call A" and "filter (beyond_cursor c) A = r # R"
  shows "due it (relative_key it r) R = dropWhile (\<lambda>q. collapsed it q = collapsed it r) R"
proof -
  have "dropWhile (\<lambda>q. collapsed it q = collapsed it r) R =
      dropWhile (\<lambda>q. \<exists>p. first_segment (relative_key it r) = Some p \<and> first_segment (relative_key it q) = Some p) R"
    using collapsed_eq [OF assms(3,4)] by (intro dropWhile_cong) auto
  also have "\<dots> = skip_under it (relative_key it r) R"
    by (cases "first_segment (relative_key it r)") (simp_all add: skip_under_def)
  finally show ?thesis using assms(2) by (simp add: due_def)
qed

lemma filter_beyond_dropWhile:
  assumes "sorted_wrt (\<lambda>x y. listing_key x < listing_key y) A"
    and "dropWhile P (filter (beyond_cursor c) A) = r # R"
  shows "\<exists>c'. filter (beyond_cursor c') A = r # R"
  using assms(2)
proof (induction "filter (beyond_cursor c) A" arbitrary: c)
  case Nil
  then show ?case by simp
next
  case (Cons q Q)
  show ?case
  proof (cases "P q")
    case True
    have t: "Q = filter (beyond_cursor (row_cursor q)) A"
      using filter_beyond_tail [OF assms(1) Cons.hyps(2) [symmetric]] .
    then show ?thesis
      using Cons.hyps(1) [of "row_cursor q"] Cons.prems Cons.hyps(2) [symmetric] True by simp
  next
    case False
    then have "filter (beyond_cursor c) A = r # R" using Cons.prems Cons.hyps(2) [symmetric] by simp
    then show ?thesis by blast
  qed
qed

lemma iterate_calls_ready:
  assumes "ready A it item key R" and "all_rows it (now, s) A" and "length (due it key R) < k"
  shows "iterate_calls (replicate k (now, s)) it item =
    Some (remdups_adj (map (collapsed it) (due it key R)), True)"
  using assms
proof (induction k arbitrary: it item key R)
  case 0
  then show ?case by simp
next
  case (Suc k)
  note next_call = Next_ready [OF Suc.prems(1,2)]
  show ?case
  proof (cases "due it key R")
    case Nil
    then show ?thesis using next_call by auto
  next
    case (Cons r R')
    then obtain x y z p where n: "iterator_Next now s it item = Some (True, collapsed it r,
          it\<lparr>it_curRows := x, it_curIndex := y, it_cursor := z, it_skipPrefix := p\<rparr>)" "0 < y"
        "ready A (it\<lparr>it_curRows := x, it_curIndex := y, it_cursor := z, it_skipPrefix := p\<rparr>)
          (collapsed it r) (relative_key it r) R'"
      using next_call by auto
    let ?it = "it\<lparr>it_curRows := x, it_curIndex := y, it_cursor := z, it_skipPrefix := p\<rparr>"
    have same: "relative_key ?it = relative_key it" "collapsed ?it = collapsed it"
      by (simp_all add: relative_key_def collapsed_def entry_of_def scanItem_def scan_system_def
          scan_custom_def Let_def fun_eq_iff split: option.split)
    have all': "all_rows ?it (now, s) A" using Suc.prems(2) by (simp add: all_rows_def)
    obtain c where "R = filter (beyond_cursor c) A"
      using Suc.prems(1) by (auto simp: ready_def owes_rows_def)
    then have "\<exists>c'. filter (beyond_cursor c') A = r # R'"
      using Cons filter_beyond_dropWhile [OF all_rows_sorted [OF Suc.prems(2)], of _ c r R']
      by (auto simp: due_def skip_under_def split: if_splits option.splits)
    then obtain c' where c': "filter (beyond_cursor c') A = r # R'" by blast
    have d: "due ?it (relative_key it r) R' = dropWhile (\<lambda>q. collapsed it q = collapsed it r) R'"
      using due_collapsed [of A ?it "collapsed it r" r R' "(now, s)" c'] n(2,3) all' c' same by simp
    have "length (due ?it (relative_key it r) R') \<le> length R'" using d length_dropWhile_le by metis
    then have len: "length (due ?it (relative_key it r) R') < k" using Suc.prems(3) Cons by simp
    have "iterate_calls (replicate k (now, s)) ?it (collapsed it r) =
        Some (remdups_adj (map (collapsed it) (dropWhile (\<lambda>q. collapsed it q = collapsed it r) R')), True)"
      using Suc.IH [OF n(3) all' len] d same by simp
    moreover have "remdups_adj (map (collapsed it) (r # R')) = collapsed it r #
        remdups_adj (map (collapsed it) (dropWhile (\<lambda>q. collapsed it q = collapsed it r) R'))"
      by (simp add: remdups_adj_Cons' dropWhile_map o_def)
    ultimately show ?thesis using n(1) Cons by simp
  qed
qed

text \<open>In non-recursive mode a cursor under a delimiter leaves out everything under it.\<close>

definition past_cursor :: "IterateObjectsWithStatus \<Rightarrow> Object \<Rightarrow> bool" where
  "past_cursor opts r \<longleftrightarrow> after_cursor opts r \<and>
     (\<forall>p. has_prefix (cursor_Key (io_Cursor opts)) (io_Prefix opts) \<longrightarrow>
        first_segment (drop (length (io_Prefix opts)) (cursor_Key (io_Cursor opts))) = Some p \<longrightarrow>
        \<not> has_prefix (ObjectKey r) (io_Prefix opts @ p))"

lemma start_cursor_past:
  assumes "\<not> io_Recursive opts" and "has_prefix (ObjectKey r) (io_Prefix opts)" and "0 < Version r"
  shows "beyond_cursor (start_cursor opts) r \<longleftrightarrow> past_cursor opts r"
proof -
  let ?pre = "io_Prefix opts" and ?c = "cursor_Key (io_Cursor opts)"
  have K: "?pre \<le> ObjectKey r" using assms(2) by (auto simp: has_prefix_iff)
  show ?thesis
  proof (cases "\<exists>p. has_prefix ?c ?pre \<and> first_segment (drop (length ?pre) ?c) = Some p")
    case False
    then have n: "\<not> has_prefix ?c ?pre \<or> index_byte (drop (length ?pre) ?c) Delimiter = None"
      by (auto simp: first_segment_def)
    have "firstIterateCursor False (io_Cursor opts) ?pre =
        \<lparr>ic_Key = ?c, ic_Version = cursor_Version (io_Cursor opts), ic_StreamID = 0, ic_Inclusive = False\<rparr>"
      using n by (auto simp: firstIterateCursor_def Let_def)
    moreover have "past_cursor opts r = after_cursor opts r" using False by (auto simp: past_cursor_def)
    ultimately show ?thesis
      using assms(1,3) K
      by (auto simp: start_cursor_def Let_def lessKey_def beyond_cursor_def listing_key_def after_cursor_def)
  next
    case True
    then obtain p where p: "has_prefix ?c ?pre" "first_segment (drop (length ?pre) ?c) = Some p" by blast
    obtain a b where ab: "p = a @ [Delimiter]" "Delimiter \<notin> set a" "drop (length ?pre) ?c = p @ b"
      using p(2) by (auto simp: first_segment_Some)
    have c: "?c = ?pre @ a @ Delimiter # b" using has_prefix_drop [OF p(1)] ab(1,3) by simp
    let ?q = "?pre @ p"
    have q: "?q \<noteq> []" "last ?q \<noteq> CHR 0xFF" using ab(1) by (auto simp: Delimiter_def)
    have lim: "prefixLimit ?q = ?pre @ a @ [next_char Delimiter]"
      by (simp add: prefixLimit_def ab(1) butlast_append) (simp add: Delimiter_def)
    have f: "firstIterateCursor False (io_Cursor opts) ?pre =
        \<lparr>ic_Key = prefixLimit ?q, ic_Version = -1, ic_StreamID = 0, ic_Inclusive = True\<rparr>"
      using p(1) index_byte_append [OF ab(2)] unfolding lim
      by (simp add: firstIterateCursor_def Let_def c)
    have "start_cursor opts = \<lparr>ic_Key = prefixLimit ?q, ic_Version = -1, ic_StreamID = 0, ic_Inclusive = True\<rparr>"
      using assms(1) le_append [of ?pre "a @ [next_char Delimiter]"]
      by (simp add: start_cursor_def f Let_def lessKey_def lim not_less)
    then have "beyond_cursor (start_cursor opts) r \<longleftrightarrow> prefixLimit ?q \<le> ObjectKey r"
      using assms(3) by (auto simp: beyond_cursor_def listing_key_def)
    moreover have "past_cursor opts r \<longleftrightarrow> prefixLimit ?q \<le> ObjectKey r"
    proof -
      have r: "has_prefix x ?q \<longleftrightarrow> ?q \<le> x \<and> x < prefixLimit ?q" for x using prefix_range [OF q] .
      have "has_prefix ?c ?q" by (simp add: c ab(1) has_prefix_iff)
      then have cq: "?q \<le> ?c" "?c < prefixLimit ?q" using r by auto
      have "past_cursor opts r \<longleftrightarrow> after_cursor opts r \<and> \<not> has_prefix (ObjectKey r) ?q"
        using p by (simp add: past_cursor_def)
      then show ?thesis using cq r [of "ObjectKey r"] by (auto simp: after_cursor_def)
    qed
    ultimately show ?thesis by simp
  qed
qed

text \<open>
  Property C19. Listing a bucket without recursion, for tables that do not change and whatever the
  batch size: the rows after the cursor, in the order of key and version, each listed as an
  object when no delimiter follows the prefix in its key and otherwise as the part of its key
  up to the delimiter, and every such part listed once.
\<close>

theorem nonrecursive_listing:
  assumes "IterateObjectsAllVersionsWithStatus now opts s = Inr it" and "\<not> io_Recursive opts"
    and "prefix_ok (io_Prefix opts)" and "unique_key object_key (objects s)" and "versions_positive s"
    and "length (objects s) < k"
  shows "iterate_calls (replicate k (now, s)) it zero_ObjectEntry = Some (remdups_adj (map (collapsed it)
    (sort_key (\<lambda>r. (ObjectKey r, Version r)) (filter (past_cursor opts) (listed opts (now, s))))), True)"
proof -
  let ?A = "sort_key listing_key (listed opts (now, s))"
  let ?R = "filter (beyond_cursor (start_cursor opts)) ?A"
  note f = iterate_fields [OF assms(1)] and rows = iterate_rows [OF assms(1,3)]
  have lo: "listing_of it = listed opts" using f by simp
  have pos: "0 < Version r" if "r \<in> set (listed opts (now, s))" for r
    using that assms(5) by (auto simp: listing_rows_def versions_positive_def)
  have all: "all_rows it (now, s) ?A"
    using listed_unique [OF assms(4)] lo pos by (simp add: all_rows_def)
  have R: "?R = sort_key (\<lambda>r. (ObjectKey r, Version r)) (filter (past_cursor opts) (listed opts (now, s)))"
  proof -
    have "filter (beyond_cursor (start_cursor opts)) (listed opts (now, s)) =
        filter (past_cursor opts) (listed opts (now, s))"
      using start_cursor_past [OF assms(2)] pos
      by (auto simp: listing_rows_def in_listing_def intro!: filter_cong)
    then show ?thesis by (simp add: filter_sort flip: listing_key_eta)
  qed
  have cr: "it_curRows it = map (select_row (length (it_prefix it))) (take (nat (it_batchSize it)) ?R)"
    using rows(1) f by (simp add: page_query_def filter_sort)
  have owes: "owes_rows ?A it ?R"
    using rows(2) f cr assms(2) by (auto simp: owes_rows_def)
  have "length ?R \<le> length ?A" by (rule length_filter_le)
  then have len: "length ?R < k" using listed_length [of opts now s] assms(6) by simp
  show ?thesis
  proof (cases "has_prefix (ic_Key (start_cursor opts)) (io_Prefix opts)")
    case True
    then obtain key where "ic_Key (it_cursor it) = it_prefix it @ key" using f by (auto simp: has_prefix_iff)
    then have "ready ?A it zero_ObjectEntry key ?R" using owes f by (simp add: ready_def)
    moreover have "due it key ?R = ?R" using f by (simp add: due_def)
    ultimately show ?thesis using iterate_calls_ready [OF _ all, of zero_ObjectEntry key ?R k] len R by simp
  next
    case False
    have "?R = []"
    proof (rule ccontr)
      assume "?R \<noteq> []"
      then obtain r where r: "r \<in> set (listed opts (now, s))" "beyond_cursor (start_cursor opts) r"
        by (metis (mono_tags, lifting) filter_empty_conv set_sort)
      have pre: "io_Prefix opts \<noteq> []" using False by auto
      then have l: "last (io_Prefix opts) \<noteq> CHR 0xFF" using assms(3) by (simp add: prefix_ok_def)
      have "ObjectKey r < prefixLimit (io_Prefix opts)"
        using r(1) prefix_range [OF pre l] by (auto simp: listing_rows_def in_listing_def)
      moreover have "ic_Key (start_cursor opts) \<le> ObjectKey r"
        using r(2) by (auto simp: beyond_cursor_def listing_key_def split: if_splits)
      ultimately have "ic_Key (start_cursor opts) < prefixLimit (io_Prefix opts)" by simp
      then show False using False f prefix_range [OF pre l] by blast
    qed
    then have "it_curRows it = []" using cr by simp
    then have "iterator_next now s it zero_ObjectEntry = (False, zero_ObjectEntry, it)"
      using f by (simp add: iterator_next_def)
    then have "iterator_Next now s it zero_ObjectEntry = Some (False, zero_ObjectEntry, it)"
      using f assms(2) by (simp add: iterator_Next_def)
    then show ?thesis using len \<open>?R = []\<close> R by (cases k) auto
  qed
qed

end
