(* ===== verification/MetaListObjects.thy ===== *)
theory MetaListObjects
  imports MetaListing
begin

text \<open>
  Listing a page of objects with one query (\<open>satellite/metabase/list_objects.go\<close>), and its
  agreement with the iterator.
\<close>

subsection \<open>The query\<close>

record ListObjectsOpts =
  lo_ProjectID :: uuid
  lo_BucketName :: string
  lo_Recursive :: bool
  lo_Limit :: int
  lo_Prefix :: string
  lo_Cursor :: IterateCursor
  lo_Status :: "ObjectStatus option"
  lo_IncludeCustomMetadata :: bool
  lo_IncludeSystemMetadata :: bool

record ListObjectsResult =
  lr_Objects :: "ObjectEntry list"
  lr_More :: bool

definition ListObjects_Verify :: "ListObjectsOpts \<Rightarrow> unit meta_res" where
  "ListObjects_Verify opts =
     (if lo_ProjectID opts = 0 then Inl (ErrInvalidRequest ''ProjectID missing'')
      else if lo_BucketName opts = [] then Inl (ErrInvalidRequest ''BucketName missing'')
      else if lo_Limit opts < 0 then Inl (ErrInvalidRequest ''Invalid limit'')
      else if lo_Status opts = None then Inl (ErrInvalidRequest ''Status is invalid'')
      else Inr ())"

definition startKey :: "ListObjectsOpts \<Rightarrow> string" where
  "startKey opts =
     (let pre = lo_Prefix opts; key = cursor_Key (lo_Cursor opts) in
      if pre = [] \<and> key = [] then []
      else if lo_Recursive opts \<or> \<not> has_prefix key pre then
        (if lessKey key pre then pre else key)
      else case index_byte (drop (length pre) key) Delimiter of
        None \<Rightarrow> key
      | Some firstDelimiter \<Rightarrow> take (length pre + firstDelimiter + 1) key @ [CHR 0xFF])"

definition stopKey :: "ListObjectsOpts \<Rightarrow> string" where
  "stopKey opts =
     (if lo_Prefix opts \<noteq> [] then prefixLimit (lo_Prefix opts) else nextBucket (lo_BucketName opts))"

definition stopCondition :: "ListObjectsOpts \<Rightarrow> Object \<Rightarrow> bool" where
  "stopCondition opts r \<longleftrightarrow>
     (if lo_Prefix opts \<noteq> []
      then (ProjectID r, BucketName r, ObjectKey r) < (lo_ProjectID opts, lo_BucketName opts, stopKey opts)
      else (ProjectID r, BucketName r) < (lo_ProjectID opts, stopKey opts))"

text \<open>The first two columns: the key of the entry, and whether it is a prefix.\<close>

definition entry_key :: "ListObjectsOpts \<Rightarrow> Object \<Rightarrow> string \<times> bool" where
  "entry_key opts r =
     (let key = drop (length (lo_Prefix opts)) (ObjectKey r) in
      if lo_Recursive opts then (key, False)
      else case index_byte key Delimiter of
        None \<Rightarrow> (key, False)
      | Some p \<Rightarrow> (take (p + 1) key, True))"

text \<open>\<open>SELECT DISTINCT ON (f)\<close> over sorted rows. SQL does not say which row of a group it keeps;
  the model takes the first in the order of the table.\<close>

fun distinct_on :: "('r \<Rightarrow> 'k) \<Rightarrow> 'r list \<Rightarrow> 'r list" where
  "distinct_on f [] = []"
| "distinct_on f (r # rs) = r # distinct_on f (filter (\<lambda>q. f q \<noteq> f r) rs)"

definition list_query :: "time \<Rightarrow> ListObjectsOpts \<Rightarrow> store \<Rightarrow> Object list" where
  "list_query now opts s =
     (let rows = filter (\<lambda>r.
            (lo_ProjectID opts, lo_BucketName opts, startKey opts, cursor_Version (lo_Cursor opts)) < object_key r \<and>
            stopCondition opts r \<and> Some (Status r) = lo_Status opts \<and> unexpired now r) (objects s)
      in if lo_Recursive opts then sort_key (\<lambda>r. (ObjectKey r, Version r)) rows
         else distinct_on (fst \<circ> entry_key opts) (sort_key (fst \<circ> entry_key opts) rows))"

definition list_system :: "Object \<Rightarrow> ObjectEntry \<Rightarrow> ObjectEntry" where
  "list_system r item = scan_system r (item\<lparr>e_Status := Some (Status r)\<rparr>)"

definition scan_entry :: "ListObjectsOpts \<Rightarrow> Object \<Rightarrow> ObjectEntry" where
  "scan_entry opts r =
     (case entry_key opts r of
        (key, isPrefix) \<Rightarrow>
          if isPrefix then prefix_entry (lo_Status opts) key
          else let base = zero_ObjectEntry\<lparr>e_ObjectKey := key, e_IsPrefix := False,
                 e_StreamID := StreamID r, e_Version := Version r, e_Encryption := Encryption r\<rparr>;
               system = (if lo_IncludeSystemMetadata opts then list_system r base else base)
            in if lo_IncludeCustomMetadata opts then scan_custom r system else system)"

definition ListObjects :: "time \<Rightarrow> ListObjectsOpts \<Rightarrow> store \<Rightarrow> ListObjectsResult meta_res" where
  "ListObjects now opts s =
     res_bind (ListObjects_Verify opts) (\<lambda>_.
       let limit = ensure_range ListLimit (lo_Limit opts);
           entries = map (scan_entry opts) (take (nat (limit + 1)) (list_query now opts s))
       in if int (length entries) > limit
          then Inr \<lparr>lr_Objects = take (nat limit) entries, lr_More = True\<rparr>
          else Inr \<lparr>lr_Objects = entries, lr_More = False\<rparr>)"

subsection \<open>Agreement with the iterator\<close>

definition iterate_opts :: "int \<Rightarrow> ListObjectsOpts \<Rightarrow> IterateObjectsWithStatus" where
  "iterate_opts batchSize opts =
     \<lparr>io_ProjectID = lo_ProjectID opts, io_BucketName = lo_BucketName opts,
      io_Recursive = lo_Recursive opts, io_BatchSize = batchSize, io_Prefix = lo_Prefix opts,
      io_Cursor = lo_Cursor opts, io_Status = lo_Status opts,
      io_IncludeCustomMetadata = lo_IncludeCustomMetadata opts,
      io_IncludeSystemMetadata = lo_IncludeSystemMetadata opts\<rparr>"

text \<open>A page is the first \<open>limit\<close> entries of everything there is to list.\<close>

definition page_of :: "int \<Rightarrow> ObjectEntry list \<Rightarrow> ListObjectsResult" where
  "page_of limit entries =
     \<lparr>lr_Objects = take (nat limit) entries, lr_More = nat limit < length entries\<rparr>"

lemma ListObjects_page:
  assumes "ListObjects_Verify opts = Inr ()"
  shows "ListObjects now opts s =
    Inr (page_of (ensure_range ListLimit (lo_Limit opts)) (map (scan_entry opts) (list_query now opts s)))"
proof -
  let ?l = "ensure_range ListLimit (lo_Limit opts)"
  have "0 < ?l" by (simp add: ensure_range_def ListLimit_def)
  then have "nat (?l + 1) = Suc (nat ?l)" by simp
  then show ?thesis
    using assms \<open>0 < ?l\<close> by (auto simp: ListObjects_def page_of_def Let_def take_map min_def)
qed

text \<open>No key of the tables has the byte \<open>0xFF\<close>, and the cursor of a request that starts below
  the prefix has no version.\<close>

definition no_ff :: "store \<Rightarrow> bool" where
  "no_ff s \<longleftrightarrow> (\<forall>r \<in> set (objects s). CHR 0xFF \<notin> set (ObjectKey r))"

definition plain_cursor :: "ListObjectsOpts \<Rightarrow> bool" where
  "plain_cursor opts \<longleftrightarrow>
     lessKey (cursor_Key (lo_Cursor opts)) (lo_Prefix opts) \<longrightarrow> cursor_Version (lo_Cursor opts) \<le> 0"

definition listed_row :: "ListObjectsOpts \<Rightarrow> Object \<Rightarrow> bool" where
  "listed_row opts r \<longleftrightarrow>
     (if lo_Recursive opts then after_cursor (iterate_opts 0 opts) r else past_cursor (iterate_opts 0 opts) r)"

lemma startKey_ge: "lo_Prefix opts \<le> startKey opts"
proof -
  let ?pre = "lo_Prefix opts" and ?key = "cursor_Key (lo_Cursor opts)"
  have t: "?pre \<le> take (length ?pre + n) ?key @ x" if "has_prefix ?key ?pre" for n x
    using that by (auto simp: has_prefix_iff)
  have k: "?pre \<le> ?key" if "has_prefix ?key ?pre" using that by (auto simp: has_prefix_iff)
  show ?thesis
  proof (cases "lo_Recursive opts \<or> \<not> has_prefix ?key ?pre")
    case True
    then show ?thesis by (auto simp: startKey_def Let_def lessKey_def not_less)
  next
    case False
    then show ?thesis
    proof (cases "index_byte (drop (length ?pre) ?key) Delimiter")
      case None
      then show ?thesis using False k by (simp add: startKey_def Let_def)
    next
      case (Some i)
      then show ?thesis using False t [of "i + 1" "[CHR 0xFF]"]
        by (cases "?key = []") (simp_all add: startKey_def Let_def add.assoc)
    qed
  qed
qed

lemma ff_beyond:
  assumes "CHR 0xFF \<notin> set k" and "q = a @ [Delimiter]"
  shows "q @ [CHR 0xFF] < k \<longleftrightarrow> prefixLimit q \<le> k"
proof -
  have q: "q \<noteq> []" "last q \<noteq> CHR 0xFF" using assms(2) by (auto simp: Delimiter_def)
  have lim: "prefixLimit q = a @ [CHR ''0'']"
    using assms(2) by (simp add: prefixLimit_def Delimiter_def) code_simp
  have lt: "q @ [CHR 0xFF] < prefixLimit q" 
  proof -
    have "CHR ''/'' < CHR ''0''" by code_simp
    then show ?thesis unfolding lim unfolding assms(2) Delimiter_def by simp
  qed
  show ?thesis
  proof
    assume l: "q @ [CHR 0xFF] < k"
    show "prefixLimit q \<le> k"
    proof (rule ccontr)
      assume n: "\<not> prefixLimit q \<le> k"
      have "q \<le> k" by (rule less_imp_le [OF le_less_trans [OF le_append l]])
      then obtain t where t: "k = q @ t" using n prefix_range [OF q, of k] by (auto simp: has_prefix_iff)
      then have "[CHR 0xFF] < t" using l by simp
      then obtain d u where d: "t = d # u" "CHR 0xFF \<le> d" by (cases t) auto
      have "d \<le> CHR 0xFF"
      proof -
        have "(of_char d :: nat) < 256" by simp
        then have "(of_char d :: nat) \<le> 255" by linarith
        then show ?thesis by (simp add: less_eq_char_def)
      qed
      then have "d = CHR 0xFF" using d(2) by simp
      then show False using assms(1) t d(1) by simp
    qed
  next
    assume "prefixLimit q \<le> k"
    then show "q @ [CHR 0xFF] < k" using lt by simp
  qed
qed

lemma start_row:
  assumes "has_prefix (ObjectKey r) (lo_Prefix opts)" and "0 < Version r"
    and "CHR 0xFF \<notin> set (ObjectKey r)" and "plain_cursor opts"
  shows "(startKey opts, cursor_Version (lo_Cursor opts)) < (ObjectKey r, Version r) \<longleftrightarrow> listed_row opts r"
proof -
  let ?pre = "lo_Prefix opts" and ?key = "cursor_Key (lo_Cursor opts)" and ?v = "cursor_Version (lo_Cursor opts)"
  have K: "?pre \<le> ObjectKey r" using assms(1) by (auto simp: has_prefix_iff)
  have after: "after_cursor (iterate_opts 0 opts) r \<longleftrightarrow> (?key, ?v) < (ObjectKey r, Version r)"
    by (simp add: after_cursor_def iterate_opts_def)
  have below: "(?pre, ?v) < (ObjectKey r, Version r) \<and> (?key, ?v) < (ObjectKey r, Version r)" if "lessKey ?key ?pre"
    using that K assms(2,4) by (auto simp: plain_cursor_def lessKey_def)
  have under: "past_cursor (iterate_opts 0 opts) r \<longleftrightarrow> after_cursor (iterate_opts 0 opts) r"
    if "\<not> has_prefix ?key ?pre \<or> index_byte (drop (length ?pre) ?key) Delimiter = None"
    using that by (auto simp: past_cursor_def iterate_opts_def first_segment_def)
  show ?thesis
  proof (cases "lo_Recursive opts \<or> \<not> has_prefix ?key ?pre \<or> index_byte (drop (length ?pre) ?key) Delimiter = None")
    case True
    then have row: "listed_row opts r \<longleftrightarrow> after_cursor (iterate_opts 0 opts) r"
      using under by (auto simp: listed_row_def)
    have "startKey opts = ?key \<or> lessKey ?key ?pre \<and> startKey opts = ?pre"
      using True by (auto simp: startKey_def Let_def)
    then show ?thesis using row after below by auto
  next
    case False
    then obtain i where i: "index_byte (drop (length ?pre) ?key) Delimiter = Some i" and p: "has_prefix ?key ?pre"
      and rec: "\<not> lo_Recursive opts" by auto
    define seg where "seg = take (i + 1) (drop (length ?pre) ?key)"
    have fs: "first_segment (drop (length ?pre) ?key) = Some seg" using i by (simp add: first_segment_def seg_def)
    then obtain a b where ab: "seg = a @ [Delimiter]" "drop (length ?pre) ?key = seg @ b"
      by (auto simp: first_segment_Some)
    have key: "?key = ?pre @ seg @ b" using has_prefix_drop [OF p] ab(2) by simp
    have start: "startKey opts = (?pre @ seg) @ [CHR 0xFF]"
    proof -
      have "?key \<noteq> []" using key ab(1) by simp
      moreover have "take (length ?pre + i + 1) ?key = ?pre @ seg"
      proof -
        have "length seg = i + 1" using index_byte_Some [OF i] by (auto simp: seg_def)
        then show ?thesis unfolding key by simp
      qed
      ultimately show ?thesis using rec p i by (simp add: startKey_def Let_def)
    qed
    have q: "?pre @ seg \<noteq> []" "last (?pre @ seg) \<noteq> CHR 0xFF" using ab(1) by (auto simp: Delimiter_def)
    have "(startKey opts, ?v) < (ObjectKey r, Version r) \<longleftrightarrow> startKey opts < ObjectKey r"
    proof -
      have "CHR 0xFF \<in> set (startKey opts)" by (simp add: start)
      then have "startKey opts \<noteq> ObjectKey r" using assms(3) by metis
      then show ?thesis by auto
    qed
    also have "\<dots> \<longleftrightarrow> prefixLimit (?pre @ seg) \<le> ObjectKey r"
      unfolding start by (rule ff_beyond [OF assms(3), of _ "?pre @ a"]) (simp add: ab(1))
    also have "\<dots> \<longleftrightarrow> past_cursor (iterate_opts 0 opts) r"
    proof -
      have r: "has_prefix x (?pre @ seg) \<longleftrightarrow> ?pre @ seg \<le> x \<and> x < prefixLimit (?pre @ seg)" for x
        using prefix_range [OF q] .
      have "has_prefix ?key (?pre @ seg)" by (simp add: key has_prefix_iff)
      then have "?pre @ seg \<le> ?key" "?key < prefixLimit (?pre @ seg)" using r by auto
      moreover have "past_cursor (iterate_opts 0 opts) r \<longleftrightarrow>
          after_cursor (iterate_opts 0 opts) r \<and> \<not> has_prefix (ObjectKey r) (?pre @ seg)"
        using p fs by (simp add: past_cursor_def iterate_opts_def)
      ultimately show ?thesis unfolding after using r [of "ObjectKey r"] by auto
    qed
    finally show ?thesis using rec by (simp add: listed_row_def)
  qed
qed

abbreviation lo_rows :: "ListObjectsOpts \<Rightarrow> time \<times> store \<Rightarrow> Object list" where
  "lo_rows opts \<equiv> listing_rows (lo_ProjectID opts) (lo_BucketName opts) (lo_Status opts) (lo_Prefix opts)"

lemma list_query_rows:
  assumes "prefix_ok (lo_Prefix opts)" and "versions_positive s" and "no_ff s" and "plain_cursor opts"
  shows "list_query now opts s =
    (let rows = filter (listed_row opts) (lo_rows opts (now, s))
     in if lo_Recursive opts then sort_key (\<lambda>r. (ObjectKey r, Version r)) rows
        else distinct_on (fst \<circ> entry_key opts) (sort_key (fst \<circ> entry_key opts) rows))"
proof -
  have "(lo_ProjectID opts, lo_BucketName opts, startKey opts, cursor_Version (lo_Cursor opts)) < object_key r \<and>
      stopCondition opts r \<and> Some (Status r) = lo_Status opts \<and> unexpired now r \<longleftrightarrow>
    listed_row opts r \<and> in_listing now (lo_ProjectID opts) (lo_BucketName opts) (lo_Status opts) (lo_Prefix opts) r"
    if "r \<in> set (objects s)" for r
  proof -
    have s: "stopCondition opts r \<longleftrightarrow>
        (if prefixLimit (lo_Prefix opts) = [] then (ProjectID r, BucketName r) < (lo_ProjectID opts, nextBucket (lo_BucketName opts))
         else (ProjectID r, BucketName r, ObjectKey r) < (lo_ProjectID opts, lo_BucketName opts, prefixLimit (lo_Prefix opts)))"
      by (auto simp: stopCondition_def stopKey_def)
    note q = query_condition [OF assms(1) startKey_ge [of opts], of False "lo_ProjectID opts" "lo_BucketName opts"
        "cursor_Version (lo_Cursor opts)" r]
    have "0 < Version r" "CHR 0xFF \<notin> set (ObjectKey r)"
      using that assms(2,3) by (auto simp: versions_positive_def no_ff_def)
    then show ?thesis
      using q start_row [of r opts] assms(4) unfolding s in_listing_def listing_key_def by auto
  qed
  then have "filter (\<lambda>r. (lo_ProjectID opts, lo_BucketName opts, startKey opts, cursor_Version (lo_Cursor opts)) < object_key r \<and>
      stopCondition opts r \<and> Some (Status r) = lo_Status opts \<and> unexpired now r) (objects s) =
    filter (listed_row opts) (lo_rows opts (now, s))"
    by (auto simp: listing_rows_def intro!: filter_cong)
  then show ?thesis by (simp add: list_query_def Let_def)
qed

text \<open>What a key is listed as, and its monotonicity.\<close>

definition listed_key :: "string \<Rightarrow> string" where
  "listed_key key = (case first_segment key of None \<Rightarrow> key | Some p \<Rightarrow> p)"

lemma listed_key_simps [simp]:
  "listed_key [] = []"
  "listed_key (c # cs) = (if c = Delimiter then [c] else c # listed_key cs)"
  by (auto simp: listed_key_def first_segment_def split: option.split)

lemma listed_key_mono: "a \<le> b \<Longrightarrow> listed_key a \<le> listed_key b"
proof (induction a arbitrary: b)
  case (Cons c a)
  then obtain d b' where "b = d # b'" by (cases b) auto
  with Cons show ?case by auto
qed simp

lemma listed_key_first: "first_segment key = Some p \<Longrightarrow> listed_key key = p"
  by (simp add: listed_key_def)

lemma first_segment_listed_key: "first_segment (listed_key key) = first_segment key"
proof (cases "first_segment key")
  case (Some p)
  then have "first_segment p = Some p" by (auto simp: first_segment_Some)
  then show ?thesis using Some by (simp add: listed_key_def)
qed (simp add: listed_key_def)

lemma entry_key_listed: "\<not> lo_Recursive opts \<Longrightarrow>
  entry_key opts r = (let k = drop (length (lo_Prefix opts)) (ObjectKey r) in
    (listed_key k, first_segment k \<noteq> None))"
  by (auto simp: entry_key_def Let_def listed_key_def first_segment_def split: option.split)

lemma set_distinct_on:
  "h ` set (distinct_on f xs) = h ` set xs"
  if "\<And>x y. x \<in> set xs \<Longrightarrow> y \<in> set xs \<Longrightarrow> f x = f y \<Longrightarrow> h x = h y"
  using that
proof (induction f xs rule: distinct_on.induct)
  case (2 f r rs)
  have "h ` set (distinct_on f (filter (\<lambda>q. f q \<noteq> f r) rs)) = h ` set (filter (\<lambda>q. f q \<noteq> f r) rs)"
    using "2.prems" by (intro "2.IH") auto
  moreover have "h q = h r" if "q \<in> set rs" "f q = f r" for q using "2.prems" that by simp
  ultimately show ?case by (auto simp: image_iff)
qed simp

lemma distinct_on_subset: "set (distinct_on f xs) \<subseteq> set xs"
  by (induction f xs rule: distinct_on.induct) auto

lemma distinct_on_sorted:
  fixes f :: "'r \<Rightarrow> 'k :: linorder"
  shows "sorted (map f xs) \<Longrightarrow> sorted_wrt (\<lambda>x y. f x < f y) (distinct_on f xs)"
proof (induction f xs rule: distinct_on.induct)
  case (2 f r rs)
  have "sorted (map f (filter (\<lambda>q. f q \<noteq> f r) rs))" using "2.prems" by (simp add: sorted_filter)
  note ih = "2.IH" [OF this]
  have "f r < f q" if "q \<in> set (distinct_on f (filter (\<lambda>q. f q \<noteq> f r) rs))" for q
    using subsetD [OF distinct_on_subset that] "2.prems" by (auto simp: order_less_le)
  with ih show ?case by simp
qed simp

lemma remdups_adj_sorted:
  fixes g :: "'e \<Rightarrow> 'k :: linorder"
  assumes "sorted (map g xs)" and "inj_on g (set xs)"
  shows "sorted_wrt (\<lambda>x y. g x < g y) (remdups_adj xs)"
  using assms
proof (induction xs rule: remdups_adj.induct)
  case (3 x y xs)
  show ?case
  proof (cases "x = y")
    case True
    then show ?thesis using 3 by simp
  next
    case False
    have "sorted_wrt (\<lambda>x y. g x < g y) (remdups_adj (y # xs))" using 3 False by (simp add: inj_on_def)
    moreover have "g x < g y" using "3.prems" False by (auto simp: order_less_le inj_on_def)
    then have "g x < g z" if "z \<in> set (y # xs)" for z using "3.prems"(1) that by auto
    ultimately show ?thesis using False by auto
  qed
qed auto

lemma iterate_opts_fields [simp]:
  "io_ProjectID (iterate_opts n opts) = lo_ProjectID opts"
  "io_BucketName (iterate_opts n opts) = lo_BucketName opts"
  "io_Recursive (iterate_opts n opts) = lo_Recursive opts"
  "io_Prefix (iterate_opts n opts) = lo_Prefix opts"
  "io_Status (iterate_opts n opts) = lo_Status opts"
  "io_Cursor (iterate_opts n opts) = lo_Cursor opts"
  by (simp_all add: iterate_opts_def)

lemma iterate_opts_cursor:
  "after_cursor (iterate_opts n opts) = after_cursor (iterate_opts 0 opts)"
  "past_cursor (iterate_opts n opts) = past_cursor (iterate_opts 0 opts)"
  by (simp_all add: after_cursor_def past_cursor_def fun_eq_iff)

lemma iterate_metadata:
  assumes "IterateObjectsAllVersionsWithStatus now opts s = Inr it"
  shows "it_includeSystemMetadata it = io_IncludeSystemMetadata opts"
    "it_includeCustomMetadata it = io_IncludeCustomMetadata opts"
  using assms
  by (auto simp: IterateObjectsAllVersionsWithStatus_def res_bind_Inr_iff iterateAllVersionsWithStatus_def
      iterate_def Let_def)

text \<open>The iterator fills in the status of every object, \<open>ListObjects\<close> only with the system metadata; that of a
  prefix both fill in.\<close>

definition shown_entry :: "ListObjectsOpts \<Rightarrow> ObjectEntry \<Rightarrow> ObjectEntry" where
  "shown_entry opts item =
     (if lo_IncludeSystemMetadata opts \<or> e_IsPrefix item then item else item\<lparr>e_Status := None\<rparr>)"

lemma scan_entry_agrees:
  assumes "IterateObjectsAllVersionsWithStatus now (iterate_opts n opts) s = Inr it"
    and "Some (Status r) = lo_Status opts"
  shows "scan_entry opts r =
    shown_entry opts (if lo_Recursive opts then entry_of it zero_ObjectEntry r else collapsed it r)"
proof -
  note f = iterate_fields [OF assms(1)] iterate_metadata [OF assms(1)]
  have i: "it_includeSystemMetadata it = lo_IncludeSystemMetadata opts" "it_includeCustomMetadata it = lo_IncludeCustomMetadata opts"
    "it_prefix it = lo_Prefix opts" "it_status it = lo_Status opts"
    using f by (simp_all add: iterate_opts_def)
  have key: "relative_key it r = drop (length (lo_Prefix opts)) (ObjectKey r)" by (simp add: relative_key_def i)
  have row: "shown_entry opts (entry_of it zero_ObjectEntry r) =
      (let base = zero_ObjectEntry\<lparr>e_ObjectKey := relative_key it r, e_IsPrefix := False,
             e_StreamID := StreamID r, e_Version := Version r, e_Encryption := Encryption r\<rparr>;
           system = (if lo_IncludeSystemMetadata opts then list_system r base else base)
       in if lo_IncludeCustomMetadata opts then scan_custom r system else system)"
    by (simp add: entry_of_def scanItem_def i key list_system_def assms(2) [symmetric] Let_def shown_entry_def
        scan_system_def scan_custom_def select_row_def zero_ObjectEntry_def)
  have p: "shown_entry opts (prefix_entry st k) = prefix_entry st k" for st k
    by (simp add: shown_entry_def prefix_entry_def)
  show ?thesis
    by (auto simp: scan_entry_def entry_key_def collapsed_def row p key first_segment_def i Let_def
        split: option.split)
qed

lemma lo_rows_status: "r \<in> set (lo_rows opts (now, s)) \<Longrightarrow> Some (Status r) = lo_Status opts"
  by (auto simp: listing_rows_def in_listing_def)

lemma lo_rows_prefix: "r \<in> set (lo_rows opts (now, s)) \<Longrightarrow> has_prefix (ObjectKey r) (lo_Prefix opts)"
  by (auto simp: listing_rows_def in_listing_def)

text \<open>Collapsing sorted rows, and choosing one row for each entry and sorting those.\<close>

lemma collapse_distinct_on:
  assumes "IterateObjectsAllVersionsWithStatus now (iterate_opts n opts) s = Inr it"
    and "\<not> lo_Recursive opts"
    and "distinct (map ObjectKey R)" and "set R \<subseteq> set (lo_rows opts (now, s))"
  shows "remdups_adj (map (collapsed it) (sort_key (\<lambda>r. (ObjectKey r, Version r)) R)) =
    map (collapsed it) (distinct_on (fst \<circ> entry_key opts) (sort_key (fst \<circ> entry_key opts) R))"
proof -
  let ?f = "fst \<circ> entry_key opts" and ?L = "sort_key (\<lambda>r. (ObjectKey r, Version r)) R"
  let ?D = "distinct_on ?f (sort_key ?f R)"
  have pre: "it_prefix it = lo_Prefix opts" using iterate_fields [OF assms(1)] by simp
  have f: "?f r = listed_key (relative_key it r)" for r
    using assms(2) by (simp add: entry_key_listed Let_def relative_key_def pre)
  have ek: "e_ObjectKey (collapsed it r) = ?f r" for r
    unfolding f by (simp add: collapsed_def listed_key_def prefix_entry_def split: option.split)
  have key: "ObjectKey r = lo_Prefix opts @ relative_key it r" if "r \<in> set R" for r
  proof -
    have "has_prefix (ObjectKey r) (lo_Prefix opts)" using lo_rows_prefix assms(4) that by blast
    then show ?thesis unfolding relative_key_def pre by (simp add: has_prefix_drop)
  qed
  have inj: "collapsed it r = collapsed it q" if "r \<in> set R" "q \<in> set R" "?f r = ?f q" for r q
  proof -
    have e: "first_segment (relative_key it r) = first_segment (relative_key it q)"
      using that(3) unfolding f by (metis first_segment_listed_key)
    show ?thesis
    proof (cases "first_segment (relative_key it r)")
      case None
      then have "relative_key it r = relative_key it q" using that(3) e unfolding f by (simp add: listed_key_def)
      then have "ObjectKey r = ObjectKey q" using key that(1,2) by simp
      then have "r = q" using assms(3) that(1,2) by (auto simp: distinct_map dest: inj_onD)
      then show ?thesis by simp
    next
      case (Some p)
      then show ?thesis using e by (simp add: collapsed_def)
    qed
  qed
  have mono: "?f r \<le> ?f q" if "r \<in> set R" "q \<in> set R" "(ObjectKey r, Version r) \<le> (ObjectKey q, Version q)" for r q
  proof -
    have "ObjectKey r \<le> ObjectKey q" using that(3) by auto
    then have "relative_key it r \<le> relative_key it q" using key that(1,2) by simp
    then show ?thesis unfolding f by (rule listed_key_mono)
  qed
  show ?thesis
  proof (rule sorted_key_unique [of e_ObjectKey])
    have "sorted_wrt (\<lambda>r q. ?f r \<le> ?f q) ?L"
    proof (rule sorted_wrt_mono_rel)
      show "sorted_wrt (\<lambda>r q. (ObjectKey r, Version r) \<le> (ObjectKey q, Version q)) ?L"
        using sorted_sort_key [of "\<lambda>r. (ObjectKey r, Version r)" R] by (simp only: sorted_map)
      show "?f r \<le> ?f q" if "r \<in> set ?L" "q \<in> set ?L"
        "(ObjectKey r, Version r) \<le> (ObjectKey q, Version q)" for r q
        using mono [OF _ _ that(3)] that(1,2) by simp
    qed
    then have "sorted (map ?f ?L)" by (simp only: sorted_map)
    moreover have "e_ObjectKey \<circ> collapsed it = ?f"
    proof
      fix r show "(e_ObjectKey \<circ> collapsed it) r = ?f r" using ek [of r] by simp
    qed
    then have "map e_ObjectKey (map (collapsed it) ?L) = map ?f ?L" by (simp only: map_map)
    ultimately have "sorted (map e_ObjectKey (map (collapsed it) ?L))" by (simp only:)
    moreover have "inj_on e_ObjectKey (set (map (collapsed it) ?L))"
    proof (rule inj_onI)
      fix x y assume x: "x \<in> set (map (collapsed it) ?L)" "y \<in> set (map (collapsed it) ?L)"
        and e: "e_ObjectKey x = e_ObjectKey y"
      obtain r where r: "r \<in> set R" "x = collapsed it r" using x(1) by auto
      obtain q where q: "q \<in> set R" "y = collapsed it q" using x(2) by auto
      have "?f r = ?f q" using e ek [of r] ek [of q] r(2) q(2) by simp
      then show "x = y" using inj [OF r(1) q(1)] r(2) q(2) by blast
    qed
    ultimately show "sorted_wrt (\<lambda>x y. e_ObjectKey x < e_ObjectKey y) (remdups_adj (map (collapsed it) ?L))"
      by (rule remdups_adj_sorted)
    have D: "set ?D \<subseteq> set R" using distinct_on_subset [of ?f "sort_key ?f R"] by simp
    have "sorted_wrt (\<lambda>r q. e_ObjectKey (collapsed it r) < e_ObjectKey (collapsed it q)) ?D"
      using distinct_on_sorted [OF sorted_sort_key, of ?f R] D
      by (intro sorted_wrt_mono_rel [OF _ distinct_on_sorted [OF sorted_sort_key, of ?f R]])
        (auto simp: ek subset_iff simp del: o_apply)
    then show "sorted_wrt (\<lambda>x y. e_ObjectKey x < e_ObjectKey y) (map (collapsed it) ?D)"
      by (simp add: sorted_wrt_map)
    have "collapsed it ` set ?D = collapsed it ` set (sort_key ?f R)"
    proof (rule set_distinct_on)
      fix r q assume x: "r \<in> set (sort_key ?f R)" "q \<in> set (sort_key ?f R)" "?f r = ?f q"
      then have m: "r \<in> set R" "q \<in> set R" by simp_all
      show "collapsed it r = collapsed it q" by (rule inj [OF m x(3)])
    qed
    then show "set (remdups_adj (map (collapsed it) ?L)) = set (map (collapsed it) ?D)"
      by auto
  qed
qed

text \<open>
  Property C20. \<open>ListObjects\<close> returns the page of what the iterator lists, and says whether there is
  more, for every limit and batch size, with or without metadata: recursively for any tables, and
  without recursion when no two listed rows have the same key. Three conditions: no key has the byte
  \<open>0xFF\<close> and the prefix does not end in it (see \<open>prefix_ff_hides\<close>), and a cursor below the prefix has no
  version. The iterator fills in the status of every object, \<open>ListObjects\<close> only with the system metadata.
\<close>

theorem ListObjects_agrees:
  assumes "IterateObjectsAllVersionsWithStatus now (iterate_opts n opts) s = Inr it"
    and "0 \<le> lo_Limit opts"
    and "prefix_ok (lo_Prefix opts)" and "unique_key object_key (objects s)" and "versions_positive s"
    and "no_ff s" and "plain_cursor opts"
    and "\<not> lo_Recursive opts \<Longrightarrow> distinct (map ObjectKey (lo_rows opts (now, s)))"
    and "length (objects s) < k"
    and "iterate_calls (replicate k (now, s)) it zero_ObjectEntry = Some (items, finished)"
  shows "finished \<and> ListObjects now opts s =
    Inr (page_of (ensure_range ListLimit (lo_Limit opts)) (map (shown_entry opts) items))"
proof -
  let ?R = "filter (listed_row opts) (lo_rows opts (now, s))"
  let ?L = "sort_key (\<lambda>r. (ObjectKey r, Version r)) ?R"
  have v: "ListObjects_Verify opts = Inr ()"
    using assms(1,2)
    by (auto simp: IterateObjectsAllVersionsWithStatus_def res_bind_Inr_iff IterateObjectsWithStatus_Verify_def
        ListObjects_Verify_def iterate_opts_def split: if_splits)
  note q = list_query_rows [OF assms(3,5,6,7), of now]
  have sub: "set ?R \<subseteq> set (lo_rows opts (now, s))" by simp
  have "set (list_query now opts s) \<subseteq> set (lo_rows opts (now, s))"
    unfolding q using distinct_on_subset [of "fst \<circ> entry_key opts" "sort_key (fst \<circ> entry_key opts) ?R"]
    by (auto simp: Let_def)
  then have st: "Some (Status r) = lo_Status opts" if "r \<in> set (list_query now opts s)" for r
    using lo_rows_status that by blast
  let ?e = "if lo_Recursive opts then entry_of it zero_ObjectEntry else collapsed it"
  have items: "items = map ?e (list_query now opts s) \<and> finished"
  proof (cases "lo_Recursive opts")
    case True
    then have l: "listed_row opts = after_cursor (iterate_opts n opts)"
      by (simp add: listed_row_def after_cursor_def fun_eq_iff)
    have "iterate_calls (replicate k (now, s)) it zero_ObjectEntry = Some (map (entry_of it zero_ObjectEntry) ?L, True)"
      unfolding l using recursive_listing [OF assms(1) _ _ assms(4,5,9), of zero_ObjectEntry] True assms(3)
      by simp
    from trans [OF this [symmetric] assms(10)]
    have "items = map (entry_of it zero_ObjectEntry) ?L \<and> finished" by blast
    then show ?thesis using q True by simp
  next
    case False
    then have l: "listed_row opts = past_cursor (iterate_opts n opts)"
      by (simp add: listed_row_def past_cursor_def after_cursor_def fun_eq_iff)
    have "iterate_calls (replicate k (now, s)) it zero_ObjectEntry = Some (remdups_adj (map (collapsed it) ?L), True)"
      unfolding l using nonrecursive_listing [OF assms(1) _ _ assms(4,5,9)] False assms(3) by simp
    from trans [OF this [symmetric] assms(10)]
    have "items = remdups_adj (map (collapsed it) ?L) \<and> finished" by blast
    moreover have "distinct (map ObjectKey ?R)" using assms(8) [OF False] by (rule distinct_map_filter)
    ultimately show ?thesis
      using collapse_distinct_on [OF assms(1) False _ sub] q False by simp
  qed
  have "map (shown_entry opts) items = map (scan_entry opts) (list_query now opts s)"
    using items scan_entry_agrees [OF assms(1) st] by (simp split: if_splits)
  then show ?thesis using items by (simp only: ListObjects_page [OF v] simp_thms)
qed

subsection \<open>Keys with the byte 0xFF\<close>

lemma distinct_on_hd: "xs \<noteq> [] \<Longrightarrow> distinct_on f xs \<noteq> [] \<and> hd (distinct_on f xs) = hd xs"
  by (cases xs) auto

lemma sorted_hd_le: "sorted (map f xs) \<Longrightarrow> x \<in> set xs \<Longrightarrow> f (hd xs) \<le> f x"
  by (cases xs) auto

text \<open>
  Lemma. When a page of a non-recursive listing ended with the prefix \<open>seg\<close>, the next page
  starts at \<open>seg\<close> followed by the byte \<open>0xFF\<close> instead of after everything under \<open>seg\<close>: a key
  under \<open>seg\<close> that continues with \<open>0xFF\<close> makes the next page begin with \<open>seg\<close> again, so that a
  client asking for one entry at a time never gets past it.
\<close>

theorem ListObjects_repeats_prefix:
  assumes "ListObjects_Verify opts = Inr ()" and "\<not> lo_Recursive opts" and "prefix_ok (lo_Prefix opts)"
    and "cursor_Key (lo_Cursor opts) = lo_Prefix opts @ seg" and "first_segment seg = Some seg"
    and "r \<in> set (lo_rows opts (now, s))" and "ObjectKey r = lo_Prefix opts @ seg @ CHR 0xFF # x" and "x \<noteq> []"
  shows "\<exists>rest more. ListObjects now opts s =
    Inr \<lparr>lr_Objects = prefix_entry (lo_Status opts) seg # rest, lr_More = more\<rparr>"
proof -
  let ?pre = "lo_Prefix opts" and ?f = "fst \<circ> entry_key opts" and ?v = "cursor_Version (lo_Cursor opts)"
  define rows where "rows = filter (\<lambda>r.
      (lo_ProjectID opts, lo_BucketName opts, startKey opts, ?v) < object_key r \<and>
      stopCondition opts r \<and> Some (Status r) = lo_Status opts \<and> unexpired now r) (objects s)"
  have lq: "list_query now opts s = distinct_on ?f (sort_key ?f rows)"
    using assms(2) by (simp add: list_query_def rows_def Let_def)
  have start: "startKey opts = ?pre @ seg @ [CHR 0xFF]"
  proof -
    obtain a b where ab: "seg = a @ [Delimiter]" "Delimiter \<notin> set a"
      using assms(5) by (auto simp: first_segment_Some)
    then have "index_byte seg Delimiter = Some (length a)" using index_byte_append [of Delimiter a "[]"] by simp
    then show ?thesis using assms(2,4) ab(1) by (simp add: startKey_def Let_def)
  qed
  have stop: "stopCondition opts q \<longleftrightarrow>
      (if prefixLimit ?pre = [] then (ProjectID q, BucketName q) < (lo_ProjectID opts, nextBucket (lo_BucketName opts))
       else (ProjectID q, BucketName q, ObjectKey q) < (lo_ProjectID opts, lo_BucketName opts, prefixLimit ?pre))" for q
    by (auto simp: stopCondition_def stopKey_def)
  have rows: "q \<in> set rows \<longleftrightarrow> q \<in> set (lo_rows opts (now, s)) \<and> (startKey opts, ?v) < (ObjectKey q, Version q)" for q
    using query_condition [OF assms(3) startKey_ge [of opts], of False "lo_ProjectID opts" "lo_BucketName opts" ?v q]
    unfolding rows_def stop by (auto simp: listing_rows_def in_listing_def listing_key_def)
  have f: "?f q = listed_key (drop (length ?pre) (ObjectKey q))" for q
    using assms(2) by (simp add: entry_key_listed Let_def)
  have r: "r \<in> set rows" using assms(6-8) start unfolding rows by (cases x) auto
  have fr: "?f r = seg"
  proof -
    have "first_segment (seg @ CHR 0xFF # x) = Some seg" using assms(5) by (auto simp: first_segment_Some)
    then show ?thesis unfolding f by (simp add: assms(7) listed_key_first)
  qed
  have ge: "seg \<le> ?f q" if "q \<in> set rows" for q
  proof -
    have q: "q \<in> set (lo_rows opts (now, s))" "startKey opts \<le> ObjectKey q" using that rows by auto
    have "ObjectKey q = ?pre @ drop (length ?pre) (ObjectKey q)"
      using has_prefix_drop [OF lo_rows_prefix [OF q(1)]] by simp
    then have "?pre @ seg @ [CHR 0xFF] \<le> ?pre @ drop (length ?pre) (ObjectKey q)" using q(2) start by simp
    then have "seg @ [CHR 0xFF] \<le> drop (length ?pre) (ObjectKey q)" by (simp only: append_le_cancel)
    then have "seg \<le> drop (length ?pre) (ObjectKey q)" by (rule order_trans [OF le_append])
    then have "listed_key seg \<le> ?f q" unfolding f by (rule listed_key_mono)
    then show ?thesis using assms(5) by (simp add: listed_key_def)
  qed
  have ne: "sort_key ?f rows \<noteq> []" using r by (metis empty_iff set_empty set_sort)
  let ?h = "hd (sort_key ?f rows)"
  have "?h \<in> set rows" using ne by (metis hd_in_set set_sort)
  moreover have "?f ?h \<le> seg" using sorted_hd_le [OF sorted_sort_key, of r ?f rows] r fr by simp
  ultimately have fh: "?f ?h = seg" using ge by (metis antisym)
  have "first_segment (drop (length ?pre) (ObjectKey ?h)) \<noteq> None"
  proof
    assume n: "first_segment (drop (length ?pre) (ObjectKey ?h)) = None"
    then have "drop (length ?pre) (ObjectKey ?h) = seg" using fh unfolding f by (simp add: listed_key_def)
    then show False using n assms(5) by simp
  qed
  then have h: "scan_entry opts ?h = prefix_entry (lo_Status opts) seg"
    using fh assms(2) by (simp add: scan_entry_def entry_key_listed Let_def)
  obtain rest where "map (scan_entry opts) (list_query now opts s) = prefix_entry (lo_Status opts) seg # rest"
    using distinct_on_hd [OF ne, of ?f] h unfolding lq by (cases "distinct_on ?f (sort_key ?f rows)") auto
  moreover have "0 < ensure_range ListLimit (lo_Limit opts)" by (simp add: ensure_range_def ListLimit_def)
  then obtain m where "nat (ensure_range ListLimit (lo_Limit opts)) = Suc m" by (metis not0_implies_Suc zero_less_nat_eq less_numeral_extra(3))
  ultimately show ?thesis using ListObjects_page [OF assms(1), of now s] by (simp add: page_of_def)
qed

text \<open>
  Lemma. A prefix that ends in the byte \<open>0xFF\<close> has the limit \<open>prefix 0x00\<close>, so listing it
  returns at most the object whose key is the prefix itself, never one under it.
\<close>

theorem prefix_ff_hides:
  assumes "IterateObjectsAllVersionsWithStatus now opts s = Inr it"
    and "io_Prefix opts \<noteq> []" and "last (io_Prefix opts) = CHR 0xFF" and "r \<in> set (it_curRows it)"
  shows "ObjectKey r = []"
proof -
  note f = iterate_fields [OF assms(1)]
  let ?p = "io_ProjectID opts" and ?b = "io_BucketName opts" and ?pre = "io_Prefix opts"
  have lim: "prefixLimit ?pre = ?pre @ [CHR 0x00]" using assms(2,3) by (simp add: prefixLimit_def)
  obtain c :: iterateCursor and q where q: "r = select_row (length ?pre) q" "?pre \<le> ic_Key c"
    "(?p, ?b, ic_Key c, ic_Version c) \<le> object_key q"
    "(ProjectID q, BucketName q, ObjectKey q) < (?p, ?b, ?pre @ [CHR 0x00])"
  proof -
    have "it_curRows it = doNextQueryAllVersionsWithStatus now
        (it\<lparr>it_curRows := [], it_cursor := start_cursor opts\<rparr>) s"
      using assms(1)
      by (auto simp: IterateObjectsAllVersionsWithStatus_def res_bind_Inr_iff iterateAllVersionsWithStatus_def
          iterate_def Let_def start_cursor_def doNextQuery_def
          intro!: arg_cong [of _ _ "\<lambda>i. doNextQueryAllVersionsWithStatus now i s"])
    then obtain q where x: "r = select_row (length ?pre) q"
      "(?p, ?b, ic_Key (start_cursor opts), ic_Version (start_cursor opts)) \<le> object_key q"
      "(ProjectID q, BucketName q, ObjectKey q) < (?p, ?b, ?pre @ [CHR 0x00])"
      using assms(2,4) f lim
      by (auto simp: doNextQueryAllVersionsWithStatus_def Let_def split: if_splits dest!: in_set_takeD)
    show ?thesis by (rule that [OF x(1) f(13) x(2,3)])
  qed
  then have "?p \<le> ProjectID q" "ProjectID q \<le> ?p" by (auto simp: object_key_def)
  then have P: "ProjectID q = ?p" by simp
  with q have "?b \<le> BucketName q" "BucketName q \<le> ?b" by (auto simp: object_key_def)
  then have B: "BucketName q = ?b" by simp
  have "?pre \<le> ObjectKey q" using q P B by (auto simp: object_key_def)
  moreover have "ObjectKey q < ?pre @ [CHR 0x00]" using q P B by simp
  ultimately have "ObjectKey q = ?pre"
    using nextBucket_between [of ?pre "ObjectKey q"] by (simp add: nextBucket_def)
  then show ?thesis using q(1) by simp
qed

subsection \<open>Concrete listings\<close>

text \<open>A bucket with committed objects under the given keys, one version each.\<close>

definition ex_row :: "string \<Rightarrow> int \<Rightarrow> uuid \<Rightarrow> Object" where
  "ex_row key version stream = (begin_row 10 version
     \<lparr>begin_Stream = \<lparr>ProjectID = 1, BucketName = ''b'', ObjectKey = key, Version = version, StreamID = stream\<rparr>,
      begin_ExpiresAt = None, begin_ZombieDeletionDeadline = None, begin_EncryptedMetadata = None,
      begin_EncryptedMetadataNonce = None, begin_EncryptedMetadataEncryptedKey = None,
      begin_Encryption = \<lparr>CipherSuite = 1, BlockSize = 256\<rparr>\<rparr>)\<lparr>Status := Committed\<rparr>"

definition ex_bucket :: "string list \<Rightarrow> store" where
  "ex_bucket keys = \<lparr>objects = map (\<lambda>(k, i). ex_row k 1 (of_nat i)) (zip keys [1..<Suc (length keys)]),
     segments = [], copies = [], alias_db = \<lparr>alias_rows = [], alias_seq = 1\<rparr>,
     alias_map = \<lparr>map_node = [], map_alias = Map.empty\<rparr>\<rparr>"

definition ex_list :: "bool \<Rightarrow> int \<Rightarrow> string \<Rightarrow> string \<Rightarrow> ListObjectsOpts" where
  "ex_list recursive limit pre key = \<lparr>lo_ProjectID = 1, lo_BucketName = ''b'', lo_Recursive = recursive,
     lo_Limit = limit, lo_Prefix = pre, lo_Cursor = \<lparr>cursor_Key = key, cursor_Version = 0\<rparr>,
     lo_Status = Some Committed, lo_IncludeCustomMetadata = True, lo_IncludeSystemMetadata = True\<rparr>"

definition ex_tree :: store where
  "ex_tree = ex_bucket [''p/a'', ''p/b/x'', ''p/b/y'', ''p/c'', ''q'']"

definition ex_iter :: "bool \<Rightarrow> int \<Rightarrow> store \<Rightarrow> objectsIterator" where
  "ex_iter recursive n s = iterateAllVersionsWithStatus 20 (iterate_opts n (ex_list recursive 3 ''p/'' [])) s"

lemma ex_iter_ok:
  "IterateObjectsAllVersionsWithStatus 20 (iterate_opts 1 (ex_list rec 3 ''p/'' [])) s = Inr (ex_iter rec 1 s)"
  by (simp add: IterateObjectsAllVersionsWithStatus_def IterateObjectsWithStatus_Verify_def ex_iter_def
      iterate_opts_def ex_list_def)

lemma ex_tree_ok:
  "unique_key object_key (objects ex_tree)" "versions_positive ex_tree" "no_ff ex_tree"
  "length (objects ex_tree) = 5"
  unfolding unique_key_def versions_positive_def no_ff_def by code_simp+

theorem recursive_listing_stable_witness:
  "\<exists>items. iterate_calls (replicate 6 (20, ex_tree)) (ex_iter True 1 ex_tree) zero_ObjectEntry = Some (items, True) \<and>
     sorted_wrt (\<lambda>a b. (e_ObjectKey a, e_Version a) < (e_ObjectKey b, e_Version b)) items \<and>
     map e_ObjectKey items = [''a'', ''b/x'', ''b/y'', ''c'']"
proof -
  let ?opts = "iterate_opts 1 (ex_list True 3 ''p/'' [])"
  have e: "map_option (\<lambda>(items, finished). (map e_ObjectKey items, finished))
      (iterate_calls (replicate 6 (20, ex_tree)) (ex_iter True 1 ex_tree) zero_ObjectEntry) =
    Some ([''a'', ''b/x'', ''b/y'', ''c''], True)"
    by code_simp
  then obtain items where items:
    "iterate_calls (replicate 6 (20, ex_tree)) (ex_iter True 1 ex_tree) zero_ObjectEntry = Some (items, True)"
    "map e_ObjectKey items = [''a'', ''b/x'', ''b/y'', ''c'']" by auto
  have p: "prefix_ok (io_Prefix ?opts)" "io_Recursive ?opts" by (simp_all add: prefix_ok_def ex_list_def)
  have ok: "\<forall>(t, s') \<in> insert (20, ex_tree) (set (replicate 6 (20, ex_tree))).
      unique_key object_key (objects s') \<and> versions_positive s'"
    using ex_tree_ok by simp
  have "sorted_wrt (\<lambda>a b. (e_ObjectKey a, e_Version a) < (e_ObjectKey b, e_Version b)) items"
    by (rule recursive_listing_stable [OF ex_iter_ok p(2,1) ok items(1), THEN conjunct1])
  with items show ?thesis by (intro exI conjI)
qed

theorem nonrecursive_listing_witness:
  "\<exists>items. iterate_calls (replicate 6 (20, ex_tree)) (ex_iter False 1 ex_tree) zero_ObjectEntry = Some (items, True) \<and>
     map e_ObjectKey items = [''a'', ''b/'', ''c''] \<and> map e_IsPrefix items = [False, True, False]"
proof -
  let ?opts = "iterate_opts 1 (ex_list False 3 ''p/'' [])"
  have p: "prefix_ok (io_Prefix ?opts)" "\<not> io_Recursive ?opts" by (simp_all add: prefix_ok_def ex_list_def)
  have past: "past_cursor ?opts = after_cursor ?opts"
    by (simp add: past_cursor_def fun_eq_iff ex_list_def has_prefix_iff)
  have e: "map (\<lambda>i. (e_ObjectKey i, e_IsPrefix i)) (remdups_adj (map (collapsed (ex_iter False 1 ex_tree))
      (sort_key (\<lambda>r. (ObjectKey r, Version r)) (filter (after_cursor ?opts) (listed ?opts (20, ex_tree)))))) =
    [(''a'', False), (''b/'', True), (''c'', False)]"
    by code_simp
  have "map e_ObjectKey xs = map fst (map (\<lambda>i. (e_ObjectKey i, e_IsPrefix i)) xs)"
    "map e_IsPrefix xs = map snd (map (\<lambda>i. (e_ObjectKey i, e_IsPrefix i)) xs)" for xs by simp_all
  then show ?thesis
    using nonrecursive_listing [OF ex_iter_ok p(2,1) ex_tree_ok(1,2), of 6] e ex_tree_ok(4)
    by (auto simp: past)
qed

theorem ListObjects_agrees_witness:
  "\<exists>items. iterate_calls (replicate 6 (20, ex_tree)) (ex_iter False 1 ex_tree) zero_ObjectEntry = Some (items, True) \<and>
     ListObjects 20 (ex_list False 2 ''p/'' []) ex_tree = Inr (page_of 2 items) \<and> length items = 3"
proof -
  let ?opts = "ex_list False 2 ''p/'' []"
  have it: "IterateObjectsAllVersionsWithStatus 20 (iterate_opts 1 ?opts) ex_tree = Inr (ex_iter False 1 ex_tree)"
    by (simp add: IterateObjectsAllVersionsWithStatus_def IterateObjectsWithStatus_Verify_def ex_iter_def
        iterate_opts_def ex_list_def)
  have l: "0 \<le> lo_Limit ?opts" "prefix_ok (lo_Prefix ?opts)" "plain_cursor ?opts"
    "ensure_range ListLimit (lo_Limit ?opts) = 2" "shown_entry ?opts = (\<lambda>x. x)"
    by (simp_all add: ex_list_def prefix_ok_def plain_cursor_def ensure_range_def ListLimit_def shown_entry_def fun_eq_iff)
  have d: "distinct (map ObjectKey (lo_rows ?opts (20, ex_tree)))" by code_simp
  have e: "map_option (\<lambda>(items, finished). (length items, finished))
      (iterate_calls (replicate 6 (20, ex_tree)) (ex_iter False 1 ex_tree) zero_ObjectEntry) = Some (3, True)"
    by code_simp
  then obtain items where items:
    "iterate_calls (replicate 6 (20, ex_tree)) (ex_iter False 1 ex_tree) zero_ObjectEntry = Some (items, True)"
    "length items = 3" by auto
  show ?thesis
    using ListObjects_agrees [OF it l(1,2) ex_tree_ok(1-3) l(3) d _ items(1)] ex_tree_ok(4) l(4,5) items by simp
qed

theorem ListObjects_repeats_prefix_witness:
  "map_sum id lr_More (ListObjects 20 (ex_list False 1 [] ''d/'') (ex_bucket [''d/a'', ''d/'' @ [CHR 0xFF, CHR ''z''], ''e''])) = Inr True \<and>
   (\<exists>rest more. ListObjects 20 (ex_list False 1 [] ''d/'') (ex_bucket [''d/a'', ''d/'' @ [CHR 0xFF, CHR ''z''], ''e'']) =
     Inr \<lparr>lr_Objects = prefix_entry (Some Committed) ''d/'' # rest, lr_More = more\<rparr>)"
proof -
  let ?opts = "ex_list False 1 [] ''d/''" and ?s = "ex_bucket [''d/a'', ''d/'' @ [CHR 0xFF, CHR ''z''], ''e'']"
  let ?r = "ex_row (''d/'' @ [CHR 0xFF, CHR ''z'']) 1 2"
  have v: "ListObjects_Verify ?opts = Inr ()" "\<not> lo_Recursive ?opts" "prefix_ok (lo_Prefix ?opts)"
    "cursor_Key (lo_Cursor ?opts) = lo_Prefix ?opts @ ''d/''" "lo_Status ?opts = Some Committed"
    by (simp_all add: ListObjects_Verify_def ex_list_def prefix_ok_def)
  have f: "first_segment ''d/'' = Some ''d/''" by code_simp
  have r: "?r \<in> set (lo_rows ?opts (20, ?s))" by code_simp
  have k: "ObjectKey ?r = lo_Prefix ?opts @ ''d/'' @ CHR 0xFF # ''z''" by (simp add: ex_row_def begin_row_def ex_list_def)
  have m: "map_sum id lr_More (ListObjects 20 ?opts ?s) = Inr True" by code_simp
  show ?thesis using ListObjects_repeats_prefix [OF v(1-4) f r k] m v(5) by simp
qed

theorem prefix_ff_hides_witness:
  "\<exists>it. IterateObjectsAllVersionsWithStatus 20 (iterate_opts 5 (ex_list True 3 (''a'' @ [CHR 0xFF]) []))
       (ex_bucket [''a'' @ [CHR 0xFF], ''a'' @ [CHR 0xFF, CHR ''b'']]) = Inr it \<and>
     length (it_curRows it) = 1 \<and> (\<forall>r \<in> set (it_curRows it). ObjectKey r = [])"
proof -
  let ?opts = "iterate_opts 5 (ex_list True 3 (''a'' @ [CHR 0xFF]) [])"
    and ?s = "ex_bucket [''a'' @ [CHR 0xFF], ''a'' @ [CHR 0xFF, CHR ''b'']]"
  have it: "IterateObjectsAllVersionsWithStatus 20 ?opts ?s = Inr (iterateAllVersionsWithStatus 20 ?opts ?s)"
    by (simp add: IterateObjectsAllVersionsWithStatus_def IterateObjectsWithStatus_Verify_def
        iterate_opts_def ex_list_def)
  have p: "io_Prefix ?opts \<noteq> []" "last (io_Prefix ?opts) = CHR 0xFF" by (simp_all add: ex_list_def)
  have "length (it_curRows (iterateAllVersionsWithStatus 20 ?opts ?s)) = 1" by code_simp
  then show ?thesis using prefix_ff_hides [OF it p] it by blast
qed

end
