(* ===== verification/MetaSegments.thy ===== *)
theory MetaSegments
  imports MetaMove MetaList
begin

text \<open>
  Listing the segments of a stream and their positions (\<open>satellite/metabase/list_segments.go\<close>),
  listing remote segments for verification (\<open>list_verify_segments.go\<close>), counting the pieces of
  a stream by node (\<open>streamstat.go\<close>) and the size of the segment table (\<open>stats.go\<close>).
\<close>

subsection \<open>ListSegments\<close>

record ListSegmentsOpts =
  ls_StreamID :: uuid
  ls_Cursor :: SegmentPosition
  ls_Limit :: int

record ListSegmentsResult =
  sr_Segments :: "(Segment \<times> Pieces) list"
  sr_More :: bool

text \<open>The \<open>int8\<close> value of a position, and \<open>$2 = 0::INT8 OR position > $2\<close>.\<close>

definition position_column :: "SegmentPosition \<Rightarrow> int" where
  "position_column p = sint (SegmentPosition_Encode p)"

definition after_position :: "SegmentPosition \<Rightarrow> SegmentPosition \<Rightarrow> bool" where
  "after_position c p \<longleftrightarrow> position_column c = 0 \<or> position_column p > position_column c"

definition listed_segments :: "uuid \<Rightarrow> SegmentPosition \<Rightarrow> store \<Rightarrow> Segment list" where
  "listed_segments stream c s =
     order_by_position (filter (\<lambda>g. seg_StreamID g = stream \<and> after_position c (seg_Position g)) (segments s))"

text \<open>The query selects neither the repair time nor the placement.\<close>

definition unselected :: "Segment \<Rightarrow> Segment" where
  "unselected g = g\<lparr>seg_RepairedAt := None, seg_Placement := None\<rparr>"

fun scan_listed :: "Segment list \<Rightarrow> store \<Rightarrow> store \<times> ((Segment \<times> Pieces) list) meta_res" where
  "scan_listed [] s = (s, Inr [])"
| "scan_listed (g # gs) s =
     (case AliasPieces_Scan (seg_AliasPieces g) of
        Inl e \<Rightarrow> (s, Inl (MetaError ''failed to scan segments''))
      | Inr aps \<Rightarrow>
          (case store_ConvertAliases aps s of
             (s', Inl e) \<Rightarrow> (s', Inl (MetaError ''failed to convert aliases to pieces''))
           | (s', Inr pieces) \<Rightarrow>
               (case scan_listed gs s' of
                  (s'', Inl e) \<Rightarrow> (s'', Inl e)
                | (s'', Inr rest) \<Rightarrow> (s'', Inr ((unselected g, pieces) # rest)))))"

text \<open>The rows of the ancestor for the segments that have no pieces of their own.\<close>

definition ancestor_rows :: "uuid \<Rightarrow> SegmentPosition list \<Rightarrow> store \<Rightarrow> Segment list" where
  "ancestor_rows stream positions s =
     sort_key (\<lambda>g. (seg_StreamID g, position_column (seg_Position g)))
       (concat (map (\<lambda>g. map (\<lambda>_. g) (filter
          (\<lambda>c. copy_AncestorStreamID c = seg_StreamID g \<and> copy_StreamID c = stream) (copies s)))
        (filter (\<lambda>g. seg_Position g \<in> set positions) (segments s))))"

text \<open>The rows are written into the local slice \<open>copies\<close> of \<open>Segment\<close> values, which is not what
  the function returns: what is left of it is its length and the errors.\<close>

fun fill_copies :: "Segment list \<Rightarrow> nat \<Rightarrow> nat \<Rightarrow> store \<Rightarrow> store \<times> nat meta_res" where
  "fill_copies [] index n s = (s, Inr index)"
| "fill_copies (g # gs) index n s =
     (if index \<ge> n then (s, Inl (Panic ''index out of range''))
      else case AliasPieces_Scan (seg_AliasPieces g) of
        Inl e \<Rightarrow> (s, Inl (MetaError ''failed to scan segments''))
      | Inr aps \<Rightarrow>
          (case store_ConvertAliases aps s of
             (s', Inl e) \<Rightarrow> (s', Inl (MetaError ''failed to convert aliases to pieces''))
           | (s', Inr pieces) \<Rightarrow> fill_copies gs (Suc index) n s'))"

definition check_copies :: "uuid \<Rightarrow> (Segment \<times> Pieces) list \<Rightarrow> store \<Rightarrow> store \<times> unit meta_res" where
  "check_copies stream segs s =
     (let found = filter (\<lambda>(g, ps). PiecesInAncestorSegment g ps) segs in
      if found = [] then (s, Inr ())
      else case fill_copies (ancestor_rows stream (map (seg_Position \<circ> fst) found) s) 0 (length found) s of
        (s', Inl e) \<Rightarrow> (s', Inl e)
      | (s', Inr index) \<Rightarrow>
          if index \<noteq> length found
          then (s', Inl (MetaError ''number of ancestor segments is different than copies''))
          else (s', Inr ()))"

definition ListSegments :: "config \<Rightarrow> ListSegmentsOpts \<Rightarrow> store \<Rightarrow> store \<times> ListSegmentsResult meta_res" where
  "ListSegments cfg opts s =
     (if ls_StreamID opts = 0 then (s, Inl (ErrInvalidRequest ''StreamID missing''))
      else if ls_Limit opts < 0 then (s, Inl (ErrInvalidRequest ''Invalid limit''))
      else let limit = ensure_range ListLimit (ls_Limit opts) in
        (case scan_listed (take (nat (limit + 1)) (listed_segments (ls_StreamID opts) (ls_Cursor opts) s)) s of
           (s1, Inl e) \<Rightarrow> (s1, Inl e)
         | (s1, Inr segs) \<Rightarrow>
             (case (if ServerSideCopy cfg then check_copies (ls_StreamID opts) segs s1 else (s1, Inr ())) of
                (s2, Inl e) \<Rightarrow> (s2, Inl e)
              | (s2, Inr _) \<Rightarrow>
                  if int (length segs) > limit
                  then (s2, Inr \<lparr>sr_Segments = take (length segs - 1) segs, sr_More = True\<rparr>)
                  else (s2, Inr \<lparr>sr_Segments = segs, sr_More = False\<rparr>))))"

subsection \<open>ListStreamPositions\<close>

record StreamRange =
  PlainStart :: int
  PlainLimit :: int

record ListStreamPositionsOpts =
  lp_StreamID :: uuid
  lp_Cursor :: SegmentPosition
  lp_Limit :: int
  lp_Range :: "StreamRange option"

record SegmentPositionInfo =
  spi_Position :: SegmentPosition
  spi_PlainSize :: int
  spi_PlainOffset :: int
  spi_CreatedAt :: time
  spi_EncryptedETag :: "byte list option"
  spi_EncryptedKeyNonce :: "byte list"
  spi_EncryptedKey :: "byte list"

record ListStreamPositionsResult =
  pr_Segments :: "SegmentPositionInfo list"
  pr_More :: bool

definition position_info :: "Segment \<Rightarrow> SegmentPositionInfo" where
  "position_info g = \<lparr>spi_Position = seg_Position g, spi_PlainSize = seg_PlainSize g,
     spi_PlainOffset = seg_PlainOffset g, spi_CreatedAt = seg_CreatedAt g,
     spi_EncryptedETag = seg_EncryptedETag g, spi_EncryptedKeyNonce = seg_EncryptedKeyNonce g,
     spi_EncryptedKey = seg_EncryptedKey g\<rparr>"

definition in_range :: "StreamRange option \<Rightarrow> Segment \<Rightarrow> bool" where
  "in_range rng g \<longleftrightarrow>
     (case rng of
        None \<Rightarrow> True
      | Some r \<Rightarrow> PlainStart r < seg_PlainOffset g + seg_PlainSize g \<and> seg_PlainOffset g < PlainLimit r)"

definition ListStreamPositions ::
  "ListStreamPositionsOpts \<Rightarrow> store \<Rightarrow> ListStreamPositionsResult meta_res" where
  "ListStreamPositions opts s =
     (if lp_StreamID opts = 0 then Inl (ErrInvalidRequest ''StreamID missing'')
      else if lp_Limit opts < 0 then Inl (ErrInvalidRequest ''Invalid limit'')
      else let limit = ensure_range ListLimit (lp_Limit opts) in
        if (case lp_Range opts of None \<Rightarrow> False | Some r \<Rightarrow> PlainStart r > PlainLimit r)
        then Inl (ErrInvalidRequest ''invalid range'')
        else let rows = take (nat (limit + 1)) (order_by_position (filter
                 (\<lambda>g. seg_StreamID g = lp_StreamID opts \<and> after_position (lp_Cursor opts) (seg_Position g) \<and>
                    in_range (lp_Range opts) g) (segments s)));
               segs = map position_info rows
          in if int (length segs) > limit
             then Inr \<lparr>pr_Segments = take (length segs - 1) segs, pr_More = True\<rparr>
             else Inr \<lparr>pr_Segments = segs, pr_More = False\<rparr>)"

subsection \<open>Listing for verification\<close>

record ListVerifySegmentsOpts =
  lv_CursorStreamID :: uuid
  lv_CursorPosition :: SegmentPosition
  lv_StreamIDs :: "uuid list"
  lv_Limit :: int

record VerifySegment =
  vs_StreamID :: uuid
  vs_Position :: SegmentPosition
  vs_CreatedAt :: time
  vs_RepairedAt :: "time option"
  vs_RootPieceID :: piece_id
  vs_Redundancy :: "64 word"
  vs_AliasPieces :: AliasPieces

definition ListVerifyLimit :: int where "ListVerifyLimit = 100000"

definition verify_rows :: "ListVerifySegmentsOpts \<Rightarrow> store \<Rightarrow> Segment list" where
  "verify_rows opts s =
     sort_key (\<lambda>g. (seg_StreamID g, position_column (seg_Position g)))
       (filter (\<lambda>g. (lv_StreamIDs opts = [] \<or> seg_StreamID g \<in> set (lv_StreamIDs opts)) \<and>
          (seg_StreamID g, position_column (seg_Position g)) >
            (lv_CursorStreamID opts, position_column (lv_CursorPosition opts)) \<and>
          seg_InlineData g = None \<and> seg_AliasPieces g \<noteq> None) (segments s))"

fun scan_verify :: "Segment list \<Rightarrow> VerifySegment list meta_res" where
  "scan_verify [] = Inr []"
| "scan_verify (g # gs) =
     (case AliasPieces_Scan (seg_AliasPieces g) of
        Inl e \<Rightarrow> Inl e
      | Inr aps \<Rightarrow> res_bind (scan_verify gs) (\<lambda>rest. Inr (
          \<lparr>vs_StreamID = seg_StreamID g, vs_Position = seg_Position g, vs_CreatedAt = seg_CreatedAt g,
           vs_RepairedAt = seg_RepairedAt g, vs_RootPieceID = seg_RootPieceID g,
           vs_Redundancy = seg_Redundancy g, vs_AliasPieces = aps\<rparr> # rest)))"

text \<open>The tables are those as of the system time asked for.\<close>

definition ListVerifySegments :: "ListVerifySegmentsOpts \<Rightarrow> store \<Rightarrow> VerifySegment list meta_res" where
  "ListVerifySegments opts s =
     (if lv_Limit opts \<le> 0 then Inl (ErrInvalidRequest ''invalid limit'')
      else scan_verify (take (nat (ensure_range ListVerifyLimit (lv_Limit opts))) (verify_rows opts s)))"

record ListBucketsStreamIDsOpts =
  lb_Buckets :: "BucketLocation list"
  lb_CursorBucket :: BucketLocation
  lb_CursorStreamID :: uuid
  lb_Limit :: int

record ListBucketsStreamIDsResult =
  br_StreamIDs :: "uuid list"
  br_Counts :: "int list"
  br_LastBucket :: BucketLocation

definition ListVerifyBucketList_Add :: "BucketLocation list \<Rightarrow> uuid \<Rightarrow> string \<Rightarrow> BucketLocation list" where
  "ListVerifyBucketList_Add buckets projectID bucketName =
     buckets @ [\<lparr>ProjectID = projectID, BucketName = bucketName\<rparr>]"

definition bucket_streams :: "ListBucketsStreamIDsOpts \<Rightarrow> store \<Rightarrow> (uuid \<times> string \<times> uuid \<times> int) list" where
  "bucket_streams opts s =
     sort_key (\<lambda>(p, b, st, n). (p, b, st)) (remdups
       (map (\<lambda>r. (ProjectID r, BucketName r, StreamID r, SegmentCount r)) (filter
          (\<lambda>r. (ProjectID r, BucketName r, StreamID r) >
             (ProjectID (lb_CursorBucket opts), BucketName (lb_CursorBucket opts), lb_CursorStreamID opts) \<and>
             (ProjectID r, BucketName r) \<in> (\<lambda>b. (ProjectID b, BucketName b)) ` set (lb_Buckets opts))
          (objects s))))"

definition add_bucket_stream ::
  "uuid \<times> string \<times> uuid \<times> int \<Rightarrow> ListBucketsStreamIDsResult \<Rightarrow> ListBucketsStreamIDsResult" where
  "add_bucket_stream row res =
     (case row of (p, b, st, n) \<Rightarrow>
        res\<lparr>br_LastBucket := \<lparr>ProjectID = p, BucketName = b\<rparr>,
          br_StreamIDs := br_StreamIDs res @ [st], br_Counts := br_Counts res @ [n]\<rparr>)"

definition ListBucketsStreamIDs ::
  "ListBucketsStreamIDsOpts \<Rightarrow> store \<Rightarrow> ListBucketsStreamIDsResult meta_res" where
  "ListBucketsStreamIDs opts s =
     (if lb_Limit opts \<le> 0 then Inl (ErrInvalidRequest ''invalid limit'')
      else Inr (fold add_bucket_stream
        (take (nat (ensure_range ListVerifyLimit (lb_Limit opts))) (bucket_streams opts s))
        \<lparr>br_StreamIDs = [], br_Counts = [], br_LastBucket = \<lparr>ProjectID = 0, BucketName = []\<rparr>\<rparr>))"

subsection \<open>Counting pieces by node\<close>

text \<open>\<open>countByAlias\<close> as an association list. Go ranges over a map in any order; the model takes
  the order in which the aliases were first counted.\<close>

fun count_alias :: "NodeAlias \<Rightarrow> (NodeAlias \<times> int) list \<Rightarrow> (NodeAlias \<times> int) list" where
  "count_alias a [] = [(a, 1)]"
| "count_alias a ((b, n) # cs) = (if a = b then (b, n + 1) # cs else (b, n) # count_alias a cs)"

fun count_aliases :: "Segment list \<Rightarrow> (NodeAlias \<times> int) list \<Rightarrow> ((NodeAlias \<times> int) list) meta_res" where
  "count_aliases [] counts = Inr counts"
| "count_aliases (g # gs) counts =
     (case AliasPieces_Scan (seg_AliasPieces g) of
        Inl e \<Rightarrow> Inl (MetaError ''unable to fetch object segments'')
      | Inr aps \<Rightarrow> count_aliases gs (fold (count_alias \<circ> Alias) aps counts))"

fun nodes_of_counts ::
  "(NodeAlias \<times> int) list \<Rightarrow> (node_id \<rightharpoonup> int) \<Rightarrow> store \<Rightarrow> store \<times> (node_id \<rightharpoonup> int) meta_res" where
  "nodes_of_counts [] result s = (s, Inr result)"
| "nodes_of_counts ((a, n) # cs) result s =
     (case cache_Nodes DB_ListNodeAliases [a] (alias_db s) (alias_map s) of
        (m, Inl e) \<Rightarrow> (s\<lparr>alias_map := m\<rparr>, Inl (MetaError ''unable to convert aliases to pieces''))
      | (m, Inr nodes) \<Rightarrow>
          (case nodes of
             [] \<Rightarrow> (s\<lparr>alias_map := m\<rparr>, Inl (Panic ''index out of range''))
           | node # _ \<Rightarrow> nodes_of_counts cs (result(node \<mapsto> n)) (s\<lparr>alias_map := m\<rparr>)))"

definition stream_rows :: "uuid \<Rightarrow> store \<Rightarrow> Segment list" where
  "stream_rows stream s = filter (\<lambda>g. seg_AliasPieces g \<noteq> None \<and>
     (seg_StreamID g = stream \<or> (\<exists>c \<in> set (copies s). copy_StreamID c = stream \<and>
        copy_AncestorStreamID c = seg_StreamID g))) (segments s)"

definition GetStreamPieceCountByNodeID :: "uuid \<Rightarrow> store \<Rightarrow> store \<times> (node_id \<rightharpoonup> int) meta_res" where
  "GetStreamPieceCountByNodeID stream s =
     (if stream = 0 then (s, Inl (ErrInvalidRequest ''StreamID missing''))
      else case count_aliases (stream_rows stream s) [] of
        Inl e \<Rightarrow> (s, Inl e)
      | Inr counts \<Rightarrow> nodes_of_counts counts Map.empty s)"

subsection \<open>Table statistics\<close>

text \<open>\<open>SHOW STATISTICS\<close> of the database: the row count it estimates and when, if it has any.\<close>

definition statsUpToDateThreshold :: int where
  "statsUpToDateThreshold = 8 * 60 * 60 * 1000000000"

definition GetTableStats :: "bool \<Rightarrow> (int \<times> time) option \<Rightarrow> time \<Rightarrow> store \<Rightarrow> int" where
  "GetTableStats cockroach statistics now s =
     (case (if cockroach then statistics else None) of
        Some (rowCount, created) \<Rightarrow>
          if created \<noteq> zero_time \<and> statsUpToDateThreshold > now - created then rowCount
          else int (length (segments s))
      | None \<Rightarrow> int (length (segments s)))"

end
