(* ===== verification/MetaSegmentProps.thy ===== *)
theory MetaSegmentProps
  imports MetaPromote MetaSegments
begin

text \<open>
  Listing the segments of a stream page by page: a caller that continues from the last position
  of each page sees every segment of the stream once and in order, and a listing by a range of
  plain offsets covers every byte of the range. A page of one position is the exception.
\<close>

subsection \<open>Pages of positions\<close>

definition wanted_rows :: "ListStreamPositionsOpts \<Rightarrow> store \<Rightarrow> Segment list" where
  "wanted_rows opts s = order_by_position
     (filter (\<lambda>g. seg_StreamID g = lp_StreamID opts \<and> in_range (lp_Range opts) g) (segments s))"

text \<open>A caller that asks for the next page while there is more; the flag says it got to the end.\<close>

fun all_positions ::
  "nat \<Rightarrow> ListStreamPositionsOpts \<Rightarrow> store \<Rightarrow> SegmentPositionInfo list \<times> bool" where
  "all_positions 0 opts s = ([], False)"
| "all_positions (Suc k) opts s =
     (case ListStreamPositions opts s of
        Inl e \<Rightarrow> ([], False)
      | Inr res \<Rightarrow>
          if \<not> pr_More res then (pr_Segments res, True)
          else (case all_positions k
              (opts\<lparr>lp_Cursor := spi_Position (List.last (pr_Segments res))\<rparr>) s of
            (rest, finished) \<Rightarrow> (pr_Segments res @ rest, finished)))"

definition valid_positions_opts :: "ListStreamPositionsOpts \<Rightarrow> bool" where
  "valid_positions_opts opts \<longleftrightarrow> lp_StreamID opts \<noteq> 0 \<and> 0 \<le> lp_Limit opts \<and>
     (case lp_Range opts of None \<Rightarrow> True | Some r \<Rightarrow> PlainStart r \<le> PlainLimit r)"

definition page_size :: "int \<Rightarrow> nat" where
  "page_size limit = nat (ensure_range ListLimit limit)"

lemma page_size_int: "int (page_size limit) = ensure_range ListLimit limit"
  by (simp add: page_size_def ensure_range_def ListLimit_def)

lemma page_size_two: "0 \<le> limit \<Longrightarrow> limit \<noteq> 1 \<Longrightarrow> 2 \<le> page_size limit"
  by (auto simp: page_size_def ensure_range_def ListLimit_def)

lemma strictly_by_position:
  assumes "keys_ok s"
  shows "sorted_wrt (\<lambda>g h. position_column (seg_Position g) < position_column (seg_Position h))
    (order_by_position (filter (\<lambda>g. seg_StreamID g = st \<and> P g) (segments s)))"
proof -
  have "distinct (map (\<lambda>g. position_column (seg_Position g))
      (filter (\<lambda>g. seg_StreamID g = st \<and> P g) (segments s)))"
    using assms by (auto simp: keys_ok_def unique_key_def segment_key_def distinct_map inj_on_def
        position_column_def position_column_inj)
  from sort_key_strict [OF this] show ?thesis
    by (simp add: order_by_position_def position_column_def)
qed

lemma order_filter: "order_by_position (filter P gs) = filter P (order_by_position gs)"
  by (simp add: order_by_position_def filter_sort)

lemma filter_above:
  fixes f :: "'a \<Rightarrow> 'b :: linorder"
  shows "sorted_wrt (\<lambda>x y. f x < f y) xs \<Longrightarrow> j < length xs \<Longrightarrow>
    filter (\<lambda>x. f (xs ! j) < f x) xs = drop (Suc j) xs"
proof (induction xs arbitrary: j)
  case (Cons x xs)
  show ?case
  proof (cases j)
    case 0
    then show ?thesis using Cons.prems by (auto simp: filter_id_conv)
  next
    case (Suc i)
    then have "f x < f (xs ! i)" using Cons.prems by simp
    then have "\<not> f (xs ! i) < f x" by (rule order_less_not_sym)
    moreover have "filter (\<lambda>y. f (xs ! i) < f y) xs = drop (Suc i) xs" using Suc Cons by simp
    ultimately show ?thesis using Suc by simp
  qed
qed simp

text \<open>One page: the first rows after the cursor, and whether there are others.\<close>

lemma ListStreamPositions_page:
  assumes "valid_positions_opts opts"
    and r: "filter (\<lambda>g. after_position (lp_Cursor opts) (seg_Position g)) (wanted_rows opts s) = rows"
  shows "ListStreamPositions opts s = Inr \<lparr>pr_Segments = map position_info (take (page_size (lp_Limit opts)) rows),
    pr_More = (page_size (lp_Limit opts) < length rows)\<rparr>"
proof -
  let ?n = "page_size (lp_Limit opts)"
  have rows: "rows = order_by_position (filter (\<lambda>g. seg_StreamID g = lp_StreamID opts \<and>
      after_position (lp_Cursor opts) (seg_Position g) \<and> in_range (lp_Range opts) g) (segments s))"
    by (simp add: r [symmetric] wanted_rows_def flip: order_filter)
      (auto intro!: arg_cong [where f = order_by_position] filter_cong)
  have lim: "nat (int ?n + 1) = Suc ?n" by simp
  have rng: "\<not> (case lp_Range opts of None \<Rightarrow> False | Some r \<Rightarrow> PlainLimit r < PlainStart r)"
    using assms(1) by (auto simp: valid_positions_opts_def split: option.splits)
  have "lp_StreamID opts \<noteq> 0" "\<not> lp_Limit opts < 0" using assms(1) by (simp_all add: valid_positions_opts_def)
  then show ?thesis
    using rng by (cases "?n < length rows")
      (simp_all add: ListStreamPositions_def Let_def rows [symmetric] page_size_int [symmetric] lim take_map
        del: of_nat_Suc)
qed

lemma pages_from:
  assumes inv: "keys_ok s" and nonneg: "\<forall>g \<in> set (wanted_rows opts s). 0 \<le> position_column (seg_Position g)"
    and two: "2 \<le> page_size (lp_Limit opts)" and v: "valid_positions_opts opts"
    and start: "filter (\<lambda>g. after_position (lp_Cursor opts) (seg_Position g)) (wanted_rows opts s) = drop m (wanted_rows opts s)"
    and k: "length (drop m (wanted_rows opts s)) < k"
  shows "all_positions k opts s = (map position_info (drop m (wanted_rows opts s)), True)"
  using nonneg two v start k
proof (induction k arbitrary: opts m)
  case (Suc k)
  let ?n = "page_size (lp_Limit opts)" and ?rows = "wanted_rows opts s"
  note page = ListStreamPositions_page [OF Suc.prems(3) Suc.prems(4)]
  show ?case
  proof (cases "?n < length (drop m ?rows)")
    case False
    then show ?thesis using page by (simp add: take_map)
  next
    case True
    define j where "j = m + ?n - 1"
    have j: "0 < j" "j < length ?rows" "Suc j = m + ?n" using True Suc.prems(2) by (auto simp: j_def)
    have "List.last (take ?n (drop m ?rows)) = ?rows ! j"
      using True Suc.prems(2) by (subst last_conv_nth) (auto simp: j_def min_def)
    then have cursor: "spi_Position (List.last (map position_info (take ?n (drop m ?rows)))) = seg_Position (?rows ! j)"
      using True Suc.prems(2) by (subst last_map) (auto simp: position_info_def)
    define opts' where "opts' = opts\<lparr>lp_Cursor := seg_Position (?rows ! j)\<rparr>"
    have sorted: "sorted_wrt (\<lambda>g h. position_column (seg_Position g) < position_column (seg_Position h)) ?rows"
      unfolding wanted_rows_def by (rule strictly_by_position [OF inv])
    then have "position_column (seg_Position (?rows ! 0)) < position_column (seg_Position (?rows ! j))"
      by (rule sorted_wrt_nth_less) (use j in simp_all)
    moreover have "0 \<le> position_column (seg_Position (?rows ! 0))"
      using Suc.prems(1) j by (auto intro!: nth_mem)
    ultimately have "position_column (seg_Position (?rows ! j)) \<noteq> 0" by simp
    then have "filter (\<lambda>g. after_position (seg_Position (?rows ! j)) (seg_Position g)) ?rows = drop (Suc j) ?rows"
      using filter_above [OF sorted j(2)] by (simp add: after_position_def)
    moreover have w: "wanted_rows opts' s = ?rows" by (simp add: wanted_rows_def opts'_def)
    ultimately have rest: "all_positions k opts' s = (map position_info (drop (Suc j) ?rows), True)"
      using Suc.prems Suc.IH [of opts' "Suc j"] j
      by (simp add: opts'_def valid_positions_opts_def w [unfolded opts'_def])
    have "take ?n (drop m ?rows) @ drop (Suc j) ?rows = drop m ?rows"
      using j(3) by (metis add.commute append_take_drop_id drop_drop)
    then show ?thesis
      using page True cursor rest by (simp add: opts'_def flip: map_append)
  qed
qed simp

lemma position_column_nonneg:
  assumes "Part p < 2 ^ 31"
  shows "0 \<le> position_column p"
proof -
  have "\<not> bit (Part p) 31"
  proof
    assume "bit (Part p) 31"
    then have "bit (unat (Part p)) 31" by (simp add: bit_unsigned_iff)
    then have "odd (unat (Part p) div 2 ^ 31)" by (simp only: bit_iff_odd not_False_eq_True)
    moreover have "unat (Part p) < 2 ^ 31" using assms by (simp add: word_less_nat_alt)
    ultimately show False by simp
  qed
  then have "\<not> bit (SegmentPosition_Encode p) 63"
    by (auto simp: SegmentPosition_Encode_def bit_simps dest: bit_imp_le_length)
  then show ?thesis
    using bit_last_iff [of "SegmentPosition_Encode p"] by (simp add: position_column_def not_less)
qed

lemma positions_by_pages:
  assumes "reachable cfg s" and "valid_positions_opts opts" and "lp_Limit opts \<noteq> 1"
    and "lp_Cursor opts = \<lparr>Part = 0, Index = 0\<rparr>"
    and "\<forall>g \<in> set (segments s). seg_StreamID g = lp_StreamID opts \<longrightarrow> Part (seg_Position g) < 2 ^ 31"
    and "length (filter (\<lambda>g. seg_StreamID g = lp_StreamID opts \<and> in_range (lp_Range opts) g) (segments s)) < k"
  shows "\<exists>rows. all_positions k opts s = (map position_info rows, True) \<and>
    set rows = {g \<in> set (segments s). seg_StreamID g = lp_StreamID opts \<and> in_range (lp_Range opts) g} \<and>
    sorted_wrt (\<lambda>g h. position_column (seg_Position g) < position_column (seg_Position h)) rows"
proof -
  have inv: "keys_ok s" using reachable_inv [OF assms(1)] by (simp add: store_inv_def)
  have "\<forall>g \<in> set (wanted_rows opts s). 0 \<le> position_column (seg_Position g)"
    using assms(5) by (auto simp: wanted_rows_def intro: position_column_nonneg)
  moreover have "2 \<le> page_size (lp_Limit opts)"
    using assms(2,3) by (intro page_size_two) (simp_all add: valid_positions_opts_def)
  moreover have "position_column (lp_Cursor opts) = 0" unfolding assms(4) by code_simp
  ultimately have "all_positions k opts s = (map position_info (wanted_rows opts s), True)"
    using pages_from [OF inv, of opts 0 k] assms(2,6) by (simp add: after_position_def wanted_rows_def)
  moreover have "set (wanted_rows opts s) =
      {g \<in> set (segments s). seg_StreamID g = lp_StreamID opts \<and> in_range (lp_Range opts) g}"
    by (auto simp: wanted_rows_def)
  ultimately show ?thesis
    using strictly_by_position [OF inv, of "lp_StreamID opts" "in_range (lp_Range opts)"]
    by (auto simp flip: wanted_rows_def)
qed

text \<open>
  Lemma. The cursor at position 0 of part 0 stands for no cursor, so a caller that asks for one
  position at a time is given the first segment of the stream again and again and never gets
  past it.
\<close>

theorem single_position_pages_stuck:
  assumes "reachable cfg s" and "valid_positions_opts opts" and "lp_Limit opts = 1"
    and "lp_Cursor opts = \<lparr>Part = 0, Index = 0\<rparr>"
    and "\<forall>x \<in> set (segments s). seg_StreamID x = lp_StreamID opts \<longrightarrow> Part (seg_Position x) < 2 ^ 31"
    and "g \<in> set (segments s)" "seg_StreamID g = lp_StreamID opts" "in_range (lp_Range opts) g"
    and "seg_Position g = \<lparr>Part = 0, Index = 0\<rparr>"
    and "h \<in> set (segments s)" "seg_StreamID h = lp_StreamID opts" "in_range (lp_Range opts) h" "h \<noteq> g"
  shows "all_positions k opts s = (replicate k (position_info g), False)"
proof -
  let ?rows = "wanted_rows opts s"
  have inv: "keys_ok s" using reachable_inv [OF assms(1)] by (simp add: store_inv_def)
  have sorted: "sorted_wrt (\<lambda>g h. position_column (seg_Position g) < position_column (seg_Position h)) ?rows"
    unfolding wanted_rows_def by (rule strictly_by_position [OF inv])
  have mem: "g \<in> set ?rows" "h \<in> set ?rows" using assms by (simp_all add: wanted_rows_def)
  have zero: "position_column \<lparr>Part = 0, Index = 0\<rparr> = 0" by code_simp
  have nonneg: "\<forall>x \<in> set ?rows. 0 \<le> position_column (seg_Position x)"
    using assms(5) by (auto simp: wanted_rows_def intro: position_column_nonneg)
  obtain x rest where rows: "?rows = x # rest" using mem by (cases ?rows) auto
  have "x = g"
  proof (rule ccontr)
    assume "x \<noteq> g"
    then have "position_column (seg_Position x) < 0" using sorted mem(1) rows assms(9) zero by auto
    then show False using nonneg by (simp add: rows)
  qed
  then have "rest \<noteq> []" using mem(2) assms(13) rows by auto
  have one: "page_size (lp_Limit opts) = 1" by (simp add: assms(3) page_size_def ensure_range_def ListLimit_def)
  have all: "filter (\<lambda>x. after_position (lp_Cursor opts) (seg_Position x)) ?rows = ?rows"
    by (simp add: assms(4) after_position_def zero)
  have page: "ListStreamPositions opts s = Inr \<lparr>pr_Segments = [position_info g], pr_More = True\<rparr>"
    using ListStreamPositions_page [OF assms(2) all] \<open>rest \<noteq> []\<close> \<open>x = g\<close> by (simp add: one rows)
  have same: "opts\<lparr>lp_Cursor := spi_Position (position_info g)\<rparr> = opts"
    using assms(4,9) by (simp add: position_info_def)
  show ?thesis by (induction k) (simp_all add: page same)
qed

text \<open>
  Property C35. A caller of \<open>ListStreamPositions\<close> that continues from the last position of each page gets,
  for every limit other than one, each segment of the stream in the range once, in ascending order
  of position, and gets to the end. With a limit of one, which a request may ask for, it does not: when the
  first segment is at position 0 of part 0, as in every stream that is not uploaded in parts, and there is
  another, it gets the first one again with every page. Part numbers are below 2^31, as the column is
  signed.
\<close>

theorem position_pages_complete:
  assumes "reachable cfg s" and "valid_positions_opts opts"
    and "lp_Cursor opts = \<lparr>Part = 0, Index = 0\<rparr>"
    and "\<forall>g \<in> set (segments s). seg_StreamID g = lp_StreamID opts \<longrightarrow> Part (seg_Position g) < 2 ^ 31"
    and "length (filter (\<lambda>g. seg_StreamID g = lp_StreamID opts \<and> in_range (lp_Range opts) g) (segments s)) < k"
  defines "wanted \<equiv> {g \<in> set (segments s). seg_StreamID g = lp_StreamID opts \<and> in_range (lp_Range opts) g}"
  shows "(lp_Limit opts \<noteq> 1 \<longrightarrow> (\<exists>rows. all_positions k opts s = (map position_info rows, True) \<and> set rows = wanted \<and>
      sorted_wrt (\<lambda>g h. position_column (seg_Position g) < position_column (seg_Position h)) rows)) \<and>
    (lp_Limit opts = 1 \<longrightarrow> (\<forall>g \<in> wanted. \<forall>h \<in> wanted. seg_Position g = \<lparr>Part = 0, Index = 0\<rparr> \<and> h \<noteq> g \<longrightarrow>
      (\<forall>pages. all_positions pages opts s = (replicate pages (position_info g), False))))"
proof (intro conjI impI ballI allI; (elim conjE)?)
  assume "lp_Limit opts \<noteq> 1"
  then show "\<exists>rows. all_positions k opts s = (map position_info rows, True) \<and> set rows = wanted \<and>
      sorted_wrt (\<lambda>g h. position_column (seg_Position g) < position_column (seg_Position h)) rows"
    unfolding wanted_def using positions_by_pages [OF assms(1,2) _ assms(3-5)] by blast
next
  fix g h pages
  assume "lp_Limit opts = 1" "g \<in> wanted" "h \<in> wanted" "seg_Position g = \<lparr>Part = 0, Index = 0\<rparr>" "h \<noteq> g"
  then show "all_positions pages opts s = (replicate pages (position_info g), False)"
    unfolding wanted_def using single_position_pages_stuck [OF assms(1,2) _ assms(3,4), of g h pages] by blast
qed

subsection \<open>Ranges\<close>

lemma prefix_find:
  "\<forall>z \<in> set zs. 0 \<le> z \<Longrightarrow> 0 \<le> x \<Longrightarrow> x < sum_list zs \<Longrightarrow>
    \<exists>i < length zs. sum_list (take i zs) \<le> x \<and> x < sum_list (take i zs) + (zs ! i :: int)"
proof (induction zs arbitrary: x)
  case (Cons z zs)
  show ?case
  proof (cases "x < z")
    case True
    then show ?thesis using Cons.prems(2) by (intro exI [of _ 0]) simp
  next
    case False
    then obtain i where "i < length zs" "sum_list (take i zs) \<le> x - z" "x - z < sum_list (take i zs) + zs ! i"
      using Cons.IH [of "x - z"] Cons.prems by auto
    then show ?thesis by (intro exI [of _ "Suc i"]) simp
  qed
qed simp

lemma prefix_mono:
  assumes "\<forall>z \<in> set zs. 0 \<le> (z :: int)" "i < j" "j < length zs"
  shows "sum_list (take i zs) + zs ! i \<le> sum_list (take j zs)"
proof -
  have "take j zs = take (Suc i) zs @ take (j - Suc i) (drop (Suc i) zs)"
    using assms(2) by (metis Suc_leI le_add_diff_inverse take_add)
  moreover have "0 \<le> sum_list (take (j - Suc i) (drop (Suc i) zs))"
    using assms(1) by (intro sum_list_nonneg) (auto dest!: in_set_takeD in_set_dropD)
  moreover have "sum_list (take (Suc i) zs) = sum_list (take i zs) + zs ! i"
    using assms(2,3) by (simp add: take_Suc_conv_app_nth)
  ultimately show ?thesis by simp
qed

lemma prefix_total:
  assumes "\<forall>z \<in> set zs. 0 \<le> (z :: int)"
  shows "0 \<le> sum_list (take i zs) \<and> sum_list (take i zs) \<le> sum_list zs"
proof -
  have "sum_list zs = sum_list (take i zs) + sum_list (drop i zs)"
    by (metis append_take_drop_id sum_list_append)
  moreover have "0 \<le> sum_list (drop i zs)" "0 \<le> sum_list (take i zs)"
    using assms by (auto intro!: sum_list_nonneg dest!: in_set_takeD in_set_dropD)
  ultimately show ?thesis by simp
qed

definition covers :: "SegmentPositionInfo \<Rightarrow> int \<Rightarrow> bool" where
  "covers p x \<longleftrightarrow> spi_PlainOffset p \<le> x \<and> x < spi_PlainOffset p + spi_PlainSize p"

text \<open>The segment of a committed object that holds byte \<open>x\<close>.\<close>

lemma byte_in_one_segment:
  assumes inv: "store_inv s" and r: "r \<in> set (objects s)" "Status r = Committed"
    and sizes: "\<forall>g \<in> set (segments s). seg_StreamID g = StreamID r \<longrightarrow> 0 \<le> seg_PlainSize g"
    and sum: "sum_list (map seg_PlainSize (filter (\<lambda>g. seg_StreamID g = StreamID r) (segments s))) < 2 ^ 63"
    and x: "0 \<le> x" "x < TotalPlainSize r"
  shows "\<exists>g. \<forall>h. h \<in> set (segments s) \<and> seg_StreamID h = StreamID r \<and> covers (position_info h) x \<longleftrightarrow> h = g"
proof -
  define gs where "gs = order_by_position (filter (\<lambda>g. seg_StreamID g = StreamID r) (segments s))"
  define zs where "zs = map seg_PlainSize gs"
  note c = committed_segments [OF inv r gs_def]
  have z: "\<forall>z \<in> set zs. 0 \<le> z" using sizes by (auto simp: zs_def gs_def)
  have total: "sum_list zs < 2 ^ 63"
  proof -
    have "mset gs = mset (filter (\<lambda>g. seg_StreamID g = StreamID r) (segments s))"
      by (simp add: gs_def order_by_position_def)
    then have "mset zs = mset (map seg_PlainSize (filter (\<lambda>g. seg_StreamID g = StreamID r) (segments s)))"
      by (simp add: zs_def)
    then have "sum_list zs = sum_list (map seg_PlainSize (filter (\<lambda>g. seg_StreamID g = StreamID r) (segments s)))"
      by (metis sum_mset_sum_list)
    then show ?thesis using sum by simp
  qed
  have off: "i < length gs \<Longrightarrow> seg_PlainOffset (gs ! i) = sum_list (take i zs)" for i
    using c prefix_total [OF z, of i] total by (simp add: zs_def wrap64_id take_map)
  have sz: "i < length gs \<Longrightarrow> seg_PlainSize (gs ! i) = zs ! i" for i by (simp add: zs_def)
  have "TotalPlainSize r = sum_list zs"
    using c prefix_total [OF z, of 0] total by (simp add: zs_def wrap64_id)
  then obtain i where i: "i < length gs" "sum_list (take i zs) \<le> x" "x < sum_list (take i zs) + zs ! i"
    using prefix_find [OF z x(1)] x(2) by (auto simp: zs_def)
  have "j = i" if j: "j < length gs" "sum_list (take j zs) \<le> x" "x < sum_list (take j zs) + zs ! j" for j
  proof (rule ccontr)
    assume "j \<noteq> i"
    then consider "i < j" | "j < i" by linarith
    then show False
      using prefix_mono [OF z, of i j] prefix_mono [OF z, of j i] i j by cases (simp_all add: zs_def)
  qed
  then have only: "j = i" if "j < length gs" "covers (position_info (gs ! j)) x" for j
    using that off sz by (simp add: covers_def position_info_def)
  have "covers (position_info (gs ! i)) x" using i off sz by (simp add: covers_def position_info_def)
  moreover have "gs ! i \<in> set (segments s)" "seg_StreamID (gs ! i) = StreamID r"
    using nth_mem [OF i(1)] by (auto simp: gs_def)
  moreover have "h = gs ! i"
    if "h \<in> set (segments s)" "seg_StreamID h = StreamID r" "covers (position_info h) x" for h
  proof -
    have "h \<in> set gs" using that by (simp add: gs_def)
    then obtain j where "j < length gs" "h = gs ! j" by (auto simp: in_set_conv_nth)
    then show ?thesis using only that(3) by blast
  qed
  ultimately show ?thesis by blast
qed

text \<open>
  Lemma. Listing the positions of a committed object by a range of plain offsets covers the
  range: for every byte of the object within the range, exactly one of the listed segments
  holds it. The plain sizes are not negative and their sum does not exceed the 64-bit column.
\<close>

theorem range_listing_covers:
  assumes "reachable cfg s" and "r \<in> set (objects s)" "Status r = Committed"
    and "valid_positions_opts opts" and "lp_Limit opts \<noteq> 1"
    and "lp_Cursor opts = \<lparr>Part = 0, Index = 0\<rparr>" "lp_StreamID opts = StreamID r"
    and "lp_Range opts = Some \<lparr>PlainStart = a, PlainLimit = b\<rparr>"
    and "\<forall>g \<in> set (segments s). seg_StreamID g = StreamID r \<longrightarrow>
      Part (seg_Position g) < 2 ^ 31 \<and> 0 \<le> seg_PlainSize g"
    and "sum_list (map seg_PlainSize (filter (\<lambda>g. seg_StreamID g = StreamID r) (segments s))) < 2 ^ 63"
    and "0 \<le> x" "x < TotalPlainSize r" "a \<le> x" "x < b" and "length (segments s) < k"
  shows "\<exists>ps. all_positions k opts s = (ps, True) \<and> (\<exists>p. \<forall>q. q \<in> set ps \<and> covers q x \<longleftrightarrow> q = p)"
proof -
  have inv: "store_inv s" by (rule reachable_inv [OF assms(1)])
  have "\<forall>g \<in> set (wanted_rows opts s). 0 \<le> position_column (seg_Position g)"
    using assms(7,9) by (auto simp: wanted_rows_def intro: position_column_nonneg)
  moreover have "2 \<le> page_size (lp_Limit opts)"
    using assms(4,5) by (intro page_size_two) (simp_all add: valid_positions_opts_def)
  moreover have "position_column (lp_Cursor opts) = 0" unfolding assms(6) by code_simp
  moreover have "length (wanted_rows opts s) < k"
    by (simp add: wanted_rows_def le_less_trans [OF length_filter_le assms(15)])
  ultimately have all: "all_positions k opts s = (map position_info (wanted_rows opts s), True)"
    using pages_from [of s opts 0 k] assms(4) inv by (simp add: after_position_def store_inv_def)
  have "\<forall>g \<in> set (segments s). seg_StreamID g = StreamID r \<longrightarrow> 0 \<le> seg_PlainSize g" using assms(9) by blast
  from byte_in_one_segment [OF inv assms(2,3) this assms(10-12)] obtain g where
    g: "\<And>h. h \<in> set (segments s) \<and> seg_StreamID h = StreamID r \<and> covers (position_info h) x \<longleftrightarrow> h = g" by blast
  have "h \<in> set (wanted_rows opts s) \<longleftrightarrow> h \<in> set (segments s) \<and> seg_StreamID h = StreamID r"
    if "covers (position_info h) x" for h
    using that assms(7,8,13,14)
    by (auto simp: wanted_rows_def in_range_def covers_def position_info_def)
  then have "h \<in> set (wanted_rows opts s) \<and> covers (position_info h) x \<longleftrightarrow> h = g" for h using g by blast
  then have "q \<in> set (map position_info (wanted_rows opts s)) \<and> covers q x \<longleftrightarrow> q = position_info g" for q
    by auto metis+
  then show ?thesis using all by blast
qed

subsection \<open>Segments and their pieces\<close>

lemma scan_listed_result:
  "alias_ok s \<Longrightarrow> scan_listed gs s = (s', r) \<Longrightarrow>
    alias_ok s' \<and> same_tables s s' \<and> alias_db s' = alias_db s \<and>
    (\<forall>segs. r = Inr segs \<longrightarrow> map fst segs = map unselected gs \<and>
       list_all2 (\<lambda>g x. column_pieces (table_entries (alias_db s)) (seg_AliasPieces g) (snd x)) gs segs)"
proof (induction gs arbitrary: s r)
  case Nil
  then show ?case by auto
next
  case (Cons g gs)
  show ?case
  proof (cases "AliasPieces_Scan (seg_AliasPieces g)")
    case (Inl e)
    then show ?thesis using Cons.prems by auto
  next
    case (Inr aps)
    obtain s1 r1 where c: "store_ConvertAliases aps s = (s1, r1)" by fastforce
    note ok1 = Convert_any [OF Cons.prems(1) c]
    show ?thesis
    proof (cases r1)
      case (Inl e)
      then show ?thesis using Cons.prems(2) Inr c ok1 by auto
    next
      case (Inr ps)
      obtain r2 where rest: "scan_listed gs s1 = (s', r2)"
        using Cons.prems(2) \<open>AliasPieces_Scan _ = _\<close> c Inr by (cases "scan_listed gs s1") (auto split: sum.splits)
      have "alias_ok s1" using ok1 by blast
      note ih = Cons.IH [OF this rest]
      have "column_pieces (table_entries (alias_db s)) (seg_AliasPieces g) ps"
        using ok1 Inr \<open>AliasPieces_Scan _ = _\<close> by (auto simp: column_pieces_def)
      then show ?thesis
        using Cons.prems(2) \<open>AliasPieces_Scan _ = _\<close> c Inr rest ih ok1 same_tables_trans [of s s1 s']
        by (auto split: sum.splits)
    qed
  qed
qed

lemma scan_listed_total:
  "alias_ok s \<Longrightarrow> list_all2 (\<lambda>g ps. column_pieces (table_entries (alias_db s)) (seg_AliasPieces g) ps) gs pss \<Longrightarrow>
    \<exists>s'. scan_listed gs s = (s', Inr (zip (map unselected gs) pss))"
proof (induction gs arbitrary: s pss)
  case Nil
  then show ?case by auto
next
  case (Cons g gs)
  then obtain ps qss where pss: "pss = ps # qss" "column_pieces (table_entries (alias_db s)) (seg_AliasPieces g) ps"
    "list_all2 (\<lambda>g ps. column_pieces (table_entries (alias_db s)) (seg_AliasPieces g) ps) gs qss"
    by (auto simp: list_all2_Cons1)
  then obtain aps where aps: "AliasPieces_Scan (seg_AliasPieces g) = Inr aps" "converts (table_entries (alias_db s)) aps ps"
    by (auto simp: column_pieces_def)
  from Convert_complete [OF Cons.prems(1) aps(2)] obtain s1 where c: "store_ConvertAliases aps s = (s1, Inr ps)" by blast
  then have ok: "alias_ok s1" "alias_db s1 = alias_db s" using Convert_any [OF Cons.prems(1) c] by simp_all
  from Cons.IH [OF ok(1)] pss(3) ok(2) obtain s2 where "scan_listed gs s1 = (s2, Inr (zip (map unselected gs) qss))"
    by auto
  then show ?case using aps(1) c by (simp add: pss(1))
qed

lemma fill_copies_result:
  "alias_ok s \<Longrightarrow> fill_copies gs i n s = (s', r) \<Longrightarrow> alias_ok s' \<and> same_tables s s' \<and> alias_db s' = alias_db s"
proof (induction gs i n s arbitrary: s' r rule: fill_copies.induct)
  case (2 g gs index n s)
  show ?case
  proof (cases "index < n")
    case False
    then show ?thesis using 2 by auto
  next
    case True
    show ?thesis
    proof (cases "AliasPieces_Scan (seg_AliasPieces g)")
      case (Inl e)
      then show ?thesis using 2 True by auto
    next
      case (Inr aps)
      obtain s1 r1 where c: "store_ConvertAliases aps s = (s1, r1)" by fastforce
      note ok1 = Convert_any [OF 2(2) c]
      show ?thesis
      proof (cases r1)
        case (Inl e)
        then show ?thesis using 2(3) Inr True \<open>AliasPieces_Scan _ = _\<close> c ok1 by auto
      next
        case (Inr ps)
        have "fill_copies gs (Suc index) n s1 = (s', r)" using 2(3) Inr True \<open>AliasPieces_Scan _ = _\<close> c by auto
        then show ?thesis
          using 2(1) [of aps s1 "Inr ps" ps] True \<open>AliasPieces_Scan _ = _\<close> c Inr ok1 same_tables_trans [of s s1 s'] by auto
      qed
    qed
  qed
qed auto

lemma check_copies_result:
  assumes "alias_ok s" "check_copies st segs s = (s', r)"
  shows "alias_ok s' \<and> same_tables s s' \<and> alias_db s' = alias_db s"
  using assms fill_copies_result [OF assms(1)]
  by (auto simp: check_copies_def Let_def split: if_splits prod.splits sum.splits)

lemma in_ancestor_unselected [simp]:
  "PiecesInAncestorSegment (unselected g) ps \<longleftrightarrow> remote g \<and> ps = []"
  by (auto simp: PiecesInAncestorSegment_def unselected_def remote_def)

lemma scan_listed_length: "scan_listed gs s = (s', Inr segs) \<Longrightarrow> length segs = length gs"
  by (induction gs arbitrary: s segs) (auto split: sum.splits prod.splits)

definition first_page :: "nat \<Rightarrow> (Segment \<times> Pieces) list \<Rightarrow> ListSegmentsResult" where
  "first_page n segs = \<lparr>sr_Segments = take n segs, sr_More = (n < length segs)\<rparr>"

lemma ListSegments_unfold:
  assumes "ls_StreamID opts \<noteq> 0" "0 \<le> ls_Limit opts"
  shows "ListSegments cfg opts s =
    (case scan_listed (take (Suc (page_size (ls_Limit opts))) (listed_segments (ls_StreamID opts) (ls_Cursor opts) s)) s of
       (s1, Inl e) \<Rightarrow> (s1, Inl e)
     | (s1, Inr segs) \<Rightarrow>
         (case (if ServerSideCopy cfg then check_copies (ls_StreamID opts) segs s1 else (s1, Inr ())) of
            (s2, Inl e) \<Rightarrow> (s2, Inl e)
          | (s2, Inr _) \<Rightarrow> (s2, Inr (first_page (page_size (ls_Limit opts)) segs))))"
proof -
  let ?n = "page_size (ls_Limit opts)"
  have lim: "nat (int ?n + 1) = Suc ?n" by simp
  obtain s1 r where scan: "scan_listed (take (Suc ?n) (listed_segments (ls_StreamID opts) (ls_Cursor opts) s)) s = (s1, r)"
    by fastforce
  show ?thesis
  proof (cases r)
    case (Inl e)
    then show ?thesis using assms scan
      by (simp add: ListSegments_def Let_def lim del: of_nat_Suc flip: page_size_int)
  next
    case (Inr segs)
    have "\<lparr>sr_Segments = take (length segs - 1) segs, sr_More = True\<rparr> = first_page ?n segs" if "?n < length segs"
    proof -
      have "length segs = Suc ?n" using scan_listed_length [OF scan [unfolded Inr]] that by auto
      then show ?thesis by (simp add: first_page_def)
    qed
    moreover have "\<lparr>sr_Segments = segs, sr_More = False\<rparr> = first_page ?n segs" if "\<not> ?n < length segs"
      using that by (simp add: first_page_def)
    ultimately show ?thesis using assms scan Inr
      by (auto simp: ListSegments_def Let_def lim simp del: of_nat_Suc simp flip: page_size_int split: prod.split sum.split)
  qed
qed

lemma ListSegments_listed:
  assumes "alias_ok s" "ListSegments cfg opts s = (s', Inr res)"
  defines "rows \<equiv> take (page_size (ls_Limit opts)) (listed_segments (ls_StreamID opts) (ls_Cursor opts) s)"
  shows "map fst (sr_Segments res) = map unselected rows \<and>
    list_all2 (\<lambda>g x. column_pieces (table_entries (alias_db s)) (seg_AliasPieces g) (snd x)) rows (sr_Segments res)"
proof -
  let ?n = "page_size (ls_Limit opts)" and ?all = "listed_segments (ls_StreamID opts) (ls_Cursor opts) s"
  have valid: "ls_StreamID opts \<noteq> 0" "0 \<le> ls_Limit opts"
    using assms(2) by (auto simp: ListSegments_def split: if_splits)
  obtain s1 segs where scan: "scan_listed (take (Suc ?n) ?all) s = (s1, Inr segs)"
    and res: "sr_Segments res = take ?n segs"
    using assms(2) by (auto simp: ListSegments_unfold [OF valid] first_page_def split: prod.splits sum.splits)
  note l = scan_listed_result [OF assms(1) scan]
  then have m: "map fst segs = map unselected (take (Suc ?n) ?all)"
    and cols: "list_all2 (\<lambda>g x. column_pieces (table_entries (alias_db s)) (seg_AliasPieces g) (snd x)) (take (Suc ?n) ?all) segs"
    by auto
  have "take ?n (map fst segs) = take ?n (map unselected (take (Suc ?n) ?all))" by (simp only: m)
  then have "map fst (take ?n segs) = map unselected (take ?n ?all)"
    by (simp add: take_map [symmetric])
  moreover from list_all2_takeI [OF cols, of ?n]
  have "list_all2 (\<lambda>g x. column_pieces (table_entries (alias_db s)) (seg_AliasPieces g) (snd x))
      (take ?n ?all) (take ?n segs)" by simp
  ultimately show ?thesis by (simp add: res rows_def)
qed

text \<open>
  Lemma. When every segment after the cursor has pieces of its own or needs none,
  \<open>ListSegments\<close> returns the first segments after the cursor in ascending order of position, each with the
  pieces its column stands for, says exactly whether there are more, and changes no table.
\<close>

theorem ListSegments_result:
  assumes "reachable cfg s" and "ls_StreamID opts \<noteq> 0" and "0 \<le> ls_Limit opts"
    and "list_all2 (\<lambda>g ps. column_pieces (table_entries (alias_db s)) (seg_AliasPieces g) ps \<and> \<not> (remote g \<and> ps = []))
      (listed_segments (ls_StreamID opts) (ls_Cursor opts) s) pss"
  shows "\<exists>s'. ListSegments cfg opts s = (s', Inr \<lparr>
      sr_Segments = take (page_size (ls_Limit opts))
        (zip (map unselected (listed_segments (ls_StreamID opts) (ls_Cursor opts) s)) pss),
      sr_More = (page_size (ls_Limit opts) < length (listed_segments (ls_StreamID opts) (ls_Cursor opts) s))\<rparr>) \<and>
    same_tables s s'"
proof -
  let ?n = "page_size (ls_Limit opts)" and ?all = "listed_segments (ls_StreamID opts) (ls_Cursor opts) s"
  let ?segs = "zip (map unselected (take (Suc ?n) ?all)) (take (Suc ?n) pss)"
  have ok: "alias_ok s" by (rule reachable_alias_ok [OF assms(1)])
  have part: "list_all2 (\<lambda>g ps. column_pieces (table_entries (alias_db s)) (seg_AliasPieces g) ps \<and>
      \<not> (remote g \<and> ps = [])) (take (Suc ?n) ?all) (take (Suc ?n) pss)"
    using assms(4) by (rule list_all2_takeI)
  then have cols: "list_all2 (\<lambda>g ps. column_pieces (table_entries (alias_db s)) (seg_AliasPieces g) ps)
      (take (Suc ?n) ?all) (take (Suc ?n) pss)"
    by (rule list_all2_mono) simp
  from scan_listed_total [OF ok cols] obtain s1 where
    scan: "scan_listed (take (Suc ?n) ?all) s = (s1, Inr ?segs)" by blast
  have "\<not> PiecesInAncestorSegment (fst x) (snd x)" if "x \<in> set ?segs" for x
  proof -
    obtain i where "i < length ?segs" "x = ?segs ! i" using \<open>x \<in> set ?segs\<close> by (metis in_set_conv_nth)
    then have i: "i < length (take (Suc ?n) ?all)" "fst x = unselected (take (Suc ?n) ?all ! i)"
      "snd x = take (Suc ?n) pss ! i" by simp_all
    show ?thesis using list_all2_nthD [OF part i(1)] i(2,3) by simp
  qed
  then have "filter (\<lambda>(g, ps). PiecesInAncestorSegment g ps) ?segs = []"
    by (auto simp only: filter_empty_conv fst_conv snd_conv)
  then have "check_copies (ls_StreamID opts) ?segs s1 = (s1, Inr ())"
    by (simp only: check_copies_def Let_def simp_thms if_True)
  then have "ListSegments cfg opts s = (s1, Inr (first_page ?n ?segs))"
    by (simp add: ListSegments_unfold [OF assms(2,3)] scan)
  moreover have "length ?all = length pss" using assms(4) by (rule list_all2_lengthD)
  then have "first_page ?n ?segs = \<lparr>sr_Segments = take ?n (zip (map unselected ?all) pss), sr_More = (?n < length ?all)\<rparr>"
    by (auto simp: first_page_def take_zip take_map)
  moreover have "same_tables s s1" using scan_listed_result [OF ok scan] by simp
  ultimately show ?thesis by auto
qed

text \<open>
  Lemma. A copy's segment without pieces of its own reads back with its ancestor's pieces, but
  \<open>ListSegments\<close> returns it without pieces: what it reads from the ancestor goes into a slice it
  does not return.
\<close>

theorem ListSegments_drops_copy_pieces:
  assumes "reachable cfg s" and "g \<in> set (segments s)" and "seg_AliasPieces g = None"
    and "GetSegmentByPosition cfg (seg_StreamID g) (seg_Position g) s = (s1, Inr (h, ps))" and "ps \<noteq> []"
    and "ListSegments cfg opts s = (s2, Inr res)" and "ls_StreamID opts = seg_StreamID g"
    and "(h', qs) \<in> set (sr_Segments res)" and "seg_Position h' = seg_Position g"
  shows "qs = []"
proof -
  let ?rows = "take (page_size (ls_Limit opts)) (listed_segments (ls_StreamID opts) (ls_Cursor opts) s)"
  have inv: "unique_key segment_key (segments s)"
    using reachable_inv [OF assms(1)] by (simp add: store_inv_def keys_ok_def)
  from ListSegments_listed [OF reachable_alias_ok [OF assms(1)] assms(6)]
  have l: "map fst (sr_Segments res) = map unselected ?rows"
    "list_all2 (\<lambda>g x. column_pieces (table_entries (alias_db s)) (seg_AliasPieces g) (snd x)) ?rows (sr_Segments res)"
    by auto
  obtain i where i: "i < length (sr_Segments res)" "sr_Segments res ! i = (h', qs)"
    using assms(8) by (auto simp: in_set_conv_nth)
  have len: "length ?rows = length (sr_Segments res)" using l(2) by (rule list_all2_lengthD)
  have "map fst (sr_Segments res) ! i = map unselected ?rows ! i" using l(1) by simp
  then have "seg_Position (?rows ! i) = seg_Position h'" using i len by (simp add: unselected_def)
  moreover have "?rows ! i \<in> set ?rows" using i(1) len by (intro nth_mem) simp
  then have mem: "?rows ! i \<in> set (segments s)" "seg_StreamID (?rows ! i) = seg_StreamID g"
    using assms(7) by (auto simp: listed_segments_def dest!: in_set_takeD)
  ultimately have "segment_key (?rows ! i) = segment_key g" using assms(9) by (simp add: segment_key_def)
  then have "?rows ! i = g" by (rule unique_keyD [OF inv mem(1) assms(2)])
  moreover have "column_pieces (table_entries (alias_db s)) (seg_AliasPieces (?rows ! i)) qs"
    using list_all2_nthD2 [OF l(2) i(1)] i(2) by simp
  ultimately show ?thesis using assms(3) by simp
qed

text \<open>An object of two inline segments of three bytes each.\<close>

definition ex_second :: CommitInlineSegmentOpts where
  "ex_second = (ex_inline (ex_stream 1 5))\<lparr>ci_Position := \<lparr>Part = 0, Index = 1\<rparr>\<rparr>"

definition ex_two_written :: store where
  "ex_two_written = fst (CommitInlineSegment 12 ex_second ex_written)"

definition ex_two :: store where
  "ex_two = fst (CommitObject ex_cfg (ex_commit (ex_stream 1 5)) ex_two_written)"

lemma ex_two_reachable: "reachable ex_cfg ex_two"
proof -
  have "reachable ex_cfg ex_two_written"
    unfolding ex_two_written_def by (rule reachable_step [OF ex_reachable(2) single [OF commit_inline]])
  then show ?thesis unfolding ex_two_def by (rule reachable_step [OF _ single [OF commit_object]])
qed

definition ex_positions :: "int \<Rightarrow> StreamRange option \<Rightarrow> ListStreamPositionsOpts" where
  "ex_positions limit rng = \<lparr>lp_StreamID = 5, lp_Cursor = \<lparr>Part = 0, Index = 0\<rparr>, lp_Limit = limit, lp_Range = rng\<rparr>"

lemma ex_two_rows:
  "segments ex_two = [inline_row 11 (ex_inline (ex_stream 1 5)), (inline_row 12 ex_second)\<lparr>seg_PlainOffset := 3\<rparr>]"
  by code_simp

theorem position_pages_complete_witness:
  "(\<exists>rows. all_positions 3 (ex_positions 2 None) ex_two = (map position_info rows, True) \<and>
     set rows = set (segments ex_two)) \<and>
   all_positions 9 (ex_positions 1 None) ex_two
     = (replicate 9 (position_info (inline_row 11 (ex_inline (ex_stream 1 5)))), False)"
proof -
  have v: "valid_positions_opts (ex_positions l None)" if "0 \<le> l" for l
    using that by (simp add: valid_positions_opts_def ex_positions_def)
  have c: "lp_Cursor (ex_positions l None) = \<lparr>Part = 0, Index = 0\<rparr>" "lp_Limit (ex_positions l None) = l"
    "lp_StreamID (ex_positions l None) = 5" "lp_Range (ex_positions l None) = None" for l by (simp_all add: ex_positions_def)
  have p: "\<forall>g \<in> set (segments ex_two). seg_StreamID g = 5 \<longrightarrow> Part (seg_Position g) < 2 ^ 31" by code_simp
  have n: "length (filter (\<lambda>g. seg_StreamID g = 5 \<and> in_range None g) (segments ex_two)) < 3" by code_simp
  have w: "{g \<in> set (segments ex_two). seg_StreamID g = 5 \<and> in_range None g} = set (segments ex_two)" by code_simp
  note P = position_pages_complete [OF ex_two_reachable v c(1), unfolded c w, OF _ p n]
  let ?g = "inline_row 11 (ex_inline (ex_stream 1 5))" and ?h = "(inline_row 12 ex_second)\<lparr>seg_PlainOffset := 3\<rparr>"
  have "?g \<in> set (segments ex_two)" "?h \<in> set (segments ex_two)" by (simp_all add: ex_two_rows)
  moreover have "seg_Position ?g = \<lparr>Part = 0, Index = 0\<rparr> \<and> ?h \<noteq> ?g" by code_simp
  ultimately show ?thesis using P [of 2] P [of 1] by (auto simp del: ex_two_rows)
qed

theorem single_position_pages_stuck_witness:
  "all_positions 7 (ex_positions 1 None) ex_two
     = (replicate 7 (position_info (inline_row 11 (ex_inline (ex_stream 1 5)))), False)"
  by (rule single_position_pages_stuck [OF ex_two_reachable,
        where h = "(inline_row 12 ex_second)\<lparr>seg_PlainOffset := 3\<rparr>"]; code_simp)

theorem range_listing_covers_witness:
  "\<exists>ps. all_positions 3 (ex_positions 0 (Some \<lparr>PlainStart = 4, PlainLimit = 5\<rparr>)) ex_two = (ps, True) \<and>
     (\<exists>p. \<forall>q. q \<in> set ps \<and> covers q 4 \<longleftrightarrow> q = p)"
  by (rule range_listing_covers [OF ex_two_reachable, where r = "hd (objects ex_two)" and a = 4 and b = 5]; code_simp)

definition ex_list_segments :: "uuid \<Rightarrow> ListSegmentsOpts" where
  "ex_list_segments st = \<lparr>ls_StreamID = st, ls_Cursor = \<lparr>Part = 0, Index = 0\<rparr>, ls_Limit = 1\<rparr>"

theorem ListSegments_result_witness:
  "\<exists>s'. ListSegments ex_cfg (ex_list_segments 5) ex_two
     = (s', Inr \<lparr>sr_Segments = [(inline_row 11 (ex_inline (ex_stream 1 5)), [])], sr_More = True\<rparr>)"
proof -
  have l: "listed_segments (ls_StreamID (ex_list_segments 5)) (ls_Cursor (ex_list_segments 5)) ex_two
      = [inline_row 11 (ex_inline (ex_stream 1 5)), (inline_row 12 ex_second)\<lparr>seg_PlainOffset := 3\<rparr>]"
    by code_simp
  have "list_all2 (\<lambda>g ps. column_pieces (table_entries (alias_db ex_two)) (seg_AliasPieces g) ps \<and> \<not> (remote g \<and> ps = []))
      (listed_segments (ls_StreamID (ex_list_segments 5)) (ls_Cursor (ex_list_segments 5)) ex_two) [[], []]"
    unfolding l by (simp add: inline_row_def remote_def key_length_def ex_second_def ex_inline_def)
  from ListSegments_result [OF ex_two_reachable _ _ this]
  show ?thesis unfolding l
    by (simp add: ex_list_segments_def page_size_def ensure_range_def ListLimit_def unselected_def inline_row_def) blast
qed

theorem ListSegments_drops_copy_pieces_witness:
  "\<exists>s1 h s2 res h' qs. GetSegmentByPosition ex_cfg 9 \<lparr>Part = 0, Index = 0\<rparr> ex_copied = (s1, Inr (h, ex_pieces 70)) \<and>
     ListSegments ex_cfg (ex_list_segments 9) ex_copied = (s2, Inr res) \<and> sr_Segments res = [(h', qs)] \<and> qs = []"
proof -
  let ?g = "GetSegmentByPosition ex_cfg 9 \<lparr>Part = 0, Index = 0\<rparr> ex_copied"
  let ?l = "ListSegments ex_cfg (ex_list_segments 9) ex_copied"
  define g where "g = List.last (segments ex_copied)"
  have g: "g \<in> set (segments ex_copied)" "seg_AliasPieces g = None" "seg_StreamID g = 9"
    "seg_Position g = \<lparr>Part = 0, Index = 0\<rparr>" unfolding g_def by code_simp+
  have "map_sum id snd (snd ?g) = Inr (ex_pieces 70)" by code_simp
  then obtain h where h: "?g = (fst ?g, Inr (h, ex_pieces 70))" by (cases ?g; cases "snd ?g") auto
  have "map_sum id (map (seg_Position \<circ> fst) \<circ> sr_Segments) (snd ?l) = Inr [\<lparr>Part = 0, Index = 0\<rparr>]" by code_simp
  then obtain res h' qs where l: "?l = (fst ?l, Inr res)" "sr_Segments res = [(h', qs)]"
    "seg_Position h' = \<lparr>Part = 0, Index = 0\<rparr>"
    by (cases ?l; cases "snd ?l") auto
  have "qs = []"
  proof (rule ListSegments_drops_copy_pieces [OF ex_copied_reachable g(1,2) _ _ l(1)])
    show "GetSegmentByPosition ex_cfg (seg_StreamID g) (seg_Position g) ex_copied = (fst ?g, Inr (h, ex_pieces 70))"
      using h g by simp
    show "ex_pieces 70 \<noteq> []" by (simp add: ex_pieces_def)
    show "ls_StreamID (ex_list_segments 9) = seg_StreamID g" by (simp add: ex_list_segments_def g)
    show "(h', qs) \<in> set (sr_Segments res)" "seg_Position h' = seg_Position g" using l g by simp_all
  qed
  then show ?thesis using h l(1,2) by blast
qed

end
