(* ===== verification/MetaLoop.thy ===== *)
theory MetaLoop
  imports MetaMove MetaSegments
begin

text \<open>
  Iterating over all objects and over ranges of segments, and the tallies of buckets
  (\<open>satellite/metabase/loop.go\<close>). An iterator holds the rows of its last query; \<open>Next\<close> is given
  the store at the time of the call. The tables are those as of the system time asked for.
\<close>

definition loopIteratorBatchSizeLimit :: int where "loopIteratorBatchSizeLimit = 5000"

subsection \<open>Objects\<close>

record IterateLoopObjectsOpts =
  lo_BatchSize :: int

definition IterateLoopObjects_Verify :: "IterateLoopObjectsOpts \<Rightarrow> unit meta_res" where
  "IterateLoopObjects_Verify opts =
     (if lo_BatchSize opts < 0 then Inl (ErrInvalidRequest ''BatchSize is negative'') else Inr ())"

record LoopObjectEntry = ObjectStream +
  loe_Status :: ObjectStatus
  loe_CreatedAt :: time
  loe_ExpiresAt :: "time option"
  loe_SegmentCount :: int
  loe_TotalEncryptedSize :: int
  loe_EncryptedMetadataSize :: int

text \<open>\<open>t.Before(now)\<close> of an expiration that may be nil.\<close>

definition expired_at :: "time option \<Rightarrow> time \<Rightarrow> bool" where
  "expired_at expires now = (case expires of None \<Rightarrow> False | Some t \<Rightarrow> t < now)"

definition LoopObjectEntry_Expired :: "LoopObjectEntry \<Rightarrow> time \<Rightarrow> bool" where
  "LoopObjectEntry_Expired obj now = expired_at (loe_ExpiresAt obj) now"

record loopIterateCursor =
  lic_ProjectID :: uuid
  lic_BucketName :: string
  lic_ObjectKey :: string
  lic_Version :: int

record loopIterator =
  loi_batchSize :: int
  loi_curIndex :: nat
  loi_curRows :: "Object list"
  loi_cursor :: loopIterateCursor

definition loopIterator_doNextQuery :: "loopIterator \<Rightarrow> store \<Rightarrow> Object list" where
  "loopIterator_doNextQuery it s =
     (let c = loi_cursor it in
      take (nat (loi_batchSize it)) (sort_key object_key (filter
        (\<lambda>r. object_key r > (lic_ProjectID c, lic_BucketName c, lic_ObjectKey c, lic_Version c))
        (objects s))))"

definition loopIterator_scanItem :: "Object \<Rightarrow> LoopObjectEntry" where
  "loopIterator_scanItem r =
     \<lparr>ProjectID = ProjectID r, BucketName = BucketName r, ObjectKey = ObjectKey r, Version = Version r,
      StreamID = StreamID r, loe_Status = Status r, loe_CreatedAt = CreatedAt r,
      loe_ExpiresAt = ExpiresAt r, loe_SegmentCount = SegmentCount r,
      loe_TotalEncryptedSize = TotalEncryptedSize r,
      loe_EncryptedMetadataSize = inline_length (EncryptedMetadata r)\<rparr>"

definition loopIterator_take ::
  "loopIterator \<Rightarrow> Object \<Rightarrow> Object list \<Rightarrow> LoopObjectEntry option \<times> loopIterator" where
  "loopIterator_take it r rows =
     (let item = loopIterator_scanItem r in
      (Some item, it\<lparr>loi_curRows := rows, loi_curIndex := Suc (loi_curIndex it),
        loi_cursor := \<lparr>lic_ProjectID = ProjectID item, lic_BucketName = BucketName item,
          lic_ObjectKey = ObjectKey item, lic_Version = Version item\<rparr>\<rparr>))"

definition loopIterator_Next :: "store \<Rightarrow> loopIterator \<Rightarrow> LoopObjectEntry option \<times> loopIterator" where
  "loopIterator_Next s it =
     (case loi_curRows it of
        r # rows \<Rightarrow> loopIterator_take it r rows
      | [] \<Rightarrow>
          if int (loi_curIndex it) < loi_batchSize it then (None, it)
          else (case loopIterator_doNextQuery it s of
             [] \<Rightarrow> (None, it\<lparr>loi_curRows := [], loi_curIndex := 0\<rparr>)
           | r # rows \<Rightarrow> loopIterator_take (it\<lparr>loi_curIndex := 0\<rparr>) r rows))"

text \<open>The iterator the callback of \<open>IterateLoopObjects\<close> is given.\<close>

definition IterateLoopObjects :: "IterateLoopObjectsOpts \<Rightarrow> store \<Rightarrow> loopIterator meta_res" where
  "IterateLoopObjects opts s =
     res_bind (IterateLoopObjects_Verify opts) (\<lambda>_.
       let it = \<lparr>loi_batchSize = ensure_range loopIteratorBatchSizeLimit (lo_BatchSize opts),
             loi_curIndex = 0, loi_curRows = [],
             loi_cursor = \<lparr>lic_ProjectID = 0, lic_BucketName = [], lic_ObjectKey = [], lic_Version = 0\<rparr>\<rparr>
       in Inr (it\<lparr>loi_curRows := loopIterator_doNextQuery it s\<rparr>))"

subsection \<open>Segments\<close>

record LoopSegmentEntry =
  lse_StreamID :: uuid
  lse_Position :: SegmentPosition
  lse_CreatedAt :: time
  lse_ExpiresAt :: "time option"
  lse_RepairedAt :: "time option"
  lse_RootPieceID :: piece_id
  lse_EncryptedSize :: int
  lse_PlainOffset :: int
  lse_PlainSize :: int
  lse_AliasPieces :: AliasPieces
  lse_Redundancy :: RedundancyScheme
  lse_Pieces :: Pieces
  lse_Placement :: "int option"

definition LoopSegmentEntry_Inline :: "LoopSegmentEntry \<Rightarrow> bool" where
  "LoopSegmentEntry_Inline e \<longleftrightarrow> lse_Redundancy e = zero_RedundancyScheme \<and> length (lse_Pieces e) = 0"

record IterateLoopSegmentsOpts =
  il_BatchSize :: int
  il_StartStreamID :: uuid
  il_EndStreamID :: uuid

definition IterateLoopSegments_Verify :: "IterateLoopSegmentsOpts \<Rightarrow> unit meta_res" where
  "IterateLoopSegments_Verify opts =
     (if il_BatchSize opts < 0 then Inl (ErrInvalidRequest ''BatchSize is negative'')
      else if il_EndStreamID opts \<noteq> 0 \<and> il_EndStreamID opts < il_StartStreamID opts
      then Inl (ErrInvalidRequest ''EndStreamID is smaller than StartStreamID'')
      else if il_EndStreamID opts \<noteq> 0 \<and> il_StartStreamID opts = il_EndStreamID opts
      then Inl (ErrInvalidRequest ''StartStreamID and EndStreamID must be different'')
      else Inr ())"

record loopSegmentIteratorCursor =
  lsc_StartStreamID :: uuid
  lsc_StartPosition :: SegmentPosition
  lsc_EndStreamID :: uuid

record loopSegmentIterator =
  lsi_batchSize :: int
  lsi_curIndex :: nat
  lsi_curRows :: "Segment list"
  lsi_cursor :: loopSegmentIteratorCursor
  lsi_failErr :: "meta_error list"

text \<open>The position goes to the database as an unsigned number, which the driver refuses when the
  highest bit is set.\<close>

definition loopSegmentIterator_doNextQuery :: "loopSegmentIterator \<Rightarrow> store \<Rightarrow> Segment list meta_res" where
  "loopSegmentIterator_doNextQuery it s =
     (let c = lsi_cursor it; start = position_column (lsc_StartPosition c) in
      if start < 0 then Inl (MetaError ''uint64 values with high bit set are not supported'')
      else Inr (take (nat (lsi_batchSize it))
        (sort_key (\<lambda>g. (seg_StreamID g, position_column (seg_Position g))) (filter
          (\<lambda>g. (seg_StreamID g, position_column (seg_Position g)) > (lsc_StartStreamID c, start) \<and>
             seg_StreamID g \<le> lsc_EndStreamID c) (segments s)))))"

definition loopSegmentIterator_scanItem :: "Segment \<Rightarrow> store \<Rightarrow> store \<times> LoopSegmentEntry meta_res" where
  "loopSegmentIterator_scanItem g s =
     (case res_bind (RedundancyScheme_Scan (seg_Redundancy g)) (\<lambda>red.
             res_bind (AliasPieces_Scan (seg_AliasPieces g)) (\<lambda>aps. Inr (red, aps))) of
        Inl e \<Rightarrow> (s, Inl (MetaError ''failed to scan segments''))
      | Inr (red, aps) \<Rightarrow>
          (case store_ConvertAliases aps s of
             (s', Inl e) \<Rightarrow> (s', Inl (MetaError ''failed to convert aliases to pieces''))
           | (s', Inr pieces) \<Rightarrow>
               (s', Inr \<lparr>lse_StreamID = seg_StreamID g, lse_Position = seg_Position g,
                  lse_CreatedAt = seg_CreatedAt g, lse_ExpiresAt = seg_ExpiresAt g,
                  lse_RepairedAt = seg_RepairedAt g, lse_RootPieceID = seg_RootPieceID g,
                  lse_EncryptedSize = seg_EncryptedSize g, lse_PlainOffset = seg_PlainOffset g,
                  lse_PlainSize = seg_PlainSize g, lse_AliasPieces = aps, lse_Redundancy = red,
                  lse_Pieces = pieces, lse_Placement = seg_Placement g\<rparr>)))"

definition loopSegmentIterator_take ::
  "loopSegmentIterator \<Rightarrow> Segment \<Rightarrow> Segment list \<Rightarrow> store \<Rightarrow>
     store \<times> LoopSegmentEntry option \<times> loopSegmentIterator" where
  "loopSegmentIterator_take it g rows s =
     (case loopSegmentIterator_scanItem g s of
        (s', Inl e) \<Rightarrow> (s', None, it\<lparr>lsi_curRows := rows, lsi_failErr := lsi_failErr it @ [e]\<rparr>)
      | (s', Inr item) \<Rightarrow>
          (s', Some item, it\<lparr>lsi_curRows := rows, lsi_curIndex := Suc (lsi_curIndex it),
             lsi_cursor := (lsi_cursor it)\<lparr>lsc_StartStreamID := lse_StreamID item,
               lsc_StartPosition := lse_Position item\<rparr>\<rparr>))"

definition loopSegmentIterator_Next ::
  "store \<Rightarrow> loopSegmentIterator \<Rightarrow> store \<times> LoopSegmentEntry option \<times> loopSegmentIterator" where
  "loopSegmentIterator_Next s it =
     (case lsi_curRows it of
        g # rows \<Rightarrow> loopSegmentIterator_take it g rows s
      | [] \<Rightarrow>
          if int (lsi_curIndex it) < lsi_batchSize it then (s, None, it)
          else (case loopSegmentIterator_doNextQuery it s of
             Inl e \<Rightarrow> (s, None, it\<lparr>lsi_failErr := lsi_failErr it @ [e]\<rparr>)
           | Inr [] \<Rightarrow> (s, None, it\<lparr>lsi_curRows := [], lsi_curIndex := 0\<rparr>)
           | Inr (g # rows) \<Rightarrow> loopSegmentIterator_take (it\<lparr>lsi_curIndex := 0\<rparr>) g rows s))"

definition maxUUID :: uuid where "maxUUID = 0xffffffffffffffffffffffffffffffff"

text \<open>The iterator the callback of \<open>IterateLoopSegments\<close> is given.\<close>

definition IterateLoopSegments :: "IterateLoopSegmentsOpts \<Rightarrow> store \<Rightarrow> loopSegmentIterator meta_res" where
  "IterateLoopSegments opts s =
     res_bind (IterateLoopSegments_Verify opts) (\<lambda>_.
       let it = \<lparr>lsi_batchSize = ensure_range loopIteratorBatchSizeLimit (il_BatchSize opts),
             lsi_curIndex = 0, lsi_curRows = [],
             lsi_cursor = \<lparr>lsc_StartStreamID = il_StartStreamID opts,
               lsc_StartPosition = (if il_StartStreamID opts \<noteq> 0
                 then \<lparr>Part = 0x7fffffff, Index = 0x7fffffff\<rparr> else \<lparr>Part = 0, Index = 0\<rparr>),
               lsc_EndStreamID = (if il_EndStreamID opts = 0 then maxUUID else il_EndStreamID opts)\<rparr>,
             lsi_failErr = []\<rparr>
       in res_bind (loopSegmentIterator_doNextQuery it s) (\<lambda>rows. Inr (it\<lparr>lsi_curRows := rows\<rparr>)))"

subsection \<open>Bucket tallies\<close>

record BucketTally = BucketLocation +
  ObjectCount :: int
  TotalSegments :: int
  TotalBytes :: int
  MetadataSize :: int

record CollectBucketTalliesOpts =
  ct_From :: BucketLocation
  ct_To :: BucketLocation
  ct_Now :: time

definition CollectBucketTallies_Verify :: "CollectBucketTalliesOpts \<Rightarrow> unit meta_res" where
  "CollectBucketTallies_Verify opts =
     (if ProjectID (ct_To opts) < ProjectID (ct_From opts)
      then Inl (ErrInvalidRequest ''project ID To is before project ID From'')
      else if ProjectID (ct_To opts) = ProjectID (ct_From opts) \<and> BucketName (ct_To opts) < BucketName (ct_From opts)
      then Inl (ErrInvalidRequest ''bucket name To is before bucket name From'')
      else Inr ())"

definition bucket_of :: "('a) BucketLocation_scheme \<Rightarrow> uuid \<times> string" where
  "bucket_of b = (ProjectID b, BucketName b)"

definition tallied_rows :: "time \<Rightarrow> CollectBucketTalliesOpts \<Rightarrow> store \<Rightarrow> Object list" where
  "tallied_rows now opts s =
     filter (\<lambda>r. bucket_of (ct_From opts) \<le> bucket_of r \<and> bucket_of r \<le> bucket_of (ct_To opts) \<and> unexpired now r)
       (objects s)"

definition int8 :: "int \<Rightarrow> bool" where
  "int8 x \<longleftrightarrow> - 9223372036854775808 \<le> x \<and> x \<le> 9223372036854775807"

definition tally_group :: "Object list \<Rightarrow> uuid \<times> string \<Rightarrow> BucketTally" where
  "tally_group rows b =
     (let group = filter (\<lambda>r. bucket_of r = b) rows in
      \<lparr>ProjectID = fst b, BucketName = snd b, ObjectCount = int (length group),
       TotalSegments = sum_list (map SegmentCount group),
       TotalBytes = sum_list (map TotalEncryptedSize group),
       MetadataSize = sum_list (map (\<lambda>r. inline_length (EncryptedMetadata r)) group)\<rparr>)"

definition tally_fits :: "BucketTally \<Rightarrow> bool" where
  "tally_fits t \<longleftrightarrow> int8 (TotalSegments t) \<and> int8 (TotalBytes t) \<and> int8 (MetadataSize t)"

definition CollectBucketTallies ::
  "time \<Rightarrow> CollectBucketTalliesOpts \<Rightarrow> store \<Rightarrow> (BucketTally list) meta_res" where
  "CollectBucketTallies now opts s =
     res_bind (CollectBucketTallies_Verify opts) (\<lambda>_.
       let rows = tallied_rows (if ct_Now opts = zero_time then now else ct_Now opts) opts s;
           tallies = map (tally_group rows) (sort (remdups (map bucket_of rows)))
       in if list_all tally_fits tallies then Inr tallies
          else Inl (MetaError ''unable to query bucket tally''))"

end
