(* ===== verification/MetaLoopProps.thy ===== *)
theory MetaLoopProps
  imports MetaSegmentProps MetaLoop
begin

text \<open>
  What the loop iterators hand out: no object or segment twice, none that was there all along is
  missed, and each segment with the pieces its column stands for; and what the bucket tallies
  add up to.
\<close>

subsection \<open>Objects\<close>

definition loop_cursor :: "Object \<Rightarrow> loopIterateCursor" where
  "loop_cursor r = \<lparr>lic_ProjectID = ProjectID r, lic_BucketName = BucketName r, lic_ObjectKey = ObjectKey r,
     lic_Version = Version r\<rparr>"

definition past_object :: "loopIterateCursor \<Rightarrow> Object \<Rightarrow> bool" where
  "past_object c r \<longleftrightarrow> (lic_ProjectID c, lic_BucketName c, lic_ObjectKey c, lic_Version c) < object_key r"

interpretation loop_objects: batches objects object_key past_object loop_cursor
  by unfold_locales (auto simp: past_object_def loop_cursor_def object_key_def)

definition object_pages :: "loopIterator \<Rightarrow> (Object, loopIterateCursor) pages" where
  "object_pages it = \<lparr>pg_rows = loi_curRows it, pg_index = loi_curIndex it, pg_cursor = loi_cursor it\<rparr>"

abbreviation objects_query :: "loopIterator \<Rightarrow> store \<Rightarrow> loopIterateCursor \<Rightarrow> Object list" where
  "objects_query it \<equiv> page_query objects object_key past_object (nat (loi_batchSize it))"

lemma loop_doNextQuery: "loopIterator_doNextQuery it s = objects_query it s (loi_cursor it)"
  by (simp add: loopIterator_doNextQuery_def page_query_def past_object_def [abs_def] Let_def)

lemma nat_index: "int i < b \<longleftrightarrow> i < nat b" by linarith

lemma loop_Next_page:
  assumes "page_next (objects_query it) loop_cursor (nat (loi_batchSize it)) s (object_pages it) = (res, p)"
  shows "\<exists>it'. loopIterator_Next s it = (map_option loopIterator_scanItem res, it') \<and>
    object_pages it' = p \<and> loi_batchSize it' = loi_batchSize it"
  using assms
  by (auto simp: loopIterator_Next_def page_next_def object_pages_def loop_doNextQuery nat_index
      loopIterator_take_def loopIterator_scanItem_def loop_cursor_def Let_def split: list.splits if_splits)

text \<open>A callback that calls \<open>Next\<close> until it returns false, each call on the tables of its time.\<close>

fun loop_object_calls :: "store list \<Rightarrow> loopIterator \<Rightarrow> LoopObjectEntry list \<times> bool" where
  "loop_object_calls [] it = ([], False)"
| "loop_object_calls (s # ss) it =
     (case loopIterator_Next s it of
        (None, it') \<Rightarrow> ([], True)
      | (Some item, it') \<Rightarrow> (case loop_object_calls ss it' of (items, finished) \<Rightarrow> (item # items, finished)))"

lemma loop_object_calls_run:
  "run_calls (page_next (objects_query it) loop_cursor (nat (loi_batchSize it))) ss (object_pages it) = (rs, finished) \<Longrightarrow>
    loop_object_calls ss it = (map loopIterator_scanItem rs, finished)"
proof (induction ss arbitrary: it rs)
  case (Cons s ss)
  obtain res p where n: "page_next (objects_query it) loop_cursor (nat (loi_batchSize it)) s (object_pages it) = (res, p)"
    by fastforce
  from loop_Next_page [OF n] obtain it' where it': "loopIterator_Next s it = (map_option loopIterator_scanItem res, it')"
    "object_pages it' = p" "loi_batchSize it' = loi_batchSize it" by blast
  show ?case
  proof (cases res)
    case None
    then show ?thesis using Cons.prems n it' by auto
  next
    case (Some r)
    obtain rs' where "rs = r # rs'" "run_calls (page_next (objects_query it) loop_cursor (nat (loi_batchSize it))) ss p = (rs', finished)"
      using Cons.prems n Some by (auto split: prod.splits)
    then show ?thesis using Cons.IH [of it' rs'] it' Some by simp
  qed
qed simp

text \<open>
  Property C22. Iterating over all objects while the tables change: the entries come in strictly
  ascending order of project, bucket, key and version, each of a row that was in the table at
  one of the calls, and when the iteration has come to its end, every object (of a project)
  that was in the table at every call was returned.
\<close>

theorem loop_objects_stable:
  assumes "\<forall>s \<in> set (s0 # ss). distinct (map object_key (objects s))"
    and "IterateLoopObjects opts s0 = Inr it"
    and "loop_object_calls ss it = (items, finished)"
  shows "\<exists>rs. items = map loopIterator_scanItem rs \<and> sorted_wrt (\<lambda>q r. object_key q < object_key r) rs \<and>
    (\<forall>r \<in> set rs. \<exists>s \<in> set (s0 # ss). r \<in> set (objects s)) \<and>
    (finished \<longrightarrow> (\<forall>r. ProjectID r \<noteq> 0 \<longrightarrow> (\<forall>s \<in> set (s0 # ss). r \<in> set (objects s)) \<longrightarrow> r \<in> set rs))"
proof -
  let ?c = "\<lparr>lic_ProjectID = 0, lic_BucketName = [], lic_ObjectKey = [], lic_Version = 0\<rparr>"
  have it: "object_pages it = page_start (objects_query it) s0 ?c" "0 < nat (loi_batchSize it)"
    using assms(2)
    by (auto simp: IterateLoopObjects_def res_bind_Inr_iff Let_def object_pages_def page_start_def
        loop_doNextQuery ensure_range_def loopIteratorBatchSizeLimit_def)
  obtain rs where run: "run_calls (page_next (objects_query it) loop_cursor (nat (loi_batchSize it))) ss (object_pages it) = (rs, finished)"
    and items: "items = map loopIterator_scanItem rs"
    using loop_object_calls_run assms(3) by (metis prod.collapse prod.inject)
  have good: "loop_objects.good (set (s0 # ss))" using assms(1) by (simp add: loop_objects.good_def)
  have sub: "s0 \<in> set (s0 # ss)" "set ss \<subseteq> set (s0 # ss)" by auto
  note sound = loop_objects.run_sound [OF good it(2) sub run [unfolded it(1)]]
  have "past_object ?c r" if "ProjectID r \<noteq> 0" for r
    using that by (simp add: past_object_def object_key_def word_gt_0)
  then show ?thesis
    using items sound by (intro exI [of _ rs]) (auto simp: loop_objects.stable_def)
qed

subsection \<open>Segments\<close>

definition segment_column :: "Segment \<Rightarrow> uuid \<times> int" where
  "segment_column g = (seg_StreamID g, position_column (seg_Position g))"

definition past_segment :: "loopSegmentIteratorCursor \<Rightarrow> Segment \<Rightarrow> bool" where
  "past_segment c g \<longleftrightarrow> (lsc_StartStreamID c, position_column (lsc_StartPosition c)) < segment_column g"

definition segment_cursor :: "uuid \<Rightarrow> Segment \<Rightarrow> loopSegmentIteratorCursor" where
  "segment_cursor e g = \<lparr>lsc_StartStreamID = seg_StreamID g, lsc_StartPosition = seg_Position g, lsc_EndStreamID = e\<rparr>"

definition segments_to :: "uuid \<Rightarrow> store \<Rightarrow> Segment list" where
  "segments_to e s = filter (\<lambda>g. seg_StreamID g \<le> e) (segments s)"

interpretation loop_segments: batches "segments_to e" segment_column past_segment "segment_cursor e" for e
  by unfold_locales (auto simp: past_segment_def segment_cursor_def segment_column_def)

definition segment_pages :: "loopSegmentIterator \<Rightarrow> (Segment, loopSegmentIteratorCursor) pages" where
  "segment_pages it = \<lparr>pg_rows = lsi_curRows it, pg_index = lsi_curIndex it, pg_cursor = lsi_cursor it\<rparr>"

abbreviation range_end :: "loopSegmentIterator \<Rightarrow> uuid" where
  "range_end it \<equiv> lsc_EndStreamID (lsi_cursor it)"

abbreviation segments_query where
  "segments_query it \<equiv> page_query (segments_to (range_end it)) segment_column past_segment (nat (lsi_batchSize it))"

text \<open>What a row is turned into, given what the columns of alias pieces stand for.\<close>

definition entry_of_row :: "NodeAliasEntry set \<Rightarrow> Segment \<Rightarrow> LoopSegmentEntry \<Rightarrow> bool" where
  "entry_of_row E g e \<longleftrightarrow> lse_StreamID e = seg_StreamID g \<and> lse_Position e = seg_Position g \<and>
     lse_CreatedAt e = seg_CreatedAt g \<and> lse_ExpiresAt e = seg_ExpiresAt g \<and> lse_RepairedAt e = seg_RepairedAt g \<and>
     lse_RootPieceID e = seg_RootPieceID g \<and> lse_EncryptedSize e = seg_EncryptedSize g \<and>
     lse_PlainOffset e = seg_PlainOffset g \<and> lse_PlainSize e = seg_PlainSize g \<and>
     AliasPieces_Scan (seg_AliasPieces g) = Inr (lse_AliasPieces e) \<and>
     RedundancyScheme_Scan (seg_Redundancy g) = Inr (lse_Redundancy e) \<and>
     converts E (lse_AliasPieces e) (lse_Pieces e) \<and> lse_Placement e = seg_Placement g"

text \<open>Rows that can be read: the columns of alias pieces stand for pieces, and part numbers are
  below that of the position that stands for the end of a stream.\<close>

definition readable :: "NodeAliasEntry set \<Rightarrow> Segment \<Rightarrow> bool" where
  "readable E g \<longleftrightarrow> (\<exists>ps. column_pieces E (seg_AliasPieces g) ps) \<and> Part (seg_Position g) < 0x7fffffff \<and>
     seg_StreamID g \<noteq> 0"

lemma position_column_bounds:
  assumes "Part p < 0x7fffffff"
  shows "0 \<le> position_column p" "position_column p < 0x7fffffff7fffffff"
proof -
  have "(0x7fffffff :: 32 word) < 2 ^ 31" by simp
  then have "Part p < 2 ^ 31" using assms by (rule order_less_trans [rotated])
  then show n: "0 \<le> position_column p" by (rule position_column_nonneg)
  have "SegmentPosition_Encode p = push_bit 32 (ucast (Part p)) + ucast (Index p)"
    unfolding SegmentPosition_Encode_def
    by (rule disjunctive_add [symmetric]) (auto simp: bit_simps dest: bit_imp_le_length)
  then have e: "uint (SegmentPosition_Encode p) = (take_bit 64 (uint (Part p)) * 4294967296 mod 18446744073709551616 +
      take_bit 64 (uint (Index p))) mod 18446744073709551616"
    by (simp add: uint_word_ariths push_bit_eq_mult unsigned_ucast_eq)
  have i: "uint (Part p) < 0x7fffffff" "uint (Index p) < 0x100000000"
    using assms uint_bounded [of "Index p"] by (simp_all add: word_less_def)
  have "take_bit 64 (uint (Part p)) = uint (Part p)" "take_bit 64 (uint (Index p)) = uint (Index p)"
    using i by (simp_all add: take_bit_int_eq_self)
  moreover have "uint (Part p) * 4294967296 + uint (Index p) < 0x7fffffff7fffffff" using i by simp
  ultimately have "uint (SegmentPosition_Encode p) < 0x7fffffff7fffffff"
    using i unfolding e by (simp add: mod_pos_pos_trivial)
  moreover have "signed_take_bit 63 (uint (SegmentPosition_Encode p)) = uint (SegmentPosition_Encode p)"
  proof (rule signed_take_bit_int_eq_self)
    have "- (2 ^ 63 :: int) \<le> 0" by simp
    then show "- (2 ^ 63) \<le> uint (SegmentPosition_Encode p)" using uint_nonnegative by (rule order_trans)
    show "uint (SegmentPosition_Encode p) < 2 ^ 63" using calculation by simp
  qed
  then have "position_column p = uint (SegmentPosition_Encode p)"
    by (simp add: position_column_def sint_uint)
  ultimately show "position_column p < 0x7fffffff7fffffff" by simp
qed

definition aliases_from :: "NodeAliasEntry set \<Rightarrow> store \<Rightarrow> bool" where
  "aliases_from E s \<longleftrightarrow> alias_ok s \<and> E \<subseteq> table_entries (alias_db s)"

lemma scanItem_readable:
  assumes "aliases_from E s" and "readable E g"
  shows "\<exists>s' e. loopSegmentIterator_scanItem g s = (s', Inr e) \<and> entry_of_row E g e"
proof -
  obtain aps ps where aps: "AliasPieces_Scan (seg_AliasPieces g) = Inr aps" "converts E aps ps"
    using assms(2) by (auto simp: readable_def column_pieces_def)
  obtain red where red: "RedundancyScheme_Scan (seg_Redundancy g) = Inr red"
    by (simp add: RedundancyScheme_Scan_def Let_def)
  have "converts (table_entries (alias_db s)) aps ps"
    using assms(1) aps(2) by (auto simp: aliases_from_def intro: converts_mono)
  moreover have "alias_ok s" using assms(1) by (simp add: aliases_from_def)
  ultimately obtain s' where "store_ConvertAliases aps s = (s', Inr ps)"
    using Convert_complete by blast
  then show ?thesis using aps red by (simp add: loopSegmentIterator_scanItem_def entry_of_row_def)
qed

definition range_ok :: "NodeAliasEntry set \<Rightarrow> loopSegmentIterator \<Rightarrow> bool" where
  "range_ok E it \<longleftrightarrow> 0 \<le> position_column (lsc_StartPosition (lsi_cursor it)) \<and>
     (\<forall>g \<in> set (lsi_curRows it). readable E g)"

lemma segment_doNextQuery:
  assumes "range_ok E it"
  shows "loopSegmentIterator_doNextQuery it s = Inr (segments_query it s (lsi_cursor it))"
proof -
  have "filter (past_segment (lsi_cursor it)) (segments_to (range_end it) s) =
      filter (\<lambda>g. (lsc_StartStreamID (lsi_cursor it), position_column (lsc_StartPosition (lsi_cursor it))) <
          (seg_StreamID g, position_column (seg_Position g)) \<and> seg_StreamID g \<le> range_end it) (segments s)"
    by (auto simp: segments_to_def past_segment_def segment_column_def intro!: filter_cong)
  then show ?thesis using assms
    by (simp add: loopSegmentIterator_doNextQuery_def page_query_def range_ok_def segment_column_def [abs_def]
        Let_def not_less)
qed

lemma take_readable:
  assumes "aliases_from E s" and "readable E g" and "\<forall>q \<in> set rows. readable E q"
  shows "\<exists>s' e it'. loopSegmentIterator_take it g rows s = (s', Some e, it') \<and> entry_of_row E g e \<and>
    segment_pages it' = \<lparr>pg_rows = rows, pg_index = Suc (lsi_curIndex it), pg_cursor = segment_cursor (range_end it) g\<rparr> \<and>
    lsi_batchSize it' = lsi_batchSize it \<and> lsi_failErr it' = lsi_failErr it \<and> range_end it' = range_end it \<and> range_ok E it'"
proof -
  obtain s' e where "loopSegmentIterator_scanItem g s = (s', Inr e)" "entry_of_row E g e"
    using scanItem_readable [OF assms(1,2)] by blast
  then show ?thesis using assms(2,3)
    by (auto simp: loopSegmentIterator_take_def segment_pages_def segment_cursor_def entry_of_row_def range_ok_def
        readable_def position_column_bounds)
qed

lemma segment_Next_page:
  assumes "aliases_from E s" and "range_ok E it" and "\<forall>g \<in> set (segments_to (range_end it) s). readable E g"
    and n: "page_next (segments_query it) (segment_cursor (range_end it)) (nat (lsi_batchSize it)) s (segment_pages it) = (res, p)"
  shows "case res of
      None \<Rightarrow> \<exists>s' it'. loopSegmentIterator_Next s it = (s', None, it') \<and> lsi_failErr it' = lsi_failErr it
    | Some g \<Rightarrow> \<exists>s' e it'. loopSegmentIterator_Next s it = (s', Some e, it') \<and> entry_of_row E g e \<and>
        segment_pages it' = p \<and> lsi_batchSize it' = lsi_batchSize it \<and> lsi_failErr it' = lsi_failErr it \<and>
        range_end it' = range_end it \<and> range_ok E it'"
proof (cases "lsi_curRows it")
  case (Cons g rows)
  then have "res = Some g" "p = \<lparr>pg_rows = rows, pg_index = Suc (lsi_curIndex it), pg_cursor = segment_cursor (range_end it) g\<rparr>"
    using n by (auto simp: page_next_def segment_pages_def)
  moreover have "readable E g" "\<forall>q \<in> set rows. readable E q" using assms(2) Cons by (auto simp: range_ok_def)
  from take_readable [OF assms(1) this, of it] show ?thesis
    using calculation Cons by (auto simp: loopSegmentIterator_Next_def)
next
  case Nil
  show ?thesis
  proof (cases "int (lsi_curIndex it) < lsi_batchSize it")
    case True
    then have "lsi_curIndex it < nat (lsi_batchSize it)" by linarith
    then have "res = None" using n Nil by (auto simp: page_next_def segment_pages_def)
    then show ?thesis using True Nil by (simp add: loopSegmentIterator_Next_def)
  next
    case False
    then have i: "\<not> lsi_curIndex it < nat (lsi_batchSize it)" by linarith
    note q = segment_doNextQuery [OF assms(2), of s]
    show ?thesis
    proof (cases "segments_query it s (lsi_cursor it)")
      case q': Nil
      then have "res = None" using n Nil i by (simp add: page_next_def segment_pages_def)
      then show ?thesis using False Nil q q' by (simp add: loopSegmentIterator_Next_def)
    next
      case q': (Cons g rows)
      then have "res = Some g" "p = \<lparr>pg_rows = rows, pg_index = 1, pg_cursor = segment_cursor (range_end it) g\<rparr>"
        using n Nil i by (auto simp: page_next_def segment_pages_def)
      moreover have "set (g # rows) \<subseteq> set (segments_to (range_end it) s)"
        unfolding q' [symmetric] by (auto simp: page_query_def dest!: in_set_takeD)
      then have "readable E g" "\<forall>q \<in> set rows. readable E q" using assms(3) by auto
      from take_readable [OF assms(1) this, of "it\<lparr>lsi_curIndex := 0\<rparr>"] show ?thesis
        using calculation False Nil q q' by (auto simp: loopSegmentIterator_Next_def)
    qed
  qed
qed

text \<open>A callback that calls \<open>Next\<close> until it returns false: the entries, and, when it got there, the
  errors of the iterator.\<close>

fun loop_segment_calls ::
  "store list \<Rightarrow> loopSegmentIterator \<Rightarrow> LoopSegmentEntry list \<times> meta_error list option" where
  "loop_segment_calls [] it = ([], None)"
| "loop_segment_calls (s # ss) it =
     (case loopSegmentIterator_Next s it of
        (s', None, it') \<Rightarrow> ([], Some (lsi_failErr it'))
      | (s', Some e, it') \<Rightarrow> (case loop_segment_calls ss it' of (es, end_errs) \<Rightarrow> (e # es, end_errs)))"

lemma loop_segment_calls_run:
  assumes "\<forall>s \<in> set ss. aliases_from E s \<and> (\<forall>g \<in> set (segments_to (range_end it) s). readable E g)"
    and "range_ok E it"
    and "run_calls (page_next (segments_query it) (segment_cursor (range_end it)) (nat (lsi_batchSize it))) ss (segment_pages it)
      = (rs, finished)"
  shows "\<exists>es. loop_segment_calls ss it = (es, if finished then Some (lsi_failErr it) else None) \<and>
    list_all2 (entry_of_row E) rs es"
  using assms
proof (induction ss arbitrary: it rs)
  case (Cons s ss)
  obtain res p where n: "page_next (segments_query it) (segment_cursor (range_end it)) (nat (lsi_batchSize it)) s (segment_pages it) = (res, p)"
    by fastforce
  have s: "aliases_from E s" "\<forall>g \<in> set (segments_to (range_end it) s). readable E g"
    using Cons.prems(1) by auto
  note step = segment_Next_page [OF s(1) Cons.prems(2) s(2) n]
  show ?case
  proof (cases res)
    case None
    then show ?thesis using step Cons.prems(3) n by auto
  next
    case (Some g)
    then obtain s' e it' where it': "loopSegmentIterator_Next s it = (s', Some e, it')" "entry_of_row E g e"
      "segment_pages it' = p" "lsi_batchSize it' = lsi_batchSize it" "lsi_failErr it' = lsi_failErr it"
      "range_end it' = range_end it" "range_ok E it'" using step by auto
    obtain rs' where "rs = g # rs'"
      "run_calls (page_next (segments_query it) (segment_cursor (range_end it)) (nat (lsi_batchSize it))) ss p = (rs', finished)"
      using Cons.prems(3) n Some by (auto split: prod.splits)
    then show ?thesis using Cons.IH [of it' rs'] Cons.prems(1) it' by auto
  qed
qed simp

definition in_stream_range :: "IterateLoopSegmentsOpts \<Rightarrow> Segment \<Rightarrow> bool" where
  "in_stream_range opts g \<longleftrightarrow> il_StartStreamID opts < seg_StreamID g \<and>
     (il_EndStreamID opts = 0 \<or> seg_StreamID g \<le> il_EndStreamID opts)"

definition first_cursor :: "IterateLoopSegmentsOpts \<Rightarrow> loopSegmentIteratorCursor" where
  "first_cursor opts = \<lparr>lsc_StartStreamID = il_StartStreamID opts,
     lsc_StartPosition = (if il_StartStreamID opts \<noteq> 0
       then \<lparr>Part = 0x7fffffff, Index = 0x7fffffff\<rparr> else \<lparr>Part = 0, Index = 0\<rparr>),
     lsc_EndStreamID = (if il_EndStreamID opts = 0 then maxUUID else il_EndStreamID opts)\<rparr>"

lemma first_cursor_simps:
  "lsc_StartStreamID (first_cursor opts) = il_StartStreamID opts"
  "lsc_EndStreamID (first_cursor opts) = (if il_EndStreamID opts = 0 then maxUUID else il_EndStreamID opts)"
  by (simp_all add: first_cursor_def)

lemma first_position:
  "position_column (lsc_StartPosition (first_cursor opts)) = (if il_StartStreamID opts \<noteq> 0 then 0x7fffffff7fffffff else 0)"
proof -
  have "position_column \<lparr>Part = 0x7fffffff, Index = 0x7fffffff\<rparr> = 0x7fffffff7fffffff"
    "position_column \<lparr>Part = 0, Index = 0\<rparr> = 0" by code_simp+
  then show ?thesis by (simp add: first_cursor_def)
qed

lemma maxUUID_top: "st \<le> maxUUID"
proof -
  have m: "maxUUID = - 1" by (simp add: maxUUID_def)
  show ?thesis unfolding m by (rule word_order.extremum)
qed

lemma first_cursor_range:
  assumes "readable E g"
  shows "past_segment (first_cursor opts) g \<and> seg_StreamID g \<le> lsc_EndStreamID (first_cursor opts) \<longleftrightarrow> in_stream_range opts g"
proof -
  have "position_column (seg_Position g) < 0x7fffffff7fffffff" "0 < seg_StreamID g"
    using assms position_column_bounds by (auto simp: readable_def word_neq_0_conv)
  then show ?thesis
    using maxUUID_top [of "seg_StreamID g"]
    by (auto simp: past_segment_def segment_column_def first_position first_cursor_simps in_stream_range_def
        split: if_splits)
qed

lemma IterateLoopSegments_start:
  assumes "IterateLoopSegments opts s = Inr it"
  shows "segment_pages it = page_start (segments_query it) s (first_cursor opts)" "lsi_cursor it = first_cursor opts"
    "0 < nat (lsi_batchSize it)" "lsi_failErr it = []"
proof -
  define it0 where "it0 = \<lparr>lsi_batchSize = ensure_range loopIteratorBatchSizeLimit (il_BatchSize opts),
    lsi_curIndex = 0, lsi_curRows = [], lsi_cursor = first_cursor opts, lsi_failErr = []\<rparr>"
  have r: "range_ok {} it0" by (simp add: range_ok_def it0_def first_position)
  have it: "it = it0\<lparr>lsi_curRows := segments_query it0 s (first_cursor opts)\<rparr>"
    using assms segment_doNextQuery [OF r, of s]
    by (auto simp: IterateLoopSegments_def res_bind_Inr_iff Let_def it0_def first_cursor_def)
  then show "segment_pages it = page_start (segments_query it) s (first_cursor opts)" "lsi_cursor it = first_cursor opts"
    "0 < nat (lsi_batchSize it)" "lsi_failErr it = []"
    by (auto simp: it0_def segment_pages_def page_start_def ensure_range_def loopIteratorBatchSizeLimit_def)
qed

lemma segments_good:
  assumes "\<forall>s \<in> S. distinct (map segment_key (segments s))"
  shows "loop_segments.good e S"
proof -
  have "distinct (map segment_column (segments_to e s))" if "s \<in> S" for s
    using assms that by (auto simp: segment_key_def segment_column_def position_column_def position_column_inj
        segments_to_def distinct_map inj_on_def)
  then show ?thesis by (simp add: loop_segments.good_def)
qed

lemma IterateLoopSegments_readable:
  assumes "\<forall>s \<in> set (s0 # ss). aliases_from E s \<and> (\<forall>g \<in> set (segments s). readable E g)"
    and "IterateLoopSegments opts s0 = Inr it"
  shows "\<forall>s \<in> set ss. aliases_from E s \<and> (\<forall>g \<in> set (segments_to (range_end it) s). readable E g)" "range_ok E it"
proof -
  note start = IterateLoopSegments_start [OF assms(2)]
  show "\<forall>s \<in> set ss. aliases_from E s \<and> (\<forall>g \<in> set (segments_to (range_end it) s). readable E g)"
    using assms(1) by (auto simp: segments_to_def)
  have "lsi_curRows it = segments_query it s0 (first_cursor opts)"
    using start(1) by (simp add: segment_pages_def page_start_def)
  then have "set (lsi_curRows it) \<subseteq> set (segments s0)"
    by (auto simp: page_query_def segments_to_def dest!: in_set_takeD)
  then show "range_ok E it" using start(2) assms(1) by (auto simp: range_ok_def first_position)
qed

text \<open>
  Property C21. Iterating over a range of streams while the tables change: the entries come in
  strictly ascending order of stream and position, each is the reading of a row of the range
  that was in the table at one of the calls, and when the iteration has come to its end, no
  error occurred and every segment of the range that was in the table at every call was
  returned. The start of the range is exclusive, its end inclusive.
\<close>

theorem loop_segments_stable:
  assumes "\<forall>s \<in> set (s0 # ss). distinct (map segment_key (segments s)) \<and> aliases_from E s \<and>
      (\<forall>g \<in> set (segments s). readable E g)"
    and "IterateLoopSegments opts s0 = Inr it"
    and "loop_segment_calls ss it = (es, end_errs)"
  shows "\<exists>rs. list_all2 (entry_of_row E) rs es \<and> sorted_wrt (\<lambda>g h. segment_column g < segment_column h) rs \<and>
    (\<forall>g \<in> set rs. in_stream_range opts g \<and> (\<exists>s \<in> set (s0 # ss). g \<in> set (segments s))) \<and>
    (end_errs \<noteq> None \<longrightarrow> end_errs = Some [] \<and>
      (\<forall>g. in_stream_range opts g \<longrightarrow> (\<forall>s \<in> set (s0 # ss). g \<in> set (segments s)) \<longrightarrow> g \<in> set rs))"
proof -
  note start = IterateLoopSegments_start [OF assms(2)]
  have al: "\<forall>s \<in> set (s0 # ss). aliases_from E s \<and> (\<forall>g \<in> set (segments s). readable E g)" using assms(1) by auto
  note ok = IterateLoopSegments_readable [OF al assms(2)]
  obtain rs finished where run: "run_calls (page_next (segments_query it) (segment_cursor (range_end it)) (nat (lsi_batchSize it)))
      ss (segment_pages it) = (rs, finished)" by fastforce
  from loop_segment_calls_run [OF ok run] assms(3) start(4)
  have es: "list_all2 (entry_of_row E) rs es" "end_errs = (if finished then Some [] else None)" by auto
  have good: "loop_segments.good (range_end it) (set (s0 # ss))" using assms(1) by (intro segments_good) auto
  have sub: "s0 \<in> set (s0 # ss)" "set ss \<subseteq> set (s0 # ss)" by auto
  note sound = loop_segments.run_sound [OF good start(3) sub run [unfolded start(1)]]
  have range: "past_segment (first_cursor opts) g \<and> g \<in> set (segments_to (range_end it) s) \<longleftrightarrow>
      in_stream_range opts g \<and> g \<in> set (segments s)" if "s \<in> set (s0 # ss)" for g s
    using that al first_cursor_range [of E g opts] by (auto simp: segments_to_def start(2))
  have "in_stream_range opts g \<and> (\<exists>s \<in> set (s0 # ss). g \<in> set (segments s))" if "g \<in> set rs" for g
    using sound(2) [OF that] range by blast
  moreover have "g \<in> set rs"
    if "finished" "in_stream_range opts g" "\<forall>s \<in> set (s0 # ss). g \<in> set (segments s)" for g
  proof (rule sound(3) [OF that(1)])
    have "past_segment (first_cursor opts) g \<and> g \<in> set (segments_to (range_end it) s)" if "s \<in> set (s0 # ss)" for s
      using range [OF that] \<open>in_stream_range opts g\<close> \<open>\<forall>s \<in> set (s0 # ss). g \<in> set (segments s)\<close> that by blast
    then show "loop_segments.stable (range_end it) (set (s0 # ss)) g" "past_segment (first_cursor opts) g"
      unfolding loop_segments.stable_def using sub(1) by blast+
  qed
  moreover have "finished \<and> end_errs = Some []" if "end_errs \<noteq> None" using that es(2) by (simp split: if_splits)
  ultimately show ?thesis using es(1) sound(1) by (intro exI [of _ rs] conjI impI) blast+
qed

text \<open>Against a table that does not change: exactly the segments of the range, in order.\<close>

lemma loop_segments_constant:
  assumes "\<forall>s \<in> set (s0 # ss). segments s = segs \<and> aliases_from E s"
    and "distinct (map segment_key segs)" "\<forall>g \<in> set segs. readable E g"
    and "IterateLoopSegments opts s0 = Inr it" "length segs < length ss"
  shows "\<exists>es. loop_segment_calls ss it = (es, Some []) \<and>
    list_all2 (entry_of_row E) (sort_key segment_column (filter (in_stream_range opts) segs)) es"
proof -
  note start = IterateLoopSegments_start [OF assms(4)]
  have al: "\<forall>s \<in> set (s0 # ss). aliases_from E s \<and> (\<forall>g \<in> set (segments s). readable E g)" using assms(1,3) by auto
  note ok = IterateLoopSegments_readable [OF al assms(4)]
  let ?R = "filter (\<lambda>g. seg_StreamID g \<le> range_end it) segs"
  have rows: "segments_to (range_end it) s = ?R" if "s \<in> set (s0 # ss)" for s
    using assms(1) that by (auto simp: segments_to_def)
  have d: "distinct (map segment_column ?R)"
    using segments_good [of "{s0}" "range_end it"] assms(1,2) by (auto simp: loop_segments.good_def rows [of s0, simplified])
  have len: "length (filter (past_segment (first_cursor opts)) ?R) < length ss"
    using le_less_trans [OF le_trans [OF length_filter_le length_filter_le] assms(5)] by simp
  have run: "run_calls (page_next (segments_query it) (segment_cursor (range_end it)) (nat (lsi_batchSize it))) ss (segment_pages it)
      = (sort_key segment_column (filter (past_segment (first_cursor opts)) ?R), True)"
    unfolding start(1) by (rule loop_segments.run_constant) (use rows d start(3) len in auto)
  have "filter (past_segment (first_cursor opts)) ?R = filter (in_stream_range opts) segs"
    using assms(3) first_cursor_range [of E _ opts] start(2) by (auto intro!: filter_cong)
  with loop_segment_calls_run [OF ok run] start(4) show ?thesis by simp
qed

subsection \<open>Tallies\<close>

lemma sum_by_group:
  fixes f :: "'r \<Rightarrow> int"
  assumes "distinct bs" "k ` set rows \<subseteq> set bs"
  shows "sum_list (map (\<lambda>b. sum_list (map f (filter (\<lambda>r. k r = b) rows))) bs) = sum_list (map f rows)"
  using assms(2)
proof (induction rows)
  case (Cons r rows)
  have "sum_list (map (\<lambda>b. sum_list (map f (filter (\<lambda>q. k q = b) (r # rows)))) bs)
      = sum_list (map (\<lambda>b. (if b = k r then f r else 0) + sum_list (map f (filter (\<lambda>q. k q = b) rows))) bs)"
    by (intro arg_cong [where f = sum_list] map_cong) auto
  also have "\<dots> = sum_list (map (\<lambda>b. if b = k r then f r else 0) bs) + sum_list (map f rows)"
    using Cons by (simp add: sum_list_addf)
  also have "sum_list (map (\<lambda>b. if b = k r then f r else 0) bs) = f r"
    using assms(1) Cons.prems by (simp add: sum_list_distinct_conv_sum_set)
  finally show ?case by simp
qed (induction bs, simp_all)

definition tally_sums :: "Object list \<Rightarrow> int \<times> int \<times> int \<times> int" where
  "tally_sums rows = (int (length rows), sum_list (map SegmentCount rows), sum_list (map TotalEncryptedSize rows),
     sum_list (map (\<lambda>r. inline_length (EncryptedMetadata r)) rows))"

lemma tally_group_sums:
  "(ObjectCount (tally_group rows b), TotalSegments (tally_group rows b), TotalBytes (tally_group rows b),
    MetadataSize (tally_group rows b)) = tally_sums (filter (\<lambda>r. bucket_of r = b) rows)"
  "bucket_of (tally_group rows b) = b"
  by (simp_all add: tally_group_def tally_sums_def bucket_of_def Let_def)

lemma tallies_total:
  assumes "distinct bs" "bucket_of ` set rows \<subseteq> set bs"
  shows "(sum_list (map (ObjectCount \<circ> tally_group rows) bs), sum_list (map (TotalSegments \<circ> tally_group rows) bs),
    sum_list (map (TotalBytes \<circ> tally_group rows) bs), sum_list (map (MetadataSize \<circ> tally_group rows) bs)) = tally_sums rows"
  using sum_by_group [OF assms, of "\<lambda>_. 1"] sum_by_group [OF assms, of SegmentCount]
    sum_by_group [OF assms, of TotalEncryptedSize] sum_by_group [OF assms, of "\<lambda>r. inline_length (EncryptedMetadata r)"]
  by (simp add: tally_group_def tally_sums_def Let_def comp_def sum_list_triv)

lemma CollectBucketTallies_cases:
  assumes "rows = filter (\<lambda>r. bucket_of (ct_From opts) \<le> bucket_of r \<and> bucket_of r \<le> bucket_of (ct_To opts) \<and>
      unexpired (if ct_Now opts = zero_time then now else ct_Now opts) r) (objects s)"
  shows "(\<exists>ts. CollectBucketTallies now opts s = Inr ts) \<longleftrightarrow>
      bucket_of (ct_From opts) \<le> bucket_of (ct_To opts) \<and> (\<forall>b \<in> bucket_of ` set rows. tally_fits (tally_group rows b))"
    and "CollectBucketTallies now opts s = Inr ts \<Longrightarrow>
      sorted_wrt (<) (map bucket_of ts) \<and> bucket_of ` set ts = bucket_of ` set rows \<and>
      (\<forall>t \<in> set ts. (ObjectCount t, TotalSegments t, TotalBytes t, MetadataSize t)
         = tally_sums (filter (\<lambda>r. bucket_of r = bucket_of t) rows)) \<and>
      (sum_list (map ObjectCount ts), sum_list (map TotalSegments ts), sum_list (map TotalBytes ts),
         sum_list (map MetadataSize ts)) = tally_sums rows"
proof -
  let ?bs = "sort (remdups (map bucket_of rows))"
  have rows: "tallied_rows (if ct_Now opts = zero_time then now else ct_Now opts) opts s = rows"
    by (simp add: tallied_rows_def assms)
  have verify: "CollectBucketTallies_Verify opts = Inr () \<longleftrightarrow> bucket_of (ct_From opts) \<le> bucket_of (ct_To opts)"
    by (auto simp: CollectBucketTallies_Verify_def bucket_of_def)
  have res: "CollectBucketTallies now opts s =
      (case CollectBucketTallies_Verify opts of Inl e \<Rightarrow> Inl e | Inr _ \<Rightarrow>
         if list_all tally_fits (map (tally_group rows) ?bs) then Inr (map (tally_group rows) ?bs)
         else Inl (MetaError ''unable to query bucket tally''))"
    by (simp add: CollectBucketTallies_def res_bind_def Let_def rows split: sum.split)
  show "(\<exists>ts. CollectBucketTallies now opts s = Inr ts) \<longleftrightarrow>
      bucket_of (ct_From opts) \<le> bucket_of (ct_To opts) \<and> (\<forall>b \<in> bucket_of ` set rows. tally_fits (tally_group rows b))"
    unfolding res verify [symmetric] by (auto simp: list_all_iff split: sum.splits)
  assume "CollectBucketTallies now opts s = Inr ts"
  then have ts: "ts = map (tally_group rows) ?bs" by (auto simp: res split: sum.splits if_splits)
  have "map bucket_of ts = ?bs" by (simp add: ts comp_def tally_group_sums)
  moreover have "bucket_of ` set ts = bucket_of ` set rows" by (simp add: ts image_image tally_group_sums)
  ultimately show "sorted_wrt (<) (map bucket_of ts) \<and> bucket_of ` set ts = bucket_of ` set rows \<and>
      (\<forall>t \<in> set ts. (ObjectCount t, TotalSegments t, TotalBytes t, MetadataSize t)
         = tally_sums (filter (\<lambda>r. bucket_of r = bucket_of t) rows)) \<and>
      (sum_list (map ObjectCount ts), sum_list (map TotalSegments ts), sum_list (map TotalBytes ts),
         sum_list (map MetadataSize ts)) = tally_sums rows"
    using tallies_total [of ?bs rows] by (auto simp: ts tally_group_sums strict_sorted_iff)
qed
text \<open>
  Lemma. \<open>CollectBucketTallies\<close> succeeds exactly when the range of buckets is not reversed and the
  sums fit their columns. It then returns one tally for each bucket of the range that has
  unexpired objects, in strictly ascending order; the tally has the number of these objects
  (pending ones included) and the sums of their segments, bytes and metadata bytes; and the
  tallies together count every unexpired object of the range once.
\<close>

theorem CollectBucketTallies_result:
  assumes "rows = filter (\<lambda>r. bucket_of (ct_From opts) \<le> bucket_of r \<and> bucket_of r \<le> bucket_of (ct_To opts) \<and>
      unexpired (if ct_Now opts = zero_time then now else ct_Now opts) r) (objects s)"
  shows "((\<exists>ts. CollectBucketTallies now opts s = Inr ts) \<longleftrightarrow>
      bucket_of (ct_From opts) \<le> bucket_of (ct_To opts) \<and> (\<forall>b \<in> bucket_of ` set rows. tally_fits (tally_group rows b))) \<and>
    (\<forall>ts. CollectBucketTallies now opts s = Inr ts \<longrightarrow>
      sorted_wrt (<) (map bucket_of ts) \<and> bucket_of ` set ts = bucket_of ` set rows \<and>
      (\<forall>t \<in> set ts. (ObjectCount t, TotalSegments t, TotalBytes t, MetadataSize t)
         = tally_sums (filter (\<lambda>r. bucket_of r = bucket_of t) rows)) \<and>
      (sum_list (map ObjectCount ts), sum_list (map TotalSegments ts), sum_list (map TotalBytes ts),
         sum_list (map MetadataSize ts)) = tally_sums rows)"
  using CollectBucketTallies_cases [OF assms] by blast

theorem CollectBucketTallies_result_witness:
  "\<exists>t. CollectBucketTallies 20 \<lparr>ct_From = \<lparr>ProjectID = 1, BucketName = ''a''\<rparr>,
       ct_To = \<lparr>ProjectID = 1, BucketName = ''c''\<rparr>, ct_Now = 0\<rparr> ex_two = Inr [t] \<and>
     bucket_of t = (1, ''b'') \<and> ObjectCount t = 1 \<and> TotalSegments t = 2 \<and> TotalBytes t = 6"
proof -
  let ?opts = "\<lparr>ct_From = \<lparr>ProjectID = 1, BucketName = ''a''\<rparr>, ct_To = \<lparr>ProjectID = 1, BucketName = ''c''\<rparr>, ct_Now = 0\<rparr>"
  have rows: "objects ex_two = filter (\<lambda>r. bucket_of (ct_From ?opts) \<le> bucket_of r \<and> bucket_of r \<le> bucket_of (ct_To ?opts) \<and>
      unexpired (if ct_Now ?opts = zero_time then 20 else ct_Now ?opts) r) (objects ex_two)" by code_simp
  have one: "bucket_of ` set (objects ex_two) = {(1, ''b'')}" "tally_sums (objects ex_two) = (1, 2, 6, 0)"
    "\<forall>b \<in> bucket_of ` set (objects ex_two). tally_fits (tally_group (objects ex_two) b)"
    "bucket_of (ct_From ?opts) \<le> bucket_of (ct_To ?opts)" by code_simp+
  note r = CollectBucketTallies_result [OF rows]
  from r one(3,4) obtain ts where ts: "CollectBucketTallies 20 ?opts ex_two = Inr ts" by blast
  with r one(1,2) have t: "sorted_wrt (<) (map bucket_of ts)" "bucket_of ` set ts = {(1, ''b'')}"
    "(sum_list (map ObjectCount ts), sum_list (map TotalSegments ts), sum_list (map TotalBytes ts),
       sum_list (map MetadataSize ts)) = (1, 2, 6, 0)" by auto
  have "map bucket_of ts = [(1, ''b'')]"
    by (rule strictly_sorted_eq) (use t(1,2) in auto)
  then show ?thesis using ts t(3) by auto
qed

text \<open>The other witnesses: the two iterations on the store of the example object.\<close>

theorem loop_objects_stable_witness:
  "\<exists>it. IterateLoopObjects \<lparr>lo_BatchSize = 1\<rparr> ex_two = Inr it \<and>
     (\<exists>rs. loop_object_calls [ex_two, ex_two] it = (map loopIterator_scanItem rs, True) \<and> set rs = set (objects ex_two))"
proof -
  let ?it = "IterateLoopObjects \<lparr>lo_BatchSize = 1\<rparr> ex_two"
  have "is_ok ?it" by code_simp
  then obtain it where it: "?it = Inr it" by (cases ?it) auto
  have "map_sum id (\<lambda>it. snd (loop_object_calls [ex_two, ex_two] it)) ?it = Inr True" by code_simp
  then obtain items where items: "loop_object_calls [ex_two, ex_two] it = (items, True)"
    by (cases "loop_object_calls [ex_two, ex_two] it") (simp add: it)
  have d: "\<forall>s \<in> set (ex_two # [ex_two, ex_two]). distinct (map object_key (objects s))" by code_simp
  have p: "\<forall>r \<in> set (objects ex_two). ProjectID r \<noteq> 0" by code_simp
  from loop_objects_stable [OF d it items] obtain rs where rs: "items = map loopIterator_scanItem rs"
    "\<forall>r \<in> set rs. \<exists>s \<in> set (ex_two # [ex_two, ex_two]). r \<in> set (objects s)"
    "True \<longrightarrow> (\<forall>r. ProjectID r \<noteq> 0 \<longrightarrow> (\<forall>s \<in> set (ex_two # [ex_two, ex_two]). r \<in> set (objects s)) \<longrightarrow> r \<in> set rs)"
    by (elim exE conjE)
  have "set rs = set (objects ex_two)" using rs(2,3) p by auto
  then show ?thesis using it items rs(1) by blast
qed

definition ex_range :: IterateLoopSegmentsOpts where
  "ex_range = \<lparr>il_BatchSize = 1, il_StartStreamID = 4, il_EndStreamID = 5\<rparr>"

theorem loop_segments_stable_witness:
  "\<exists>it. IterateLoopSegments ex_range ex_two = Inr it \<and>
     (\<exists>rs es. loop_segment_calls [ex_two, ex_two, ex_two] it = (es, Some []) \<and>
        list_all2 (entry_of_row {}) rs es \<and> set rs = set (segments ex_two))"
proof -
  let ?it = "IterateLoopSegments ex_range ex_two"
  have "is_ok ?it" by code_simp
  then obtain it where it: "?it = Inr it" by (cases ?it) auto
  have "map_sum id (\<lambda>it. snd (loop_segment_calls [ex_two, ex_two, ex_two] it)) ?it = Inr (Some [])" by code_simp
  then obtain es where es: "loop_segment_calls [ex_two, ex_two, ex_two] it = (es, Some [])"
    by (cases "loop_segment_calls [ex_two, ex_two, ex_two] it") (simp add: it)
  have "\<forall>g \<in> set (segments ex_two). seg_AliasPieces g = None \<and> Part (seg_Position g) < 0x7fffffff \<and> seg_StreamID g \<noteq> 0"
    by code_simp
  then have r: "\<forall>g \<in> set (segments ex_two). readable {} g" by (simp add: readable_def)
  have al: "aliases_from {} ex_two" using reachable_alias_ok [OF ex_two_reachable] by (simp add: aliases_from_def)
  have "distinct (map segment_key (segments ex_two))" by code_simp
  then have a: "\<forall>s \<in> set (ex_two # [ex_two, ex_two, ex_two]). distinct (map segment_key (segments s)) \<and> aliases_from {} s \<and>
      (\<forall>g \<in> set (segments s). readable {} g)" using r al by simp
  from loop_segments_stable [OF a it es] obtain rs where rs: "list_all2 (entry_of_row {}) rs es"
    "\<forall>g \<in> set rs. in_stream_range ex_range g \<and> (\<exists>s \<in> set (ex_two # [ex_two, ex_two, ex_two]). g \<in> set (segments s))"
    "\<forall>g. in_stream_range ex_range g \<longrightarrow> (\<forall>s \<in> set (ex_two # [ex_two, ex_two, ex_two]). g \<in> set (segments s)) \<longrightarrow> g \<in> set rs"
    by blast
  have "\<forall>g \<in> set (segments ex_two). in_stream_range ex_range g" by code_simp
  then have "set rs = set (segments ex_two)" using rs(2,3) by auto
  then show ?thesis using it es rs(1) by blast
qed

end
