(* ===== verification/RangedLoopProps.thy ===== *)
theory RangedLoopProps
  imports RangedLoop
begin

text \<open>
  The ranges of stream ids partition the ids; a run of the ranged loop gives every observer each
  segment once, whatever the order in which the ranges advance.
\<close>

subsection \<open>The ranges\<close>

definition in_uuid_range :: "UUIDRange \<Rightarrow> uuid \<Rightarrow> bool" where
  "in_uuid_range rng u \<longleftrightarrow> (case rng_Start rng of None \<Rightarrow> True | Some a \<Rightarrow> a < u) \<and>
     (case rng_End rng of None \<Rightarrow> True | Some b \<Rightarrow> u \<le> b)"

lemma ranges_nth:
  "i \<le> length bs \<Longrightarrow> createUUIDRangesFromBoundaries bs ! i =
    \<lparr>rng_Start = (if i \<noteq> 0 then Some (bs ! (i - 1)) else None),
     rng_End = (if i \<noteq> length bs then Some (bs ! i) else None)\<rparr>"
proof -
  assume "i \<le> length bs"
  then have "[0 ..< Suc (length bs)] ! i = i" "i < length [0 ..< Suc (length bs)]"
    using nth_upt [of 0 i "Suc (length bs)"] by simp_all
  then show ?thesis unfolding createUUIDRangesFromBoundaries_def by (simp only: nth_map)
qed

lemma ranges_length: "length (createUUIDRangesFromBoundaries bs) = Suc (length bs)"
  by (simp add: createUUIDRangesFromBoundaries_def)

text \<open>Ascending boundaries cut the ids into ranges that do not overlap and leave none out.\<close>

lemma one_range:
  assumes "sorted_wrt (<) bs"
  shows "\<exists>i \<le> length bs. \<forall>j \<le> length bs. in_uuid_range (createUUIDRangesFromBoundaries bs ! j) u \<longleftrightarrow> j = i"
proof -
  define i where "i = length (takeWhile (\<lambda>b. b < u) bs)"
  have i: "i \<le> length bs" by (simp add: i_def length_takeWhile_le)
  have below: "bs ! k < u" if "k < i" for k
    using that nth_mem [of k "takeWhile (\<lambda>b. b < u) bs"] by (auto simp: i_def takeWhile_nth dest: set_takeWhileD)
  have above: "u \<le> bs ! k" if "i \<le> k" "k < length bs" for k
  proof -
    have "\<not> bs ! i < u" using nth_length_takeWhile [of "\<lambda>b. b < u" bs] that by (simp add: i_def)
    moreover have "bs ! i \<le> bs ! k"
      using that sorted_wrt_nth_less [OF assms, of i k] by (cases "i = k") simp_all
    ultimately show ?thesis by simp
  qed
  have "in_uuid_range (createUUIDRangesFromBoundaries bs ! j) u \<longleftrightarrow> j = i" if j: "j \<le> length bs" for j
  proof
    assume r: "in_uuid_range (createUUIDRangesFromBoundaries bs ! j) u"
    show "j = i"
    proof (rule ccontr)
      assume "j \<noteq> i"
      then consider "j < i" | "i < j" by linarith
      then show False
      proof cases
        case 1
        then have "bs ! j < u" "j \<noteq> length bs" using below i by auto
        then show False using r j by (simp add: ranges_nth in_uuid_range_def not_less [symmetric])
      next
        case 2
        then have "u \<le> bs ! (j - 1)" "j \<noteq> 0" using above [of "j - 1"] j by auto
        then show False using r j by (simp add: ranges_nth in_uuid_range_def not_less [symmetric])
      qed
    qed
  next
    assume "j = i"
    then show "in_uuid_range (createUUIDRangesFromBoundaries bs ! j) u"
      using below [of "i - 1"] above [of i] i by (auto simp: ranges_nth in_uuid_range_def)
  qed
  then show ?thesis using i by blast
qed

lemma unat_32: "unat (c :: 32 word) < 2 ^ 32"
proof -
  have "unat c < 2 ^ LENGTH(32)" by (rule unsigned_less)
  then show ?thesis by simp
qed

lemma unat_MakeUUID: "unat (MakeUUIDWithTopBits c) = unat c * 2 ^ 96"
proof -
  have c: "unat c < 2 ^ 32" using unat_32 [of c] by simp
  have m: "unat c * 2 ^ 96 < 2 ^ 128"
  proof -
    have "unat c * 2 ^ 96 < 2 ^ 32 * 2 ^ 96" using c by (rule mult_strict_right_mono) simp
    also have "(2 :: nat) ^ 32 * 2 ^ 96 = 2 ^ 128" by (simp flip: power_add)
    finally show ?thesis .
  qed
  have "take_bit 128 (unat c) = unat c" by (rule take_bit_nat_eq_self) (use c in simp)
  then have u: "unat (ucast c :: uuid) = unat c" by (simp add: unsigned_ucast_eq)
  have "MakeUUIDWithTopBits c = 2 ^ 96 * ucast c"
    by (simp only: MakeUUIDWithTopBits_def push_bit_eq_mult mult.commute)
  then have "unat (MakeUUIDWithTopBits c) = (unat ((2 :: uuid) ^ 96) * unat c) mod 2 ^ 128"
    by (simp only: unat_word_ariths u) simp
  moreover have "unat ((2 :: uuid) ^ 96) = 2 ^ 96" by simp
  ultimately show ?thesis using m by (simp only: mult.commute mod_less)
qed

lemma boundaries_length: "length (CreateUUIDBoundaries n) = unat n - 1"
  by (simp add: CreateUUIDBoundaries_def Let_def)

lemma boundaries_nth:
  assumes "i < length (CreateUUIDBoundaries n)"
  shows "unat (CreateUUIDBoundaries n ! i) = Suc i * (2 ^ 32 div unat n) * 2 ^ 96"
proof -
  define d where "d = 2 ^ 32 div unat n"
  have i: "Suc i < unat n" using assms by (simp add: boundaries_length)
  then have n: "n \<noteq> 0" "unat n < 2 ^ 32" using unat_32 [of n] by auto
  have "d \<le> 2 ^ 32 div 2" unfolding d_def using i by (intro div_le_mono2) simp_all
  then have d: "d < 2 ^ 32" by simp
  have "Suc i * d < 2 ^ 32 \<or> d = 0"
  proof (cases "d = 0")
    case False
    then have "Suc i * d < unat n * d" using i by (intro mult_strict_right_mono) simp_all
    also have "\<dots> \<le> 2 ^ 32" unfolding d_def by (rule times_div_less_eq_dividend)
    finally show ?thesis by simp
  qed simp
  then have p: "Suc i * d < 2 ^ 32" by auto
  let ?inc = "ucast ((2 ^ 32 :: 64 word) div ucast n) :: 32 word"
  have "unat (ucast n :: 64 word) = unat n"
    using n(2) by (simp add: unsigned_ucast_eq take_bit_nat_eq_self)
  moreover have "unat ((2 :: 64 word) ^ 32) = 2 ^ 32" by simp
  ultimately have "unat ((2 ^ 32 :: 64 word) div ucast n) = d" by (simp only: unat_div d_def)
  then have inc: "unat ?inc = d" using d by (simp add: unsigned_ucast_eq take_bit_nat_eq_self)
  have "unat (word_of_nat (Suc i) :: 32 word) = Suc i mod 2 ^ LENGTH(32)" by (rule unat_of_nat)
  moreover have "Suc i < 2 ^ LENGTH(32)" using i n(2) by simp
  ultimately have si: "unat (word_of_nat (Suc i) :: 32 word) = Suc i" by (simp only: mod_less)
  have "unat (word_of_nat (Suc i) * ?inc) = Suc i * d mod 2 ^ 32"
    by (simp only: unat_word_ariths si inc) simp
  then have "unat (word_of_nat (Suc i) * ?inc) = Suc i * d" using p by (simp only: mod_less)
  moreover have k: "[1 ..< unat n] ! i = Suc i" "i < length [1 ..< unat n]"
    using i nth_upt [of "Suc 0" i "unat n"] by simp_all
  have "CreateUUIDBoundaries n ! i = MakeUUIDWithTopBits (word_of_nat (Suc i) * ?inc)"
    using n(1) k unfolding CreateUUIDBoundaries_def Let_def by (simp only: nth_map if_False)
  ultimately show ?thesis by (simp only: unat_MakeUUID d_def)
qed

lemma boundaries_ascending: "sorted_wrt (<) (CreateUUIDBoundaries n)"
proof (subst sorted_wrt_iff_nth_less, intro allI impI)
  fix i j assume ij: "i < j" "j < length (CreateUUIDBoundaries n)"
  then have "unat n < 2 ^ 32" "0 < unat n" using unat_32 [of n] by (auto simp: boundaries_length)
  then have "0 < 2 ^ 32 div unat n" by (simp add: div_greater_zero_iff)
  then have "Suc i * (2 ^ 32 div unat n) * 2 ^ 96 < Suc j * (2 ^ 32 div unat n) * 2 ^ 96"
    using ij(1) by (intro mult_strict_right_mono) simp_all
  then show "CreateUUIDBoundaries n ! i < CreateUUIDBoundaries n ! j"
    using ij by (simp only: word_less_nat_alt boundaries_nth less_trans)
qed

text \<open>
  Lemma. Splitting into \<open>n\<close> ranges (one for \<open>n = 0\<close>): there are \<open>n\<close> ranges, every stream id is in
  exactly one of them, and the range that begins at the \<open>i\<close>-th boundary begins at \<open>i\<close> times the
  rounded \<open>n\<close>-th part of the id space.
\<close>

theorem CreateUUIDRanges_partition:
  "length (CreateUUIDRanges n) = max 1 (unat n) \<and>
   (\<exists>i < length (CreateUUIDRanges n). \<forall>j < length (CreateUUIDRanges n). in_uuid_range (CreateUUIDRanges n ! j) u \<longleftrightarrow> j = i) \<and>
   rng_Start (CreateUUIDRanges n ! 0) = None \<and>
   (\<forall>i < length (CreateUUIDRanges n) - 1.
      rng_End (CreateUUIDRanges n ! i) = rng_Start (CreateUUIDRanges n ! Suc i) \<and>
      map_option unat (rng_End (CreateUUIDRanges n ! i)) = Some (Suc i * (2 ^ 32 div unat n) * 2 ^ 96)) \<and>
   rng_End (List.last (CreateUUIDRanges n)) = None"
proof -
  let ?bs = "CreateUUIDBoundaries n" and ?rs = "CreateUUIDRanges n"
  have len: "length ?rs = Suc (length ?bs)" by (simp add: CreateUUIDRanges_def ranges_length)
  have "\<exists>i < length ?rs. \<forall>j < length ?rs. in_uuid_range (?rs ! j) u \<longleftrightarrow> j = i"
    using one_range [OF boundaries_ascending, of n u] len by (auto simp: CreateUUIDRanges_def less_Suc_eq_le)
  moreover have "rng_End (?rs ! k) = rng_Start (?rs ! Suc k) \<and>
      map_option unat (rng_End (?rs ! k)) = Some (Suc k * (2 ^ 32 div unat n) * 2 ^ 96)"
    if "k < length ?rs - 1" for k
    using that len boundaries_nth [of k n] by (simp add: CreateUUIDRanges_def ranges_nth)
  moreover have "List.last ?rs = ?rs ! length ?bs" using len by (subst last_conv_nth) auto
  then have "rng_End (List.last ?rs) = None" by (simp add: CreateUUIDRanges_def ranges_nth)
  moreover have "length ?rs = max 1 (unat n)" using len by (auto simp: boundaries_length max_def)
  moreover have "rng_Start (?rs ! 0) = None" by (simp add: CreateUUIDRanges_def ranges_nth)
  ultimately show ?thesis by blast
qed

subsection \<open>The rows of the ranges\<close>

lemma range_end_positive:
  assumes "rng \<in> set (CreateUUIDRanges n)" "rng_End rng = Some b"
  shows "b \<noteq> 0"
proof -
  obtain i where i: "i \<le> length (CreateUUIDBoundaries n)" "rng = CreateUUIDRanges n ! i"
    using assms(1) by (auto simp: in_set_conv_nth CreateUUIDRanges_def ranges_length less_Suc_eq_le)
  then have b: "i < length (CreateUUIDBoundaries n)" "b = CreateUUIDBoundaries n ! i"
    using assms(2) by (auto simp: CreateUUIDRanges_def ranges_nth split: if_splits)
  have "0 < unat n" "unat n < 2 ^ 32" using b(1) unat_32 [of n] by (simp_all add: boundaries_length)
  then have "0 < 2 ^ 32 div unat n" by (simp add: div_greater_zero_iff)
  then have "0 < Suc i * (2 ^ 32 div unat n) * 2 ^ 96" by (simp only: nat_0_less_mult_iff zero_less_Suc) simp
  then have "0 < unat b" unfolding b(2) boundaries_nth [OF b(1)] .
  then show ?thesis by auto
qed

lemma range_options:
  assumes "rng \<in> set (CreateUUIDRanges n)"
  shows "in_stream_range (provider_opts k rng) g \<longleftrightarrow> in_uuid_range rng (seg_StreamID g) \<and> seg_StreamID g \<noteq> 0"
proof -
  have above: "0 < u" if "a < u" for a u :: uuid using le_less_trans [OF word_zero_le that] .
  show ?thesis using range_end_positive [OF assms]
    by (auto simp: in_stream_range_def provider_opts_def in_uuid_range_def word_neq_0_conv intro: above split: option.splits)
qed

lemma range_verified:
  assumes "rng \<in> set (CreateUUIDRanges n)" "0 \<le> k"
  shows "IterateLoopSegments_Verify (provider_opts k rng) = Inr ()"
proof -
  obtain i where i: "i \<le> length (CreateUUIDBoundaries n)" "rng = CreateUUIDRanges n ! i"
    using assms(1) by (auto simp: in_set_conv_nth CreateUUIDRanges_def ranges_length less_Suc_eq_le)
  have "a < b" if "rng_Start rng = Some a" "rng_End rng = Some b" for a b
    using that i sorted_wrt_nth_less [OF boundaries_ascending, of "i - 1" i n]
    by (auto simp: CreateUUIDRanges_def ranges_nth split: if_splits)
  then have "il_StartStreamID (provider_opts k rng) < il_EndStreamID (provider_opts k rng) \<or>
      il_EndStreamID (provider_opts k rng) = 0"
    using range_end_positive [OF assms(1)] by (auto simp: provider_opts_def word_neq_0_conv split: option.splits)
  then show ?thesis using assms(2) by (auto simp: IterateLoopSegments_Verify_def provider_opts_def)
qed

lemma IterateLoopSegments_ok:
  assumes "IterateLoopSegments_Verify opts = Inr ()"
  shows "\<exists>it. IterateLoopSegments opts s = Inr it"
proof -
  define it0 where "it0 = \<lparr>lsi_batchSize = ensure_range loopIteratorBatchSizeLimit (il_BatchSize opts),
    lsi_curIndex = 0, lsi_curRows = [], lsi_cursor = first_cursor opts, lsi_failErr = []\<rparr>"
  have r: "range_ok {} it0" by (simp add: range_ok_def it0_def first_position)
  show ?thesis using assms segment_doNextQuery [OF r, of s]
    by (simp add: IterateLoopSegments_def res_bind_Inr_iff Let_def it0_def first_cursor_def)
qed

lemma collect_batches_concat: "concat (collect_batches k segs es) = segs @ es"
  by (induction k segs es rule: collect_batches.induct) (auto simp: Let_def)

text \<open>What the tables have to be for a run: they do not change, their rows can be read, and the
  calls are enough to get through them.\<close>

definition steady :: "NodeAliasEntry set \<Rightarrow> Segment list \<Rightarrow> store \<times> store list \<Rightarrow> bool" where
  "steady E segs tables \<longleftrightarrow> (\<forall>s \<in> set (fst tables # snd tables). segments s = segs \<and> aliases_from E s) \<and>
     distinct (map segment_key segs) \<and> (\<forall>g \<in> set segs. readable E g) \<and> length segs < length (snd tables)"

lemma provider_steady:
  assumes "rng \<in> set (CreateUUIDRanges n)" "0 \<le> k" "steady E segs tables"
  shows "\<exists>es. provider_Iterate k rng tables = Some (collect_batches k [] es, []) \<and>
    list_all2 (entry_of_row E) (sort_key segment_column (filter (\<lambda>g. in_uuid_range rng (seg_StreamID g)) segs)) es"
proof -
  obtain it where it: "IterateLoopSegments (provider_opts k rng) (fst tables) = Inr it"
    using IterateLoopSegments_ok [OF range_verified [OF assms(1,2)]] by blast
  have t: "\<forall>s \<in> set (fst tables # snd tables). segments s = segs \<and> aliases_from E s"
    "distinct (map segment_key segs)" "\<forall>g \<in> set segs. readable E g" "length segs < length (snd tables)"
    using assms(3) by (auto simp: steady_def)
  have "filter (in_stream_range (provider_opts k rng)) segs = filter (\<lambda>g. in_uuid_range rng (seg_StreamID g)) segs"
    using t(3) by (auto simp: range_options [OF assms(1)] readable_def intro!: filter_cong)
  with loop_segments_constant [OF t(1-3) it t(4)] show ?thesis
    by (auto simp: provider_Iterate_def it)
qed

text \<open>Every segment is in the rows of exactly one range.\<close>

lemma mset_partition:
  assumes "\<forall>x \<in> set xs. \<exists>i < n. \<forall>j < n. P j x \<longleftrightarrow> j = i"
  shows "mset (concat (map (\<lambda>j. filter (P j) xs) [0 ..< n])) = mset xs"
  using assms
proof (induction xs)
  case (Cons x xs)
  then obtain i where i: "i < n" "\<And>j. j < n \<Longrightarrow> P j x \<longleftrightarrow> j = i" by auto
  have "mset (concat (map (\<lambda>j. filter (P j) (x # xs)) [0 ..< n]))
      = (\<Sum>j = 0 ..< n. (if j = i then {#x#} else {#}) + mset (filter (P j) xs))"
    using i(2) by (auto simp: mset_concat sum_list_sum_nth atLeast0LessThan intro!: sum.cong)
  also have "\<dots> = {#x#} + mset (concat (map (\<lambda>j. filter (P j) xs) [0 ..< n]))"
    using i(1) by (simp add: sum.distrib mset_concat sum_list_sum_nth atLeast0LessThan)
  finally show ?case using Cons by simp
qed (induction n; simp)

lemma ranges_partition_rows:
  "mset (concat (map (\<lambda>rng. sort_key segment_column (filter (\<lambda>g. in_uuid_range rng (seg_StreamID g)) segs)) (CreateUUIDRanges n)))
    = mset segs"
proof -
  let ?rs = "CreateUUIDRanges n"
  have one: "\<forall>g \<in> set segs. \<exists>i < length ?rs. \<forall>j < length ?rs. in_uuid_range (?rs ! j) (seg_StreamID g) \<longleftrightarrow> j = i"
    using one_range [OF boundaries_ascending, of n] by (auto simp: CreateUUIDRanges_def ranges_length less_Suc_eq_le)
  have "mset (concat (map (\<lambda>rng. sort_key segment_column (filter (\<lambda>g. in_uuid_range rng (seg_StreamID g)) segs)) ?rs))
      = mset (concat (map (\<lambda>rng. filter (\<lambda>g. in_uuid_range rng (seg_StreamID g)) segs) ?rs))"
    by (simp add: mset_concat comp_def)
  also have "map (\<lambda>rng. filter (\<lambda>g. in_uuid_range rng (seg_StreamID g)) segs) ?rs
      = map (\<lambda>j. filter (\<lambda>g. in_uuid_range (?rs ! j) (seg_StreamID g)) segs) [0 ..< length ?rs]"
    by (rule nth_equalityI) simp_all
  finally show ?thesis using mset_partition [OF one] by simp
qed

subsection \<open>Examples\<close>

theorem CreateUUIDRanges_partition_witness:
  "length (CreateUUIDRanges 4) = 4 \<and> rng_End (CreateUUIDRanges 4 ! 0) = rng_Start (CreateUUIDRanges 4 ! 1)"
  using CreateUUIDRanges_partition [of 4 0] by auto

definition ex_tables :: "store \<times> store list" where
  "ex_tables = (ex_two, [ex_two, ex_two, ex_two])"

lemma ex_tables_steady: "steady {} (segments ex_two) ex_tables"
proof -
  have "\<forall>g \<in> set (segments ex_two). seg_AliasPieces g = None \<and> Part (seg_Position g) < 0x7fffffff \<and> seg_StreamID g \<noteq> 0"
    by code_simp
  then have "\<forall>g \<in> set (segments ex_two). readable {} g" by (simp add: readable_def)
  moreover have "distinct (map segment_key (segments ex_two)) \<and> length (segments ex_two) < 3" by code_simp
  moreover have "aliases_from {} ex_two" using reachable_alias_ok [OF ex_two_reachable] by (simp add: aliases_from_def)
  ultimately show ?thesis by (simp add: steady_def ex_tables_def)
qed

text \<open>An object of one remote segment with its copy.\<close>

definition ex_remote_tables :: "store \<times> store list" where
  "ex_remote_tables = (ex_copied, [ex_copied, ex_copied, ex_copied])"

definition ex_entries :: "NodeAliasEntry set" where
  "ex_entries = table_entries (alias_db ex_copied)"

lemma ex_remote_steady: "steady ex_entries (segments ex_copied) ex_remote_tables"
proof -
  have row: "\<forall>g \<in> set (segments ex_copied). case AliasPieces_Scan (seg_AliasPieces g) of Inl e \<Rightarrow> False
      | Inr aps \<Rightarrow> converts ex_entries aps (if aps = [] then [] else ex_pieces 70) \<and>
          Part (seg_Position g) < 0x7fffffff \<and> seg_StreamID g \<noteq> 0" by code_simp
  have "readable ex_entries g" if "g \<in> set (segments ex_copied)" for g
    using bspec [OF row that] by (cases "AliasPieces_Scan (seg_AliasPieces g)") (auto simp: readable_def column_pieces_def)
  moreover have "distinct (map segment_key (segments ex_copied)) \<and> length (segments ex_copied) < 3" by code_simp
  moreover have "aliases_from ex_entries ex_copied"
    using reachable_alias_ok [OF ex_copied_reachable] by (simp add: aliases_from_def ex_entries_def)
  ultimately show ?thesis by (simp add: steady_def ex_remote_tables_def)
qed

end
