(* ===== verification/ObserverLaws.thy ===== *)
theory ObserverLaws
  imports RangedLoopProps
begin

text \<open>
  What an observer of the ranged loop has to promise, and what the loop promises it in return. The
  locale \<open>observer_laws\<close> is the \<open>Observer\<close> and \<open>Partial\<close> interfaces with the meaning of their
  methods; an observer that finishes has been given the segments of every range, each range's in
  order, whatever the order in which the ranges advanced. \<open>total_observer\<close> extends it with methods that
  do not fail; then the loop finishes.
\<close>

subsection \<open>The batches of the ranges\<close>

lemma enumerate_filter:
  "r < length qs \<Longrightarrow>
    map snd (filter (\<lambda>e. fst e = s + r) (concat (map (\<lambda>(k, q). map (Pair k) q) (enumerate s qs)))) = qs ! r"
proof (induction qs arbitrary: s r)
  case (Cons q qs)
  have none: "filter (\<lambda>e. fst e = s) (concat (map (\<lambda>(k, q). map (Pair k) q) (enumerate (Suc s) qs))) = []"
    by (auto simp: filter_empty_conv in_set_enumerate_eq)
  show ?case
  proof (cases r)
    case 0 then show ?thesis by (simp add: none filter_map comp_def)
  next
    case (Suc r')
    then show ?thesis using Cons.IH [of r' "Suc s"] Cons.prems by (simp add: filter_map comp_def)
  qed
qed simp

text \<open>Each range's batches stay in their order.\<close>

lemma interleave_range:
  "r < length qs \<Longrightarrow> map snd (filter (\<lambda>e. fst e = r) (interleave rs qs)) = qs ! r"
proof (induction rs qs rule: interleave.induct)
  case (1 qs) then show ?case using enumerate_filter [of r qs 0] by simp
next
  case (2 k rs qs)
  show ?case
  proof (cases "k < length qs")
    case True
    then show ?thesis using 2 by (cases "qs ! k") (auto simp: nth_list_update)
  qed (use 2 in simp)
qed

lemma interleave_bound: "e \<in> set (interleave rs qs) \<Longrightarrow> fst e < length qs"
proof (induction rs qs rule: interleave.induct)
  case (1 qs) then show ?case by (auto simp: in_set_enumerate_eq)
next
  case (2 k rs qs)
  then show ?case by (cases "qs ! k") (auto split: if_splits)
qed

subsection \<open>One observer among several\<close>

text \<open>What the batches of a run do to one observer; no result when it stops a range.\<close>

fun feed ::
  "('o, 'p) observer_methods \<Rightarrow> (nat \<times> LoopSegmentEntry list) list \<Rightarrow> ('o, 'p) observerState \<Rightarrow>
     ('o, 'p) observerState option" where
  "feed ops [] st = Some st"
| "feed ops ((r, batch) # evs) st =
     (case process_range ops r batch st of
        (st', None) \<Rightarrow> feed ops evs st'
      | (st', Some e) \<Rightarrow> None)"

lemma processBatch_each:
  "processBatch ops r batch sts = (sts', None) \<Longrightarrow> map (\<lambda>st. process_range ops r batch st) sts = map (\<lambda>st. (st, None)) sts'"
proof (induction sts arbitrary: sts')
  case (Cons st sts)
  then show ?case by (auto split: prod.splits option.splits)
qed simp

lemma run_batches_stopped: "run_batches ops evs stopped sts = (sts', []) \<Longrightarrow> stopped = []"
  by (induction ops evs stopped sts rule: run_batches.induct) (auto split: if_splits prod.splits option.splits)

text \<open>In a run where no range stopped, the observers do not influence each other.\<close>

lemma run_batches_each:
  "run_batches ops evs [] sts = (sts', []) \<Longrightarrow> map (feed ops evs) sts = map Some sts'"
proof (induction evs arbitrary: sts)
  case (Cons e evs)
  obtain r batch where e: "e = (r, batch)" by (cases e)
  obtain sts1 err where b: "processBatch ops r batch sts = (sts1, err)" by (cases "processBatch ops r batch sts")
  show ?case
  proof (cases err)
    case None
    then have each: "map (\<lambda>st. process_range ops r batch st) sts = map (\<lambda>st. (st, None)) sts1"
      using processBatch_each b by blast
    have "map (feed ops (e # evs)) sts
        = map (\<lambda>(st, err). case err of None \<Rightarrow> feed ops evs st | Some e \<Rightarrow> None) (map (\<lambda>st. process_range ops r batch st) sts)"
      by (simp add: e comp_def)
    also have "\<dots> = map (feed ops evs) sts1" unfolding each by (simp add: comp_def)
    also have "\<dots> = map Some sts'" using Cons b None by (simp add: e)
    finally show ?thesis .
  next
    case (Some x)
    then show ?thesis using Cons.prems b by (auto simp: e dest: run_batches_stopped)
  qed
qed simp

subsection \<open>The entries of the ranges\<close>

definition range_rows :: "UUIDRange \<Rightarrow> Segment list \<Rightarrow> Segment list" where
  "range_rows rng segs = sort_key segment_column (filter (\<lambda>g. in_uuid_range rng (seg_StreamID g)) segs)"

text \<open>The entries of a stream are next to each other, in one range.\<close>

definition streams_apart :: "LoopSegmentEntry list list \<Rightarrow> bool" where
  "streams_apart ess \<longleftrightarrow> (\<forall>es \<in> set ess. sorted (map lse_StreamID es)) \<and>
     sorted_wrt (\<lambda>xs ys. lse_StreamID ` set xs \<inter> lse_StreamID ` set ys = {}) ess"

lemma range_rows_sorted: "sorted (map seg_StreamID (range_rows rng segs))"
proof -
  have "sorted (map segment_column (range_rows rng segs))" by (simp add: range_rows_def)
  then show ?thesis
    by (auto simp: sorted_map segment_column_def less_eq_prod_def elim!: sorted_wrt_mono_rel [rotated])
qed

lemma entries_streams: "list_all2 (entry_of_row E) gs es \<Longrightarrow> map lse_StreamID es = map seg_StreamID gs"
  by (induction rule: list_all2_induct) (auto simp: entry_of_row_def)

lemma ranges_rows_apart:
  assumes "list_all2 (\<lambda>rng es. list_all2 (entry_of_row E) (range_rows rng segs) es) (CreateUUIDRanges n) ess"
  shows "\<exists>es. list_all2 (entry_of_row E) segs es \<and> mset es = mset (concat ess) \<and> streams_apart ess"
proof -
  let ?rs = "CreateUUIDRanges n"
  have len: "length ess = length ?rs" using list_all2_lengthD [OF assms] by simp
  have streams: "map lse_StreamID (ess ! r) = map seg_StreamID (range_rows (?rs ! r) segs)" if "r < length ?rs" for r
    using list_all2_nthD [OF assms that] by (rule entries_streams)
  have "list_all2 (list_all2 (entry_of_row E)) (map (\<lambda>rng. range_rows rng segs) ?rs) ess"
    using assms by (simp add: list_all2_map1)
  then have "list_all2 (entry_of_row E) (concat (map (\<lambda>rng. range_rows rng segs) ?rs)) (concat ess)"
    by (rule concat_transfer [THEN rel_funD])
  moreover have "mset segs = mset (concat (map (\<lambda>rng. range_rows rng segs) ?rs))"
    using ranges_partition_rows by (simp add: range_rows_def)
  ultimately obtain es where "list_all2 (entry_of_row E) segs es" "mset es = mset (concat ess)"
    using list_all2_reorder_left_invariance by metis
  moreover have "sorted (map lse_StreamID es)" if "es \<in> set ess" for es
    using that streams range_rows_sorted len by (auto simp: in_set_conv_nth)
  moreover have "sorted_wrt (\<lambda>xs ys. lse_StreamID ` set xs \<inter> lse_StreamID ` set ys = {}) ess"
  proof (rule sorted_wrt_iff_nth_less [THEN iffD2], intro allI impI)
    fix i j assume ij: "i < j" "j < length ess"
    have sets: "lse_StreamID ` set (ess ! r) \<subseteq> {u. in_uuid_range (?rs ! r) u}" if "r < length ess" for r
      using arg_cong [OF streams [of r], of set] that len by (auto simp: range_rows_def)
    have "\<not> (in_uuid_range (?rs ! i) u \<and> in_uuid_range (?rs ! j) u)" for u
      using one_range [OF boundaries_ascending, of n u] ij len
      by (auto simp: CreateUUIDRanges_def ranges_length less_Suc_eq_le)
    then show "lse_StreamID ` set (ess ! i) \<inter> lse_StreamID ` set (ess ! j) = {}"
      using sets [of i] sets [of j] ij by force
  qed
  ultimately show ?thesis unfolding streams_apart_def by blast
qed

subsection \<open>The contract\<close>

text \<open>\<open>began obs t c\<close>: the observer \<open>obs\<close> started at \<open>t\<close> may have the context \<open>c\<close>, which it shares with its partials;
  \<open>joined c obs ess\<close>: the observer has joined partials that saw \<open>ess\<close>; \<open>represents c p es\<close>: the partial has seen
  \<open>es\<close>; \<open>finished obs t obs' ess\<close>: what the observer \<open>obs\<close> has become when it finishes.\<close>

locale observer_laws =
  fixes ops :: "('o, 'p) observer_methods"
    and began :: "'o \<Rightarrow> time \<Rightarrow> 'c \<Rightarrow> bool"
    and joined :: "'c \<Rightarrow> 'o \<Rightarrow> LoopSegmentEntry list list \<Rightarrow> bool"
    and represents :: "'c \<Rightarrow> 'p \<Rightarrow> LoopSegmentEntry list \<Rightarrow> bool"
    and finished :: "'o \<Rightarrow> time \<Rightarrow> 'o \<Rightarrow> LoopSegmentEntry list list \<Rightarrow> bool"
  assumes start: "m_Start ops t obs = (obs', None) \<Longrightarrow> \<exists>c. began obs t c \<and> joined c obs' []"
    and fork: "joined c obs [] \<Longrightarrow> m_Fork ops obs = (obs', r) \<Longrightarrow>
      joined c obs' [] \<and> (\<forall>p. r = Inr p \<longrightarrow> represents c p [])"
    and process: "represents c p es \<Longrightarrow> m_Process ops batch p = (p', None) \<Longrightarrow> represents c p' (es @ batch)"
    and join: "joined c obs ess \<Longrightarrow> represents c p es \<Longrightarrow> m_Join ops p obs = (obs', None) \<Longrightarrow>
      joined c obs' (ess @ [es])"
    and finish: "began obs0 t c \<Longrightarrow> joined c obs ess \<Longrightarrow> m_Finish ops obs = (obs', None) \<Longrightarrow> finished obs0 t obs' ess"
begin

text \<open>The state of an observer while the ranges run: range \<open>r\<close> has been given \<open>given r\<close>.\<close>

definition tracking :: "'c \<Rightarrow> nat \<Rightarrow> (nat \<Rightarrow> LoopSegmentEntry list) \<Rightarrow> ('o, 'p) observerState \<Rightarrow> bool" where
  "tracking c n given st \<longleftrightarrow> joined c (os_observer st) [] \<and> length (os_rangeObservers st) = n \<and>
     (\<forall>r < n. ros_err (os_rangeObservers st ! r) = None \<longrightarrow>
        (\<exists>p. ros_rangeObserver (os_rangeObservers st ! r) = Some p \<and> represents c p (given r)))"

lemma fork_tracking:
  assumes "tracking c n (\<lambda>r. []) st" "os_err st = None"
  shows "tracking c (Suc n) (\<lambda>r. []) (fork_range ops st) \<and> os_err (fork_range ops st) = None"
proof -
  obtain obs' r where f: "m_Fork ops (os_observer st) = (obs', r)" by (cases "m_Fork ops (os_observer st)")
  then show ?thesis using assms fork [of c "os_observer st" obs' r]
    by (cases r) (auto simp: tracking_def fork_range_def nth_append less_Suc_eq)
qed

lemma forks_tracking:
  assumes "joined c (os_observer st) []" "os_rangeObservers st = []" "os_err st = None"
  shows "tracking c n (\<lambda>r. []) ((fork_range ops ^^ n) st) \<and> os_err ((fork_range ops ^^ n) st) = None"
  using assms by (induction n) (auto simp: tracking_def [of c 0] dest: fork_tracking)

lemma process_tracking:
  assumes "tracking c n given st" "os_err st = None" "r < n"
    and "snd (process_range ops r batch st) = None"
  shows "tracking c n (given(r := given r @ batch)) (fst (process_range ops r batch st)) \<and>
    os_err (fst (process_range ops r batch st)) = None"
proof -
  let ?s = "os_rangeObservers st ! r"
  show ?thesis
  proof (cases "\<exists>p. ros_rangeObserver ?s = Some p \<and> ros_err ?s = None")
    case True
    then obtain p where p: "ros_rangeObserver ?s = Some p" "ros_err ?s = None" by blast
    obtain p' err where m: "m_Process ops batch p = (p', err)" by (cases "m_Process ops batch p")
    have "represents c p (given r)" using assms(1,3) p by (auto simp: tracking_def)
    then have "err = None \<Longrightarrow> represents c p' (given r @ batch)" using process m by blast
    then show ?thesis using assms p m by (auto simp: tracking_def process_range_def Let_def nth_list_update)
  next
    case False
    then have "process_range ops r batch st = (st, None)"
      using assms(2) by (auto simp: process_range_def Let_def split: option.splits)
    then show ?thesis using False assms by (auto simp: tracking_def)
  qed
qed

lemma feed_tracking:
  assumes "tracking c n given st" "os_err st = None" "\<forall>e \<in> set evs. fst e < n" "feed ops evs st = Some st'"
  shows "tracking c n (\<lambda>r. given r @ concat (map snd (filter (\<lambda>e. fst e = r) evs))) st'"
  using assms
proof (induction evs arbitrary: given st)
  case (Cons e evs)
  obtain r batch where e: "e = (r, batch)" by (cases e)
  obtain st1 where p: "process_range ops r batch st = (st1, None)" and f: "feed ops evs st1 = Some st'"
    using Cons.prems(4) by (auto simp: e split: prod.splits option.splits)
  have t: "tracking c n (given(r := given r @ batch)) st1" "os_err st1 = None"
    using process_tracking [OF Cons.prems(1,2), of r batch] Cons.prems(3) p by (auto simp: e)
  have "(\<lambda>q. given q @ concat (map snd (filter (\<lambda>x. fst x = q) (e # evs))))
      = (\<lambda>q. (given(r := given r @ batch)) q @ concat (map snd (filter (\<lambda>x. fst x = q) evs)))"
    by (auto simp: e)
  with Cons.IH [OF t] Cons.prems(3) f show ?case by simp
qed simp

lemma join_all_joined:
  assumes "joined c obs ess" "list_all2 (\<lambda>s es. \<exists>p. ros_rangeObserver s = Some p \<and> represents c p es) ss ess'"
    and "join_all ops ss obs = (obs', None)"
  shows "joined c obs' (ess @ ess')"
  using assms(2,1,3)
proof (induction ss ess' arbitrary: obs ess rule: list_all2_induct)
  case (Cons s ss es ess')
  then obtain p where p: "ros_rangeObserver s = Some p" "represents c p es" by blast
  obtain obs1 err where m: "m_Join ops p obs = (obs1, err)" by (cases "m_Join ops p obs")
  with Cons.prems p have "err = None" by (auto split: option.splits)
  with m Cons.prems p have "joined c obs1 (ess @ [es])" "join_all ops ss obs1 = (obs', None)"
    using join by auto
  then show ?case using Cons.IH by fastforce
qed simp

lemma finishObserver_finished:
  assumes "tracking c n given st" "began obs0 t c" "finishObserver ops st = (obs, True)"
  shows "finished obs0 t obs (map given [0 ..< n])"
proof -
  obtain obs1 where j: "join_all ops (os_rangeObservers st) (os_observer st) = (obs1, None)"
    and f: "m_Finish ops obs1 = (obs, None)"
    and ok: "\<forall>s \<in> set (os_rangeObservers st). ros_err s = None"
    using assms(3) by (auto simp: finishObserver_def split: if_splits prod.splits option.splits)
  have "list_all2 (\<lambda>s es. \<exists>p. ros_rangeObserver s = Some p \<and> represents c p es)
      (os_rangeObservers st) (map given [0 ..< n])"
    using assms(1) ok by (auto simp: tracking_def list_all2_conv_all_nth)
  then have "joined c obs1 (map given [0 ..< n])"
    using join_all_joined [of c "os_observer st" "[]"] j assms(1) by (fastforce simp: tracking_def)
  then show ?thesis using finish assms(2) f by blast
qed

text \<open>A run: the observer that finished has been given, range by range, what the provider delivers.\<close>

lemma RunOnce_finished:
  assumes "RunOnce ops t n k schedule tables observers = Some (Inr results)"
    and i: "i < length results" "results ! i = (obs, True)"
  shows "\<exists>ess. finished (observers ! i) t obs ess \<and>
    list_all2 (\<lambda>(rng, tab) es. \<exists>batches. provider_Iterate k rng tab = Some (batches, []) \<and> es = concat batches)
      (zip (CreateUUIDRanges n) tables) ess"
proof -
  let ?ranges = "CreateUUIDRanges n" and ?states = "map (startObserver ops t) observers"
  let ?runs = "map2 (provider_Iterate k) ?ranges tables"
  let ?qs = "map (fst \<circ> the) ?runs" and ?evs = "interleave schedule (map (fst \<circ> the) ?runs)"
  obtain sts where some: "None \<notin> set ?runs" "length tables = length ?ranges"
    and run: "run_batches ops ?evs [] (map (\<lambda>st. (fork_range ops ^^ length ?ranges) st) ?states) = (sts, [])"
    and errs: "\<forall>run \<in> set ?runs. snd (the run) = []"
    and results: "results = map (finishObserver ops) sts"
    using assms(1) by (auto simp: RunOnce_def Let_def split: if_splits prod.splits)
  have i: "i < length sts" "finishObserver ops (sts ! i) = (obs, True)"
    using assms(2,3) by (simp_all add: results)
  have len: "length sts = length observers"
    using arg_cong [OF run_batches_each [OF run], of length] by simp
  define st0 where "st0 = startObserver ops t (observers ! i)"
  have f: "feed ops ?evs ((fork_range ops ^^ length ?ranges) st0) = Some (sts ! i)"
    using arg_cong [OF run_batches_each [OF run], of "\<lambda>xs. xs ! i"] i len by (simp add: st0_def)
  have e0: "os_err st0 = None"
  proof (rule ccontr)
    assume e: "os_err st0 \<noteq> None"
    then have "(fork_range ops ^^ m) st0 = st0" for m by (induction m) (simp_all add: fork_range_def)
    moreover have "feed ops evs st0 = Some st0" for evs
      by (induction evs) (use e in \<open>auto simp: process_range_def\<close>)
    ultimately have "sts ! i = st0" using f by simp
    then show False using i e by (simp add: finishObserver_def)
  qed
  obtain c where c: "began (observers ! i) t c" "joined c (os_observer st0) []" and r0: "os_rangeObservers st0 = []"
    using e0 start [of t "observers ! i"] by (auto simp: st0_def startObserver_def split: prod.splits)
  note forked = forks_tracking [OF c(2) r0 e0, of "length ?ranges"]
  have qs: "length ?qs = length ?ranges" using some(2) by simp
  define given where "given = (\<lambda>r. concat (map snd (filter (\<lambda>e. fst e = r) ?evs)))"
  have "tracking c (length ?ranges) given (sts ! i)"
    using feed_tracking [of c "length ?ranges" "\<lambda>r. []", OF forked [THEN conjunct1] forked [THEN conjunct2] _ f]
      interleave_bound [of _ schedule ?qs] qs by (simp add: given_def)
  then have "finished (observers ! i) t obs (map given [0 ..< length ?ranges])" by (rule finishObserver_finished [OF _ c(1) i(2)])
  moreover have "list_all2 (\<lambda>(rng, tab) es. \<exists>batches. provider_Iterate k rng tab = Some (batches, []) \<and> es = concat batches)
      (zip ?ranges tables) (map given [0 ..< length ?ranges])"
  proof (rule list_all2_all_nthI)
    fix r assume r: "r < length (zip ?ranges tables)"
    then have m: "?runs ! r \<in> set ?runs" using nth_mem [of r ?runs] by simp
    have g: "given r = concat (?qs ! r)" using r some(2) by (simp add: given_def interleave_range)
    have "?runs ! r \<noteq> None" using some(1) m by metis
    then obtain batches es where x: "?runs ! r = Some (batches, es)" by force
    have it: "provider_Iterate k (?ranges ! r) (tables ! r) = Some (batches, es)" using x r by simp
    have e: "es = []" using errs m x by (metis option.sel snd_conv)
    show "(case zip ?ranges tables ! r of (rng, tab) \<Rightarrow> \<lambda>es. \<exists>batches. provider_Iterate k rng tab = Some (batches, []) \<and>
        es = concat batches) (map given [0 ..< length ?ranges] ! r)"
      using r g it e some(2) by simp
  qed (use some(2) in simp)
  ultimately show ?thesis by blast
qed

text \<open>Over tables that do not change: every row is seen once, the rows of a stream one after the other
  and in the same range.\<close>

lemma RunOnce_rows:
  assumes run: "RunOnce ops t n k schedule tables observers = Some (Inr results)" "i < length results" "results ! i = (obs, True)"
    and k: "0 \<le> k" and steady: "\<forall>tab \<in> set tables. steady E segs tab"
  shows "\<exists>ess es. finished (observers ! i) t obs ess \<and> list_all2 (entry_of_row E) segs es \<and> mset es = mset (concat ess) \<and>
    streams_apart ess"
proof -
  obtain ess where fin: "finished (observers ! i) t obs ess"
    and ess: "list_all2 (\<lambda>(rng, tab) es. \<exists>batches. provider_Iterate k rng tab = Some (batches, []) \<and> es = concat batches)
      (zip (CreateUUIDRanges n) tables) ess"
    using RunOnce_finished [OF run] by blast
  have len: "length tables = length (CreateUUIDRanges n)"
    using run(1) by (auto simp: RunOnce_def Let_def split: if_splits)
  have "list_all2 (\<lambda>rng es. list_all2 (entry_of_row E) (range_rows rng segs) es) (CreateUUIDRanges n) ess"
  proof (rule list_all2_all_nthI)
    show "length (CreateUUIDRanges n) = length ess" using list_all2_lengthD [OF ess] len by simp
  next
    fix r assume r: "r < length (CreateUUIDRanges n)"
    then obtain batches where b: "provider_Iterate k (CreateUUIDRanges n ! r) (tables ! r) = Some (batches, [])"
      "ess ! r = concat batches"
      using list_all2_nthD [OF ess, of r] len by auto
    obtain es where "provider_Iterate k (CreateUUIDRanges n ! r) (tables ! r) = Some (collect_batches k [] es, [])"
      "list_all2 (entry_of_row E) (range_rows (CreateUUIDRanges n ! r) segs) es"
      using provider_steady [of "CreateUUIDRanges n ! r" n k E segs "tables ! r"] r len k steady
      by (auto simp: range_rows_def)
    with b show "list_all2 (entry_of_row E) (range_rows (CreateUUIDRanges n ! r) segs) (ess ! r)"
      using collect_batches_concat [of k "[]" es] by auto
  qed
  then show ?thesis using ranges_rows_apart fin by blast
qed

end

subsection \<open>Observers whose methods do not fail\<close>

definition running :: "('o, 'p) observerState \<Rightarrow> bool" where
  "running st \<longleftrightarrow> os_err st = None \<and> (\<forall>s \<in> set (os_rangeObservers st). ros_err s = None)"

locale total_observer = observer_laws +
  assumes start_total: "snd (m_Start ops t obs) = None"
    and fork_total: "isl (snd (m_Fork ops obs)) = False"
    and process_total: "snd (m_Process ops batch p) = None"
    and join_total: "joined c obs ess \<Longrightarrow> represents c p es \<Longrightarrow> snd (m_Join ops p obs) = None"
    and finish_total: "snd (m_Finish ops obs) = None"
begin

lemma fork_running:
  assumes "running st"
  shows "running (fork_range ops st)"
proof -
  obtain obs' p where "m_Fork ops (os_observer st) = (obs', Inr p)"
    using fork_total [of "os_observer st"] by (cases "m_Fork ops (os_observer st)"; cases "snd (m_Fork ops (os_observer st))") auto
  then show ?thesis using assms by (auto simp: running_def fork_range_def)
qed

lemma forks_running: "running st \<Longrightarrow> running ((fork_range ops ^^ n) st)"
  by (induction n) (auto intro: fork_running)

lemma process_running:
  assumes "running st" "r < length (os_rangeObservers st)"
  shows "running (fst (process_range ops r batch st)) \<and> snd (process_range ops r batch st) = None"
proof (cases "ros_rangeObserver (os_rangeObservers st ! r)")
  case (Some p)
  obtain p' where "m_Process ops batch p = (p', None)"
    using process_total [of batch p] by (cases "m_Process ops batch p") auto
  moreover have "ros_err (os_rangeObservers st ! r) = None" using assms by (auto simp: running_def)
  ultimately show ?thesis using assms Some
    by (auto simp: running_def process_range_def Let_def dest!: subsetD [OF set_update_subset_insert])
qed (use assms in \<open>auto simp: process_range_def Let_def\<close>)

lemma processBatch_running:
  assumes "\<forall>st \<in> set sts. running st \<and> length (os_rangeObservers st) = n" "r < n"
  shows "\<exists>sts'. processBatch ops r batch sts = (sts', None) \<and> length sts' = length sts \<and>
    (\<forall>st \<in> set sts'. running st \<and> length (os_rangeObservers st) = n)"
  using assms(1)
proof (induction sts)
  case (Cons st sts)
  obtain st' where "process_range ops r batch st = (st', None)" "running st'"
    using process_running [of st r batch] Cons.prems assms(2) by (cases "process_range ops r batch st") auto
  moreover from this have "length (os_rangeObservers st') = n"
    using Cons.prems by (auto simp: process_range_def Let_def split: if_splits option.splits prod.splits)
  ultimately show ?case using Cons by force
qed simp

lemma run_batches_running:
  assumes "\<forall>st \<in> set sts. running st \<and> length (os_rangeObservers st) = n" "\<forall>e \<in> set evs. fst e < n"
  shows "\<exists>sts'. run_batches ops evs [] sts = (sts', []) \<and> length sts' = length sts \<and> (\<forall>st \<in> set sts'. running st)"
  using assms
proof (induction evs arbitrary: sts)
  case (Cons e evs)
  obtain r batch where e: "e = (r, batch)" by (cases e)
  obtain sts1 where "processBatch ops r batch sts = (sts1, None)" "length sts1 = length sts"
    "\<forall>st \<in> set sts1. running st \<and> length (os_rangeObservers st) = n"
    using processBatch_running [OF Cons.prems(1), of r batch] Cons.prems(2) e by auto
  then show ?case using Cons.IH [of sts1] Cons.prems(2) by (simp add: e)
qed simp

lemma join_all_total:
  assumes "joined c obs ess" "list_all2 (\<lambda>s es. \<exists>p. ros_rangeObserver s = Some p \<and> represents c p es) ss ess'"
  shows "snd (join_all ops ss obs) = None"
  using assms(2,1)
proof (induction ss ess' arbitrary: obs ess rule: list_all2_induct)
  case (Cons s ss es ess')
  then obtain p where p: "ros_rangeObserver s = Some p" "represents c p es" by blast
  obtain obs1 where m: "m_Join ops p obs = (obs1, None)"
    using join_total [OF Cons.prems p(2)] by (cases "m_Join ops p obs") auto
  then have "joined c obs1 (ess @ [es])" using join Cons.prems p(2) by blast
  then show ?case using Cons.IH m p(1) by simp
qed simp

lemma finishObserver_total:
  assumes "tracking c n given st" "running st"
  shows "snd (finishObserver ops st)"
proof -
  have "list_all2 (\<lambda>s es. \<exists>p. ros_rangeObserver s = Some p \<and> represents c p es)
      (os_rangeObservers st) (map given [0 ..< n])"
    using assms by (auto simp: tracking_def running_def list_all2_conv_all_nth)
  then have "snd (join_all ops (os_rangeObservers st) (os_observer st)) = None"
    using join_all_total assms(1) by (auto simp: tracking_def)
  then obtain obs1 where j: "join_all ops (os_rangeObservers st) (os_observer st) = (obs1, None)"
    by (cases "join_all ops (os_rangeObservers st) (os_observer st)") auto
  obtain obs2 where "m_Finish ops obs1 = (obs2, None)"
    using finish_total [of obs1] by (cases "m_Finish ops obs1") auto
  with j show ?thesis using assms(2) by (auto simp: finishObserver_def running_def)
qed

text \<open>The loop returns and every observer finishes.\<close>

lemma RunOnce_returns:
  assumes k: "0 \<le> k" and tables: "length tables = length (CreateUUIDRanges n)" "\<forall>tab \<in> set tables. steady E segs tab"
  shows "\<exists>results. RunOnce ops t n k schedule tables observers = Some (Inr results) \<and>
    length results = length observers \<and> (\<forall>res \<in> set results. snd res)"
proof -
  let ?ranges = "CreateUUIDRanges n" and ?states = "map (startObserver ops t) observers"
  let ?runs = "map2 (provider_Iterate k) ?ranges tables"
  let ?evs = "interleave schedule (map (fst \<circ> the) ?runs)"
  let ?forked = "map (\<lambda>st. (fork_range ops ^^ length ?ranges) st) ?states"
  have runs: "\<exists>batches. run = Some (batches, [])" if run: "run \<in> set ?runs" for run
  proof -
    obtain rng tab where "run = provider_Iterate k rng tab" "rng \<in> set ?ranges" "tab \<in> set tables"
      using run by (auto dest: set_zip_leftD set_zip_rightD)
    then show ?thesis using provider_steady [of rng n k E segs tab] k tables(2) by blast
  qed
  have started: "os_err (startObserver ops t obs) = None" "os_rangeObservers (startObserver ops t obs) = []"
    "\<exists>c. joined c (os_observer (startObserver ops t obs)) []" for obs
    using start_total [of t obs] start [of t obs]
    by (auto simp: startObserver_def split: prod.splits)
  have f: "running st \<and> length (os_rangeObservers st) = length ?ranges \<and> os_err st = None \<and>
      (\<exists>c. tracking c (length ?ranges) (\<lambda>r. []) st)" if st: "st \<in> set ?forked" for st
  proof -
    obtain obs where o: "st = (fork_range ops ^^ length ?ranges) (startObserver ops t obs)" using st by auto
    obtain c where "joined c (os_observer (startObserver ops t obs)) []" using started(3) by blast
    from forks_tracking [OF this started(2,1), of "length ?ranges"]
      forks_running [of "startObserver ops t obs" "length ?ranges"]
    show ?thesis using started by (auto simp: o running_def tracking_def)
  qed
  have bound: "\<forall>e \<in> set ?evs. fst e < length ?ranges" using interleave_bound tables(1) by fastforce
  obtain sts where sts: "run_batches ops ?evs [] ?forked = (sts, [])" "length sts = length observers" "\<forall>st \<in> set sts. running st"
    using run_batches_running [of ?forked "length ?ranges" ?evs] f bound by auto
  have "snd (finishObserver ops st)" if st: "st \<in> set sts" for st
  proof -
    obtain i where i: "i < length sts" "st = sts ! i" using st by (auto simp: in_set_conv_nth)
    have "feed ops ?evs (?forked ! i) = Some st"
      using arg_cong [OF run_batches_each [OF sts(1)], of "\<lambda>xs. xs ! i"] i sts(2) by simp
    moreover have "?forked ! i \<in> set ?forked" using i sts(2) by (intro nth_mem) simp
    then obtain c where "tracking c (length ?ranges) (\<lambda>r. []) (?forked ! i)" "os_err (?forked ! i) = None"
      using f by blast
    ultimately have "tracking c (length ?ranges) (\<lambda>r. [] @ concat (map snd (filter (\<lambda>e. fst e = r) ?evs))) st"
      using bound by (intro feed_tracking) auto
    then show ?thesis using finishObserver_total sts(3) st by blast
  qed
  moreover have "None \<notin> set ?runs" "\<not> (\<exists>run \<in> set ?runs. snd (the run) \<noteq> [])" using runs by fastforce+
  ultimately show ?thesis using sts tables(1)
    by (simp add: RunOnce_def Let_def)
qed

end

end
