(* ===== verification/MetricsObserver.thy ===== *)
theory MetricsObserver
  imports ObserverLaws
begin

text \<open>
  The object statistics of \<open>satellite/metrics\<close>: the observer of the ranged loop (\<open>observer.go\<close>,
  \<open>metrics.go\<close>), shown to count streams and bytes exactly, and the counter of the older segment
  loop (\<open>counter.go\<close>), which counts objects wrongly. Counters of \<open>int64\<close> are \<open>int\<close>: they sum the
  \<open>int32\<close> sizes of the rows of one table.
\<close>

subsection \<open>The observer of the ranged loop\<close>

record Metrics =
  RemoteObjects :: int
  InlineObjects :: int
  TotalInlineBytes :: int
  TotalRemoteBytes :: int
  TotalInlineSegments :: int
  TotalRemoteSegments :: int

definition zero_Metrics :: Metrics where
  "zero_Metrics = \<lparr>RemoteObjects = 0, InlineObjects = 0, TotalInlineBytes = 0, TotalRemoteBytes = 0,
     TotalInlineSegments = 0, TotalRemoteSegments = 0\<rparr>"

definition Metrics_Aggregate :: "Metrics \<Rightarrow> Metrics \<Rightarrow> Metrics" where
  "Metrics_Aggregate part m =
     \<lparr>RemoteObjects = RemoteObjects m + RemoteObjects part,
      InlineObjects = InlineObjects m + InlineObjects part,
      TotalInlineBytes = TotalInlineBytes m + TotalInlineBytes part,
      TotalRemoteBytes = TotalRemoteBytes m + TotalRemoteBytes part,
      TotalInlineSegments = TotalInlineSegments m + TotalInlineSegments part,
      TotalRemoteSegments = TotalRemoteSegments m + TotalRemoteSegments part\<rparr>"

record streamMetrics =
  remoteSegments :: int
  remoteBytes :: int
  inlineSegments :: int
  inlineBytes :: int

definition zero_streamMetrics :: streamMetrics where
  "zero_streamMetrics = \<lparr>remoteSegments = 0, remoteBytes = 0, inlineSegments = 0, inlineBytes = 0\<rparr>"

record observerFork =
  of_totals :: Metrics
  of_stream :: streamMetrics
  of_streamID :: uuid

definition zero_observerFork :: observerFork where
  "zero_observerFork = \<lparr>of_totals = zero_Metrics, of_stream = zero_streamMetrics, of_streamID = 0\<rparr>"

definition observerFork_Flush :: "observerFork \<Rightarrow> observerFork" where
  "observerFork_Flush fork =
     (let t = of_totals fork; s = of_stream fork;
          t = t\<lparr>TotalInlineSegments := TotalInlineSegments t + inlineSegments s,
                TotalRemoteSegments := TotalRemoteSegments t + remoteSegments s,
                TotalInlineBytes := TotalInlineBytes t + inlineBytes s,
                TotalRemoteBytes := TotalRemoteBytes t + remoteBytes s\<rparr>;
          t = (if remoteSegments s > 0 then t\<lparr>RemoteObjects := RemoteObjects t + 1\<rparr>
               else if inlineSegments s > 0 then t\<lparr>InlineObjects := InlineObjects t + 1\<rparr>
               else t)
      in fork\<lparr>of_totals := t, of_stream := zero_streamMetrics\<rparr>)"

definition observerFork_segment :: "LoopSegmentEntry \<Rightarrow> observerFork \<Rightarrow> observerFork" where
  "observerFork_segment segment fork =
     (let fork = (if of_streamID fork \<noteq> lse_StreamID segment
                  then (observerFork_Flush fork)\<lparr>of_streamID := lse_StreamID segment\<rparr> else fork);
          s = of_stream fork
      in if LoopSegmentEntry_Inline segment
         then fork\<lparr>of_stream := s\<lparr>inlineSegments := inlineSegments s + 1,
                                  inlineBytes := inlineBytes s + lse_EncryptedSize segment\<rparr>\<rparr>
         else fork\<lparr>of_stream := s\<lparr>remoteSegments := remoteSegments s + 1,
                                  remoteBytes := remoteBytes s + lse_EncryptedSize segment\<rparr>\<rparr>)"

definition observerFork_Process :: "LoopSegmentEntry list \<Rightarrow> observerFork \<Rightarrow> observerFork \<times> obs_error option" where
  "observerFork_Process batch fork = (fold observerFork_segment batch fork, None)"

text \<open>The observer; \<open>mo_observed\<close> is what \<open>Finish\<close> hands to the monitoring.\<close>

record metrics_Observer =
  mo_metrics :: Metrics
  mo_observed :: "Metrics option"

definition metrics_methods :: "(metrics_Observer, observerFork) observer_methods" where
  "metrics_methods =
     \<lparr>m_Start = (\<lambda>startTime obs. (obs\<lparr>mo_metrics := zero_Metrics\<rparr>, None)),
      m_Fork = (\<lambda>obs. (obs, Inr zero_observerFork)),
      m_Process = observerFork_Process,
      m_Join = (\<lambda>fork obs.
        (obs\<lparr>mo_metrics := Metrics_Aggregate (of_totals (observerFork_Flush fork)) (mo_metrics obs)\<rparr>, None)),
      m_Finish = (\<lambda>obs. (obs\<lparr>mo_observed := Some (mo_metrics obs)\<rparr>, None))\<rparr>"

subsection \<open>What the numbers mean\<close>

text \<open>A remote object is a stream with a remote segment, an inline object one with segments and no
  remote one.\<close>

definition remote_entries :: "LoopSegmentEntry list \<Rightarrow> LoopSegmentEntry list" where
  "remote_entries es = filter (\<lambda>e. \<not> LoopSegmentEntry_Inline e) es"

definition inline_entries :: "LoopSegmentEntry list \<Rightarrow> LoopSegmentEntry list" where
  "inline_entries es = filter LoopSegmentEntry_Inline es"

definition remote_streams :: "LoopSegmentEntry list \<Rightarrow> uuid set" where
  "remote_streams es = lse_StreamID ` set (remote_entries es)"

definition metrics_of :: "LoopSegmentEntry list \<Rightarrow> Metrics" where
  "metrics_of es =
     \<lparr>RemoteObjects = int (card (remote_streams es)),
      InlineObjects = int (card (lse_StreamID ` set es - remote_streams es)),
      TotalInlineBytes = sum_list (map lse_EncryptedSize (inline_entries es)),
      TotalRemoteBytes = sum_list (map lse_EncryptedSize (remote_entries es)),
      TotalInlineSegments = int (length (inline_entries es)),
      TotalRemoteSegments = int (length (remote_entries es))\<rparr>"

lemma metrics_of_mset:
  assumes "mset es = mset es'"
  shows "metrics_of es = metrics_of es'"
proof -
  have f: "mset (filter P es) = mset (filter P es')" for P using assms by simp
  have "sum_list (map lse_EncryptedSize (filter P es)) = sum_list (map lse_EncryptedSize (filter P es'))" for P
    using arg_cong [OF f [of P], of "\<lambda>m. sum_mset (image_mset lse_EncryptedSize m)"] by (simp flip: sum_mset_sum_list)
  moreover have "set (filter P es) = set (filter P es')" for P using mset_eq_setD [OF f] .
  moreover have "length (filter P es) = length (filter P es')" for P using mset_eq_length [OF f] .
  moreover have "set es = set es'" using assms by (rule mset_eq_setD)
  ultimately show ?thesis by (simp add: metrics_of_def remote_streams_def remote_entries_def inline_entries_def)
qed

lemma mset_split: "mset (filter (\<lambda>x. f x \<noteq> u) xs @ filter (\<lambda>x. f x = u) xs) = mset xs"
  by (induction xs) auto

lemma metrics_of_append:
  assumes "lse_StreamID ` set xs \<inter> lse_StreamID ` set ys = {}"
  shows "metrics_of (xs @ ys) = Metrics_Aggregate (metrics_of ys) (metrics_of xs)"
proof -
  have r: "remote_streams zs \<subseteq> lse_StreamID ` set zs" for zs by (auto simp: remote_streams_def remote_entries_def)
  have u: "remote_streams (xs @ ys) = remote_streams xs \<union> remote_streams ys"
    by (auto simp: remote_streams_def remote_entries_def)
  have fin: "finite (remote_streams zs)" for zs by (simp add: remote_streams_def)
  have "card (remote_streams (xs @ ys)) = card (remote_streams xs) + card (remote_streams ys)"
    unfolding u by (rule card_Un_disjoint) (use fin r [of xs] r [of ys] assms in auto)
  moreover have "lse_StreamID ` set (xs @ ys) - remote_streams (xs @ ys)
      = (lse_StreamID ` set xs - remote_streams xs) \<union> (lse_StreamID ` set ys - remote_streams ys)"
    unfolding u using r [of xs] r [of ys] assms by auto
  then have "card (lse_StreamID ` set (xs @ ys) - remote_streams (xs @ ys))
      = card (lse_StreamID ` set xs - remote_streams xs) + card (lse_StreamID ` set ys - remote_streams ys)"
    by (simp only:) (rule card_Un_disjoint, use assms in auto)
  ultimately show ?thesis
    by (simp add: metrics_of_def Metrics_Aggregate_def remote_entries_def inline_entries_def)
qed

lemma Metrics_zero [simp]: "Metrics_Aggregate zero_Metrics m = m" "Metrics_Aggregate m zero_Metrics = m" "metrics_of [] = zero_Metrics"
  by (simp_all add: Metrics_Aggregate_def zero_Metrics_def metrics_of_def remote_streams_def remote_entries_def inline_entries_def)

subsection \<open>The partial\<close>

definition stream_metrics_of :: "LoopSegmentEntry list \<Rightarrow> streamMetrics" where
  "stream_metrics_of es =
     \<lparr>remoteSegments = int (length (remote_entries es)), remoteBytes = sum_list (map lse_EncryptedSize (remote_entries es)),
      inlineSegments = int (length (inline_entries es)), inlineBytes = sum_list (map lse_EncryptedSize (inline_entries es))\<rparr>"

lemma Flush_stream:
  assumes "\<forall>e \<in> set es. lse_StreamID e = u" "of_stream fork = stream_metrics_of es"
  shows "of_totals (observerFork_Flush fork) = Metrics_Aggregate (metrics_of es) (of_totals fork)"
proof -
  have r: "remote_streams es = (if remote_entries es = [] then {} else {u})"
    using assms(1) by (auto simp: remote_streams_def remote_entries_def filter_empty_conv)
  have i: "lse_StreamID ` set es - remote_streams es = (if remote_entries es = [] \<and> inline_entries es \<noteq> [] then {u} else {})"
    using assms(1) unfolding r by (auto simp: remote_entries_def inline_entries_def filter_empty_conv)
  have "card (remote_streams es) = (if remote_entries es = [] then 0 else 1)" unfolding r by simp
  moreover have "card (lse_StreamID ` set es - remote_streams es)
      = (if remote_entries es = [] \<and> inline_entries es \<noteq> [] then 1 else 0)" unfolding i by simp
  ultimately show ?thesis using assms(2)
    by (cases "of_totals fork")
      (simp add: metrics_of_def observerFork_Flush_def Let_def stream_metrics_of_def Metrics_Aggregate_def)
qed

lemma Flush_rest: "of_stream (observerFork_Flush fork) = zero_streamMetrics" "of_streamID (observerFork_Flush fork) = of_streamID fork"
  by (simp_all add: observerFork_Flush_def Let_def)

lemma fork_state:
  assumes "sorted (map lse_StreamID es)" "es \<noteq> []" "0 \<notin> lse_StreamID ` set es"
  shows "let fork = fold observerFork_segment es zero_observerFork; u = lse_StreamID (List.last es) in
    of_streamID fork = u \<and> of_totals fork = metrics_of (filter (\<lambda>e. lse_StreamID e \<noteq> u) es) \<and>
    of_stream fork = stream_metrics_of (filter (\<lambda>e. lse_StreamID e = u) es)"
  using assms
proof (induction es rule: rev_induct)
  case (snoc e es)
  show ?case
  proof (cases "es = []")
    case True
    have "lse_StreamID e \<noteq> 0" using snoc.prems(3) by auto
    then show ?thesis using True
      by (simp add: observerFork_segment_def zero_observerFork_def observerFork_Flush_def zero_streamMetrics_def
        Let_def stream_metrics_of_def remote_entries_def inline_entries_def)
  next
    case False
    define fork where "fork = fold observerFork_segment es zero_observerFork"
    define u where "u = lse_StreamID (List.last es)"
    have f: "of_streamID fork = u" "of_totals fork = metrics_of (filter (\<lambda>e. lse_StreamID e \<noteq> u) es)"
      "of_stream fork = stream_metrics_of (filter (\<lambda>e. lse_StreamID e = u) es)"
      using snoc False by (simp_all add: fork_def u_def Let_def sorted_append)
    have step: "fold observerFork_segment (es @ [e]) zero_observerFork = observerFork_segment e fork"
      by (simp add: fork_def)
    have le: "\<forall>x \<in> set es. lse_StreamID x \<le> lse_StreamID e" using snoc.prems(1) by (simp add: sorted_append)
    show ?thesis
    proof (cases "u = lse_StreamID e")
      case True
      then show ?thesis unfolding step using f
        by (simp add: observerFork_segment_def Let_def stream_metrics_of_def
          remote_entries_def inline_entries_def)
    next
      case neq: False
      have "sorted (map lse_StreamID es)" using snoc.prems(1) by (simp add: sorted_append)
      then have "\<forall>x \<in> set es. lse_StreamID x \<le> u"
        using False by (cases es rule: rev_cases) (auto simp: u_def sorted_append)
      moreover have "u < lse_StreamID e" using le neq False by (auto simp: u_def intro: le_neq_trans)
      ultimately have new: "filter (\<lambda>x. lse_StreamID x \<noteq> lse_StreamID e) es = es"
        "filter (\<lambda>x. lse_StreamID x = lse_StreamID e) es = []"
        by (auto simp: filter_id_conv filter_empty_conv)
      then have none: "filter (\<lambda>x. lse_StreamID x = lse_StreamID e \<and> P x) es = []" for P
        by (auto simp: filter_empty_conv)
      have "of_totals (observerFork_Flush fork)
          = Metrics_Aggregate (metrics_of (filter (\<lambda>e. lse_StreamID e = u) es)) (metrics_of (filter (\<lambda>e. lse_StreamID e \<noteq> u) es))"
        using Flush_stream [OF _ f(3), of u] f(2) by simp
      also have "\<dots> = metrics_of (filter (\<lambda>e. lse_StreamID e \<noteq> u) es @ filter (\<lambda>e. lse_StreamID e = u) es)"
        by (rule metrics_of_append [symmetric]) auto
      also have "\<dots> = metrics_of es" by (rule metrics_of_mset [OF mset_split])
      finally show ?thesis unfolding step using f(1) neq new none
        by (simp add: observerFork_segment_def Let_def stream_metrics_of_def
          remote_entries_def inline_entries_def Flush_rest zero_streamMetrics_def)
    qed
  qed
qed simp

lemma fork_totals:
  assumes "sorted (map lse_StreamID es)" "0 \<notin> lse_StreamID ` set es"
  shows "of_totals (observerFork_Flush (fold observerFork_segment es zero_observerFork)) = metrics_of es"
proof (cases "es = []")
  case False
  define fork where "fork = fold observerFork_segment es zero_observerFork"
  define u where "u = lse_StreamID (List.last es)"
  have f: "of_totals fork = metrics_of (filter (\<lambda>e. lse_StreamID e \<noteq> u) es)"
    "of_stream fork = stream_metrics_of (filter (\<lambda>e. lse_StreamID e = u) es)"
    using fork_state [OF assms(1) False assms(2)] by (simp_all add: fork_def u_def Let_def)
  have "of_totals (observerFork_Flush fork)
      = Metrics_Aggregate (metrics_of (filter (\<lambda>e. lse_StreamID e = u) es)) (metrics_of (filter (\<lambda>e. lse_StreamID e \<noteq> u) es))"
    using Flush_stream [OF _ f(2), of u] f(1) by simp
  also have "\<dots> = metrics_of (filter (\<lambda>e. lse_StreamID e \<noteq> u) es @ filter (\<lambda>e. lse_StreamID e = u) es)"
    by (rule metrics_of_append [symmetric]) auto
  also have "\<dots> = metrics_of es" by (rule metrics_of_mset [OF mset_split])
  finally show ?thesis by (simp add: fork_def)
qed (simp add: zero_observerFork_def observerFork_Flush_def zero_streamMetrics_def zero_Metrics_def Let_def)

subsection \<open>The observer keeps the contract\<close>

definition fork_metrics :: "LoopSegmentEntry list \<Rightarrow> Metrics" where
  "fork_metrics es = of_totals (observerFork_Flush (fold observerFork_segment es zero_observerFork))"

definition joined_metrics :: "LoopSegmentEntry list list \<Rightarrow> Metrics" where
  "joined_metrics ess = fold (\<lambda>es. Metrics_Aggregate (fork_metrics es)) ess zero_Metrics"

interpretation metrics_obs: total_observer metrics_methods "\<lambda>obs t c. True"
  "\<lambda>(c :: unit) obs ess. mo_metrics obs = joined_metrics ess"
  "\<lambda>c fork es. fork = fold observerFork_segment es zero_observerFork"
  "\<lambda>obs0 t obs ess. mo_observed obs = Some (joined_metrics ess)"
  by unfold_locales (auto simp: metrics_methods_def joined_metrics_def fork_metrics_def observerFork_Process_def)

lemma joined_metrics_streams:
  assumes "streams_apart ess" "0 \<notin> lse_StreamID ` set (concat ess)"
  shows "joined_metrics ess = metrics_of (concat ess)"
  using assms
proof (induction ess rule: rev_induct)
  case (snoc es ess)
  have apart: "streams_apart ess" and d: "lse_StreamID ` set (concat ess) \<inter> lse_StreamID ` set es = {}"
    using snoc.prems(1) by (fastforce simp: streams_apart_def sorted_wrt_append)+
  have "metrics_of (concat ess @ es) = Metrics_Aggregate (metrics_of es) (metrics_of (concat ess))"
    by (rule metrics_of_append [OF d])
  moreover have "fork_metrics es = metrics_of es"
    using fork_totals [of es] snoc.prems by (auto simp: fork_metrics_def streams_apart_def)
  moreover have "joined_metrics ess = metrics_of (concat ess)"
    by (rule snoc.IH [OF apart]) (use snoc.prems(2) in auto)
  ultimately show ?case by (simp add: joined_metrics_def)
qed (simp add: joined_metrics_def)

text \<open>
  Property C26. Over tables that do not change a loop with the metrics observer returns, however the
  ranges are scheduled, and what the observer publishes is exact: the streams with a remote segment,
  the other streams, and the segments and bytes of each kind, every segment of the table once.
\<close>

theorem metrics_loop_exact:
  assumes "0 \<le> k" "length tables = length (CreateUUIDRanges n)" "\<forall>tab \<in> set tables. steady E segs tab"
  shows "\<exists>results. RunOnce metrics_methods t n k schedule tables observers = Some (Inr results) \<and>
    length results = length observers \<and>
    (\<forall>(obs, finished) \<in> set results. finished \<and>
       (\<exists>es. list_all2 (entry_of_row E) segs es \<and> mo_observed obs = Some (metrics_of es)))"
proof -
  obtain results where run: "RunOnce metrics_methods t n k schedule tables observers = Some (Inr results)"
    and len: "length results = length observers" and ok: "\<forall>res \<in> set results. snd res"
    using metrics_obs.RunOnce_returns [OF assms] by blast
  have "\<exists>es. list_all2 (entry_of_row E) segs es \<and> mo_observed obs = Some (metrics_of es)"
    if res: "(obs, True) \<in> set results" for obs
  proof -
    obtain i where i: "i < length results" "results ! i = (obs, True)" using res by (auto simp: in_set_conv_nth)
    obtain ess es where e: "mo_observed obs = Some (joined_metrics ess)" "list_all2 (entry_of_row E) segs es"
      "mset es = mset (concat ess)" "streams_apart ess"
      using metrics_obs.RunOnce_rows [OF run i assms(1,3)] by blast
    have "0 \<notin> lse_StreamID ` set (concat ess)"
    proof -
      obtain tab where "tab \<in> set tables" using assms(2) by (cases tables) (auto simp: CreateUUIDRanges_def ranges_length)
      then have "0 \<notin> seg_StreamID ` set segs" using assms(3) by (auto simp: steady_def readable_def)
      then have "0 \<notin> set (map lse_StreamID es)" using entries_streams [OF e(2)] by simp
      then show ?thesis using mset_eq_setD [OF e(3)] by simp
    qed
    then have "joined_metrics ess = metrics_of es" using joined_metrics_streams e(3,4) metrics_of_mset by metis
    then show ?thesis using e by auto
  qed
  then show ?thesis using run len ok by fastforce
qed

theorem metrics_loop_exact_witness:
  "\<exists>results. RunOnce metrics_methods 20 2 1 [1, 0] [ex_tables, ex_tables] [\<lparr>mo_metrics = zero_Metrics, mo_observed = None\<rparr>]
      = Some (Inr results) \<and>
    (\<forall>(obs, finished) \<in> set results. finished \<and> mo_observed obs = Some
       \<lparr>RemoteObjects = 0, InlineObjects = 1, TotalInlineBytes = 6, TotalRemoteBytes = 0,
        TotalInlineSegments = 2, TotalRemoteSegments = 0\<rparr>)"
proof -
  have t: "\<forall>tab \<in> set [ex_tables, ex_tables]. steady {} (segments ex_two) tab" using ex_tables_steady by simp
  have n: "length [ex_tables, ex_tables] = length (CreateUUIDRanges 2)"
    by (simp add: CreateUUIDRanges_def ranges_length boundaries_length)
  have "metrics_of es = \<lparr>RemoteObjects = 0, InlineObjects = 1, TotalInlineBytes = 6, TotalRemoteBytes = 0,
        TotalInlineSegments = 2, TotalRemoteSegments = 0\<rparr>"
    if es: "list_all2 (entry_of_row {}) (segments ex_two) es" for es
  proof -
    have rows: "\<forall>x \<in> set (segments ex_two). seg_StreamID x = 5 \<and> seg_EncryptedSize x = 3 \<and>
        seg_AliasPieces x = None \<and> seg_Redundancy x = 0" by code_simp
    obtain g h where gh: "segments ex_two = [g, h]" using ex_two_rows by blast
    obtain a b where ab: "es = [a, b]" "entry_of_row {} g a" "entry_of_row {} h b"
      using es by (auto simp: gh list_all2_Cons1)
    have inline: "LoopSegmentEntry_Inline e \<and> lse_StreamID e = 5 \<and> lse_EncryptedSize e = 3"
      if "x \<in> set (segments ex_two)" "entry_of_row {} x e" for x e
    proof -
      have "RedundancyScheme_Scan 0 = Inr zero_RedundancyScheme" "AliasPieces_Scan None = Inr []" by code_simp+
      then have "lse_Redundancy e = zero_RedundancyScheme" "lse_AliasPieces e = []"
        using that rows by (simp_all add: entry_of_row_def)
      then show ?thesis using that rows by (simp add: entry_of_row_def LoopSegmentEntry_Inline_def converts_def)
    qed
    have "\<forall>x \<in> set es. lse_StreamID x = 5 \<and> lse_EncryptedSize x = 3 \<and> LoopSegmentEntry_Inline x"
      using inline [OF _ ab(2)] inline [OF _ ab(3)] by (simp add: ab(1) gh)
    then show ?thesis
      by (simp add: ab(1) metrics_of_def remote_entries_def inline_entries_def remote_streams_def)
  qed
  then show ?thesis
    using metrics_loop_exact [OF _ n t, of 1 20 "[1, 0]" "[\<lparr>mo_metrics = zero_Metrics, mo_observed = None\<rparr>]"] by fastforce
qed

subsection \<open>The counter of the segment loop\<close>

record Counter =
  ctr_RemoteObjects :: int
  ctr_InlineObjects :: int
  ctr_TotalInlineBytes :: int
  ctr_TotalRemoteBytes :: int
  ctr_TotalInlineSegments :: int
  ctr_TotalRemoteSegments :: int
  ctr_lastStreamID :: uuid
  ctr_onlyInline :: bool

definition NewCounter :: Counter where
  "NewCounter = \<lparr>ctr_RemoteObjects = 0, ctr_InlineObjects = 0, ctr_TotalInlineBytes = 0, ctr_TotalRemoteBytes = 0,
     ctr_TotalInlineSegments = 0, ctr_TotalRemoteSegments = 0, ctr_lastStreamID = 0, ctr_onlyInline = True\<rparr>"

definition Counter_RemoteSegment :: "LoopSegmentEntry \<Rightarrow> Counter \<Rightarrow> Counter" where
  "Counter_RemoteSegment segment c =
     (let c = c\<lparr>ctr_onlyInline := False,
                ctr_TotalRemoteBytes := ctr_TotalRemoteBytes c + lse_EncryptedSize segment,
                ctr_TotalRemoteSegments := ctr_TotalRemoteSegments c + 1\<rparr>
      in if ctr_lastStreamID c \<noteq> lse_StreamID segment
         then c\<lparr>ctr_RemoteObjects := ctr_RemoteObjects c + 1, ctr_lastStreamID := lse_StreamID segment,
                ctr_onlyInline := True\<rparr>
         else c)"

definition Counter_InlineSegment :: "LoopSegmentEntry \<Rightarrow> Counter \<Rightarrow> Counter" where
  "Counter_InlineSegment segment c =
     (let c = c\<lparr>ctr_TotalInlineBytes := ctr_TotalInlineBytes c + lse_EncryptedSize segment,
                ctr_TotalInlineSegments := ctr_TotalInlineSegments c + 1\<rparr>
      in if ctr_lastStreamID c \<noteq> lse_StreamID segment
         then (if ctr_onlyInline c then c\<lparr>ctr_InlineObjects := ctr_InlineObjects c + 1\<rparr>
               else c\<lparr>ctr_RemoteObjects := ctr_RemoteObjects c + 1\<rparr>)
              \<lparr>ctr_lastStreamID := lse_StreamID segment, ctr_onlyInline := True\<rparr>
         else c)"

text \<open>How the segment loop hands one segment to the observer (\<open>handleSegment\<close>).\<close>

definition Counter_handle :: "LoopSegmentEntry \<Rightarrow> Counter \<Rightarrow> Counter" where
  "Counter_handle segment c =
     (if LoopSegmentEntry_Inline segment then Counter_InlineSegment segment c else Counter_RemoteSegment segment c)"

text \<open>
  Lemma. After an object of two remote segments the counter takes the next object, which has
  only an inline segment, for a remote one: it counts two remote objects and no inline one, where the
  statistics of these segments are one and one.
\<close>

theorem Counter_miscounts_inline:
  assumes "\<not> LoopSegmentEntry_Inline a" "\<not> LoopSegmentEntry_Inline b" "LoopSegmentEntry_Inline c"
    and "lse_StreamID a \<noteq> 0" "lse_StreamID b = lse_StreamID a" "lse_StreamID c \<noteq> lse_StreamID a"
  shows "let counter = fold Counter_handle [a, b, c] NewCounter in
    ctr_RemoteObjects counter = 2 \<and> ctr_InlineObjects counter = 0 \<and>
    RemoteObjects (metrics_of [a, b, c]) = 1 \<and> InlineObjects (metrics_of [a, b, c]) = 1"
  using assms
  by (auto simp: Counter_handle_def Counter_RemoteSegment_def Counter_InlineSegment_def NewCounter_def Let_def
    metrics_of_def remote_streams_def remote_entries_def)

definition ex_entry :: "uuid \<Rightarrow> Pieces \<Rightarrow> LoopSegmentEntry" where
  "ex_entry u ps = \<lparr>lse_StreamID = u, lse_Position = \<lparr>Part = 0, Index = 0\<rparr>, lse_CreatedAt = 10, lse_ExpiresAt = None,
     lse_RepairedAt = None, lse_RootPieceID = 7, lse_EncryptedSize = 100, lse_PlainOffset = 0, lse_PlainSize = 90,
     lse_AliasPieces = [], lse_Redundancy = zero_RedundancyScheme, lse_Pieces = ps, lse_Placement = None\<rparr>"

theorem Counter_miscounts_inline_witness:
  "ctr_RemoteObjects (fold Counter_handle
      [ex_entry 1 [\<lparr>Number = 0, StorageNode = 9\<rparr>], ex_entry 1 [\<lparr>Number = 0, StorageNode = 9\<rparr>], ex_entry 2 []] NewCounter) = 2"
  using Counter_miscounts_inline [of "ex_entry 1 [\<lparr>Number = 0, StorageNode = 9\<rparr>]"
      "ex_entry 1 [\<lparr>Number = 0, StorageNode = 9\<rparr>]" "ex_entry 2 []"]
  by (simp add: LoopSegmentEntry_Inline_def ex_entry_def Let_def)

end
