(* ===== verification/NodeTally.thy ===== *)
theory NodeTally
  imports ObserverLaws Complex_Main "HOL-Library.AList" "HOL-Library.Signed_Division"
begin

text \<open>
  The node tally (\<open>satellite/accounting/nodetally\<close>): the bytes each storage node holds, added up by an
  observer of the ranged loop and saved as byte hours with the time of the tally
  (\<open>storagenodeaccounting.go\<close>). A time is a number of nanoseconds. Sums of \<open>float64\<close> are exact for
  integers below \<open>2 ^ 53\<close> and are \<open>int\<close> here; byte hours are exact rationals.
\<close>

subsection \<open>The accounting tables\<close>

record accounting_db =
  accounting_timestamps :: "string \<rightharpoonup> time"
  storagenode_storage_tallies :: "(time \<times> node_id \<times> rat) list"

definition LastAtRestTally :: string where
  "LastAtRestTally = ''LastAtRestTally''"

definition LastTimestamp :: "string \<Rightarrow> accounting_db \<Rightarrow> accounting_db \<times> time" where
  "LastTimestamp timestampType db =
     (case accounting_timestamps db timestampType of
        None \<Rightarrow> (db\<lparr>accounting_timestamps := (accounting_timestamps db)(timestampType \<mapsto> zero_time)\<rparr>, zero_time)
      | Some t \<Rightarrow> (db, t))"

text \<open>The key of the table is the end of the interval with the node.\<close>

definition SaveTallies :: "time \<Rightarrow> (node_id \<times> rat) list \<Rightarrow> accounting_db \<Rightarrow> accounting_db \<times> obs_error option" where
  "SaveTallies latestTally nodeData db =
     (if \<exists>(t, n, v) \<in> set (storagenode_storage_tallies db). t = latestTally \<and> n \<in> fst ` set nodeData
      then (db, Some (ObserverError ''StorageNodeAccounting.SaveTallies failed''))
      else (db\<lparr>storagenode_storage_tallies := storagenode_storage_tallies db @ map (\<lambda>(n, v). (latestTally, n, v)) nodeData,
               accounting_timestamps := (accounting_timestamps db)(LastAtRestTally \<mapsto> latestTally)\<rparr>, None))"

subsection \<open>The observer\<close>

definition hours :: "time \<Rightarrow> rat" where
  "hours d = of_int d / (60 * 60 * 1000000000)"

definition LoopSegmentEntry_Expired :: "time \<Rightarrow> LoopSegmentEntry \<Rightarrow> bool" where
  "LoopSegmentEntry_Expired now e \<longleftrightarrow> (case lse_ExpiresAt e of None \<Rightarrow> False | Some t \<Rightarrow> t < now)"

text \<open>\<open>Node[id] += val\<close> on the map of the usages.\<close>

definition add_usage :: "node_id \<Rightarrow> int \<Rightarrow> (node_id \<times> int) list \<Rightarrow> (node_id \<times> int) list" where
  "add_usage n val = AList.map_default n val (\<lambda>x. x + val)"

definition processSegment :: "time \<Rightarrow> LoopSegmentEntry \<Rightarrow> (node_id \<times> int) list \<Rightarrow> (node_id \<times> int) list" where
  "processSegment now segment node =
     (if LoopSegmentEntry_Inline segment then node
      else if LoopSegmentEntry_Expired now segment then node
      else let minimumRequired = RequiredShares (lse_Redundancy segment) in
        if minimumRequired \<le> 0 then node
        else let pieceSize = lse_EncryptedSize segment sdiv minimumRequired in
          fold (\<lambda>piece. add_usage (StorageNode piece) pieceSize) (lse_Pieces segment) node)"

text \<open>The readings of the clock: the start, the \<open>j\<close>-th batch of the \<open>i\<close>-th partial, the end.\<close>

record tally_clock =
  tc_start :: time
  tc_batch :: "nat \<Rightarrow> nat \<Rightarrow> time"
  tc_finish :: time

record RangedLoopPartial =
  rlp_Node :: "(node_id \<times> int) list"
  rlp_fork :: nat
  rlp_batches :: nat

record RangedLoopObserver =
  rlo_accounting :: accounting_db
  rlo_lastTallyTime :: time
  rlo_Node :: "(node_id \<times> int) list"
  rlo_forks :: nat

definition RangedLoopObserver_Start ::
  "tally_clock \<Rightarrow> time \<Rightarrow> RangedLoopObserver \<Rightarrow> RangedLoopObserver \<times> obs_error option" where
  "RangedLoopObserver_Start clock startTime obs =
     (case LastTimestamp LastAtRestTally (rlo_accounting obs) of
        (db, t) \<Rightarrow> (obs\<lparr>rlo_Node := [], rlo_accounting := db,
          rlo_lastTallyTime := (if t = zero_time then tc_start clock else t)\<rparr>, None))"

definition RangedLoopObserver_Fork :: "RangedLoopObserver \<Rightarrow> RangedLoopObserver \<times> (obs_error + RangedLoopPartial)" where
  "RangedLoopObserver_Fork obs =
     (obs\<lparr>rlo_forks := rlo_forks obs + 1\<rparr>, Inr \<lparr>rlp_Node = [], rlp_fork = rlo_forks obs, rlp_batches = 0\<rparr>)"

definition RangedLoopPartial_Process ::
  "tally_clock \<Rightarrow> LoopSegmentEntry list \<Rightarrow> RangedLoopPartial \<Rightarrow> RangedLoopPartial \<times> obs_error option" where
  "RangedLoopPartial_Process clock batch part =
     (let now = tc_batch clock (rlp_fork part) (rlp_batches part) in
      (part\<lparr>rlp_Node := fold (processSegment now) batch (rlp_Node part), rlp_batches := rlp_batches part + 1\<rparr>, None))"

definition RangedLoopObserver_Join ::
  "RangedLoopPartial \<Rightarrow> RangedLoopObserver \<Rightarrow> RangedLoopObserver \<times> obs_error option" where
  "RangedLoopObserver_Join part obs =
     (obs\<lparr>rlo_Node := fold (\<lambda>(node, val). add_usage node val) (rlp_Node part) (rlo_Node obs)\<rparr>, None)"

definition RangedLoopObserver_Finish ::
  "tally_clock \<Rightarrow> RangedLoopObserver \<Rightarrow> RangedLoopObserver \<times> obs_error option" where
  "RangedLoopObserver_Finish clock obs =
     (let h = hours (tc_finish clock - rlo_lastTallyTime obs);
          byteHours = map (\<lambda>(node, pieceSize). (node, of_int pieceSize * h)) (rlo_Node obs)
      in case SaveTallies (tc_finish clock) byteHours (rlo_accounting obs) of
           (db, err) \<Rightarrow> (obs\<lparr>rlo_accounting := db\<rparr>, err))"

definition nodetally_methods :: "tally_clock \<Rightarrow> (RangedLoopObserver, RangedLoopPartial) observer_methods" where
  "nodetally_methods clock =
     \<lparr>m_Start = RangedLoopObserver_Start clock, m_Fork = RangedLoopObserver_Fork,
      m_Process = RangedLoopPartial_Process clock, m_Join = RangedLoopObserver_Join,
      m_Finish = RangedLoopObserver_Finish clock\<rparr>"

text \<open>The observer of the older segment loop (\<open>node_tally.go\<close>), which has one time for all segments.\<close>

definition nodetally_RemoteSegment :: "time \<Rightarrow> LoopSegmentEntry \<Rightarrow> (node_id \<times> int) list \<Rightarrow> (node_id \<times> int) list" where
  "nodetally_RemoteSegment now segment node =
     (if LoopSegmentEntry_Expired now segment then node
      else let minimumRequired = RequiredShares (lse_Redundancy segment) in
        if minimumRequired \<le> 0 then node
        else let pieceSize = lse_EncryptedSize segment sdiv minimumRequired in
          fold (\<lambda>piece. add_usage (StorageNode piece) pieceSize) (lse_Pieces segment) node)"

definition nodetally_handle :: "time \<Rightarrow> LoopSegmentEntry \<Rightarrow> (node_id \<times> int) list \<Rightarrow> (node_id \<times> int) list" where
  "nodetally_handle now segment node =
     (if LoopSegmentEntry_Inline segment then node else nodetally_RemoteSegment now segment node)"

subsection \<open>What a node is credited with\<close>

text \<open>A segment counts for a node once for each of its pieces there, with the size of a piece.\<close>

definition counted :: "time \<Rightarrow> LoopSegmentEntry \<Rightarrow> bool" where
  "counted now e \<longleftrightarrow> \<not> LoopSegmentEntry_Inline e \<and> \<not> LoopSegmentEntry_Expired now e \<and> RequiredShares (lse_Redundancy e) > 0"

definition pieces_on :: "node_id \<Rightarrow> LoopSegmentEntry \<Rightarrow> nat" where
  "pieces_on n e = length (filter (\<lambda>p. StorageNode p = n) (lse_Pieces e))"

definition credit :: "node_id \<Rightarrow> time \<times> LoopSegmentEntry \<Rightarrow> int" where
  "credit n x = (if counted (fst x) (snd x)
     then int (pieces_on n (snd x)) * (lse_EncryptedSize (snd x) sdiv RequiredShares (lse_Redundancy (snd x))) else 0)"

definition holds_counted :: "node_id \<Rightarrow> time \<times> LoopSegmentEntry \<Rightarrow> bool" where
  "holds_counted n x \<longleftrightarrow> counted (fst x) (snd x) \<and> 0 < pieces_on n (snd x)"

definition node_usage :: "(time \<times> LoopSegmentEntry) list \<Rightarrow> node_id \<Rightarrow> int option" where
  "node_usage xs n = (if \<exists>x \<in> set xs. holds_counted n x then Some (sum_list (map (credit n) xs)) else None)"

definition plus_usage :: "int option \<Rightarrow> int option \<Rightarrow> int option" where
  "plus_usage a b = (case (a, b) of (None, _) \<Rightarrow> b | (_, None) \<Rightarrow> a | (Some x, Some y) \<Rightarrow> Some (x + y))"

lemma plus_usage_simps [simp]: "plus_usage None b = b" "plus_usage a None = a" "plus_usage (Some x) (Some y) = Some (x + y)"
  by (simp_all add: plus_usage_def split: option.splits)

lemma no_credit: "\<not> holds_counted n x \<Longrightarrow> credit n x = 0"
  by (simp add: holds_counted_def credit_def)

lemma no_usage: "\<forall>x \<in> set xs. \<not> holds_counted n x \<Longrightarrow> sum_list (map (credit n) xs) = 0"
  by (induction xs) (simp_all add: no_credit)

lemma node_usage_append: "node_usage (xs @ ys) n = plus_usage (node_usage xs n) (node_usage ys n)"
proof (cases "\<exists>x \<in> set xs. holds_counted n x"; cases "\<exists>y \<in> set ys. holds_counted n y")
qed (auto simp: node_usage_def no_usage)

lemma node_usage_mset:
  assumes "mset xs = mset ys"
  shows "node_usage xs = node_usage ys"
proof
  fix n
  have "sum_list (map (credit n) xs) = sum_list (map (credit n) ys)"
    using arg_cong [OF assms, of "\<lambda>m. sum_mset (image_mset (credit n) m)"] by (simp flip: sum_mset_sum_list)
  then show "node_usage xs n = node_usage ys n" using mset_eq_setD [OF assms] by (simp add: node_usage_def)
qed

lemma add_usage_map: "map_of (add_usage m val node) n = (if n = m then plus_usage (map_of node m) (Some val) else map_of node n)"
  by (auto simp: add_usage_def map_of_map_default split: option.splits)

lemma add_usage_distinct: "distinct (map fst node) \<Longrightarrow> distinct (map fst (add_usage m val node))"
  by (simp add: add_usage_def distinct_map_default)

lemma add_pieces:
  "map_of (fold (\<lambda>piece. add_usage (StorageNode piece) v) ps node) n =
     (let k = length (filter (\<lambda>p. StorageNode p = n) ps) in
      if k = 0 then map_of node n else plus_usage (map_of node n) (Some (int k * v)))"
proof (induction ps arbitrary: node)
  case (Cons p ps)
  show ?case unfolding fold.simps o_apply Cons.IH
    by (cases "map_of node n") (auto simp: add_usage_map Let_def algebra_simps)
qed (simp add: Let_def)

lemma add_pieces_distinct:
  "distinct (map fst node) \<Longrightarrow> distinct (map fst (fold (\<lambda>piece. add_usage (StorageNode piece) v) ps node))"
  by (induction ps arbitrary: node) (simp_all add: add_usage_distinct)

lemma processSegment_usage:
  "map_of (processSegment now e node) n = plus_usage (map_of node n) (node_usage [(now, e)] n)"
  by (auto simp: processSegment_def Let_def add_pieces node_usage_def holds_counted_def credit_def counted_def pieces_on_def)

lemma processSegments_usage:
  "map_of (fold (processSegment now) es node) n = plus_usage (map_of node n) (node_usage (map (Pair now) es) n)"
proof (induction es arbitrary: node)
  case (Cons e es)
  have "plus_usage (plus_usage a b) c = plus_usage a (plus_usage b c)" for a b c
    by (cases a; cases b; cases c) simp_all
  then show ?case using node_usage_append [of "[(now, e)]" "map (Pair now) es" n]
    by (simp add: Cons.IH processSegment_usage)
qed (simp add: node_usage_def)

lemma processSegments_distinct:
  "distinct (map fst node) \<Longrightarrow> distinct (map fst (fold (processSegment now) es node))"
  by (induction es arbitrary: node) (simp_all add: processSegment_def Let_def add_pieces_distinct)

lemma join_usage:
  "distinct (map fst new) \<Longrightarrow>
    map_of (fold (\<lambda>(node, val). add_usage node val) new node) n = plus_usage (map_of node n) (map_of new n)"
proof (induction new arbitrary: node)
  case (Cons x new)
  have "map_of new (fst x) = None" using Cons.prems by (simp add: map_of_eq_None_iff)
  then show ?case using Cons by (cases x) (auto simp: add_usage_map)
qed simp

lemma join_distinct:
  "distinct (map fst node) \<Longrightarrow> distinct (map fst (fold (\<lambda>(node, val). add_usage node val) new node))"
  by (induction new arbitrary: node) (auto simp: add_usage_distinct)

text \<open>Both observers count alike.\<close>

lemma nodetally_handle_same: "nodetally_handle = processSegment"
  by (intro ext) (simp add: nodetally_handle_def processSegment_def nodetally_RemoteSegment_def)

subsection \<open>The observer keeps the contract\<close>

definition clock_reading :: "tally_clock \<Rightarrow> time \<Rightarrow> bool" where
  "clock_reading clock now \<longleftrightarrow> (\<exists>i j. now = tc_batch clock i j)"

lemma clock_reading [simp]: "clock_reading clock (tc_batch clock i j)"
  by (auto simp: clock_reading_def)

text \<open>The usages of the entries, each at a reading of the clock.\<close>

definition usage_of :: "tally_clock \<Rightarrow> (node_id \<times> int) list \<Rightarrow> LoopSegmentEntry list \<Rightarrow> bool" where
  "usage_of clock node es \<longleftrightarrow> distinct (map fst node) \<and>
     (\<exists>nows. length nows = length es \<and> (\<forall>now \<in> set nows. clock_reading clock now) \<and>
        map_of node = node_usage (zip nows es))"

lemma usage_of_Nil: "usage_of clock [] []"
  by (auto simp: usage_of_def node_usage_def)

lemma usage_of_process:
  assumes "usage_of clock node es"
  shows "usage_of clock (fold (processSegment (tc_batch clock i j)) batch node) (es @ batch)"
proof -
  let ?now = "tc_batch clock i j"
  obtain nows where nows: "length nows = length es" "\<forall>now \<in> set nows. clock_reading clock now"
    "map_of node = node_usage (zip nows es)" using assms by (auto simp: usage_of_def)
  have "zip (nows @ replicate (length batch) ?now) (es @ batch) = zip nows es @ map (Pair ?now) batch"
    using nows(1) by (simp add: zip_replicate1)
  then have "map_of (fold (processSegment ?now) batch node) = node_usage (zip (nows @ replicate (length batch) ?now) (es @ batch))"
    using nows(3) by (auto simp: processSegments_usage node_usage_append)
  then show ?thesis using assms nows(1,2)
    by (auto simp: usage_of_def processSegments_distinct intro!: exI [of _ "nows @ replicate (length batch) ?now"])
qed

lemma usage_of_join:
  assumes "usage_of clock node es" "usage_of clock new es'"
  shows "usage_of clock (fold (\<lambda>(node, val). add_usage node val) new node) (es @ es')"
proof -
  obtain nows where nows: "length nows = length es" "\<forall>now \<in> set nows. clock_reading clock now"
    "map_of node = node_usage (zip nows es)" using assms(1) by (auto simp: usage_of_def)
  obtain nows' where nows': "length nows' = length es'" "\<forall>now \<in> set nows'. clock_reading clock now"
    "map_of new = node_usage (zip nows' es')" using assms(2) by (auto simp: usage_of_def)
  have "map_of (fold (\<lambda>(node, val). add_usage node val) new node) = node_usage (zip (nows @ nows') (es @ es'))"
    using assms(2) nows(1,3) nows'(3) by (auto simp: join_usage usage_of_def node_usage_append)
  then show ?thesis using assms(1) nows(1,2) nows'(1,2)
    by (auto simp: usage_of_def join_distinct intro!: exI [of _ "nows @ nows'"])
qed

lemma usage_of_mset:
  assumes "usage_of clock node es" "mset es = mset es'"
  shows "usage_of clock node es'"
proof -
  obtain nows where nows: "length nows = length es" "\<forall>now \<in> set nows. clock_reading clock now"
    "map_of node = node_usage (zip nows es)" using assms(1) by (auto simp: usage_of_def)
  have "list_all2 (\<lambda>e x. snd x = e) es (zip nows es)" using nows(1) by (simp add: list_all2_conv_all_nth)
  then obtain xs where xs: "list_all2 (\<lambda>e x. snd x = e) es' xs" "mset xs = mset (zip nows es)"
    using list_all2_reorder_left_invariance assms(2) by metis
  have e: "map snd xs = es'" using xs(1) by (auto simp: list_all2_conv_all_nth intro!: nth_equalityI)
  have z: "xs = zip (map fst xs) es'" unfolding e [symmetric] by (rule zip_map_fst_snd [symmetric])
  have "set xs = set (zip nows es)" using xs(2) by (rule mset_eq_setD)
  then have "\<forall>now \<in> set (map fst xs). clock_reading clock now"
    using nows(2) by (auto dest: set_zip_leftD)
  moreover have "map_of node = node_usage xs" using nows(3) node_usage_mset [OF xs(2)] by simp
  moreover have "length xs = length es'" using e by auto
  ultimately show ?thesis using assms(1) z
    unfolding usage_of_def by (metis length_map)
qed

definition last_tally :: "tally_clock \<Rightarrow> accounting_db \<Rightarrow> time" where
  "last_tally clock db = (case accounting_timestamps db LastAtRestTally of
     None \<Rightarrow> tc_start clock | Some t \<Rightarrow> if t = zero_time then tc_start clock else t)"

text \<open>The rows a tally adds: byte hours of the nodes since the last tally.\<close>

definition tallied :: "tally_clock \<Rightarrow> accounting_db \<Rightarrow> accounting_db \<Rightarrow> LoopSegmentEntry list \<Rightarrow> bool" where
  "tallied clock db db' es \<longleftrightarrow> (\<exists>node. usage_of clock node es \<and>
     storagenode_storage_tallies db' = storagenode_storage_tallies db @
       map (\<lambda>(n, bytes). (tc_finish clock, n, of_int bytes * hours (tc_finish clock - last_tally clock db))) node \<and>
     accounting_timestamps db' LastAtRestTally = Some (tc_finish clock))"

interpretation tally_obs: observer_laws "nodetally_methods clock"
  "\<lambda>obs0 t db. db = rlo_accounting obs0"
  "\<lambda>db obs ess. rlo_accounting obs = fst (LastTimestamp LastAtRestTally db) \<and>
     rlo_lastTallyTime obs = last_tally clock db \<and> usage_of clock (rlo_Node obs) (concat ess)"
  "\<lambda>db part es. usage_of clock (rlp_Node part) es"
  "\<lambda>obs0 t obs ess. tallied clock (rlo_accounting obs0) (rlo_accounting obs) (concat ess)"
  for clock
proof
  fix t obs obs'
  assume "m_Start (nodetally_methods clock) t obs = (obs', None)"
  then show "\<exists>c. c = rlo_accounting obs \<and> rlo_accounting obs' = fst (LastTimestamp LastAtRestTally c) \<and>
     rlo_lastTallyTime obs' = last_tally clock c \<and> usage_of clock (rlo_Node obs') (concat [])"
    by (auto simp: nodetally_methods_def RangedLoopObserver_Start_def LastTimestamp_def last_tally_def usage_of_Nil
      split: option.splits)
next
  fix batch part part' es and db :: accounting_db
  assume "usage_of clock (rlp_Node part) es" "m_Process (nodetally_methods clock) batch part = (part', None)"
  then show "usage_of clock (rlp_Node part') (es @ batch)"
    by (auto simp: nodetally_methods_def RangedLoopPartial_Process_def Let_def usage_of_process)
next
  fix obs0 t obs obs' ess and c :: accounting_db
  assume c: "c = rlo_accounting obs0" and j: "rlo_accounting obs = fst (LastTimestamp LastAtRestTally c) \<and>
     rlo_lastTallyTime obs = last_tally clock c \<and> usage_of clock (rlo_Node obs) (concat ess)"
    and f: "m_Finish (nodetally_methods clock) obs = (obs', None)"
  let ?rows = "map (\<lambda>(n, bytes). (tc_finish clock, n, of_int bytes * hours (tc_finish clock - rlo_lastTallyTime obs))) (rlo_Node obs)"
  have "storagenode_storage_tallies (fst (LastTimestamp LastAtRestTally c)) = storagenode_storage_tallies c"
    by (simp add: LastTimestamp_def split: option.splits)
  moreover from f have "storagenode_storage_tallies (rlo_accounting obs') = storagenode_storage_tallies (rlo_accounting obs) @ ?rows \<and>
      accounting_timestamps (rlo_accounting obs') LastAtRestTally = Some (tc_finish clock)"
    by (simp add: nodetally_methods_def RangedLoopObserver_Finish_def Let_def SaveTallies_def case_prod_unfold comp_def split: if_splits)
      (auto simp: case_prod_unfold)
  ultimately have "storagenode_storage_tallies (rlo_accounting obs') = storagenode_storage_tallies c @ ?rows"
    "accounting_timestamps (rlo_accounting obs') LastAtRestTally = Some (tc_finish clock)" using j by simp_all
  then show "tallied clock (rlo_accounting obs0) (rlo_accounting obs') (concat ess)"
    using j unfolding tallied_def c by (intro exI [of _ "rlo_Node obs"] conjI) simp_all
next
  fix obs obs' r ess and db :: accounting_db
  assume "rlo_accounting obs = fst (LastTimestamp LastAtRestTally db) \<and>
     rlo_lastTallyTime obs = last_tally clock db \<and> usage_of clock (rlo_Node obs) (concat [])"
    and "m_Fork (nodetally_methods clock) obs = (obs', r)"
  then show "(rlo_accounting obs' = fst (LastTimestamp LastAtRestTally db) \<and>
     rlo_lastTallyTime obs' = last_tally clock db \<and> usage_of clock (rlo_Node obs') (concat [])) \<and>
     (\<forall>part. r = Inr part \<longrightarrow> usage_of clock (rlp_Node part) [])"
    by (auto simp: nodetally_methods_def RangedLoopObserver_Fork_def usage_of_Nil)
next
  fix obs obs' part es ess and db :: accounting_db
  assume "rlo_accounting obs = fst (LastTimestamp LastAtRestTally db) \<and>
     rlo_lastTallyTime obs = last_tally clock db \<and> usage_of clock (rlo_Node obs) (concat ess)"
    and "usage_of clock (rlp_Node part) es" "m_Join (nodetally_methods clock) part obs = (obs', None)"
  then show "rlo_accounting obs' = fst (LastTimestamp LastAtRestTally db) \<and>
     rlo_lastTallyTime obs' = last_tally clock db \<and> usage_of clock (rlo_Node obs') (concat (ess @ [es]))"
    by (auto simp: nodetally_methods_def RangedLoopObserver_Join_def usage_of_join)
qed

text \<open>
  Property C24. A finished node tally over tables that do not change: it adds one row for each node
  that holds a piece of a remote segment that had not expired when its batch was read, with the byte
  hours of the pieces there, each segment of the table counted once, and records its own time as that
  of the last tally.
\<close>

theorem node_tally_exact:
  assumes "RunOnce (nodetally_methods clock) t n k schedule tables observers = Some (Inr results)"
    and "i < length results" "results ! i = (obs, True)" "0 \<le> k" "\<forall>tab \<in> set tables. steady E segs tab"
  shows "\<exists>es node. list_all2 (entry_of_row E) segs es \<and> distinct (map fst node) \<and>
    (\<exists>nows. length nows = length es \<and> (\<forall>now \<in> set nows. clock_reading clock now) \<and>
       map_of node = node_usage (zip nows es)) \<and>
    storagenode_storage_tallies (rlo_accounting obs) = storagenode_storage_tallies (rlo_accounting (observers ! i)) @
       map (\<lambda>(n, bytes). (tc_finish clock, n,
         of_int bytes * hours (tc_finish clock - last_tally clock (rlo_accounting (observers ! i))))) node \<and>
    accounting_timestamps (rlo_accounting obs) LastAtRestTally = Some (tc_finish clock)"
proof -
  obtain ess es where e: "tallied clock (rlo_accounting (observers ! i)) (rlo_accounting obs) (concat ess)"
    "list_all2 (entry_of_row E) segs es" "mset es = mset (concat ess)"
    using tally_obs.RunOnce_rows [OF assms] by blast
  obtain node where u: "usage_of clock node (concat ess)"
    and rows: "storagenode_storage_tallies (rlo_accounting obs) = storagenode_storage_tallies (rlo_accounting (observers ! i)) @
       map (\<lambda>(n, bytes). (tc_finish clock, n,
         of_int bytes * hours (tc_finish clock - last_tally clock (rlo_accounting (observers ! i))))) node"
      "accounting_timestamps (rlo_accounting obs) LastAtRestTally = Some (tc_finish clock)"
    using e(1) unfolding tallied_def by (elim exE conjE) (rule that)
  have "usage_of clock node es" by (rule usage_of_mset [OF u e(3) [symmetric]])
  then obtain nows where "distinct (map fst node)" "length nows = length es" "\<forall>now \<in> set nows. clock_reading clock now"
    "map_of node = node_usage (zip nows es)" unfolding usage_of_def by (elim exE conjE) (rule that)
  then show ?thesis using e(2) rows by (intro exI [of _ es] exI [of _ node] conjI exI [of _ nows])
qed

text \<open>One hour after the first tally: each node has the byte hours of its piece, counted once for the
  object and its copy.\<close>

definition ex_clock :: tally_clock where
  "ex_clock = \<lparr>tc_start = 0, tc_batch = (\<lambda>i j. 50), tc_finish = 3600000000000\<rparr>"

definition ex_tally :: RangedLoopObserver where
  "ex_tally = \<lparr>rlo_accounting = \<lparr>accounting_timestamps = (\<lambda>_. None), storagenode_storage_tallies = []\<rparr>,
     rlo_lastTallyTime = 0, rlo_Node = [], rlo_forks = 0\<rparr>"

theorem node_tally_exact_witness:
  "\<exists>obs. RunOnce (nodetally_methods ex_clock) 40 2 1 [1, 0] [ex_remote_tables, ex_remote_tables] [ex_tally]
      = Some (Inr [(obs, True)]) \<and>
    storagenode_storage_tallies (rlo_accounting obs) = [(3600000000000, 70, 1024), (3600000000000, 71, 1024)] \<and>
    (\<exists>es nows. list_all2 (entry_of_row ex_entries) (segments ex_copied) es \<and> length nows = length es \<and>
       node_usage (zip nows es) 70 = Some 1024)"
proof -
  let ?run = "RunOnce (nodetally_methods ex_clock) 40 2 1 [1, 0] [ex_remote_tables, ex_remote_tables] [ex_tally]"
  have run: "case ?run of
      Some (Inr [(obs, True)]) \<Rightarrow> storagenode_storage_tallies (rlo_accounting obs) = [(3600000000000, 70, 1024), (3600000000000, 71, 1024)]
    | _ \<Rightarrow> False" by code_simp
  then obtain obs where obs: "?run = Some (Inr [(obs, True)])"
    "storagenode_storage_tallies (rlo_accounting obs) = [(3600000000000, 70, 1024), (3600000000000, 71, 1024)]"
    by (auto split: option.splits sum.splits list.splits prod.splits bool.splits)
  have st: "\<forall>tab \<in> set [ex_remote_tables, ex_remote_tables]. steady ex_entries (segments ex_copied) tab"
    using ex_remote_steady by simp
  from node_tally_exact [OF obs(1) _ _ _ st, of 0 obs] obtain es node nows where
    e: "list_all2 (entry_of_row ex_entries) (segments ex_copied) es" "length nows = length es"
      "map_of node = node_usage (zip nows es)"
    and rows: "storagenode_storage_tallies (rlo_accounting obs) = storagenode_storage_tallies (rlo_accounting ([ex_tally] ! 0)) @
       map (\<lambda>(n, bytes). (tc_finish ex_clock, n,
         of_int bytes * hours (tc_finish ex_clock - last_tally ex_clock (rlo_accounting ([ex_tally] ! 0))))) node"
    by auto
  have "hours (tc_finish ex_clock - last_tally ex_clock (rlo_accounting ex_tally)) = 1"
    by (simp add: hours_def ex_clock_def last_tally_def ex_tally_def)
  then have "map (\<lambda>(n, bytes). (3600000000000, n, of_int bytes)) node = [(3600000000000 :: time, 70, 1024 :: rat), (3600000000000, 71, 1024)]"
    using rows obs(2) by (simp add: ex_tally_def ex_clock_def)
  then have "\<exists>a b. node = [(70, a), (71, b)] \<and> (of_int a :: rat) = 1024" by auto
  then have "map_of node 70 = Some 1024" by auto
  then show ?thesis using obs e by metis
qed

end
