(* ===== verification/BloomFilters.thy ===== *)
theory BloomFilters
  imports NodeTally
begin

text \<open>
  The bloom filters of garbage collection (\<open>satellite/gc/bloomfilter\<close>): an observer of the ranged
  loop adds the id of every piece to the filter of the node that holds it (\<open>piecetracker.go\<close>) and
  uploads the filters in packs (\<open>observer.go\<close>). The filters and the derivation of piece ids are not
  part of the repository: they are a parameter, with what their documentation promises as
  \<open>bloom_laws\<close>.
\<close>

subsection \<open>The library of filters\<close>

record 'f bloom_lib =
  bl_NewExplicit :: "byte \<Rightarrow> int \<Rightarrow> int \<Rightarrow> 'f"
  bl_OptimalParameters :: "int \<Rightarrow> rat \<Rightarrow> int \<Rightarrow> int \<times> int"
  bl_Add :: "piece_id \<Rightarrow> 'f \<Rightarrow> 'f"
  bl_AddFilter :: "'f \<Rightarrow> 'f \<Rightarrow> 'f \<times> obs_error option"
  bl_Contains :: "'f \<Rightarrow> piece_id \<Rightarrow> bool"
  bl_Derive :: "piece_id \<Rightarrow> node_id \<Rightarrow> int \<Rightarrow> piece_id"

text \<open>A filter contains what was added to it and, after it was merged with another, what either
  contained; it may contain more.\<close>

definition bloom_laws :: "'f bloom_lib \<Rightarrow> bool" where
  "bloom_laws lib \<longleftrightarrow>
     (\<forall>p f. bl_Contains lib (bl_Add lib p f) p) \<and>
     (\<forall>p q f. bl_Contains lib f q \<longrightarrow> bl_Contains lib (bl_Add lib p f) q) \<and>
     (\<forall>f g h q. bl_AddFilter lib g f = (h, None) \<longrightarrow> bl_Contains lib f q \<or> bl_Contains lib g q \<longrightarrow> bl_Contains lib h q)"

subsection \<open>The tracker of one range\<close>

record gc_config =
  gcc_InitialPieces :: int
  gcc_FalsePositiveRate :: rat
  gcc_AccessGrant :: string
  gcc_Bucket :: string
  gcc_ZipBatchSize :: int

record 'f RetainInfo =
  ri_Filter :: 'f
  ri_Count :: int

record 'f PieceTracker =
  pt_pieceCounts :: "(node_id \<times> int) list"
  pt_seed :: byte
  pt_startTime :: time
  pt_RetainInfos :: "(node_id \<times> 'f RetainInfo) list"
  pt_LatestCreationTime :: time

definition NewPieceTrackerWithSeed :: "(node_id \<times> int) list \<Rightarrow> byte \<Rightarrow> 'f PieceTracker" where
  "NewPieceTrackerWithSeed pieceCounts seed =
     \<lparr>pt_pieceCounts = pieceCounts, pt_seed = seed, pt_startTime = zero_time, pt_RetainInfos = [],
      pt_LatestCreationTime = zero_time\<rparr>"

definition PieceTracker_LoopStarted :: "time \<Rightarrow> 'f PieceTracker \<Rightarrow> 'f PieceTracker" where
  "PieceTracker_LoopStarted started pt = pt\<lparr>pt_startTime := started\<rparr>"

definition new_filter :: "'f bloom_lib \<Rightarrow> gc_config \<Rightarrow> node_id \<Rightarrow> 'f PieceTracker \<Rightarrow> 'f" where
  "new_filter lib cfg nodeID pt =
     (let numPieces = (case map_of (pt_pieceCounts pt) nodeID of
            Some n \<Rightarrow> if n > 0 then n else gcc_InitialPieces cfg
          | None \<Rightarrow> gcc_InitialPieces cfg)
      in case bl_OptimalParameters lib numPieces (gcc_FalsePositiveRate cfg) (2 * 1024 * 1024) of
           (hashCount, tableSize) \<Rightarrow> bl_NewExplicit lib (pt_seed pt) hashCount tableSize)"

definition PieceTracker_add ::
  "'f bloom_lib \<Rightarrow> gc_config \<Rightarrow> node_id \<Rightarrow> piece_id \<Rightarrow> 'f PieceTracker \<Rightarrow> 'f PieceTracker" where
  "PieceTracker_add lib cfg nodeID pieceID pt =
     (let info = (case map_of (pt_RetainInfos pt) nodeID of
            Some info \<Rightarrow> info
          | None \<Rightarrow> \<lparr>ri_Filter = new_filter lib cfg nodeID pt, ri_Count = 0\<rparr>)
      in pt\<lparr>pt_RetainInfos := AList.update nodeID
           \<lparr>ri_Filter = bl_Add lib pieceID (ri_Filter info), ri_Count = ri_Count info + 1\<rparr> (pt_RetainInfos pt)\<rparr>)"

definition PieceTracker_RemoteSegment ::
  "'f bloom_lib \<Rightarrow> gc_config \<Rightarrow> LoopSegmentEntry \<Rightarrow> 'f PieceTracker \<Rightarrow> 'f PieceTracker \<times> obs_error option" where
  "PieceTracker_RemoteSegment lib cfg segment pt =
     (if lse_CreatedAt segment > pt_startTime pt
      then (pt, Some (ObserverError ''segment created after loop started''))
      else let pt = (if pt_LatestCreationTime pt < lse_CreatedAt segment
                     then pt\<lparr>pt_LatestCreationTime := lse_CreatedAt segment\<rparr> else pt)
        in (fold (\<lambda>piece. PieceTracker_add lib cfg (StorageNode piece)
              (bl_Derive lib (lse_RootPieceID segment) (StorageNode piece) (uint (Number piece))))
            (lse_Pieces segment) pt, None))"

fun PieceTracker_Process ::
  "'f bloom_lib \<Rightarrow> gc_config \<Rightarrow> LoopSegmentEntry list \<Rightarrow> 'f PieceTracker \<Rightarrow> 'f PieceTracker \<times> obs_error option" where
  "PieceTracker_Process lib cfg [] pt = (pt, None)"
| "PieceTracker_Process lib cfg (segment # segs) pt =
     (if LoopSegmentEntry_Inline segment then PieceTracker_Process lib cfg segs pt
      else case PieceTracker_RemoteSegment lib cfg segment pt of
        (pt', Some err) \<Rightarrow> (pt', Some err)
      | (pt', None) \<Rightarrow> PieceTracker_Process lib cfg segs pt')"

subsection \<open>The observer\<close>

text \<open>What is read from outside during a run: the counts of the overlay (none after an error), the
  seed, and how the calls to the target bucket end.\<close>

record gc_world =
  gw_AllPieceCounts :: "(node_id \<times> int) list option"
  gw_GenerateSeed :: byte
  gw_open :: "obs_error option"
  gw_not_empty :: bool
  gw_uploadPack :: "nat \<Rightarrow> obs_error option"
  gw_latest :: "obs_error option"

text \<open>The content of the target bucket below the prefix of the run: the packs, and whether \<open>LATEST\<close>
  names the prefix.\<close>

record 'f internal_RetainInfo =
  iri_Filter :: 'f
  iri_CreationDate :: time
  iri_PieceCount :: int
  iri_StorageNodeId :: node_id

record 'f gc_bucket =
  gb_packs :: "(nat \<times> 'f internal_RetainInfo list) list"
  gb_failed :: "(nat \<times> 'f internal_RetainInfo list) list"
  gb_LATEST :: bool

record 'f GC_Observer =
  go_startTime :: time
  go_lastPieceCounts :: "(node_id \<times> int) list"
  go_retainInfos :: "(node_id \<times> 'f RetainInfo) list"
  go_latestCreationTime :: time
  go_seed :: byte
  go_bucket :: "'f gc_bucket"

definition GC_Start ::
  "gc_config \<Rightarrow> gc_world \<Rightarrow> time \<Rightarrow> 'f GC_Observer \<Rightarrow> 'f GC_Observer \<times> obs_error option" where
  "GC_Start cfg world startTime obs =
     (if gcc_AccessGrant cfg = '''' then (obs, Some (ObserverError ''Access Grant is not set''))
      else if gcc_Bucket cfg = '''' then (obs, Some (ObserverError ''Bucket is not set''))
      else (obs\<lparr>go_startTime := startTime,
                go_lastPieceCounts := (case gw_AllPieceCounts world of None \<Rightarrow> [] | Some counts \<Rightarrow> counts),
                go_retainInfos := [], go_latestCreationTime := zero_time,
                go_seed := gw_GenerateSeed world\<rparr>, None))"

definition GC_Fork :: "'f GC_Observer \<Rightarrow> 'f GC_Observer \<times> (obs_error + 'f PieceTracker)" where
  "GC_Fork obs =
     (obs, Inr (PieceTracker_LoopStarted (go_startTime obs) (NewPieceTrackerWithSeed (go_lastPieceCounts obs) (go_seed obs))))"

fun merge_infos ::
  "'f bloom_lib \<Rightarrow> (node_id \<times> 'f RetainInfo) list \<Rightarrow> (node_id \<times> 'f RetainInfo) list \<Rightarrow>
     (node_id \<times> 'f RetainInfo) list \<times> obs_error option" where
  "merge_infos lib [] infos = (infos, None)"
| "merge_infos lib ((nodeID, retainInfo) # new) infos =
     (case map_of infos nodeID of
        Some existing \<Rightarrow>
          (case bl_AddFilter lib (ri_Filter retainInfo) (ri_Filter existing) of
             (filter', err) \<Rightarrow>
               let infos' = AList.update nodeID
                     \<lparr>ri_Filter = filter', ri_Count = ri_Count existing + ri_Count retainInfo\<rparr> infos
               in if err \<noteq> None then (infos', err) else merge_infos lib new infos')
      | None \<Rightarrow> merge_infos lib new (AList.update nodeID retainInfo infos))"

definition GC_Join ::
  "'f bloom_lib \<Rightarrow> 'f PieceTracker \<Rightarrow> 'f GC_Observer \<Rightarrow> 'f GC_Observer \<times> obs_error option" where
  "GC_Join lib pt obs =
     (case merge_infos lib (pt_RetainInfos pt) (go_retainInfos obs) of
        (infos, Some err) \<Rightarrow> (obs\<lparr>go_retainInfos := infos\<rparr>, Some err)
      | (infos, None) \<Rightarrow>
          (obs\<lparr>go_retainInfos := infos,
               go_latestCreationTime :=
                 (if go_latestCreationTime obs = zero_time \<or> go_latestCreationTime obs < pt_LatestCreationTime pt
                  then pt_LatestCreationTime pt else go_latestCreationTime obs)\<rparr>, None))"

text \<open>Packing the infos; what is left at the end is the last pack, if anything is left.\<close>

fun pack_infos :: "int \<Rightarrow> nat \<Rightarrow> 'a list \<Rightarrow> 'a list \<Rightarrow> (nat \<times> 'a list) list" where
  "pack_infos batch n infos [] = (if infos = [] then [] else [(n, infos)])"
| "pack_infos batch n infos (x # xs) =
     (let infos' = infos @ [x] in
      if int (length infos') = batch then (n, infos') # pack_infos batch (n + 1) [] xs
      else pack_infos batch n infos' xs)"

text \<open>The packs that were uploaded before the first failure.\<close>

fun upload_packs :: "(nat \<Rightarrow> obs_error option) \<Rightarrow> (nat \<times> 'a) list \<Rightarrow> (nat \<times> 'a) list \<times> obs_error option" where
  "upload_packs upl [] = ([], None)"
| "upload_packs upl ((n, infos) # packs) =
     (case upl n of
        Some err \<Rightarrow> ([], Some err)
      | None \<Rightarrow> (case upload_packs upl packs of (done_packs, err) \<Rightarrow> ((n, infos) # done_packs, err)))"

definition internal_infos :: "time \<Rightarrow> (node_id \<times> 'f RetainInfo) list \<Rightarrow> 'f internal_RetainInfo list" where
  "internal_infos latestCreationDate retainInfos =
     map (\<lambda>(nodeID, info). \<lparr>iri_Filter = ri_Filter info, iri_CreationDate = latestCreationDate,
       iri_PieceCount = ri_Count info, iri_StorageNodeId = nodeID\<rparr>) retainInfos"

text \<open>After an error \<open>cleanup\<close> moves what was uploaded out of the prefix.\<close>

definition uploadBloomFilters ::
  "gc_config \<Rightarrow> gc_world \<Rightarrow> time \<Rightarrow> (node_id \<times> 'f RetainInfo) list \<Rightarrow> 'f gc_bucket \<Rightarrow> 'f gc_bucket \<times> obs_error option" where
  "uploadBloomFilters cfg world latestCreationDate retainInfos bucket =
     (if retainInfos = [] then (bucket, None)
      else if gw_open world \<noteq> None then (bucket, gw_open world)
      else if gw_not_empty world then (bucket, None)
      else case upload_packs (gw_uploadPack world)
             (pack_infos (gcc_ZipBatchSize cfg) 0 [] (internal_infos latestCreationDate retainInfos)) of
        (packs, Some err) \<Rightarrow> (bucket\<lparr>gb_failed := packs\<rparr>, Some err)
      | (packs, None) \<Rightarrow>
          (case gw_latest world of
             Some err \<Rightarrow> (bucket\<lparr>gb_failed := packs\<rparr>, Some err)
           | None \<Rightarrow> (bucket\<lparr>gb_packs := packs, gb_LATEST := True\<rparr>, None)))"

definition GC_Finish ::
  "gc_config \<Rightarrow> gc_world \<Rightarrow> 'f GC_Observer \<Rightarrow> 'f GC_Observer \<times> obs_error option" where
  "GC_Finish cfg world obs =
     (case uploadBloomFilters cfg world (go_latestCreationTime obs) (go_retainInfos obs) (go_bucket obs) of
        (bucket, err) \<Rightarrow> (obs\<lparr>go_bucket := bucket\<rparr>, err))"

definition gc_methods ::
  "'f bloom_lib \<Rightarrow> gc_config \<Rightarrow> gc_world \<Rightarrow> ('f GC_Observer, 'f PieceTracker) observer_methods" where
  "gc_methods lib cfg world =
     \<lparr>m_Start = GC_Start cfg world, m_Fork = GC_Fork, m_Process = PieceTracker_Process lib cfg,
      m_Join = GC_Join lib, m_Finish = GC_Finish cfg world\<rparr>"

end
