(* ===== verification/BloomFilterProps.thy ===== *)
theory BloomFilterProps
  imports BloomFilters
begin

text \<open>
  The observer of the bloom filters keeps the contract of the ranged loop: what it publishes holds
  every piece of every remote segment, and counts them.
\<close>

subsection \<open>What the filters hold\<close>

definition filters_hold :: "'f bloom_lib \<Rightarrow> (node_id \<times> 'f RetainInfo) list \<Rightarrow> node_id \<Rightarrow> piece_id \<Rightarrow> bool" where
  "filters_hold lib infos n q \<longleftrightarrow> (\<exists>info. map_of infos n = Some info \<and> bl_Contains lib (ri_Filter info) q)"

definition count_of :: "(node_id \<times> 'f RetainInfo) list \<Rightarrow> node_id \<Rightarrow> int" where
  "count_of infos n = (case map_of infos n of None \<Rightarrow> 0 | Some info \<Rightarrow> ri_Count info)"

definition piece_id_of :: "'f bloom_lib \<Rightarrow> piece_id \<Rightarrow> Piece \<Rightarrow> piece_id" where
  "piece_id_of lib r p = bl_Derive lib r (StorageNode p) (uint (Number p))"

definition entry_held :: "'f bloom_lib \<Rightarrow> (node_id \<times> 'f RetainInfo) list \<Rightarrow> LoopSegmentEntry \<Rightarrow> bool" where
  "entry_held lib infos e \<longleftrightarrow>
     (\<forall>p \<in> set (lse_Pieces e). filters_hold lib infos (StorageNode p) (piece_id_of lib (lse_RootPieceID e) p))"

definition remote_pieces :: "node_id \<Rightarrow> LoopSegmentEntry list \<Rightarrow> int" where
  "remote_pieces n es = sum_list (map (\<lambda>e. if LoopSegmentEntry_Inline e then 0 else int (pieces_on n e)) es)"

definition tracked ::
  "'f bloom_lib \<Rightarrow> time \<Rightarrow> (node_id \<times> 'f RetainInfo) list \<Rightarrow> time \<Rightarrow> LoopSegmentEntry list \<Rightarrow> bool" where
  "tracked lib started infos latest es \<longleftrightarrow> distinct (map fst infos) \<and> 0 \<le> latest \<and>
     (\<forall>e \<in> set es. \<not> LoopSegmentEntry_Inline e \<longrightarrow>
        (bloom_laws lib \<longrightarrow> entry_held lib infos e) \<and> lse_CreatedAt e \<le> latest \<and> lse_CreatedAt e \<le> started) \<and>
     (\<forall>n. count_of infos n = remote_pieces n es)"

lemma tracked_Nil [simp]: "tracked lib started [] zero_time []"
  by (simp add: tracked_def zero_time_def count_of_def remote_pieces_def)

lemma remote_pieces_append [simp]: "remote_pieces n (es @ es') = remote_pieces n es + remote_pieces n es'"
  by (simp add: remote_pieces_def)

text \<open>Adding pieces.\<close>

definition add_piece ::
  "'f bloom_lib \<Rightarrow> gc_config \<Rightarrow> node_id \<times> piece_id \<Rightarrow> 'f PieceTracker \<Rightarrow> 'f PieceTracker" where
  "add_piece lib cfg = (\<lambda>(n, q). PieceTracker_add lib cfg n q)"

lemma add_infos:
  "pt_RetainInfos (PieceTracker_add lib cfg n q pt) = AList.update n
     \<lparr>ri_Filter = bl_Add lib q (case map_of (pt_RetainInfos pt) n of Some info \<Rightarrow> ri_Filter info | None \<Rightarrow> new_filter lib cfg n pt),
      ri_Count = count_of (pt_RetainInfos pt) n + 1\<rparr> (pt_RetainInfos pt)"
  "pt_startTime (PieceTracker_add lib cfg n q pt) = pt_startTime pt"
  "pt_LatestCreationTime (PieceTracker_add lib cfg n q pt) = pt_LatestCreationTime pt"
  by (simp_all add: PieceTracker_add_def Let_def count_of_def split: option.splits)

lemma adds_infos:
  assumes "distinct (map fst (pt_RetainInfos pt))"
  shows "let pt' = fold (add_piece lib cfg) xs pt in
    distinct (map fst (pt_RetainInfos pt')) \<and> pt_startTime pt' = pt_startTime pt \<and>
    pt_LatestCreationTime pt' = pt_LatestCreationTime pt \<and>
    (\<forall>n. count_of (pt_RetainInfos pt') n = count_of (pt_RetainInfos pt) n + int (length (filter (\<lambda>x. fst x = n) xs))) \<and>
    (bloom_laws lib \<longrightarrow> (\<forall>n q. filters_hold lib (pt_RetainInfos pt) n q \<or> (n, q) \<in> set xs \<longrightarrow>
       filters_hold lib (pt_RetainInfos pt') n q))"
  using assms
proof (induction xs arbitrary: pt)
  case (Cons x xs)
  obtain n q where x: "x = (n, q)" by (cases x)
  let ?pt = "PieceTracker_add lib cfg n q pt"
  have d: "distinct (map fst (pt_RetainInfos ?pt))" using Cons.prems by (simp add: add_infos distinct_update)
  have c: "count_of (pt_RetainInfos ?pt) m = count_of (pt_RetainInfos pt) m + (if m = n then 1 else 0)" for m
    by (simp add: add_infos count_of_def update_conv')
  have h: "filters_hold lib (pt_RetainInfos pt) m r \<or> (m, r) = (n, q) \<Longrightarrow> filters_hold lib (pt_RetainInfos ?pt) m r"
    if "bloom_laws lib" for m r
    using that by (auto simp: add_infos filters_hold_def update_conv' bloom_laws_def)
  from Cons.IH [OF d] c h show ?case by (auto simp: x add_piece_def add_infos Let_def)
qed simp

lemma RemoteSegment_tracked:
  assumes "tracked lib (pt_startTime pt) (pt_RetainInfos pt) (pt_LatestCreationTime pt) es"
    and "PieceTracker_RemoteSegment lib cfg e pt = (pt', None)" "\<not> LoopSegmentEntry_Inline e"
  shows "pt_startTime pt' = pt_startTime pt \<and>
    tracked lib (pt_startTime pt) (pt_RetainInfos pt') (pt_LatestCreationTime pt') (es @ [e])"
proof -
  let ?xs = "map (\<lambda>p. (StorageNode p, piece_id_of lib (lse_RootPieceID e) p)) (lse_Pieces e)"
  let ?pt = "if pt_LatestCreationTime pt < lse_CreatedAt e then pt\<lparr>pt_LatestCreationTime := lse_CreatedAt e\<rparr> else pt"
  have c: "lse_CreatedAt e \<le> pt_startTime pt"
    using assms(2) by (auto simp: PieceTracker_RemoteSegment_def split: if_splits)
  have pt': "pt' = fold (add_piece lib cfg) ?xs ?pt"
    using assms(2) by (auto simp: PieceTracker_RemoteSegment_def add_piece_def fold_map comp_def piece_id_of_def
      Let_def split: if_splits)
  have same: "pt_RetainInfos ?pt = pt_RetainInfos pt" "pt_startTime ?pt = pt_startTime pt"
    "pt_LatestCreationTime ?pt = max (pt_LatestCreationTime pt) (lse_CreatedAt e)" by simp_all
  have d: "distinct (map fst (pt_RetainInfos ?pt))" using assms(1) by (simp add: tracked_def)
  have n: "length (filter (\<lambda>x. fst x = n) ?xs) = pieces_on n e" for n
    by (simp add: pieces_on_def filter_map comp_def)
  have new: "distinct (map fst (pt_RetainInfos pt'))" "pt_startTime pt' = pt_startTime pt"
    "pt_LatestCreationTime pt' = max (pt_LatestCreationTime pt) (lse_CreatedAt e)"
    "\<And>n. count_of (pt_RetainInfos pt') n = count_of (pt_RetainInfos pt) n + int (pieces_on n e)"
    "\<And>n q. bloom_laws lib \<Longrightarrow> filters_hold lib (pt_RetainInfos pt) n q \<or> (n, q) \<in> set ?xs \<Longrightarrow>
       filters_hold lib (pt_RetainInfos pt') n q"
    using adds_infos [OF d, of lib cfg ?xs] unfolding pt' [symmetric] Let_def same n by blast+
  have "entry_held lib (pt_RetainInfos pt') e" if "bloom_laws lib"
    using new(5) [OF that] by (auto simp: entry_held_def)
  moreover have "entry_held lib (pt_RetainInfos pt') x" if "bloom_laws lib" "entry_held lib (pt_RetainInfos pt) x" for x
    using new(5) [OF that(1)] that(2) by (auto simp: entry_held_def)
  ultimately show ?thesis using assms(1,3) c new(1-4)
    by (auto simp: tracked_def remote_pieces_def)
qed

lemma Process_tracked:
  assumes "tracked lib (pt_startTime pt) (pt_RetainInfos pt) (pt_LatestCreationTime pt) es"
    and "PieceTracker_Process lib cfg batch pt = (pt', None)"
  shows "pt_startTime pt' = pt_startTime pt \<and>
    tracked lib (pt_startTime pt) (pt_RetainInfos pt') (pt_LatestCreationTime pt') (es @ batch)"
  using assms
proof (induction batch arbitrary: pt es)
  case (Cons e batch)
  show ?case
  proof (cases "LoopSegmentEntry_Inline e")
    case True
    then have "tracked lib (pt_startTime pt) (pt_RetainInfos pt) (pt_LatestCreationTime pt) (es @ [e])"
      using Cons.prems(1) by (auto simp: tracked_def remote_pieces_def)
    from Cons.IH [OF this] True Cons.prems(2) show ?thesis by simp
  next
    case False
    then obtain pt1 where p: "PieceTracker_RemoteSegment lib cfg e pt = (pt1, None)"
      "PieceTracker_Process lib cfg batch pt1 = (pt', None)"
      using Cons.prems(2) by (auto split: prod.splits option.splits)
    note t = RemoteSegment_tracked [OF Cons.prems(1) p(1) False]
    then have "tracked lib (pt_startTime pt1) (pt_RetainInfos pt1) (pt_LatestCreationTime pt1) (es @ [e])" by simp
    from Cons.IH [OF this p(2)] t show ?thesis by simp
  qed
qed simp

subsection \<open>Merging the ranges\<close>

lemma merge_infos_held:
  assumes "merge_infos lib new infos = (infos', None)" "distinct (map fst infos)" "distinct (map fst new)"
  shows "distinct (map fst infos') \<and>
    (\<forall>n. count_of infos' n = count_of infos n + count_of new n) \<and>
    (bloom_laws lib \<longrightarrow> (\<forall>n q. filters_hold lib infos n q \<or> filters_hold lib new n q \<longrightarrow> filters_hold lib infos' n q))"
  using assms
proof (induction lib new infos rule: merge_infos.induct)
  case (2 lib nodeID info new infos)
  have fresh: "map_of new nodeID = None" using "2.prems"(3) by (simp add: map_of_eq_None_iff)
  have cons: "count_of ((nodeID, info) # new) n = count_of new n + (if n = nodeID then ri_Count info else 0)"
    "filters_hold lib ((nodeID, info) # new) n q \<longleftrightarrow>
      filters_hold lib new n q \<or> n = nodeID \<and> bl_Contains lib (ri_Filter info) q" for n q
    using fresh by (auto simp: count_of_def filters_hold_def)
  show ?case
  proof (cases "map_of infos nodeID")
    case None
    let ?infos = "AList.update nodeID info infos"
    have "merge_infos lib new ?infos = (infos', None)" using "2.prems"(1) None by simp
    moreover have "distinct (map fst ?infos)" "distinct (map fst new)" using "2.prems"(2,3) by (simp_all add: distinct_update)
    ultimately have ih: "distinct (map fst infos')" "\<And>n. count_of infos' n = count_of ?infos n + count_of new n"
      "\<And>n q. bloom_laws lib \<Longrightarrow> filters_hold lib ?infos n q \<or> filters_hold lib new n q \<Longrightarrow> filters_hold lib infos' n q"
      using "2.IH"(1) [OF None] by blast+
    have "filters_hold lib ?infos n q" if "filters_hold lib infos n q \<or> n = nodeID \<and> bl_Contains lib (ri_Filter info) q" for n q
      using that None by (auto simp: filters_hold_def update_conv')
    moreover have "count_of ?infos n = count_of infos n + (if n = nodeID then ri_Count info else 0)" for n
      using None by (simp add: count_of_def update_conv')
    ultimately show ?thesis using ih unfolding cons by auto
  next
    case (Some existing)
    obtain f where a: "bl_AddFilter lib (ri_Filter info) (ri_Filter existing) = (f, None)"
      using "2.prems"(1) Some
      by (cases "bl_AddFilter lib (ri_Filter info) (ri_Filter existing)") (auto simp: Let_def split: if_splits)
    let ?infos = "AList.update nodeID \<lparr>ri_Filter = f, ri_Count = ri_Count existing + ri_Count info\<rparr> infos"
    have "merge_infos lib new ?infos = (infos', None)" using "2.prems"(1) Some a by (simp add: Let_def)
    moreover have "distinct (map fst ?infos)" "distinct (map fst new)" using "2.prems"(2,3) by (simp_all add: distinct_update)
    ultimately have ih: "distinct (map fst infos')" "\<And>n. count_of infos' n = count_of ?infos n + count_of new n"
      "\<And>n q. bloom_laws lib \<Longrightarrow> filters_hold lib ?infos n q \<or> filters_hold lib new n q \<Longrightarrow> filters_hold lib infos' n q"
      using "2.IH"(2) [OF Some a [symmetric] refl] by blast+
    have "filters_hold lib ?infos n q" if "bloom_laws lib" "filters_hold lib infos n q \<or> n = nodeID \<and> bl_Contains lib (ri_Filter info) q" for n q
      using that a Some by (auto simp: filters_hold_def update_conv' bloom_laws_def)
    moreover have "count_of ?infos n = count_of infos n + (if n = nodeID then ri_Count info else 0)" for n
      using Some by (simp add: count_of_def update_conv')
    ultimately show ?thesis using ih unfolding cons by auto
  qed
qed (simp add: count_of_def filters_hold_def)

lemma Join_tracked:
  assumes "tracked lib t (go_retainInfos obs) (go_latestCreationTime obs) es"
    and "tracked lib t (pt_RetainInfos pt) (pt_LatestCreationTime pt) es'"
    and "GC_Join lib pt obs = (obs', None)"
  shows "tracked lib t (go_retainInfos obs') (go_latestCreationTime obs') (es @ es') \<and>
    go_startTime obs' = go_startTime obs \<and> go_bucket obs' = go_bucket obs"
proof -
  obtain infos where m: "merge_infos lib (pt_RetainInfos pt) (go_retainInfos obs) = (infos, None)"
    and obs': "go_retainInfos obs' = infos" "go_startTime obs' = go_startTime obs" "go_bucket obs' = go_bucket obs"
      "go_latestCreationTime obs' = (if go_latestCreationTime obs = zero_time \<or> go_latestCreationTime obs < pt_LatestCreationTime pt
        then pt_LatestCreationTime pt else go_latestCreationTime obs)"
    using assms(3) by (auto simp: GC_Join_def split: prod.splits option.splits)
  have held: "distinct (map fst infos)" "\<And>n. count_of infos n = count_of (go_retainInfos obs) n + count_of (pt_RetainInfos pt) n"
    "\<And>n q. bloom_laws lib \<Longrightarrow> filters_hold lib (go_retainInfos obs) n q \<or> filters_hold lib (pt_RetainInfos pt) n q \<Longrightarrow>
       filters_hold lib infos n q"
  proof -
    have "distinct (map fst (go_retainInfos obs))" "distinct (map fst (pt_RetainInfos pt))"
      using assms(1,2) by (simp_all add: tracked_def)
    from merge_infos_held [OF m this] show "distinct (map fst infos)"
      "\<And>n. count_of infos n = count_of (go_retainInfos obs) n + count_of (pt_RetainInfos pt) n"
      "\<And>n q. bloom_laws lib \<Longrightarrow> filters_hold lib (go_retainInfos obs) n q \<or> filters_hold lib (pt_RetainInfos pt) n q \<Longrightarrow>
         filters_hold lib infos n q" by blast+
  qed
  have latest: "go_latestCreationTime obs' = max (go_latestCreationTime obs) (pt_LatestCreationTime pt)"
    using assms(1,2) by (auto simp: obs'(4) tracked_def zero_time_def)
  have "entry_held lib infos e" if "bloom_laws lib" "entry_held lib (go_retainInfos obs) e \<or> entry_held lib (pt_RetainInfos pt) e" for e
    using held(3) [OF that(1)] that(2) by (auto simp: entry_held_def)
  then show ?thesis using assms(1,2) held(1,2) obs'(2,3)
    unfolding latest obs'(1) by (auto simp: tracked_def)
qed

interpretation gc_obs: observer_laws "gc_methods lib cfg world"
  "\<lambda>obs0 t c. c = (t, go_bucket obs0)"
  "\<lambda>c obs ess. go_startTime obs = fst c \<and> go_bucket obs = snd c \<and>
     tracked lib (fst c) (go_retainInfos obs) (go_latestCreationTime obs) (concat ess)"
  "\<lambda>c pt es. pt_startTime pt = fst c \<and> tracked lib (fst c) (pt_RetainInfos pt) (pt_LatestCreationTime pt) es"
  "\<lambda>obs0 t obs ess. tracked lib t (go_retainInfos obs) (go_latestCreationTime obs) (concat ess) \<and>
     uploadBloomFilters cfg world (go_latestCreationTime obs) (go_retainInfos obs) (go_bucket obs0) = (go_bucket obs, None)"
  for lib :: "'f bloom_lib" and cfg world
proof
  fix t and obs obs' :: "'f GC_Observer"
  assume "m_Start (gc_methods lib cfg world) t obs = (obs', None)"
  then show "\<exists>c. c = (t, go_bucket obs) \<and> go_startTime obs' = fst c \<and> go_bucket obs' = snd c \<and>
     tracked lib (fst c) (go_retainInfos obs') (go_latestCreationTime obs') (concat [])"
    by (auto simp: gc_methods_def GC_Start_def split: if_splits)
next
  fix c :: "time \<times> 'f gc_bucket" and obs obs' :: "'f GC_Observer" and r
  assume "go_startTime obs = fst c \<and> go_bucket obs = snd c \<and>
     tracked lib (fst c) (go_retainInfos obs) (go_latestCreationTime obs) (concat [])"
    and "m_Fork (gc_methods lib cfg world) obs = (obs', r)"
  then show "(go_startTime obs' = fst c \<and> go_bucket obs' = snd c \<and>
     tracked lib (fst c) (go_retainInfos obs') (go_latestCreationTime obs') (concat [])) \<and>
     (\<forall>pt. r = Inr pt \<longrightarrow> pt_startTime pt = fst c \<and> tracked lib (fst c) (pt_RetainInfos pt) (pt_LatestCreationTime pt) [])"
    by (auto simp: gc_methods_def GC_Fork_def PieceTracker_LoopStarted_def NewPieceTrackerWithSeed_def)
next
  fix c :: "time \<times> 'f gc_bucket" and pt pt' :: "'f PieceTracker" and es batch
  assume "pt_startTime pt = fst c \<and> tracked lib (fst c) (pt_RetainInfos pt) (pt_LatestCreationTime pt) es"
    and "m_Process (gc_methods lib cfg world) batch pt = (pt', None)"
  then show "pt_startTime pt' = fst c \<and> tracked lib (fst c) (pt_RetainInfos pt') (pt_LatestCreationTime pt') (es @ batch)"
    using Process_tracked [of lib pt es cfg batch pt'] by (simp add: gc_methods_def)
next
  fix c :: "time \<times> 'f gc_bucket" and obs obs' :: "'f GC_Observer" and ess pt es
  assume "go_startTime obs = fst c \<and> go_bucket obs = snd c \<and>
     tracked lib (fst c) (go_retainInfos obs) (go_latestCreationTime obs) (concat ess)"
    and "pt_startTime pt = fst c \<and> tracked lib (fst c) (pt_RetainInfos pt) (pt_LatestCreationTime pt) es"
    and "m_Join (gc_methods lib cfg world) pt obs = (obs', None)"
  then show "go_startTime obs' = fst c \<and> go_bucket obs' = snd c \<and>
     tracked lib (fst c) (go_retainInfos obs') (go_latestCreationTime obs') (concat (ess @ [es]))"
    using Join_tracked [of lib "fst c" obs "concat ess" pt es obs'] by (simp add: gc_methods_def)
next
  fix obs0 t c and obs obs' :: "'f GC_Observer" and ess
  assume "c = (t, go_bucket obs0)" "go_startTime obs = fst c \<and> go_bucket obs = snd c \<and>
     tracked lib (fst c) (go_retainInfos obs) (go_latestCreationTime obs) (concat ess)"
    and "m_Finish (gc_methods lib cfg world) obs = (obs', None)"
  then show "tracked lib t (go_retainInfos obs') (go_latestCreationTime obs') (concat ess) \<and>
     uploadBloomFilters cfg world (go_latestCreationTime obs') (go_retainInfos obs') (go_bucket obs0) = (go_bucket obs', None)"
    by (auto simp: gc_methods_def GC_Finish_def split: prod.splits)
qed

lemma tracked_mset:
  assumes "tracked lib t infos latest es" "mset es = mset es'"
  shows "tracked lib t infos latest es'"
proof -
  have "remote_pieces n es = remote_pieces n es'" for n
    using arg_cong [OF assms(2), of "\<lambda>m. sum_mset (image_mset (\<lambda>e. if LoopSegmentEntry_Inline e then 0 else int (pieces_on n e)) m)"]
    by (simp add: remote_pieces_def flip: sum_mset_sum_list)
  then show ?thesis using assms(1) mset_eq_setD [OF assms(2)] by (simp add: tracked_def)
qed

text \<open>What a finished run has tracked and uploaded, over the rows of the table.\<close>

lemma gc_run:
  assumes "RunOnce (gc_methods lib cfg world) t n k schedule tables observers = Some (Inr results)"
    and "i < length results" "results ! i = (obs, True)" "0 \<le> k" "\<forall>tab \<in> set tables. steady E segs tab"
  obtains es where "list_all2 (entry_of_row E) segs es"
    "tracked lib t (go_retainInfos obs) (go_latestCreationTime obs) es"
    "uploadBloomFilters cfg world (go_latestCreationTime obs) (go_retainInfos obs) (go_bucket (observers ! i)) = (go_bucket obs, None)"
  using gc_obs.RunOnce_rows [OF assms] tracked_mset by metis

lemma bloom_keeps:
  assumes lib: "bloom_laws lib"
    and run: "RunOnce (gc_methods lib cfg world) t n k schedule tables observers = Some (Inr results)"
      "i < length results" "results ! i = (obs, True)" "0 \<le> k" "\<forall>tab \<in> set tables. steady E (segments s) tab"
    and s: "tab \<in> set tables" "s = fst tab" "ServerSideCopy meta_cfg"
    and g: "GetSegmentByPosition meta_cfg stream pos s = (s', Inr (g, ps))" and p: "p \<in> set ps"
  shows "\<exists>info. map_of (go_retainInfos obs) (StorageNode p) = Some info \<and>
    bl_Contains lib (ri_Filter info) (bl_Derive lib (seg_RootPieceID g) (StorageNode p) (uint (Number p)))"
proof -
  have al: "aliases_from E s" using run(5) s(1,2) by (auto simp: steady_def)
  then have ok: "alias_ok s" and E: "E \<subseteq> table_entries (alias_db s)" by (simp_all add: aliases_from_def)
  obtain row rest where f: "filter (\<lambda>x. segment_key x = (stream, pos)) (segments s) = row # rest"
    and load: "load_segment meta_cfg row s = (s', Inr (g, ps))"
    using g by (auto simp: GetSegmentByPosition_def split: if_splits list.splits)
  have "row \<in> set (filter (\<lambda>x. segment_key x = (stream, pos)) (segments s))" unfolding f by simp
  then have row: "row \<in> set (segments s)" "load_segment meta_cfg row s = (s', Inr (g, ps))" using load by simp_all
  have "ps \<noteq> []" using p by auto
  from load_stored [OF ok s(3) row(2) this] row(1) obtain x where x: "x \<in> set (segments s)"
    "column_pieces (table_entries (alias_db s)) (seg_AliasPieces x) ps" "seg_RootPieceID g = seg_RootPieceID x"
    by (auto simp: stored_at_def)
  obtain es where es: "list_all2 (entry_of_row E) (segments s) es"
    "tracked lib t (go_retainInfos obs) (go_latestCreationTime obs) es"
    using gc_run [OF run] by blast
  obtain j where "j < length (segments s)" "x = segments s ! j" using x(1) by (auto simp: in_set_conv_nth)
  then have e: "es ! j \<in> set es" "entry_of_row E x (es ! j)" using es(1) by (auto simp: list_all2_conv_all_nth)
  define e where "e = es ! j"
  note e = e [folded e_def]
  have "column_pieces (table_entries (alias_db s)) (seg_AliasPieces x) (lse_Pieces e)"
    using e(2) converts_mono [OF _ E] by (auto simp: entry_of_row_def column_pieces_def)
  then have ps: "lse_Pieces e = ps"
    using column_unique [OF _ _ x(2)] ok by (simp add: alias_ok_def)
  then have "\<not> LoopSegmentEntry_Inline e" using p by (auto simp: LoopSegmentEntry_Inline_def)
  then have "entry_held lib (go_retainInfos obs) e" using es(2) e(1) lib by (auto simp: tracked_def)
  moreover have "lse_RootPieceID e = seg_RootPieceID g" using e(2) x(3) by (simp add: entry_of_row_def)
  ultimately show ?thesis using p by (auto simp: entry_held_def ps filters_hold_def piece_id_of_def)
qed

text \<open>
  Property C2. Garbage collection keeps what can be read: when a run of the loop with the bloom filter
  observer has finished over tables that do not change, and a segment of these tables, an original or
  a server-side copy, reads back with pieces, then the filter of each piece's node contains the id of
  the piece.
\<close>

theorem gc_filters_hold_live_pieces:
  assumes lib: "bloom_laws lib"
    and run: "RunOnce (gc_methods lib cfg world) t n k schedule tables observers = Some (Inr results)"
      "i < length results" "results ! i = (obs, True)" "0 \<le> k" "\<forall>tab \<in> set tables. steady E (segments s) tab"
    and s: "tab \<in> set tables" "s = fst tab" "ServerSideCopy meta_cfg"
    and g: "GetSegmentByPosition meta_cfg stream pos s = (s', Inr (g, ps))" and p: "p \<in> set ps"
  shows "\<exists>info. map_of (go_retainInfos obs) (StorageNode p) = Some info \<and>
    bl_Contains lib (ri_Filter info) (bl_Derive lib (seg_RootPieceID g) (StorageNode p) (uint (Number p)))"
  using bloom_keeps [OF assms] .

subsection \<open>The upload\<close>

lemma pack_infos_concat: "concat (map snd (pack_infos batch n infos xs)) = infos @ xs"
  by (induction batch n infos xs rule: pack_infos.induct) (auto simp: Let_def)

lemma pack_infos_bound:
  assumes "0 < batch" "int (length infos) < batch"
  shows "\<forall>(m, pack) \<in> set (pack_infos batch n infos xs). 0 < length pack \<and> int (length pack) \<le> batch"
  using assms by (induction batch n infos xs rule: pack_infos.induct) (auto simp: Let_def)

lemma pack_infos_numbers: "map fst (pack_infos batch n infos xs) = [n ..< n + length (pack_infos batch n infos xs)]"
  by (induction batch n infos xs rule: pack_infos.induct) (auto simp: Let_def upt_rec)

lemma upload_packs_all: "upload_packs upl packs = (sent, None) \<Longrightarrow> sent = packs"
  by (induction packs arbitrary: sent) (auto split: option.splits prod.splits)

text \<open>
  Property C25. When the run publishes its filters (it sets \<open>LATEST\<close>), the packs are numbered in a row,
  none is empty or larger than the configured size, and together they have exactly one info for each
  node, dated with a time not before the creation of any remote segment, whose count is the number of
  pieces of remote segments on the node, each segment of the table counted once.
\<close>

theorem gc_upload_complete:
  assumes run: "RunOnce (gc_methods lib cfg world) t n k schedule tables observers = Some (Inr results)"
      "i < length results" "results ! i = (obs, True)" "0 \<le> k" "\<forall>tab \<in> set tables. steady E segs tab"
    and published: "\<not> gb_LATEST (go_bucket (observers ! i))" "gb_LATEST (go_bucket obs)" "0 < gcc_ZipBatchSize cfg"
  shows "\<exists>es infos. list_all2 (entry_of_row E) segs es \<and>
    concat (map snd (gb_packs (go_bucket obs))) = infos \<and> distinct (map iri_StorageNodeId infos) \<and>
    map fst (gb_packs (go_bucket obs)) = [0 ..< length (gb_packs (go_bucket obs))] \<and>
    (\<forall>(m, pack) \<in> set (gb_packs (go_bucket obs)). 0 < length pack \<and> int (length pack) \<le> gcc_ZipBatchSize cfg) \<and>
    (\<forall>info \<in> set infos. iri_PieceCount info = remote_pieces (iri_StorageNodeId info) es \<and>
       (\<forall>e \<in> set es. \<not> LoopSegmentEntry_Inline e \<longrightarrow> lse_CreatedAt e \<le> iri_CreationDate info)) \<and>
    (\<forall>node. remote_pieces node es \<noteq> 0 \<longrightarrow> node \<in> iri_StorageNodeId ` set infos)"
proof -
  obtain es where es: "list_all2 (entry_of_row E) segs es"
    and tr: "tracked lib t (go_retainInfos obs) (go_latestCreationTime obs) es"
    and up: "uploadBloomFilters cfg world (go_latestCreationTime obs) (go_retainInfos obs) (go_bucket (observers ! i)) = (go_bucket obs, None)"
    using gc_run [OF run] .
  let ?infos = "internal_infos (go_latestCreationTime obs) (go_retainInfos obs)"
  let ?packs = "pack_infos (gcc_ZipBatchSize cfg) 0 [] ?infos"
  have packs: "gb_packs (go_bucket obs) = ?packs"
  proof (cases "upload_packs (gw_uploadPack world) ?packs")
    case (Pair sent err)
    let ?up = "uploadBloomFilters cfg world (go_latestCreationTime obs) (go_retainInfos obs) (go_bucket (observers ! i))"
    have b: "go_bucket obs = fst ?up" "snd ?up = None" using up by simp_all
    show ?thesis using published b(2) Pair upload_packs_all [of "gw_uploadPack world" ?packs sent] unfolding b(1)
      by (cases err; cases "gw_latest world") (auto simp: uploadBloomFilters_def split: if_splits)
  qed
  have c: "concat (map snd ?packs) = ?infos" by (simp add: pack_infos_concat)
  have nodes: "map iri_StorageNodeId ?infos = map fst (go_retainInfos obs)"
    by (simp add: internal_infos_def case_prod_unfold)
  have d: "distinct (map fst (go_retainInfos obs))" using tr by (simp add: tracked_def)
  have count: "iri_PieceCount info = remote_pieces (iri_StorageNodeId info) es \<and> iri_CreationDate info = go_latestCreationTime obs"
    if info: "info \<in> set ?infos" for info
  proof -
    obtain node ri where r: "(node, ri) \<in> set (go_retainInfos obs)" "iri_PieceCount info = ri_Count ri"
      "iri_StorageNodeId info = node" "iri_CreationDate info = go_latestCreationTime obs"
      using info by (auto simp: internal_infos_def)
    then have "count_of (go_retainInfos obs) node = ri_Count ri" using d by (simp add: count_of_def)
    then show ?thesis using r tr by (simp add: tracked_def)
  qed
  have all: "node \<in> iri_StorageNodeId ` set ?infos" if "remote_pieces node es \<noteq> 0" for node
  proof -
    have "count_of (go_retainInfos obs) node \<noteq> 0" using that tr by (simp add: tracked_def)
    then have "node \<in> set (map fst (go_retainInfos obs))"
      by (auto simp: count_of_def split: option.splits dest: map_of_SomeD intro!: image_eqI)
    then show ?thesis using nodes by (metis set_map)
  qed
  have created: "\<forall>e \<in> set es. \<not> LoopSegmentEntry_Inline e \<longrightarrow> lse_CreatedAt e \<le> go_latestCreationTime obs"
    using tr by (auto simp: tracked_def)
  show ?thesis
  proof (intro exI conjI)
    show "list_all2 (entry_of_row E) segs es" by (rule es)
    show "concat (map snd (gb_packs (go_bucket obs))) = ?infos" by (simp only: packs c)
    show "distinct (map iri_StorageNodeId ?infos)" using d nodes by simp
    show "map fst (gb_packs (go_bucket obs)) = [0 ..< length (gb_packs (go_bucket obs))]"
      using pack_infos_numbers [of "gcc_ZipBatchSize cfg" 0 "[]" ?infos] packs by simp
    show "\<forall>(m, pack) \<in> set (gb_packs (go_bucket obs)). 0 < length pack \<and> int (length pack) \<le> gcc_ZipBatchSize cfg"
      unfolding packs by (rule pack_infos_bound) (use published(3) in simp_all)
    show "\<forall>info \<in> set ?infos. iri_PieceCount info = remote_pieces (iri_StorageNodeId info) es \<and>
       (\<forall>e \<in> set es. \<not> LoopSegmentEntry_Inline e \<longrightarrow> lse_CreatedAt e \<le> iri_CreationDate info)"
      using count created by simp
    show "\<forall>node. remote_pieces node es \<noteq> 0 \<longrightarrow> node \<in> iri_StorageNodeId ` set ?infos" using all by blast
  qed
qed

subsection \<open>Examples\<close>

text \<open>Filters that are the lists of what was added; one remote object with its copy.\<close>

definition ex_bloom :: "piece_id list bloom_lib" where
  "ex_bloom = \<lparr>bl_NewExplicit = (\<lambda>seed hashCount tableSize. []), bl_OptimalParameters = (\<lambda>n rate maxSize. (1, n)),
     bl_Add = Cons, bl_AddFilter = (\<lambda>new f. (new @ f, None)), bl_Contains = (\<lambda>f q. q \<in> set f),
     bl_Derive = (\<lambda>root node num. root + 2 * node + word_of_int num)\<rparr>"

lemma ex_bloom_laws: "bloom_laws ex_bloom"
  by (auto simp: bloom_laws_def ex_bloom_def)

definition ex_gc_config :: gc_config where
  "ex_gc_config = \<lparr>gcc_InitialPieces = 10, gcc_FalsePositiveRate = 1 / 10, gcc_AccessGrant = ''grant'', gcc_Bucket = ''gc-queue'',
     gcc_ZipBatchSize = 2\<rparr>"

definition ex_gc_world :: gc_world where
  "ex_gc_world = \<lparr>gw_AllPieceCounts = Some [(70, 5)], gw_GenerateSeed = 3, gw_open = None, gw_not_empty = False,
     gw_uploadPack = (\<lambda>n. None), gw_latest = None\<rparr>"

definition ex_gc_observer :: "piece_id list GC_Observer" where
  "ex_gc_observer = \<lparr>go_startTime = 0, go_lastPieceCounts = [], go_retainInfos = [], go_latestCreationTime = 0, go_seed = 0,
     go_bucket = \<lparr>gb_packs = [], gb_failed = [], gb_LATEST = False\<rparr>\<rparr>"

lemma ex_gc_run:
  "\<exists>obs. RunOnce (gc_methods ex_bloom ex_gc_config ex_gc_world) 40 2 1 [1, 0] [ex_remote_tables, ex_remote_tables] [ex_gc_observer]
     = Some (Inr [(obs, True)]) \<and>
   gb_LATEST (go_bucket obs) \<and> map (\<lambda>info. (iri_StorageNodeId info, iri_PieceCount info, iri_CreationDate info))
     (concat (map snd (gb_packs (go_bucket obs)))) = [(70, 1, 30), (71, 1, 30)]"
proof -
  let ?run = "RunOnce (gc_methods ex_bloom ex_gc_config ex_gc_world) 40 2 1 [1, 0] [ex_remote_tables, ex_remote_tables] [ex_gc_observer]"
  have "case ?run of Some (Inr [(obs, True)]) \<Rightarrow>
      gb_LATEST (go_bucket obs) \<and> map (\<lambda>info. (iri_StorageNodeId info, iri_PieceCount info, iri_CreationDate info))
        (concat (map snd (gb_packs (go_bucket obs)))) = [(70, 1, 30), (71, 1, 30)]
    | _ \<Rightarrow> False" by code_simp
  then show ?thesis by (auto split: option.splits sum.splits list.splits prod.splits bool.splits)
qed

lemma ex_gc_tables: "\<forall>tab \<in> set [ex_remote_tables, ex_remote_tables]. steady ex_entries (segments ex_copied) tab"
  using ex_remote_steady by simp

theorem gc_filters_hold_live_pieces_witness:
  "\<exists>obs s' g. RunOnce (gc_methods ex_bloom ex_gc_config ex_gc_world) 40 2 1 [1, 0] [ex_remote_tables, ex_remote_tables] [ex_gc_observer]
     = Some (Inr [(obs, True)]) \<and>
   GetSegmentByPosition ex_cfg 9 \<lparr>Part = 0, Index = 0\<rparr> ex_copied = (s', Inr (g, ex_pieces 70)) \<and>
   (\<forall>p \<in> set (ex_pieces 70). \<exists>info. map_of (go_retainInfos obs) (StorageNode p) = Some info \<and>
      seg_RootPieceID g + 2 * StorageNode p + word_of_int (uint (Number p)) \<in> set (ri_Filter info))"
proof -
  obtain obs where run: "RunOnce (gc_methods ex_bloom ex_gc_config ex_gc_world) 40 2 1 [1, 0]
      [ex_remote_tables, ex_remote_tables] [ex_gc_observer] = Some (Inr [(obs, True)])"
    using ex_gc_run by (elim exE conjE) (rule that)
  let ?g = "GetSegmentByPosition ex_cfg 9 \<lparr>Part = 0, Index = 0\<rparr> ex_copied"
  have "map_sum id snd (snd ?g) = Inr (ex_pieces 70)" by code_simp
  then obtain g where g: "?g = (fst ?g, Inr (g, ex_pieces 70))" by (cases ?g; cases "snd ?g") auto
  have tab: "ex_remote_tables \<in> set [ex_remote_tables, ex_remote_tables]" "ex_copied = fst ex_remote_tables" "ServerSideCopy ex_cfg"
    by (simp_all add: ex_remote_tables_def ex_cfg_def)
  have "\<exists>info. map_of (go_retainInfos obs) (StorageNode p) = Some info \<and>
      bl_Contains ex_bloom (ri_Filter info) (bl_Derive ex_bloom (seg_RootPieceID g) (StorageNode p) (uint (Number p)))"
    if "p \<in> set (ex_pieces 70)" for p
    by (rule gc_filters_hold_live_pieces [OF ex_bloom_laws run _ _ _ ex_gc_tables tab g that, of 0]) simp_all
  then show ?thesis using run g by (auto simp: ex_bloom_def)
qed

theorem gc_upload_complete_witness:
  "\<exists>obs es. RunOnce (gc_methods ex_bloom ex_gc_config ex_gc_world) 40 2 1 [1, 0] [ex_remote_tables, ex_remote_tables] [ex_gc_observer]
     = Some (Inr [(obs, True)]) \<and> list_all2 (entry_of_row ex_entries) (segments ex_copied) es \<and> remote_pieces 70 es = 1"
proof -
  obtain obs where run: "RunOnce (gc_methods ex_bloom ex_gc_config ex_gc_world) 40 2 1 [1, 0]
      [ex_remote_tables, ex_remote_tables] [ex_gc_observer] = Some (Inr [(obs, True)])"
    and l: "gb_LATEST (go_bucket obs)" and infos: "map (\<lambda>info. (iri_StorageNodeId info, iri_PieceCount info, iri_CreationDate info))
     (concat (map snd (gb_packs (go_bucket obs)))) = [(70, 1, 30), (71, 1, 30)]"
    using ex_gc_run by (elim exE conjE) (rule that)
  obtain es where es: "list_all2 (entry_of_row ex_entries) (segments ex_copied) es"
    "\<forall>info \<in> set (concat (map snd (gb_packs (go_bucket obs)))). iri_PieceCount info = remote_pieces (iri_StorageNodeId info) es"
  proof -
    have pre: "\<not> gb_LATEST (go_bucket ([ex_gc_observer] ! 0))" "0 < gcc_ZipBatchSize ex_gc_config" "0 < length [(obs, True)]"
      "[(obs, True)] ! 0 = (obs, True)" "(0 :: int) \<le> 1"
      by (simp_all add: ex_gc_observer_def ex_gc_config_def)
    note u = gc_upload_complete [OF run pre(3-5) ex_gc_tables pre(1) l pre(2)]
    from u obtain es infos where "list_all2 (entry_of_row ex_entries) (segments ex_copied) es"
      "concat (map snd (gb_packs (go_bucket obs))) = infos"
      "\<forall>info \<in> set infos. iri_PieceCount info = remote_pieces (iri_StorageNodeId info) es \<and>
        (\<forall>e \<in> set es. \<not> LoopSegmentEntry_Inline e \<longrightarrow> lse_CreatedAt e \<le> iri_CreationDate info)"
      by (elim exE conjE) (rule that)
    then show ?thesis by (intro that [of es]) simp_all
  qed
  obtain a b where ab: "concat (map snd (gb_packs (go_bucket obs))) = [a, b]" "iri_StorageNodeId a = 70" "iri_PieceCount a = 1"
    using infos by auto
  have "remote_pieces 70 es = 1" using bspec [OF es(2), of a] ab by simp
  then show ?thesis using run es(1) by blast
qed

end
