(* ===== verification/Retain.thy ===== *)
theory Retain
  imports BloomFilterProps
begin

text \<open>
  The storage node's side of garbage collection (\<open>storagenode/retain/retain.go\<close>): a queue of retain
  requests, worked off by a fixed number of workers, and the walk over the pieces of a satellite that
  moves to the trash what the filter does not contain. Together with the bloom filter observer of the
  satellite: a piece that a readable segment needs is never moved to the trash.
\<close>

subsection \<open>The walk over the pieces\<close>

datatype retain_Status = Status_Disabled | Status_Enabled | Status_Debug

definition retain_Status_Set :: "string \<Rightarrow> retain_Status option" where
  "retain_Status_Set s =
     (if s = ''disabled'' then Some Status_Disabled
      else if s = ''enabled'' then Some Status_Enabled
      else if s = ''debug'' then Some Status_Debug
      else None)"

fun retain_Status_String :: "retain_Status \<Rightarrow> string" where
  "retain_Status_String Status_Disabled = ''disabled''"
| "retain_Status_String Status_Enabled = ''enabled''"
| "retain_Status_String Status_Debug = ''debug''"

record retain_Config =
  rc_MaxTimeSkew :: time
  rc_Status :: retain_Status
  rc_Concurrency :: nat

record 'f retain_Request =
  rr_SatelliteID :: node_id
  rr_CreatedBefore :: time
  rr_Filter :: 'f

text \<open>A stored piece: the time of its last modification, or why it cannot be determined.\<close>

datatype stat_error = NotExist | StatFailed

record StoredPieceAccess =
  spa_PieceID :: piece_id
  spa_ModTime :: "stat_error + time"

text \<open>The blobs of a namespace: the version of their format, and the access if the blob is a piece.\<close>

record storedBlob =
  blob_Version :: nat
  blob_Access :: "StoredPieceAccess option"

record nodeStore =
  ns_blobs :: "node_id \<Rightarrow> storedBlob list"
  ns_v0Pieces :: "(node_id \<Rightarrow> StoredPieceAccess list) option"
  ns_trash :: "(node_id \<times> piece_id) list"

definition WalkSatellitePieces :: "node_id \<Rightarrow> nodeStore \<Rightarrow> StoredPieceAccess list" where
  "WalkSatellitePieces satellite st =
     List.map_filter (\<lambda>b. if blob_Version b < 1 then None else blob_Access b) (ns_blobs st satellite) @
     (case ns_v0Pieces st of None \<Rightarrow> [] | Some v0 \<Rightarrow> v0 satellite)"

text \<open>Moving a piece to the trash: its blobs are gone from the namespace.\<close>

definition Store_Trash :: "node_id \<Rightarrow> piece_id \<Rightarrow> nodeStore \<Rightarrow> nodeStore" where
  "Store_Trash satellite pieceID st =
     st\<lparr>ns_blobs := (ns_blobs st)(satellite := filter (\<lambda>b. map_option spa_PieceID (blob_Access b) \<noteq> Some pieceID) (ns_blobs st satellite)),
        ns_v0Pieces := map_option (\<lambda>v0. v0(satellite := filter (\<lambda>a. spa_PieceID a \<noteq> pieceID) (v0 satellite))) (ns_v0Pieces st),
        ns_trash := (satellite, pieceID) # ns_trash st\<rparr>"

record retain_counts =
  rcn_pieces :: int
  rcn_skipped :: int
  rcn_toDelete :: int
  rcn_deleted :: int

text \<open>What the walk meets: whether \<open>Trash\<close> moves a piece and whether it returns an error (it may do both,
  when only the expiration cannot be updated), and after which piece the context is done.\<close>

record retain_world =
  rw_trash_moves :: "piece_id \<Rightarrow> bool"
  rw_trash_fails :: "piece_id \<Rightarrow> bool"
  rw_done :: "nat \<Rightarrow> bool"

text \<open>The function given to the walk, for the \<open>n\<close>-th piece; the result says whether it returned an
  error, which ends the walk.\<close>

definition retain_piece ::
  "'f bloom_lib \<Rightarrow> retain_Config \<Rightarrow> retain_world \<Rightarrow> 'f retain_Request \<Rightarrow> time \<Rightarrow> nat \<Rightarrow> StoredPieceAccess \<Rightarrow>
     nodeStore \<times> retain_counts \<Rightarrow> (nodeStore \<times> retain_counts) \<times> bool" where
  "retain_piece lib cfg world req createdBefore n access = (\<lambda>(st, c).
     let c = c\<lparr>rcn_pieces := rcn_pieces c + 1\<rparr>; pieceID = spa_PieceID access in
     if bl_Contains lib (rr_Filter req) pieceID then ((st, c), False)
     else case spa_ModTime access of
        Inl NotExist \<Rightarrow> ((st, c), False)
      | Inl StatFailed \<Rightarrow> ((st, c\<lparr>rcn_skipped := rcn_skipped c + 1\<rparr>), False)
      | Inr mTime \<Rightarrow>
          if \<not> mTime < createdBefore then ((st, c), False)
          else let c = c\<lparr>rcn_toDelete := rcn_toDelete c + 1\<rparr> in
            let st = (if rc_Status cfg = Status_Enabled \<and> rw_trash_moves world pieceID
                      then Store_Trash (rr_SatelliteID req) pieceID st else st) in
            if rc_Status cfg = Status_Enabled \<and> rw_trash_fails world pieceID then ((st, c), False)
            else ((st, c\<lparr>rcn_deleted := rcn_deleted c + 1\<rparr>), rw_done world n))"

fun retain_walk ::
  "'f bloom_lib \<Rightarrow> retain_Config \<Rightarrow> retain_world \<Rightarrow> 'f retain_Request \<Rightarrow> time \<Rightarrow> nat \<Rightarrow> StoredPieceAccess list \<Rightarrow>
     nodeStore \<times> retain_counts \<Rightarrow> (nodeStore \<times> retain_counts) \<times> bool" where
  "retain_walk lib cfg world req createdBefore n [] st = (st, False)"
| "retain_walk lib cfg world req createdBefore n (access # rest) st =
     (case retain_piece lib cfg world req createdBefore n access st of
        (st', True) \<Rightarrow> (st', True)
      | (st', False) \<Rightarrow> retain_walk lib cfg world req createdBefore (n + 1) rest st')"

text \<open>The store, the counts that are reported, and whether an error is returned.\<close>

definition retainPieces ::
  "'f bloom_lib \<Rightarrow> retain_Config \<Rightarrow> retain_world \<Rightarrow> 'f retain_Request \<Rightarrow> nodeStore \<Rightarrow>
     (nodeStore \<times> retain_counts) \<times> bool" where
  "retainPieces lib cfg world req st =
     (let zero = \<lparr>rcn_pieces = 0, rcn_skipped = 0, rcn_toDelete = 0, rcn_deleted = 0\<rparr> in
      if rc_Status cfg = Status_Disabled then ((st, zero), False)
      else retain_walk lib cfg world req (rr_CreatedBefore req - rc_MaxTimeSkew cfg) 0
             (WalkSatellitePieces (rr_SatelliteID req) st) (st, zero))"

subsection \<open>What the walk removes\<close>

text \<open>The pieces that may go: not in the filter, and known to be older than the filter by the skew.\<close>

definition may_go :: "'f bloom_lib \<Rightarrow> retain_Config \<Rightarrow> 'f retain_Request \<Rightarrow> StoredPieceAccess \<Rightarrow> bool" where
  "may_go lib cfg req a \<longleftrightarrow> \<not> bl_Contains lib (rr_Filter req) (spa_PieceID a) \<and>
     (\<exists>t. spa_ModTime a = Inr t \<and> t < rr_CreatedBefore req - rc_MaxTimeSkew cfg)"

definition trash_all :: "node_id \<Rightarrow> piece_id list \<Rightarrow> nodeStore \<Rightarrow> nodeStore" where
  "trash_all sat = fold (Store_Trash sat)"

text \<open>The pieces the walk moves: of the pieces that may go those that \<open>Trash\<close> moves, up to the
  first after which the context is done.\<close>

lemma retain_walk_trashes:
  assumes "retain_walk lib cfg world req (rr_CreatedBefore req - rc_MaxTimeSkew cfg) n accs (st, c) = ((st', c'), err)"
  shows "\<exists>gone. st' = trash_all (rr_SatelliteID req) gone st \<and>
    (rc_Status cfg \<noteq> Status_Enabled \<longrightarrow> gone = []) \<and>
    set gone \<subseteq> spa_PieceID ` {a \<in> set accs. may_go lib cfg req a \<and> rw_trash_moves world (spa_PieceID a)} \<and>
    (rc_Status cfg = Status_Enabled \<longrightarrow> \<not> err \<longrightarrow>
      set gone = spa_PieceID ` {a \<in> set accs. may_go lib cfg req a \<and> rw_trash_moves world (spa_PieceID a)})"
  using assms
proof (induction accs arbitrary: n st c)
  case Nil
  then show ?case by (auto simp: trash_all_def intro!: exI [of _ "[]"])
next
  case (Cons a accs)
  let ?cb = "rr_CreatedBefore req - rc_MaxTimeSkew cfg" and ?q = "spa_PieceID a"
  obtain st1 c1 stop where p: "retain_piece lib cfg world req ?cb n a (st, c) = ((st1, c1), stop)"
    by (cases "retain_piece lib cfg world req ?cb n a (st, c)") auto
  define goes where "goes \<longleftrightarrow> rc_Status cfg = Status_Enabled \<and> may_go lib cfg req a \<and> rw_trash_moves world ?q"
  have st1: "st1 = (if goes then Store_Trash (rr_SatelliteID req) ?q st else st)"
    using p by (auto simp: goes_def retain_piece_def may_go_def Let_def split: sum.splits stat_error.splits if_splits)
  let ?front = "if goes then [?q] else []"
  have front: "trash_all (rr_SatelliteID req) (?front @ gone) st = trash_all (rr_SatelliteID req) gone st1" for gone
    using st1 by (simp add: trash_all_def)
  have set_front: "rc_Status cfg = Status_Enabled \<Longrightarrow> set ?front = spa_PieceID ` {x \<in> {a}. may_go lib cfg req x \<and> rw_trash_moves world (spa_PieceID x)}"
    "set ?front \<subseteq> spa_PieceID ` {x \<in> {a}. may_go lib cfg req x \<and> rw_trash_moves world (spa_PieceID x)}"
    "rc_Status cfg \<noteq> Status_Enabled \<Longrightarrow> ?front = []"
    by (auto simp: goes_def)
  have split: "{x \<in> set (a # accs). P x} = {x \<in> {a}. P x} \<union> {x \<in> set accs. P x}" for P by auto
  show ?case
  proof (cases stop)
    case True
    then have "st' = st1" "err" using Cons.prems p by auto
    then show ?thesis using front [of "[]"] set_front
      by (intro exI [of _ ?front]) (auto simp: trash_all_def split del: if_split)
  next
    case False
    then have "retain_walk lib cfg world req ?cb (n + 1) accs (st1, c1) = ((st', c'), err)" using Cons.prems p by simp
    from Cons.IH [OF this] obtain gone where gone: "st' = trash_all (rr_SatelliteID req) gone st1"
      "rc_Status cfg \<noteq> Status_Enabled \<longrightarrow> gone = []"
      "set gone \<subseteq> spa_PieceID ` {x \<in> set accs. may_go lib cfg req x \<and> rw_trash_moves world (spa_PieceID x)}"
      "rc_Status cfg = Status_Enabled \<longrightarrow> \<not> err \<longrightarrow>
        set gone = spa_PieceID ` {x \<in> set accs. may_go lib cfg req x \<and> rw_trash_moves world (spa_PieceID x)}"
      by blast
    show ?thesis unfolding split image_Un
      by (rule exI [of _ "?front @ gone"]) (use gone set_front front [of gone] in \<open>auto simp del: image_Collect\<close>)
  qed
qed

lemma retain_never_stops:
  assumes "\<And>n. \<not> rw_done world n"
  shows "\<not> snd (retain_walk lib cfg world req cb n accs st)"
proof (induction accs arbitrary: n st)
  case (Cons a accs)
  have "\<not> snd (retain_piece lib cfg world req cb n a st)"
    using assms by (cases st) (auto simp: retain_piece_def Let_def split: sum.splits stat_error.splits)
  then show ?case using Cons.IH by (cases "retain_piece lib cfg world req cb n a st") simp
qed simp

text \<open>What the trash leaves.\<close>

lemma Trash_walk:
  "set (WalkSatellitePieces sat' (Store_Trash sat q st)) =
     (if sat' = sat then {a \<in> set (WalkSatellitePieces sat st). spa_PieceID a \<noteq> q} else set (WalkSatellitePieces sat' st))"
proof -
  have "set (List.map_filter (\<lambda>b. if blob_Version b < 1 then None else blob_Access b)
      (filter (\<lambda>b. map_option spa_PieceID (blob_Access b) \<noteq> Some q) bs)) =
    {a \<in> set (List.map_filter (\<lambda>b. if blob_Version b < 1 then None else blob_Access b) bs). spa_PieceID a \<noteq> q}" for bs
    by (induction bs) (auto simp: List.map_filter_def split: if_splits)
  then show ?thesis by (auto simp: WalkSatellitePieces_def Store_Trash_def split: option.splits)
qed

lemma trash_all_walk:
  "set (WalkSatellitePieces sat' (trash_all sat qs st)) =
     (if sat' = sat then {a \<in> set (WalkSatellitePieces sat st). spa_PieceID a \<notin> set qs} else set (WalkSatellitePieces sat' st))"
proof (induction qs arbitrary: st)
  case (Cons q qs)
  have "trash_all sat (q # qs) st = trash_all sat qs (Store_Trash sat q st)" by (simp add: trash_all_def)
  then show ?case using Cons.IH [of "Store_Trash sat q st"] by (auto simp: Trash_walk)
qed (simp add: trash_all_def)

lemma retain_result:
  assumes "retainPieces lib cfg world req st = ((st', c), err)"
  shows "(\<forall>sat. sat \<noteq> rr_SatelliteID req \<longrightarrow> set (WalkSatellitePieces sat st') = set (WalkSatellitePieces sat st)) \<and>
    set (WalkSatellitePieces (rr_SatelliteID req) st') \<subseteq> set (WalkSatellitePieces (rr_SatelliteID req) st) \<and>
    (\<forall>a \<in> set (WalkSatellitePieces (rr_SatelliteID req) st).
       bl_Contains lib (rr_Filter req) (spa_PieceID a) \<or>
       (\<forall>b \<in> set (WalkSatellitePieces (rr_SatelliteID req) st). spa_PieceID b = spa_PieceID a \<longrightarrow>
          (\<forall>t. spa_ModTime b = Inr t \<longrightarrow> rr_CreatedBefore req - rc_MaxTimeSkew cfg \<le> t)) \<or>
       rc_Status cfg \<noteq> Status_Enabled \<longrightarrow>
       a \<in> set (WalkSatellitePieces (rr_SatelliteID req) st')) \<and>
    (rc_Status cfg = Status_Enabled \<and> \<not> err \<longrightarrow>
       (\<forall>a \<in> set (WalkSatellitePieces (rr_SatelliteID req) st). may_go lib cfg req a \<and> rw_trash_moves world (spa_PieceID a) \<longrightarrow>
          a \<notin> set (WalkSatellitePieces (rr_SatelliteID req) st')))"
proof (cases "rc_Status cfg = Status_Disabled")
  case False
  let ?accs = "WalkSatellitePieces (rr_SatelliteID req) st"
  have "retain_walk lib cfg world req (rr_CreatedBefore req - rc_MaxTimeSkew cfg) 0 ?accs
      (st, \<lparr>rcn_pieces = 0, rcn_skipped = 0, rcn_toDelete = 0, rcn_deleted = 0\<rparr>) = ((st', c), err)"
    using assms False by (simp add: retainPieces_def Let_def)
  from retain_walk_trashes [OF this] obtain gone where gone: "st' = trash_all (rr_SatelliteID req) gone st"
    "rc_Status cfg \<noteq> Status_Enabled \<longrightarrow> gone = []"
    "set gone \<subseteq> spa_PieceID ` {a \<in> set ?accs. may_go lib cfg req a \<and> rw_trash_moves world (spa_PieceID a)}"
    "rc_Status cfg = Status_Enabled \<longrightarrow> \<not> err \<longrightarrow>
      set gone = spa_PieceID ` {a \<in> set ?accs. may_go lib cfg req a \<and> rw_trash_moves world (spa_PieceID a)}"
    by blast
  have walk: "set (WalkSatellitePieces sat st') = (if sat = rr_SatelliteID req
      then {a \<in> set ?accs. spa_PieceID a \<notin> set gone} else set (WalkSatellitePieces sat st))" for sat
    unfolding gone(1) trash_all_walk by simp
  have "spa_PieceID a \<notin> set gone" if "bl_Contains lib (rr_Filter req) (spa_PieceID a) \<or>
       (\<forall>b \<in> set ?accs. spa_PieceID b = spa_PieceID a \<longrightarrow>
          (\<forall>t. spa_ModTime b = Inr t \<longrightarrow> rr_CreatedBefore req - rc_MaxTimeSkew cfg \<le> t)) \<or>
       rc_Status cfg \<noteq> Status_Enabled" for a
    using that gone(2,3) by (fastforce simp: may_go_def)
  moreover have "spa_PieceID a \<in> set gone" if "rc_Status cfg = Status_Enabled" "\<not> err" "a \<in> set ?accs"
    "may_go lib cfg req a" "rw_trash_moves world (spa_PieceID a)" for a
    using gone(4) that by blast
  ultimately show ?thesis unfolding walk by auto
qed (use assms in \<open>auto simp: retainPieces_def Let_def\<close>)

text \<open>
  Property C27. A retain request, whatever fails on the way: the pieces of other satellites stay, and of
  the pieces of its satellite every piece stays that the filter contains, or whose modification is not
  known to be older than the date of the filter less the skew; nothing goes unless the node has retain
  enabled. When no error is returned, every other piece goes that \<open>Trash\<close> moves.
\<close>

theorem retainPieces_result:
  assumes "retainPieces lib cfg world req st = ((st', c), err)"
  shows "(\<forall>sat. sat \<noteq> rr_SatelliteID req \<longrightarrow> set (WalkSatellitePieces sat st') = set (WalkSatellitePieces sat st)) \<and>
    set (WalkSatellitePieces (rr_SatelliteID req) st') \<subseteq> set (WalkSatellitePieces (rr_SatelliteID req) st) \<and>
    (\<forall>a \<in> set (WalkSatellitePieces (rr_SatelliteID req) st).
       bl_Contains lib (rr_Filter req) (spa_PieceID a) \<or>
       (\<forall>b \<in> set (WalkSatellitePieces (rr_SatelliteID req) st). spa_PieceID b = spa_PieceID a \<longrightarrow>
          (\<forall>t. spa_ModTime b = Inr t \<longrightarrow> rr_CreatedBefore req - rc_MaxTimeSkew cfg \<le> t)) \<or>
       rc_Status cfg \<noteq> Status_Enabled \<longrightarrow>
       a \<in> set (WalkSatellitePieces (rr_SatelliteID req) st')) \<and>
    (rc_Status cfg = Status_Enabled \<and> \<not> err \<longrightarrow>
       (\<forall>a \<in> set (WalkSatellitePieces (rr_SatelliteID req) st). may_go lib cfg req a \<and> rw_trash_moves world (spa_PieceID a) \<longrightarrow>
          a \<notin> set (WalkSatellitePieces (rr_SatelliteID req) st')))"
  by (rule retain_result [OF assms])

subsection \<open>From the segments to the pieces on the node\<close>

lemma retain_keeps_contained:
  assumes "retainPieces lib cfg world req st = ((st', c), err)" "a \<in> set (WalkSatellitePieces sat st)"
    and "bl_Contains lib (rr_Filter req) (spa_PieceID a)"
  shows "a \<in> set (WalkSatellitePieces sat st')"
  using retain_result [OF assms(1)] assms(2,3) by (cases "sat = rr_SatelliteID req") auto

text \<open>A piece of a node that a segment of the run's tables needs to be read back, be it the original or a copy.\<close>

definition needed_in_run ::
  "'f bloom_lib \<Rightarrow> config \<Rightarrow> (store \<times> store list) list \<Rightarrow> node_id \<Rightarrow> StoredPieceAccess \<Rightarrow> bool" where
  "needed_in_run lib meta_cfg tables node a \<longleftrightarrow>
     (\<exists>tab \<in> set tables. \<exists>stream pos s' g ps. \<exists>p \<in> set ps.
        GetSegmentByPosition meta_cfg stream pos (fst tab) = (s', Inr (g, ps)) \<and> StorageNode p = node \<and>
        spa_PieceID a = bl_Derive lib (seg_RootPieceID g) (StorageNode p) (uint (Number p)))"

lemma needed_in_filter:
  assumes "bloom_laws lib"
    and "RunOnce (gc_methods lib gc_cfg world) t n k schedule tables observers = Some (Inr results)"
      "i < length results" "results ! i = (obs, True)" "0 \<le> k" "\<forall>tab \<in> set tables. steady E segs tab"
    and "ServerSideCopy meta_cfg" "needed_in_run lib meta_cfg tables node a"
    and "map_of (go_retainInfos obs) node = Some info"
  shows "bl_Contains lib (ri_Filter info) (spa_PieceID a)"
proof -
  obtain tab stream pos s' g ps p where tab: "tab \<in> set tables" and p: "p \<in> set ps" "StorageNode p = node"
    and g: "GetSegmentByPosition meta_cfg stream pos (fst tab) = (s', Inr (g, ps))"
    and a: "spa_PieceID a = bl_Derive lib (seg_RootPieceID g) (StorageNode p) (uint (Number p))"
    using assms(8) unfolding needed_in_run_def by blast
  have "segs = segments (fst tab)" using assms(6) tab by (auto simp: steady_def)
  with assms(6) have "\<forall>tab' \<in> set tables. steady E (segments (fst tab)) tab'" by simp
  from bloom_keeps [OF assms(1-5) this tab refl assms(7) g p(1)] assms(9) p(2) a show ?thesis by auto
qed

text \<open>
  Property C1. Garbage collection end to end, for a run of the bloom filter observer that finished over tables
  that did not change: a node that works off a retain request with the filter the run made for it keeps, whatever
  its configuration and whatever fails, all its pieces of other satellites, each of its pieces that a segment of
  these tables needs to be read back (with server-side copies on, so also through a copy), and each piece that was stored or touched at the date of the
  request less the allowed skew or later, or whose time is not known: so also the pieces of segments
  that have come since.
\<close>

theorem retain_keeps_live_pieces:
  assumes "bloom_laws lib"
    and "RunOnce (gc_methods lib gc_cfg world) t n k schedule tables observers = Some (Inr results)"
      "i < length results" "results ! i = (obs, True)" "0 \<le> k" "\<forall>tab \<in> set tables. steady E segs tab"
    and "ServerSideCopy meta_cfg"
    and "map_of (go_retainInfos obs) node = Some info" "rr_Filter req = ri_Filter info"
    and "retainPieces lib cfg retain_world req st = ((st', c), err)"
    and "a \<in> set (WalkSatellitePieces sat st)"
    and "sat \<noteq> rr_SatelliteID req \<or> needed_in_run lib meta_cfg tables node a \<or>
      (\<forall>b \<in> set (WalkSatellitePieces sat st). spa_PieceID b = spa_PieceID a \<longrightarrow>
         (\<forall>t. spa_ModTime b = Inr t \<longrightarrow> rr_CreatedBefore req - rc_MaxTimeSkew cfg \<le> t))"
  shows "a \<in> set (WalkSatellitePieces sat st')"
proof (cases "sat = rr_SatelliteID req")
  case True
  from assms(12) consider "needed_in_run lib meta_cfg tables node a"
    | "\<forall>b \<in> set (WalkSatellitePieces sat st). spa_PieceID b = spa_PieceID a \<longrightarrow>
         (\<forall>t. spa_ModTime b = Inr t \<longrightarrow> rr_CreatedBefore req - rc_MaxTimeSkew cfg \<le> t)" using True by blast
  then show ?thesis
  proof cases
    case 1
    then show ?thesis
      using needed_in_filter [OF assms(1-7) 1 assms(8)] retain_keeps_contained [OF assms(10,11)] assms(9) by simp
  next
    case 2
    then show ?thesis using retain_result [OF assms(10)] assms(11) unfolding True by blast
  qed
next
  case False
  then show ?thesis using retain_result [OF assms(10)] assms(11) by blast
qed

subsection \<open>The queue\<close>

text \<open>The service with its workers: \<open>sv_inflight\<close> are the requests that are worked on.\<close>

record 'f retain_Service =
  sv_queued :: "(node_id \<times> 'f retain_Request) list"
  sv_working :: "node_id list"
  sv_inflight :: "'f retain_Request list"
  sv_started :: bool
  sv_closed :: bool

definition NewService :: "'f retain_Service" where
  "NewService = \<lparr>sv_queued = [], sv_working = [], sv_inflight = [], sv_started = False, sv_closed = False\<rparr>"

definition Service_Queue :: "'f retain_Request \<Rightarrow> 'f retain_Service \<Rightarrow> 'f retain_Service \<times> bool" where
  "Service_Queue req sv =
     (if sv_closed sv then (sv, False)
      else (sv\<lparr>sv_queued := AList.update (rr_SatelliteID req) req (sv_queued sv)\<rparr>, True))"

text \<open>The order of the map is not fixed: \<open>k\<close> says where the iteration begins.\<close>

definition Service_next :: "nat \<Rightarrow> 'f retain_Service \<Rightarrow> ('f retain_Service \<times> 'f retain_Request) option" where
  "Service_next k sv =
     (case List.find (\<lambda>(n, request). rr_SatelliteID request \<notin> set (sv_working sv)) (rotate k (sv_queued sv)) of
        None \<Rightarrow> None
      | Some (n, request) \<Rightarrow>
          Some (sv\<lparr>sv_queued := AList.delete n (sv_queued sv), sv_working := rr_SatelliteID request # sv_working sv\<rparr>, request))"

definition Service_finish :: "'f retain_Request \<Rightarrow> 'f retain_Service \<Rightarrow> 'f retain_Service" where
  "Service_finish request sv = sv\<lparr>sv_working := filter (\<lambda>n. n \<noteq> rr_SatelliteID request) (sv_working sv)\<rparr>"

definition Service_Close :: "'f retain_Service \<Rightarrow> 'f retain_Service" where
  "Service_Close sv = sv\<lparr>sv_closed := True\<rparr>"

text \<open>\<open>Run\<close>: it starts once, its workers take and finish requests, and after the service has closed and
  the workers have ended it clears the queue.\<close>

inductive service_step :: "retain_Config \<Rightarrow> 'f retain_Service \<Rightarrow> 'f retain_Service \<Rightarrow> bool" for cfg where
  queue: "service_step cfg sv (fst (Service_Queue req sv))"
| run: "\<not> sv_started sv \<Longrightarrow> service_step cfg sv (sv\<lparr>sv_started := True\<rparr>)"
| take_request: "sv_started sv \<Longrightarrow> \<not> sv_closed sv \<Longrightarrow> length (sv_inflight sv) < rc_Concurrency cfg \<Longrightarrow>
    Service_next k sv = Some (sv', request) \<Longrightarrow> service_step cfg sv (sv'\<lparr>sv_inflight := request # sv_inflight sv\<rparr>)"
| finish_request: "request \<in> set (sv_inflight sv) \<Longrightarrow>
    service_step cfg sv ((Service_finish request sv)\<lparr>sv_inflight := remove1 request (sv_inflight sv)\<rparr>)"
| close: "service_step cfg sv (Service_Close sv)"
| clear: "sv_started sv \<Longrightarrow> sv_closed sv \<Longrightarrow> sv_inflight sv = [] \<Longrightarrow> service_step cfg sv (sv\<lparr>sv_queued := []\<rparr>)"

inductive service_reachable :: "retain_Config \<Rightarrow> 'f retain_Service \<Rightarrow> bool" for cfg where
  new_service: "service_reachable cfg NewService"
| service_steps: "service_reachable cfg sv \<Longrightarrow> service_step cfg sv sv' \<Longrightarrow> service_reachable cfg sv'"

definition service_inv :: "retain_Config \<Rightarrow> 'f retain_Service \<Rightarrow> bool" where
  "service_inv cfg sv \<longleftrightarrow> distinct (map fst (sv_queued sv)) \<and> (\<forall>(n, r) \<in> set (sv_queued sv). rr_SatelliteID r = n) \<and>
     sv_working sv = map rr_SatelliteID (sv_inflight sv) \<and> distinct (sv_working sv) \<and>
     length (sv_inflight sv) \<le> rc_Concurrency cfg"

lemma Service_next_Some:
  assumes "Service_next k sv = Some (sv', request)" "\<forall>(n, r) \<in> set (sv_queued sv). rr_SatelliteID r = n"
  shows "(rr_SatelliteID request, request) \<in> set (sv_queued sv) \<and> rr_SatelliteID request \<notin> set (sv_working sv) \<and>
    sv' = sv\<lparr>sv_queued := AList.delete (rr_SatelliteID request) (sv_queued sv), sv_working := rr_SatelliteID request # sv_working sv\<rparr>"
proof -
  obtain n where f: "List.find (\<lambda>(n, request). rr_SatelliteID request \<notin> set (sv_working sv)) (rotate k (sv_queued sv)) = Some (n, request)"
    and sv': "sv' = sv\<lparr>sv_queued := AList.delete n (sv_queued sv), sv_working := rr_SatelliteID request # sv_working sv\<rparr>"
    using assms(1) by (auto simp: Service_next_def split: option.splits)
  then have "(n, request) \<in> set (sv_queued sv)" "rr_SatelliteID request \<notin> set (sv_working sv)"
    by (auto simp: find_Some_iff) (metis nth_mem set_rotate length_rotate)
  then show ?thesis using assms(2) sv' by auto
qed

lemma update_entries: "(n, r) \<in> set (AList.update m v xs) \<Longrightarrow> (n, r) \<in> set xs \<or> n = m \<and> r = v"
  by (induction xs) (auto split: if_splits)

lemma service_inv_step:
  assumes "service_inv cfg sv" "service_step cfg sv sv'"
  shows "service_inv cfg sv'"
  using assms(2)
proof cases
  case (queue req)
  then show ?thesis using assms(1)
    by (auto simp: service_inv_def Service_Queue_def distinct_update dest!: update_entries)
next
  case (take_request k sv1 request)
  then show ?thesis using assms(1) Service_next_Some [OF take_request(5)]
    by (auto simp: service_inv_def AList.delete_eq dest: distinct_delete [unfolded AList.delete_eq])
next
  case (finish_request request)
  have d: "distinct (map rr_SatelliteID (sv_inflight sv))" using assms(1) by (auto simp: service_inv_def)
  have "map rr_SatelliteID (remove1 request xs) = filter (\<lambda>n. n \<noteq> rr_SatelliteID request) (map rr_SatelliteID xs)"
    if "distinct (map rr_SatelliteID xs)" "request \<in> set xs" for xs
    using that
  proof (induction xs)
    case (Cons x xs)
    have "filter (\<lambda>n. n \<noteq> rr_SatelliteID request) ys = ys" if "rr_SatelliteID request \<notin> set ys" for ys
      using that by (induction ys) auto
    from this [of "map rr_SatelliteID xs"] Cons show ?case by auto
  qed simp
  then show ?thesis using assms(1) finish_request d
    by (auto simp: service_inv_def Service_finish_def length_remove1)
qed (use assms(1) in \<open>auto simp: service_inv_def Service_Close_def\<close>)

lemma reachable_service_inv: "service_reachable cfg sv \<Longrightarrow> service_inv cfg sv"
proof (induction rule: service_reachable.induct)
  case new_service
  show ?case by (simp add: service_inv_def NewService_def)
qed (rule service_inv_step)

text \<open>
  Property C28. However requests arrive and the workers run: no two workers have a request of the same
  satellite, there are never more requests worked on than the configured concurrency, and at most one
  request waits for each satellite. When a request waits for a satellite that no worker has, a free
  worker finds one, wherever its iteration over the queue begins.
\<close>

theorem retain_workers:
  assumes "service_reachable cfg sv"
  shows "distinct (map rr_SatelliteID (sv_inflight sv)) \<and> length (sv_inflight sv) \<le> rc_Concurrency cfg \<and>
    distinct (map (rr_SatelliteID \<circ> snd) (sv_queued sv)) \<and>
    ((\<exists>(n, r) \<in> set (sv_queued sv). r \<notin> set (sv_inflight sv) \<and>
        rr_SatelliteID r \<notin> rr_SatelliteID ` set (sv_inflight sv)) \<longrightarrow>
     (\<exists>sv' request. Service_next k sv = Some (sv', request) \<and> request \<in> snd ` set (sv_queued sv) \<and>
        rr_SatelliteID request \<notin> rr_SatelliteID ` set (sv_inflight sv)))"
proof -
  have inv: "service_inv cfg sv" using assms by (rule reachable_service_inv)
  then have w: "sv_working sv = map rr_SatelliteID (sv_inflight sv)" by (simp add: service_inv_def)
  have keys: "map (rr_SatelliteID \<circ> snd) (sv_queued sv) = map fst (sv_queued sv)"
    using inv by (auto simp: service_inv_def)
  have "\<exists>sv' request. Service_next k sv = Some (sv', request) \<and> request \<in> snd ` set (sv_queued sv) \<and>
        rr_SatelliteID request \<notin> rr_SatelliteID ` set (sv_inflight sv)"
    if r: "(n, r) \<in> set (sv_queued sv)" "rr_SatelliteID r \<notin> rr_SatelliteID ` set (sv_inflight sv)" for n r
  proof -
    have "List.find (\<lambda>(n, request). rr_SatelliteID request \<notin> set (sv_working sv)) (rotate k (sv_queued sv)) \<noteq> None"
      using r by (auto simp: find_None_iff w)
    then obtain sv' request where sv': "Service_next k sv = Some (sv', request)"
      by (auto simp: Service_next_def)
    have "\<forall>(n, r) \<in> set (sv_queued sv). rr_SatelliteID r = n" using inv by (simp add: service_inv_def)
    from Service_next_Some [OF sv' this] show ?thesis using sv' w by force
  qed
  then show ?thesis using inv unfolding keys by (auto simp: service_inv_def)
qed

text \<open>
  Lemma. A request that arrives while another of the same satellite waits takes its place, and
  \<open>Queue\<close> says that it was queued; the comment of \<open>Queue\<close> says that it is discarded and reported so.
\<close>

theorem Queue_replaces_waiting:
  assumes "\<not> sv_closed sv" "map_of (sv_queued sv) (rr_SatelliteID req) = Some old"
  shows "snd (Service_Queue req sv) \<and>
    map_of (sv_queued (fst (Service_Queue req sv))) (rr_SatelliteID req) = Some req \<and>
    map fst (sv_queued (fst (Service_Queue req sv))) = map fst (sv_queued sv)"
proof -
  have "rr_SatelliteID req \<in> fst ` set (sv_queued sv)" using assms(2) by (force dest: map_of_SomeD)
  then show ?thesis using assms(1) by (simp add: Service_Queue_def update_conv' update_keys)
qed

subsection \<open>Examples\<close>

definition ex_retain_cfg :: retain_Config where
  "ex_retain_cfg = \<lparr>rc_MaxTimeSkew = 5, rc_Status = Status_Enabled, rc_Concurrency = 1\<rparr>"

definition ex_access :: "piece_id \<Rightarrow> time \<Rightarrow> storedBlob" where
  "ex_access q t = \<lparr>blob_Version = 1, blob_Access = Some \<lparr>spa_PieceID = q, spa_ModTime = Inr t\<rparr>\<rparr>"

definition ex_node :: nodeStore where
  "ex_node = \<lparr>ns_blobs = (\<lambda>sat. if sat = 1 then [ex_access 173 10, ex_access 8 10, ex_access 9 28] else []),
     ns_v0Pieces = None, ns_trash = []\<rparr>"

definition ex_request :: "piece_id list \<Rightarrow> piece_id list retain_Request" where
  "ex_request f = \<lparr>rr_SatelliteID = 1, rr_CreatedBefore = 30, rr_Filter = f\<rparr>"

definition ex_retain_world :: retain_world where
  "ex_retain_world = \<lparr>rw_trash_moves = (\<lambda>_. True), rw_trash_fails = (\<lambda>_. False), rw_done = (\<lambda>_. False)\<rparr>"

theorem retainPieces_result_witness:
  "\<exists>st' c. retainPieces ex_bloom ex_retain_cfg ex_retain_world (ex_request [173]) ex_node = ((st', c), False) \<and>
     spa_PieceID ` set (WalkSatellitePieces 1 st') = {173, 9} \<and> rcn_deleted c = 1"
proof -
  let ?r = "retainPieces ex_bloom ex_retain_cfg ex_retain_world (ex_request [173]) ex_node"
  have e: "snd ?r = False" "rcn_deleted (snd (fst ?r)) = 1" by code_simp+
  obtain st' c where r: "?r = ((st', c), False)" using e(1) by (cases ?r; cases "fst ?r") auto
  have w: "WalkSatellitePieces 1 ex_node = [\<lparr>spa_PieceID = 173, spa_ModTime = Inr 10\<rparr>,
      \<lparr>spa_PieceID = 8, spa_ModTime = Inr 10\<rparr>, \<lparr>spa_PieceID = 9, spa_ModTime = Inr 28\<rparr>]" by code_simp
  have q: "rr_SatelliteID (ex_request [173]) = 1" "rr_CreatedBefore (ex_request [173]) - rc_MaxTimeSkew ex_retain_cfg = 25"
    "rc_Status ex_retain_cfg = Status_Enabled" "rw_trash_moves ex_retain_world x"
    "bl_Contains ex_bloom (rr_Filter (ex_request [173])) x \<longleftrightarrow> x = 173" for x
    by (simp_all add: ex_request_def ex_retain_cfg_def ex_retain_world_def ex_bloom_def)
  note all = retainPieces_result [OF r]
  have "set (WalkSatellitePieces 1 st') = {\<lparr>spa_PieceID = 173, spa_ModTime = Inr 10\<rparr>, \<lparr>spa_PieceID = 9, spa_ModTime = Inr 28\<rparr>}"
    using all unfolding q w by (auto simp: may_go_def q)
  then show ?thesis using r e(2) by auto
qed

theorem retain_keeps_live_pieces_witness:
  "\<exists>f st' c. retainPieces ex_bloom ex_retain_cfg ex_retain_world (ex_request f) ex_node = ((st', c), False) \<and>
     \<lparr>spa_PieceID = 173, spa_ModTime = Inr 10\<rparr> \<in> set (WalkSatellitePieces 1 st') \<and>
     \<lparr>spa_PieceID = 9, spa_ModTime = Inr 28\<rparr> \<in> set (WalkSatellitePieces 1 st')"
proof -
  obtain obs where run: "RunOnce (gc_methods ex_bloom ex_gc_config ex_gc_world) 40 2 1 [1, 0]
      [ex_remote_tables, ex_remote_tables] [ex_gc_observer] = Some (Inr [(obs, True)])"
    using ex_gc_run by (elim exE conjE) (rule that)
  let ?g = "GetSegmentByPosition ex_cfg 9 \<lparr>Part = 0, Index = 0\<rparr> ex_copied" and ?p = "\<lparr>Number = 0, StorageNode = 70\<rparr>"
  let ?a = "\<lparr>spa_PieceID = 173, spa_ModTime = Inr 10\<rparr>" and ?b = "\<lparr>spa_PieceID = 9, spa_ModTime = Inr 28\<rparr>"
  have "map_sum (\<lambda>_. ()) (\<lambda>(g, ps). (seg_RootPieceID g, ps)) (snd ?g) = Inr (33, ex_pieces 70)" by code_simp
  then obtain g where g: "?g = (fst ?g, Inr (g, ex_pieces 70))" and root: "seg_RootPieceID g = 33"
    by (cases ?g; cases "snd ?g") auto
  have tab: "ex_remote_tables \<in> set [ex_remote_tables, ex_remote_tables]" "ex_copied = fst ex_remote_tables" "ServerSideCopy ex_cfg"
    by (simp_all add: ex_remote_tables_def ex_cfg_def)
  have p: "?p \<in> set (ex_pieces 70)" by (simp add: ex_pieces_def)
  have id: "spa_PieceID ?a = bl_Derive ex_bloom (seg_RootPieceID g) (StorageNode ?p) (uint (Number ?p))"
    by (simp add: root ex_bloom_def)
  have needed: "needed_in_run ex_bloom ex_cfg [ex_remote_tables, ex_remote_tables] 70 ?a"
    unfolding needed_in_run_def using tab(1,2) g p id by (metis (no_types, lifting) Piece.select_convs(2))
  obtain info where info: "map_of (go_retainInfos obs) 70 = Some info"
    using bloom_keeps [OF ex_bloom_laws run _ _ _ ex_gc_tables tab g p, of 0] by auto
  let ?r = "retainPieces ex_bloom ex_retain_cfg ex_retain_world (ex_request (ri_Filter info)) ex_node"
  have "\<not> snd ?r" by (simp add: retainPieces_def ex_retain_cfg_def ex_retain_world_def Let_def retain_never_stops)
  then obtain st' c where r: "?r = ((st', c), False)" by (cases ?r; cases "fst ?r") auto
  have w: "WalkSatellitePieces 1 ex_node = [?a, \<lparr>spa_PieceID = 8, spa_ModTime = Inr 10\<rparr>, ?b]" by code_simp
  have q: "rr_Filter (ex_request (ri_Filter info)) = ri_Filter info" by (simp add: ex_request_def)
  note keeps = retain_keeps_live_pieces [OF ex_bloom_laws run _ _ _ ex_gc_tables tab(3) info q r, of 0 _ 1]
  have "?a \<in> set (WalkSatellitePieces 1 st')" using needed by (intro keeps) (simp_all add: w)
  moreover have "?b \<in> set (WalkSatellitePieces 1 st')"
    by (intro keeps disjI2) (simp_all add: w ex_request_def ex_retain_cfg_def)
  ultimately show ?thesis using r by blast
qed

theorem retain_workers_witness:
  "service_reachable ex_retain_cfg (fst (Service_Queue (ex_request []) NewService)) \<and>
   (\<exists>sv'. Service_next 0 (fst (Service_Queue (ex_request []) NewService)) = Some (sv', ex_request []))"
proof -
  have r: "service_reachable ex_retain_cfg (fst (Service_Queue (ex_request []) NewService))"
    by (rule service_steps [OF new_service queue])
  from retain_workers [OF r, of 0] r show ?thesis
    by (auto simp: Service_Queue_def NewService_def ex_request_def)
qed

theorem Queue_replaces_waiting_witness:
  "snd (Service_Queue (ex_request [2]) (fst (Service_Queue (ex_request [1]) NewService))) \<and>
   map_of (sv_queued (fst (Service_Queue (ex_request [2]) (fst (Service_Queue (ex_request [1]) NewService))))) 1 = Some (ex_request [2])"
  using Queue_replaces_waiting [of "fst (Service_Queue (ex_request [1]) NewService)" "ex_request [2]" "ex_request [1]"]
  by (simp add: Service_Queue_def NewService_def ex_request_def)

end
