(* ===== verification/Reputation.thy ===== *)
theory Reputation
  imports Prelude Complex_Main
begin

text \<open>
  The reputation of storage nodes (\<open>satellite/reputation\<close>, \<open>satellitedb/reputations.go\<close>): how audit
  outcomes change the two parameters of a score (\<open>calculations.go\<close>) and the history of audit windows
  (\<open>audithistory.go\<close>), and when a node is vetted, suspended, put under review and disqualified
  (\<open>populateUpdateNodeStats\<close>). Scores are exact numbers where the code has \<open>float64\<close>; a time and
  a duration are numbers of nanoseconds, a time since the zero time; counts of results are not negative.
  The messages \<open>AuditHistory\<close> and \<open>AuditWindow\<close> are their fields.
\<close>

subsection \<open>The parameters of a score\<close>

definition UpdateReputation :: "bool \<Rightarrow> rat \<Rightarrow> rat \<Rightarrow> rat \<Rightarrow> rat \<Rightarrow> rat \<times> rat" where
  "UpdateReputation isSuccess alpha beta lambda w =
     (let v = (if isSuccess then 1 else -1) in (lambda * alpha + w * (1 + v) / 2, lambda * beta + w * (1 - v) / 2))"

definition UpdateReputationMultiple :: "nat \<Rightarrow> rat \<Rightarrow> rat \<Rightarrow> rat \<Rightarrow> rat \<Rightarrow> rat \<times> rat" where
  "UpdateReputationMultiple n alpha beta lambda w =
     (if lambda = 1 then (alpha + w * of_nat n, beta)
      else let lambdaPowN = lambda ^ n in
        (lambdaPowN * alpha + w * (1 - lambdaPowN) / (1 - lambda), lambdaPowN * beta))"

text \<open>The sum of the first powers of the forgetting factor.\<close>

definition powers :: "rat \<Rightarrow> nat \<Rightarrow> rat" where
  "powers l n = (\<Sum>i < n. l ^ i)"

lemma powers_simps [simp]: "powers l 0 = 0" "powers l (Suc n) = powers l n + l ^ n"
  by (simp_all add: powers_def)

lemma powers_nonneg: "0 \<le> l \<Longrightarrow> 0 \<le> powers l n"
  by (simp add: powers_def sum_nonneg)

lemma Multiple_powers:
  "UpdateReputationMultiple n a b l w = (l ^ n * a + w * powers l n, l ^ n * b)"
  by (cases "l = 1") (simp_all add: UpdateReputationMultiple_def Let_def powers_def sum_gp_strict)

lemma Multiple_iterates:
  "UpdateReputationMultiple n a b l w = ((\<lambda>(a, b). UpdateReputation True a b l w) ^^ n) (a, b)"
proof (induction n)
  case (Suc n)
  have "l * powers l n + 1 = powers l (Suc n)"
    by (simp add: powers_def sum.lessThan_Suc_shift sum_distrib_left del: sum.lessThan_Suc)
  then have "l * (w * powers l n) + w = w * powers l (Suc n)"
    by (metis (no_types, opaque_lifting) distrib_left mult.left_commute mult.right_neutral)
  then show ?case
    by (simp only: funpow.simps comp_apply Suc.IH [symmetric] Multiple_powers)
      (simp add: UpdateReputation_def algebra_simps del: powers_simps)
qed (simp add: Multiple_powers)

text \<open>Outcomes in the order they happened, one by one.\<close>

definition audits_in_order :: "rat \<Rightarrow> rat \<Rightarrow> bool list \<Rightarrow> rat \<times> rat \<Rightarrow> rat \<times> rat" where
  "audits_in_order l w outcomes = fold (\<lambda>ok (a, b). UpdateReputation ok a b l w) outcomes"

abbreviation how_many :: "'a \<Rightarrow> 'a list \<Rightarrow> nat" where
  "how_many x xs \<equiv> count_list xs x"

lemma in_order_alpha:
  assumes "0 \<le> l" "l \<le> 1" "0 \<le> w"
  shows "fst (audits_in_order l w xs (a, b)) \<le> l ^ length xs * a + w * powers l (how_many True xs)"
proof (induction xs arbitrary: a b)
  case (Cons x xs)
  have "fst (audits_in_order l w (x # xs) (a, b)) \<le>
      l ^ length xs * (l * a + (if x then w else 0)) + w * powers l (how_many True xs)"
    using Cons.IH [of "l * a + (if x then w else 0)" "l * b + (if x then 0 else w)"]
    by (simp add: audits_in_order_def UpdateReputation_def split: if_splits)
  moreover have "x \<Longrightarrow> w * l ^ length xs \<le> w * l ^ how_many True xs"
    using assms by (intro mult_left_mono power_decreasing) (auto simp: count_le_length)
  ultimately show ?case by (auto simp: algebra_simps)
qed (simp add: audits_in_order_def)

lemma in_order_beta:
  assumes "0 \<le> l" "l \<le> 1" "0 \<le> w"
  shows "l ^ length xs * b + w * (l ^ how_many True xs * powers l (how_many False xs)) \<le> snd (audits_in_order l w xs (a, b))"
proof (induction xs arbitrary: a b)
  case (Cons x xs)
  let ?p = "how_many True xs" and ?f = "how_many False xs"
  have len: "length xs = ?p + ?f" by (induction xs) auto
  have "l ^ length xs * (l * b + (if x then 0 else w)) + w * (l ^ ?p * powers l ?f) \<le>
      snd (audits_in_order l w (x # xs) (a, b))"
    using Cons.IH [where b = "l * b + (if x then 0 else w)" and a = "l * a + (if x then w else 0)"]
    by (simp add: audits_in_order_def UpdateReputation_def split: if_splits)
  moreover have "w * (l * l ^ ?p * powers l ?f) \<le> w * (l ^ ?p * powers l ?f)"
    using assms powers_nonneg [OF assms(1), of ?f]
    by (intro mult_left_mono mult_right_mono) (auto intro: mult_left_le_one_le)
  ultimately show ?case by (auto simp: algebra_simps len power_add)
qed (simp add: audits_in_order_def)

text \<open>What \<open>populateUpdateNodeStats\<close> computes: first the failures, then the successes.\<close>

definition failures_first :: "rat \<Rightarrow> rat \<Rightarrow> nat \<Rightarrow> nat \<Rightarrow> rat \<Rightarrow> rat \<Rightarrow> rat \<times> rat" where
  "failures_first lambda w fails succs alpha beta =
     (case UpdateReputationMultiple fails beta alpha lambda w of
        (beta, alpha) \<Rightarrow> UpdateReputationMultiple succs alpha beta lambda w)"

lemma failures_first_powers:
  "failures_first l w f p a b = (l ^ (f + p) * a + w * powers l p, l ^ (f + p) * b + w * (l ^ p * powers l f))"
  by (simp add: failures_first_def Multiple_powers power_add algebra_simps)

lemma score_mono:
  fixes a b a' b' :: rat
  assumes "0 \<le> a" "a \<le> a'" "0 \<le> b'" "b' \<le> b" "0 < a + b" "0 < a' + b'"
  shows "a / (a + b) \<le> a' / (a' + b')"
proof -
  have "a * b' \<le> a' * b" using assms by (intro mult_mono) auto
  then show ?thesis using assms by (simp add: field_simps)
qed

lemma in_order_nonneg:
  assumes "0 \<le> l" "0 \<le> w" "0 \<le> a" "0 \<le> b"
  shows "0 \<le> fst (audits_in_order l w xs (a, b)) \<and> 0 \<le> snd (audits_in_order l w xs (a, b))"
  using assms(3,4)
proof (induction xs arbitrary: a b)
  case (Cons x xs)
  then show ?case using assms(1,2) Cons.IH [of "l * a + (if x then w else 0)" "l * b + (if x then 0 else w)"]
    by (simp add: audits_in_order_def UpdateReputation_def split: if_splits)
qed (simp add: audits_in_order_def)

lemma how_many_length: "length xs = how_many False xs + how_many True xs"
  by (induction xs) auto

text \<open>The order that the code chooses is the best one for the node.\<close>

lemma failures_first_best:
  assumes "0 \<le> l" "l \<le> 1" "0 \<le> w"
  shows "fst (audits_in_order l w xs (a, b)) \<le> fst (failures_first l w (how_many False xs) (how_many True xs) a b) \<and>
    snd (failures_first l w (how_many False xs) (how_many True xs) a b) \<le> snd (audits_in_order l w xs (a, b))"
  using in_order_alpha [OF assms, of xs a b] in_order_beta [OF assms, of xs b a]
  by (simp add: failures_first_powers how_many_length)

text \<open>The two parameters stay within the bound that the weight and the forgetting factor give.\<close>

definition score_ok :: "rat \<Rightarrow> rat \<Rightarrow> rat \<times> rat \<Rightarrow> bool" where
  "score_ok l w ab \<longleftrightarrow> 0 \<le> fst ab \<and> 0 \<le> snd ab \<and> 0 < fst ab + snd ab \<and> fst ab + snd ab \<le> w / (1 - l)"

lemma Multiple_ok:
  assumes "0 < l" "l < 1" "0 \<le> w" "score_ok l w (a, b)"
  shows "score_ok l w (UpdateReputationMultiple n a b l w)"
proof -
  have p: "0 < l ^ n" "l ^ n \<le> 1" using assms by (auto intro: power_le_one)
  obtain k where k: "k = w / (1 - l)" by blast
  have "w * powers l n = (1 - l ^ n) * k" using assms by (simp add: k powers_def sum_gp_strict)
  moreover have "l ^ n * (a + b) \<le> l ^ n * k" using assms p by (intro mult_left_mono) (auto simp: k score_ok_def)
  ultimately have "l ^ n * (a + b) + w * powers l n \<le> k" by (simp add: algebra_simps)
  then have "l ^ n * a + w * powers l n + l ^ n * b \<le> w / (1 - l)" by (simp add: k algebra_simps)
  moreover have "0 < l ^ n * (a + b)" using assms p by (simp add: score_ok_def)
  moreover have "0 \<le> w * powers l n" using assms powers_nonneg [of l n] by simp
  ultimately show ?thesis using assms p by (auto simp: score_ok_def Multiple_powers distrib_left)
qed

lemma score_ok_swap: "score_ok l w (b, a) \<longleftrightarrow> score_ok l w (a, b)"
  by (auto simp: score_ok_def add.commute)

lemma failures_first_ok:
  assumes "0 < l" "l < 1" "0 \<le> w" "score_ok l w (a, b)"
  shows "score_ok l w (failures_first l w f p a b)"
  using Multiple_ok [OF assms(1-3), of b a f] Multiple_ok [OF assms(1-3), of "snd (UpdateReputationMultiple f b a l w)" "fst (UpdateReputationMultiple f b a l w)" p] assms(4)
  by (auto simp: failures_first_def score_ok_swap split: prod.splits)

subsection \<open>The history of audit windows\<close>

record AuditWindow =
  WindowStart :: time
  OnlineCount :: int
  TotalCount :: int

record AuditHistory =
  Windows :: "AuditWindow list"
  Score :: rat

record AuditHistoryConfig =
  WindowSize :: time
  TrackingPeriod :: time
  GracePeriod :: time
  OfflineThreshold :: rat
  OfflineDQEnabled :: bool
  OfflineSuspensionEnabled :: bool

definition Truncate :: "time \<Rightarrow> time \<Rightarrow> time" where
  "Truncate t d = (if d \<le> 0 then t else t - t mod d)"

definition score_of :: "AuditWindow list \<Rightarrow> rat" where
  "score_of ws =
     (if length ws \<le> 1 then 1
      else sum_list (map (\<lambda>w. of_int (OnlineCount w) / of_int (TotalCount w)) (butlast ws)) / of_nat (length ws - 1))"

definition RecalculateScore :: "AuditHistory \<Rightarrow> AuditHistory" where
  "RecalculateScore history = history\<lparr>Score := score_of (Windows history)\<rparr>"

definition zero_window :: "time \<Rightarrow> AuditWindow" where
  "zero_window t = \<lparr>WindowStart = t, OnlineCount = 0, TotalCount = 0\<rparr>"

definition count_audit :: "bool \<Rightarrow> AuditWindow \<Rightarrow> AuditWindow" where
  "count_audit online w =
     w\<lparr>OnlineCount := (if online then OnlineCount w + 1 else OnlineCount w), TotalCount := TotalCount w + 1\<rparr>"

text \<open>The history is left trimmed and, when needed, with a new window even if the audit is refused.\<close>

definition AddAuditToHistory ::
  "AuditHistory \<Rightarrow> bool \<Rightarrow> time \<Rightarrow> AuditHistoryConfig \<Rightarrow> AuditHistory \<times> string option" where
  "AddAuditToHistory a online auditTime cfg =
     (let newAuditWindowStartTime = Truncate auditTime (WindowSize cfg);
          earliestWindow = newAuditWindowStartTime - TrackingPeriod cfg;
          kept = dropWhile (\<lambda>w. WindowStart w < earliestWindow) (Windows a);
          append = (kept = [] \<or> WindowStart (last kept) < newAuditWindowStartTime);
          windowsModified = (kept \<noteq> Windows a \<or> append);
          ws = (if append then kept @ [zero_window newAuditWindowStartTime] else kept)
      in if WindowStart (last ws) > newAuditWindowStartTime
         then (a\<lparr>Windows := ws\<rparr>, Some ''cannot add audit to audit history; window already passed'')
         else let ws = butlast ws @ [count_audit online (last ws)] in
           (a\<lparr>Windows := ws, Score := (if windowsModified then score_of ws else Score a)\<rparr>, None))"

text \<open>The loop of \<open>MergeAuditHistories\<close>, from the windows at its two indices on.\<close>

definition add_window :: "AuditWindow \<Rightarrow> AuditWindow \<Rightarrow> AuditWindow" where
  "add_window w a = w\<lparr>TotalCount := TotalCount w + TotalCount a, OnlineCount := OnlineCount w + OnlineCount a\<rparr>"

definition window_copy :: "AuditWindow \<Rightarrow> AuditWindow" where
  "window_copy a = \<lparr>WindowStart = WindowStart a, OnlineCount = OnlineCount a, TotalCount = TotalCount a\<rparr>"

function merge_windows :: "AuditWindow list \<Rightarrow> AuditWindow list \<Rightarrow> AuditWindow list" where
  "merge_windows windows [] = windows"
| "merge_windows [] (a # addHistory) = merge_windows [add_window (zero_window (WindowStart a)) a] addHistory"
| "merge_windows (w # windows) (a # addHistory) =
     (if WindowStart w = WindowStart a then merge_windows (add_window w a # windows) addHistory
      else if WindowStart w < WindowStart a then w # merge_windows windows (a # addHistory)
      else merge_windows (window_copy a # w # windows) addHistory)"
  by pat_completeness auto
termination by (relation "measure (\<lambda>(windows, addHistory). 2 * length addHistory + length windows)") auto

definition trim_windows :: "time \<Rightarrow> AuditWindow list \<Rightarrow> AuditWindow list" where
  "trim_windows period ws =
     (if ws = [] then [] else let cutoffTime = WindowStart (last ws) - period in
        dropWhile (\<lambda>w. WindowStart w < cutoffTime) ws)"

definition MergeAuditHistories ::
  "AuditHistory \<Rightarrow> AuditWindow list \<Rightarrow> AuditHistoryConfig \<Rightarrow> AuditHistory \<times> bool" where
  "MergeAuditHistories history addHistory cfg =
     (let windows = trim_windows (TrackingPeriod cfg) (merge_windows (Windows history) addHistory);
          windowsPerTrackingPeriod = TrackingPeriod cfg div WindowSize cfg
      in (RecalculateScore (history\<lparr>Windows := windows\<rparr>), int (length windows) - 1 \<ge> windowsPerTrackingPeriod))"

text \<open>The audits that are counted for a window.\<close>

definition counted_at :: "(AuditWindow \<Rightarrow> int) \<Rightarrow> time \<Rightarrow> AuditWindow list \<Rightarrow> int" where
  "counted_at f t ws = sum_list (map f (filter (\<lambda>w. WindowStart w = t) ws))"

lemma window_simps [simp]:
  "WindowStart (add_window w a) = WindowStart w" "TotalCount (add_window w a) = TotalCount w + TotalCount a"
  "OnlineCount (add_window w a) = OnlineCount w + OnlineCount a" "WindowStart (window_copy a) = WindowStart a"
  "TotalCount (window_copy a) = TotalCount a" "OnlineCount (window_copy a) = OnlineCount a"
  "WindowStart (zero_window t) = t" "TotalCount (zero_window t) = 0" "OnlineCount (zero_window t) = 0"
  "WindowStart (count_audit b w) = WindowStart w"
  by (simp_all add: add_window_def window_copy_def zero_window_def count_audit_def)

lemma merge_counted:
  assumes "f = TotalCount \<or> f = OnlineCount"
  shows "counted_at f t (merge_windows ws add) = counted_at f t ws + counted_at f t add"
proof (induction ws add rule: merge_windows.induct)
  case (2 a addHistory)
  then show ?case using assms by (auto simp: counted_at_def)
next
  case (3 w windows a addHistory)
  then show ?case using assms by (auto simp: counted_at_def split: if_splits)
qed (simp add: counted_at_def)

lemma merge_starts: "WindowStart ` set (merge_windows ws add) = WindowStart ` set ws \<union> WindowStart ` set add"
  by (induction ws add rule: merge_windows.induct) (auto split: if_splits)

lemma merge_sorted:
  "sorted_wrt (<) (map WindowStart ws) \<Longrightarrow> sorted (map WindowStart add) \<Longrightarrow> sorted_wrt (<) (map WindowStart (merge_windows ws add))"
proof (induction ws add rule: merge_windows.induct)
  case (3 w windows a addHistory)
  have m: "WindowStart ` set (merge_windows windows (a # addHistory)) = WindowStart ` set windows \<union> WindowStart ` set (a # addHistory)"
    by (rule merge_starts)
  show ?case
  proof (cases "WindowStart w < WindowStart a")
    case True
    have "WindowStart w < u" if "u \<in> WindowStart ` set (merge_windows windows (a # addHistory))" for u
      using that "3.prems" True unfolding m by force
    then show ?thesis using 3 True by auto
  next
    case False
    then have "\<forall>x \<in> set windows. WindowStart a < WindowStart x" if "WindowStart w \<noteq> WindowStart a"
      using that "3.prems"(1) by (force intro: less_trans)
    then show ?thesis using 3 False by auto
  qed
qed auto

lemma merge_nonempty: "merge_windows ws add = [] \<longleftrightarrow> ws = [] \<and> add = []"
  by (induction ws add rule: merge_windows.induct) auto

lemma sorted_dropWhile_filter_start:
  "sorted_wrt (<) (map WindowStart ws) \<Longrightarrow> dropWhile (\<lambda>w. WindowStart w < c) ws = filter (\<lambda>w. c \<le> WindowStart w) ws"
proof (induction ws)
  case (Cons w ws)
  show ?case
  proof (cases "WindowStart w < c")
    case False
    then have "\<forall>x \<in> set ws. c \<le> WindowStart x" using Cons.prems by force
    then show ?thesis using False by (simp add: filter_id_conv)
  qed (use Cons in simp)
qed simp

definition window_ok :: "AuditWindow \<Rightarrow> bool" where
  "window_ok w \<longleftrightarrow> 0 \<le> OnlineCount w \<and> OnlineCount w \<le> TotalCount w \<and> 0 < TotalCount w"

lemma score_bounds:
  assumes "\<forall>w \<in> set ws. window_ok w"
  shows "0 \<le> score_of ws \<and> score_of ws \<le> 1"
proof (cases "length ws \<le> 1")
  case False
  let ?r = "\<lambda>w. of_int (OnlineCount w) / of_int (TotalCount w) :: rat"
  have r: "0 \<le> ?r w \<and> ?r w \<le> 1" if "w \<in> set (butlast ws)" for w
    using assms in_set_butlastD [OF that] by (auto simp: window_ok_def divide_le_eq)
  have lower: "0 \<le> sum_list (map ?r (butlast ws))" using r by (intro sum_list_nonneg) auto
  have "sum_list (map ?r (butlast ws)) \<le> sum_list (map (\<lambda>_. 1) (butlast ws))" using r by (intro sum_list_mono) auto
  also have "\<dots> = of_nat (length ws - 1)" by (simp add: sum_list_triv)
  finally show ?thesis using False lower by (simp add: score_of_def divide_le_eq)
qed (simp add: score_of_def)

lemma window_ok_simps [simp]:
  "window_ok (window_copy a) = window_ok a" "window_ok (add_window (zero_window t) a) = window_ok a"
  by (simp_all add: window_ok_def)

lemma window_ok_add: "window_ok w \<Longrightarrow> window_ok a \<Longrightarrow> window_ok (add_window w a)"
  by (auto simp: window_ok_def)

lemma merge_ok:
  "(\<And>w. w \<in> set ws \<Longrightarrow> window_ok w) \<Longrightarrow> (\<And>w. w \<in> set add \<Longrightarrow> window_ok w) \<Longrightarrow>
    w \<in> set (merge_windows ws add) \<Longrightarrow> window_ok w"
proof (induction ws add rule: merge_windows.induct)
  case (3 v windows a addHistory)
  have ok: "window_ok v" "window_ok a" "\<And>w. w \<in> set windows \<Longrightarrow> window_ok w" "\<And>w. w \<in> set addHistory \<Longrightarrow> window_ok w"
    using 3(4,5) by auto
  consider "WindowStart v = WindowStart a" | "WindowStart v < WindowStart a" | "WindowStart v > WindowStart a" by linarith
  then show ?case
  proof cases
    case 1
    show ?thesis by (rule "3.IH"(1) [OF 1]) (use 1 ok 3(6) window_ok_add in auto)
  next
    case 2
    show ?thesis
    proof (cases "w = v")
      case False
      show ?thesis by (rule "3.IH"(2)) (use 2 False ok 3(6) in auto)
    qed (use ok in simp)
  next
    case 3
    show ?thesis by (rule "3.IH"(3)) (use 3 ok \<open>w \<in> _\<close> in auto)
  qed
qed auto

text \<open>A history as the code leaves it.\<close>

definition history_ok :: "AuditHistory \<Rightarrow> bool" where
  "history_ok h \<longleftrightarrow> sorted_wrt (<) (map WindowStart (Windows h)) \<and> (\<forall>w \<in> set (Windows h). window_ok w) \<and>
     Score h = score_of (Windows h)"

lemma filter_sorted_map: "sorted_wrt P (map f xs) \<Longrightarrow> sorted_wrt P (map f (filter Q xs))"
  by (induction xs) auto

lemma Merge_history_ok:
  assumes "history_ok h" "sorted (map WindowStart add)" "\<forall>w \<in> set add. window_ok w"
  shows "history_ok (fst (MergeAuditHistories h add cfg))"
proof -
  have s: "sorted_wrt (<) (map WindowStart (merge_windows (Windows h) add))"
    using assms by (simp add: merge_sorted history_ok_def)
  have w: "\<forall>w \<in> set (merge_windows (Windows h) add). window_ok w"
    using assms merge_ok [of "Windows h" add] by (auto simp: history_ok_def)
  show ?thesis using s w
    by (auto simp: history_ok_def MergeAuditHistories_def RecalculateScore_def trim_windows_def Let_def
      sorted_dropWhile_filter_start [OF s] intro: filter_sorted_map)
qed

lemma Merge_windows:
  assumes "sorted_wrt (<) (map WindowStart (Windows h))" "sorted (map WindowStart add)"
  shows "Windows (fst (MergeAuditHistories h add cfg)) =
    filter (\<lambda>w. WindowStart (last (merge_windows (Windows h) add)) - TrackingPeriod cfg \<le> WindowStart w)
      (merge_windows (Windows h) add)"
  using merge_sorted [OF assms]
  by (simp add: MergeAuditHistories_def RecalculateScore_def trim_windows_def Let_def sorted_dropWhile_filter_start)

subsection \<open>Adding one audit is merging one window\<close>

definition empty_history :: AuditHistory where
  "empty_history = \<lparr>Windows = [], Score = 0\<rparr>"

lemma AddAudit_empty:
  "AddAuditToHistory empty_history online t cfg =
     (\<lparr>Windows = [count_audit online (zero_window (Truncate t (WindowSize cfg)))], Score = 1\<rparr>, None)"
  by (simp add: AddAuditToHistory_def empty_history_def Let_def score_of_def)

lemma merge_one_above:
  "\<forall>w \<in> set ws. WindowStart w < WindowStart a \<Longrightarrow> merge_windows ws [a] = ws @ [add_window (zero_window (WindowStart a)) a]"
  by (induction ws) auto

lemma merge_one_last:
  "\<forall>w \<in> set ws. WindowStart w < WindowStart a \<Longrightarrow> WindowStart l = WindowStart a \<Longrightarrow>
    merge_windows (ws @ [l]) [a] = ws @ [add_window l a]"
  by (induction ws) auto

lemma add_count [simp]:
  "add_window (zero_window t) (count_audit b (zero_window t)) = count_audit b (zero_window t)"
  "add_window w (count_audit b (zero_window t)) = count_audit b w"
  by (simp_all add: add_window_def zero_window_def count_audit_def)

lemma score_last: "score_of (ws @ [x]) = score_of (ws @ [y])"
  by (simp add: score_of_def)

lemma dropWhile_snoc: "\<not> p x \<Longrightarrow> dropWhile p (ws @ [x]) = dropWhile p ws @ [x]"
  by (induction ws) auto

lemma AddAudit_merges:
  assumes "history_ok h" "0 \<le> TrackingPeriod cfg"
    and "Windows h = [] \<or> WindowStart (last (Windows h)) \<le> Truncate t (WindowSize cfg)"
  shows "AddAuditToHistory h online t cfg =
    (fst (MergeAuditHistories h (Windows (fst (AddAuditToHistory empty_history online t cfg))) cfg), None)"
proof -
  let ?new = "Truncate t (WindowSize cfg)" and ?ws = "Windows h"
  let ?p = "\<lambda>w. WindowStart w < ?new - TrackingPeriod cfg" and ?a = "count_audit online (zero_window ?new)"
  have sorted: "sorted_wrt (<) (map WindowStart ?ws)" and score: "Score h = score_of ?ws"
    using assms(1) by (simp_all add: history_ok_def)
  have one: "Windows (fst (AddAuditToHistory empty_history online t cfg)) = [?a]" by (simp add: AddAudit_empty)
  have "AddAuditToHistory h online t cfg = (fst (MergeAuditHistories h [?a] cfg), None)" (is ?goal)
  proof (cases "?ws \<noteq> [] \<and> WindowStart (last ?ws) = ?new")
    case True
    then obtain front l where ws: "?ws = front @ [l]" and l: "WindowStart l = ?new"
      by (metis append_butlast_last_id)
    have below: "\<forall>w \<in> set front. WindowStart w < ?new"
      using sorted l unfolding ws by (auto simp: sorted_wrt_append)
    have m: "merge_windows (front @ [l]) [?a] = front @ [count_audit online l]"
      using merge_one_last [of front ?a l] below l by simp
    have "dropWhile ?p (front @ [l]) = dropWhile ?p front @ [l]"
      "dropWhile ?p (front @ [count_audit online l]) = dropWhile ?p front @ [count_audit online l]"
      using l assms(2) by (simp_all add: dropWhile_snoc)
    then show ?goal
      using l assms(2) score score_last [of front l "count_audit online l"]
      by (auto simp: AddAuditToHistory_def MergeAuditHistories_def RecalculateScore_def trim_windows_def
        m ws Let_def)
  next
    case False
    have below: "\<forall>w \<in> set ?ws. WindowStart w < ?new"
    proof (cases "?ws = []")
      case nonempty: False
      then obtain front l where ws: "?ws = front @ [l]" and l: "WindowStart l < ?new"
        using False assms(3) by (metis append_butlast_last_id order_le_imp_less_or_eq)
      then show ?thesis using sorted unfolding ws by (force simp: sorted_wrt_append)
    qed simp
    have m: "merge_windows ?ws [?a] = ?ws @ [?a]" using merge_one_above [of ?ws ?a] below by simp
    obtain K where K: "dropWhile ?p ?ws = K" by blast
    have d: "dropWhile ?p (?ws @ [?a]) = K @ [?a]" using assms(2) K by (simp add: dropWhile_snoc)
    have "K = [] \<or> WindowStart (last K) < ?new"
      unfolding K [symmetric] using below by (meson last_in_set set_dropWhileD)
    then show ?goal
      by (auto simp: AddAuditToHistory_def MergeAuditHistories_def RecalculateScore_def trim_windows_def m d K Let_def
        simp del: dropWhile_eq_Nil_conv)
  qed
  then show ?thesis unfolding one .
qed

lemma AddAudit_refused:
  assumes "history_ok h" "0 \<le> TrackingPeriod cfg" "Windows h \<noteq> []" "Truncate t (WindowSize cfg) < WindowStart (last (Windows h))"
  shows "snd (AddAuditToHistory h online t cfg) \<noteq> None"
proof -
  let ?new = "Truncate t (WindowSize cfg)"
  let ?p = "\<lambda>w. WindowStart w < ?new - TrackingPeriod cfg"
  obtain front l where ws: "Windows h = front @ [l]" and l: "?new < WindowStart l"
    using assms(3,4) by (metis append_butlast_last_id)
  have "dropWhile ?p (front @ [l]) = dropWhile ?p front @ [l]" using l assms(2) by (simp add: dropWhile_snoc)
  then show ?thesis using l assms(2) by (simp add: AddAuditToHistory_def ws Let_def)
qed

text \<open>
  Property C36. The two ways of counting an audit agree: adding an audit to a history that is in order is
  the same as merging the one window of a history with that audit alone, with the windows before the
  tracking period trimmed and the score recomputed; it is refused exactly when the last window of the
  history is later than that of the audit.
\<close>

theorem audit_history_agrees:
  assumes "history_ok h" "0 \<le> TrackingPeriod cfg"
  shows "let refused = (Windows h \<noteq> [] \<and> Truncate t (WindowSize cfg) < WindowStart (last (Windows h)));
      (h', err) = AddAuditToHistory h online t cfg in
    (err \<noteq> None \<longleftrightarrow> refused) \<and>
    (\<not> refused \<longrightarrow> h' = fst (MergeAuditHistories h (Windows (fst (AddAuditToHistory empty_history online t cfg))) cfg) \<and> history_ok h')"
proof (cases "Windows h \<noteq> [] \<and> Truncate t (WindowSize cfg) < WindowStart (last (Windows h))")
  case True
  then show ?thesis using AddAudit_refused [OF assms, of t online] by (auto simp: Let_def split: prod.split)
next
  case False
  have "history_ok (fst (MergeAuditHistories h (Windows (fst (AddAuditToHistory empty_history online t cfg))) cfg))"
    by (rule Merge_history_ok [OF assms(1)]) (simp_all add: AddAudit_empty window_ok_def count_audit_def)
  then show ?thesis using False AddAudit_merges [OF assms, of t online] by (auto simp: Let_def not_less)
qed

lemma audit_history_agrees_witness:
  "let cfg = \<lparr>WindowSize = 10, TrackingPeriod = 20, GracePeriod = 10, OfflineThreshold = 1 / 2, OfflineDQEnabled = True,
       OfflineSuspensionEnabled = True\<rparr>;
       h = \<lparr>Windows = [\<lparr>WindowStart = 10, OnlineCount = 1, TotalCount = 2\<rparr>, \<lparr>WindowStart = 30, OnlineCount = 1, TotalCount = 1\<rparr>], Score = 1 / 2\<rparr> in
   fst (AddAuditToHistory h True 45 cfg) = fst (MergeAuditHistories h (Windows (fst (AddAuditToHistory empty_history True 45 cfg))) cfg) \<and>
   snd (AddAuditToHistory h True 45 cfg) = None \<and> snd (AddAuditToHistory h True 25 cfg) \<noteq> None"
proof -
  let ?cfg = "\<lparr>WindowSize = 10, TrackingPeriod = 20, GracePeriod = 10, OfflineThreshold = 1 / 2, OfflineDQEnabled = True,
       OfflineSuspensionEnabled = True\<rparr>"
  let ?h = "\<lparr>Windows = [\<lparr>WindowStart = 10, OnlineCount = 1, TotalCount = 2\<rparr>, \<lparr>WindowStart = 30, OnlineCount = 1, TotalCount = 1\<rparr>], Score = 1 / 2\<rparr>"
  have h: "history_ok ?h" by (simp add: history_ok_def window_ok_def score_of_def)
  have t: "Truncate 45 10 = 40" "Truncate 25 10 = 20" by (simp_all add: Truncate_def)
  show ?thesis
    using audit_history_agrees [OF h, of ?cfg 45 True] audit_history_agrees [OF h, of ?cfg 25 True]
    unfolding Let_def by (auto simp: t split: prod.splits)
qed

end
