(* ===== verification/ReputationUpdates.thy ===== *)
theory ReputationUpdates
  imports Reputation
begin

text \<open>
  Applying audit results to the row of a node (\<open>satellitedb/reputations.go\<close>): \<open>populateUpdateNodeStats\<close>
  says which columns change, and \<open>ApplyUpdates\<close> writes them with a compare and swap on the audit history,
  in a loop. Several callers may work on the row at the same time; each statement is one step. The
  history is stored as the bytes of a message, here as the message. \<open>time.Now()\<close> is a parameter.
\<close>

subsection \<open>Rows, results and configuration\<close>

record dbx_Reputation =
  r_AuditSuccessCount :: int
  r_TotalAuditCount :: int
  r_VettedAt :: "time option"
  r_Disqualified :: "time option"
  r_DisqualificationReason :: "int option"
  r_UnknownAuditSuspended :: "time option"
  r_OfflineSuspended :: "time option"
  r_UnderReview :: "time option"
  r_OnlineScore :: rat
  r_AuditHistory :: AuditHistory
  r_AuditReputationAlpha :: rat
  r_AuditReputationBeta :: rat
  r_UnknownAuditReputationAlpha :: rat
  r_UnknownAuditReputationBeta :: rat

record Mutations =
  PositiveResults :: nat
  FailureResults :: nat
  UnknownResults :: nat
  OfflineResults :: nat
  OnlineHistory :: "AuditHistory option"

record rep_Config =
  AuditLambda :: rat
  AuditWeight :: rat
  AuditDQ :: rat
  UnknownAuditLambda :: rat
  UnknownAuditDQ :: rat
  SuspensionGracePeriod :: time
  SuspensionDQEnabled :: bool
  AuditCount :: int
  HistoryConfig :: AuditHistoryConfig
  InitialAlpha :: rat
  InitialBeta :: rat

datatype AuditType = AuditSuccess | AuditFailure | AuditUnknown | AuditOffline

definition DisqualificationReasonAuditFailure :: int where "DisqualificationReasonAuditFailure = 1"
definition DisqualificationReasonSuspension :: int where "DisqualificationReasonSuspension = 2"
definition DisqualificationReasonNodeOffline :: int where "DisqualificationReasonNodeOffline = 3"

definition UpdateRequestToMutations :: "rep_Config \<Rightarrow> AuditType \<Rightarrow> time \<Rightarrow> Mutations \<times> string option" where
  "UpdateRequestToMutations cfg outcome now =
     (case AddAuditToHistory empty_history (outcome \<noteq> AuditOffline) now (HistoryConfig cfg) of
        (history, err) \<Rightarrow>
          (\<lparr>PositiveResults = (if outcome = AuditSuccess then 1 else 0),
            FailureResults = (if outcome = AuditFailure then 1 else 0),
            UnknownResults = (if outcome = AuditUnknown then 1 else 0),
            OfflineResults = (if outcome = AuditOffline then 1 else 0),
            OnlineHistory = Some history\<rparr>, err))"

text \<open>The columns to write: those that are always set, and those that may be left alone (\<open>None\<close>); a
  nullable column may be set to null (\<open>Some None\<close>).\<close>

record updateNodeStats =
  u_TotalAuditCount :: int
  u_AuditSuccessCount :: int
  u_AuditReputationAlpha :: rat
  u_AuditReputationBeta :: rat
  u_UnknownAuditReputationAlpha :: rat
  u_UnknownAuditReputationBeta :: rat
  u_OnlineScore :: rat
  u_VettedAt :: "time option"
  u_Disqualified :: "time option"
  u_DisqualificationReason :: "int option"
  u_UnknownAuditSuspended :: "time option option"
  u_OfflineUnderReview :: "time option option"
  u_OfflineSuspended :: "time option option"

subsection \<open>\<open>populateUpdateNodeStats\<close>\<close>

definition base_update :: "rep_Config \<Rightarrow> Mutations \<Rightarrow> rat \<Rightarrow> time \<Rightarrow> dbx_Reputation \<Rightarrow> updateNodeStats" where
  "base_update cfg updates newScore now dbNode =
     (let total = r_TotalAuditCount dbNode +
            int (OfflineResults updates + UnknownResults updates + FailureResults updates + PositiveResults updates)
      in case UpdateReputationMultiple (FailureResults updates) (r_AuditReputationBeta dbNode) (r_AuditReputationAlpha dbNode)
                (AuditLambda cfg) (AuditWeight cfg) of (auditBeta, auditAlpha) \<Rightarrow>
         case UpdateReputationMultiple (UnknownResults updates) (r_UnknownAuditReputationBeta dbNode)
                (r_UnknownAuditReputationAlpha dbNode) (UnknownAuditLambda cfg) (AuditWeight cfg) of (unknownBeta, unknownAlpha) \<Rightarrow>
         case UpdateReputationMultiple (PositiveResults updates) auditAlpha auditBeta (AuditLambda cfg) (AuditWeight cfg) of
           (auditAlpha, auditBeta) \<Rightarrow>
         case UpdateReputationMultiple (PositiveResults updates) unknownAlpha unknownBeta
                (UnknownAuditLambda cfg) (AuditWeight cfg) of (unknownAlpha, unknownBeta) \<Rightarrow>
         \<lparr>u_TotalAuditCount = total,
          u_AuditSuccessCount = r_AuditSuccessCount dbNode + int (PositiveResults updates),
          u_AuditReputationAlpha = auditAlpha, u_AuditReputationBeta = auditBeta,
          u_UnknownAuditReputationAlpha = unknownAlpha, u_UnknownAuditReputationBeta = unknownBeta,
          u_OnlineScore = newScore,
          u_VettedAt = (if r_VettedAt dbNode = None \<and> total \<ge> AuditCount cfg then Some now else None),
          u_Disqualified = None, u_DisqualificationReason = None, u_UnknownAuditSuspended = None,
          u_OfflineUnderReview = None, u_OfflineSuspended = None\<rparr>)"

definition score :: "rat \<Rightarrow> rat \<Rightarrow> rat" where
  "score alpha beta = alpha / (alpha + beta)"

definition check_audit_score :: "rep_Config \<Rightarrow> time \<Rightarrow> updateNodeStats \<Rightarrow> updateNodeStats" where
  "check_audit_score cfg now u =
     (if score (u_AuditReputationAlpha u) (u_AuditReputationBeta u) \<le> AuditDQ cfg
      then u\<lparr>u_Disqualified := Some now, u_DisqualificationReason := Some DisqualificationReasonAuditFailure\<rparr> else u)"

definition check_unknown_score :: "rep_Config \<Rightarrow> time \<Rightarrow> time \<Rightarrow> dbx_Reputation \<Rightarrow> updateNodeStats \<Rightarrow> updateNodeStats" where
  "check_unknown_score cfg clock now dbNode u =
     (if score (u_UnknownAuditReputationAlpha u) (u_UnknownAuditReputationBeta u) \<le> UnknownAuditDQ cfg
      then (case r_UnknownAuditSuspended dbNode of
              None \<Rightarrow> u\<lparr>u_UnknownAuditSuspended := Some (Some now)\<rparr>
            | Some since \<Rightarrow>
                if clock - since > SuspensionGracePeriod cfg \<and> SuspensionDQEnabled cfg
                then u\<lparr>u_Disqualified := Some now, u_DisqualificationReason := Some DisqualificationReasonSuspension,
                       u_UnknownAuditSuspended := Some None\<rparr>
                else u)
      else if r_UnknownAuditSuspended dbNode \<noteq> None then u\<lparr>u_UnknownAuditSuspended := Some None\<rparr>
      else u)"

definition check_online_score ::
  "rep_Config \<Rightarrow> rat \<Rightarrow> bool \<Rightarrow> time \<Rightarrow> dbx_Reputation \<Rightarrow> updateNodeStats \<Rightarrow> updateNodeStats" where
  "check_online_score cfg newScore trackingPeriodFull now dbNode u =
     (let hist = HistoryConfig cfg in
      if \<not> OfflineSuspensionEnabled hist
      then u\<lparr>u_OfflineSuspended := (if r_OfflineSuspended dbNode \<noteq> None then Some None else u_OfflineSuspended u),
             u_OfflineUnderReview := (if r_UnderReview dbNode \<noteq> None then Some None else u_OfflineUnderReview u)\<rparr>
      else let penalizeOfflineNode = (newScore < OfflineThreshold hist \<and> trackingPeriodFull) in
        case r_UnderReview dbNode of
          Some underReview \<Rightarrow>
            let u = (if \<not> penalizeOfflineNode \<and> r_OfflineSuspended dbNode \<noteq> None
                     then u\<lparr>u_OfflineSuspended := Some None\<rparr>
                     else if penalizeOfflineNode \<and> r_OfflineSuspended dbNode = None
                     then u\<lparr>u_OfflineSuspended := Some (Some now)\<rparr> else u);
                trackingPeriodEnd = underReview + GracePeriod hist + TrackingPeriod hist
            in if now > trackingPeriodEnd
               then if penalizeOfflineNode
                    then if OfflineDQEnabled hist
                         then u\<lparr>u_Disqualified := Some now,
                                u_DisqualificationReason := Some DisqualificationReasonNodeOffline\<rparr>
                         else u
                    else u\<lparr>u_OfflineUnderReview := Some None, u_OfflineSuspended := Some None\<rparr>
               else u
        | None \<Rightarrow>
            if penalizeOfflineNode
            then u\<lparr>u_OfflineUnderReview := Some (Some now), u_OfflineSuspended := Some (Some now)\<rparr>
            else u)"

definition populateUpdateNodeStats ::
  "rep_Config \<Rightarrow> time \<Rightarrow> Mutations \<Rightarrow> AuditHistory \<times> bool \<Rightarrow> time \<Rightarrow> dbx_Reputation \<Rightarrow> updateNodeStats" where
  "populateUpdateNodeStats cfg clock updates historyResponse now dbNode =
     (case historyResponse of (history, trackingPeriodFull) \<Rightarrow>
        check_online_score cfg (Score history) trackingPeriodFull now dbNode
          (check_unknown_score cfg clock now dbNode
            (check_audit_score cfg now (base_update cfg updates (Score history) now dbNode))))"

definition set_column :: "'a option \<Rightarrow> 'a \<Rightarrow> 'a" where
  "set_column new old = (case new of None \<Rightarrow> old | Some v \<Rightarrow> v)"

definition populateUpdateFields :: "updateNodeStats \<Rightarrow> AuditHistory \<Rightarrow> dbx_Reputation \<Rightarrow> dbx_Reputation" where
  "populateUpdateFields u history r =
     \<lparr>r_AuditSuccessCount = u_AuditSuccessCount u, r_TotalAuditCount = u_TotalAuditCount u,
      r_VettedAt = set_column (map_option Some (u_VettedAt u)) (r_VettedAt r),
      r_Disqualified = set_column (map_option Some (u_Disqualified u)) (r_Disqualified r),
      r_DisqualificationReason = set_column (map_option Some (u_DisqualificationReason u)) (r_DisqualificationReason r),
      r_UnknownAuditSuspended = set_column (u_UnknownAuditSuspended u) (r_UnknownAuditSuspended r),
      r_OfflineSuspended = set_column (u_OfflineSuspended u) (r_OfflineSuspended r),
      r_UnderReview = set_column (u_OfflineUnderReview u) (r_UnderReview r),
      r_OnlineScore = u_OnlineScore u, r_AuditHistory = history,
      r_AuditReputationAlpha = u_AuditReputationAlpha u, r_AuditReputationBeta = u_AuditReputationBeta u,
      r_UnknownAuditReputationAlpha = u_UnknownAuditReputationAlpha u,
      r_UnknownAuditReputationBeta = u_UnknownAuditReputationBeta u\<rparr>"

text \<open>The values that a new node starts from, in memory; the columns that \<open>populateCreateFields\<close> does not
  set get the defaults of the table, which are the same.\<close>

definition newNode :: "rep_Config \<Rightarrow> dbx_Reputation" where
  "newNode cfg =
     \<lparr>r_AuditSuccessCount = 0, r_TotalAuditCount = 0, r_VettedAt = None, r_Disqualified = None,
      r_DisqualificationReason = None, r_UnknownAuditSuspended = None, r_OfflineSuspended = None, r_UnderReview = None,
      r_OnlineScore = 1, r_AuditHistory = empty_history, r_AuditReputationAlpha = InitialAlpha cfg,
      r_AuditReputationBeta = InitialBeta cfg, r_UnknownAuditReputationAlpha = 1, r_UnknownAuditReputationBeta = 0\<rparr>"

definition mergeAuditHistory :: "AuditHistory \<Rightarrow> Mutations \<Rightarrow> rep_Config \<Rightarrow> AuditHistory \<times> bool" where
  "mergeAuditHistory old updates cfg =
     MergeAuditHistories old (case OnlineHistory updates of None \<Rightarrow> [] | Some h \<Rightarrow> Windows h) (HistoryConfig cfg)"

text \<open>The row after the updates: what \<open>ApplyUpdates\<close> writes over the row it has read.\<close>

definition updated_row :: "rep_Config \<Rightarrow> time \<Rightarrow> Mutations \<Rightarrow> time \<Rightarrow> dbx_Reputation \<Rightarrow> dbx_Reputation" where
  "updated_row cfg clock updates now r =
     (let response = mergeAuditHistory (r_AuditHistory r) updates cfg in
      populateUpdateFields (populateUpdateNodeStats cfg clock updates response now r) (fst response) r)"

definition something_to_change :: "Mutations \<Rightarrow> bool" where
  "something_to_change updates \<longleftrightarrow>
     PositiveResults updates \<noteq> 0 \<or> UnknownResults updates \<noteq> 0 \<or> FailureResults updates \<noteq> 0 \<or>
     OfflineResults updates \<noteq> 0 \<or> (case OnlineHistory updates of None \<Rightarrow> False | Some h \<Rightarrow> Windows h \<noteq> [])"

subsection \<open>When a node is disqualified\<close>

lemma base_update_simps:
  "u_AuditReputationAlpha (base_update cfg m sc now r) = fst (failures_first (AuditLambda cfg) (AuditWeight cfg)
     (FailureResults m) (PositiveResults m) (r_AuditReputationAlpha r) (r_AuditReputationBeta r))"
  "u_AuditReputationBeta (base_update cfg m sc now r) = snd (failures_first (AuditLambda cfg) (AuditWeight cfg)
     (FailureResults m) (PositiveResults m) (r_AuditReputationAlpha r) (r_AuditReputationBeta r))"
  "u_UnknownAuditReputationAlpha (base_update cfg m sc now r) = fst (failures_first (UnknownAuditLambda cfg) (AuditWeight cfg)
     (UnknownResults m) (PositiveResults m) (r_UnknownAuditReputationAlpha r) (r_UnknownAuditReputationBeta r))"
  "u_UnknownAuditReputationBeta (base_update cfg m sc now r) = snd (failures_first (UnknownAuditLambda cfg) (AuditWeight cfg)
     (UnknownResults m) (PositiveResults m) (r_UnknownAuditReputationAlpha r) (r_UnknownAuditReputationBeta r))"
  "u_OnlineScore (base_update cfg m sc now r) = sc"
  "u_TotalAuditCount (base_update cfg m sc now r) = r_TotalAuditCount r +
     int (OfflineResults m + UnknownResults m + FailureResults m + PositiveResults m)"
  "u_AuditSuccessCount (base_update cfg m sc now r) = r_AuditSuccessCount r + int (PositiveResults m)"
  "u_Disqualified (base_update cfg m sc now r) = None" "u_DisqualificationReason (base_update cfg m sc now r) = None"
  "u_UnknownAuditSuspended (base_update cfg m sc now r) = None" "u_OfflineUnderReview (base_update cfg m sc now r) = None"
  "u_OfflineSuspended (base_update cfg m sc now r) = None"
  by (simp_all add: base_update_def failures_first_def Let_def split: prod.splits)

text \<open>The checks change no score and no count.\<close>

lemma check_audit_simps [simp]:
  "u_AuditReputationAlpha (check_audit_score cfg now u) = u_AuditReputationAlpha u"
  "u_AuditReputationBeta (check_audit_score cfg now u) = u_AuditReputationBeta u"
  "u_UnknownAuditReputationAlpha (check_audit_score cfg now u) = u_UnknownAuditReputationAlpha u"
  "u_UnknownAuditReputationBeta (check_audit_score cfg now u) = u_UnknownAuditReputationBeta u"
  "u_OnlineScore (check_audit_score cfg now u) = u_OnlineScore u"
  "u_TotalAuditCount (check_audit_score cfg now u) = u_TotalAuditCount u"
  "u_AuditSuccessCount (check_audit_score cfg now u) = u_AuditSuccessCount u"
  by (simp_all add: check_audit_score_def)

lemma check_unknown_simps [simp]:
  "u_AuditReputationAlpha (check_unknown_score cfg clock now r u) = u_AuditReputationAlpha u"
  "u_AuditReputationBeta (check_unknown_score cfg clock now r u) = u_AuditReputationBeta u"
  "u_UnknownAuditReputationAlpha (check_unknown_score cfg clock now r u) = u_UnknownAuditReputationAlpha u"
  "u_UnknownAuditReputationBeta (check_unknown_score cfg clock now r u) = u_UnknownAuditReputationBeta u"
  "u_OnlineScore (check_unknown_score cfg clock now r u) = u_OnlineScore u"
  "u_TotalAuditCount (check_unknown_score cfg clock now r u) = u_TotalAuditCount u"
  "u_AuditSuccessCount (check_unknown_score cfg clock now r u) = u_AuditSuccessCount u"
  by (simp_all add: check_unknown_score_def split: option.split)

lemma check_online_simps [simp]:
  "u_AuditReputationAlpha (check_online_score cfg sc full now r u) = u_AuditReputationAlpha u"
  "u_AuditReputationBeta (check_online_score cfg sc full now r u) = u_AuditReputationBeta u"
  "u_UnknownAuditReputationAlpha (check_online_score cfg sc full now r u) = u_UnknownAuditReputationAlpha u"
  "u_UnknownAuditReputationBeta (check_online_score cfg sc full now r u) = u_UnknownAuditReputationBeta u"
  "u_OnlineScore (check_online_score cfg sc full now r u) = u_OnlineScore u"
  "u_TotalAuditCount (check_online_score cfg sc full now r u) = u_TotalAuditCount u"
  "u_AuditSuccessCount (check_online_score cfg sc full now r u) = u_AuditSuccessCount u"
  by (simp_all add: check_online_score_def Let_def split: option.split)

text \<open>The three grounds, in the order in which the later ones override the reason.\<close>

definition audit_ground :: "rep_Config \<Rightarrow> Mutations \<Rightarrow> dbx_Reputation \<Rightarrow> bool" where
  "audit_ground cfg m r \<longleftrightarrow> (case failures_first (AuditLambda cfg) (AuditWeight cfg) (FailureResults m) (PositiveResults m)
     (r_AuditReputationAlpha r) (r_AuditReputationBeta r) of (a, b) \<Rightarrow> score a b \<le> AuditDQ cfg)"

definition suspension_ground :: "rep_Config \<Rightarrow> time \<Rightarrow> Mutations \<Rightarrow> dbx_Reputation \<Rightarrow> bool" where
  "suspension_ground cfg clock m r \<longleftrightarrow> SuspensionDQEnabled cfg \<and>
     (case failures_first (UnknownAuditLambda cfg) (AuditWeight cfg) (UnknownResults m) (PositiveResults m)
       (r_UnknownAuditReputationAlpha r) (r_UnknownAuditReputationBeta r) of (a, b) \<Rightarrow> score a b \<le> UnknownAuditDQ cfg) \<and>
     (\<exists>since. r_UnknownAuditSuspended r = Some since \<and> clock - since > SuspensionGracePeriod cfg)"

definition offline_ground :: "rep_Config \<Rightarrow> AuditHistory \<times> bool \<Rightarrow> time \<Rightarrow> dbx_Reputation \<Rightarrow> bool" where
  "offline_ground cfg response now r \<longleftrightarrow> OfflineSuspensionEnabled (HistoryConfig cfg) \<and> OfflineDQEnabled (HistoryConfig cfg) \<and>
     Score (fst response) < OfflineThreshold (HistoryConfig cfg) \<and> snd response \<and>
     (\<exists>since. r_UnderReview r = Some since \<and> now > since + GracePeriod (HistoryConfig cfg) + TrackingPeriod (HistoryConfig cfg))"

lemma check_audit_disqualifies:
  assumes "u_Disqualified u = None" "u_DisqualificationReason u = None"
  shows "(u_Disqualified (check_audit_score cfg now u), u_DisqualificationReason (check_audit_score cfg now u)) =
    (if score (u_AuditReputationAlpha u) (u_AuditReputationBeta u) \<le> AuditDQ cfg
     then (Some now, Some DisqualificationReasonAuditFailure) else (None, None))"
  using assms by (simp add: check_audit_score_def)

lemma check_unknown_disqualifies:
  "(u_Disqualified (check_unknown_score cfg clock now r u), u_DisqualificationReason (check_unknown_score cfg clock now r u)) =
    (if SuspensionDQEnabled cfg \<and> score (u_UnknownAuditReputationAlpha u) (u_UnknownAuditReputationBeta u) \<le> UnknownAuditDQ cfg \<and>
        (\<exists>since. r_UnknownAuditSuspended r = Some since \<and> clock - since > SuspensionGracePeriod cfg)
     then (Some now, Some DisqualificationReasonSuspension) else (u_Disqualified u, u_DisqualificationReason u))"
  by (simp add: check_unknown_score_def split: option.split)

lemma check_online_disqualifies:
  "(u_Disqualified (check_online_score cfg (Score h) full now r u), u_DisqualificationReason (check_online_score cfg (Score h) full now r u)) =
    (if offline_ground cfg (h, full) now r
     then (Some now, Some DisqualificationReasonNodeOffline) else (u_Disqualified u, u_DisqualificationReason u))"
  by (auto simp: check_online_score_def offline_ground_def Let_def split: option.splits)

lemma populate_disqualifies:
  "(u_Disqualified (populateUpdateNodeStats cfg clock m response now r),
    u_DisqualificationReason (populateUpdateNodeStats cfg clock m response now r)) =
   (if offline_ground cfg response now r then (Some now, Some DisqualificationReasonNodeOffline)
    else if suspension_ground cfg clock m r then (Some now, Some DisqualificationReasonSuspension)
    else if audit_ground cfg m r then (Some now, Some DisqualificationReasonAuditFailure)
    else (None, None))"
proof (cases response)
  case (Pair h full)
  let ?b = "base_update cfg m (Score h) now r"
  have b: "u_Disqualified ?b = None" "u_DisqualificationReason ?b = None" by (simp_all add: base_update_simps)
  show ?thesis
    by (simp only: Pair populateUpdateNodeStats_def prod.case check_online_disqualifies check_unknown_disqualifies
        check_audit_disqualifies [OF b] check_audit_simps base_update_simps)
      (auto simp: suspension_ground_def audit_ground_def split: prod.splits)
qed

lemma disqualification:
  "let response = mergeAuditHistory (r_AuditHistory r) m cfg; r' = updated_row cfg clock m now r in
   r_Disqualified r' = (if audit_ground cfg m r \<or> suspension_ground cfg clock m r \<or> offline_ground cfg response now r
     then Some now else r_Disqualified r) \<and>
   r_DisqualificationReason r' =
     (if offline_ground cfg response now r then Some DisqualificationReasonNodeOffline
      else if suspension_ground cfg clock m r then Some DisqualificationReasonSuspension
      else if audit_ground cfg m r then Some DisqualificationReasonAuditFailure
      else r_DisqualificationReason r)"
  using populate_disqualifies [of cfg clock m "mergeAuditHistory (r_AuditHistory r) m cfg" now r]
  by (auto simp: updated_row_def populateUpdateFields_def set_column_def Let_def split: if_splits)


subsection \<open>Batches and single results\<close>

lemma updated_scores:
  "(r_AuditReputationAlpha (updated_row cfg clock m now r), r_AuditReputationBeta (updated_row cfg clock m now r)) =
    failures_first (AuditLambda cfg) (AuditWeight cfg) (FailureResults m) (PositiveResults m)
      (r_AuditReputationAlpha r) (r_AuditReputationBeta r)"
  "(r_UnknownAuditReputationAlpha (updated_row cfg clock m now r), r_UnknownAuditReputationBeta (updated_row cfg clock m now r)) =
    failures_first (UnknownAuditLambda cfg) (AuditWeight cfg) (UnknownResults m) (PositiveResults m)
      (r_UnknownAuditReputationAlpha r) (r_UnknownAuditReputationBeta r)"
  by (simp_all add: updated_row_def populateUpdateFields_def populateUpdateNodeStats_def base_update_simps Let_def
    split: prod.split)

text \<open>Results that are applied one by one, each at its time, with the reading of the clock.\<close>

definition apply_result :: "rep_Config \<Rightarrow> AuditType \<times> time \<times> time \<Rightarrow> dbx_Reputation \<Rightarrow> dbx_Reputation" where
  "apply_result cfg x r = (case x of (outcome, now, clock) \<Rightarrow>
     updated_row cfg clock (fst (UpdateRequestToMutations cfg outcome now)) now r)"

definition scored :: "(AuditType \<times> time \<times> time) list \<Rightarrow> bool list" where
  "scored xs = map (\<lambda>x. fst x = AuditSuccess) (filter (\<lambda>x. fst x \<in> {AuditSuccess, AuditFailure}) xs)"

definition result_count :: "AuditType \<Rightarrow> (AuditType \<times> time \<times> time) list \<Rightarrow> nat" where
  "result_count k xs = length (filter (\<lambda>x. fst x = k) xs)"

lemma single_counts:
  "PositiveResults (fst (UpdateRequestToMutations cfg k now)) = (if k = AuditSuccess then 1 else 0)"
  "FailureResults (fst (UpdateRequestToMutations cfg k now)) = (if k = AuditFailure then 1 else 0)"
  "UnknownResults (fst (UpdateRequestToMutations cfg k now)) = (if k = AuditUnknown then 1 else 0)"
  "OfflineResults (fst (UpdateRequestToMutations cfg k now)) = (if k = AuditOffline then 1 else 0)"
  by (simp_all add: UpdateRequestToMutations_def split: prod.split)

lemma UpdateReputation_one:
  "UpdateReputation True a b l w = (l * a + w, l * b)" "UpdateReputation False a b l w = (l * a, l * b + w)"
  by (simp_all add: UpdateReputation_def)

lemma apply_result_scores:
  "(r_AuditReputationAlpha (apply_result cfg x r), r_AuditReputationBeta (apply_result cfg x r)) =
    audits_in_order (AuditLambda cfg) (AuditWeight cfg) (scored [x]) (r_AuditReputationAlpha r, r_AuditReputationBeta r)"
  by (cases x; cases "fst x")
    (simp_all add: apply_result_def updated_scores single_counts failures_first_powers scored_def audits_in_order_def
      UpdateReputation_one)

lemma apply_results_scores:
  "(r_AuditReputationAlpha (fold (apply_result cfg) xs r), r_AuditReputationBeta (fold (apply_result cfg) xs r)) =
    audits_in_order (AuditLambda cfg) (AuditWeight cfg) (scored xs) (r_AuditReputationAlpha r, r_AuditReputationBeta r)"
proof (induction xs arbitrary: r)
  case (Cons x xs)
  have "scored (x # xs) = scored [x] @ scored xs" by (simp add: scored_def)
  then show ?case by (simp add: Cons.IH apply_result_scores audits_in_order_def)
qed (simp add: scored_def audits_in_order_def)

lemma scored_counts: "how_many True (scored xs) = result_count AuditSuccess xs" "how_many False (scored xs) = result_count AuditFailure xs"
  by (induction xs) (auto simp: scored_def result_count_def)

lemma in_order_positive:
  assumes "0 < l" "0 \<le> w" "0 < a + b"
  shows "0 < fst (audits_in_order l w xs (a, b)) + snd (audits_in_order l w xs (a, b))"
  using assms(3)
proof (induction xs arbitrary: a b)
  case (Cons x xs)
  have "0 < l * (a + b)" using assms(1) Cons.prems by simp
  then have "0 < l * a + l * b + w" using assms(2) by (simp add: distrib_left)
  then show ?case using Cons.IH [of "l * a + (if x then w else 0)" "l * b + (if x then 0 else w)"]
    by (cases x) (simp_all add: audits_in_order_def UpdateReputation_one algebra_simps)
qed (simp add: audits_in_order_def)

lemma audit_ground_disqualifies:
  "audit_ground cfg m r \<Longrightarrow> r_Disqualified (updated_row cfg clock m now r) = Some now"
  using disqualification [of r m cfg clock now] by (simp add: Let_def)

text \<open>The comment of \<open>populateUpdateNodeStats\<close> leaves this to the reader.\<close>

lemma batch_spares:
  fixes now clock :: time
  assumes cfg: "0 < AuditLambda cfg" "AuditLambda cfg \<le> 1" "0 \<le> AuditWeight cfg"
    and r: "0 \<le> r_AuditReputationAlpha r" "0 \<le> r_AuditReputationBeta r" "0 < r_AuditReputationAlpha r + r_AuditReputationBeta r"
    and m: "PositiveResults m = result_count AuditSuccess xs" "FailureResults m = result_count AuditFailure xs"
  defines "single \<equiv> fold (apply_result cfg) xs r" and "batch \<equiv> updated_row cfg clock m now r"
  shows "score (r_AuditReputationAlpha single) (r_AuditReputationBeta single) \<le>
      score (r_AuditReputationAlpha batch) (r_AuditReputationBeta batch) \<and>
    (audit_ground cfg m r \<longrightarrow> xs \<noteq> [] \<longrightarrow> r_Disqualified single \<noteq> None)"
proof -
  let ?l = "AuditLambda cfg" and ?w = "AuditWeight cfg" and ?ab = "(r_AuditReputationAlpha r, r_AuditReputationBeta r)"
  obtain a b where ab: "audits_in_order ?l ?w (scored xs) ?ab = (a, b)" by fastforce
  obtain a' b' where ab': "failures_first ?l ?w (FailureResults m) (PositiveResults m) (fst ?ab) (snd ?ab) = (a', b')" by fastforce
  have single: "r_AuditReputationAlpha single = a" "r_AuditReputationBeta single = b"
    using apply_results_scores [of cfg xs r] ab by (simp_all add: single_def)
  have batch: "r_AuditReputationAlpha batch = a'" "r_AuditReputationBeta batch = b'"
    using updated_scores(1) [of cfg clock m now r] ab' by (simp_all add: batch_def)
  have best: "a \<le> a'" "b' \<le> b"
    using failures_first_best [of ?l ?w "scored xs" "fst ?ab" "snd ?ab"] cfg ab ab' m by (simp_all add: scored_counts)
  have nonneg: "0 \<le> a" "0 \<le> b"
    using in_order_nonneg [of ?l ?w "fst ?ab" "snd ?ab" "scored xs"] cfg r ab by simp_all
  have pos: "0 < a + b" using in_order_positive [of ?l ?w "fst ?ab" "snd ?ab" "scored xs"] cfg r ab by simp
  have l: "0 < ?l ^ (FailureResults m + PositiveResults m) * (fst ?ab + snd ?ab)" using cfg r by simp
  have "0 \<le> ?w * powers ?l (PositiveResults m)" "0 \<le> ?w * (?l ^ PositiveResults m * powers ?l (FailureResults m))"
    using cfg powers_nonneg [of ?l] by simp_all
  then have b': "0 \<le> b'" "0 < a' + b'"
    using ab' l r cfg by (auto simp: failures_first_powers distrib_left)
  have le: "score a b \<le> score a' b'" unfolding score_def by (rule score_mono) (use best nonneg pos b' in simp_all)
  have "r_Disqualified single \<noteq> None" if g: "audit_ground cfg m r" and x: "xs \<noteq> []"
  proof -
    obtain ys y where xs: "xs = ys @ [y]" using x by (metis append_butlast_last_id)
    let ?r = "fold (apply_result cfg) ys r"
    obtain outcome nw cl where y: "y = (outcome, nw, cl)" by (cases y)
    let ?m = "fst (UpdateRequestToMutations cfg outcome nw)"
    have last: "single = updated_row cfg cl ?m nw ?r" by (simp add: single_def xs y apply_result_def)
    have "score a b \<le> AuditDQ cfg" using g ab' le by (simp add: audit_ground_def)
    then have "audit_ground cfg ?m ?r"
      using updated_scores(1) [of cfg cl ?m nw ?r, symmetric] single unfolding last audit_ground_def by simp
    from audit_ground_disqualifies [OF this] show ?thesis by (simp add: last)
  qed
  then show ?thesis using le single batch by simp
qed

text \<open>
  Property C15. Results that reach a node in a batch are applied with the failures first. This order is
  never worse for the node than any order of single results with the same numbers of successes and
  failures: its audit score is at least as high, and when it disqualifies the node for failed audits,
  so does every order, whenever and with whatever other results in between they are applied.
\<close>

theorem failures_first_spares:
  assumes "0 < AuditLambda cfg" "AuditLambda cfg \<le> 1" "0 \<le> AuditWeight cfg"
    and "0 \<le> r_AuditReputationAlpha r" "0 \<le> r_AuditReputationBeta r" "0 < r_AuditReputationAlpha r + r_AuditReputationBeta r"
    and "PositiveResults m = result_count AuditSuccess xs" "FailureResults m = result_count AuditFailure xs"
  shows "score (r_AuditReputationAlpha (fold (apply_result cfg) xs r)) (r_AuditReputationBeta (fold (apply_result cfg) xs r)) \<le>
      score (r_AuditReputationAlpha (updated_row cfg clock m now r)) (r_AuditReputationBeta (updated_row cfg clock m now r)) \<and>
    (audit_ground cfg m r \<longrightarrow> xs \<noteq> [] \<longrightarrow> r_Disqualified (fold (apply_result cfg) xs r) \<noteq> None)"
  by (rule batch_spares [OF assms])

subsection \<open>Rows stay well formed\<close>

definition row_ok :: "rep_Config \<Rightarrow> dbx_Reputation \<Rightarrow> bool" where
  "row_ok cfg r \<longleftrightarrow>
     score_ok (AuditLambda cfg) (AuditWeight cfg) (r_AuditReputationAlpha r, r_AuditReputationBeta r) \<and>
     score_ok (UnknownAuditLambda cfg) (AuditWeight cfg) (r_UnknownAuditReputationAlpha r, r_UnknownAuditReputationBeta r) \<and>
     history_ok (r_AuditHistory r) \<and> r_OnlineScore r = Score (r_AuditHistory r) \<and>
     0 \<le> r_AuditSuccessCount r \<and> r_AuditSuccessCount r \<le> r_TotalAuditCount r"

definition mutations_ok :: "Mutations \<Rightarrow> bool" where
  "mutations_ok m \<longleftrightarrow> (\<forall>h. OnlineHistory m = Some h \<longrightarrow> sorted (map WindowStart (Windows h)) \<and> (\<forall>w \<in> set (Windows h). window_ok w))"

lemma updated_rest:
  "r_AuditHistory (updated_row cfg clock m now r) = fst (mergeAuditHistory (r_AuditHistory r) m cfg)"
  "r_OnlineScore (updated_row cfg clock m now r) = Score (fst (mergeAuditHistory (r_AuditHistory r) m cfg))"
  "r_TotalAuditCount (updated_row cfg clock m now r) =
     r_TotalAuditCount r + int (OfflineResults m + UnknownResults m + FailureResults m + PositiveResults m)"
  "r_AuditSuccessCount (updated_row cfg clock m now r) = r_AuditSuccessCount r + int (PositiveResults m)"
  by (simp_all add: updated_row_def populateUpdateFields_def populateUpdateNodeStats_def base_update_simps Let_def
    split: prod.split)

lemma updated_row_ok:
  assumes "0 < AuditLambda cfg" "AuditLambda cfg < 1" "0 < UnknownAuditLambda cfg" "UnknownAuditLambda cfg < 1" "0 \<le> AuditWeight cfg"
    and "row_ok cfg r" "mutations_ok m"
  shows "row_ok cfg (updated_row cfg clock m now r)"
proof -
  have "history_ok (fst (mergeAuditHistory (r_AuditHistory r) m cfg))"
    using assms(6,7) by (auto simp: mergeAuditHistory_def row_ok_def mutations_ok_def intro!: Merge_history_ok split: option.split)
  then show ?thesis
    using assms failures_first_ok [of "AuditLambda cfg" "AuditWeight cfg" "r_AuditReputationAlpha r" "r_AuditReputationBeta r" "FailureResults m" "PositiveResults m"]
      failures_first_ok [of "UnknownAuditLambda cfg" "AuditWeight cfg" "r_UnknownAuditReputationAlpha r" "r_UnknownAuditReputationBeta r" "UnknownResults m" "PositiveResults m"]
    by (auto simp: row_ok_def updated_rest updated_scores)
qed

text \<open>The update that creates a row: \<open>newNode\<close> itself has an online score that is not the one of its empty
  history, but the row that is written has, when the initial values are in the bounds.\<close>

lemma created_row_ok:
  assumes "0 < AuditLambda cfg" "AuditLambda cfg < 1" "0 < UnknownAuditLambda cfg" "UnknownAuditLambda cfg < 1" "0 \<le> AuditWeight cfg"
    and "score_ok (AuditLambda cfg) (AuditWeight cfg) (InitialAlpha cfg, InitialBeta cfg)"
    and "score_ok (UnknownAuditLambda cfg) (AuditWeight cfg) (1, 0)" "mutations_ok m"
  shows "row_ok cfg (updated_row cfg clock m now (newNode cfg))"
proof -
  let ?h = "\<lparr>Windows = [], Score = score_of []\<rparr>"
  have "fst (mergeAuditHistory empty_history m cfg) = fst (mergeAuditHistory ?h m cfg)"
    by (simp add: mergeAuditHistory_def MergeAuditHistories_def RecalculateScore_def empty_history_def Let_def)
  moreover have "history_ok ?h" by (simp add: history_ok_def)
  then have "history_ok (fst (mergeAuditHistory ?h m cfg))"
    using assms(8) by (auto simp: mergeAuditHistory_def mutations_ok_def intro!: Merge_history_ok split: option.split)
  ultimately show ?thesis
    using assms failures_first_ok [of "AuditLambda cfg" "AuditWeight cfg" "InitialAlpha cfg" "InitialBeta cfg" "FailureResults m" "PositiveResults m"]
      failures_first_ok [of "UnknownAuditLambda cfg" "AuditWeight cfg" 1 0 "UnknownResults m" "PositiveResults m"]
    by (auto simp: row_ok_def updated_rest updated_scores newNode_def)
qed

text \<open>
  Property C18. Bounds that updates keep: the two parameters of each score are not negative, not both
  zero, and together at most the weight divided by one minus the forgetting factor (so the initial
  values of the default configuration are never exceeded); the online score is the one of the history
  and between zero and one; the windows of the history are in order, none counts more audits online than
  in total; and no more audits succeeded than were counted.
\<close>

theorem updates_keep_bounds:
  assumes "0 < AuditLambda cfg" "AuditLambda cfg < 1" "0 < UnknownAuditLambda cfg" "UnknownAuditLambda cfg < 1" "0 \<le> AuditWeight cfg"
    and "row_ok cfg r" "mutations_ok m"
  shows "row_ok cfg (updated_row cfg clock m now r) \<and>
    0 \<le> r_OnlineScore (updated_row cfg clock m now r) \<and> r_OnlineScore (updated_row cfg clock m now r) \<le> 1"
proof -
  have ok: "row_ok cfg (updated_row cfg clock m now r)" by (rule updated_row_ok [OF assms])
  then show ?thesis using score_bounds [of "Windows (r_AuditHistory (updated_row cfg clock m now r))"]
    by (auto simp: row_ok_def history_ok_def)
qed

subsection \<open>Witnesses\<close>

definition ex_rep_config :: rep_Config where
  "ex_rep_config = \<lparr>AuditLambda = 1 / 2, AuditWeight = 1, AuditDQ = 3 / 4, UnknownAuditLambda = 1 / 2, UnknownAuditDQ = 1 / 4,
     SuspensionGracePeriod = 10, SuspensionDQEnabled = True, AuditCount = 100,
     HistoryConfig = \<lparr>WindowSize = 10, TrackingPeriod = 100, GracePeriod = 10, OfflineThreshold = 1 / 2,
       OfflineDQEnabled = True, OfflineSuspensionEnabled = True\<rparr>,
     InitialAlpha = 2, InitialBeta = 0\<rparr>"

definition ex_new_row :: dbx_Reputation where
  "ex_new_row = (newNode ex_rep_config)\<lparr>r_AuditHistory := \<lparr>Windows = [], Score = 1\<rparr>\<rparr>"

lemma failures_first_spares_witness:
  "let xs = [(AuditSuccess, 10, 10), (AuditOffline, 15, 15), (AuditFailure, 20, 20), (AuditFailure, 30, 30)];
       m = \<lparr>PositiveResults = 1, FailureResults = 2, UnknownResults = 0, OfflineResults = 0, OnlineHistory = None\<rparr> in
   score (r_AuditReputationAlpha (fold (apply_result ex_rep_config) xs ex_new_row))
         (r_AuditReputationBeta (fold (apply_result ex_rep_config) xs ex_new_row)) \<le>
     score (r_AuditReputationAlpha (updated_row ex_rep_config 40 m 40 ex_new_row))
           (r_AuditReputationBeta (updated_row ex_rep_config 40 m 40 ex_new_row)) \<and>
   r_Disqualified (fold (apply_result ex_rep_config) xs ex_new_row) \<noteq> None"
proof -
  let ?xs = "[(AuditSuccess, 10, 10), (AuditOffline, 15, 15), (AuditFailure, 20, 20), (AuditFailure, 30, 30)]"
  let ?m = "\<lparr>PositiveResults = 1, FailureResults = 2, UnknownResults = 0, OfflineResults = 0, OnlineHistory = None\<rparr>"
  have g: "audit_ground ex_rep_config ?m ex_new_row" by code_simp
  show ?thesis
    using failures_first_spares [of ex_rep_config ex_new_row ?m ?xs 40 40] g
    by (simp add: ex_rep_config_def ex_new_row_def newNode_def result_count_def Let_def)
qed

lemma updates_keep_bounds_witness:
  "row_ok ex_rep_config (updated_row ex_rep_config 10 (fst (UpdateRequestToMutations ex_rep_config AuditSuccess 10)) 10 ex_new_row)"
proof -
  have "row_ok ex_rep_config ex_new_row"
    by (simp add: row_ok_def score_ok_def history_ok_def ex_rep_config_def ex_new_row_def newNode_def score_of_def)
  moreover have "mutations_ok (fst (UpdateRequestToMutations ex_rep_config AuditSuccess 10))"
    by (simp add: mutations_ok_def UpdateRequestToMutations_def AddAudit_empty window_ok_def count_audit_def)
  ultimately show ?thesis
    using updates_keep_bounds [of ex_rep_config ex_new_row "fst (UpdateRequestToMutations ex_rep_config AuditSuccess 10)" 10 10]
    by (simp add: ex_rep_config_def)
qed

end
