(* ===== verification/ReputationSwaps.thy ===== *)
theory ReputationSwaps
  imports ReputationUpdates "HOL-Library.Product_Lexorder"
begin

text \<open>
  Several callers of \<open>ApplyUpdates\<close> (\<open>satellitedb/reputations.go\<close>) on the row of one node: each reads the row,
  computes the update, and writes it where the audit history is still the one it read, or starts over.
  When the audits are not older than a tracking period, no update is lost and none is applied twice.
\<close>

subsection \<open>Callers\<close>

datatype phase = Reading | HasRead "dbx_Reputation option" | Returned dbx_Reputation | Panicked

record caller =
  cl_updates :: Mutations
  cl_now :: time
  cl_phase :: phase

text \<open>The next statement of a caller, at the reading \<open>clock\<close> of \<open>time.Now()\<close>: the row it leaves, whether it
  wrote it, and its phase. A row that is there already fails the insert with a constraint error; results
  without a history dereference a nil pointer.\<close>

definition ApplyUpdates_step ::
  "rep_Config \<Rightarrow> time \<Rightarrow> caller \<Rightarrow> dbx_Reputation option \<Rightarrow> dbx_Reputation option \<times> bool \<times> phase" where
  "ApplyUpdates_step cfg clock c row =
     (case cl_phase c of
        Reading \<Rightarrow> (row, False, HasRead row)
      | HasRead None \<Rightarrow>
          (let new = updated_row cfg clock (cl_updates c) (cl_now c) (newNode cfg) in
           case row of None \<Rightarrow> (Some new, True, Returned new) | Some _ \<Rightarrow> (row, False, Reading))
      | HasRead (Some dbNode) \<Rightarrow>
          if \<not> something_to_change (cl_updates c) then (row, False, Returned dbNode)
          else if OnlineHistory (cl_updates c) = None then (row, False, Panicked)
          else let response = mergeAuditHistory (r_AuditHistory dbNode) (cl_updates c) cfg;
                   update = populateUpdateNodeStats cfg clock (cl_updates c) response (cl_now c) dbNode
            in (case row of
                  Some current \<Rightarrow>
                    if r_AuditHistory current = r_AuditHistory dbNode
                    then let new = populateUpdateFields update (fst response) current in (Some new, True, Returned new)
                    else (row, False, Reading)
                | None \<Rightarrow> (row, False, Reading))
      | Returned info \<Rightarrow> (row, False, Returned info)
      | Panicked \<Rightarrow> (row, False, Panicked))"

text \<open>The callers with the row, and the writes so far: which caller, with which reading of its clock.\<close>

record swaps =
  sw_row :: "dbx_Reputation option"
  sw_callers :: "caller list"
  sw_writes :: "(nat \<times> time) list"

inductive swap_step :: "rep_Config \<Rightarrow> swaps \<Rightarrow> swaps \<Rightarrow> bool" for cfg where
  caller_step: "i < length (sw_callers s) \<Longrightarrow> ApplyUpdates_step cfg clock (sw_callers s ! i) (sw_row s) = (row, wrote, phase) \<Longrightarrow>
    swap_step cfg s \<lparr>sw_row = row, sw_callers = (sw_callers s)[i := (sw_callers s ! i)\<lparr>cl_phase := phase\<rparr>],
      sw_writes = sw_writes s @ (if wrote then [(i, clock)] else [])\<rparr>"

definition swaps_start :: "dbx_Reputation option \<Rightarrow> (Mutations \<times> time) list \<Rightarrow> swaps" where
  "swaps_start row calls =
     \<lparr>sw_row = row, sw_callers = map (\<lambda>(m, now). \<lparr>cl_updates = m, cl_now = now, cl_phase = Reading\<rparr>) calls, sw_writes = []\<rparr>"

inductive swaps_reachable :: "rep_Config \<Rightarrow> dbx_Reputation option \<Rightarrow> (Mutations \<times> time) list \<Rightarrow> swaps \<Rightarrow> bool"
  for cfg row calls where
  swaps_begin: "swaps_reachable cfg row calls (swaps_start row calls)"
| swaps_next: "swaps_reachable cfg row calls s \<Longrightarrow> swap_step cfg s s' \<Longrightarrow> swaps_reachable cfg row calls s'"

text \<open>The same updates one after the other.\<close>

definition apply_write ::
  "rep_Config \<Rightarrow> (Mutations \<times> time) list \<Rightarrow> nat \<times> time \<Rightarrow> dbx_Reputation option \<Rightarrow> dbx_Reputation option" where
  "apply_write cfg calls w row =
     Some (updated_row cfg (snd w) (fst (calls ! fst w)) (snd (calls ! fst w)) (case row of None \<Rightarrow> newNode cfg | Some r \<Rightarrow> r))"

subsection \<open>The history only goes forward\<close>

definition last_start :: "AuditWindow list \<Rightarrow> time" where
  "last_start ws = (if ws = [] then 0 else WindowStart (last ws))"

definition progress :: "AuditHistory \<Rightarrow> bool \<times> time \<times> int" where
  "progress h = (Windows h \<noteq> [], last_start (Windows h), sum_list (map TotalCount (Windows h)))"

definition in_period :: "time \<Rightarrow> time \<Rightarrow> AuditHistory \<Rightarrow> bool" where
  "in_period start period h \<longleftrightarrow> sorted_wrt (<) (map WindowStart (Windows h)) \<and>
     (\<forall>w \<in> set (Windows h). last_start (Windows h) - period \<le> WindowStart w \<and> WindowStart w \<le> start + period)"

lemma merge_total: "sum_list (map TotalCount (merge_windows ws add)) = sum_list (map TotalCount ws) + sum_list (map TotalCount add)"
  by (induction ws add rule: merge_windows.induct) auto

lemma sorted_last:
  assumes "sorted_wrt (<) (map WindowStart ws)" "w \<in> set ws"
  shows "WindowStart w \<le> last_start ws"
proof -
  obtain xs l where ws: "ws = xs @ [l]" using assms(2) by (cases ws rule: rev_cases) auto
  show ?thesis using assms unfolding ws last_start_def by (auto simp: sorted_wrt_append)
qed

lemma last_start_filter: "WindowStart (last ws) = t \<Longrightarrow> ws \<noteq> [] \<Longrightarrow> c \<le> t \<Longrightarrow>
    filter (\<lambda>w. c \<le> WindowStart w) ws \<noteq> [] \<and> last_start (filter (\<lambda>w. c \<le> WindowStart w) ws) = t"
  by (cases ws rule: rev_cases) (auto simp: last_start_def)

lemma merge_one_progress:
  assumes h: "in_period start period h" and w: "start \<le> WindowStart a" "WindowStart a \<le> start + period" "0 < TotalCount a"
    and p: "0 \<le> period" "TrackingPeriod cfg = period"
  defines "h' \<equiv> fst (MergeAuditHistories h [a] cfg)"
  shows "progress h < progress h' \<and> in_period start period h'"
proof -
  let ?ws = "Windows h" and ?M = "merge_windows (Windows h) [a]"
  have sorted: "sorted_wrt (<) (map WindowStart ?ws)" using h by (simp add: in_period_def)
  have M: "sorted_wrt (<) (map WindowStart ?M)" by (rule merge_sorted) (use sorted in simp_all)
  have ne: "?M \<noteq> []" by (simp add: merge_nonempty)
  have starts: "WindowStart ` set ?M = insert (WindowStart a) (WindowStart ` set ?ws)" using merge_starts [of ?ws "[a]"] by auto
  let ?L = "last_start ?M"
  have Leq: "WindowStart (last ?M) = ?L" using ne by (simp add: last_start_def)
  have L: "?L \<in> WindowStart ` set ?M" using ne by (simp add: last_start_def)
  have bound: "\<forall>w \<in> set ?M. WindowStart w \<le> ?L" using sorted_last [OF M] by blast
  have W: "Windows h' = filter (\<lambda>w. ?L - period \<le> WindowStart w) ?M"
    using Merge_windows [OF sorted, of "[a]" cfg] ne p by (simp add: h'_def last_start_def)
  have nonempty: "Windows h' \<noteq> []" and lastL: "last_start (Windows h') = ?L"
    using last_start_filter [OF Leq ne, of "?L - period"] p unfolding W by simp_all
  have upper: "WindowStart w \<le> start + period" if "w \<in> set ?M" for w
  proof -
    have "WindowStart w \<in> insert (WindowStart a) (WindowStart ` set ?ws)" using that starts by blast
    then show ?thesis using h w by (auto simp: in_period_def)
  qed
  have "in_period start period h'"
    unfolding in_period_def lastL using filter_sorted_map [OF M] upper by (auto simp: W)
  moreover have "progress h < progress h'"
  proof (cases "?ws = []")
    case True then show ?thesis using nonempty by (simp add: progress_def)
  next
    case False
    have "last_start ?ws \<in> WindowStart ` set ?ws" using False by (simp add: last_start_def)
    then have "last_start ?ws \<in> WindowStart ` set ?M" using starts by blast
    then have le: "last_start ?ws \<le> ?L" using bound by (metis imageE)
    show ?thesis
    proof (cases "last_start ?ws = ?L")
      case True
      have "?L - period \<le> WindowStart w" if "w \<in> set ?M" for w
      proof -
        have "WindowStart w \<in> insert (WindowStart a) (WindowStart ` set ?ws)" using that starts by blast
        moreover have "?L - period \<le> WindowStart a" using L upper w by fastforce
        ultimately show ?thesis using h True by (auto simp: in_period_def)
      qed
      then have "Windows h' = ?M" unfolding W by (simp add: filter_id_conv)
      then show ?thesis using True False nonempty lastL w by (simp add: progress_def merge_total)
    qed (use le False nonempty lastL in \<open>simp add: progress_def\<close>)
  qed
  ultimately show ?thesis by simp
qed

subsection \<open>The invariant of the callers\<close>

text \<open>What \<open>UpdateRequestToMutations\<close> makes of an audit in the given period: one result, one window.\<close>

definition audit_call :: "time \<Rightarrow> time \<Rightarrow> Mutations \<Rightarrow> bool" where
  "audit_call start period m \<longleftrightarrow> something_to_change m \<and>
     (\<exists>a s. OnlineHistory m = Some \<lparr>Windows = [a], Score = s\<rparr> \<and>
        start \<le> WindowStart a \<and> WindowStart a \<le> start + period \<and> 0 < TotalCount a)"

lemma audit_calls:
  assumes "start \<le> Truncate now (WindowSize (HistoryConfig cfg))" "Truncate now (WindowSize (HistoryConfig cfg)) \<le> start + period"
  shows "audit_call start period (fst (UpdateRequestToMutations cfg outcome now))"
  using assms by (cases outcome)
    (simp_all add: audit_call_def UpdateRequestToMutations_def AddAudit_empty something_to_change_def count_audit_def)

definition caller_ok :: "dbx_Reputation option \<Rightarrow> caller \<Rightarrow> bool" where
  "caller_ok row c \<longleftrightarrow> (case cl_phase c of
     HasRead (Some r) \<Rightarrow> (\<exists>r'. row = Some r' \<and> (r' = r \<or> progress (r_AuditHistory r) < progress (r_AuditHistory r')))
   | Panicked \<Rightarrow> False | _ \<Rightarrow> True)"

definition wrote :: "caller \<Rightarrow> bool" where
  "wrote c \<longleftrightarrow> (\<exists>info. cl_phase c = Returned info)"

definition swaps_inv :: "rep_Config \<Rightarrow> time \<Rightarrow> dbx_Reputation option \<Rightarrow> (Mutations \<times> time) list \<Rightarrow> swaps \<Rightarrow> bool" where
  "swaps_inv cfg start row calls s \<longleftrightarrow>
     map (\<lambda>c. (cl_updates c, cl_now c)) (sw_callers s) = calls \<and>
     sw_row s = fold (apply_write cfg calls) (sw_writes s) row \<and>
     (\<forall>r. sw_row s = Some r \<longrightarrow> in_period start (TrackingPeriod (HistoryConfig cfg)) (r_AuditHistory r)) \<and>
     (\<forall>c \<in> set (sw_callers s). caller_ok (sw_row s) c) \<and>
     distinct (map fst (sw_writes s)) \<and>
     set (map fst (sw_writes s)) = {i. i < length (sw_callers s) \<and> wrote (sw_callers s ! i)}"

lemma write_progress:
  assumes "audit_call start (TrackingPeriod (HistoryConfig cfg)) m" "0 \<le> TrackingPeriod (HistoryConfig cfg)"
    and "in_period start (TrackingPeriod (HistoryConfig cfg)) (r_AuditHistory r)"
  shows "progress (r_AuditHistory r) < progress (r_AuditHistory (updated_row cfg clock m now r)) \<and>
    in_period start (TrackingPeriod (HistoryConfig cfg)) (r_AuditHistory (updated_row cfg clock m now r))"
  using assms merge_one_progress [OF assms(3) _ _ _ assms(2) refl]
  by (auto simp: audit_call_def updated_rest mergeAuditHistory_def)

lemma new_in_period: "in_period start period empty_history"
  by (simp add: in_period_def empty_history_def)

lemma swap_writes_row:
  "populateUpdateFields (populateUpdateNodeStats cfg clock m (mergeAuditHistory (r_AuditHistory r) m cfg) now r)
     (fst (mergeAuditHistory (r_AuditHistory r) m cfg)) r = updated_row cfg clock m now r"
  by (simp add: updated_row_def Let_def)

lemma swaps_inv_step:
  assumes "swap_step cfg s s'" "swaps_inv cfg start row calls s"
    and period: "0 \<le> TrackingPeriod (HistoryConfig cfg)"
    and calls: "\<forall>(m, now) \<in> set calls. audit_call start (TrackingPeriod (HistoryConfig cfg)) m"
  shows "swaps_inv cfg start row calls s'"
  using assms(1)
proof cases
  case (caller_step i clock row' did phase)
  let ?c = "sw_callers s ! i" and ?p = "TrackingPeriod (HistoryConfig cfg)"
  have inv: "map (\<lambda>c. (cl_updates c, cl_now c)) (sw_callers s) = calls" "sw_row s = fold (apply_write cfg calls) (sw_writes s) row"
    "\<And>r. sw_row s = Some r \<Longrightarrow> in_period start ?p (r_AuditHistory r)"
    "\<And>c. c \<in> set (sw_callers s) \<Longrightarrow> caller_ok (sw_row s) c"
    "distinct (map fst (sw_writes s))" "set (map fst (sw_writes s)) = {i. i < length (sw_callers s) \<and> wrote (sw_callers s ! i)}"
    using assms(2) unfolding swaps_inv_def by blast+
  have callsi: "calls ! i = (cl_updates ?c, cl_now ?c)" using inv(1) caller_step(2) by (metis (mono_tags, lifting) nth_map)
  have m: "audit_call start ?p (cl_updates ?c)"
    using calls callsi inv(1) caller_step(2) by (metis (mono_tags, lifting) case_prodD length_map nth_mem)
  have oki: "caller_ok (sw_row s) ?c" using inv(4) caller_step(2) by simp
  have same: "map (\<lambda>c. (cl_updates c, cl_now c)) (sw_callers s') = calls"
    using inv(1) callsi by (simp add: caller_step(1) map_update) (metis list_update_id)
  have wp: "wrote (?c\<lparr>cl_phase := phase\<rparr>) \<longleftrightarrow> (\<exists>info. phase = Returned info)" by (simp add: wrote_def)
  show ?thesis
  proof (cases did)
    case True
    obtain r where row: "sw_row s = None \<and> r = newNode cfg \<or> sw_row s = Some r"
      and row': "row' = Some (updated_row cfg clock (cl_updates ?c) (cl_now ?c) r)"
      and phase: "\<exists>info. phase = Returned info" and before: "\<not> wrote ?c"
      using caller_step(3) oki True
      by (auto simp: ApplyUpdates_step_def caller_ok_def wrote_def swap_writes_row Let_def
        split: phase.splits option.splits if_splits)
    have apply_it: "row' = apply_write cfg calls (i, clock) (sw_row s)"
      using row row' by (auto simp: apply_write_def callsi)
    have old: "in_period start ?p (r_AuditHistory r)" using row inv(3) new_in_period by (auto simp: newNode_def)
    note new = write_progress [OF m period old, of clock "cl_now ?c"]
    have callers: "caller_ok row' c" if c: "c \<in> set (sw_callers s')" for c
    proof (cases "c = ?c\<lparr>cl_phase := phase\<rparr>")
      case True then show ?thesis using phase by (auto simp: caller_ok_def)
    next
      case False
      then have "c \<in> set (sw_callers s)" using c set_update_subset_insert [of "sw_callers s" i] by (auto simp: caller_step(1))
      then have "caller_ok (sw_row s) c" by (rule inv(4))
      then show ?thesis using row row' new
        by (auto simp: caller_ok_def split: phase.splits option.splits dest: less_trans)
    qed
    have "i \<notin> set (map fst (sw_writes s))" using before inv(6) by simp
    then have writes: "distinct (map fst (sw_writes s'))" using inv(5) by (simp add: caller_step(1) True)
    have "set (map fst (sw_writes s')) = {j. j < length (sw_callers s') \<and> wrote (sw_callers s' ! j)}"
      using inv(6) wp phase caller_step(2) by (auto simp: caller_step(1) True nth_list_update split: if_splits)
    moreover have "sw_row s' = fold (apply_write cfg calls) (sw_writes s') row"
      using apply_it inv(2) by (simp add: caller_step(1) True)
    moreover have "\<forall>r. sw_row s' = Some r \<longrightarrow> in_period start ?p (r_AuditHistory r)"
      using new row' by (simp add: caller_step(1))
    ultimately show ?thesis using same callers writes unfolding swaps_inv_def by (simp add: caller_step(1))
  next
    case False
    have row: "row' = sw_row s" and phase: "(\<exists>info. phase = Returned info) \<longleftrightarrow> wrote ?c"
      and ok: "caller_ok (sw_row s) (?c\<lparr>cl_phase := phase\<rparr>)"
      using caller_step(3) oki False m
      by (auto simp: ApplyUpdates_step_def caller_ok_def wrote_def audit_call_def Let_def
        split: phase.splits option.splits if_splits)
    have "caller_ok (sw_row s) c" if "c \<in> set (sw_callers s')" for c
      using that ok inv(4) set_update_subset_insert [of "sw_callers s" i] by (auto simp: caller_step(1))
    moreover have "set (map fst (sw_writes s')) = {j. j < length (sw_callers s') \<and> wrote (sw_callers s' ! j)}"
      using inv(6) wp phase caller_step(2) by (auto simp: caller_step(1) False nth_list_update split: if_splits)
    ultimately show ?thesis using same inv(2,3,5) unfolding swaps_inv_def by (simp add: caller_step(1) False row)
  qed
qed

lemma reachable_swaps_inv:
  assumes "swaps_reachable cfg row calls s" "0 \<le> TrackingPeriod (HistoryConfig cfg)"
    and "\<forall>(m, now) \<in> set calls. audit_call start (TrackingPeriod (HistoryConfig cfg)) m"
    and "\<forall>r. row = Some r \<longrightarrow> in_period start (TrackingPeriod (HistoryConfig cfg)) (r_AuditHistory r)"
  shows "swaps_inv cfg start row calls s"
  using assms(1)
proof induction
  case swaps_begin
  then show ?case using assms(4)
    by (auto simp: swaps_inv_def swaps_start_def caller_ok_def wrote_def comp_def intro!: map_idI split: prod.splits)
next
  case (swaps_next s s')
  then show ?case using swaps_inv_step assms(2,3) by blast
qed

text \<open>
  Property C4. Audits that callers report at the same time are applied to the node exactly once, in the
  order of the successful writes: in every reachable state the row is what applying the updates of
  the callers that have returned gives, one after the other from the first row (or a new node), each
  of them once, whoever read what when. This needs the audits, and the history of the first row, to lie
  within one tracking period, and no caller ever fails.
\<close>

theorem updates_serialise:
  assumes "swaps_reachable cfg row calls s" "0 \<le> TrackingPeriod (HistoryConfig cfg)"
    and "\<forall>(m, now) \<in> set calls. audit_call start (TrackingPeriod (HistoryConfig cfg)) m"
    and "\<forall>r. row = Some r \<longrightarrow> in_period start (TrackingPeriod (HistoryConfig cfg)) (r_AuditHistory r)"
  shows "sw_row s = fold (apply_write cfg calls) (sw_writes s) row \<and> distinct (map fst (sw_writes s)) \<and>
    (\<forall>i < length (sw_callers s). i \<in> fst ` set (sw_writes s) \<longleftrightarrow> wrote (sw_callers s ! i)) \<and>
    (\<forall>c \<in> set (sw_callers s). cl_phase c \<noteq> Panicked)"
proof -
  have "swaps_inv cfg start row calls s" by (rule reachable_swaps_inv [OF assms])
  then show ?thesis by (auto simp: swaps_inv_def caller_ok_def)
qed

subsection \<open>An update that is lost\<close>

text \<open>Two callers with a failed audit each, in a window that is older than the tracking period: the merge
  trims the window off again, the history does not change, and both writes are accepted although the
  second one was computed from the row before the first.\<close>

definition old_config :: rep_Config where
  "old_config = \<lparr>AuditLambda = 1 / 2, AuditWeight = 1, AuditDQ = 1 / 4, UnknownAuditLambda = 1 / 2, UnknownAuditDQ = 1 / 4,
     SuspensionGracePeriod = 10, SuspensionDQEnabled = True, AuditCount = 100,
     HistoryConfig = \<lparr>WindowSize = 10, TrackingPeriod = 100, GracePeriod = 10, OfflineThreshold = 1 / 2,
       OfflineDQEnabled = True, OfflineSuspensionEnabled = True\<rparr>,
     InitialAlpha = 2, InitialBeta = 0\<rparr>"

definition old_row :: dbx_Reputation where
  "old_row = (newNode old_config)\<lparr>r_AuditHistory := \<lparr>Windows = [\<lparr>WindowStart = 500, OnlineCount = 1, TotalCount = 1\<rparr>], Score = 1\<rparr>\<rparr>"

definition old_calls :: "(Mutations \<times> time) list" where
  "old_calls = replicate 2 (fst (UpdateRequestToMutations old_config AuditFailure 300), 300)"

fun run_swaps :: "rep_Config \<Rightarrow> (nat \<times> time) list \<Rightarrow> swaps \<Rightarrow> swaps" where
  "run_swaps cfg [] s = s"
| "run_swaps cfg ((i, clock) # is) s =
     (case ApplyUpdates_step cfg clock (sw_callers s ! i) (sw_row s) of
        (row, did, phase) \<Rightarrow> run_swaps cfg is \<lparr>sw_row = row, sw_callers = (sw_callers s)[i := (sw_callers s ! i)\<lparr>cl_phase := phase\<rparr>],
          sw_writes = sw_writes s @ (if did then [(i, clock)] else [])\<rparr>)"

lemma run_swaps_reachable:
  "swaps_reachable cfg row calls s \<Longrightarrow> \<forall>(i, clock) \<in> set steps. i < length (sw_callers s) \<Longrightarrow>
    swaps_reachable cfg row calls (run_swaps cfg steps s)"
proof (induction steps arbitrary: s)
  case (Cons x steps)
  obtain i clock where x: "x = (i, clock)" by (cases x)
  obtain row' did phase where st: "ApplyUpdates_step cfg clock (sw_callers s ! i) (sw_row s) = (row', did, phase)" by (metis prod_cases3)
  have "swaps_reachable cfg row calls \<lparr>sw_row = row', sw_callers = (sw_callers s)[i := (sw_callers s ! i)\<lparr>cl_phase := phase\<rparr>],
      sw_writes = sw_writes s @ (if did then [(i, clock)] else [])\<rparr>"
    by (rule swaps_next [OF Cons.prems(1) caller_step [OF _ st]]) (use Cons.prems(2) x in simp)
  then show ?case using Cons.IH Cons.prems(2) st by (simp add: x)
qed simp

text \<open>
  Property C40. Without that bound an update can be lost: two callers that report a failed audit older
  than the tracking period both return, both wrote the row, and the node has one failure counted instead of
  two. The compare and swap looks at the history only, and the history did not change.
\<close>

theorem old_audit_lost:
  "\<exists>s r. swaps_reachable old_config (Some old_row) old_calls s \<and> map fst (sw_writes s) = [0, 1] \<and>
    sw_row s = Some r \<and> r_TotalAuditCount r = r_TotalAuditCount old_row + 1 \<and>
    sw_row s = fold (apply_write old_config old_calls) [(0, 301)] (Some old_row) \<and>
    sw_row s \<noteq> fold (apply_write old_config old_calls) (sw_writes s) (Some old_row)"
proof -
  let ?s = "run_swaps old_config [(0, 301), (1, 301), (0, 301), (1, 301)] (swaps_start (Some old_row) old_calls)"
  have "swaps_reachable old_config (Some old_row) old_calls ?s"
    by (rule run_swaps_reachable [OF swaps_begin]) (simp add: swaps_start_def old_calls_def)
  moreover have "map fst (sw_writes ?s) = [0, 1] \<and> map_option r_TotalAuditCount (sw_row ?s) = Some (r_TotalAuditCount old_row + 1) \<and>
    sw_row ?s = fold (apply_write old_config old_calls) [(0, 301)] (Some old_row) \<and>
    sw_row ?s \<noteq> fold (apply_write old_config old_calls) (sw_writes ?s) (Some old_row)"
    by code_simp
  ultimately show ?thesis unfolding map_option_eq_Some by (elim conjE exE) (intro exI conjI; assumption)
qed

subsection \<open>Witnesses\<close>

definition two_calls :: "(Mutations \<times> time) list" where
  "two_calls = [(fst (UpdateRequestToMutations old_config AuditFailure 510), 510), (fst (UpdateRequestToMutations old_config AuditOffline 525), 525)]"

lemma updates_serialise_witness:
  "\<exists>s. swaps_reachable old_config (Some old_row) two_calls s \<and> map fst (sw_writes s) = [1, 0] \<and>
    sw_row s = fold (apply_write old_config two_calls) (sw_writes s) (Some old_row)"
proof -
  let ?s = "run_swaps old_config [(0, 526), (1, 526), (1, 527), (0, 528), (0, 529), (0, 530)] (swaps_start (Some old_row) two_calls)"
  have r: "swaps_reachable old_config (Some old_row) two_calls ?s"
    by (rule run_swaps_reachable [OF swaps_begin]) (simp add: swaps_start_def two_calls_def)
  have w: "map fst (sw_writes ?s) = [1, 0]" by code_simp
  have p: "TrackingPeriod (HistoryConfig old_config) = 100" "WindowSize (HistoryConfig old_config) = 10" by (simp_all add: old_config_def)
  have calls: "\<forall>(m, now) \<in> set two_calls. audit_call 500 (TrackingPeriod (HistoryConfig old_config)) m"
    unfolding two_calls_def using audit_calls [of 500 510 old_config 100] audit_calls [of 500 525 old_config 100]
    by (simp add: p Truncate_def)
  have row: "\<forall>r. Some old_row = Some r \<longrightarrow> in_period 500 (TrackingPeriod (HistoryConfig old_config)) (r_AuditHistory r)"
    by (simp add: old_row_def in_period_def last_start_def p)
  from updates_serialise [OF r _ calls row] show ?thesis using r w p
    by (intro exI [of _ ?s]) (simp del: run_swaps.simps)
qed

end
