(* ===== verification/WriteCache.thy ===== *)
theory WriteCache
  imports ReputationSwaps "HOL-Library.Signed_Division"
begin

text \<open>
  The cache in front of the reputations table (\<open>reputation/writecache.go\<close>): results of audits are collected
  for each node and applied to the table from time to time, while callers get an estimate of what the row
  will be. What one call does to an entry it does under the lock of the entry, so each is one step; a call
  of the backing store runs to its end (\<open>updates_serialise\<close>), or fails and leaves the row, with an error
  that is a parameter. The heap of the entries is used through its first element, an entry with the
  earliest \<open>syncAt\<close>. Mutations of an entry always have a history.
\<close>

subsection \<open>The backing store\<close>

record rep_Info =
  in_AuditSuccessCount :: int
  in_TotalAuditCount :: int
  in_VettedAt :: "time option"
  in_UnknownAuditSuspended :: "time option"
  in_OfflineSuspended :: "time option"
  in_UnderReview :: "time option"
  in_Disqualified :: "time option"
  in_DisqualificationReason :: int
  in_OnlineScore :: rat
  in_AuditHistory :: AuditHistory
  in_AuditReputationAlpha :: rat
  in_AuditReputationBeta :: rat
  in_UnknownAuditReputationAlpha :: rat
  in_UnknownAuditReputationBeta :: rat

definition dbxToReputationInfo :: "dbx_Reputation \<Rightarrow> rep_Info" where
  "dbxToReputationInfo r =
     \<lparr>in_AuditSuccessCount = r_AuditSuccessCount r, in_TotalAuditCount = r_TotalAuditCount r, in_VettedAt = r_VettedAt r,
      in_UnknownAuditSuspended = r_UnknownAuditSuspended r, in_OfflineSuspended = r_OfflineSuspended r,
      in_UnderReview = r_UnderReview r, in_Disqualified = r_Disqualified r,
      in_DisqualificationReason = (case r_DisqualificationReason r of None \<Rightarrow> 0 | Some reason \<Rightarrow> reason),
      in_OnlineScore = r_OnlineScore r, in_AuditHistory = r_AuditHistory r,
      in_AuditReputationAlpha = r_AuditReputationAlpha r, in_AuditReputationBeta = r_AuditReputationBeta r,
      in_UnknownAuditReputationAlpha = r_UnknownAuditReputationAlpha r,
      in_UnknownAuditReputationBeta = r_UnknownAuditReputationBeta r\<rparr>"

text \<open>\<open>ErrNodeNotFound\<close> is what \<open>Get\<close> returns for a node without a row.\<close>

datatype rep_error = NotPopulated | ErrNodeNotFound | DBError | AuditRefused string

definition reputations_Get :: "dbx_Reputation option \<Rightarrow> rep_error + rep_Info" where
  "reputations_Get row = (case row of None \<Rightarrow> Inl ErrNodeNotFound | Some r \<Rightarrow> Inr (dbxToReputationInfo r))"

text \<open>\<open>ApplyUpdates\<close> without another caller in between: two statements.\<close>

definition ApplyUpdates_alone ::
  "rep_Config \<Rightarrow> time \<Rightarrow> Mutations \<Rightarrow> time \<Rightarrow> dbx_Reputation option \<Rightarrow> dbx_Reputation option \<times> phase" where
  "ApplyUpdates_alone cfg clock updates now row =
     (case ApplyUpdates_step cfg clock \<lparr>cl_updates = updates, cl_now = now, cl_phase = Reading\<rparr> row of
        (row1, _, phase1) \<Rightarrow>
          (case ApplyUpdates_step cfg clock \<lparr>cl_updates = updates, cl_now = now, cl_phase = phase1\<rparr> row1 of
             (row2, _, phase2) \<Rightarrow> (row2, phase2)))"

lemma ApplyUpdates_alone_result:
  assumes "OnlineHistory m \<noteq> None"
  shows "ApplyUpdates_alone cfg clock m now row =
    (case row of
       None \<Rightarrow> let r = updated_row cfg clock m now (newNode cfg) in (Some r, Returned r)
     | Some r \<Rightarrow> if something_to_change m then let r' = updated_row cfg clock m now r in (Some r', Returned r')
         else (row, Returned r))"
  using assms by (auto simp: ApplyUpdates_alone_def ApplyUpdates_step_def updated_row_def Let_def split: option.splits)

subsection \<open>Entries and the time of the next synchronisation\<close>

record cache_entry =
  en_nodeID :: node_id
  en_info :: "rep_Info option"
  en_syncError :: "rep_error option"
  en_errorRetryAt :: time
  en_syncAt :: time
  en_mutations :: Mutations

record CachingDB =
  cd_instanceOffset :: "64 word"
  cd_syncInterval :: time
  cd_errorRetryInterval :: time
  cd_config :: rep_Config
  cd_pending :: "cache_entry list"

definition no_mutations :: Mutations where
  "no_mutations = \<lparr>PositiveResults = 0, FailureResults = 0, UnknownResults = 0, OfflineResults = 0,
     OnlineHistory = Some empty_history\<rparr>"

definition nextTimeForSync :: "64 word \<Rightarrow> node_id \<Rightarrow> time \<Rightarrow> time \<Rightarrow> time" where
  "nextTimeForSync instanceOffset nodeID now syncInterval =
     (let initialPosition = ucast (drop_bit 192 nodeID) :: 64 word;
          finalPosition = initialPosition + instanceOffset;
          periodStart = Truncate now syncInterval;
          offsetFromStart = (uint finalPosition * syncInterval) sdiv 2 ^ 64;
          syncTime = periodStart + offsetFromStart
      in if syncTime < now then syncTime + syncInterval else syncTime)"

definition new_entry :: "CachingDB \<Rightarrow> node_id \<Rightarrow> time \<Rightarrow> cache_entry" where
  "new_entry cdb nodeID now =
     \<lparr>en_nodeID = nodeID, en_info = None, en_syncError = Some NotPopulated, en_errorRetryAt = 0,
      en_syncAt = nextTimeForSync (cd_instanceOffset cdb) nodeID now (cd_syncInterval cdb), en_mutations = no_mutations\<rparr>"

definition cached :: "node_id \<Rightarrow> CachingDB \<Rightarrow> cache_entry option" where
  "cached nodeID cdb = find (\<lambda>e. en_nodeID e = nodeID) (cd_pending cdb)"

definition insertNode :: "node_id \<Rightarrow> time \<Rightarrow> CachingDB \<Rightarrow> CachingDB" where
  "insertNode nodeID now cdb = cdb\<lparr>cd_pending := cd_pending cdb @ [new_entry cdb nodeID now]\<rparr>"

definition set_entry :: "cache_entry \<Rightarrow> CachingDB \<Rightarrow> CachingDB" where
  "set_entry e cdb = cdb\<lparr>cd_pending := map (\<lambda>x. if en_nodeID x = en_nodeID e then e else x) (cd_pending cdb)\<rparr>"

text \<open>The error, if the call of the backing store fails.\<close>

definition syncEntry ::
  "CachingDB \<Rightarrow> time \<Rightarrow> rep_error option \<Rightarrow> time \<Rightarrow> dbx_Reputation option \<Rightarrow> cache_entry \<Rightarrow> dbx_Reputation option \<times> cache_entry" where
  "syncEntry cdb clock failure now row e =
     (let (row', info, err) = (case failure of
            Some err \<Rightarrow> (row, None, Some err)
          | None \<Rightarrow> (case ApplyUpdates_alone (cd_config cdb) clock (en_mutations e) now row of
              (row', Returned r) \<Rightarrow> (row', Some (dbxToReputationInfo r), None)
            | (row', _) \<Rightarrow> (row', None, None)));
          retry = (case err of
            None \<Rightarrow> en_errorRetryAt e
          | Some err \<Rightarrow> if err = ErrNodeNotFound then now else now + cd_errorRetryInterval cdb)
      in (row', e\<lparr>en_info := info, en_syncError := err, en_errorRetryAt := retry, en_mutations := no_mutations\<rparr>))"

subsection \<open>The estimate\<close>

text \<open>The counts and scores, whether the tracking period is full, and whether the node is newly vetted.\<close>

definition base_estimate :: "rep_Config \<Rightarrow> Mutations \<Rightarrow> time \<Rightarrow> rep_Info \<Rightarrow> rep_Info \<times> bool \<times> bool" where
  "base_estimate cfg updates now info =
     (let (history, trackingPeriodFull) = (case OnlineHistory updates of
            None \<Rightarrow> (in_AuditHistory info, False)
          | Some h \<Rightarrow> MergeAuditHistories (in_AuditHistory info) (Windows h) (HistoryConfig cfg));
          total = in_TotalAuditCount info +
            int (PositiveResults updates + FailureResults updates + OfflineResults updates + UnknownResults updates);
          vetted = (in_VettedAt info = None \<and> total \<ge> AuditCount cfg);
          (auditBeta, auditAlpha) = UpdateReputationMultiple (FailureResults updates) (in_AuditReputationBeta info)
            (in_AuditReputationAlpha info) (AuditLambda cfg) (AuditWeight cfg);
          (unknownBeta, unknownAlpha) = UpdateReputationMultiple (UnknownResults updates) (in_UnknownAuditReputationBeta info)
            (in_UnknownAuditReputationAlpha info) (UnknownAuditLambda cfg) (AuditWeight cfg);
          (auditAlpha, auditBeta) = UpdateReputationMultiple (PositiveResults updates) auditAlpha auditBeta
            (AuditLambda cfg) (AuditWeight cfg);
          (unknownAlpha, unknownBeta) = UpdateReputationMultiple (PositiveResults updates) unknownAlpha unknownBeta
            (UnknownAuditLambda cfg) (AuditWeight cfg)
      in (info\<lparr>in_AuditHistory := history,
               in_AuditSuccessCount := in_AuditSuccessCount info + int (PositiveResults updates),
               in_TotalAuditCount := total, in_OnlineScore := Score history,
               in_VettedAt := (if vetted then Some now else in_VettedAt info),
               in_AuditReputationAlpha := auditAlpha, in_AuditReputationBeta := auditBeta,
               in_UnknownAuditReputationAlpha := unknownAlpha, in_UnknownAuditReputationBeta := unknownBeta\<rparr>,
          trackingPeriodFull, vetted))"

text \<open>With whether the node is newly disqualified.\<close>

definition estimate_audit_score :: "rep_Config \<Rightarrow> time \<Rightarrow> rep_Info \<Rightarrow> rep_Info \<times> bool" where
  "estimate_audit_score cfg now info =
     (if score (in_AuditReputationAlpha info) (in_AuditReputationBeta info) \<le> AuditDQ cfg \<and> in_Disqualified info = None
      then (info\<lparr>in_Disqualified := Some now, in_DisqualificationReason := DisqualificationReasonAuditFailure\<rparr>, True)
      else (info, False))"

definition estimate_unknown_score :: "rep_Config \<Rightarrow> time \<Rightarrow> rep_Info \<Rightarrow> rep_Info" where
  "estimate_unknown_score cfg now info =
     (if score (in_UnknownAuditReputationAlpha info) (in_UnknownAuditReputationBeta info) \<le> UnknownAuditDQ cfg
      then let since = (case in_UnknownAuditSuspended info of None \<Rightarrow> now | Some t \<Rightarrow> t) in
        if now - since > SuspensionGracePeriod cfg \<and> SuspensionDQEnabled cfg
        then info\<lparr>in_Disqualified := Some now, in_DisqualificationReason := DisqualificationReasonSuspension,
                  in_UnknownAuditSuspended := None\<rparr>
        else info\<lparr>in_UnknownAuditSuspended := Some since\<rparr>
      else info\<lparr>in_UnknownAuditSuspended := None\<rparr>)"

definition estimate_online_score :: "rep_Config \<Rightarrow> bool \<Rightarrow> time \<Rightarrow> rep_Info \<Rightarrow> rep_Info" where
  "estimate_online_score cfg trackingPeriodFull now info =
     (let hist = HistoryConfig cfg in
      if \<not> OfflineSuspensionEnabled hist then info\<lparr>in_OfflineSuspended := None, in_UnderReview := None\<rparr>
      else let penalizeOfflineNode = (in_OnlineScore info < OfflineThreshold hist \<and> trackingPeriodFull) in
        case in_UnderReview info of
          Some underReview \<Rightarrow>
            let info = (if \<not> penalizeOfflineNode then info\<lparr>in_OfflineSuspended := None\<rparr>
                        else if in_OfflineSuspended info = None then info\<lparr>in_OfflineSuspended := Some now\<rparr> else info)
            in if now > underReview + GracePeriod hist + TrackingPeriod hist
               then if penalizeOfflineNode
                    then if OfflineDQEnabled hist
                         then info\<lparr>in_Disqualified := Some now, in_DisqualificationReason := DisqualificationReasonNodeOffline\<rparr>
                         else info
                    else info\<lparr>in_UnderReview := None, in_OfflineSuspended := None\<rparr>
               else info
        | None \<Rightarrow>
            if penalizeOfflineNode then info\<lparr>in_UnderReview := Some now, in_OfflineSuspended := Some now\<rparr> else info)"

definition cache_estimate :: "rep_Config \<Rightarrow> Mutations \<Rightarrow> time \<Rightarrow> rep_Info \<Rightarrow> rep_Info \<times> bool" where
  "cache_estimate cfg updates now info =
     (case base_estimate cfg updates now info of (info, trackingPeriodFull, vetted) \<Rightarrow>
        (case estimate_audit_score cfg now info of (info, disqualified) \<Rightarrow>
           (estimate_online_score cfg trackingPeriodFull now (estimate_unknown_score cfg now info), vetted \<or> disqualified)))"

subsection \<open>The operations of the cache\<close>

record cache_state =
  cs_rows :: "node_id \<Rightarrow> dbx_Reputation option"
  cs_cdb :: CachingDB

text \<open>What the mutations of an entry become.\<close>

definition add_mutations :: "rep_Config \<Rightarrow> Mutations \<Rightarrow> Mutations \<Rightarrow> Mutations" where
  "add_mutations cfg updates m =
     m\<lparr>OnlineHistory := (case (OnlineHistory updates, OnlineHistory m) of
          (Some h, Some old) \<Rightarrow> Some (fst (MergeAuditHistories old (Windows h) (HistoryConfig cfg)))
        | _ \<Rightarrow> OnlineHistory m),
       PositiveResults := PositiveResults m + PositiveResults updates,
       FailureResults := FailureResults m + FailureResults updates,
       OfflineResults := OfflineResults m + OfflineResults updates,
       UnknownResults := UnknownResults m + UnknownResults updates\<rparr>"

text \<open>An entry without an error has an info, or the code would panic.\<close>

datatype update_result = Failed rep_error | Updated rep_Info | NoInfo

definition apply_to_entry ::
  "CachingDB \<Rightarrow> time \<Rightarrow> rep_error option \<Rightarrow> Mutations \<Rightarrow> rep_Config \<Rightarrow> time \<Rightarrow> dbx_Reputation option \<Rightarrow> cache_entry \<Rightarrow>
     dbx_Reputation option \<times> cache_entry \<times> update_result \<times> bool" where
  "apply_to_entry cdb clock failure updates cfg now row e =
     (case en_syncError e of
        Some err \<Rightarrow>
          if err = ErrNodeNotFound \<or> err = NotPopulated
          then (case failure of
                  Some err \<Rightarrow> (row, e\<lparr>en_syncError := Some err, en_errorRetryAt := now + cd_errorRetryInterval cdb\<rparr>, Failed err, False)
                | None \<Rightarrow> (case ApplyUpdates_alone cfg clock updates now row of
                    (row', Returned r) \<Rightarrow>
                      (row', e\<lparr>en_info := Some (dbxToReputationInfo r), en_syncError := None\<rparr>, Updated (dbxToReputationInfo r), False)
                  | (row', _) \<Rightarrow> (row', e, NoInfo, False)))
          else (row, e, Failed err, False)
      | None \<Rightarrow>
          (case en_info e of
             None \<Rightarrow> (row, e, NoInfo, False)
           | Some info \<Rightarrow>
               (case cache_estimate cfg updates now info of (info', doRequestSync) \<Rightarrow>
                  (row, e\<lparr>en_mutations := add_mutations cfg updates (en_mutations e), en_info := Some info'\<rparr>,
                   Updated info', doRequestSync))))"

text \<open>\<open>getEntry\<close> up to the call of its function: the entry is inserted, and synchronised when it is time
  to try again.\<close>

definition getEntry :: "time \<Rightarrow> rep_error option \<Rightarrow> node_id \<Rightarrow> time \<Rightarrow> cache_state \<Rightarrow> cache_state \<times> cache_entry" where
  "getEntry clock failure nodeID now s =
     (let cdb = (if cached nodeID (cs_cdb s) = None then insertNode nodeID now (cs_cdb s) else cs_cdb s);
          e = the (cached nodeID cdb);
          (row, e) = (if en_syncError e \<noteq> None \<and> en_errorRetryAt e < now
                      then syncEntry cdb clock failure now (cs_rows s nodeID) e else (cs_rows s nodeID, e))
      in (\<lparr>cs_rows = (cs_rows s)(nodeID := row), cs_cdb = set_entry e cdb\<rparr>, e))"

definition CachingDB_ApplyUpdates ::
  "time \<Rightarrow> rep_error option \<Rightarrow> rep_error option \<Rightarrow> node_id \<Rightarrow> Mutations \<Rightarrow> rep_Config \<Rightarrow> time \<Rightarrow> cache_state \<Rightarrow>
     cache_state \<times> update_result \<times> bool" where
  "CachingDB_ApplyUpdates clock failure failure' nodeID updates cfg now s =
     (case getEntry clock failure nodeID now s of
        (s, e) \<Rightarrow> (case apply_to_entry (cs_cdb s) clock failure' updates cfg now (cs_rows s nodeID) e of
          (row, e, res, doRequestSync) \<Rightarrow>
            (\<lparr>cs_rows = (cs_rows s)(nodeID := row), cs_cdb = set_entry e (cs_cdb s)\<rparr>, res, doRequestSync)))"

definition CachingDB_Update ::
  "time \<Rightarrow> rep_error option \<Rightarrow> rep_error option \<Rightarrow> node_id \<Rightarrow> AuditType \<Rightarrow> rep_Config \<Rightarrow> time \<Rightarrow> cache_state \<Rightarrow>
     cache_state \<times> update_result \<times> bool" where
  "CachingDB_Update clock failure failure' nodeID outcome cfg auditTime s =
     (case UpdateRequestToMutations cfg outcome auditTime of
        (mutations, None) \<Rightarrow> CachingDB_ApplyUpdates clock failure failure' nodeID mutations cfg auditTime s
      | (_, Some err) \<Rightarrow> (s, Failed (AuditRefused err), False))"

definition CachingDB_Get ::
  "time \<Rightarrow> rep_error option \<Rightarrow> node_id \<Rightarrow> time \<Rightarrow> cache_state \<Rightarrow> cache_state \<times> rep_Info option \<times> rep_error option" where
  "CachingDB_Get clock failure nodeID now s =
     (case getEntry clock failure nodeID now s of (s, e) \<Rightarrow> (s, en_info e, en_syncError e))"

text \<open>\<open>syncNode\<close>, which also ends \<open>RequestSync\<close>; without an entry nothing happens.\<close>

definition syncNode :: "time \<Rightarrow> rep_error option \<Rightarrow> node_id \<Rightarrow> time \<Rightarrow> cache_state \<Rightarrow> cache_state" where
  "syncNode clock failure nodeID now s =
     (case cached nodeID (cs_cdb s) of
        None \<Rightarrow> s
      | Some e \<Rightarrow> (case syncEntry (cs_cdb s) clock failure now (cs_rows s nodeID) e of
          (row, e) \<Rightarrow> \<lparr>cs_rows = (cs_rows s)(nodeID := row), cs_cdb = set_entry e (cs_cdb s)\<rparr>))"

text \<open>The loop of \<open>getEntriesToSync\<close>: the entries whose time has come, each moved to its next time.\<close>

partial_function (option) due_entries :: "time \<Rightarrow> CachingDB \<Rightarrow> (CachingDB \<times> node_id list) option" where
  "due_entries now cdb =
     (case sort_key en_syncAt (cd_pending cdb) of
        [] \<Rightarrow> Some (cdb, [])
      | e # _ \<Rightarrow>
          if \<not> en_syncAt e < now then Some (cdb, [])
          else Option.bind (due_entries now (set_entry
                 (e\<lparr>en_syncAt := nextTimeForSync (cd_instanceOffset cdb) (en_nodeID e) now (cd_syncInterval cdb)\<rparr>) cdb))
               (\<lambda>(cdb', ids). Some (cdb', en_nodeID e # ids)))"

definition syncDueEntries :: "time \<Rightarrow> (node_id \<Rightarrow> rep_error option) \<Rightarrow> time \<Rightarrow> cache_state \<Rightarrow> cache_state option" where
  "syncDueEntries clock failure now s =
     (case due_entries now (cs_cdb s) of
        None \<Rightarrow> None
      | Some (cdb, ids) \<Rightarrow> Some (fold (\<lambda>n. syncNode clock (failure n) n now) ids (s\<lparr>cs_cdb := cdb\<rparr>)))"

definition FlushAll :: "time \<Rightarrow> (node_id \<Rightarrow> rep_error option) \<Rightarrow> time \<Rightarrow> cache_state \<Rightarrow> cache_state" where
  "FlushAll clock failure now s =
     fold (\<lambda>n. syncNode clock (failure n) n now) (map en_nodeID (cd_pending (cs_cdb s))) s"

text \<open>When the timer fires next.\<close>

definition updateTimer :: "time \<Rightarrow> CachingDB \<Rightarrow> time" where
  "updateTimer now cdb =
     (case sort_key en_syncAt (cd_pending cdb) of [] \<Rightarrow> cd_syncInterval cdb | e # _ \<Rightarrow> en_syncAt e - now)"

text \<open>The operations that set a status. A row that is not there is created with the defaults of the table.\<close>

definition default_row :: dbx_Reputation where
  "default_row =
     \<lparr>r_AuditSuccessCount = 0, r_TotalAuditCount = 0, r_VettedAt = None, r_Disqualified = None,
      r_DisqualificationReason = None, r_UnknownAuditSuspended = None, r_OfflineSuspended = None, r_UnderReview = None,
      r_OnlineScore = 1, r_AuditHistory = empty_history, r_AuditReputationAlpha = 1, r_AuditReputationBeta = 0,
      r_UnknownAuditReputationAlpha = 1, r_UnknownAuditReputationBeta = 0\<rparr>"

definition row_or_default :: "dbx_Reputation option \<Rightarrow> dbx_Reputation" where
  "row_or_default row = (case row of None \<Rightarrow> default_row | Some r \<Rightarrow> r)"

definition reputations_DisqualifyNode :: "time \<Rightarrow> int \<Rightarrow> dbx_Reputation option \<Rightarrow> dbx_Reputation option" where
  "reputations_DisqualifyNode disqualifiedAt reason row =
     Some ((row_or_default row)\<lparr>r_Disqualified := Some disqualifiedAt, r_DisqualificationReason := Some reason\<rparr>)"

definition reputations_SuspendNodeUnknownAudit :: "time \<Rightarrow> dbx_Reputation option \<Rightarrow> dbx_Reputation option" where
  "reputations_SuspendNodeUnknownAudit suspendedAt row =
     Some ((row_or_default row)\<lparr>r_UnknownAuditSuspended := Some suspendedAt\<rparr>)"

definition reputations_UnsuspendNodeUnknownAudit :: "dbx_Reputation option \<Rightarrow> dbx_Reputation option" where
  "reputations_UnsuspendNodeUnknownAudit row = Some ((row_or_default row)\<lparr>r_UnknownAuditSuspended := None\<rparr>)"

text \<open>In front of them the cache changes the row and then asks for a synchronisation of the entry.\<close>

definition CachingDB_set_status ::
  "(dbx_Reputation option \<Rightarrow> dbx_Reputation option) \<Rightarrow> time \<Rightarrow> rep_error option \<Rightarrow> rep_error option \<Rightarrow> node_id \<Rightarrow> time \<Rightarrow>
     cache_state \<Rightarrow> cache_state \<times> rep_error option" where
  "CachingDB_set_status change clock failure failure' nodeID now s =
     (case failure of
        Some err \<Rightarrow> (s, Some err)
      | None \<Rightarrow> (syncNode clock failure' nodeID now (s\<lparr>cs_rows := (cs_rows s)(nodeID := change (cs_rows s nodeID))\<rparr>), None))"

subsection \<open>When entries are synchronised\<close>

lemma nextTimeForSync_bounds:
  assumes "0 < interval"
  shows "now \<le> nextTimeForSync off n now interval \<and> nextTimeForSync off n now interval < now + interval"
proof -
  let ?p = "uint (ucast (drop_bit 192 n) + off :: 64 word)"
  let ?o = "(?p * interval) sdiv 2 ^ 64"
  have "uint w < 2 ^ LENGTH(64)" for w :: "64 word" by (rule unsigned_less)
  then have p: "0 \<le> ?p" "?p < 2 ^ 64" by simp_all
  have o: "?o = (?p * interval) div 2 ^ 64"
    using p assms by (simp add: signed_divide_int_def sgn_if)
  have "?p * interval < 2 ^ 64 * interval" using p assms by (intro mult_strict_right_mono) auto
  moreover have "(?p * interval) div 2 ^ 64 * 2 ^ 64 \<le> ?p * interval" by (simp add: minus_mod_eq_div_mult [symmetric])
  ultimately have "?o < interval" unfolding o by (simp del: uint_word_arith_bintrs)
  moreover have "0 \<le> ?o" unfolding o using p assms by (simp add: pos_imp_zdiv_nonneg_iff)
  moreover obtain m where m: "now mod interval = m" by blast
  moreover from m have "0 \<le> m" "m < interval" using assms by auto
  moreover have "Truncate now interval = now - m" using assms m by (simp add: Truncate_def)
  ultimately show ?thesis unfolding nextTimeForSync_def Let_def by (auto simp: split: if_splits)
qed

abbreviation unique_entries :: "CachingDB \<Rightarrow> bool" where
  "unique_entries cdb \<equiv> distinct (map en_nodeID (cd_pending cdb))"

definition rescheduled :: "time \<Rightarrow> CachingDB \<Rightarrow> cache_entry \<Rightarrow> cache_entry" where
  "rescheduled now cdb e =
     (if en_syncAt e < now
      then e\<lparr>en_syncAt := nextTimeForSync (cd_instanceOffset cdb) (en_nodeID e) now (cd_syncInterval cdb)\<rparr> else e)"

lemma set_entry_simps [simp]:
  "cd_config (set_entry e cdb) = cd_config cdb" "cd_syncInterval (set_entry e cdb) = cd_syncInterval cdb"
  "cd_instanceOffset (set_entry e cdb) = cd_instanceOffset cdb" "cd_errorRetryInterval (set_entry e cdb) = cd_errorRetryInterval cdb"
  "map en_nodeID (cd_pending (set_entry e cdb)) = map en_nodeID (cd_pending cdb)"
  by (auto simp: set_entry_def comp_def)

lemma same_entry:
  "unique_entries cdb \<Longrightarrow> e \<in> set (cd_pending cdb) \<Longrightarrow> e' \<in> set (cd_pending cdb) \<Longrightarrow> en_nodeID e = en_nodeID e' \<Longrightarrow> e = e'"
  by (auto simp: distinct_map inj_on_def)

lemma set_entry_pending:
  assumes "unique_entries cdb" "e \<in> set (cd_pending cdb)" "en_nodeID e' = en_nodeID e"
  shows "cd_pending (set_entry e' cdb) = map (\<lambda>x. if x = e then e' else x) (cd_pending cdb)"
  using assms same_entry [OF assms(1) _ assms(2)] by (auto simp: set_entry_def intro!: map_cong)

lemma due_entries_total:
  assumes "0 < cd_syncInterval cdb" "unique_entries cdb"
  shows "\<exists>cdb' ids. due_entries now cdb = Some (cdb', ids) \<and> distinct ids \<and>
    set ids = en_nodeID ` {e \<in> set (cd_pending cdb). en_syncAt e < now} \<and>
    cdb' = cdb\<lparr>cd_pending := map (rescheduled now cdb) (cd_pending cdb)\<rparr>"
  using assms
proof (induction "card {e \<in> set (cd_pending cdb). en_syncAt e < now}" arbitrary: cdb rule: less_induct)
  case less
  show ?case
  proof (cases "sort_key en_syncAt (cd_pending cdb)")
    case Nil
    then have "cd_pending cdb = []" by (metis set_empty set_sort)
    then show ?thesis using Nil by (subst due_entries.simps) simp
  next
    case (Cons e rest)
    have set: "set (e # rest) = set (cd_pending cdb)" unfolding Cons [symmetric] by simp
    then have e: "e \<in> set (cd_pending cdb)" by auto
    have "sorted (map en_syncAt (e # rest))" unfolding Cons [symmetric] by simp
    then have least: "en_syncAt e \<le> en_syncAt x" if "x \<in> set (cd_pending cdb)" for x
      using that unfolding set [symmetric] by auto
    show ?thesis
    proof (cases "en_syncAt e < now")
      case False
      then have none: "\<not> en_syncAt x < now" if "x \<in> set (cd_pending cdb)" for x using least [OF that] by simp
      then have "map (rescheduled now cdb) (cd_pending cdb) = cd_pending cdb"
        by (intro map_idI) (simp add: rescheduled_def)
      then show ?thesis using Cons False none by (subst due_entries.simps) auto
    next
      case True
      let ?e = "rescheduled now cdb e"
      let ?cdb = "set_entry ?e cdb"
      have id: "en_nodeID ?e = en_nodeID e" by (simp add: rescheduled_def)
      have later: "\<not> en_syncAt ?e < now" using nextTimeForSync_bounds [OF less.prems(1)] True by (simp add: rescheduled_def not_less)
      note pending = set_entry_pending [OF less.prems(2) e id]
      have due: "{x \<in> set (cd_pending ?cdb). en_syncAt x < now} = {x \<in> set (cd_pending cdb). en_syncAt x < now} - {e}"
        using later by (auto simp: pending)
      have "card {x \<in> set (cd_pending ?cdb). en_syncAt x < now} < card {x \<in> set (cd_pending cdb). en_syncAt x < now}"
        using e True unfolding due by (intro psubset_card_mono) auto
      then obtain cdb' ids where ih: "due_entries now ?cdb = Some (cdb', ids)" "distinct ids"
          "set ids = en_nodeID ` {x \<in> set (cd_pending ?cdb). en_syncAt x < now}"
          "cdb' = ?cdb\<lparr>cd_pending := map (rescheduled now ?cdb) (cd_pending ?cdb)\<rparr>"
        using less.hyps [of ?cdb] less.prems by auto
      have "due_entries now cdb = Some (cdb', en_nodeID e # ids)"
        using Cons True ih(1) by (subst due_entries.simps) (simp add: rescheduled_def)
      moreover have "en_nodeID e \<notin> set ids"
        using same_entry [OF less.prems(2) e] unfolding ih(3) due by auto
      moreover have "set (en_nodeID e # ids) = en_nodeID ` {x \<in> set (cd_pending cdb). en_syncAt x < now}"
        unfolding list.set ih(3) due using e True by auto
      moreover have "rescheduled now ?cdb = rescheduled now cdb" by (simp add: rescheduled_def fun_eq_iff)
      then have "cdb' = cdb\<lparr>cd_pending := map (rescheduled now cdb) (cd_pending cdb)\<rparr>"
        using later unfolding ih(4) pending by (auto simp: set_entry_def rescheduled_def)
      ultimately show ?thesis using ih(2) by auto
    qed
  qed
qed

text \<open>
  Property C37. When the timer fires, collecting the entries that are due ends, whatever their number and
  times: each entry whose time has come is collected exactly once and moved to a time that is not before
  now and less than a flush interval away, at the place of its node in the interval; the others are left.
\<close>

theorem due_entries_terminate:
  assumes "0 < cd_syncInterval cdb" "unique_entries cdb"
  shows "\<exists>cdb' ids. due_entries now cdb = Some (cdb', ids) \<and> distinct ids \<and>
    set ids = en_nodeID ` {e \<in> set (cd_pending cdb). en_syncAt e < now} \<and>
    cdb' = cdb\<lparr>cd_pending := map (rescheduled now cdb) (cd_pending cdb)\<rparr> \<and>
    (\<forall>e \<in> set (cd_pending cdb). now \<le> en_syncAt (rescheduled now cdb e) \<and>
       (en_syncAt e < now \<longrightarrow> en_syncAt (rescheduled now cdb e) < now + cd_syncInterval cdb))"
  using due_entries_total [OF assms] nextTimeForSync_bounds [OF assms(1)]
  by (auto simp: rescheduled_def not_less)

subsection \<open>What the cache has accepted\<close>

text \<open>Runs of the cache, with the results it has accepted, those of synchronisations that failed, and
  those that other processes have applied to the table. A status may be set in the table at any time.\<close>

record cache_run =
  run_state :: cache_state
  run_accepted :: "(node_id \<times> Mutations) list"
  run_lost :: "(node_id \<times> Mutations) list"
  run_others :: "(node_id \<times> Mutations) list"

definition status_change :: "(dbx_Reputation option \<Rightarrow> dbx_Reputation option) \<Rightarrow> bool" where
  "status_change change \<longleftrightarrow> (\<exists>t reason. change = reputations_DisqualifyNode t reason) \<or>
     (\<exists>t. change = reputations_SuspendNodeUnknownAudit t) \<or> change = reputations_UnsuspendNodeUnknownAudit"

inductive cache_step :: "cache_run \<Rightarrow> cache_run \<Rightarrow> bool" where
  audit_step:
    "CachingDB_Update clock f f' n k (cd_config (cs_cdb (run_state s))) now (run_state s) = (st, res, req) \<Longrightarrow> 0 < now \<Longrightarrow>
     m = fst (UpdateRequestToMutations (cd_config (cs_cdb (run_state s))) k now) \<Longrightarrow>
     cache_step s (s\<lparr>run_state := st, run_accepted := (if (\<exists>info. res = Updated info) then [(n, m)] else []) @ run_accepted s\<rparr>)"
| get_step:
    "CachingDB_Get clock f n now (run_state s) = (st, info, err) \<Longrightarrow> 0 < now \<Longrightarrow> cache_step s (s\<lparr>run_state := st\<rparr>)"
| sync_step:
    "lost = (case cached n (cs_cdb (run_state s)) of None \<Rightarrow> [] | Some e \<Rightarrow> if f = None then [] else [(n, en_mutations e)]) \<Longrightarrow>
     cache_step s (s\<lparr>run_state := syncNode clock f n now (run_state s), run_lost := lost @ run_lost s\<rparr>)"
| due_step:
    "due_entries now (cs_cdb (run_state s)) = Some (cdb, ids) \<Longrightarrow> 0 < cd_syncInterval (cs_cdb (run_state s)) \<Longrightarrow>
     cache_step s (s\<lparr>run_state := (run_state s)\<lparr>cs_cdb := cdb\<rparr>\<rparr>)"
| other_step:
    "ApplyUpdates_alone (cd_config (cs_cdb (run_state s))) clock m now (cs_rows (run_state s) n) = (row, phase) \<Longrightarrow>
     OnlineHistory m \<noteq> None \<Longrightarrow>
     cache_step s (s\<lparr>run_state := (run_state s)\<lparr>cs_rows := (cs_rows (run_state s))(n := row)\<rparr>, run_others := (n, m) # run_others s\<rparr>)"
| status_step:
    "status_change change \<Longrightarrow>
     cache_step s (s\<lparr>run_state := (run_state s)\<lparr>cs_rows := (cs_rows (run_state s))(n := change (cs_rows (run_state s) n))\<rparr>\<rparr>)"

definition cache_start :: "(node_id \<Rightarrow> dbx_Reputation option) \<Rightarrow> CachingDB \<Rightarrow> cache_run" where
  "cache_start rows cdb =
     \<lparr>run_state = \<lparr>cs_rows = rows, cs_cdb = cdb\<lparr>cd_pending := []\<rparr>\<rparr>, run_accepted = [], run_lost = [], run_others = []\<rparr>"

inductive cache_reachable :: "(node_id \<Rightarrow> dbx_Reputation option) \<Rightarrow> CachingDB \<Rightarrow> cache_run \<Rightarrow> bool" for rows cdb where
  cache_begin: "cache_reachable rows cdb (cache_start rows cdb)"
| cache_next: "cache_reachable rows cdb s \<Longrightarrow> cache_step s s' \<Longrightarrow> cache_reachable rows cdb s'"

text \<open>Entries as the operations leave them.\<close>

definition entry_ok :: "cache_entry \<Rightarrow> bool" where
  "entry_ok e \<longleftrightarrow> OnlineHistory (en_mutations e) \<noteq> None \<and> (en_syncError e \<noteq> None \<longrightarrow> en_mutations e = no_mutations) \<and>
     (en_syncError e = None \<longrightarrow> en_info e \<noteq> None)"

definition cdb_ok :: "CachingDB \<Rightarrow> bool" where
  "cdb_ok cdb \<longleftrightarrow> unique_entries cdb \<and> (\<forall>e \<in> set (cd_pending cdb). entry_ok e)"

lemma cached_Some:
  assumes "unique_entries cdb"
  shows "cached n cdb = Some e \<longleftrightarrow> e \<in> set (cd_pending cdb) \<and> en_nodeID e = n"
  using assms unfolding cached_def
  by (induction "cd_pending cdb" arbitrary: cdb) (auto simp: find_Some_iff in_set_conv_nth distinct_conv_nth)

definition in_row :: "(dbx_Reputation \<Rightarrow> int) \<Rightarrow> dbx_Reputation option \<Rightarrow> int" where
  "in_row g row = (case row of None \<Rightarrow> 0 | Some r \<Rightarrow> g r)"

definition pending :: "(Mutations \<Rightarrow> nat) \<Rightarrow> node_id \<Rightarrow> CachingDB \<Rightarrow> nat" where
  "pending f n cdb = (case cached n cdb of None \<Rightarrow> 0 | Some e \<Rightarrow> f (en_mutations e))"

definition tally :: "(Mutations \<Rightarrow> nat) \<Rightarrow> node_id \<Rightarrow> (node_id \<times> Mutations) list \<Rightarrow> nat" where
  "tally f n xs = sum_list (map (f \<circ> snd) (filter (\<lambda>x. fst x = n) xs))"

definition all_results :: "Mutations \<Rightarrow> nat" where
  "all_results m = PositiveResults m + FailureResults m + UnknownResults m + OfflineResults m"

text \<open>A number of results that updates add to a column of the row.\<close>

lemma find_snoc: "find P (xs @ [x]) = (case find P xs of None \<Rightarrow> if P x then Some x else None | Some y \<Rightarrow> Some y)"
  by (induction xs) auto

lemma find_replaced:
  "find (\<lambda>x. k x = n) xs \<noteq> None \<or> n \<noteq> k e \<Longrightarrow>
    find (\<lambda>x. k x = n) (map (\<lambda>x. if k x = k e then e else x) xs) = (if n = k e then Some e else find (\<lambda>x. k x = n) xs)"
  by (induction xs) auto

lemma cached_set_entry:
  assumes "cached (en_nodeID e) cdb \<noteq> None"
  shows "cached n (set_entry e cdb) = (if n = en_nodeID e then Some e else cached n cdb)"
  using assms find_replaced [of en_nodeID n "cd_pending cdb" e] by (auto simp: cached_def set_entry_def)

lemma cached_insertNode:
  "cached n cdb = None \<Longrightarrow> cached n' (insertNode n now cdb) = (if n' = n then Some (new_entry cdb n now) else cached n' cdb)"
  by (auto simp: cached_def insertNode_def new_entry_def find_snoc split: option.splits)

lemma insertNode_config [simp]: "cd_config (insertNode n now cdb) = cd_config cdb"
  by (simp add: insertNode_def)

lemma cdb_ok_cached: "cdb_ok cdb \<Longrightarrow> cached n cdb = Some e \<Longrightarrow> entry_ok e \<and> en_nodeID e = n \<and> e \<in> set (cd_pending cdb)"
  using cached_Some [of cdb n e] by (auto simp: cdb_ok_def)

lemma cdb_ok_set_entry: "cdb_ok cdb \<Longrightarrow> entry_ok e \<Longrightarrow> cdb_ok (set_entry e cdb)"
  unfolding cdb_ok_def by (auto simp: set_entry_def comp_def if_distrib cong: if_cong)

lemma new_entry_ok: "entry_ok (new_entry cdb n now)"
  by (simp add: entry_ok_def new_entry_def no_mutations_def)

lemma cdb_ok_insertNode: "cdb_ok cdb \<Longrightarrow> cached n cdb = None \<Longrightarrow> cdb_ok (insertNode n now cdb)"
  using new_entry_ok [of cdb n now]
  by (auto simp: cdb_ok_def insertNode_def cached_def find_None_iff new_entry_def)

locale counted =
  fixes f :: "Mutations \<Rightarrow> nat" and g :: "dbx_Reputation \<Rightarrow> int"
  assumes updated: "g (updated_row cfg clock m now r) = g r + int (f m)"
    and fresh: "g (newNode cfg) = 0" "g default_row = 0"
    and none: "f no_mutations = 0" "\<not> something_to_change m \<Longrightarrow> f m = 0"
    and add: "f (add_mutations cfg m m') = f m' + f m"
    and status: "g (r\<lparr>r_Disqualified := t, r_DisqualificationReason := i\<rparr>) = g r" "g (r\<lparr>r_UnknownAuditSuspended := t\<rparr>) = g r"
begin

lemma alone_count:
  assumes "OnlineHistory m \<noteq> None" "ApplyUpdates_alone cfg clock m now row = (row', phase)"
  shows "in_row g row' = in_row g row + int (f m) \<and> (\<exists>r. phase = Returned r)"
  using assms updated fresh none(2) [of m]
  by (auto simp: ApplyUpdates_alone_result in_row_def Let_def split: option.splits if_splits)

lemma sync_count:
  assumes "entry_ok e" "syncEntry cdb clock failure now row e = (row', e')"
  shows "in_row g row' = in_row g row + (if failure = None then int (f (en_mutations e)) else 0) \<and>
    f (en_mutations e') = 0 \<and> entry_ok e' \<and> en_nodeID e' = en_nodeID e"
proof -
  have h: "OnlineHistory (en_mutations e) \<noteq> None" "OnlineHistory no_mutations \<noteq> None"
    using assms(1) by (simp_all add: entry_ok_def no_mutations_def)
  obtain row1 ph where a: "ApplyUpdates_alone (cd_config cdb) clock (en_mutations e) now row = (row1, ph)" by fastforce
  from alone_count [OF h(1) a] obtain r where "in_row g row1 = in_row g row + int (f (en_mutations e))" "ph = Returned r" by blast
  then show ?thesis using assms(2) h(2) none(1)
    by (auto simp: syncEntry_def a entry_ok_def Let_def split: option.splits)
qed

lemma apply_count:
  assumes "entry_ok e" "OnlineHistory m \<noteq> None" "apply_to_entry cdb clock failure m cfg now row e = (row', e', res, req)"
  shows "in_row g row' + int (f (en_mutations e')) =
      in_row g row + int (f (en_mutations e)) + (if (\<exists>info. res = Updated info) then int (f m) else 0) \<and>
    entry_ok e' \<and> en_nodeID e' = en_nodeID e"
proof (cases "en_syncError e")
  case None
  then obtain info where info: "en_info e = Some info" using assms(1) by (auto simp: entry_ok_def)
  obtain info' req' where "cache_estimate cfg m now info = (info', req')" by fastforce
  then show ?thesis using assms None info add [of cfg m "en_mutations e"]
    by (auto simp: apply_to_entry_def entry_ok_def add_mutations_def split: option.splits)
next
  case (Some err)
  obtain row1 ph where a: "ApplyUpdates_alone cfg clock m now row = (row1, ph)" by fastforce
  from alone_count [OF assms(2) a] obtain r where "in_row g row1 = in_row g row + int (f m)" "ph = Returned r" by blast
  then show ?thesis using assms Some
    by (auto simp: apply_to_entry_def a entry_ok_def no_mutations_def split: option.splits if_splits)
qed

end

interpretation total: counted all_results r_TotalAuditCount
  by unfold_locales
    (auto simp: updated_rest all_results_def newNode_def default_row_def no_mutations_def something_to_change_def add_mutations_def)

interpretation successes: counted PositiveResults r_AuditSuccessCount
  by unfold_locales
    (auto simp: updated_rest newNode_def default_row_def no_mutations_def something_to_change_def add_mutations_def)


text \<open>What is in the row of a node and in its entry.\<close>

definition held :: "(Mutations \<Rightarrow> nat) \<Rightarrow> (dbx_Reputation \<Rightarrow> int) \<Rightarrow> node_id \<Rightarrow> cache_state \<Rightarrow> int" where
  "held f g n s = in_row g (cs_rows s n) + int (pending f n (cs_cdb s))"

abbreviation put_entry :: "node_id \<Rightarrow> dbx_Reputation option \<Rightarrow> cache_entry \<Rightarrow> CachingDB \<Rightarrow> cache_state \<Rightarrow> cache_state" where
  "put_entry n row e cdb s \<equiv> \<lparr>cs_rows = (cs_rows s)(n := row), cs_cdb = set_entry e cdb\<rparr>"

text \<open>What \<open>getEntry\<close> does: the entry that is there, or a new one, is maybe synchronised.\<close>

definition entry_found :: "node_id \<Rightarrow> time \<Rightarrow> cache_state \<Rightarrow> CachingDB \<Rightarrow> cache_entry \<Rightarrow> bool" where
  "entry_found n now s cdb e \<longleftrightarrow> cdb_ok cdb \<and> cached n cdb = Some e \<and> entry_ok e \<and> en_nodeID e = n \<and>
     cd_config cdb = cd_config (cs_cdb s) \<and> (\<forall>n'. n' \<noteq> n \<longrightarrow> cached n' cdb = cached n' (cs_cdb s)) \<and>
     (cached n (cs_cdb s) = Some e \<or> cached n (cs_cdb s) = None \<and> e = new_entry (cs_cdb s) n now)"

lemma entry_found_new:
  "entry_found n now s cdb e \<Longrightarrow> cached n (cs_cdb s) = None \<Longrightarrow> en_mutations e = no_mutations \<and> en_syncError e = Some NotPopulated"
  unfolding entry_found_def new_entry_def by (metis cache_entry.select_convs(3,6) option.distinct(1))

definition maybe_synced ::
  "CachingDB \<Rightarrow> time \<Rightarrow> rep_error option \<Rightarrow> time \<Rightarrow> dbx_Reputation option \<Rightarrow> cache_entry \<Rightarrow> dbx_Reputation option \<Rightarrow> cache_entry \<Rightarrow> bool" where
  "maybe_synced cdb clock failure now row e row' e' \<longleftrightarrow>
     en_syncError e \<noteq> None \<and> syncEntry cdb clock failure now row e = (row', e') \<or> row' = row \<and> e' = e"

lemma getEntry_cases:
  assumes "cdb_ok (cs_cdb s)" "getEntry clock failure n now s = (s', e)"
  shows "\<exists>cdb e0 row. entry_found n now s cdb e0 \<and> s' = put_entry n row e cdb s \<and>
    maybe_synced cdb clock failure now (cs_rows s n) e0 row e"
proof -
  obtain cdb where cdb: "cdb = (if cached n (cs_cdb s) = None then insertNode n now (cs_cdb s) else cs_cdb s)" by blast
  obtain e0 where e0: "cached n cdb = Some e0"
    by (cases "cached n (cs_cdb s)") (auto simp: cdb cached_insertNode)
  have ok: "cdb_ok cdb" using assms(1) cdb by (auto simp: cdb_ok_insertNode)
  obtain row e1 where re: "(row, e1) = (if en_syncError e0 \<noteq> None \<and> en_errorRetryAt e0 < now
      then syncEntry cdb clock failure now (cs_rows s n) e0 else (cs_rows s n, e0))" by (metis surj_pair)
  have s': "s' = put_entry n row e1 cdb s" "e = e1"
    using assms(2) unfolding getEntry_def Let_def cdb [symmetric] e0 option.sel re [symmetric] prod.case by auto
  have "entry_found n now s cdb e0"
    using cdb_ok_cached [OF ok e0] ok e0 cdb by (auto simp: entry_found_def cached_insertNode split: if_splits)
  moreover have "maybe_synced cdb clock failure now (cs_rows s n) e0 row e1"
    using re by (auto simp: maybe_synced_def split: if_splits)
  ultimately show ?thesis unfolding s' by blast
qed

lemma Update_cases:
  assumes "CachingDB_Update clock f1 f2 n k cfg now s = (s', res, req)" "m = fst (UpdateRequestToMutations cfg k now)"
  shows "OnlineHistory m \<noteq> None \<and> (\<exists>s1 e row e' req. getEntry clock f1 n now s = (s1, e) \<and>
    apply_to_entry (cs_cdb s1) clock f2 m cfg now (cs_rows s1 n) e = (row, e', res, req) \<and>
    s' = put_entry n row e' (cs_cdb s1) s1)"
proof -
  have upd: "UpdateRequestToMutations cfg k now = (m, None)" "OnlineHistory m \<noteq> None"
    by (simp_all add: assms(2) UpdateRequestToMutations_def AddAudit_empty)
  then show ?thesis using assms(1)
    by (auto simp: CachingDB_Update_def CachingDB_ApplyUpdates_def split: prod.splits)
qed

context counted
begin

lemma held_put:
  assumes "cached n cdb \<noteq> None" "en_nodeID e = n" "\<And>n'. n' \<noteq> n \<Longrightarrow> cached n' cdb = cached n' (cs_cdb s)"
  shows "held f g n' (put_entry n row e cdb s) = (if n' = n then in_row g row + int (f (en_mutations e)) else held f g n' s)"
  using assms by (auto simp: held_def pending_def cached_set_entry)

lemma getEntry_count:
  assumes "cdb_ok (cs_cdb s)" "getEntry clock failure n now s = (s', e)"
  shows "cdb_ok (cs_cdb s') \<and> cached n (cs_cdb s') = Some e \<and> entry_ok e \<and> en_nodeID e = n \<and>
    cd_config (cs_cdb s') = cd_config (cs_cdb s) \<and> held f g n' s' = held f g n' s"
proof -
  obtain cdb e0 row where G: "entry_found n now s cdb e0" "s' = put_entry n row e cdb s"
      "maybe_synced cdb clock failure now (cs_rows s n) e0 row e"
    using getEntry_cases [OF assms] by blast
  have e0: "entry_ok e0" "en_nodeID e0 = n" "cdb_ok cdb" "cached n cdb = Some e0" "cd_config cdb = cd_config (cs_cdb s)"
    "\<And>n'. n' \<noteq> n \<Longrightarrow> cached n' cdb = cached n' (cs_cdb s)"
    using G(1) by (auto simp: entry_found_def)
  have same: "f (en_mutations e0) = pending f n (cs_cdb s)"
    using none(1) entry_found_new [OF G(1)] G(1) by (auto simp: pending_def entry_found_def)
  have e: "entry_ok e" "en_nodeID e = n" "in_row g row + int (f (en_mutations e)) = in_row g (cs_rows s n) + int (f (en_mutations e0))"
    using G(3) e0 sync_count [of e0 cdb clock failure now "cs_rows s n" row e] none(1)
    by (auto simp: entry_ok_def maybe_synced_def)
  show ?thesis
    using e e0 same held_put [of n cdb e s n' row] cdb_ok_set_entry [OF e0(3) e(1)] unfolding G(2)
    by (auto simp: cached_set_entry held_def)
qed

lemma Update_count:
  assumes "cdb_ok (cs_cdb s)" "CachingDB_Update clock f1 f2 n k cfg now s = (s', res, req)"
    and m: "m = fst (UpdateRequestToMutations cfg k now)"
  shows "cdb_ok (cs_cdb s') \<and> cd_config (cs_cdb s') = cd_config (cs_cdb s) \<and>
    held f g n' s' = held f g n' s + (if n' = n \<and> (\<exists>info. res = Updated info) then int (f m) else 0)"
proof -
  from Update_cases [OF assms(2) m] obtain s1 e row e' req' where upd: "OnlineHistory m \<noteq> None"
    and g1: "getEntry clock f1 n now s = (s1, e)"
    and a: "apply_to_entry (cs_cdb s1) clock f2 m cfg now (cs_rows s1 n) e = (row, e', res, req')"
    and s': "s' = put_entry n row e' (cs_cdb s1) s1" by blast
  note G = getEntry_count [OF assms(1) g1]
  note A = apply_count [OF _ upd a]
  have e: "entry_ok e" "cached n (cs_cdb s1) = Some e" "cdb_ok (cs_cdb s1)" "en_nodeID e = n"
    "cd_config (cs_cdb s1) = cd_config (cs_cdb s)" "held f g n' s1 = held f g n' s"
    and hn: "in_row g (cs_rows s1 n) + int (f (en_mutations e)) = held f g n s"
    using G [of n'] G [of n] by (auto simp: held_def pending_def)
  show ?thesis
    using A [OF e(1)] e hn held_put [of n "cs_cdb s1" e' s1 n' row] unfolding s'
    by (auto simp: cdb_ok_set_entry)
qed

lemma syncNode_count:
  assumes "cdb_ok (cs_cdb s)"
  shows "cdb_ok (cs_cdb (syncNode clock failure n now s)) \<and>
    cd_config (cs_cdb (syncNode clock failure n now s)) = cd_config (cs_cdb s) \<and>
    held f g n' (syncNode clock failure n now s) =
      held f g n' s - (if n' = n \<and> failure \<noteq> None then int (pending f n (cs_cdb s)) else 0)"
proof (cases "cached n (cs_cdb s)")
  case None
  then show ?thesis using assms by (simp add: syncNode_def pending_def)
next
  case (Some e)
  note e = cdb_ok_cached [OF assms Some]
  obtain row e' where sy: "syncEntry (cs_cdb s) clock failure now (cs_rows s n) e = (row, e')" by fastforce
  show ?thesis
    using sync_count [OF _ sy] e held_put [of n "cs_cdb s" e' s n' row] Some assms
    by (auto simp: syncNode_def sy held_def pending_def cdb_ok_set_entry split: if_splits)
qed

end

lemma tally_simps [simp]:
  "tally f n [] = 0" "tally f n ((n', m) # xs) = (if n' = n then f m else 0) + tally f n xs"
  "tally f n (xs @ ys) = tally f n xs + tally f n ys"
  by (simp_all add: tally_def)

lemma rescheduled_simps [simp]:
  "en_nodeID (rescheduled now cdb e) = en_nodeID e" "en_mutations (rescheduled now cdb e) = en_mutations e"
  "en_info (rescheduled now cdb e) = en_info e" "en_syncError (rescheduled now cdb e) = en_syncError e"
  "entry_ok (rescheduled now cdb e) = entry_ok e"
  by (simp_all add: rescheduled_def entry_ok_def)

lemma due_entries_cdb:
  assumes "due_entries now cdb = Some (cdb', ids)" "0 < cd_syncInterval cdb" "cdb_ok cdb"
  shows "cdb_ok cdb' \<and> cd_config cdb' = cd_config cdb \<and> cached n cdb' = map_option (rescheduled now cdb) (cached n cdb)"
proof -
  have c: "cdb' = cdb\<lparr>cd_pending := map (rescheduled now cdb) (cd_pending cdb)\<rparr>"
    using due_entries_total [of cdb now] assms by (auto simp: cdb_ok_def)
  have "find (\<lambda>e. en_nodeID e = n) (map (rescheduled now cdb) xs) = map_option (rescheduled now cdb) (find (\<lambda>e. en_nodeID e = n) xs)" for xs
    by (induction xs) auto
  then show ?thesis using assms(3) by (simp add: c cdb_ok_def cached_def comp_def)
qed

context counted
begin

lemma status_change_count: "status_change change \<Longrightarrow> in_row g (change row) = in_row g row"
  by (auto simp: status_change_def reputations_DisqualifyNode_def reputations_SuspendNodeUnknownAudit_def
    reputations_UnsuspendNodeUnknownAudit_def in_row_def row_or_default_def status fresh split: option.split)

lemma step_conserves:
  assumes "cache_step s s'" "cdb_ok (cs_cdb (run_state s))"
  shows "cdb_ok (cs_cdb (run_state s')) \<and>
    held f g n (run_state s') + tally f n (run_lost s') - tally f n (run_accepted s') - tally f n (run_others s') =
    held f g n (run_state s) + tally f n (run_lost s) - tally f n (run_accepted s) - tally f n (run_others s)"
  using assms(1)
proof cases
  case (audit_step clock f1 f2 n1 k now st res req m)
  show ?thesis using Update_count [OF assms(2) audit_step(2,4), of n] by (cases res) (simp_all add: audit_step(1))
next
  case (get_step clock f1 n1 now st info err)
  obtain e where "getEntry clock f1 n1 now (run_state s) = (st, e)"
    using get_step(2) by (auto simp: CachingDB_Get_def split: prod.splits)
  from getEntry_count [OF assms(2) this, of n] show ?thesis by (simp add: get_step(1))
next
  case (sync_step lost n1 f1 clock now)
  show ?thesis using syncNode_count [OF assms(2), of clock f1 n1 now n]
    by (auto simp: sync_step(1,2) pending_def split: option.splits)
next
  case (due_step now cdb ids)
  show ?thesis using due_entries_cdb [OF due_step(2,3) assms(2), of n]
    by (auto simp: due_step(1) held_def pending_def split: option.splits)
next
  case (other_step clock m now n1 row phase)
  show ?thesis using alone_count [OF other_step(3,2)] assms(2) by (auto simp: other_step(1) held_def)
next
  case (status_step change n1)
  show ?thesis using status_change_count [OF status_step(2)] assms(2) by (auto simp: status_step(1) held_def)
qed

lemma reachable_conserves:
  assumes "cache_reachable rows cdb s"
  shows "cdb_ok (cs_cdb (run_state s)) \<and>
    held f g n (run_state s) + tally f n (run_lost s) - tally f n (run_accepted s) - tally f n (run_others s) = in_row g (rows n)"
  using assms
proof induction
  case cache_begin
  then show ?case by (simp add: cache_start_def cdb_ok_def held_def pending_def cached_def)
next
  case (cache_next s s')
  then show ?case using step_conserves [of s s' n] by simp
qed

end

lemma reachable_cdb_ok: "cache_reachable rows cdb s \<Longrightarrow> cdb_ok (cs_cdb (run_state s))"
  by (rule conjunct1 [OF total.reachable_conserves])

text \<open>
  Property C5. Whatever callers, synchronisations and other processes do in which order, no result that
  the cache has accepted is forgotten or counted twice, except by a synchronisation that fails: for each
  node, the audits counted in the table and those waiting in its entry are together those that were
  in the table at first, those accepted since and those that other processes applied, less those that
  waited when a synchronisation failed. The same holds of the successful audits.
\<close>

theorem cache_conserves_results:
  assumes "cache_reachable rows cdb s"
  shows "in_row r_TotalAuditCount (cs_rows (run_state s) n) + pending all_results n (cs_cdb (run_state s)) +
      tally all_results n (run_lost s) =
    in_row r_TotalAuditCount (rows n) + tally all_results n (run_accepted s) + tally all_results n (run_others s) \<and>
    in_row r_AuditSuccessCount (cs_rows (run_state s) n) + pending PositiveResults n (cs_cdb (run_state s)) +
      tally PositiveResults n (run_lost s) =
    in_row r_AuditSuccessCount (rows n) + tally PositiveResults n (run_accepted s) + tally PositiveResults n (run_others s)"
  using total.reachable_conserves [OF assms, of n] successes.reachable_conserves [OF assms, of n] by (simp_all add: held_def)

end
