(* ===== verification/WriteCacheProps.thy ===== *)
theory WriteCacheProps
  imports WriteCache
begin

text \<open>
  What the estimates of the cache in front of the reputations table promise: as long as no other process
  writes the row, the estimated audit score is never above the one that the table will have, which is
  not the same as being fair to the node.
\<close>

subsection \<open>The estimate is on the safe side\<close>

definition scores_pos :: "dbx_Reputation \<Rightarrow> bool" where
  "scores_pos r \<longleftrightarrow> 0 \<le> r_AuditReputationAlpha r \<and> 0 \<le> r_AuditReputationBeta r \<and>
     0 < r_AuditReputationAlpha r + r_AuditReputationBeta r"

text \<open>The estimated score is that of the row with the waiting results one by one, in the order they came.\<close>

definition estimates :: "rep_Config \<Rightarrow> dbx_Reputation option \<Rightarrow> cache_entry \<Rightarrow> bool" where
  "estimates cfg row e \<longleftrightarrow> (en_syncError e = None \<longrightarrow> (\<exists>r i xs. row = Some r \<and> en_info e = Some i \<and>
     (in_AuditReputationAlpha i, in_AuditReputationBeta i) =
       audits_in_order (AuditLambda cfg) (AuditWeight cfg) xs (r_AuditReputationAlpha r, r_AuditReputationBeta r) \<and>
     PositiveResults (en_mutations e) = how_many True xs \<and> FailureResults (en_mutations e) = how_many False xs))"

definition rep_config_ok :: "rep_Config \<Rightarrow> bool" where
  "rep_config_ok cfg \<longleftrightarrow> 0 < AuditLambda cfg \<and> AuditLambda cfg \<le> 1 \<and> 0 \<le> AuditWeight cfg \<and> 0 \<le> InitialAlpha cfg \<and>
     0 \<le> InitialBeta cfg \<and> 0 < InitialAlpha cfg + InitialBeta cfg"

lemma failures_first_pos:
  assumes "0 < l" "0 \<le> w" "0 \<le> a" "0 \<le> b" "0 < a + b" "failures_first l w m n a b = (a', b')"
  shows "0 \<le> a' \<and> 0 \<le> b' \<and> 0 < a' + b'"
proof -
  have "0 < l ^ (m + n) * (a + b)" using assms by simp
  moreover have "0 \<le> w * powers l n" "0 \<le> w * (l ^ n * powers l m)" using assms powers_nonneg [of l] by simp_all
  ultimately show ?thesis using assms by (auto simp: failures_first_powers distrib_left)
qed

lemma updated_pos:
  assumes "rep_config_ok cfg" "scores_pos r"
  shows "scores_pos (updated_row cfg clock m now r)"
  using failures_first_pos [OF _ _ _ _ _ updated_scores(1) [symmetric]] assms by (auto simp: scores_pos_def rep_config_ok_def)

lemma new_pos: "rep_config_ok cfg \<Longrightarrow> scores_pos (newNode cfg)" "scores_pos default_row"
  by (auto simp: scores_pos_def rep_config_ok_def newNode_def default_row_def)

lemma base_estimate_scores:
  assumes "base_estimate cfg m now info = (info', full, vetted)"
  shows "(in_AuditReputationAlpha info', in_AuditReputationBeta info') =
    failures_first (AuditLambda cfg) (AuditWeight cfg) (FailureResults m) (PositiveResults m)
      (in_AuditReputationAlpha info) (in_AuditReputationBeta info)"
  using assms by (auto simp: base_estimate_def failures_first_def Let_def split: prod.splits option.splits)

lemma cache_estimate_scores:
  assumes "cache_estimate cfg m now info = (info', req)"
  shows "(in_AuditReputationAlpha info', in_AuditReputationBeta info') =
    failures_first (AuditLambda cfg) (AuditWeight cfg) (FailureResults m) (PositiveResults m)
      (in_AuditReputationAlpha info) (in_AuditReputationBeta info)"
proof -
  obtain i1 full vetted where b: "base_estimate cfg m now info = (i1, full, vetted)" by (metis prod_cases3)
  have online: "in_AuditReputationAlpha (estimate_online_score cfg full now i) = in_AuditReputationAlpha i"
      "in_AuditReputationBeta (estimate_online_score cfg full now i) = in_AuditReputationBeta i" for i
    by (simp_all add: estimate_online_score_def Let_def split: option.split)
  have unknown: "in_AuditReputationAlpha (estimate_unknown_score cfg now i) = in_AuditReputationAlpha i"
      "in_AuditReputationBeta (estimate_unknown_score cfg now i) = in_AuditReputationBeta i" for i
    by (simp_all add: estimate_unknown_score_def Let_def)
  have audit: "in_AuditReputationAlpha (fst (estimate_audit_score cfg now i)) = in_AuditReputationAlpha i"
      "in_AuditReputationBeta (fst (estimate_audit_score cfg now i)) = in_AuditReputationBeta i" for i
    by (simp_all add: estimate_audit_score_def)
  show ?thesis using assms base_estimate_scores [OF b] audit [of i1]
    by (auto simp: cache_estimate_def b online unknown split: prod.splits)
qed

lemma single_scores:
  "failures_first l w (FailureResults (fst (UpdateRequestToMutations cfg k now))) (PositiveResults (fst (UpdateRequestToMutations cfg k now))) a b =
    audits_in_order l w (if k = AuditSuccess then [True] else if k = AuditFailure then [False] else []) (a, b)"
  by (cases k) (simp_all add: single_counts failures_first_powers audits_in_order_def UpdateReputation_one)

lemma audits_in_order_append: "audits_in_order l w (xs @ ys) ab = audits_in_order l w ys (audits_in_order l w xs ab)"
  by (simp add: audits_in_order_def)

lemma alone_row:
  assumes "rep_config_ok cfg" "OnlineHistory m \<noteq> None" "pred_option scores_pos row"
    and "ApplyUpdates_alone cfg clock m now row = (row', phase)"
  shows "\<exists>r. row' = Some r \<and> phase = Returned r \<and> scores_pos r"
  using assms updated_pos [OF assms(1)] new_pos(1) [OF assms(1)]
  by (auto simp: ApplyUpdates_alone_result Let_def split: option.splits if_splits)

lemma estimates_fresh:
  "en_info e = Some (dbxToReputationInfo r) \<Longrightarrow> PositiveResults (en_mutations e) = 0 \<Longrightarrow> FailureResults (en_mutations e) = 0 \<Longrightarrow>
    estimates cfg (Some r) e"
  by (auto simp: estimates_def dbxToReputationInfo_def audits_in_order_def intro!: exI [of _ "[]"])

lemma sync_estimates:
  assumes "rep_config_ok (cd_config cdb)" "entry_ok e" "pred_option scores_pos row"
    and "syncEntry cdb clock failure now row e = (row', e')"
  shows "pred_option scores_pos row' \<and> estimates (cd_config cdb) row' e'"
proof (cases failure)
  case None
  have h: "OnlineHistory (en_mutations e) \<noteq> None" using assms(2) by (simp add: entry_ok_def)
  obtain row1 phase where a: "ApplyUpdates_alone (cd_config cdb) clock (en_mutations e) now row = (row1, phase)" by fastforce
  obtain r where r: "row1 = Some r" "phase = Returned r" "scores_pos r" using alone_row [OF assms(1) h assms(3) a] by blast
  then show ?thesis using assms(4) None a estimates_fresh [of e' r "cd_config cdb"]
    by (auto simp: syncEntry_def Let_def no_mutations_def)
next
  case (Some err)
  then show ?thesis using assms(3,4) by (auto simp: syncEntry_def estimates_def Let_def)
qed

lemma apply_estimates:
  assumes "rep_config_ok cfg" "entry_ok e" "pred_option scores_pos row" "estimates cfg row e"
    and "apply_to_entry cdb clock failure (fst (UpdateRequestToMutations cfg k now)) cfg now row e = (row', e', res, req)"
  shows "pred_option scores_pos row' \<and> estimates cfg row' e'"
proof (cases "en_syncError e")
  case None
  let ?m = "fst (UpdateRequestToMutations cfg k now)" and ?x = "if k = AuditSuccess then [True] else if k = AuditFailure then [False] else []"
  obtain r i xs where e: "row = Some r" "en_info e = Some i"
      "(in_AuditReputationAlpha i, in_AuditReputationBeta i) =
         audits_in_order (AuditLambda cfg) (AuditWeight cfg) xs (r_AuditReputationAlpha r, r_AuditReputationBeta r)"
      "PositiveResults (en_mutations e) = how_many True xs" "FailureResults (en_mutations e) = how_many False xs"
    using assms(4) None unfolding estimates_def by blast
  obtain i' req' where c: "cache_estimate cfg ?m now i = (i', req')" by fastforce
  have "(in_AuditReputationAlpha i', in_AuditReputationBeta i') =
      audits_in_order (AuditLambda cfg) (AuditWeight cfg) (xs @ ?x) (r_AuditReputationAlpha r, r_AuditReputationBeta r)"
    unfolding cache_estimate_scores [OF c] single_scores audits_in_order_append e(3) ..
  then show ?thesis using assms(3,5) None e c
    by (auto simp: apply_to_entry_def estimates_def add_mutations_def single_counts intro!: exI [of _ "xs @ ?x"])
next
  case (Some err)
  have m: "OnlineHistory (fst (UpdateRequestToMutations cfg k now)) \<noteq> None"
    by (simp add: UpdateRequestToMutations_def AddAudit_empty)
  obtain row1 phase where a: "ApplyUpdates_alone cfg clock (fst (UpdateRequestToMutations cfg k now)) now row = (row1, phase)" by fastforce
  obtain r where r: "row1 = Some r" "phase = Returned r" "scores_pos r" using alone_row [OF assms(1) m assms(3) a] by blast
  have none: "en_mutations e = no_mutations" using assms(2) Some by (simp add: entry_ok_def)
  then show ?thesis using assms(3,5) Some a r
    by (auto simp: apply_to_entry_def estimates_def no_mutations_def dbxToReputationInfo_def audits_in_order_def
      intro!: exI [of _ "[]"] split: option.splits if_splits)
qed

lemma apply_pos:
  assumes "rep_config_ok cfg" "pred_option scores_pos row"
    and "apply_to_entry cdb clock failure (fst (UpdateRequestToMutations cfg k now)) cfg now row e = (row', e', res, req)"
  shows "pred_option scores_pos row'"
proof -
  obtain row1 phase where a: "ApplyUpdates_alone cfg clock (fst (UpdateRequestToMutations cfg k now)) now row = (row1, phase)" by fastforce
  have "OnlineHistory (fst (UpdateRequestToMutations cfg k now)) \<noteq> None"
    by (simp add: UpdateRequestToMutations_def AddAudit_empty)
  from alone_row [OF assms(1) this assms(2) a] show ?thesis
    using assms(2,3) a by (auto simp: apply_to_entry_def split: option.splits prod.splits if_splits)
qed

text \<open>The estimates of all nodes but those in \<open>X\<close>, the ones whose rows other processes change.\<close>

definition estimates_inv :: "rep_Config \<Rightarrow> node_id set \<Rightarrow> cache_state \<Rightarrow> bool" where
  "estimates_inv cfg X s \<longleftrightarrow> cdb_ok (cs_cdb s) \<and> cd_config (cs_cdb s) = cfg \<and>
     (\<forall>n. pred_option scores_pos (cs_rows s n) \<and>
       (n \<notin> X \<longrightarrow> (\<forall>e. cached n (cs_cdb s) = Some e \<longrightarrow> estimates cfg (cs_rows s n) e)))"

lemma estimates_put:
  assumes "estimates_inv cfg X s" "cdb_ok cdb" "cd_config cdb = cfg" "cached n cdb \<noteq> None" "en_nodeID e = n" "entry_ok e"
    and "\<And>n'. n' \<noteq> n \<Longrightarrow> cached n' cdb = cached n' (cs_cdb s)"
    and "pred_option scores_pos row" "n \<notin> X \<Longrightarrow> estimates cfg row e"
  shows "estimates_inv cfg X (put_entry n row e cdb s)"
  using assms by (auto simp: estimates_inv_def cdb_ok_set_entry cached_set_entry)

lemma getEntry_estimates:
  assumes "rep_config_ok cfg" "estimates_inv cfg X s" "getEntry clock failure n now s = (s', e)"
  shows "estimates_inv cfg X s' \<and> cached n (cs_cdb s') = Some e \<and> entry_ok e \<and> en_nodeID e = n"
proof -
  have ok: "cdb_ok (cs_cdb s)" "cd_config (cs_cdb s) = cfg" using assms(2) by (simp_all add: estimates_inv_def)
  obtain cdb e0 row where G: "entry_found n now s cdb e0" "s' = put_entry n row e cdb s"
      "maybe_synced cdb clock failure now (cs_rows s n) e0 row e"
    using getEntry_cases [OF ok(1) assms(3)] by blast
  note count = total.getEntry_count [OF ok(1) assms(3), of n]
  have e0: "entry_ok e0" "cdb_ok cdb" "cached n cdb = Some e0" "cd_config cdb = cfg"
    "\<And>n'. n' \<noteq> n \<Longrightarrow> cached n' cdb = cached n' (cs_cdb s)"
    using G(1) ok by (auto simp: entry_found_def)
  have pos: "pred_option scores_pos (cs_rows s n)" using assms(2) by (simp add: estimates_inv_def)
  have old: "estimates cfg (cs_rows s n) e0" if "n \<notin> X"
  proof (cases "cached n (cs_cdb s)")
    case None then show ?thesis using entry_found_new [OF G(1)] by (simp add: estimates_def)
  next
    case (Some e1) then show ?thesis using G(1) assms(2) that by (auto simp: entry_found_def estimates_inv_def)
  qed
  have "pred_option scores_pos row" "n \<notin> X \<Longrightarrow> estimates cfg row e"
    using G(3) old pos sync_estimates [of cdb e0 "cs_rows s n" clock failure now row e] assms(1) e0
    by (auto simp: maybe_synced_def)
  then show ?thesis using estimates_put [OF assms(2) e0(2,4), of n e row] e0 count unfolding G(2) by auto
qed

lemma step_estimates:
  assumes "cache_step s s'" "rep_config_ok cfg" "estimates_inv cfg X (run_state s)"
    and "\<forall>n m. run_others s' = (n, m) # run_others s \<longrightarrow> n \<in> X"
  shows "estimates_inv cfg X (run_state s')"
  using assms(1)
proof cases
  case (audit_step clock f1 f2 n k now st res req m)
  note inv = assms(3)
  then have cfg: "cd_config (cs_cdb (run_state s)) = cfg" by (simp add: estimates_inv_def)
  obtain s1 e row e' req' where g: "getEntry clock f1 n now (run_state s) = (s1, e)" and h: "OnlineHistory m \<noteq> None"
    and a: "apply_to_entry (cs_cdb s1) clock f2 m cfg now (cs_rows s1 n) e = (row, e', res, req')"
    and st: "st = put_entry n row e' (cs_cdb s1) s1"
    using Update_cases [OF audit_step(2,4)] unfolding cfg by blast
  note G = getEntry_estimates [OF assms(2) inv g]
  have pos: "pred_option scores_pos (cs_rows s1 n)" using G by (simp add: estimates_inv_def)
  have "pred_option scores_pos row" by (rule apply_pos [OF assms(2) pos a [unfolded audit_step(4) cfg]])
  moreover have "estimates cfg row e'" if "n \<notin> X"
    using apply_estimates [OF assms(2) _ pos _ a [unfolded audit_step(4) cfg]] G that by (simp add: estimates_inv_def)
  moreover have "entry_ok e' \<and> en_nodeID e' = n" using total.apply_count [OF _ h a] G by simp
  ultimately show ?thesis
    using G estimates_put [of cfg X s1 "cs_cdb s1" n e' row] by (auto simp: audit_step(1) st estimates_inv_def)
next
  case (get_step clock f1 n1 now st info err)
  obtain e where "getEntry clock f1 n1 now (run_state s) = (st, e)"
    using get_step(2) by (auto simp: CachingDB_Get_def split: prod.splits)
  then show ?thesis using getEntry_estimates [OF assms(2,3)] by (simp add: get_step(1))
next
  case (sync_step lost n1 f1 clock now)
  note inv = assms(3)
  show ?thesis
  proof (cases "cached n1 (cs_cdb (run_state s))")
    case (Some e)
    have ok: "cdb_ok (cs_cdb (run_state s))" using inv by (simp add: estimates_inv_def)
    note e = cdb_ok_cached [OF ok Some]
    obtain row e' where sy: "syncEntry (cs_cdb (run_state s)) clock f1 now (cs_rows (run_state s) n1) e = (row, e')" by fastforce
    show ?thesis
      using estimates_put [OF inv ok, of n1 e' row] total.sync_count [OF _ sy] e Some inv
        sync_estimates [OF _ _ _ sy] assms(2)
      by (auto simp: sync_step(1) syncNode_def sy estimates_inv_def)
  qed (use inv in \<open>simp add: sync_step(1) syncNode_def\<close>)
next
  case (due_step now cdb ids)
  note inv = assms(3)
  then have "cdb_ok (cs_cdb (run_state s))" by (simp add: estimates_inv_def)
  from due_entries_cdb [OF due_step(2,3) this] show ?thesis
    using inv by (auto simp: due_step(1) estimates_inv_def estimates_def)
next
  case (other_step clock m now n1 row phase)
  then have "n1 \<in> X" using assms(4) by simp
  moreover have "pred_option scores_pos row"
    using alone_row [of cfg m "cs_rows (run_state s) n1" clock now row phase] assms(2,3) other_step(2,3) by (auto simp: estimates_inv_def)
  ultimately show ?thesis using assms(3) by (auto simp: other_step(1) estimates_inv_def)
next
  case (status_step change n1)
  note inv = assms(3)
  have "pred_option scores_pos row \<Longrightarrow> pred_option scores_pos (change row)" for row
    using status_step(2) new_pos(2)
    by (auto simp: status_change_def reputations_DisqualifyNode_def reputations_SuspendNodeUnknownAudit_def
      reputations_UnsuspendNodeUnknownAudit_def row_or_default_def scores_pos_def split: option.splits)
  moreover have "estimates cfg row e \<Longrightarrow> estimates cfg (change row) e" for row e
    using status_step(2)
    by (auto simp: status_change_def reputations_DisqualifyNode_def reputations_SuspendNodeUnknownAudit_def
      reputations_UnsuspendNodeUnknownAudit_def row_or_default_def estimates_def split: option.splits)
  ultimately show ?thesis using inv by (simp add: status_step(1) estimates_inv_def)
qed

lemma reachable_estimates:
  assumes "cache_reachable rows cdb s" "rep_config_ok (cd_config cdb)" "\<forall>n. pred_option scores_pos (rows n)"
  shows "estimates_inv (cd_config cdb) UNIV (run_state s)"
  using assms(1)
proof induction
  case cache_begin
  then show ?case using assms(3) by (auto simp: cache_start_def estimates_inv_def cdb_ok_def cached_def)
next
  case (cache_next s s')
  then show ?case using step_estimates [of s s' "cd_config cdb" UNIV] assms(2) by blast
qed

text \<open>The entry of a node is up to date when it was just synchronised, or when it is not there yet.\<close>

definition up_to_date :: "node_id \<Rightarrow> cache_state \<Rightarrow> bool" where
  "up_to_date n s \<longleftrightarrow> (case cached n (cs_cdb s) of
     None \<Rightarrow> True
   | Some e \<Rightarrow> en_mutations e = no_mutations \<and> en_info e = map_option dbxToReputationInfo (cs_rows s n) \<and> cs_rows s n \<noteq> None)"

lemma synced_up_to_date:
  assumes "cdb_ok (cs_cdb s)"
  shows "up_to_date n (syncNode clock None n now s)"
proof (cases "cached n (cs_cdb s)")
  case (Some e)
  note e = cdb_ok_cached [OF assms Some]
  have h: "OnlineHistory (en_mutations e) \<noteq> None" using e by (simp add: entry_ok_def)
  obtain row phase where a: "ApplyUpdates_alone (cd_config (cs_cdb s)) clock (en_mutations e) now (cs_rows s n) = (row, phase)" by fastforce
  have "\<exists>r. row = Some r \<and> phase = Returned r"
    using a h by (auto simp: ApplyUpdates_alone_result Let_def split: option.splits if_splits)
  then show ?thesis using Some a e
    by (auto simp: up_to_date_def syncNode_def syncEntry_def cached_set_entry Let_def)
qed (simp add: up_to_date_def syncNode_def)

text \<open>A step in which no other process writes the row of a node.\<close>

definition step_alone :: "node_id \<Rightarrow> cache_run \<Rightarrow> cache_run \<Rightarrow> bool" where
  "step_alone n s s' \<longleftrightarrow> cache_step s s' \<and> (\<forall>m. run_others s' \<noteq> (n, m) # run_others s)"

lemma alone_estimates:
  assumes "cache_reachable rows cdb s0" "rep_config_ok (cd_config cdb)" "\<forall>n. pred_option scores_pos (rows n)"
    and "up_to_date n (run_state s0)" "(step_alone n)\<^sup>*\<^sup>* s0 s"
  shows "estimates_inv (cd_config cdb) (UNIV - {n}) (run_state s)"
  using assms(5)
proof (induction rule: rtranclp_induct)
  case base
  have "estimates (cd_config cdb) (cs_rows (run_state s0) n) e" if "cached n (cs_cdb (run_state s0)) = Some e" for e
    using assms(4) that estimates_fresh [of e _ "cd_config cdb"] by (auto simp: up_to_date_def no_mutations_def)
  then show ?case using reachable_estimates [OF assms(1-3)] by (auto simp: estimates_inv_def)
next
  case (step s s')
  then show ?case
    using step_estimates [of s s' "cd_config cdb" "UNIV - {n}"] assms(2) by (auto simp: step_alone_def)
qed

lemma how_many_none: "how_many True xs = 0 \<Longrightarrow> how_many False xs = 0 \<Longrightarrow> xs = []"
  using how_many_length [of xs] by simp

lemma something_from_scores:
  assumes "\<not> something_to_change m"
  shows "failures_first l w (FailureResults m) (PositiveResults m) a b = (a, b)"
  using assms by (simp add: something_to_change_def failures_first_powers)

lemma synced_scores:
  assumes "OnlineHistory m \<noteq> None" "ApplyUpdates_alone cfg clock m now (Some r) = (row', phase)"
  shows "\<exists>r'. row' = Some r' \<and> (r_AuditReputationAlpha r', r_AuditReputationBeta r') =
    failures_first (AuditLambda cfg) (AuditWeight cfg) (FailureResults m) (PositiveResults m)
      (r_AuditReputationAlpha r) (r_AuditReputationBeta r)"
  using assms updated_scores(1) something_from_scores
  by (cases "something_to_change m") (auto simp: ApplyUpdates_alone_result Let_def)

text \<open>
  Property C16. As long as no other process writes the row of a node since the cache read or last
  synchronised it, the estimate that the cache gives out is on the safe side: when the entry is
  synchronised, the audit score in the table is at least the estimated one. So a node that the estimate
  does not place at or below the limit is not disqualified for failed audits by the synchronisation. What
  other processes do to other rows, and did to this one before, does not matter; an update of the same
  row by the cache of another process in between does.
\<close>

theorem estimate_conservative:
  assumes "cache_reachable rows cdb s0" "rep_config_ok (cd_config cdb)" "\<forall>n. pred_option scores_pos (rows n)"
    and "up_to_date n (run_state s0)" "(step_alone n)\<^sup>*\<^sup>* s0 s"
    and "cached n (cs_cdb (run_state s)) = Some e" "en_syncError e = None"
  shows "\<exists>info r r'. en_info e = Some info \<and> cs_rows (run_state s) n = Some r \<and>
    cs_rows (syncNode clock None n now (run_state s)) n = Some r' \<and>
    score (in_AuditReputationAlpha info) (in_AuditReputationBeta info) \<le> score (r_AuditReputationAlpha r') (r_AuditReputationBeta r') \<and>
    (score (in_AuditReputationAlpha info) (in_AuditReputationBeta info) > AuditDQ (cd_config cdb) \<longrightarrow>
       \<not> audit_ground (cd_config cdb) (en_mutations e) r)"
proof -
  let ?cfg = "cd_config cdb" and ?m = "en_mutations e"
  let ?l = "AuditLambda ?cfg" and ?w = "AuditWeight ?cfg"
  have inv: "estimates_inv ?cfg (UNIV - {n}) (run_state s)" by (rule alone_estimates [OF assms(1-5)])
  then have ok: "cdb_ok (cs_cdb (run_state s))" and cfg: "cd_config (cs_cdb (run_state s)) = ?cfg" by (simp_all add: estimates_inv_def)
  note e = cdb_ok_cached [OF ok assms(6)]
  have "estimates ?cfg (cs_rows (run_state s) n) e" "pred_option scores_pos (cs_rows (run_state s) n)"
    using inv assms(6) by (simp_all add: estimates_inv_def)
  then obtain r i xs where row: "cs_rows (run_state s) n = Some r" and info: "en_info e = Some i" and pos: "scores_pos r"
    and i: "(in_AuditReputationAlpha i, in_AuditReputationBeta i) = audits_in_order ?l ?w xs (r_AuditReputationAlpha r, r_AuditReputationBeta r)"
    and m: "PositiveResults ?m = how_many True xs" "FailureResults ?m = how_many False xs"
    using assms(7) unfolding estimates_def by auto
  have h: "OnlineHistory ?m \<noteq> None" using e by (simp add: entry_ok_def)
  obtain row' phase where a: "ApplyUpdates_alone ?cfg clock ?m now (Some r) = (row', phase)" by fastforce
  from synced_scores [OF h a] obtain r' where r': "row' = Some r'"
    and s': "(r_AuditReputationAlpha r', r_AuditReputationBeta r') =
      failures_first ?l ?w (FailureResults ?m) (PositiveResults ?m) (r_AuditReputationAlpha r) (r_AuditReputationBeta r)" by blast
  have conf: "0 < ?l" "?l \<le> 1" "0 \<le> ?w" using assms(2) by (simp_all add: rep_config_ok_def)
  have rpos: "0 \<le> r_AuditReputationAlpha r" "0 \<le> r_AuditReputationBeta r" "0 < r_AuditReputationAlpha r + r_AuditReputationBeta r"
    using pos by (simp_all add: scores_pos_def)
  have "in_AuditReputationAlpha i \<le> r_AuditReputationAlpha r' \<and> r_AuditReputationBeta r' \<le> in_AuditReputationBeta i"
    using failures_first_best [OF less_imp_le [OF conf(1)] conf(2,3), of xs "r_AuditReputationAlpha r" "r_AuditReputationBeta r"]
    unfolding i [symmetric] m [symmetric] s' [symmetric] by simp
  moreover have "0 \<le> in_AuditReputationAlpha i" "0 < in_AuditReputationAlpha i + in_AuditReputationBeta i"
    using in_order_nonneg [OF less_imp_le [OF conf(1)] conf(3) rpos(1,2), of xs] in_order_positive [OF conf(1,3) rpos(3), of xs]
    unfolding i [symmetric] by simp_all
  moreover have "0 \<le> r_AuditReputationBeta r' \<and> 0 < r_AuditReputationAlpha r' + r_AuditReputationBeta r'"
    using failures_first_pos [OF conf(1,3) rpos s' [symmetric]] by simp
  ultimately have le: "score (in_AuditReputationAlpha i) (in_AuditReputationBeta i) \<le> score (r_AuditReputationAlpha r') (r_AuditReputationBeta r')"
    unfolding score_def by (intro score_mono) auto
  have "cs_rows (syncNode clock None n now (run_state s)) n = Some r'"
    using assms(6) a r' row by (auto simp: syncNode_def syncEntry_def cfg Let_def split: phase.splits)
  moreover have "score (r_AuditReputationAlpha r') (r_AuditReputationBeta r') \<le> AuditDQ ?cfg" if "audit_ground ?cfg ?m r"
    using that unfolding audit_ground_def s' [symmetric] by simp
  ultimately show ?thesis using le row info by force
qed

subsection \<open>A disqualification that the table does not know\<close>

definition early_config :: rep_Config where
  "early_config = ex_rep_config\<lparr>AuditDQ := 3 / 5\<rparr>"

definition early_cdb :: CachingDB where
  "early_cdb = \<lparr>cd_instanceOffset = 0, cd_syncInterval = 1000, cd_errorRetryInterval = 10, cd_config = early_config, cd_pending = []\<rparr>"

definition early_start :: cache_run where
  "early_start = cache_start (\<lambda>_. None) early_cdb"

definition early_success :: cache_run where
  "early_success = early_start\<lparr>
     run_state := fst (CachingDB_Update 10 None None 5 AuditSuccess early_config 10 (run_state early_start)),
     run_accepted := [(5, fst (UpdateRequestToMutations early_config AuditSuccess 10))]\<rparr>"

lemma early_reachable_start: "cache_reachable (\<lambda>_. None) early_cdb early_start"
  unfolding early_start_def by (rule cache_begin)

lemma early_step: "cache_step early_start early_success"
proof -
  have c: "cd_config (cs_cdb (run_state early_start)) = early_config" by code_simp
  obtain st res req where u: "CachingDB_Update 10 None None 5 AuditSuccess early_config 10 (run_state early_start) = (st, res, req)"
    by (metis prod_cases3)
  have "(case fst (snd (CachingDB_Update 10 None None 5 AuditSuccess early_config 10 (run_state early_start))) of Updated _ \<Rightarrow> True | _ \<Rightarrow> False)"
    by code_simp
  then have r: "\<exists>info. res = Updated info" unfolding u by (cases res) simp_all
  show ?thesis
    using audit_step [OF u [folded c] _ refl] r u unfolding early_success_def c by (simp add: early_start_def cache_start_def)
qed

lemma early_reachable: "cache_reachable (\<lambda>_. None) early_cdb early_success"
  using cache_next [OF early_reachable_start early_step] .

text \<open>
  Lemma. The safe side is not always the fair one: after an accepted success and an accepted
  failure, without any failing call or other process, the cache reports to the caller that the node
  is disqualified for failed audits, and asks for a synchronisation; that applies the failure before the
  success, and the node is not disqualified in the table, its score being above the limit.
\<close>

theorem estimate_disqualifies_early:
  "\<exists>s st info r. cache_reachable (\<lambda>_. None) early_cdb s \<and>
    CachingDB_Update 20 None None 5 AuditFailure early_config 20 (run_state s) = (st, Updated info, True) \<and>
    in_Disqualified info = Some 20 \<and> in_DisqualificationReason info = DisqualificationReasonAuditFailure \<and>
    cs_rows (syncNode 21 None 5 21 st) 5 = Some r \<and> r_Disqualified r = None \<and> r_TotalAuditCount r = 2 \<and>
    score (r_AuditReputationAlpha r) (r_AuditReputationBeta r) > AuditDQ early_config"
proof -
  let ?u = "CachingDB_Update 20 None None 5 AuditFailure early_config 20 (run_state early_success)"
  obtain st res req where u: "?u = (st, res, req)" by (metis prod_cases3)
  have "(case ?u of (st, Updated info, req) \<Rightarrow> req \<and> in_Disqualified info = Some 20 \<and>
        in_DisqualificationReason info = DisqualificationReasonAuditFailure \<and>
        (case cs_rows (syncNode 21 None 5 21 st) 5 of Some r \<Rightarrow> r_Disqualified r = None \<and> r_TotalAuditCount r = 2 \<and>
           score (r_AuditReputationAlpha r) (r_AuditReputationBeta r) > AuditDQ early_config | None \<Rightarrow> False)
      | _ \<Rightarrow> False)"
    by code_simp
  then show ?thesis using early_reachable u by (auto split: update_result.splits option.splits)
qed

subsection \<open>Witnesses\<close>

lemma cache_conserves_results_witness:
  "in_row r_TotalAuditCount (cs_rows (run_state early_success) 5) + pending all_results 5 (cs_cdb (run_state early_success)) = 1"
proof -
  have "run_lost early_success = []" "run_others early_success = []"
    "tally all_results 5 (run_accepted early_success) = 1" by code_simp+
  then show ?thesis using cache_conserves_results [OF early_reachable, of 5] by (simp add: in_row_def)
qed

lemma estimate_conservative_witness:
  "\<exists>e info r'. cached 5 (cs_cdb (run_state early_success)) = Some e \<and> en_info e = Some info \<and>
    cs_rows (syncNode 21 None 5 21 (run_state early_success)) 5 = Some r' \<and>
    score (in_AuditReputationAlpha info) (in_AuditReputationBeta info) \<le> score (r_AuditReputationAlpha r') (r_AuditReputationBeta r')"
proof -
  have c: "(case cached 5 (cs_cdb (run_state early_success)) of None \<Rightarrow> False | Some e \<Rightarrow> en_syncError e = None)" by code_simp
  then obtain e where e: "cached 5 (cs_cdb (run_state early_success)) = Some e" "en_syncError e = None"
    by (auto split: option.splits)
  have "rep_config_ok (cd_config early_cdb)" by code_simp
  moreover have "up_to_date 5 (run_state early_start)" by (simp add: up_to_date_def early_start_def cache_start_def cached_def)
  moreover have "(step_alone 5)\<^sup>*\<^sup>* early_start early_success"
    using early_step by (intro r_into_rtranclp) (simp add: step_alone_def early_success_def early_start_def cache_start_def)
  moreover have "\<forall>n. pred_option scores_pos ((\<lambda>_. None) n)" by simp
  ultimately show ?thesis
    using estimate_conservative [OF early_reachable_start, of 5 early_success e 21 21] e by blast
qed

lemma due_entries_terminate_witness:
  "\<exists>cdb' ids. due_entries 2000 (cs_cdb (run_state early_success)) = Some (cdb', ids) \<and> set ids = {5}"
proof -
  have "cd_syncInterval (cs_cdb (run_state early_success)) = 1000"
    "map en_nodeID (cd_pending (cs_cdb (run_state early_success))) = [5]"
    "en_nodeID ` {e \<in> set (cd_pending (cs_cdb (run_state early_success))). en_syncAt e < 2000} = {5}" by code_simp+
  then show ?thesis using due_entries_terminate [of "cs_cdb (run_state early_success)" 2000] by auto
qed

end
