(* ===== verification/AuditSampling.thy ===== *)
theory AuditSampling
  imports NodeTally
begin

text \<open>
  The choice of segments to audit (\<open>satellite/audit\<close>): for each storage node a reservoir keeps the
  segments with the smallest keys of those it was offered (\<open>reservoir.go\<close>), a collector fills the
  reservoirs of one range (\<open>collector.go\<close>), and the observer merges them and makes a queue without
  duplicates (\<open>observer.go\<close>). A key is \<open>- log\<close> of a random number divided by the size of the
  segment; the numbers \<open>- log(r.Float64())\<close> are a parameter, and keys are exact.
\<close>

subsection \<open>Reservoirs\<close>

text \<open>The filled parts of the arrays of segments and keys, side by side.\<close>

record Reservoir =
  rsv_items :: "(rat \<times> LoopSegmentEntry) list"
  rsv_size :: nat

definition maxReservoirSize :: nat where
  "maxReservoirSize = 3"

definition NewReservoir :: "int \<Rightarrow> Reservoir" where
  "NewReservoir n =
     \<lparr>rsv_items = [], rsv_size = (if n < 1 then 1 else if n > int maxReservoirSize then maxReservoirSize else nat n)\<rparr>"

definition max_key :: "rat list \<Rightarrow> nat \<Rightarrow> nat" where
  "max_key ks n = fold (\<lambda>i m. if ks ! i > ks ! m then i else m) [1 ..< n] 0"

definition Reservoir_sample :: "rat \<Rightarrow> LoopSegmentEntry \<Rightarrow> Reservoir \<Rightarrow> Reservoir" where
  "Reservoir_sample k segment r =
     (if length (rsv_items r) < rsv_size r then r\<lparr>rsv_items := rsv_items r @ [(k, segment)]\<rparr>
      else let m = max_key (map fst (rsv_items r)) (rsv_size r) in
        if k < map fst (rsv_items r) ! m then r\<lparr>rsv_items := (rsv_items r)[m := (k, segment)]\<rparr> else r)"

definition Reservoir_Sample :: "rat \<Rightarrow> LoopSegmentEntry \<Rightarrow> Reservoir \<Rightarrow> Reservoir" where
  "Reservoir_Sample draw segment = Reservoir_sample (draw / of_int (lse_EncryptedSize segment)) segment"

definition Reservoir_Merge :: "Reservoir \<Rightarrow> Reservoir \<Rightarrow> Reservoir \<times> obs_error option" where
  "Reservoir_Merge operand r =
     (if rsv_size r \<noteq> rsv_size operand then (r, Some (ObserverError ''cannot merge: mismatched size''))
      else (fold (\<lambda>(k, segment). Reservoir_sample k segment) (rsv_items operand) r, None))"

subsection \<open>The collector of a range\<close>

text \<open>\<open>col_rand\<close> gives the numbers of its generator, \<open>col_calls\<close> says how many were taken.\<close>

record Collector =
  col_Reservoirs :: "(NodeAlias \<times> Reservoir) list"
  col_slotCount :: int
  col_rand :: "nat \<Rightarrow> rat"
  col_calls :: nat

definition NewCollector :: "int \<Rightarrow> (nat \<Rightarrow> rat) \<Rightarrow> Collector" where
  "NewCollector slots r = \<lparr>col_Reservoirs = [], col_slotCount = slots, col_rand = r, col_calls = 0\<rparr>"

definition Collector_piece :: "LoopSegmentEntry \<Rightarrow> AliasPiece \<Rightarrow> Collector \<Rightarrow> Collector" where
  "Collector_piece segment piece c =
     (let res = (case map_of (col_Reservoirs c) (Alias piece) of Some res \<Rightarrow> res | None \<Rightarrow> NewReservoir (col_slotCount c))
      in c\<lparr>col_Reservoirs := AList.update (Alias piece) (Reservoir_Sample (col_rand c (col_calls c)) segment res) (col_Reservoirs c),
           col_calls := col_calls c + 1\<rparr>)"

definition Collector_RemoteSegment :: "LoopSegmentEntry \<Rightarrow> Collector \<Rightarrow> Collector" where
  "Collector_RemoteSegment segment = fold (Collector_piece segment) (lse_AliasPieces segment)"

definition Collector_Process :: "LoopSegmentEntry list \<Rightarrow> Collector \<Rightarrow> Collector \<times> obs_error option" where
  "Collector_Process segs c =
     (fold (\<lambda>segment c. if LoopSegmentEntry_Inline segment then c else Collector_RemoteSegment segment c) segs c, None)"

subsection \<open>The observer\<close>

record audit_Segment =
  as_StreamID :: uuid
  as_Position :: SegmentPosition
  as_ExpiresAt :: "time option"
  as_EncryptedSize :: int

definition NewSegment :: "LoopSegmentEntry \<Rightarrow> audit_Segment" where
  "NewSegment e = \<lparr>as_StreamID = lse_StreamID e, as_Position = lse_Position e, as_ExpiresAt = lse_ExpiresAt e,
     as_EncryptedSize = lse_EncryptedSize e\<rparr>"

definition audit_key :: "audit_Segment \<Rightarrow> uuid \<times> 64 word" where
  "audit_key s = (as_StreamID s, SegmentPosition_Encode (as_Position s))"

text \<open>What comes from outside: the seeds of the collectors' generators, the order in which the \<open>i\<close>-th
  iteration goes over the reservoirs, and the end of the push.\<close>

record audit_world =
  aw_rand :: "nat \<Rightarrow> nat \<Rightarrow> rat"
  aw_order :: "nat \<Rightarrow> nat"
  aw_Push :: "audit_Segment list \<Rightarrow> obs_error option"

record audit_Observer =
  ao_reservoirs :: "(NodeAlias \<times> Reservoir) list"
  ao_forks :: nat
  ao_pushed :: "audit_Segment list option"

definition audit_Start :: "time \<Rightarrow> audit_Observer \<Rightarrow> audit_Observer \<times> obs_error option" where
  "audit_Start startTime obs = (obs\<lparr>ao_reservoirs := []\<rparr>, None)"

definition audit_Fork :: "int \<Rightarrow> audit_world \<Rightarrow> audit_Observer \<Rightarrow> audit_Observer \<times> (obs_error + Collector)" where
  "audit_Fork slots world obs =
     (obs\<lparr>ao_forks := ao_forks obs + 1\<rparr>, Inr (NewCollector slots (aw_rand world (ao_forks obs))))"

fun merge_reservoirs ::
  "(NodeAlias \<times> Reservoir) list \<Rightarrow> (NodeAlias \<times> Reservoir) list \<Rightarrow> (NodeAlias \<times> Reservoir) list \<times> obs_error option" where
  "merge_reservoirs [] rs = (rs, None)"
| "merge_reservoirs ((nodeAlias, reservoir) # new) rs =
     (case map_of rs nodeAlias of
        None \<Rightarrow> merge_reservoirs new (AList.update nodeAlias reservoir rs)
      | Some existing \<Rightarrow>
          (case Reservoir_Merge reservoir existing of
             (merged, Some err) \<Rightarrow> (rs, Some err)
           | (merged, None) \<Rightarrow> merge_reservoirs new (AList.update nodeAlias merged rs)))"

definition audit_Join :: "Collector \<Rightarrow> audit_Observer \<Rightarrow> audit_Observer \<times> obs_error option" where
  "audit_Join c obs =
     (case merge_reservoirs (col_Reservoirs c) (ao_reservoirs obs) of
        (rs, err) \<Rightarrow> (obs\<lparr>ao_reservoirs := rs\<rparr>, err))"

text \<open>One slot of one reservoir; the queue that is built and the keys in it.\<close>

definition queue_slot :: "nat \<Rightarrow> Reservoir \<Rightarrow> audit_Segment list \<Rightarrow> audit_Segment list" where
  "queue_slot i res newQueue =
     (if length (rsv_items res) \<le> i then newQueue
      else let segment = NewSegment (snd (rsv_items res ! i)) in
        if audit_key segment \<in> set (map audit_key newQueue) then newQueue else newQueue @ [segment])"

definition audit_queue :: "int \<Rightarrow> audit_world \<Rightarrow> (NodeAlias \<times> Reservoir) list \<Rightarrow> audit_Segment list" where
  "audit_queue slots world rs =
     fold (\<lambda>i. fold (queue_slot i) (map snd (rotate (aw_order world i) rs))) [0 ..< nat slots] []"

definition audit_Finish :: "int \<Rightarrow> audit_world \<Rightarrow> audit_Observer \<Rightarrow> audit_Observer \<times> obs_error option" where
  "audit_Finish slots world obs =
     (let newQueue = audit_queue slots world (ao_reservoirs obs) in
      (obs\<lparr>ao_pushed := Some newQueue\<rparr>, aw_Push world newQueue))"

definition audit_methods :: "int \<Rightarrow> audit_world \<Rightarrow> (audit_Observer, Collector) observer_methods" where
  "audit_methods slots world =
     \<lparr>m_Start = audit_Start, m_Fork = audit_Fork slots world, m_Process = Collector_Process,
      m_Join = audit_Join, m_Finish = audit_Finish slots world\<rparr>"

subsection \<open>What a reservoir holds\<close>

text \<open>Of all that was offered it holds as many as it has room for, none with a larger key than one it
  does not hold.\<close>

definition smallest :: "nat \<Rightarrow> (rat \<times> 'a) list \<Rightarrow> (rat \<times> 'a) list \<Rightarrow> bool" where
  "smallest n xs items \<longleftrightarrow> length items = min n (length xs) \<and>
     (\<exists>rest. mset xs = mset items + mset rest \<and> (\<forall>x \<in> set items. \<forall>y \<in> set rest. fst x \<le> fst y))"

lemma smallestI:
  assumes "length items = min n (length xs)" "mset xs = mset items + mset rest"
    and "\<forall>x \<in> set items. \<forall>y \<in> set rest. fst x \<le> fst y"
  shows "smallest n xs items"
  using assms unfolding smallest_def by blast

lemma smallest_set: "smallest n xs items \<Longrightarrow> set items \<subseteq> set xs"
  unfolding smallest_def by (metis mset_append mset_eq_setD set_append sup.cobounded1)

lemma smallest_none: "smallest n xs [] \<Longrightarrow> 0 < n \<Longrightarrow> xs = []"
  by (simp add: smallest_def min_def split: if_splits)

lemma max_key_bound: "0 < n \<Longrightarrow> n \<le> length ks \<Longrightarrow> max_key ks n < n \<and> (\<forall>i < n. ks ! i \<le> ks ! max_key ks n)"
proof (induction n)
  case (Suc n)
  show ?case
  proof (cases "n = 0")
    case False
    then have "max_key ks (Suc n) = (if ks ! n > ks ! max_key ks n then n else max_key ks n)"
      by (simp add: max_key_def)
    then show ?thesis using Suc False by (force simp: less_Suc_eq)
  qed (simp add: max_key_def)
qed simp

lemma sample_smallest:
  assumes "smallest (rsv_size r) xs (rsv_items r)" "0 < rsv_size r"
  shows "smallest (rsv_size r) (xs @ [(k, e)]) (rsv_items (Reservoir_sample k e r))"
proof -
  let ?n = "rsv_size r" and ?items = "rsv_items r"
  obtain rest where rest: "mset xs = mset ?items + mset rest" "\<forall>x \<in> set ?items. \<forall>y \<in> set rest. fst x \<le> fst y"
    and len: "length ?items = min ?n (length xs)"
    using assms(1) by (auto simp: smallest_def)
  have size: "length xs = length ?items + length rest" using arg_cong [OF rest(1), of size] by simp
  show ?thesis
  proof (cases "length ?items < ?n")
    case True
    then have "length rest = 0" using len size by linarith
    then have ms: "mset xs = mset ?items" using rest(1) by simp
    have new: "rsv_items (Reservoir_sample k e r) = ?items @ [(k, e)]" using True by (simp add: Reservoir_sample_def)
    show ?thesis unfolding new
    proof (rule smallestI)
      show "length (?items @ [(k, e)]) = min ?n (length (xs @ [(k, e)]))" using True len by simp
      show "mset (xs @ [(k, e)]) = mset (?items @ [(k, e)]) + mset []" using ms by simp
    qed simp
  next
    case False
    then have full: "length ?items = ?n" using len by simp
    define m where "m = max_key (map fst ?items) ?n"
    have m: "m < ?n" "\<forall>i < ?n. fst (?items ! i) \<le> fst (?items ! m)"
      using max_key_bound [OF assms(2), of "map fst ?items"] full by (auto simp: m_def)
    then have top: "\<forall>x \<in> set ?items. fst x \<le> fst (?items ! m)" using full by (metis in_set_conv_nth)
    show ?thesis
    proof (cases "k < fst (?items ! m)")
      case True
      let ?new = "?items[m := (k, e)]"
      have new: "rsv_items (Reservoir_sample k e r) = ?new"
        using False True full m by (simp add: Reservoir_sample_def Let_def m_def)
      have ms: "mset ?items + {#(k, e)#} = mset ?new + {#?items ! m#}"
        using m(1) full by (simp add: mset_update)
      have "mset (xs @ [(k, e)]) = mset ?new + mset (?items ! m # rest)"
        using rest(1) ms by (simp add: ac_simps)
      moreover have "\<forall>x \<in> set ?new. \<forall>y \<in> set (?items ! m # rest). fst x \<le> fst y"
      proof (intro ballI)
        fix x y assume x: "x \<in> set ?new" and y: "y \<in> set (?items ! m # rest)"
        have "fst (?items ! m) \<le> fst y" using y rest(2) m(1) full by auto
        moreover have "fst x \<le> fst (?items ! m)"
          using x top True set_update_subset_insert [of ?items m "(k, e)"] by force
        ultimately show "fst x \<le> fst y" by (rule order_trans [rotated])
      qed
      moreover have "length ?new = min ?n (length (xs @ [(k, e)]))" using len full by simp
      ultimately show ?thesis unfolding new by (intro smallestI)
    next
      case no: False
      have new: "rsv_items (Reservoir_sample k e r) = ?items"
        using False no full m by (simp add: Reservoir_sample_def Let_def m_def)
      have "fst x \<le> k" if "x \<in> set ?items" for x using bspec [OF top that] no by (simp add: not_less)
      then have "\<forall>x \<in> set ?items. \<forall>y \<in> set ((k, e) # rest). fst x \<le> fst y" using rest(2) by simp
      moreover have "mset (xs @ [(k, e)]) = mset ?items + mset ((k, e) # rest)" using rest(1) by simp
      moreover have "length ?items = min ?n (length (xs @ [(k, e)]))" using len full by simp
      ultimately show ?thesis unfolding new by (intro smallestI)
    qed
  qed
qed

lemma sample_size [simp]: "rsv_size (Reservoir_sample k e r) = rsv_size r"
  by (simp add: Reservoir_sample_def Let_def)

lemma samples_smallest:
  assumes "smallest (rsv_size r) xs (rsv_items r)" "0 < rsv_size r"
  shows "smallest (rsv_size r) (xs @ ys) (rsv_items (fold (\<lambda>(k, e). Reservoir_sample k e) ys r)) \<and>
    rsv_size (fold (\<lambda>(k, e). Reservoir_sample k e) ys r) = rsv_size r"
  using assms
proof (induction ys arbitrary: xs r)
  case (Cons y ys)
  obtain k e where y: "y = (k, e)" by (cases y)
  from Cons.IH [of "Reservoir_sample k e r" "xs @ [y]"] sample_smallest [OF Cons.prems] Cons.prems(2)
  show ?case by (simp add: y)
qed simp

text \<open>Merging: what a reservoir left out has larger keys than all it holds, so nothing is lost.\<close>

lemma smallest_merge:
  assumes "smallest n ys items" "smallest n (xs @ items) out"
  shows "smallest n (xs @ ys) out"
proof -
  obtain rest where rest: "mset ys = mset items + mset rest" "\<forall>x \<in> set items. \<forall>y \<in> set rest. fst x \<le> fst y"
    and len: "length items = min n (length ys)" using assms(1) by (auto simp: smallest_def)
  obtain left where left: "mset (xs @ items) = mset out + mset left" "\<forall>x \<in> set out. \<forall>y \<in> set left. fst x \<le> fst y"
    and out: "length out = min n (length (xs @ items))" using assms(2) by (auto simp: smallest_def)
  have size: "length ys = length items + length rest" using arg_cong [OF rest(1), of size] by simp
  have "fst x \<le> fst y" if x: "x \<in> set out" and y: "y \<in> set rest" for x y
  proof (rule ccontr)
    assume "\<not> fst x \<le> fst y"
    then have "fst y < fst x" by simp
    then have "x \<notin> set items" using rest(2) y by force
    have "0 < length rest" using y by (auto simp: length_pos_if_in_set)
    then have "length items = n" using size len by linarith
    have "\<not> mset items \<subseteq># mset out"
    proof
      assume "mset items \<subseteq># mset out"
      moreover have "size (mset out) \<le> size (mset items)" using out \<open>length items = n\<close> by simp
      ultimately have "mset items = mset out"
        by (metis mset_subset_size subset_mset.le_neq_trans not_le)
      then have "set items = set out" by (rule mset_eq_setD)
      then show False using x \<open>x \<notin> set items\<close> by simp
    qed
    then obtain z where z: "count (mset out) z < count (mset items) z" by (auto simp: subseteq_mset_def not_le)
    have "count (mset items) z \<le> count (mset out) z + count (mset left) z"
      using arg_cong [OF left(1), of "\<lambda>m. count m z"] by simp
    then have "0 < count (mset left) z" "0 < count (mset items) z" using z by linarith+
    then have "z \<in> set left" "z \<in> set items" by (simp_all add: count_mset_0_iff flip: neq0_conv)
    then have "fst x \<le> fst y" using left(2) rest(2) x y by (meson order_trans)
    then show False using \<open>fst y < fst x\<close> by simp
  qed
  then have "\<forall>x \<in> set out. \<forall>y \<in> set (left @ rest). fst x \<le> fst y" using left(2) by auto
  moreover have "mset (xs @ ys) = mset out + mset (left @ rest)" using left(1) rest(1) by (simp add: ac_simps)
  moreover have "length out = min n (length (xs @ ys))" using out len by simp
  ultimately show ?thesis by (intro smallestI)
qed

lemma Merge_smallest:
  assumes "smallest (rsv_size r) xs (rsv_items r)" "smallest (rsv_size r) ys (rsv_items operand)" "0 < rsv_size r"
    and "Reservoir_Merge operand r = (r', None)"
  shows "smallest (rsv_size r) (xs @ ys) (rsv_items r') \<and> rsv_size r' = rsv_size r"
proof -
  have r': "r' = fold (\<lambda>(k, e). Reservoir_sample k e) (rsv_items operand) r"
    using assms(4) by (auto simp: Reservoir_Merge_def split: if_splits)
  then show ?thesis using samples_smallest [OF assms(1,3), of "rsv_items operand"] smallest_merge [OF assms(2)] by simp
qed

subsection \<open>The observer keeps the contract\<close>

text \<open>What is offered to the reservoirs: each remote segment for each of its pieces.\<close>

definition offers :: "LoopSegmentEntry list \<Rightarrow> (NodeAlias \<times> LoopSegmentEntry) list" where
  "offers es = concat (map (\<lambda>e. if LoopSegmentEntry_Inline e then [] else map (\<lambda>p. (Alias p, e)) (lse_AliasPieces e)) es)"

text \<open>An offer with its key.\<close>

type_synonym sample = "NodeAlias \<times> rat \<times> LoopSegmentEntry"

definition offer_of :: "sample \<Rightarrow> NodeAlias \<times> LoopSegmentEntry" where
  "offer_of s = (fst s, snd (snd s))"

definition drawn :: "audit_world \<Rightarrow> sample \<Rightarrow> bool" where
  "drawn world s \<longleftrightarrow> (\<exists>i j. fst (snd s) = aw_rand world i j / of_int (lse_EncryptedSize (snd (snd s))))"

definition samples_for :: "NodeAlias \<Rightarrow> sample list \<Rightarrow> (rat \<times> LoopSegmentEntry) list" where
  "samples_for a ss = map snd (filter (\<lambda>s. fst s = a) ss)"

definition items_of :: "(NodeAlias \<times> Reservoir) list \<Rightarrow> NodeAlias \<Rightarrow> (rat \<times> LoopSegmentEntry) list" where
  "items_of rs a = (case map_of rs a of None \<Rightarrow> [] | Some r \<Rightarrow> rsv_items r)"

definition reservoirs_hold :: "nat \<Rightarrow> sample list \<Rightarrow> (NodeAlias \<times> Reservoir) list \<Rightarrow> bool" where
  "reservoirs_hold n ss rs \<longleftrightarrow> distinct (map fst rs) \<and> (\<forall>a r. map_of rs a = Some r \<longrightarrow> rsv_size r = n) \<and>
     (\<forall>a. smallest n (samples_for a ss) (items_of rs a))"

lemma smallest_Nil [simp]: "smallest n [] []"
  by (rule smallestI [where rest = "[]"]) simp_all

lemma reservoirs_hold_Nil [simp]: "reservoirs_hold n [] []"
  by (simp add: reservoirs_hold_def samples_for_def items_of_def)

lemma samples_for_append [simp]: "samples_for a (ss @ ss') = samples_for a ss @ samples_for a ss'"
  by (simp add: samples_for_def)

abbreviation slots_of :: "int \<Rightarrow> nat" where
  "slots_of slots \<equiv> rsv_size (NewReservoir slots)"

lemma slots_positive [simp]: "0 < slots_of slots" "rsv_items (NewReservoir slots) = []"
  by (simp_all add: NewReservoir_def maxReservoirSize_def)

definition collector_state :: "int \<Rightarrow> audit_world \<Rightarrow> Collector \<Rightarrow> LoopSegmentEntry list \<Rightarrow> bool" where
  "collector_state slots world c es \<longleftrightarrow> col_slotCount c = slots \<and> (\<exists>i. col_rand c = aw_rand world i) \<and>
     (\<exists>ss. map offer_of ss = offers es \<and> (\<forall>s \<in> set ss. drawn world s) \<and>
        reservoirs_hold (slots_of slots) ss (col_Reservoirs c))"

lemma piece_state:
  assumes "col_slotCount c = slots" "col_rand c = aw_rand world i"
    and "reservoirs_hold (slots_of slots) ss (col_Reservoirs c)"
  shows "\<exists>s. offer_of s = (Alias p, e) \<and> drawn world s \<and>
    reservoirs_hold (slots_of slots) (ss @ [s]) (col_Reservoirs (Collector_piece e p c)) \<and>
    col_slotCount (Collector_piece e p c) = slots \<and> col_rand (Collector_piece e p c) = aw_rand world i"
proof -
  let ?n = "slots_of slots"
  define k where "k = col_rand c (col_calls c) / of_int (lse_EncryptedSize e)"
  define res where "res = (case map_of (col_Reservoirs c) (Alias p) of Some res \<Rightarrow> res | None \<Rightarrow> NewReservoir slots)"
  have items: "rsv_items res = items_of (col_Reservoirs c) (Alias p)" and size: "rsv_size res = ?n"
    using assms(3) by (auto simp: res_def items_of_def reservoirs_hold_def split: option.splits)
  have new: "col_Reservoirs (Collector_piece e p c) = AList.update (Alias p) (Reservoir_sample k e res) (col_Reservoirs c)"
    using assms(1) by (simp add: Collector_piece_def Let_def res_def k_def Reservoir_Sample_def split: option.split)
  have "smallest ?n (samples_for (Alias p) ss) (rsv_items res)"
    using assms(3) unfolding items by (simp add: reservoirs_hold_def)
  then have "smallest ?n (samples_for (Alias p) ss @ [(k, e)]) (rsv_items (Reservoir_sample k e res))"
    using sample_smallest [of res] size by simp
  moreover have "samples_for a [(Alias p, k, e)] = (if a = Alias p then [(k, e)] else [])" for a
    by (simp add: samples_for_def)
  moreover have "items_of (col_Reservoirs (Collector_piece e p c)) a
      = (if a = Alias p then rsv_items (Reservoir_sample k e res) else items_of (col_Reservoirs c) a)" for a
    unfolding new by (simp add: items_of_def update_conv')
  ultimately have "reservoirs_hold ?n (ss @ [(Alias p, k, e)]) (col_Reservoirs (Collector_piece e p c))"
    using assms(3) size by (auto simp: reservoirs_hold_def new distinct_update update_conv')
  moreover have "drawn world (Alias p, k, e)" using assms(2) by (auto simp: drawn_def k_def)
  ultimately show ?thesis using assms(1,2)
    by (intro exI [of _ "(Alias p, k, e)"]) (simp add: offer_of_def Collector_piece_def Let_def)
qed

lemma pieces_state:
  assumes "col_slotCount c = slots" "col_rand c = aw_rand world i"
    and "reservoirs_hold (slots_of slots) ss (col_Reservoirs c)"
  shows "\<exists>ss'. map offer_of ss' = map (\<lambda>p. (Alias p, e)) ps \<and> (\<forall>s \<in> set ss'. drawn world s) \<and>
    reservoirs_hold (slots_of slots) (ss @ ss') (col_Reservoirs (fold (Collector_piece e) ps c)) \<and>
    col_slotCount (fold (Collector_piece e) ps c) = slots \<and> col_rand (fold (Collector_piece e) ps c) = aw_rand world i"
  using assms
proof (induction ps arbitrary: c ss)
  case (Cons p ps)
  obtain s where s: "offer_of s = (Alias p, e)" "drawn world s"
    "reservoirs_hold (slots_of slots) (ss @ [s]) (col_Reservoirs (Collector_piece e p c))"
    "col_slotCount (Collector_piece e p c) = slots" "col_rand (Collector_piece e p c) = aw_rand world i"
    using piece_state [OF Cons.prems] by blast
  from Cons.IH [OF s(4,5,3)] obtain ss' where "map offer_of ss' = map (\<lambda>p. (Alias p, e)) ps"
    "\<forall>s \<in> set ss'. drawn world s"
    "reservoirs_hold (slots_of slots) ((ss @ [s]) @ ss') (col_Reservoirs (fold (Collector_piece e) ps (Collector_piece e p c)))"
    "col_slotCount (fold (Collector_piece e) ps (Collector_piece e p c)) = slots"
    "col_rand (fold (Collector_piece e) ps (Collector_piece e p c)) = aw_rand world i" by blast
  then show ?case using s(1,2) by (intro exI [of _ "s # ss'"]) simp
qed (auto intro!: exI [of _ "[]"])

lemma collector_segment:
  assumes "collector_state slots world c es"
  shows "collector_state slots world (if LoopSegmentEntry_Inline e then c else Collector_RemoteSegment e c) (es @ [e])"
proof -
  obtain i ss where c: "col_slotCount c = slots" "col_rand c = aw_rand world i" "map offer_of ss = offers es"
    "\<forall>s \<in> set ss. drawn world s" "reservoirs_hold (slots_of slots) ss (col_Reservoirs c)"
    using assms by (auto simp: collector_state_def)
  show ?thesis
  proof (cases "LoopSegmentEntry_Inline e")
    case True
    then show ?thesis using assms by (simp add: collector_state_def offers_def)
  next
    case False
    from pieces_state [OF c(1,2,5), of e "lse_AliasPieces e"] obtain ss' where
      ss': "map offer_of ss' = map (\<lambda>p. (Alias p, e)) (lse_AliasPieces e)" "\<forall>s \<in> set ss'. drawn world s"
        "reservoirs_hold (slots_of slots) (ss @ ss') (col_Reservoirs (Collector_RemoteSegment e c))"
        "col_slotCount (Collector_RemoteSegment e c) = slots" "col_rand (Collector_RemoteSegment e c) = aw_rand world i"
      by (auto simp: Collector_RemoteSegment_def)
    have "map offer_of (ss @ ss') = offers (es @ [e])" using c(3) ss'(1) False by (simp add: offers_def)
    moreover have "\<forall>s \<in> set (ss @ ss'). drawn world s" using c(4) ss'(2) by auto
    ultimately have "\<exists>ss. map offer_of ss = offers (es @ [e]) \<and> (\<forall>s \<in> set ss. drawn world s) \<and>
        reservoirs_hold (slots_of slots) ss (col_Reservoirs (Collector_RemoteSegment e c))"
      using ss'(3) by blast
    then show ?thesis using False ss'(4,5) by (simp add: collector_state_def) blast
  qed
qed

lemma collector_process:
  "collector_state slots world c es \<Longrightarrow> collector_state slots world (fst (Collector_Process batch c)) (es @ batch)"
proof (induction batch arbitrary: c es)
  case (Cons e batch)
  from Cons.IH [OF collector_segment [OF Cons.prems, of e]] show ?case by (simp add: Collector_Process_def)
qed (simp add: Collector_Process_def)

lemma merge_hold:
  assumes "distinct (map fst new)" "\<forall>a r. map_of new a = Some r \<longrightarrow> rsv_size r = n"
    and "distinct (map fst rs)" "\<forall>a r. map_of rs a = Some r \<longrightarrow> rsv_size r = n" and n: "0 < n"
  shows "\<exists>rs'. merge_reservoirs new rs = (rs', None) \<and> distinct (map fst rs') \<and> (\<forall>a r. map_of rs' a = Some r \<longrightarrow> rsv_size r = n) \<and>
    (\<forall>a xs ys. smallest n xs (items_of rs a) \<longrightarrow> smallest n ys (items_of new a) \<longrightarrow> smallest n (xs @ ys) (items_of rs' a))"
  using assms(1-4)
proof (induction new arbitrary: rs)
  case Nil
  have "ys = []" if "smallest n ys []" for ys :: "(rat \<times> LoopSegmentEntry) list"
    using that n by (simp add: smallest_def min_def split: if_splits)
  moreover have "items_of [] a = []" for a by (simp add: items_of_def)
  ultimately have "smallest n (xs @ ys) (items_of rs a)"
    if "smallest n xs (items_of rs a)" "smallest n ys (items_of [] a)" for a xs ys
    using that by (metis append_Nil2)
  then show ?case using Nil by simp
next
  case (Cons x new)
  obtain a0 r0 where x: "x = (a0, r0)" by (cases x)
  have none: "map_of new a0 = None" using Cons.prems(1) by (simp add: x map_of_eq_None_iff)
  have "map_of (x # new) a0 = Some r0" by (simp add: x)
  then have r0: "rsv_size r0 = n" using Cons.prems(2) by blast
  have rest: "\<forall>a r. map_of new a = Some r \<longrightarrow> rsv_size r = n"
    using Cons.prems(2) none by (metis fst_conv map_of_Cons_code(2) option.distinct(1) x)
  obtain r1 where r1: "merge_reservoirs ((a0, r0) # new) rs = merge_reservoirs new (AList.update a0 r1 rs)" "rsv_size r1 = n"
    "\<And>xs ys. smallest n xs (items_of rs a0) \<Longrightarrow> smallest n ys (rsv_items r0) \<Longrightarrow> smallest n (xs @ ys) (rsv_items r1)"
  proof (cases "map_of rs a0")
    case None
    then have "xs = []" if "smallest n xs (items_of rs a0)" for xs
      using that n by (simp add: items_of_def smallest_def min_def split: if_splits)
    then have "smallest n (xs @ ys) (rsv_items r0)"
      if "smallest n xs (items_of rs a0)" "smallest n ys (rsv_items r0)" for xs ys using that by fastforce
    then show ?thesis using None r0 by (intro that [of r0]) simp_all
  next
    case (Some r)
    obtain r1 where m: "Reservoir_Merge r0 r = (r1, None)"
      using Some r0 Cons.prems(4) by (simp add: Reservoir_Merge_def)
    have "smallest n (xs @ ys) (rsv_items r1) \<and> rsv_size r1 = n"
      if "smallest n xs (items_of rs a0)" "smallest n ys (rsv_items r0)" for xs ys
      using Merge_smallest [of r xs ys r0 r1] that Some m n Cons.prems(4) by (simp add: items_of_def)
    moreover have "rsv_size r1 = n"
    proof -
      have "r1 = fold (\<lambda>(k, e). Reservoir_sample k e) (rsv_items r0) r"
        using m by (simp add: Reservoir_Merge_def split: if_splits)
      moreover have "rsv_size (fold (\<lambda>(k, e). Reservoir_sample k e) xs r) = rsv_size r" for xs
        by (induction xs arbitrary: r) auto
      ultimately show ?thesis using Some Cons.prems(4) by simp
    qed
    ultimately show ?thesis using Some m by (intro that [of r1]) simp_all
  qed
  let ?rs = "AList.update a0 r1 rs"
  have "distinct (map fst ?rs)" "\<forall>a r. map_of ?rs a = Some r \<longrightarrow> rsv_size r = n"
    using Cons.prems(3,4) r1(2) by (auto simp: distinct_update update_conv')
  from Cons.IH [OF _ rest this] Cons.prems(1) obtain rs' where rs': "merge_reservoirs new ?rs = (rs', None)"
    "distinct (map fst rs')" "\<forall>a r. map_of rs' a = Some r \<longrightarrow> rsv_size r = n"
    "\<And>a xs ys. smallest n xs (items_of ?rs a) \<Longrightarrow> smallest n ys (items_of new a) \<Longrightarrow> smallest n (xs @ ys) (items_of rs' a)"
    by auto
  have "smallest n (xs @ ys) (items_of rs' a)"
    if "smallest n xs (items_of rs a)" "smallest n ys (items_of (x # new) a)" for a xs ys
  proof (cases "a = a0")
    case True
    then have "smallest n (xs @ ys) (items_of ?rs a)" using r1(3) that by (simp add: items_of_def update_conv' x)
    moreover have "smallest n [] (items_of new a)" using True none by (simp add: items_of_def)
    ultimately show ?thesis using rs'(4) [of "xs @ ys" a "[]"] by simp
  next
    case False
    then show ?thesis using that by (intro rs'(4)) (simp_all add: items_of_def update_conv' x)
  qed
  then show ?case using rs' r1(1) by (intro exI [of _ rs']) (simp add: x)
qed

definition observer_state :: "int \<Rightarrow> audit_world \<Rightarrow> (NodeAlias \<times> Reservoir) list \<Rightarrow> LoopSegmentEntry list \<Rightarrow> bool" where
  "observer_state slots world rs es \<longleftrightarrow>
     (\<exists>ss. map offer_of ss = offers es \<and> (\<forall>s \<in> set ss. drawn world s) \<and> reservoirs_hold (slots_of slots) ss rs)"

lemma observer_join:
  assumes "observer_state slots world rs es" "collector_state slots world c es'"
  shows "\<exists>rs'. merge_reservoirs (col_Reservoirs c) rs = (rs', None) \<and> observer_state slots world rs' (es @ es')"
proof -
  obtain ss where ss: "map offer_of ss = offers es" "\<forall>s \<in> set ss. drawn world s" "reservoirs_hold (slots_of slots) ss rs"
    using assms(1) by (auto simp: observer_state_def)
  obtain ss' where ss': "map offer_of ss' = offers es'" "\<forall>s \<in> set ss'. drawn world s"
    "reservoirs_hold (slots_of slots) ss' (col_Reservoirs c)"
    using assms(2) by (auto simp: collector_state_def)
  from merge_hold [of "col_Reservoirs c" "slots_of slots" rs] ss(3) ss'(3) obtain rs' where
    rs': "merge_reservoirs (col_Reservoirs c) rs = (rs', None)" "distinct (map fst rs')"
      "\<forall>a r. map_of rs' a = Some r \<longrightarrow> rsv_size r = slots_of slots"
      "\<forall>a xs ys. smallest (slots_of slots) xs (items_of rs a) \<longrightarrow> smallest (slots_of slots) ys (items_of (col_Reservoirs c) a) \<longrightarrow>
         smallest (slots_of slots) (xs @ ys) (items_of rs' a)"
    by (auto simp: reservoirs_hold_def)
  then have "reservoirs_hold (slots_of slots) (ss @ ss') rs'" using ss(3) ss'(3) by (simp add: reservoirs_hold_def)
  moreover have "map offer_of (ss @ ss') = offers (es @ es')" using ss(1) ss'(1) by (simp add: offers_def)
  moreover have "\<forall>s \<in> set (ss @ ss'). drawn world s" using ss(2) ss'(2) by auto
  ultimately show ?thesis using rs'(1) unfolding observer_state_def by blast
qed

interpretation audit_obs: observer_laws "audit_methods slots world" "\<lambda>obs0 t (c :: unit). True"
  "\<lambda>c obs ess. observer_state slots world (ao_reservoirs obs) (concat ess)"
  "\<lambda>c col es. collector_state slots world col es"
  "\<lambda>obs0 t obs ess. observer_state slots world (ao_reservoirs obs) (concat ess) \<and>
     ao_pushed obs = Some (audit_queue slots world (ao_reservoirs obs)) \<and>
     aw_Push world (audit_queue slots world (ao_reservoirs obs)) = None"
  for slots world
proof
  fix batch p p' es
  assume "collector_state slots world p es" "m_Process (audit_methods slots world) batch p = (p', None)"
  then show "collector_state slots world p' (es @ batch)"
    using collector_process [of slots world p es batch] by (simp add: audit_methods_def)
next
  fix obs ess p es obs'
  assume "observer_state slots world (ao_reservoirs obs) (concat ess)" "collector_state slots world p es"
    and j: "m_Join (audit_methods slots world) p obs = (obs', None)"
  from observer_join [OF this(1,2)] j show "observer_state slots world (ao_reservoirs obs') (concat (ess @ [es]))"
    by (auto simp: audit_methods_def audit_Join_def)
qed (auto simp: audit_methods_def audit_Start_def audit_Fork_def audit_Finish_def observer_state_def collector_state_def
    NewCollector_def offers_def Let_def intro!: exI [of _ "[]"])

subsection \<open>The queue\<close>

definition slot_keys :: "nat \<Rightarrow> Reservoir \<Rightarrow> (uuid \<times> 64 word) set" where
  "slot_keys i r = (if i < length (rsv_items r) then {audit_key (NewSegment (snd (rsv_items r ! i)))} else {})"

lemma queue_slot_keys:
  "set (map audit_key (queue_slot i r q)) = set (map audit_key q) \<union> slot_keys i r"
  "distinct (map audit_key q) \<Longrightarrow> distinct (map audit_key (queue_slot i r q))"
  by (auto simp: queue_slot_def slot_keys_def Let_def)

lemma queue_slots_keys:
  "set (map audit_key (fold (queue_slot i) rs q)) = set (map audit_key q) \<union> (\<Union>r \<in> set rs. slot_keys i r)"
  "distinct (map audit_key q) \<Longrightarrow> distinct (map audit_key (fold (queue_slot i) rs q))"
proof (induction rs arbitrary: q)
  case (Cons r rs)
  { case 1 then show ?case using Cons.IH(1) [of "queue_slot i r q"] queue_slot_keys(1) [of i r q] by auto }
  { case 2 then show ?case using Cons.IH(2) [of "queue_slot i r q"] queue_slot_keys(2) [of q i r] by simp }
qed auto

lemma audit_queue_keys:
  assumes "\<forall>r \<in> snd ` set rs. length (rsv_items r) \<le> nat slots" "distinct (map fst rs)"
  shows "distinct (map audit_key (audit_queue slots world rs)) \<and>
    set (map audit_key (audit_queue slots world rs)) = (\<Union>a. (\<lambda>x. audit_key (NewSegment (snd x))) ` set (items_of rs a))"
proof -
  let ?step = "\<lambda>i. fold (queue_slot i) (map snd (rotate (aw_order world i) rs))"
  have steps: "distinct (map audit_key (fold ?step is q)) \<and>
      set (map audit_key (fold ?step is q)) = set (map audit_key q) \<union> (\<Union>i \<in> set is. \<Union>r \<in> snd ` set rs. slot_keys i r)"
    if "distinct (map audit_key q)" for "is" q
    using that
  proof (induction "is" arbitrary: q)
    case (Cons i "is")
    have "distinct (map audit_key (?step i q))" using queue_slots_keys(2) [OF Cons.prems] .
    from Cons.IH [OF this] show ?case unfolding fold.simps o_apply queue_slots_keys(1) by auto
  qed simp
  have "(\<Union>i \<in> {0 ..< nat slots}. slot_keys i r) = (\<lambda>x. audit_key (NewSegment (snd x))) ` set (rsv_items r)"
    if "r \<in> snd ` set rs" for r
  proof -
    have "length (rsv_items r) \<le> nat slots" using assms(1) that by blast
    then show ?thesis by (force simp: slot_keys_def set_conv_nth)
  qed
  then have "(\<Union>i \<in> {0 ..< nat slots}. \<Union>r \<in> snd ` set rs. slot_keys i r)
      = (\<Union>r \<in> snd ` set rs. (\<lambda>x. audit_key (NewSegment (snd x))) ` set (rsv_items r))"
    by (subst SUP_commute) (simp cong: SUP_cong)
  also have "\<dots> = (\<Union>a. (\<lambda>x. audit_key (NewSegment (snd x))) ` set (items_of rs a))"
  proof -
    have "snd ` set rs = ran (map_of rs)" by (rule ran_distinct [OF assms(2), symmetric])
    moreover have "(\<Union>r \<in> ran m. f (rsv_items r)) = (\<Union>a. case m a of None \<Rightarrow> {} | Some r \<Rightarrow> f (rsv_items r))"
      for m :: "NodeAlias \<rightharpoonup> Reservoir" and f :: "(rat \<times> LoopSegmentEntry) list \<Rightarrow> (uuid \<times> 64 word) set"
      by (fastforce simp: ran_def split: option.splits)
    moreover have "(\<lambda>x. audit_key (NewSegment (snd x))) ` set (items_of rs a)
        = (case map_of rs a of None \<Rightarrow> {} | Some r \<Rightarrow> (\<lambda>x. audit_key (NewSegment (snd x))) ` set (rsv_items r))" for a
      by (simp add: items_of_def split: option.split)
    ultimately show ?thesis by simp
  qed
  finally show ?thesis using steps [of "[]" "[0 ..< nat slots]"] by (simp add: audit_queue_def)
qed

lemma offers_mset:
  assumes "mset es = mset es'"
  shows "mset (offers es) = mset (offers es')"
proof -
  let ?f = "\<lambda>e. mset (if LoopSegmentEntry_Inline e then [] else map (\<lambda>p. (Alias p, e)) (lse_AliasPieces e))"
  have "mset (offers xs) = sum_mset (image_mset ?f (mset xs))" for xs
    by (simp add: offers_def mset_concat comp_def flip: sum_mset_sum_list)
  then show ?thesis using assms by simp
qed

text \<open>
  Property C29. A finished run of the audit observer over tables that do not change: each remote segment
  of the table is offered once for each of its pieces, with a key drawn for the offer, and for each node
  the reservoir holds the offers with the smallest keys, as many as the configured slots (three at most);
  the queue that is pushed has exactly the segments in the reservoirs, each once. So every node that
  holds a piece of a remote segment has a segment in the queue.
\<close>

theorem audit_queue_smallest:
  assumes "RunOnce (audit_methods slots world) t n k schedule tables observers = Some (Inr results)"
    and "i < length results" "results ! i = (obs, True)" "0 \<le> k" "\<forall>tab \<in> set tables. steady E segs tab"
    and "1 \<le> slots"
  shows "\<exists>es ss items queue. list_all2 (entry_of_row E) segs es \<and>
    mset (map offer_of ss) = mset (offers es) \<and> (\<forall>s \<in> set ss. drawn world s) \<and>
    (\<forall>a. smallest (nat (min slots 3)) (samples_for a ss) (items a)) \<and>
    ao_pushed obs = Some queue \<and> distinct (map audit_key queue) \<and>
    audit_key ` set queue = (\<Union>a. (\<lambda>x. audit_key (NewSegment (snd x))) ` set (items a)) \<and>
    (\<forall>(a, e) \<in> set (offers es). \<exists>e'. (a, e') \<in> set (offers es) \<and> audit_key (NewSegment e') \<in> audit_key ` set queue)"
proof -
  obtain ess es where fin: "observer_state slots world (ao_reservoirs obs) (concat ess)"
      "ao_pushed obs = Some (audit_queue slots world (ao_reservoirs obs))"
    and es: "list_all2 (entry_of_row E) segs es" "mset es = mset (concat ess)"
    using audit_obs.RunOnce_rows [OF assms(1-5)] by blast
  let ?rs = "ao_reservoirs obs" and ?n = "nat (min slots 3)"
  have n: "slots_of slots = ?n" using assms(6) by (simp add: NewReservoir_def maxReservoirSize_def min_def nat_eq_iff)
  obtain ss where ss: "map offer_of ss = offers (concat ess)" "\<forall>s \<in> set ss. drawn world s" "reservoirs_hold ?n ss ?rs"
    using fin(1) by (auto simp: observer_state_def n)
  have items: "smallest ?n (samples_for a ss) (items_of ?rs a)" for a using ss(3) by (simp add: reservoirs_hold_def)
  have keys: "distinct (map audit_key (audit_queue slots world ?rs)) \<and> set (map audit_key (audit_queue slots world ?rs))
      = (\<Union>a. (\<lambda>x. audit_key (NewSegment (snd x))) ` set (items_of ?rs a))"
  proof (rule audit_queue_keys)
    show d: "distinct (map fst ?rs)" using ss(3) by (simp add: reservoirs_hold_def)
    show "\<forall>r \<in> snd ` set ?rs. length (rsv_items r) \<le> nat slots"
    proof
      fix r assume "r \<in> snd ` set ?rs"
      then obtain a where "map_of ?rs a = Some r" using d by force
      then have "length (rsv_items r) \<le> ?n" using items [of a] by (simp add: items_of_def smallest_def)
      then show "length (rsv_items r) \<le> nat slots" by simp
    qed
  qed
  have m: "mset (map offer_of ss) = mset (offers es)" using ss(1) offers_mset [OF es(2)] by simp
  have each: "\<exists>e'. (a, e') \<in> set (offers es) \<and> audit_key (NewSegment e') \<in> audit_key ` set (audit_queue slots world ?rs)"
    if o: "(a, e) \<in> set (offers es)" for a e
  proof -
    have offered: "set (map offer_of ss) = set (offers es)" using m by (rule mset_eq_setD)
    then have "(a, e) \<in> offer_of ` set ss" using o by simp
    then obtain s where s: "s \<in> set ss" "offer_of s = (a, e)" by (elim imageE) (simp add: that)
    then have "samples_for a ss \<noteq> []" by (auto simp: samples_for_def offer_of_def filter_empty_conv)
    moreover have "0 < ?n" using assms(6) by simp
    ultimately have "items_of ?rs a \<noteq> []" using items [of a] smallest_none by metis
    then obtain x where x: "x \<in> set (items_of ?rs a)" by (cases "items_of ?rs a") auto
    then have "x \<in> set (samples_for a ss)" using smallest_set [OF items [of a]] by blast
    then have "(a, snd x) \<in> set (map offer_of ss)" by (force simp: samples_for_def offer_of_def)
    then show ?thesis using offered keys x by auto
  qed
  show ?thesis
  proof (intro exI conjI)
    show "list_all2 (entry_of_row E) segs es" by (rule es(1))
    show "\<forall>a. smallest ?n (samples_for a ss) (items_of ?rs a)" using items by blast
    show "\<forall>(a, e) \<in> set (offers es). \<exists>e'. (a, e') \<in> set (offers es) \<and>
        audit_key (NewSegment e') \<in> audit_key ` set (audit_queue slots world ?rs)" using each by blast
  qed (use m ss(2) fin(2) keys in simp_all)
qed

text \<open>Two nodes hold a piece of the one remote segment: it is queued once.\<close>

definition ex_audit_world :: audit_world where
  "ex_audit_world = \<lparr>aw_rand = (\<lambda>i j. of_nat (i + j + 1)), aw_order = (\<lambda>_. 0), aw_Push = (\<lambda>_. None)\<rparr>"

definition ex_audit_observer :: audit_Observer where
  "ex_audit_observer = \<lparr>ao_reservoirs = [], ao_forks = 0, ao_pushed = None\<rparr>"

theorem audit_queue_smallest_witness:
  "\<exists>obs queue. RunOnce (audit_methods 2 ex_audit_world) 40 2 1 [1, 0] [ex_remote_tables, ex_remote_tables] [ex_audit_observer]
      = Some (Inr [(obs, True)]) \<and> ao_pushed obs = Some queue \<and> map as_StreamID queue = [5] \<and>
    (\<exists>es. list_all2 (entry_of_row ex_entries) (segments ex_copied) es \<and> (\<exists>s. s \<in> set (offers es)))"
proof -
  let ?run = "RunOnce (audit_methods 2 ex_audit_world) 40 2 1 [1, 0] [ex_remote_tables, ex_remote_tables] [ex_audit_observer]"
  have "case ?run of Some (Inr [(obs, True)]) \<Rightarrow> map_option (map as_StreamID) (ao_pushed obs) = Some [5] | _ \<Rightarrow> False"
    by code_simp
  then obtain obs where run: "?run = Some (Inr [(obs, True)])" and q: "map_option (map as_StreamID) (ao_pushed obs) = Some [5]"
    by (auto split: option.splits sum.splits list.splits prod.splits bool.splits)
  have st: "\<forall>tab \<in> set [ex_remote_tables, ex_remote_tables]. steady ex_entries (segments ex_copied) tab"
    using ex_remote_steady by simp
  have pre: "0 < length [(obs, True)]" "[(obs, True)] ! 0 = (obs, True)" "(0 :: int) \<le> 1" "(1 :: int) \<le> 2" by simp_all
  note all = audit_queue_smallest [OF run pre(1-3) st pre(4)]
  obtain es ss items queue where a: "list_all2 (entry_of_row ex_entries) (segments ex_copied) es"
    "mset (map offer_of ss) = mset (offers es)" "ao_pushed obs = Some queue"
    "\<forall>a. smallest (nat (min 2 3)) (samples_for a ss) (items a)"
    "audit_key ` set queue = (\<Union>a. (\<lambda>x. audit_key (NewSegment (snd x))) ` set (items a))"
    using all by (elim exE conjE) (rule that)
  have "queue \<noteq> []" using q a(3) by auto
  then obtain b x where "x \<in> set (items b)" using a(5) by (cases queue) auto
  then have "samples_for b ss \<noteq> []" using smallest_set [OF spec [OF a(4), of b]] by auto
  then have "ss \<noteq> []" by (auto simp: samples_for_def)
  then have "offers es \<noteq> []" using a(2) by auto
  then have "\<exists>s. s \<in> set (offers es)" by (cases "offers es") auto
  then show ?thesis using run q a(1,3) by (intro exI [of _ obs] exI [of _ queue]) auto
qed

end
