(* ===== verification/VerifyQueue.thy ===== *)
theory VerifyQueue
  imports AuditSampling
begin

text \<open>
  The queue of segments to audit (\<open>satellitedb/verifyqueue.go\<close>): the audit observer pushes the segments it
  has chosen, in batches, and the workers take them one by one. Every statement is one step on the
  table, at the time of the statement. A time is a number of nanoseconds.
\<close>

subsection \<open>The queue of segments to verify\<close>

record verification_audit =
  va_inserted_at :: time
  va_segment :: audit_Segment

definition va_key :: "verification_audit \<Rightarrow> time \<times> uuid \<times> int" where
  "va_key r = (va_inserted_at r, as_StreamID (va_segment r), sint (SegmentPosition_Encode (as_Position (va_segment r))))"

definition by_stream_and_position :: "audit_Segment \<Rightarrow> uuid \<times> 64 word" where
  "by_stream_and_position s = (as_StreamID s, SegmentPosition_Encode (as_Position s))"

text \<open>One \<open>INSERT\<close> of a batch at the time \<open>now\<close>; a row that is there already fails it as a whole.\<close>

definition insert_batch ::
  "time \<Rightarrow> audit_Segment list \<Rightarrow> verification_audit list \<Rightarrow> verification_audit list option" where
  "insert_batch now batch rows =
     (let new = map (\<lambda>s. \<lparr>va_inserted_at = now, va_segment = s\<rparr>) batch in
      if distinct (map va_key new) \<and> set (map va_key new) \<inter> set (map va_key rows) = {} then Some (rows @ new) else None)"

text \<open>The batches are inserted one after the other, the \<open>j\<close>-th at \<open>nows j\<close>.\<close>

function push_batches ::
  "(nat \<Rightarrow> time) \<Rightarrow> nat \<Rightarrow> nat \<Rightarrow> audit_Segment list \<Rightarrow> verification_audit list \<Rightarrow> verification_audit list \<times> bool" where
  "push_batches nows j m segs rows =
     (if segs = [] then (rows, True)
      else if m = 0 then (rows, False)
      else case insert_batch (nows j) (take m segs) rows of
        None \<Rightarrow> (rows, False)
      | Some rows' \<Rightarrow> push_batches nows (j + 1) m (drop m segs) rows')"
  by pat_completeness auto
termination by (relation "measure (\<lambda>(nows, j, m, segs, rows). length segs)") auto

declare push_batches.simps [simp del]

text \<open>The table and whether the push succeeded. With batches of no segments the loop would not end, and
  with a negative size the slices cannot be made: neither happens with the observer's configuration,
  which has at least one, and there is no result.\<close>

definition verifyQueue_Push ::
  "(nat \<Rightarrow> time) \<Rightarrow> audit_Segment list \<Rightarrow> int \<Rightarrow> verification_audit list \<Rightarrow> (verification_audit list \<times> bool) option" where
  "verifyQueue_Push nows segs maxBatchSize rows =
     (if maxBatchSize < 0 \<or> maxBatchSize = 0 \<and> segs \<noteq> [] then None
      else Some (push_batches nows 0 (nat maxBatchSize) (sort_key by_stream_and_position segs) rows))"

datatype queue_error = ErrEmptyQueue

definition verifyQueue_Next :: "verification_audit list \<Rightarrow> verification_audit list \<times> (queue_error + audit_Segment)" where
  "verifyQueue_Next rows =
     (case sort_key va_key rows of
        [] \<Rightarrow> (rows, Inl ErrEmptyQueue)
      | r # _ \<Rightarrow> (sql_delete (\<lambda>v. va_key v = va_key r) rows, Inr (va_segment r)))"

text \<open>The segments of repeated calls of \<open>Next\<close>, up to the one that finds the queue empty.\<close>

fun verify_calls :: "nat \<Rightarrow> verification_audit list \<Rightarrow> audit_Segment list \<times> bool" where
  "verify_calls 0 rows = ([], False)"
| "verify_calls (Suc n) rows =
     (case verifyQueue_Next rows of
        (rows', Inl ErrEmptyQueue) \<Rightarrow> ([], True)
      | (rows', Inr s) \<Rightarrow> (case verify_calls n rows' of (ss, finished) \<Rightarrow> (s # ss, finished)))"

lemma unique_delete_first:
  assumes "unique_key va_key rows" "sort_key va_key rows = r # rest"
  shows "sort_key va_key (sql_delete (\<lambda>v. va_key v = va_key r) rows) = rest"
proof -
  have d: "distinct (map va_key (r # rest))"
    using assms(1) arg_cong [OF assms(2), of "\<lambda>xs. mset (map va_key xs)"]
    by (metis mset_eq_imp_distinct_iff mset_map mset_sort unique_key_def)
  have "sort_key va_key (sql_delete (\<lambda>v. va_key v = va_key r) rows) = filter (\<lambda>v. va_key v \<noteq> va_key r) (sort_key va_key rows)"
    by (simp add: sql_delete_def filter_sort)
  also have "\<dots> = filter (\<lambda>v. va_key v \<noteq> va_key r) rest" unfolding assms(2) by simp
  also have "\<dots> = rest" using d unfolding filter_id_conv by (auto simp: image_iff)
  finally show ?thesis .
qed

lemma verify_calls_all:
  assumes "unique_key va_key rows" "length rows < n"
  shows "verify_calls n rows = (map va_segment (sort_key va_key rows), True)"
  using assms
proof (induction n arbitrary: rows)
  case (Suc n)
  show ?case
  proof (cases "sort_key va_key rows")
    case (Cons r rest)
    let ?rows = "sql_delete (\<lambda>v. va_key v = va_key r) rows"
    have s: "sort_key va_key ?rows = rest" by (rule unique_delete_first [OF Suc.prems(1) Cons])
    have "length rest < n"
      using Suc.prems(2) arg_cong [OF Cons, of length] by simp
    then have "length ?rows < n" using arg_cong [OF s, of length] by simp
    from Suc.IH [OF unique_key_delete [OF Suc.prems(1)] this] show ?thesis
      using Cons s by (simp add: verifyQueue_Next_def)
  qed (simp add: verifyQueue_Next_def)
qed simp

lemma insert_batch_rows:
  assumes "insert_batch now batch rows = Some rows'" "unique_key va_key rows"
  shows "unique_key va_key rows' \<and> mset (map va_segment rows') = mset (map va_segment rows) + mset batch \<and>
    (\<forall>r \<in> set rows'. r \<in> set rows \<or> va_inserted_at r = now)"
proof -
  have r: "rows' = rows @ map (\<lambda>s. \<lparr>va_inserted_at = now, va_segment = s\<rparr>) batch"
    and d: "distinct (map va_key (map (\<lambda>s. \<lparr>va_inserted_at = now, va_segment = s\<rparr>) batch))"
      "set (map va_key (map (\<lambda>s. \<lparr>va_inserted_at = now, va_segment = s\<rparr>) batch)) \<inter> set (map va_key rows) = {}"
    using assms(1) by (auto simp: insert_batch_def Let_def split: if_splits)
  have "unique_key va_key rows'" using assms(2) d unfolding r unique_key_def by (auto simp: comp_def)
  then show ?thesis unfolding r by (auto simp: comp_def)
qed

lemma push_batches_rows:
  "push_batches nows j m segs rows = (rows', True) \<Longrightarrow> unique_key va_key rows \<Longrightarrow>
    unique_key va_key rows' \<and> mset (map va_segment rows') = mset (map va_segment rows) + mset segs \<and>
    (\<forall>r \<in> set rows'. r \<in> set rows \<or> (\<exists>i. va_inserted_at r = nows i))"
proof (induction nows j m segs rows rule: push_batches.induct)
  case (1 nows j m segs rows)
  show ?case
  proof (cases "segs = [] \<or> m = 0")
    case True then show ?thesis using 1 by (auto simp: push_batches.simps [of nows j m segs rows] split: if_splits)
  next
    case False
    then obtain rows1 where i: "insert_batch (nows j) (take m segs) rows = Some rows1"
      and p: "push_batches nows (j + 1) m (drop m segs) rows1 = (rows', True)"
      using "1.prems"(1) by (auto simp: push_batches.simps [of nows j m segs rows] split: option.splits)
    note r1 = insert_batch_rows [OF i "1.prems"(2)]
    have "mset (take m segs) + mset (drop m segs) = mset segs" by (metis append_take_drop_id mset_append)
    with "1.IH" [OF _ _ i p] False r1 show ?thesis by (auto simp: ac_simps)
  qed
qed

lemma push_batches_new:
  "push_batches nows j m segs rows = (rows', b) \<Longrightarrow> \<exists>new. rows' = rows @ new \<and> (\<forall>x \<in> set new. \<exists>i. va_inserted_at x = nows i)"
proof (induction nows j m segs rows rule: push_batches.induct)
  case (1 nows j m segs rows)
  show ?case
  proof (cases "segs = [] \<or> m = 0 \<or> insert_batch (nows j) (take m segs) rows = None")
    case True then show ?thesis using "1.prems" by (auto simp: push_batches.simps [of nows j m segs rows] split: if_splits)
  next
    case False
    then obtain rows1 where i: "insert_batch (nows j) (take m segs) rows = Some rows1"
      and p: "push_batches nows (j + 1) m (drop m segs) rows1 = (rows', b)"
      using "1.prems" by (auto simp: push_batches.simps [of nows j m segs rows])
    have "rows1 = rows @ map (\<lambda>s. \<lparr>va_inserted_at = nows j, va_segment = s\<rparr>) (take m segs)"
      using i by (auto simp: insert_batch_def Let_def split: if_splits)
    moreover obtain new where "rows' = rows1 @ new" "\<forall>x \<in> set new. \<exists>i. va_inserted_at x = nows i"
      using "1.IH" [OF _ _ i p] False by auto
    ultimately show ?thesis by auto
  qed
qed

lemma filter_sort_same: "filter (\<lambda>x. c = f x) (sort_key f xs) = filter (\<lambda>x. c = f x) xs"
  using sort_key_stable [of f c xs] by (simp add: eq_commute)

lemma sort_key_append:
  assumes "\<And>x y. x \<in> set xs \<Longrightarrow> y \<in> set ys \<Longrightarrow> f x \<le> f y"
  shows "sort_key f (xs @ ys) = sort_key f xs @ sort_key f ys"
proof (rule properties_for_sort_key)
  fix k assume "k \<in> set (sort_key f xs @ sort_key f ys)"
  show "filter (\<lambda>x. f k = f x) (sort_key f xs @ sort_key f ys) = filter (\<lambda>x. f k = f x) (xs @ ys)"
    by (simp add: filter_sort_same)
qed (use assms in \<open>auto simp: sorted_append\<close>)

text \<open>
  Property C30. What is pushed comes out: when \<open>Push\<close> succeeds, the following calls of \<open>Next\<close> return every
  segment that was in the queue and every segment that was pushed exactly once, in the order of their
  times, then of stream and position, and then report the queue as empty; segments that were there
  before come first when their times are earlier.
\<close>

theorem verify_queue_delivers:
  assumes "unique_key va_key rows" "verifyQueue_Push nows segs m rows = Some (rows', True)" "length rows + length segs < n"
  shows "\<exists>out. verify_calls n rows' = (map va_segment out, True) \<and> sorted (map va_key out) \<and>
    mset (map va_segment out) = mset (map va_segment rows) + mset segs \<and>
    ((\<forall>r \<in> set rows. \<forall>i. va_inserted_at r < nows i) \<longrightarrow> take (length rows) out = sort_key va_key rows)"
proof -
  have p: "push_batches nows 0 (nat m) (sort_key by_stream_and_position segs) rows = (rows', True)"
    using assms(2) by (auto simp: verifyQueue_Push_def split: if_splits)
  note r = push_batches_rows [OF p assms(1)]
  then have ms: "mset (map va_segment rows') = mset (map va_segment rows) + mset segs" by simp
  have "size (mset (map va_segment rows')) = length rows + length segs" unfolding ms by simp
  then have "length rows' < n" using assms(3) by simp
  then have calls: "verify_calls n rows' = (map va_segment (sort_key va_key rows'), True)"
    using verify_calls_all r by blast
  have "take (length rows) (sort_key va_key rows') = sort_key va_key rows"
    if early: "\<forall>r \<in> set rows. \<forall>i. va_inserted_at r < nows i"
  proof -
    obtain new where new: "rows' = rows @ new" "\<forall>x \<in> set new. \<exists>i. va_inserted_at x = nows i"
      using push_batches_new [OF p] by blast
    then have "va_key r \<le> va_key x" if "r \<in> set rows" "x \<in> set new" for r x
      using early that by (force simp: va_key_def less_eq_prod_def)
    then have "sort_key va_key rows' = sort_key va_key rows @ sort_key va_key new"
      unfolding new(1) by (intro sort_key_append) auto
    then show ?thesis by simp
  qed
  then show ?thesis using calls ms by (intro exI [of _ "sort_key va_key rows'"]) simp
qed

definition ex_audit_segment :: "uuid \<Rightarrow> audit_Segment" where
  "ex_audit_segment u = \<lparr>as_StreamID = u, as_Position = \<lparr>Part = 0, Index = 0\<rparr>, as_ExpiresAt = None, as_EncryptedSize = 100\<rparr>"

lemma verify_queue_delivers_witness:
  "\<exists>rows'. verifyQueue_Push (\<lambda>i. 20 + int i) (map ex_audit_segment [3, 1, 2]) 2
      [\<lparr>va_inserted_at = 10, va_segment = ex_audit_segment 9\<rparr>] = Some (rows', True) \<and>
    (\<exists>out :: verification_audit list. verify_calls 5 rows' = (map va_segment out, True) \<and> take 1 (map va_segment out) = [ex_audit_segment 9])"
proof -
  let ?rows = "[\<lparr>va_inserted_at = 10, va_segment = ex_audit_segment 9\<rparr>]"
  have "case verifyQueue_Push (\<lambda>i. 20 + int i) (map ex_audit_segment [3, 1, 2]) 2 ?rows of
      Some (rows', True) \<Rightarrow> True | _ \<Rightarrow> False"
    by code_simp
  then obtain rows' where push: "verifyQueue_Push (\<lambda>i. 20 + int i) (map ex_audit_segment [3, 1, 2]) 2 ?rows = Some (rows', True)"
    by (auto split: option.splits prod.splits bool.splits)
  have "unique_key va_key ?rows" by (simp add: unique_key_def)
  then obtain out :: "verification_audit list" where out: "verify_calls 5 rows' = (map va_segment out, True)"
    "(\<forall>r \<in> set ?rows. \<forall>i. va_inserted_at r < 20 + int i) \<longrightarrow> take (length ?rows) out = sort_key va_key ?rows"
    using verify_queue_delivers [OF _ push, of 5] by auto
  then have "take 1 (map va_segment out) = [ex_audit_segment 9]" by (simp add: take_map)
  then show ?thesis using push out(1) by blast
qed

end
