(* ===== verification/ReverifyQueue.thy ===== *)
theory ReverifyQueue
  imports VerifyQueue
begin

text \<open>
  The queue of pieces to reverify (\<open>satellitedb/reverifyqueue.go\<close>): a node that timed out on an audit is
  asked again until it answers. Each statement is one step on the table at the time of the statement, a
  number of nanoseconds. A row keeps the locator of its piece; the primary key is node, stream and
  position.
\<close>

subsection \<open>The table and its statements\<close>

record PieceLocator =
  pl_StreamID :: uuid
  pl_Position :: SegmentPosition
  pl_NodeID :: node_id
  pl_PieceNum :: int

record ReverificationJob =
  job_Locator :: PieceLocator
  job_InsertedAt :: time
  job_ReverifyCount :: int
  job_LastAttempt :: time

record reverification_audit =
  ra_locator :: PieceLocator
  ra_inserted_at :: time
  ra_last_attempt :: "time option"
  ra_reverify_count :: int

definition piece_key :: "PieceLocator \<Rightarrow> node_id \<times> uuid \<times> SegmentPosition" where
  "piece_key l = (pl_NodeID l, pl_StreamID l, pl_Position l)"

definition ra_key :: "reverification_audit \<Rightarrow> node_id \<times> uuid \<times> SegmentPosition" where
  "ra_key r = piece_key (ra_locator r)"

definition reverify_Insert :: "time \<Rightarrow> PieceLocator \<Rightarrow> reverification_audit list \<Rightarrow> reverification_audit list" where
  "reverify_Insert now piece rows =
     (if piece_key piece \<in> set (map ra_key rows) then rows
      else rows @ [\<lparr>ra_locator = piece, ra_inserted_at = now, ra_last_attempt = None, ra_reverify_count = 0\<rparr>])"

definition last_tried :: "reverification_audit \<Rightarrow> time" where
  "last_tried r = (case ra_last_attempt r of None \<Rightarrow> ra_inserted_at r | Some t \<Rightarrow> t)"

definition Microseconds :: "time \<Rightarrow> int" where
  "Microseconds d = d sdiv 1000"

definition due :: "time \<Rightarrow> time \<Rightarrow> reverification_audit \<Rightarrow> bool" where
  "due now retryInterval r \<longleftrightarrow> last_tried r < now - 1000 * Microseconds retryInterval"

text \<open>The last attempt is not among the columns that are returned.\<close>

definition reverify_GetNextJob ::
  "time \<Rightarrow> time \<Rightarrow> reverification_audit list \<Rightarrow> reverification_audit list \<times> (queue_error + ReverificationJob)" where
  "reverify_GetNextJob now retryInterval rows =
     (case sort_key ra_inserted_at (filter (due now retryInterval) rows) of
        [] \<Rightarrow> (rows, Inl ErrEmptyQueue)
      | next_entry # _ \<Rightarrow>
          (map (\<lambda>r. if ra_key r = ra_key next_entry
                     then r\<lparr>ra_last_attempt := Some now, ra_reverify_count := ra_reverify_count r + 1\<rparr> else r) rows,
           Inr \<lparr>job_Locator = ra_locator next_entry, job_InsertedAt = ra_inserted_at next_entry,
                job_ReverifyCount = ra_reverify_count next_entry + 1, job_LastAttempt = 0\<rparr>))"

definition reverify_Remove :: "PieceLocator \<Rightarrow> reverification_audit list \<Rightarrow> reverification_audit list \<times> bool" where
  "reverify_Remove piece rows =
     (filter (\<lambda>r. ra_key r \<noteq> piece_key piece) rows, piece_key piece \<in> set (map ra_key rows))"

definition convertDBJob :: "reverification_audit \<Rightarrow> ReverificationJob" where
  "convertDBJob info =
     \<lparr>job_Locator = ra_locator info, job_InsertedAt = ra_inserted_at info, job_ReverifyCount = ra_reverify_count info,
      job_LastAttempt = (case ra_last_attempt info of None \<Rightarrow> 0 | Some t \<Rightarrow> t)\<rparr>"

definition stream_position :: "reverification_audit \<Rightarrow> uuid \<times> int" where
  "stream_position r = (pl_StreamID (ra_locator r), sint (SegmentPosition_Encode (pl_Position (ra_locator r))))"

definition reverify_GetByNodeID :: "node_id \<Rightarrow> reverification_audit list \<Rightarrow> ReverificationJob option" where
  "reverify_GetByNodeID nodeID rows =
     (case sort_key stream_position (filter (\<lambda>r. pl_NodeID (ra_locator r) = nodeID) rows) of
        [] \<Rightarrow> None
      | r # _ \<Rightarrow> Some (convertDBJob r))"

definition reverify_GetAllContainedNodes :: "reverification_audit list \<Rightarrow> node_id list" where
  "reverify_GetAllContainedNodes rows = remdups (map (\<lambda>r. pl_NodeID (ra_locator r)) rows)"

subsection \<open>Which job is next\<close>

lemma unique_first:
  assumes "unique_key ra_key rows" "r \<in> set rows" "r' \<in> set rows" "ra_key r = ra_key r'"
  shows "r = r'"
  using assms by (auto simp: unique_key_def distinct_map inj_on_def)

lemma GetNextJob_cases:
  assumes "unique_key ra_key rows"
  shows "(\<forall>r \<in> set rows. \<not> due now i r) \<and> reverify_GetNextJob now i rows = (rows, Inl ErrEmptyQueue) \<or>
    (\<exists>r \<in> set rows. due now i r \<and> (\<forall>r' \<in> set rows. due now i r' \<longrightarrow> ra_inserted_at r \<le> ra_inserted_at r') \<and>
       reverify_GetNextJob now i rows =
         (map (\<lambda>r'. if r' = r then r\<lparr>ra_last_attempt := Some now, ra_reverify_count := ra_reverify_count r + 1\<rparr> else r') rows,
          Inr \<lparr>job_Locator = ra_locator r, job_InsertedAt = ra_inserted_at r, job_ReverifyCount = ra_reverify_count r + 1,
               job_LastAttempt = 0\<rparr>))"
proof (cases "sort_key ra_inserted_at (filter (due now i) rows)")
  case Nil
  then have "filter (due now i) rows = []" by (metis set_empty set_sort)
  then show ?thesis using Nil by (simp add: reverify_GetNextJob_def filter_empty_conv)
next
  case (Cons r rest)
  have "set (r # rest) = set (filter (due now i) rows)" unfolding Cons [symmetric] by simp
  then have r: "r \<in> set rows" "due now i r" and all: "\<And>r'. r' \<in> set rows \<Longrightarrow> due now i r' \<Longrightarrow> r' \<in> set (r # rest)" by auto
  have "sorted (map ra_inserted_at (r # rest))" unfolding Cons [symmetric] by simp
  then have least: "ra_inserted_at r \<le> ra_inserted_at r'" if "r' \<in> set rows" "due now i r'" for r'
    using all [OF that] by auto
  have "map (\<lambda>r'. if ra_key r' = ra_key r then r'\<lparr>ra_last_attempt := Some now, ra_reverify_count := ra_reverify_count r' + 1\<rparr> else r') rows =
      map (\<lambda>r'. if r' = r then r\<lparr>ra_last_attempt := Some now, ra_reverify_count := ra_reverify_count r + 1\<rparr> else r') rows"
    using unique_first [OF assms _ r(1)] by (auto intro!: map_cong)
  then show ?thesis using Cons r least by (auto simp: reverify_GetNextJob_def)
qed

subsection \<open>Sequences of operations\<close>

datatype queue_op = OpInsert PieceLocator | OpGetNextJob | OpRemove PieceLocator

text \<open>The operations with their times; the claims are the times at which a job was handed out, the latest first.\<close>

fun queue_run ::
  "time \<Rightarrow> (time \<times> queue_op) list \<Rightarrow> reverification_audit list \<times> (time \<times> PieceLocator) list \<Rightarrow>
     reverification_audit list \<times> (time \<times> PieceLocator) list" where
  "queue_run i [] s = s"
| "queue_run i ((now, op) # ops) (rows, claims) =
     (case op of
        OpInsert piece \<Rightarrow> queue_run i ops (reverify_Insert now piece rows, claims)
      | OpRemove piece \<Rightarrow> queue_run i ops (fst (reverify_Remove piece rows), claims)
      | OpGetNextJob \<Rightarrow>
          (case reverify_GetNextJob now i rows of
             (rows', Inl _) \<Rightarrow> queue_run i ops (rows', claims)
           | (rows', Inr job) \<Rightarrow> queue_run i ops (rows', (now, job_Locator job) # claims)))"

text \<open>Each row was tried, or came, after every claim of its key so far; the claims so far are apart.\<close>

definition claims_apart :: "int \<Rightarrow> (time \<times> PieceLocator) list \<Rightarrow> bool" where
  "claims_apart gap claims \<longleftrightarrow>
     sorted_wrt (\<lambda>later earlier. piece_key (snd later) = piece_key (snd earlier) \<longrightarrow> fst later - fst earlier > gap) claims"

definition queue_inv :: "time \<Rightarrow> time \<Rightarrow> reverification_audit list \<times> (time \<times> PieceLocator) list \<Rightarrow> bool" where
  "queue_inv i now s \<longleftrightarrow> unique_key ra_key (fst s) \<and> (\<forall>(t, l) \<in> set (snd s). t \<le> now) \<and>
     (\<forall>r \<in> set (fst s). \<forall>(t, l) \<in> set (snd s). piece_key l = ra_key r \<longrightarrow> t \<le> last_tried r) \<and>
     claims_apart (1000 * Microseconds i) (snd s)"

lemma last_tried_simps [simp]:
  "last_tried (r\<lparr>ra_last_attempt := Some now, ra_reverify_count := n\<rparr>) = now"
  "last_tried \<lparr>ra_locator = l, ra_inserted_at = t, ra_last_attempt = None, ra_reverify_count = n\<rparr> = t"
  "ra_key (r\<lparr>ra_last_attempt := x, ra_reverify_count := n\<rparr>) = ra_key r"
  "ra_key \<lparr>ra_locator = l, ra_inserted_at = t, ra_last_attempt = y, ra_reverify_count = n\<rparr> = piece_key l"
  by (simp_all add: last_tried_def ra_key_def)

lemma queue_inv_later: "queue_inv i now s \<Longrightarrow> now \<le> now' \<Longrightarrow> queue_inv i now' s"
  by (fastforce simp: queue_inv_def)

lemma Insert_inv:
  assumes "queue_inv i now (rows, claims)"
  shows "queue_inv i now (reverify_Insert now piece rows, claims)"
  using assms by (auto simp: queue_inv_def reverify_Insert_def unique_key_def)

lemma Remove_inv:
  assumes "queue_inv i now (rows, claims)"
  shows "queue_inv i now (fst (reverify_Remove piece rows), claims)"
  using assms by (auto simp: queue_inv_def reverify_Remove_def unique_key_def distinct_map_filter)

lemma GetNextJob_inv:
  assumes "queue_inv i now (rows, claims)" "reverify_GetNextJob now i rows = (rows', Inr job)"
  shows "queue_inv i now (rows', (now, job_Locator job) # claims)"
proof -
  have u: "unique_key ra_key rows" using assms(1) by (simp add: queue_inv_def)
  obtain r where r: "r \<in> set rows" "due now i r" and job: "job_Locator job = ra_locator r"
    and rows': "rows' = map (\<lambda>r'. if r' = r then r\<lparr>ra_last_attempt := Some now, ra_reverify_count := ra_reverify_count r + 1\<rparr> else r') rows"
    using GetNextJob_cases [OF u, of now i]
  proof (elim disjE conjE bexE, goal_cases)
    case 1 then show ?case using assms(2) by simp
  next
    case (2 r) show ?case by (rule 2(1) [of r]) (use 2(2-) assms(2) in simp_all)
  qed
  have keys: "map ra_key rows' = map ra_key rows" unfolding rows' by (auto simp: comp_def)
  have "claims_apart (1000 * Microseconds i) ((now, ra_locator r) # claims)"
  proof -
    have "now - t > 1000 * Microseconds i" if c: "(t, l) \<in> set claims" and k: "piece_key (ra_locator r) = piece_key l" for t l
    proof -
      have "\<forall>(t, l) \<in> set claims. piece_key l = ra_key r \<longrightarrow> t \<le> last_tried r"
        using assms(1) r(1) unfolding queue_inv_def by (metis fst_conv snd_conv)
      then have "t \<le> last_tried r" using c k by (force simp: ra_key_def)
      then show ?thesis using r(2) by (simp add: due_def)
    qed
    moreover have "claims_apart (1000 * Microseconds i) claims" using assms(1) by (simp add: queue_inv_def)
    ultimately show ?thesis by (auto simp: claims_apart_def)
  qed
  moreover have "t \<le> last_tried r'" if r': "r' \<in> set rows'" and c: "(t, l) \<in> set ((now, ra_locator r) # claims)" and k: "piece_key l = ra_key r'" for r' t l
  proof (cases "r' = r\<lparr>ra_last_attempt := Some now, ra_reverify_count := ra_reverify_count r + 1\<rparr>")
    case True then show ?thesis using c assms(1) by (auto simp: queue_inv_def)
  next
    case False
    then have old: "r' \<in> set rows" "r' \<noteq> r" using r' by (auto simp: rows' split: if_splits)
    then have "ra_key r' \<noteq> ra_key r" using unique_first [OF u _ r(1)] by blast
    then show ?thesis using c k old assms(1) by (auto simp: queue_inv_def ra_key_def)
  qed
  moreover have "unique_key ra_key rows'" using u keys by (simp add: unique_key_def)
  ultimately show ?thesis using assms(1) by (auto simp: queue_inv_def job)
qed

lemma queue_run_inv:
  "queue_inv i now s \<Longrightarrow> sorted (map fst ops) \<Longrightarrow> \<forall>(t, op) \<in> set ops. now \<le> t \<Longrightarrow>
    claims_apart (1000 * Microseconds i) (snd (queue_run i ops s))"
proof (induction ops arbitrary: now s)
  case Nil then show ?case by (simp add: queue_inv_def)
next
  case (Cons x ops)
  obtain t op where x: "x = (t, op)" by (cases x)
  obtain rows claims where s: "s = (rows, claims)" by (cases s)
  have inv: "queue_inv i t (rows, claims)" using queue_inv_later [OF Cons.prems(1), of t] Cons.prems(3) x s by auto
  have rest: "sorted (map fst ops)" "\<forall>(t', op) \<in> set ops. t \<le> t'" using Cons.prems(2) x by auto
  note step = Cons.IH [OF _ rest]
  show ?case
  proof (cases op)
    case OpGetNextJob
    obtain rows' res where g: "reverify_GetNextJob t i rows = (rows', res)" by (cases "reverify_GetNextJob t i rows")
    show ?thesis
    proof (cases res)
      case (Inl e)
      have "rows' = rows" using GetNextJob_cases [of rows t i] inv g Inl by (auto simp: queue_inv_def)
      then show ?thesis using step [OF inv] by (simp add: x s OpGetNextJob g Inl)
    next
      case (Inr job)
      show ?thesis using step [OF GetNextJob_inv [OF inv g [unfolded Inr]]] by (simp add: x s OpGetNextJob g Inr)
    qed
  qed (use step [OF Insert_inv [OF inv]] step [OF Remove_inv [OF inv]] in \<open>simp_all add: x s\<close>)
qed

text \<open>
  Property C31. However insertions, claims and removals of jobs follow each other, with times that do not
  go back: two claims of the job of a piece are more than the retry interval (in whole microseconds)
  apart, also when the job was removed and inserted again in between.
\<close>

theorem reverify_claims_apart:
  assumes "unique_key ra_key rows" "sorted (map fst ops)" "queue_run i ops (rows, []) = (rows', claims)"
    and "m < n" "n < length claims" "piece_key (snd (claims ! m)) = piece_key (snd (claims ! n))"
  shows "fst (claims ! m) - fst (claims ! n) > 1000 * Microseconds i"
proof -
  have "claims_apart (1000 * Microseconds i) (snd (queue_run i ops (rows, [])))"
  proof (cases ops)
    case Nil then show ?thesis by (simp add: claims_apart_def)
  next
    case (Cons x xs)
    show ?thesis
      by (rule queue_run_inv [where now = "fst x"]) (use assms(1,2) Cons in \<open>auto simp: queue_inv_def claims_apart_def\<close>)
  qed
  then show ?thesis using assms(3-6) by (auto simp: claims_apart_def sorted_wrt_iff_nth_less)
qed

text \<open>
  Lemma. A job that has just been inserted is not handed out before the retry interval has passed,
  although no worker has claimed it and the queue holds no other job: \<open>GetNextJob\<close> reports an empty queue.
  Its comment excludes only jobs that another worker has claimed.
\<close>

theorem new_job_not_handed_out:
  assumes "now \<le> inserted + 1000 * Microseconds i"
  shows "reverify_GetNextJob now i (reverify_Insert inserted piece []) = (reverify_Insert inserted piece [], Inl ErrEmptyQueue)"
  using assms by (simp add: reverify_Insert_def reverify_GetNextJob_def due_def)

definition ex_piece :: PieceLocator where
  "ex_piece = \<lparr>pl_StreamID = 7, pl_Position = \<lparr>Part = 0, Index = 1\<rparr>, pl_NodeID = 5, pl_PieceNum = 3\<rparr>"

definition ex_queue_ops :: "(time \<times> queue_op) list" where
  "ex_queue_ops = [(10000, OpInsert ex_piece), (12000, OpGetNextJob), (16000, OpGetNextJob), (17000, OpRemove ex_piece),
     (18000, OpInsert ex_piece), (24000, OpGetNextJob)]"

lemma reverify_claims_apart_witness:
  "\<exists>rows claims. queue_run 5000 ex_queue_ops ([], []) = (rows, claims) \<and> length claims = 2 \<and>
    fst (claims ! 0) - fst (claims ! 1) > 1000 * Microseconds 5000"
proof -
  obtain rows claims where run: "queue_run 5000 ex_queue_ops ([], []) = (rows, claims)" by fastforce
  have c: "snd (queue_run 5000 ex_queue_ops ([], [])) = [(24000, ex_piece), (16000, ex_piece)]" by code_simp
  have "fst (claims ! 0) - fst (claims ! 1) > 1000 * Microseconds 5000"
    by (rule reverify_claims_apart [OF _ _ run])
      (use run c in \<open>auto simp: unique_key_def ex_queue_ops_def\<close>)
  then show ?thesis using run c by auto
qed

lemma new_job_not_handed_out_witness:
  "reverify_GetNextJob 14000 5000 (reverify_Insert 10000 ex_piece []) = (reverify_Insert 10000 ex_piece [], Inl ErrEmptyQueue)"
  by (rule new_job_not_handed_out) code_simp

end
