(* ===== verification/ReputationService.thy ===== *)
theory ReputationService
  imports WriteCacheProps ReverifyQueue
begin

text \<open>
  The reputation service (\<open>reputation/service.go\<close>): \<open>ApplyAudit\<close> updates the reputation of a node through the
  interface \<open>reputation.DB\<close>, which the table and the cache in front of it implement, and copies a change of
  its status to the nodes of the overlay (\<open>overlay/service.go\<close>, \<open>satellitedb/overlaycache.go\<close>). Each call
  is a step of its own; what fails in it, and the time, is the environment of the call.
\<close>

subsection \<open>The nodes of the overlay\<close>

record overlay_node =
  on_Email :: string
  on_Disqualified :: "time option"
  on_DisqualificationReason :: "int option"
  on_UnknownAuditSuspended :: "time option"
  on_OfflineSuspended :: "time option"
  on_VettedAt :: "time option"
  on_ExitFinishedAt :: "time option"
  on_Contained :: "time option"
  on_LastContactSuccess :: time

record ReputationStatus =
  rs_Email :: string
  rs_Disqualified :: "time option"
  rs_UnknownAuditSuspended :: "time option"
  rs_OfflineSuspended :: "time option"
  rs_VettedAt :: "time option"

record ReputationUpdate =
  ru_Disqualified :: "time option"
  ru_DisqualificationReason :: int
  ru_UnknownAuditSuspended :: "time option"
  ru_OfflineSuspended :: "time option"
  ru_VettedAt :: "time option"

datatype nodeevents_Type = EvDisqualified | EvUnknownAuditSuspended | EvUnknownAuditUnsuspended | EvOfflineSuspended | EvOfflineUnsuspended

datatype audit_error = OverlayError | ErrEmptyNode | ErrNoSuchNode | ReputationError rep_error | Panic

definition getNodeStats :: "overlay_node \<Rightarrow> ReputationStatus" where
  "getNodeStats node =
     \<lparr>rs_Email = on_Email node, rs_Disqualified = on_Disqualified node,
      rs_UnknownAuditSuspended = on_UnknownAuditSuspended node, rs_OfflineSuspended = on_OfflineSuspended node,
      rs_VettedAt = on_VettedAt node\<rparr>"

definition overlay_Get :: "bool \<Rightarrow> node_id \<Rightarrow> (node_id \<Rightarrow> overlay_node option) \<Rightarrow> audit_error + overlay_node" where
  "overlay_Get fails nodeID nodes =
     (if nodeID = 0 then Inl ErrEmptyNode
      else if fails then Inl OverlayError
      else case nodes nodeID of None \<Rightarrow> Inl ErrNoSuchNode | Some node \<Rightarrow> Inr node)"

text \<open>Only a node that is neither disqualified nor has finished its exit is updated.\<close>

definition overlaycache_UpdateReputation ::
  "node_id \<Rightarrow> ReputationUpdate \<Rightarrow> (node_id \<Rightarrow> overlay_node option) \<Rightarrow> node_id \<Rightarrow> overlay_node option" where
  "overlaycache_UpdateReputation nodeID request nodes =
     (case nodes nodeID of
        Some node \<Rightarrow>
          if on_Disqualified node = None \<and> on_ExitFinishedAt node = None
          then nodes(nodeID \<mapsto> node\<lparr>
            on_UnknownAuditSuspended := ru_UnknownAuditSuspended request, on_OfflineSuspended := ru_OfflineSuspended request,
            on_VettedAt := ru_VettedAt request, on_Disqualified := ru_Disqualified request,
            on_DisqualificationReason :=
              (if ru_Disqualified request \<noteq> None then Some (ru_DisqualificationReason request) else on_DisqualificationReason node)\<rparr>)
          else nodes
      | None \<Rightarrow> nodes)"

subsection \<open>\<open>ApplyAudit\<close>\<close>

definition statusChanged :: "time option \<Rightarrow> time option \<Rightarrow> bool" where
  "statusChanged s1 s2 \<longleftrightarrow> s1 = None \<and> s2 \<noteq> None \<or> s1 \<noteq> None \<and> s2 = None"

definition Second :: time where "Second = 1000000000"

definition hasReputationChanged :: "rep_Info \<Rightarrow> ReputationStatus \<Rightarrow> time \<Rightarrow> bool \<times> nodeevents_Type list" where
  "hasReputationChanged updated current now =
     (let dq = (rs_Disqualified current = None \<and> in_Disqualified updated \<noteq> None);
          unknown = statusChanged (rs_UnknownAuditSuspended current) (in_UnknownAuditSuspended updated);
          offline = statusChanged (rs_OfflineSuspended current) (in_OfflineSuspended updated);
          vetted = (case in_VettedAt updated of None \<Rightarrow> False | Some t \<Rightarrow> Truncate t Second = Truncate now Second)
      in (dq \<or> unknown \<or> offline \<or> vetted,
          (if dq then [EvDisqualified] else []) @
          (if unknown then [if in_UnknownAuditSuspended updated \<noteq> None then EvUnknownAuditSuspended else EvUnknownAuditUnsuspended] else []) @
          (if offline then [if in_OfflineSuspended updated \<noteq> None then EvOfflineSuspended else EvOfflineUnsuspended] else [])))"

text \<open>The state of a satellite as far as audits change it, over a state of the reputations; calls are counted,
  and each has its environment.\<close>

record 'd satellite =
  sat_db :: 'd
  sat_nodes :: "node_id \<Rightarrow> overlay_node option"
  sat_events :: "(string \<times> node_id \<times> nodeevents_Type) list"
  sat_queue :: "reverification_audit list"
  sat_calls :: nat

record 'e call_env =
  ce_now :: time
  ce_db :: 'e
  ce_get_fails :: bool
  ce_overlay_fails :: bool
  ce_queue_fails :: bool
  ce_lookup_fails :: bool

text \<open>\<open>reputation.DB.Update\<close>.\<close>

type_synonym ('e, 'd) Update_fun = "'e \<Rightarrow> node_id \<Rightarrow> AuditType \<Rightarrow> time \<Rightarrow> 'd \<Rightarrow> 'd \<times> update_result"

text \<open>An event that cannot be inserted is only logged; every event here is inserted.\<close>

definition insertReputationNodeEvents ::
  "string \<Rightarrow> node_id \<Rightarrow> nodeevents_Type list \<Rightarrow> 'd satellite \<Rightarrow> 'd satellite" where
  "insertReputationNodeEvents email nodeID repEvents s =
     s\<lparr>sat_events := sat_events s @ map (\<lambda>event. (email, nodeID, event)) repEvents\<rparr>"

definition Service_UpdateReputation ::
  "bool \<Rightarrow> bool \<Rightarrow> node_id \<Rightarrow> string \<Rightarrow> ReputationUpdate \<Rightarrow> nodeevents_Type list \<Rightarrow> 'd satellite \<Rightarrow> 'd satellite \<times> audit_error option" where
  "Service_UpdateReputation sendNodeEmails fails nodeID email request reputationChanges s =
     (if fails then (s, Some OverlayError)
      else let s = s\<lparr>sat_nodes := overlaycache_UpdateReputation nodeID request (sat_nodes s)\<rparr> in
        (if sendNodeEmails then insertReputationNodeEvents email nodeID reputationChanges s else s, None))"

definition ApplyAudit ::
  "('e, 'd) Update_fun \<Rightarrow> bool \<Rightarrow> 'e call_env \<Rightarrow> node_id \<Rightarrow> ReputationStatus \<Rightarrow> AuditType \<Rightarrow> 'd satellite \<Rightarrow>
     'd satellite \<times> audit_error option" where
  "ApplyAudit update sendNodeEmails env nodeID reputation result s =
     (case (if rs_Email reputation = ''''
            then (case overlay_Get (ce_get_fails env) nodeID (sat_nodes s) of
                    Inl err \<Rightarrow> Inl err
                  | Inr dossier \<Rightarrow> Inr (getNodeStats dossier, on_ExitFinishedAt dossier \<noteq> None))
            else Inr (reputation, False)) of
        Inl err \<Rightarrow> (s, Some err)
      | Inr (reputation, nodeExited) \<Rightarrow>
          if rs_Disqualified reputation \<noteq> None \<or> nodeExited then (s, None)
          else let now = ce_now env in
            (case update (ce_db env) nodeID result now (sat_db s) of
               (db, Failed err) \<Rightarrow> (s\<lparr>sat_db := db\<rparr>, Some (ReputationError err))
             | (db, NoInfo) \<Rightarrow> (s\<lparr>sat_db := db\<rparr>, Some Panic)
             | (db, Updated statusUpdate) \<Rightarrow>
                 let s = s\<lparr>sat_db := db\<rparr>; (changed, repChanges) = hasReputationChanged statusUpdate reputation now in
                 if changed
                 then Service_UpdateReputation sendNodeEmails (ce_overlay_fails env) nodeID (rs_Email reputation)
                   \<lparr>ru_Disqualified = in_Disqualified statusUpdate,
                    ru_DisqualificationReason = in_DisqualificationReason statusUpdate,
                    ru_UnknownAuditSuspended = in_UnknownAuditSuspended statusUpdate,
                    ru_OfflineSuspended = in_OfflineSuspended statusUpdate, ru_VettedAt = in_VettedAt statusUpdate\<rparr>
                   repChanges s
                 else (s, None)))"

subsection \<open>The two implementations of the interface\<close>

definition reputations_Update :: "rep_Config \<Rightarrow> (time \<times> rep_error option, node_id \<Rightarrow> dbx_Reputation option) Update_fun" where
  "reputations_Update cfg e nodeID outcome now rows =
     (case UpdateRequestToMutations cfg outcome now of
        (_, Some err) \<Rightarrow> (rows, Failed (AuditRefused err))
      | (mutations, None) \<Rightarrow>
          (case snd e of
             Some err \<Rightarrow> (rows, Failed err)
           | None \<Rightarrow> (case ApplyUpdates_alone cfg (fst e) mutations now (rows nodeID) of
               (row, Returned r) \<Rightarrow> (rows(nodeID := row), Updated (dbxToReputationInfo r))
             | (row, _) \<Rightarrow> (rows(nodeID := row), NoInfo))))"

text \<open>The calls of the backing store: to get the entry, to create the row, and to synchronise when asked to.\<close>

definition CachingDB_Update_synced ::
  "rep_Config \<Rightarrow> (time \<times> rep_error option \<times> rep_error option \<times> rep_error option, cache_state) Update_fun" where
  "CachingDB_Update_synced cfg e nodeID outcome now s =
     (case e of (clock, failure, failure', failure'') \<Rightarrow>
        (case CachingDB_Update clock failure failure' nodeID outcome cfg now s of
           (s, res, doRequestSync) \<Rightarrow> (if doRequestSync then syncNode clock failure'' nodeID now s else s, res)))"

text \<open>What \<open>service.Get\<close> returns.\<close>

definition Service_Get :: "rep_Config \<Rightarrow> rep_error + rep_Info \<Rightarrow> rep_error + rep_Info" where
  "Service_Get cfg res =
     (case res of
        Inl err \<Rightarrow>
          if err = ErrNodeNotFound
          then Inr \<lparr>in_AuditSuccessCount = 0, in_TotalAuditCount = 0, in_VettedAt = None, in_UnknownAuditSuspended = None,
                 in_OfflineSuspended = None, in_UnderReview = None, in_Disqualified = None, in_DisqualificationReason = 0,
                 in_OnlineScore = 1, in_AuditHistory = empty_history, in_AuditReputationAlpha = InitialAlpha cfg,
                 in_AuditReputationBeta = InitialBeta cfg, in_UnknownAuditReputationAlpha = 1,
                 in_UnknownAuditReputationBeta = 0\<rparr>
          else Inl err
      | Inr info \<Rightarrow> Inr info)"

subsection \<open>What the service relies on\<close>

definition is_update :: "update_result \<Rightarrow> bool" where
  "is_update res \<longleftrightarrow> (case res of Updated _ \<Rightarrow> True | _ \<Rightarrow> False)"

lemma is_update_simps [simp]: "is_update (Updated i)" "\<not> is_update (Failed e)" "\<not> is_update NoInfo"
  by (simp_all add: is_update_def)

lemma is_update_ex: "is_update res \<longleftrightarrow> (\<exists>info. res = Updated info)"
  by (cases res) auto

text \<open>The interface \<open>reputation.DB\<close>: a result that is reported as recorded is counted once for its node, one
  that is reported as failed is not.\<close>

locale reputation_DB =
  fixes update :: "('e, 'd) Update_fun" and valid :: "'d \<Rightarrow> bool" and reliable :: "'e \<Rightarrow> bool" and audits :: "node_id \<Rightarrow> 'd \<Rightarrow> int"
  assumes keeps: "valid d \<Longrightarrow> update e n k now d = (d', res) \<Longrightarrow> valid d' \<and> res \<noteq> NoInfo"
    and counts: "valid d \<Longrightarrow> reliable e \<Longrightarrow> update e n k now d = (d', res) \<Longrightarrow>
      audits n' d' = audits n' d + (if n' = n \<and> is_update res then 1 else 0)"
begin

lemma keeps_valid: "valid d \<Longrightarrow> valid (fst (update e n k now d))"
  using keeps by (metis prod.collapse)

end

definition known_active :: "ReputationStatus \<Rightarrow> bool" where
  "known_active reputation \<longleftrightarrow> rs_Email reputation \<noteq> '''' \<and> rs_Disqualified reputation = None"

text \<open>A call in which nothing but the update of the reputation can fail.\<close>

definition overlay_reliable :: "('e \<Rightarrow> bool) \<Rightarrow> 'e call_env \<Rightarrow> bool" where
  "overlay_reliable reliable env \<longleftrightarrow> reliable (ce_db env) \<and> \<not> ce_overlay_fails env"

lemma Service_UpdateReputation_db:
  "sat_db (fst (Service_UpdateReputation emails fails n email ru evs s)) = sat_db s"
  "sat_queue (fst (Service_UpdateReputation emails fails n email ru evs s)) = sat_queue s"
  "sat_calls (fst (Service_UpdateReputation emails fails n email ru evs s)) = sat_calls s"
  "snd (Service_UpdateReputation emails fails n email ru evs s) = (if fails then Some OverlayError else None)"
  by (simp_all add: Service_UpdateReputation_def insertReputationNodeEvents_def Let_def)

lemma ApplyAudit_known:
  assumes "known_active reputation" "update (ce_db env) n k (ce_now env) (sat_db s) = (d', res)"
  shows "sat_db (fst (ApplyAudit update emails env n reputation k s)) = d' \<and>
    sat_queue (fst (ApplyAudit update emails env n reputation k s)) = sat_queue s \<and>
    sat_calls (fst (ApplyAudit update emails env n reputation k s)) = sat_calls s \<and>
    (\<not> ce_overlay_fails env \<longrightarrow> (snd (ApplyAudit update emails env n reputation k s) = None \<longleftrightarrow> is_update res))"
proof (cases res)
  case (Updated info)
  obtain changed evs where c: "hasReputationChanged info reputation (ce_now env) = (changed, evs)" by fastforce
  show ?thesis using assms Updated
    by (simp add: ApplyAudit_def known_active_def c Service_UpdateReputation_db Let_def)
qed (use assms in \<open>simp_all add: ApplyAudit_def known_active_def\<close>)

context reputation_DB
begin

lemma ApplyAudit_counts:
  assumes "valid (sat_db s)" "known_active reputation" "overlay_reliable reliable env"
    and "ApplyAudit update emails env n reputation k s = (s', err)"
  shows "valid (sat_db s') \<and> sat_queue s' = sat_queue s \<and> sat_calls s' = sat_calls s \<and>
    audits n' (sat_db s') = audits n' (sat_db s) + (if n' = n \<and> err = None then 1 else 0)"
proof -
  obtain d' res where u: "update (ce_db env) n k (ce_now env) (sat_db s) = (d', res)" by fastforce
  show ?thesis
    using ApplyAudit_known [of reputation update env n k s d' res emails, OF assms(2) u] keeps [OF assms(1) u]
      counts [OF assms(1) _ u, of n'] assms(3,4)
    by (auto simp: overlay_reliable_def)
qed

end

lemma single_results: "all_results (fst (UpdateRequestToMutations cfg k now)) = 1"
  by (cases k) (simp_all add: all_results_def single_counts)

lemma single_request:
  "\<exists>m. UpdateRequestToMutations cfg k now = (m, None) \<and> OnlineHistory m \<noteq> None \<and> all_results m = 1"
  using single_results [of cfg k now] by (simp add: UpdateRequestToMutations_def AddAudit_empty)

interpretation rep_table: reputation_DB "reputations_Update cfg" "\<lambda>_. True" "\<lambda>_. True" "\<lambda>n rows. in_row r_TotalAuditCount (rows n)"
proof unfold_locales
  fix d :: "node_id \<Rightarrow> dbx_Reputation option" and e n k now d' res n'
  assume u: "reputations_Update cfg e n k now d = (d', res)"
  obtain m where m: "UpdateRequestToMutations cfg k now = (m, None)" "OnlineHistory m \<noteq> None" "all_results m = 1"
    using single_request by blast
  obtain row phase where a: "ApplyUpdates_alone cfg (fst e) m now (d n) = (row, phase)" by fastforce
  from total.alone_count [OF m(2) a] m(3) obtain r
    where "in_row r_TotalAuditCount row = in_row r_TotalAuditCount (d n) + 1" "phase = Returned r" by auto
  then show "True \<and> res \<noteq> NoInfo"
    and "in_row r_TotalAuditCount (d' n') = in_row r_TotalAuditCount (d n') + (if n' = n \<and> is_update res then 1 else 0)"
    using u m(1) a by (auto simp: reputations_Update_def split: option.splits)
qed

lemma apply_to_entry_info:
  assumes "entry_ok e" "OnlineHistory m \<noteq> None" "apply_to_entry cdb clock failure m cfg now row e = (row', e', res, req)"
  shows "res \<noteq> NoInfo"
proof -
  obtain row1 phase where a: "ApplyUpdates_alone cfg clock m now row = (row1, phase)" by fastforce
  from total.alone_count [OF assms(2) a] obtain r where "phase = Returned r" by blast
  then show ?thesis using assms a by (auto simp: apply_to_entry_def entry_ok_def split: option.splits prod.splits if_splits)
qed

lemma Update_info:
  assumes "cdb_ok (cs_cdb s)" "CachingDB_Update clock f1 f2 n k cfg now s = (s', res, req)"
  shows "res \<noteq> NoInfo"
proof -
  obtain m where m: "UpdateRequestToMutations cfg k now = (m, None)" "OnlineHistory m \<noteq> None" using single_request by blast
  obtain s1 e where g: "getEntry clock f1 n now s = (s1, e)" by fastforce
  obtain row e' res' req' where a: "apply_to_entry (cs_cdb s1) clock f2 m cfg now (cs_rows s1 n) e = (row, e', res', req')"
    by (metis prod_cases4)
  have "entry_ok e" using total.getEntry_count [OF assms(1) g] by simp
  from apply_to_entry_info [OF this m(2) a] show ?thesis
    using assms(2) by (simp add: CachingDB_Update_def m(1) CachingDB_ApplyUpdates_def g a)
qed

interpretation rep_cache: reputation_DB "CachingDB_Update_synced cfg" "\<lambda>s. cdb_ok (cs_cdb s)"
  "\<lambda>(clock, failure, failure', failure''). failure'' = None" "held all_results r_TotalAuditCount"
proof unfold_locales
  fix s :: cache_state and e n k now s' res n'
  assume ok: "cdb_ok (cs_cdb s)" and u: "CachingDB_Update_synced cfg e n k now s = (s', res)"
  obtain clock f1 f2 f3 where e: "e = (clock, f1, f2, f3)" by (metis prod_cases4)
  obtain s1 res1 req where u1: "CachingDB_Update clock f1 f2 n k cfg now s = (s1, res1, req)" by (metis prod_cases3)
  note U = total.Update_count [OF ok u1 refl, of n'] and R = Update_info [OF ok u1]
  have s1: "cdb_ok (cs_cdb s1)" using U by simp
  note S = total.syncNode_count [OF s1, of clock f3 n now n']
  have s': "s' = (if req then syncNode clock f3 n now s1 else s1)" "res = res1"
    using u by (auto simp: CachingDB_Update_synced_def e u1)
  show "cdb_ok (cs_cdb s') \<and> res \<noteq> NoInfo" using s1 S R by (simp add: s')
  assume "case e of (clock, failure, failure', failure'') \<Rightarrow> failure'' = None"
  then have f3: "f3 = None" by (simp add: e)
  show "held all_results r_TotalAuditCount n' s' = held all_results r_TotalAuditCount n' s + (if n' = n \<and> is_update res then 1 else 0)"
    using U S by (auto simp: s' f3 is_update_ex single_results)
qed

subsection \<open>The overlay follows the table\<close>

text \<open>A node and its row agree on whether it is disqualified and suspended.\<close>

definition status_agrees :: "overlay_node \<Rightarrow> dbx_Reputation \<Rightarrow> bool" where
  "status_agrees node r \<longleftrightarrow>
     (on_Disqualified node = None \<longleftrightarrow> r_Disqualified r = None) \<and>
     (on_UnknownAuditSuspended node = None \<longleftrightarrow> r_UnknownAuditSuspended r = None) \<and>
     (on_OfflineSuspended node = None \<longleftrightarrow> r_OfflineSuspended r = None)"

definition active :: "overlay_node \<Rightarrow> bool" where
  "active node \<longleftrightarrow> on_Disqualified node = None \<and> on_ExitFinishedAt node = None"

lemma hasReputationChanged_same:
  assumes "hasReputationChanged info reputation now = (False, evs)" "rs_Disqualified reputation = None"
  shows "in_Disqualified info = None \<and> (in_UnknownAuditSuspended info = None \<longleftrightarrow> rs_UnknownAuditSuspended reputation = None) \<and>
    (in_OfflineSuspended info = None \<longleftrightarrow> rs_OfflineSuspended reputation = None)"
  using assms by (auto simp: hasReputationChanged_def statusChanged_def Let_def)

text \<open>The same for the reputation an update has returned.\<close>

definition info_agrees :: "overlay_node \<Rightarrow> rep_Info \<Rightarrow> bool" where
  "info_agrees node info \<longleftrightarrow>
     (on_Disqualified node = None \<longleftrightarrow> in_Disqualified info = None) \<and>
     (on_UnknownAuditSuspended node = None \<longleftrightarrow> in_UnknownAuditSuspended info = None) \<and>
     (on_OfflineSuspended node = None \<longleftrightarrow> in_OfflineSuspended info = None)"

lemma ApplyAudit_returned_agrees:
  assumes "sat_nodes s n = Some node" "active node" "n \<noteq> 0"
    and "reputation = getNodeStats node \<or> rs_Email reputation = ''''"
    and "ApplyAudit update emails env n reputation k s = (s', None)"
  shows "\<exists>node' info. update (ce_db env) n k (ce_now env) (sat_db s) = (sat_db s', Updated info) \<and>
    sat_nodes s' n = Some node' \<and> info_agrees node' info \<and>
    on_Email node' = on_Email node \<and> on_ExitFinishedAt node' = on_ExitFinishedAt node \<and>
    (\<forall>n'. n' \<noteq> n \<longrightarrow> sat_nodes s' n' = sat_nodes s n')"
proof -
  obtain d' res where u: "update (ce_db env) n k (ce_now env) (sat_db s) = (d', res)" by fastforce
  obtain info where info: "res = Updated info"
    using assms u by (cases res) (auto simp: ApplyAudit_def overlay_Get_def active_def getNodeStats_def
        Let_def split: sum.splits if_splits)
  obtain changed evs where c: "hasReputationChanged info (getNodeStats node) (ce_now env) = (changed, evs)" by fastforce
  let ?request = "\<lparr>ru_Disqualified = in_Disqualified info, ru_DisqualificationReason = in_DisqualificationReason info,
     ru_UnknownAuditSuspended = in_UnknownAuditSuspended info, ru_OfflineSuspended = in_OfflineSuspended info,
     ru_VettedAt = in_VettedAt info\<rparr>"
  have s': "sat_db s' = d'"
      "sat_nodes s' = (if changed then overlaycache_UpdateReputation n ?request (sat_nodes s) else sat_nodes s)"
    using assms u c info
    by (auto simp: ApplyAudit_def overlay_Get_def active_def getNodeStats_def Service_UpdateReputation_def
      insertReputationNodeEvents_def Let_def split: option.splits if_splits sum.splits)
  show ?thesis
  proof (cases changed)
    case True
    then show ?thesis using assms(1,2) u info
      by (auto simp: s' overlaycache_UpdateReputation_def active_def info_agrees_def)
  next
    case False
    have "hasReputationChanged info (getNodeStats node) (ce_now env) = (False, evs)" using c False by simp
    then have "info_agrees node info"
      using hasReputationChanged_same [of info "getNodeStats node" "ce_now env" evs] assms(2)
      by (auto simp: info_agrees_def active_def getNodeStats_def)
    then show ?thesis using assms(1) False u info by (auto simp: s')
  qed
qed

lemma reputations_Update_row:
  assumes "reputations_Update cfg e n k now rows = (rows', Updated info)"
  shows "\<exists>r. rows' = rows(n := Some r) \<and> info = dbxToReputationInfo r"
proof -
  obtain m where m: "UpdateRequestToMutations cfg k now = (m, None)" "OnlineHistory m \<noteq> None" "all_results m = 1"
    using single_request by blast
  obtain row phase where a: "ApplyUpdates_alone cfg (fst e) m now (rows n) = (row, phase)" by fastforce
  have "something_to_change m" using m(3) by (auto simp: all_results_def something_to_change_def)
  then obtain r where "row = Some r" "phase = Returned r"
    using a m(2) by (auto simp: ApplyUpdates_alone_result Let_def split: option.splits)
  then show ?thesis using assms by (auto simp: reputations_Update_def m(1) a split: option.splits)
qed

text \<open>
  Property C12. An audit of an active node that ends without an error, applied alone, by a caller that passes
  the status the overlay has, or none, leaves the overlay in agreement with the reputation that the
  update returned: the node is disqualified, suspended for unknown audits and suspended for being offline
  in the overlay exactly if it is so there, whatever the row was before. Without the cache (\<open>FlushInterval\<close>
  zero) that is the row of the table; with the cache, which is on by default, it is the estimate, and the row
  of the table can be another one, as the next section shows. The nodes of other ids, without the cache
  their rows, and the email and the exit of the node are left.
\<close>

theorem ApplyAudit_status_agrees:
  assumes "sat_nodes s n = Some node" "sat_nodes t n = Some node" "active node" "n \<noteq> 0"
    and "reputation = getNodeStats node \<or> rs_Email reputation = ''''"
  shows "(ApplyAudit (reputations_Update cfg) emails env n reputation k s = (s', None) \<longrightarrow>
      (\<exists>node' r. sat_nodes s' n = Some node' \<and> sat_db s' n = Some r \<and> status_agrees node' r \<and>
        on_Email node' = on_Email node \<and> on_ExitFinishedAt node' = on_ExitFinishedAt node \<and>
        (\<forall>n'. n' \<noteq> n \<longrightarrow> sat_nodes s' n' = sat_nodes s n' \<and> sat_db s' n' = sat_db s n'))) \<and>
    (ApplyAudit (CachingDB_Update_synced cfg) emails env' n reputation k t = (t', None) \<longrightarrow>
      (\<exists>node' info. CachingDB_Update_synced cfg (ce_db env') n k (ce_now env') (sat_db t) = (sat_db t', Updated info) \<and>
        sat_nodes t' n = Some node' \<and> info_agrees node' info \<and>
        on_Email node' = on_Email node \<and> on_ExitFinishedAt node' = on_ExitFinishedAt node \<and>
        (\<forall>n'. n' \<noteq> n \<longrightarrow> sat_nodes t' n' = sat_nodes t n')))"
proof (intro conjI impI)
  assume "ApplyAudit (reputations_Update cfg) emails env n reputation k s = (s', None)"
  from ApplyAudit_returned_agrees [OF assms(1,3-5) this] obtain node' info where
    u: "reputations_Update cfg (ce_db env) n k (ce_now env) (sat_db s) = (sat_db s', Updated info)"
    and o: "sat_nodes s' n = Some node'" "info_agrees node' info" "on_Email node' = on_Email node"
      "on_ExitFinishedAt node' = on_ExitFinishedAt node" "\<forall>n'. n' \<noteq> n \<longrightarrow> sat_nodes s' n' = sat_nodes s n'" by blast
  from reputations_Update_row [OF u] obtain r where r: "sat_db s' = (sat_db s)(n := Some r)" "info = dbxToReputationInfo r" by blast
  then have "status_agrees node' r"
    using o(2) by (simp add: status_agrees_def info_agrees_def dbxToReputationInfo_def)
  then show "\<exists>node' r. sat_nodes s' n = Some node' \<and> sat_db s' n = Some r \<and> status_agrees node' r \<and>
        on_Email node' = on_Email node \<and> on_ExitFinishedAt node' = on_ExitFinishedAt node \<and>
        (\<forall>n'. n' \<noteq> n \<longrightarrow> sat_nodes s' n' = sat_nodes s n' \<and> sat_db s' n' = sat_db s n')"
    using o r by auto
next
  assume "ApplyAudit (CachingDB_Update_synced cfg) emails env' n reputation k t = (t', None)"
  from ApplyAudit_returned_agrees [OF assms(2-5) this]
  show "\<exists>node' info. CachingDB_Update_synced cfg (ce_db env') n k (ce_now env') (sat_db t) = (sat_db t', Updated info) \<and>
        sat_nodes t' n = Some node' \<and> info_agrees node' info \<and>
        on_Email node' = on_Email node \<and> on_ExitFinishedAt node' = on_ExitFinishedAt node \<and>
        (\<forall>n'. n' \<noteq> n \<longrightarrow> sat_nodes t' n' = sat_nodes t n')" .
qed

subsection \<open>A disqualification that only the overlay knows\<close>

definition ex_node :: overlay_node where
  "ex_node = \<lparr>on_Email = ''op'', on_Disqualified = None, on_DisqualificationReason = None, on_UnknownAuditSuspended = None,
     on_OfflineSuspended = None, on_VettedAt = Some 1, on_ExitFinishedAt = None, on_Contained = None, on_LastContactSuccess = 0\<rparr>"

definition ex_env :: "'e \<Rightarrow> time \<Rightarrow> 'e call_env" where
  "ex_env e now = \<lparr>ce_now = now, ce_db = e, ce_get_fails = False, ce_overlay_fails = False, ce_queue_fails = False, ce_lookup_fails = False\<rparr>"

definition early_satellite :: "cache_state satellite" where
  "early_satellite = \<lparr>sat_db = run_state early_success, sat_nodes = [5 \<mapsto> ex_node], sat_events = [], sat_queue = [], sat_calls = 0\<rparr>"

lemma ApplyAudit_disqualified:
  assumes "sat_nodes s n = Some node" "on_Disqualified node \<noteq> None" "n \<noteq> 0" "rs_Email reputation = ''''" "\<not> ce_get_fails env"
  shows "ApplyAudit update emails env n reputation k s = (s, None)"
  using assms by (auto simp: ApplyAudit_def overlay_Get_def getNodeStats_def)

text \<open>
  Property C38. With the cache in front of the table the overlay can be ahead of it for good: a node with
  one successful audit fails the next one, nothing else fails and no other process is involved. The
  estimate disqualifies the node, and so does the overlay; the synchronisation that follows at once does
  not, and the score in the table stays above the limit. From then on the audits of the node, for callers
  that know no status of it, are dropped without an error.
\<close>

theorem early_disqualification_sticks:
  "\<exists>s node r. ApplyAudit (CachingDB_Update_synced early_config) True (ex_env (21, None, None, None) 20) 5 (getNodeStats ex_node)
      AuditFailure early_satellite = (s, None) \<and>
    sat_nodes s 5 = Some node \<and> on_Disqualified node = Some 20 \<and> sat_events s = [(''op'', 5, EvDisqualified)] \<and>
    cs_rows (sat_db s) 5 = Some r \<and> r_Disqualified r = None \<and>
    score (r_AuditReputationAlpha r) (r_AuditReputationBeta r) > AuditDQ early_config \<and>
    (\<forall>env k reputation. ApplyAudit (CachingDB_Update_synced early_config) True (env\<lparr>ce_get_fails := False\<rparr>) 5
       (reputation\<lparr>rs_Email := ''''\<rparr>) k s = (s, None))"
proof -
  let ?a = "ApplyAudit (CachingDB_Update_synced early_config) True (ex_env (21, None, None, None) 20) 5 (getNodeStats ex_node)
      AuditFailure early_satellite"
  obtain s err where a: "?a = (s, err)" by fastforce
  have "(case ?a of (s, err) \<Rightarrow> err = None \<and> sat_events s = [(''op'', 5, EvDisqualified)] \<and>
      (case sat_nodes s 5 of Some node \<Rightarrow> on_Disqualified node = Some 20 | None \<Rightarrow> False) \<and>
      (case cs_rows (sat_db s) 5 of Some r \<Rightarrow> r_Disqualified r = None \<and>
         score (r_AuditReputationAlpha r) (r_AuditReputationBeta r) > AuditDQ early_config | None \<Rightarrow> False))"
    by code_simp
  then obtain node r where s: "err = None" "sat_events s = [(''op'', 5, EvDisqualified)]" "sat_nodes s 5 = Some node"
      "on_Disqualified node = Some 20" "cs_rows (sat_db s) 5 = Some r" "r_Disqualified r = None"
      "score (r_AuditReputationAlpha r) (r_AuditReputationBeta r) > AuditDQ early_config"
    using a by (auto split: option.splits)
  have "\<forall>env k reputation. ApplyAudit (CachingDB_Update_synced early_config) True (env\<lparr>ce_get_fails := False\<rparr>) 5
       (reputation\<lparr>rs_Email := ''''\<rparr>) k s = (s, None)"
    by (intro allI ApplyAudit_disqualified [OF s(3)]) (simp_all add: s(4))
  then show ?thesis using a s by blast
qed

lemma ApplyAudit_status_agrees_witness:
  "\<exists>s node r. ApplyAudit (reputations_Update early_config) True (ex_env (21, None) 20) 5 (getNodeStats ex_node) AuditFailure
      \<lparr>sat_db = (\<lambda>_. None), sat_nodes = [5 \<mapsto> ex_node], sat_events = [], sat_queue = [], sat_calls = 0\<rparr> = (s, None) \<and>
    sat_nodes s 5 = Some node \<and> sat_db s 5 = Some r \<and> status_agrees node r \<and> on_Disqualified node = Some 20"
proof -
  let ?s = "\<lparr>sat_db = (\<lambda>_. None), sat_nodes = [5 \<mapsto> ex_node], sat_events = [], sat_queue = [], sat_calls = 0\<rparr>"
  let ?a = "ApplyAudit (reputations_Update early_config) True (ex_env (21, None) 20) 5 (getNodeStats ex_node) AuditFailure ?s"
  have c: "snd ?a = None \<and> (case sat_nodes (fst ?a) 5 of Some node \<Rightarrow> on_Disqualified node = Some 20 | None \<Rightarrow> False)" by code_simp
  then have a: "?a = (fst ?a, None)" by (metis prod.collapse)
  have "active ex_node" by code_simp
  then have "\<exists>node' r. sat_nodes (fst ?a) 5 = Some node' \<and> sat_db (fst ?a) 5 = Some r \<and> status_agrees node' r"
    using mp [OF conjunct1 [OF ApplyAudit_status_agrees [where s = ?s and t = early_satellite and n = 5 and node = ex_node]] a]
    by (auto simp: early_satellite_def)
  then show ?thesis using a c by (auto split: option.splits)
qed

end
