(* ===== verification/Reporter.thy ===== *)
theory Reporter
  imports ReputationService
begin

text \<open>
  What becomes of the results of audits (\<open>audit/reporter.go\<close>, \<open>satellitedb/containment.go\<close>): they are applied to
  the reputations of the nodes, with retries, and a node that did not answer in time is contained until
  a worker has reverified it or has given up. The number of the call gives its environment.
\<close>

subsection \<open>Containment\<close>

text \<open>\<open>SetNodeContained\<close> and \<open>SetAllContainedNodes\<close> of \<open>satellitedb/overlaycache.go\<close>.\<close>

definition SetNodeContained :: "time \<Rightarrow> node_id \<Rightarrow> bool \<Rightarrow> (node_id \<Rightarrow> overlay_node option) \<Rightarrow> node_id \<Rightarrow> overlay_node option" where
  "SetNodeContained now nodeID isContained nodes =
     (case nodes nodeID of
        None \<Rightarrow> nodes
      | Some node \<Rightarrow>
          if isContained then (if on_Contained node = None then nodes(nodeID \<mapsto> node\<lparr>on_Contained := Some now\<rparr>) else nodes)
          else nodes(nodeID \<mapsto> node\<lparr>on_Contained := None\<rparr>))"

definition SetAllContainedNodes :: "time \<Rightarrow> node_id list \<Rightarrow> (node_id \<Rightarrow> overlay_node option) \<Rightarrow> node_id \<Rightarrow> overlay_node option" where
  "SetAllContainedNodes now containedNodes nodes = (\<lambda>n. map_option (\<lambda>node.
     let should_be = (n \<in> set containedNodes) in
       if (on_Contained node \<noteq> None) \<noteq> should_be
       then node\<lparr>on_Contained := (if should_be then Some now else None)\<rparr> else node) (nodes n))"

text \<open>The chore that puts the nodes right again.\<close>

definition syncContainedStatus :: "'e call_env \<Rightarrow> 'd satellite \<Rightarrow> 'd satellite" where
  "syncContainedStatus env s =
     (if ce_queue_fails env \<or> ce_overlay_fails env then s
      else s\<lparr>sat_nodes := SetAllContainedNodes (ce_now env) (reverify_GetAllContainedNodes (sat_queue s)) (sat_nodes s)\<rparr>)"

definition containment_Get :: "bool \<Rightarrow> node_id \<Rightarrow> 'd satellite \<Rightarrow> ReverificationJob option option" where
  "containment_Get fails nodeID s =
     (if nodeID = 0 \<or> fails then None else Some (reverify_GetByNodeID nodeID (sat_queue s)))"

text \<open>Whether the job was there and whether the node is still contained, or an error.\<close>

definition containment_Delete :: "'e call_env \<Rightarrow> PieceLocator \<Rightarrow> 'd satellite \<Rightarrow> 'd satellite \<times> (bool \<times> bool) option" where
  "containment_Delete env pendingJob s =
     (if ce_queue_fails env then (s, None)
      else case reverify_Remove pendingJob (sat_queue s) of
        (queue, isDeleted) \<Rightarrow>
          let s = s\<lparr>sat_queue := queue\<rparr> in
          if ce_lookup_fails env then (s, None)
          else (s, Some (isDeleted, reverify_GetByNodeID (pl_NodeID pendingJob) queue \<noteq> None)))"

subsection \<open>The reporter\<close>

record reporter =
  rp_maxRetries :: int
  rp_maxReverifyCount :: int
  rp_sendNodeEmails :: bool

record Report =
  Successes :: "node_id list"
  Fails :: "node_id list"
  Offlines :: "node_id list"
  PendingAudits :: "ReverificationJob list"
  Unknown :: "node_id list"
  NodesReputation :: "node_id \<Rightarrow> ReputationStatus option"

datatype Outcome = OutcomeNotPerformed | OutcomeNotNecessary | OutcomeSuccess | OutcomeFailure | OutcomeTimedOut
  | OutcomeNodeOffline | OutcomeUnknownError

definition status_of :: "(node_id \<Rightarrow> ReputationStatus option) \<Rightarrow> node_id \<Rightarrow> ReputationStatus" where
  "status_of m n = (case m n of
     None \<Rightarrow> \<lparr>rs_Email = '''', rs_Disqualified = None, rs_UnknownAuditSuspended = None, rs_OfflineSuspended = None, rs_VettedAt = None\<rparr>
   | Some reputation \<Rightarrow> reputation)"

definition next_call :: "(nat \<Rightarrow> 'e call_env) \<Rightarrow> 'd satellite \<Rightarrow> 'e call_env" where
  "next_call env s = env (sat_calls s)"

definition called :: "'d satellite \<Rightarrow> 'd satellite" where
  "called s = s\<lparr>sat_calls := sat_calls s + 1\<rparr>"

fun recordAuditStatus ::
  "('e, 'd) Update_fun \<Rightarrow> reporter \<Rightarrow> (nat \<Rightarrow> 'e call_env) \<Rightarrow> (node_id \<Rightarrow> ReputationStatus option) \<Rightarrow> AuditType \<Rightarrow> node_id list \<Rightarrow>
     'd satellite \<Rightarrow> node_id list \<times> 'd satellite" where
  "recordAuditStatus update rep env nodesReputation auditOutcome [] s = ([], s)"
| "recordAuditStatus update rep env nodesReputation auditOutcome (nodeID # nodeIDs) s =
     (case ApplyAudit update (rp_sendNodeEmails rep) (next_call env s) nodeID (status_of nodesReputation nodeID) auditOutcome s of
        (s, err) \<Rightarrow> (case recordAuditStatus update rep env nodesReputation auditOutcome nodeIDs (called s) of
          (failed, s) \<Rightarrow> (if err = None then failed else nodeID # failed, s)))"

definition ReportReverificationNeeded :: "(nat \<Rightarrow> 'e call_env) \<Rightarrow> PieceLocator \<Rightarrow> 'd satellite \<Rightarrow> 'd satellite \<times> bool" where
  "ReportReverificationNeeded env piece s =
     (let e = next_call env s in
      if ce_queue_fails e then (called s, False)
      else let s = s\<lparr>sat_queue := reverify_Insert (ce_now e) piece (sat_queue s)\<rparr> in
        if ce_overlay_fails e then (called s, False)
        else (called (s\<lparr>sat_nodes := SetNodeContained (ce_now e) (pl_NodeID piece) True (sat_nodes s)\<rparr>), True))"

text \<open>The job is removed, and its node is no longer contained when it has no other. The result is whether
  the removal failed; that the node could not be changed is only logged in one place.\<close>

definition remove_job :: "(nat \<Rightarrow> 'e call_env) \<Rightarrow> PieceLocator \<Rightarrow> 'd satellite \<Rightarrow> 'd satellite \<times> bool" where
  "remove_job env piece s =
     (let e = next_call env s in
      case containment_Delete e piece s of
        (s, None) \<Rightarrow> (called s, False)
      | (s, Some (_, stillContained)) \<Rightarrow>
          if stillContained then (called s, True)
          else if ce_overlay_fails e then (called s, False)
          else (called (s\<lparr>sat_nodes := SetNodeContained (ce_now e) (pl_NodeID piece) False (sat_nodes s)\<rparr>), True))"

fun recordPendingAudits ::
  "('e, 'd) Update_fun \<Rightarrow> reporter \<Rightarrow> (nat \<Rightarrow> 'e call_env) \<Rightarrow> (node_id \<Rightarrow> ReputationStatus option) \<Rightarrow> ReverificationJob list \<Rightarrow>
     'd satellite \<Rightarrow> ReverificationJob list \<times> 'd satellite" where
  "recordPendingAudits update rep env nodesReputation [] s = ([], s)"
| "recordPendingAudits update rep env nodesReputation (job # jobs) s =
     (let nodeID = pl_NodeID (job_Locator job) in
      case (if job_ReverifyCount job < rp_maxReverifyCount rep
            then ReportReverificationNeeded env (job_Locator job) s
            else case ApplyAudit update (rp_sendNodeEmails rep) (next_call env s) nodeID (status_of nodesReputation nodeID) AuditFailure s of
              (s, Some err) \<Rightarrow> (called s, False)
            | (s, None) \<Rightarrow> (fst (remove_job env (job_Locator job) (called s)), True)) of
        (s, recorded) \<Rightarrow> (case recordPendingAudits update rep env nodesReputation jobs s of
          (failed, s) \<Rightarrow> (if recorded then failed else job # failed, s)))"

definition nothing_to_record :: "Report \<Rightarrow> bool" where
  "nothing_to_record req \<longleftrightarrow> Successes req = [] \<and> Fails req = [] \<and> Unknown req = [] \<and> Offlines req = [] \<and> PendingAudits req = []"

text \<open>One more try with what is left of the report; what is left in the end is logged.\<close>

fun record_tries ::
  "('e, 'd) Update_fun \<Rightarrow> reporter \<Rightarrow> (nat \<Rightarrow> 'e call_env) \<Rightarrow> nat \<Rightarrow> Report \<Rightarrow> 'd satellite \<Rightarrow> Report \<times> 'd satellite" where
  "record_tries update rep env 0 req s = (req, s)"
| "record_tries update rep env (Suc tries) req s =
     (if nothing_to_record req then (req, s)
      else let nr = NodesReputation req;
               (successes, s) = recordAuditStatus update rep env nr AuditSuccess (Successes req) s;
               (fails, s) = recordAuditStatus update rep env nr AuditFailure (Fails req) s;
               (unknowns, s) = recordAuditStatus update rep env nr AuditUnknown (Unknown req) s;
               (offlines, s) = recordAuditStatus update rep env nr AuditOffline (Offlines req) s;
               (pendingAudits, s) = recordPendingAudits update rep env nr (PendingAudits req) s
           in record_tries update rep env tries
                (req\<lparr>Successes := successes, Fails := fails, Unknown := unknowns, Offlines := offlines,
                     PendingAudits := pendingAudits\<rparr>) s)"

definition RecordAudits ::
  "('e, 'd) Update_fun \<Rightarrow> reporter \<Rightarrow> (nat \<Rightarrow> 'e call_env) \<Rightarrow> Report \<Rightarrow> 'd satellite \<Rightarrow> Report \<times> 'd satellite" where
  "RecordAudits update rep env req s = record_tries update rep env (nat (rp_maxRetries rep + 1)) req s"

definition RecordReverificationResult ::
  "('e, 'd) Update_fun \<Rightarrow> reporter \<Rightarrow> (nat \<Rightarrow> 'e call_env) \<Rightarrow> ReverificationJob \<Rightarrow> Outcome \<Rightarrow> ReputationStatus \<Rightarrow> 'd satellite \<Rightarrow>
     'd satellite \<times> bool" where
  "RecordReverificationResult update rep env pendingJob outcome reputation s =
     (let nodeID = pl_NodeID (job_Locator pendingJob);
          report = \<lparr>Successes = (if outcome = OutcomeSuccess then [nodeID] else []),
            Fails = (if outcome = OutcomeFailure then [nodeID] else []),
            Offlines = (if outcome = OutcomeNodeOffline then [nodeID] else []),
            PendingAudits = (if outcome = OutcomeTimedOut then [pendingJob] else []),
            Unknown = (if outcome = OutcomeUnknownError then [nodeID] else []),
            NodesReputation = [nodeID \<mapsto> reputation]\<rparr>;
          keepInQueue = (outcome \<in> {OutcomeNotPerformed, OutcomeTimedOut, OutcomeNodeOffline});
          (_, s) = RecordAudits update rep env report s
      in if keepInQueue then (s, True) else remove_job env (job_Locator pendingJob) s)"

subsection \<open>Every result is counted once\<close>

definition due_failures :: "reporter \<Rightarrow> ReverificationJob list \<Rightarrow> node_id \<Rightarrow> nat" where
  "due_failures rep jobs n =
     length (filter (\<lambda>j. pl_NodeID (job_Locator j) = n \<and> \<not> job_ReverifyCount j < rp_maxReverifyCount rep) jobs)"

text \<open>The results of a report for a node; a job that was tried often enough is a failure.\<close>

definition results_for :: "reporter \<Rightarrow> Report \<Rightarrow> node_id \<Rightarrow> nat" where
  "results_for rep req n = how_many n (Successes req) + how_many n (Fails req) + how_many n (Unknown req) +
     how_many n (Offlines req) + due_failures rep (PendingAudits req) n"

definition report_nodes :: "Report \<Rightarrow> node_id set" where
  "report_nodes req = set (Successes req) \<union> set (Fails req) \<union> set (Unknown req) \<union> set (Offlines req) \<union>
     (\<lambda>j. pl_NodeID (job_Locator j)) ` set (PendingAudits req)"

lemma called_simps [simp]:
  "sat_db (called s) = sat_db s" "sat_nodes (called s) = sat_nodes s" "sat_queue (called s) = sat_queue s"
  "sat_events (called s) = sat_events s" "sat_calls (called s) = sat_calls s + 1"
  by (simp_all add: called_def)

lemma containment_Delete_db [simp]: "sat_db (fst (containment_Delete e piece s)) = sat_db s"
  by (simp add: containment_Delete_def Let_def split: prod.split)

lemma remove_job_db [simp]: "sat_db (fst (remove_job env piece s)) = sat_db s"
  using containment_Delete_db [of "next_call env s" piece s]
  by (auto simp: remove_job_def Let_def simp del: containment_Delete_db split: prod.split option.split)

lemma ReportReverificationNeeded_db [simp]: "sat_db (fst (ReportReverificationNeeded env piece s)) = sat_db s"
  by (simp add: ReportReverificationNeeded_def Let_def)

context reputation_DB
begin

lemma statuses_count:
  assumes "\<And>i. overlay_reliable reliable (env i)"
  shows "valid (sat_db s) \<Longrightarrow> \<forall>n \<in> set nodeIDs. known_active (status_of nr n) \<Longrightarrow>
    recordAuditStatus update rep env nr k nodeIDs s = (failed, s') \<Longrightarrow>
    valid (sat_db s') \<and> sat_queue s' = sat_queue s \<and> set failed \<subseteq> set nodeIDs \<and>
    audits n' (sat_db s') + int (how_many n' failed) = audits n' (sat_db s) + int (how_many n' nodeIDs)"
proof (induction nodeIDs arbitrary: s failed)
  case (Cons n ns)
  obtain s1 err where a: "ApplyAudit update (rp_sendNodeEmails rep) (next_call env s) n (status_of nr n) k s = (s1, err)" by fastforce
  obtain failed' where r: "recordAuditStatus update rep env nr k ns (called s1) = (failed', s')"
    and failed: "failed = (if err = None then failed' else n # failed')"
    using Cons.prems(3) a by (auto split: prod.splits)
  have "overlay_reliable reliable (next_call env s)" using assms by (simp add: next_call_def)
  note A = ApplyAudit_counts [OF Cons.prems(1) _ this a, of n']
  show ?case using A Cons.IH [OF _ _ r] Cons.prems(2) failed by auto
qed simp

lemma pending_count:
  assumes "\<And>i. overlay_reliable reliable (env i)"
  shows "valid (sat_db s) \<Longrightarrow> \<forall>j \<in> set jobs. known_active (status_of nr (pl_NodeID (job_Locator j))) \<Longrightarrow>
    recordPendingAudits update rep env nr jobs s = (failed, s') \<Longrightarrow>
    valid (sat_db s') \<and> set failed \<subseteq> set jobs \<and>
    audits n' (sat_db s') + int (due_failures rep failed n') = audits n' (sat_db s) + int (due_failures rep jobs n')"
proof (induction jobs arbitrary: s failed)
  case (Cons job jobs)
  let ?n = "pl_NodeID (job_Locator job)"
  have env: "overlay_reliable reliable (next_call env s)" using assms by (simp add: next_call_def)
  show ?case
  proof (cases "job_ReverifyCount job < rp_maxReverifyCount rep")
    case True
    obtain s1 ok where a: "ReportReverificationNeeded env (job_Locator job) s = (s1, ok)" by fastforce
    obtain failed' where r: "recordPendingAudits update rep env nr jobs s1 = (failed', s')"
      and failed: "failed = (if ok then failed' else job # failed')"
      using Cons.prems(3) a True by (auto simp: Let_def split: prod.splits)
    have "sat_db s1 = sat_db s" using a ReportReverificationNeeded_db [of env "job_Locator job" s] by simp
    then show ?thesis using Cons.IH [OF _ _ r] Cons.prems(1,2) failed True by (auto simp: due_failures_def)
  next
    case False
    obtain s1 err where a: "ApplyAudit update (rp_sendNodeEmails rep) (next_call env s) ?n (status_of nr ?n) AuditFailure s = (s1, err)"
      by fastforce
    obtain failed' where
      r: "recordPendingAudits update rep env nr jobs (if err = None then fst (remove_job env (job_Locator job) (called s1)) else called s1) = (failed', s')"
      and failed: "failed = (if err = None then failed' else job # failed')"
      using Cons.prems(3) a False by (auto simp: Let_def split: prod.splits option.splits)
    note A = ApplyAudit_counts [OF Cons.prems(1) _ env a, of n']
    show ?thesis using A Cons.IH [OF _ _ r] Cons.prems(2) failed False by (auto simp: due_failures_def split: if_splits)
  qed
qed (simp add: due_failures_def)

lemma tries_count:
  assumes "\<And>i. overlay_reliable reliable (env i)"
  shows "valid (sat_db s) \<Longrightarrow> \<forall>n \<in> report_nodes req. known_active (status_of (NodesReputation req) n) \<Longrightarrow>
    record_tries update rep env tries req s = (rest, s') \<Longrightarrow>
    valid (sat_db s') \<and> audits n' (sat_db s') + int (results_for rep rest n') = audits n' (sat_db s) + int (results_for rep req n')"
proof (induction tries arbitrary: req s)
  case (Suc tries)
  let ?nr = "NodesReputation req"
  show ?case
  proof (cases "nothing_to_record req")
    case False
    obtain f1 s1 where r1: "recordAuditStatus update rep env ?nr AuditSuccess (Successes req) s = (f1, s1)" by fastforce
    obtain f2 s2 where r2: "recordAuditStatus update rep env ?nr AuditFailure (Fails req) s1 = (f2, s2)" by fastforce
    obtain f3 s3 where r3: "recordAuditStatus update rep env ?nr AuditUnknown (Unknown req) s2 = (f3, s3)" by fastforce
    obtain f4 s4 where r4: "recordAuditStatus update rep env ?nr AuditOffline (Offlines req) s3 = (f4, s4)" by fastforce
    obtain f5 s5 where r5: "recordPendingAudits update rep env ?nr (PendingAudits req) s4 = (f5, s5)" by fastforce
    have known: "\<forall>n \<in> set (Successes req). known_active (status_of ?nr n)" "\<forall>n \<in> set (Fails req). known_active (status_of ?nr n)"
      "\<forall>n \<in> set (Unknown req). known_active (status_of ?nr n)" "\<forall>n \<in> set (Offlines req). known_active (status_of ?nr n)"
      "\<forall>j \<in> set (PendingAudits req). known_active (status_of ?nr (pl_NodeID (job_Locator j)))"
      using Suc.prems(2) by (auto simp: report_nodes_def)
    note c1 = statuses_count [OF assms Suc.prems(1) known(1) r1, of n']
    note c2 = statuses_count [OF assms conjunct1 [OF c1] known(2) r2, of n']
    note c3 = statuses_count [OF assms conjunct1 [OF c2] known(3) r3, of n']
    note c4 = statuses_count [OF assms conjunct1 [OF c3] known(4) r4, of n']
    note c5 = pending_count [OF assms conjunct1 [OF c4] known(5) r5, of n']
    let ?req = "req\<lparr>Successes := f1, Fails := f2, Unknown := f3, Offlines := f4, PendingAudits := f5\<rparr>"
    have rest: "record_tries update rep env tries ?req s5 = (rest, s')"
      using Suc.prems(3) False r1 r2 r3 r4 r5 by simp
    have "\<forall>n \<in> report_nodes ?req. known_active (status_of (NodesReputation ?req) n)"
      using Suc.prems(2) c1 c2 c3 c4 c5 unfolding report_nodes_def by fastforce
    from Suc.IH [OF conjunct1 [OF c5] this rest] show ?thesis
      using c1 c2 c3 c4 c5 by (simp add: results_for_def)
  qed (use Suc.prems in simp)
qed simp

lemma RecordAudits_count:
  assumes "\<And>i. overlay_reliable reliable (env i)" "valid (sat_db s)"
    and "\<forall>n \<in> report_nodes req. known_active (status_of (NodesReputation req) n)" "RecordAudits update rep env req s = (rest, s')"
  shows "valid (sat_db s') \<and> audits n (sat_db s') + int (results_for rep rest n) = audits n (sat_db s) + int (results_for rep req n)"
  using tries_count [OF assms(1-3), of rep] assms(4) by (simp add: RecordAudits_def)

end

subsection \<open>Which result is recorded\<close>

text \<open>The updates of reputations, each with the number of its call, one after the other; those that
  return a reputation are recorded.\<close>

fun replay :: "('e, 'd) Update_fun \<Rightarrow> (nat \<Rightarrow> 'e call_env) \<Rightarrow> (nat \<times> node_id \<times> AuditType) list \<Rightarrow> 'd \<Rightarrow>
    'd \<times> (node_id \<times> AuditType) list" where
  "replay update env [] d = (d, [])"
| "replay update env ((i, n, k) # calls) d =
     (case update (ce_db (env i)) n k (ce_now (env i)) d of
        (d, res) \<Rightarrow> (case replay update env calls d of
          (d, recorded) \<Rightarrow> (d, if is_update res then (n, k) # recorded else recorded)))"

definition replays :: "('e, 'd) Update_fun \<Rightarrow> (nat \<Rightarrow> 'e call_env) \<Rightarrow> 'd \<Rightarrow> 'd \<Rightarrow> (node_id \<times> AuditType) list \<Rightarrow> bool" where
  "replays update env d d' recorded \<longleftrightarrow> (\<exists>calls. replay update env calls d = (d', recorded))"

lemma replay_append:
  "replay update env (a @ b) d = (case replay update env a d of (d, r) \<Rightarrow> case replay update env b d of (d, r') \<Rightarrow> (d, r @ r'))"
  by (induction update env a d rule: replay.induct) (auto split: prod.split)

lemma replays_refl: "replays update env d d []"
  unfolding replays_def by (rule exI [of _ "[]"]) simp

lemma replays_trans: "replays update env d d' r \<Longrightarrow> replays update env d' d'' r' \<Longrightarrow> replays update env d d'' (r @ r')"
  unfolding replays_def by (metis (no_types, lifting) case_prod_conv replay_append)

text \<open>What is due is recorded or left over; in the exact case, once.\<close>

definition accounted :: "bool \<Rightarrow> 'a list \<Rightarrow> ('a \<Rightarrow> nat) \<Rightarrow> ('a \<Rightarrow> nat) \<Rightarrow> bool" where
  "accounted exact recorded rest wanted \<longleftrightarrow>
     (\<forall>x. wanted x \<le> how_many x recorded + rest x \<and> (exact \<longrightarrow> how_many x recorded + rest x = wanted x))"

lemma accounted_none: "accounted exact [] w w"
  by (simp add: accounted_def)

lemma accounted_both:
  assumes "accounted exact r rest w" "accounted exact r' rest' w'"
  shows "accounted exact (r @ r') (\<lambda>x. rest x + rest' x) (\<lambda>x. w x + w' x)"
  unfolding accounted_def count_list_append
proof
  fix x
  show "w x + w' x \<le> how_many x r + how_many x r' + (rest x + rest' x) \<and>
      (exact \<longrightarrow> how_many x r + how_many x r' + (rest x + rest' x) = w x + w' x)"
    using assms [unfolded accounted_def, rule_format, of x] by auto
qed

lemma accounted_trans:
  assumes "accounted exact r mid w" "accounted exact r' rest mid"
  shows "accounted exact (r @ r') rest w"
  unfolding accounted_def count_list_append
proof
  fix x
  show "w x \<le> how_many x r + how_many x r' + rest x \<and> (exact \<longrightarrow> how_many x r + how_many x r' + rest x = w x)"
    using assms [unfolded accounted_def, rule_format, of x] by auto
qed

text \<open>The results of a kind that a report has for a node.\<close>

definition results_of :: "reporter \<Rightarrow> Report \<Rightarrow> AuditType \<Rightarrow> node_id \<Rightarrow> nat" where
  "results_of rep req kind n = (case kind of
     AuditSuccess \<Rightarrow> how_many n (Successes req)
   | AuditFailure \<Rightarrow> how_many n (Fails req) + due_failures rep (PendingAudits req) n
   | AuditUnknown \<Rightarrow> how_many n (Unknown req)
   | AuditOffline \<Rightarrow> how_many n (Offlines req))"

definition of_kind :: "AuditType \<Rightarrow> (node_id \<Rightarrow> nat) \<Rightarrow> node_id \<times> AuditType \<Rightarrow> nat" where
  "of_kind k f x = (if snd x = k then f (fst x) else 0)"

context reputation_DB
begin

lemma ApplyAudit_replays:
  assumes "valid (sat_db s)" "known_active reputation"
    and "ApplyAudit update emails (next_call env s) n reputation k s = (s', err)"
    and "exact \<longrightarrow> (\<forall>i. \<not> ce_overlay_fails (env i))"
  shows "\<exists>recorded. replays update env (sat_db s) (sat_db s') recorded \<and> valid (sat_db s') \<and>
    accounted exact recorded (of_kind k (\<lambda>m. if m = n \<and> err \<noteq> None then 1 else 0)) (of_kind k (\<lambda>m. if m = n then 1 else 0))"
proof -
  let ?e = "next_call env s"
  obtain d' res where u: "update (ce_db ?e) n k (ce_now ?e) (sat_db s) = (d', res)" by fastforce
  let ?r = "if is_update res then [(n, k)] else []"
  have d': "sat_db s' = d'" using ApplyAudit_known [of reputation update, OF assms(2) u, of emails] assms(3) by simp
  have "replay update env [(sat_calls s, n, k)] (sat_db s) = (sat_db s', ?r)"
    using u by (simp add: next_call_def d')
  then have "replays update env (sat_db s) (sat_db s') ?r" unfolding replays_def by blast
  moreover have "err = None \<longrightarrow> is_update res"
    using assms(2,3) u keeps [OF assms(1) u]
    by (cases res) (auto simp: ApplyAudit_def known_active_def)
  moreover have "exact \<longrightarrow> (err = None \<longleftrightarrow> is_update res)"
    using ApplyAudit_known [of reputation update, OF assms(2) u, of emails] assms(3,4) by (simp add: next_call_def)
  ultimately show ?thesis using keeps [OF assms(1) u]
    by (intro exI [of _ ?r]) (auto simp: d' accounted_def of_kind_def)
qed

lemma statuses_replay:
  assumes "exact \<longrightarrow> (\<forall>i. \<not> ce_overlay_fails (env i))"
  shows "valid (sat_db s) \<Longrightarrow> \<forall>n \<in> set nodeIDs. known_active (status_of nr n) \<Longrightarrow>
    recordAuditStatus update rep env nr k nodeIDs s = (failed, s') \<Longrightarrow>
    \<exists>recorded. replays update env (sat_db s) (sat_db s') recorded \<and> valid (sat_db s') \<and> set failed \<subseteq> set nodeIDs \<and>
      accounted exact recorded (of_kind k (\<lambda>n. how_many n failed)) (of_kind k (\<lambda>n. how_many n nodeIDs))"
proof (induction nodeIDs arbitrary: s failed)
  case Nil
  then show ?case using replays_refl accounted_none by (fastforce simp: of_kind_def)
next
  case (Cons n ns)
  obtain s1 err where a: "ApplyAudit update (rp_sendNodeEmails rep) (next_call env s) n (status_of nr n) k s = (s1, err)" by fastforce
  obtain failed' where r: "recordAuditStatus update rep env nr k ns (called s1) = (failed', s')"
    and failed: "failed = (if err = None then failed' else n # failed')"
    using Cons.prems(3) a by (auto split: prod.splits)
  obtain r1 where r1: "replays update env (sat_db s) (sat_db s1) r1" "valid (sat_db s1)"
    "accounted exact r1 (of_kind k (\<lambda>m. if m = n \<and> err \<noteq> None then 1 else 0)) (of_kind k (\<lambda>m. if m = n then 1 else 0))"
    using ApplyAudit_replays [OF Cons.prems(1) _ a assms] Cons.prems(2) by auto
  from Cons.IH [OF _ _ r] r1(2) Cons.prems(2) obtain r2 where
    r2: "replays update env (sat_db s1) (sat_db s') r2" "valid (sat_db s')" "set failed' \<subseteq> set ns"
      "accounted exact r2 (of_kind k (\<lambda>n. how_many n failed')) (of_kind k (\<lambda>n. how_many n ns))" by auto
  have "(\<lambda>x. of_kind k (\<lambda>m. if m = n \<and> err \<noteq> None then 1 else 0) x + of_kind k (\<lambda>n. how_many n failed') x)
      = of_kind k (\<lambda>n. how_many n failed)"
    "(\<lambda>x. of_kind k (\<lambda>m. if m = n then 1 else 0) x + of_kind k (\<lambda>n. how_many n ns) x) = of_kind k (\<lambda>m. how_many m (n # ns))"
    by (auto simp: of_kind_def failed)
  with accounted_both [OF r1(3) r2(4)] replays_trans [OF r1(1) r2(1)] r2(2,3) show ?case
    by (intro exI [of _ "r1 @ r2"]) (auto simp: failed)
qed

lemma pending_replay:
  assumes "exact \<longrightarrow> (\<forall>i. \<not> ce_overlay_fails (env i))"
  shows "valid (sat_db s) \<Longrightarrow> \<forall>j \<in> set jobs. known_active (status_of nr (pl_NodeID (job_Locator j))) \<Longrightarrow>
    recordPendingAudits update rep env nr jobs s = (failed, s') \<Longrightarrow>
    \<exists>recorded. replays update env (sat_db s) (sat_db s') recorded \<and> valid (sat_db s') \<and> set failed \<subseteq> set jobs \<and>
      accounted exact recorded (of_kind AuditFailure (due_failures rep failed)) (of_kind AuditFailure (due_failures rep jobs))"
proof (induction jobs arbitrary: s failed)
  case Nil
  then show ?case using replays_refl accounted_none by fastforce
next
  case (Cons job jobs)
  let ?n = "pl_NodeID (job_Locator job)"
  show ?case
  proof (cases "job_ReverifyCount job < rp_maxReverifyCount rep")
    case True
    obtain s1 ok where a: "ReportReverificationNeeded env (job_Locator job) s = (s1, ok)" by fastforce
    obtain failed' where r: "recordPendingAudits update rep env nr jobs s1 = (failed', s')"
      and failed: "failed = (if ok then failed' else job # failed')"
      using Cons.prems(3) a True by (auto simp: Let_def split: prod.splits)
    have db: "sat_db s1 = sat_db s" using a ReportReverificationNeeded_db [of env "job_Locator job" s] by simp
    have due: "due_failures rep failed = due_failures rep failed'" "due_failures rep (job # jobs) = due_failures rep jobs"
      using True by (auto simp: due_failures_def failed)
    from Cons.IH [OF _ _ r] Cons.prems(1,2) show ?thesis unfolding due db by (auto simp: failed)
  next
    case False
    obtain s1 err where a: "ApplyAudit update (rp_sendNodeEmails rep) (next_call env s) ?n (status_of nr ?n) AuditFailure s = (s1, err)"
      by fastforce
    obtain failed' where
      r: "recordPendingAudits update rep env nr jobs (if err = None then fst (remove_job env (job_Locator job) (called s1)) else called s1) = (failed', s')"
      and failed: "failed = (if err = None then failed' else job # failed')"
      using Cons.prems(3) a False by (auto simp: Let_def split: prod.splits option.splits)
    let ?s2 = "if err = None then fst (remove_job env (job_Locator job) (called s1)) else called s1"
    have db: "sat_db ?s2 = sat_db s1" by simp
    obtain r1 where r1: "replays update env (sat_db s) (sat_db s1) r1" "valid (sat_db s1)"
      "accounted exact r1 (of_kind AuditFailure (\<lambda>m. if m = ?n \<and> err \<noteq> None then 1 else 0))
         (of_kind AuditFailure (\<lambda>m. if m = ?n then 1 else 0))"
      using ApplyAudit_replays [OF Cons.prems(1) _ a assms] Cons.prems(2) by auto
    from Cons.IH [OF _ _ r, unfolded db] r1(2) Cons.prems(2) obtain r2 where
      r2: "replays update env (sat_db s1) (sat_db s') r2" "valid (sat_db s')" "set failed' \<subseteq> set jobs"
        "accounted exact r2 (of_kind AuditFailure (due_failures rep failed')) (of_kind AuditFailure (due_failures rep jobs))" by auto
    have "(\<lambda>x. of_kind AuditFailure (\<lambda>m. if m = ?n \<and> err \<noteq> None then 1 else 0) x + of_kind AuditFailure (due_failures rep failed') x)
        = of_kind AuditFailure (due_failures rep failed)"
      "(\<lambda>x. of_kind AuditFailure (\<lambda>m. if m = ?n then 1 else 0) x + of_kind AuditFailure (due_failures rep jobs) x)
        = of_kind AuditFailure (due_failures rep (job # jobs))"
      using False by (auto simp: of_kind_def failed due_failures_def)
    with accounted_both [OF r1(3) r2(4)] replays_trans [OF r1(1) r2(1)] r2(2,3) show ?thesis
      by (intro exI [of _ "r1 @ r2"]) (auto simp: failed)
  qed
qed

lemma tries_replay:
  assumes "exact \<longrightarrow> (\<forall>i. \<not> ce_overlay_fails (env i))"
  shows "valid (sat_db s) \<Longrightarrow> \<forall>n \<in> report_nodes req. known_active (status_of (NodesReputation req) n) \<Longrightarrow>
    record_tries update rep env tries req s = (rest, s') \<Longrightarrow>
    \<exists>recorded. replays update env (sat_db s) (sat_db s') recorded \<and>
      accounted exact recorded (\<lambda>(n, k). results_of rep rest k n) (\<lambda>(n, k). results_of rep req k n)"
proof (induction tries arbitrary: req s)
  case (Suc tries)
  let ?nr = "NodesReputation req"
  show ?case
  proof (cases "nothing_to_record req")
    case True
    then show ?thesis using Suc.prems replays_refl accounted_none by fastforce
  next
    case False
    obtain f1 s1 where r1: "recordAuditStatus update rep env ?nr AuditSuccess (Successes req) s = (f1, s1)" by fastforce
    obtain f2 s2 where r2: "recordAuditStatus update rep env ?nr AuditFailure (Fails req) s1 = (f2, s2)" by fastforce
    obtain f3 s3 where r3: "recordAuditStatus update rep env ?nr AuditUnknown (Unknown req) s2 = (f3, s3)" by fastforce
    obtain f4 s4 where r4: "recordAuditStatus update rep env ?nr AuditOffline (Offlines req) s3 = (f4, s4)" by fastforce
    obtain f5 s5 where r5: "recordPendingAudits update rep env ?nr (PendingAudits req) s4 = (f5, s5)" by fastforce
    have known: "\<forall>n \<in> set (Successes req). known_active (status_of ?nr n)" "\<forall>n \<in> set (Fails req). known_active (status_of ?nr n)"
      "\<forall>n \<in> set (Unknown req). known_active (status_of ?nr n)" "\<forall>n \<in> set (Offlines req). known_active (status_of ?nr n)"
      "\<forall>j \<in> set (PendingAudits req). known_active (status_of ?nr (pl_NodeID (job_Locator j)))"
      using Suc.prems(2) by (auto simp: report_nodes_def)
    obtain a1 where c1: "replays update env (sat_db s) (sat_db s1) a1" "valid (sat_db s1)" "set f1 \<subseteq> set (Successes req)"
      "accounted exact a1 (of_kind AuditSuccess (\<lambda>n. how_many n f1)) (of_kind AuditSuccess (\<lambda>n. how_many n (Successes req)))"
      using statuses_replay [OF assms Suc.prems(1) known(1) r1] by blast
    obtain a2 where c2: "replays update env (sat_db s1) (sat_db s2) a2" "valid (sat_db s2)" "set f2 \<subseteq> set (Fails req)"
      "accounted exact a2 (of_kind AuditFailure (\<lambda>n. how_many n f2)) (of_kind AuditFailure (\<lambda>n. how_many n (Fails req)))"
      using statuses_replay [OF assms c1(2) known(2) r2] by blast
    obtain a3 where c3: "replays update env (sat_db s2) (sat_db s3) a3" "valid (sat_db s3)" "set f3 \<subseteq> set (Unknown req)"
      "accounted exact a3 (of_kind AuditUnknown (\<lambda>n. how_many n f3)) (of_kind AuditUnknown (\<lambda>n. how_many n (Unknown req)))"
      using statuses_replay [OF assms c2(2) known(3) r3] by blast
    obtain a4 where c4: "replays update env (sat_db s3) (sat_db s4) a4" "valid (sat_db s4)" "set f4 \<subseteq> set (Offlines req)"
      "accounted exact a4 (of_kind AuditOffline (\<lambda>n. how_many n f4)) (of_kind AuditOffline (\<lambda>n. how_many n (Offlines req)))"
      using statuses_replay [OF assms c3(2) known(4) r4] by blast
    obtain a5 where c5: "replays update env (sat_db s4) (sat_db s5) a5" "valid (sat_db s5)" "set f5 \<subseteq> set (PendingAudits req)"
      "accounted exact a5 (of_kind AuditFailure (due_failures rep f5)) (of_kind AuditFailure (due_failures rep (PendingAudits req)))"
      using pending_replay [OF assms c4(2) known(5) r5] by blast
    let ?req = "req\<lparr>Successes := f1, Fails := f2, Unknown := f3, Offlines := f4, PendingAudits := f5\<rparr>"
    have rest: "record_tries update rep env tries ?req s5 = (rest, s')"
      using Suc.prems(3) False r1 r2 r3 r4 r5 by simp
    have "\<forall>n \<in> report_nodes ?req. known_active (status_of (NodesReputation ?req) n)"
      using Suc.prems(2) c1(3) c2(3) c3(3) c4(3) c5(3) unfolding report_nodes_def by fastforce
    from Suc.IH [OF c5(2) this rest] obtain b where b: "replays update env (sat_db s5) (sat_db s') b"
      "accounted exact b (\<lambda>(n, k). results_of rep rest k n) (\<lambda>(n, k). results_of rep ?req k n)" by blast
    let ?a = "a1 @ a2 @ a3 @ a4 @ a5"
    have sums: "(\<lambda>(n, k). results_of rep req' k n) = (\<lambda>x. of_kind AuditSuccess (\<lambda>n. how_many n (Successes req')) x +
        (of_kind AuditFailure (\<lambda>n. how_many n (Fails req')) x + (of_kind AuditUnknown (\<lambda>n. how_many n (Unknown req')) x +
        (of_kind AuditOffline (\<lambda>n. how_many n (Offlines req')) x + of_kind AuditFailure (due_failures rep (PendingAudits req')) x))))"
      for req' by (auto simp: results_of_def of_kind_def split: AuditType.split)
    have "accounted exact ?a (\<lambda>(n, k). results_of rep ?req k n) (\<lambda>(n, k). results_of rep req k n)"
      unfolding sums using accounted_both [OF c1(4) accounted_both [OF c2(4) accounted_both [OF c3(4) accounted_both [OF c4(4) c5(4)]]]]
      by simp
    from accounted_trans [OF this b(2)]
    have "accounted exact (?a @ b) (\<lambda>(n, k). results_of rep rest k n) (\<lambda>(n, k). results_of rep req k n)" .
    moreover have "replays update env (sat_db s) (sat_db s5) ?a"
      by (rule replays_trans [OF c1(1) replays_trans [OF c2(1) replays_trans [OF c3(1) replays_trans [OF c4(1) c5(1)]]]])
    from replays_trans [OF this b(1)] have "replays update env (sat_db s) (sat_db s') (?a @ b)" .
    ultimately show ?thesis by blast
  qed
next
  case 0
  then show ?case using replays_refl accounted_none by fastforce
qed

lemma RecordAudits_replay:
  assumes "valid (sat_db s)" "\<forall>n \<in> report_nodes req. known_active (status_of (NodesReputation req) n)"
    and "RecordAudits update rep env req s = (rest, s')"
  shows "\<exists>calls recorded. replay update env calls (sat_db s) = (sat_db s', recorded) \<and>
    (\<forall>n k. results_of rep req k n \<le> how_many (n, k) recorded + results_of rep rest k n \<and>
      ((\<forall>i. \<not> ce_overlay_fails (env i)) \<longrightarrow> how_many (n, k) recorded + results_of rep rest k n = results_of rep req k n))"
  using tries_replay [of "\<forall>i. \<not> ce_overlay_fails (env i)" env, OF _ assms(1,2) assms(3) [unfolded RecordAudits_def]]
  by (simp add: replays_def accounted_def) blast

end

text \<open>Every result of the report is recorded as what it is or left over, and in the exact case only once.\<close>

definition recorded_of :: "reporter \<Rightarrow> bool \<Rightarrow> (node_id \<times> AuditType) list \<Rightarrow> Report \<Rightarrow> Report \<Rightarrow> bool" where
  "recorded_of rep exact recorded rest req \<longleftrightarrow>
     (\<forall>n k. results_of rep req k n \<le> how_many (n, k) recorded + results_of rep rest k n \<and>
       (exact \<longrightarrow> how_many (n, k) recorded + results_of rep rest k n = results_of rep req k n))"


subsection \<open>The overlay and the queue agree on who is contained\<close>

definition queued :: "node_id \<Rightarrow> reverification_audit list \<Rightarrow> bool" where
  "queued n queue \<longleftrightarrow> n \<in> (\<lambda>r. pl_NodeID (ra_locator r)) ` set queue"

definition contained_ok :: "'d satellite \<Rightarrow> bool" where
  "contained_ok s \<longleftrightarrow> (\<forall>n node. sat_nodes s n = Some node \<longrightarrow> (on_Contained node \<noteq> None \<longleftrightarrow> queued n (sat_queue s)))"

lemma GetByNodeID_None: "reverify_GetByNodeID n queue = None \<longleftrightarrow> \<not> queued n queue"
proof -
  have "sort_key stream_position (filter (\<lambda>r. pl_NodeID (ra_locator r) = n) queue) = [] \<longleftrightarrow> \<not> queued n queue"
    by (subst set_empty [symmetric]) (auto simp: queued_def filter_empty_conv image_iff)
  then show ?thesis by (auto simp: reverify_GetByNodeID_def split: list.split)
qed

lemma queued_Insert: "queued n (reverify_Insert now piece queue) \<longleftrightarrow> queued n queue \<or> n = pl_NodeID piece"
  by (auto simp: queued_def reverify_Insert_def ra_key_def piece_key_def image_iff)

lemma queued_Remove: "n \<noteq> pl_NodeID piece \<Longrightarrow> queued n (fst (reverify_Remove piece queue)) \<longleftrightarrow> queued n queue"
  by (auto simp: queued_def reverify_Remove_def ra_key_def piece_key_def image_iff)

lemma SetNodeContained_ok:
  assumes "\<And>n node. nodes n = Some node \<Longrightarrow> n \<noteq> nodeID \<Longrightarrow> (on_Contained node \<noteq> None \<longleftrightarrow> P n)"
    and "\<And>node. nodes nodeID = Some node \<Longrightarrow> b = P nodeID"
    and "SetNodeContained now nodeID b nodes n = Some node"
  shows "on_Contained node \<noteq> None \<longleftrightarrow> P n"
  using assms by (cases "n = nodeID") (auto simp: SetNodeContained_def split: option.splits if_splits)

lemma UpdateReputation_contained:
  "map_option on_Contained (overlaycache_UpdateReputation n ru nodes n') = map_option on_Contained (nodes n')"
  by (auto simp: overlaycache_UpdateReputation_def split: option.split)

lemma ApplyAudit_contained:
  assumes "ApplyAudit update emails env n reputation k s = (s', err)"
  shows "map_option on_Contained (sat_nodes s' n') = map_option on_Contained (sat_nodes s n') \<and> sat_queue s' = sat_queue s"
  using assms
  by (auto simp: ApplyAudit_def Service_UpdateReputation_def insertReputationNodeEvents_def UpdateReputation_contained Let_def
    split: sum.splits update_result.splits prod.splits if_splits)

lemma contained_ok_iff:
  "contained_ok t \<longleftrightarrow> (\<forall>n c. map_option on_Contained (sat_nodes t n) = Some c \<longrightarrow> (c \<noteq> None \<longleftrightarrow> queued n (sat_queue t)))"
  unfolding contained_ok_def map_option_eq_Some by blast

lemma contained_ok_same:
  assumes "\<And>n. map_option on_Contained (sat_nodes s' n) = map_option on_Contained (sat_nodes s n)" "sat_queue s' = sat_queue s"
  shows "contained_ok s' \<longleftrightarrow> contained_ok s"
  unfolding contained_ok_iff assms ..

lemma called_contained [simp]: "contained_ok (called s) \<longleftrightarrow> contained_ok s"
  by (simp add: contained_ok_def)

lemma ApplyAudit_contained_ok:
  "ApplyAudit update emails env n reputation k s = (s', err) \<Longrightarrow> contained_ok s \<Longrightarrow> contained_ok s'"
  using contained_ok_same [of s' s] ApplyAudit_contained by blast

text \<open>Calls in which the overlay can be changed and the queue can be read.\<close>

definition containment_reliable :: "'e call_env \<Rightarrow> bool" where
  "containment_reliable env \<longleftrightarrow> \<not> ce_overlay_fails env \<and> \<not> ce_lookup_fails env"

lemma Report_contained:
  assumes "containment_reliable (next_call env s)" "contained_ok s"
  shows "contained_ok (fst (ReportReverificationNeeded env piece s))"
proof (cases "ce_queue_fails (next_call env s)")
  case False
  let ?now = "ce_now (next_call env s)"
  have "on_Contained node \<noteq> None \<longleftrightarrow> queued n (reverify_Insert ?now piece (sat_queue s))"
    if "SetNodeContained ?now (pl_NodeID piece) True (sat_nodes s) n = Some node" for n node
    by (rule SetNodeContained_ok [OF _ _ that]) (use assms(2) in \<open>auto simp: contained_ok_def queued_Insert\<close>)
  then show ?thesis using assms(1) False
    by (simp add: ReportReverificationNeeded_def containment_reliable_def contained_ok_def Let_def)
qed (use assms in \<open>simp add: ReportReverificationNeeded_def Let_def\<close>)

lemma remove_contained:
  assumes "containment_reliable (next_call env s)" "contained_ok s"
  shows "contained_ok (fst (remove_job env piece s))"
proof (cases "ce_queue_fails (next_call env s)")
  case False
  let ?now = "ce_now (next_call env s)" and ?queue = "fst (reverify_Remove piece (sat_queue s))"
  let ?n = "pl_NodeID piece"
  have other: "on_Contained node \<noteq> None \<longleftrightarrow> queued n ?queue" if "sat_nodes s n = Some node" "n \<noteq> ?n" for n node
    using assms(2) that queued_Remove [of n piece "sat_queue s"] by (simp add: contained_ok_def)
  have "queued ?n ?queue \<longrightarrow> queued ?n (sat_queue s)" by (auto simp: queued_def reverify_Remove_def)
  then have same: "on_Contained node \<noteq> None \<longleftrightarrow> queued n ?queue" if "sat_nodes s n = Some node" "queued ?n ?queue" for n node
    using assms(2) that other by (cases "n = ?n") (auto simp: contained_ok_def)
  have gone: "on_Contained node \<noteq> None \<longleftrightarrow> queued n ?queue"
    if "\<not> queued ?n ?queue" "SetNodeContained ?now ?n False (sat_nodes s) n = Some node" for n node
    by (rule SetNodeContained_ok [OF _ _ that(2)]) (use other that(1) in auto)
  show ?thesis
  proof (cases "queued ?n ?queue")
    case True
    then have "fst (remove_job env piece s) = called (s\<lparr>sat_queue := ?queue\<rparr>)"
      using assms(1) False
      by (auto simp: remove_job_def containment_Delete_def containment_reliable_def GetByNodeID_None Let_def split: prod.split)
    then show ?thesis using same True by (simp add: contained_ok_def)
  next
    case gone': False
    then have "reverify_GetByNodeID ?n ?queue = None" by (simp add: GetByNodeID_None)
    then have "fst (remove_job env piece s) = called (s\<lparr>sat_queue := ?queue, sat_nodes := SetNodeContained ?now ?n False (sat_nodes s)\<rparr>)"
      using assms(1) False
      by (auto simp: remove_job_def containment_Delete_def containment_reliable_def Let_def split: prod.split)
    then show ?thesis using gone gone' by (simp add: contained_ok_def)
  qed
qed (use assms in \<open>simp add: remove_job_def containment_Delete_def Let_def\<close>)

lemma statuses_contained:
  "recordAuditStatus update rep env nr k nodeIDs s = (failed, s') \<Longrightarrow> contained_ok s \<Longrightarrow> contained_ok s'"
proof (induction nodeIDs arbitrary: s failed)
  case (Cons n ns)
  then show ?case using ApplyAudit_contained_ok by (fastforce split: prod.splits)
qed simp

lemma pending_contained:
  assumes "\<And>i. containment_reliable (env i)"
  shows "recordPendingAudits update rep env nr jobs s = (failed, s') \<Longrightarrow> contained_ok s \<Longrightarrow> contained_ok s'"
proof (induction jobs arbitrary: s failed)
  case (Cons job jobs)
  have env: "containment_reliable (next_call env t)" for t using assms by (simp add: next_call_def)
  let ?n = "pl_NodeID (job_Locator job)"
  obtain s1 ok failed' where r: "recordPendingAudits update rep env nr jobs s1 = (failed', s')"
    and s1: "(if job_ReverifyCount job < rp_maxReverifyCount rep
            then ReportReverificationNeeded env (job_Locator job) s
            else case ApplyAudit update (rp_sendNodeEmails rep) (next_call env s) ?n (status_of nr ?n) AuditFailure s of
              (s, Some err) \<Rightarrow> (called s, False)
            | (s, None) \<Rightarrow> (fst (remove_job env (job_Locator job) (called s)), True)) = (s1, ok)"
    using Cons.prems(1) by (auto simp: Let_def split: prod.splits)
  have "contained_ok s1"
  proof (cases "job_ReverifyCount job < rp_maxReverifyCount rep")
    case True
    then show ?thesis using s1 Report_contained [OF env Cons.prems(2), of "job_Locator job"] by simp
  next
    case False
    obtain s2 err where a: "ApplyAudit update (rp_sendNodeEmails rep) (next_call env s) ?n (status_of nr ?n) AuditFailure s = (s2, err)" by fastforce
    have "contained_ok (called s2)" using ApplyAudit_contained_ok [OF a Cons.prems(2)] by simp
    then show ?thesis using s1 False a remove_contained [OF env, of "called s2" "job_Locator job"] by (auto split: option.splits)
  qed
  from Cons.IH [OF r this] show ?case .
qed simp

lemma tries_contained:
  assumes "\<And>i. containment_reliable (env i)"
  shows "record_tries update rep env tries req s = (rest, s') \<Longrightarrow> contained_ok s \<Longrightarrow> contained_ok s'"
proof (induction tries arbitrary: req s)
  case (Suc tries)
  show ?case
  proof (cases "nothing_to_record req")
    case False
    let ?nr = "NodesReputation req"
    obtain f1 s1 where r1: "recordAuditStatus update rep env ?nr AuditSuccess (Successes req) s = (f1, s1)" by fastforce
    obtain f2 s2 where r2: "recordAuditStatus update rep env ?nr AuditFailure (Fails req) s1 = (f2, s2)" by fastforce
    obtain f3 s3 where r3: "recordAuditStatus update rep env ?nr AuditUnknown (Unknown req) s2 = (f3, s3)" by fastforce
    obtain f4 s4 where r4: "recordAuditStatus update rep env ?nr AuditOffline (Offlines req) s3 = (f4, s4)" by fastforce
    obtain f5 s5 where r5: "recordPendingAudits update rep env ?nr (PendingAudits req) s4 = (f5, s5)" by fastforce
    have "contained_ok s4"
      by (rule statuses_contained [OF r4], rule statuses_contained [OF r3], rule statuses_contained [OF r2],
        rule statuses_contained [OF r1], rule Suc.prems(2))
    then have "contained_ok s5" by (rule pending_contained [OF assms r5])
    moreover have "record_tries update rep env tries
        (req\<lparr>Successes := f1, Fails := f2, Unknown := f3, Offlines := f4, PendingAudits := f5\<rparr>) s5 = (rest, s')"
      using Suc.prems(1) False r1 r2 r3 r4 r5 by simp
    ultimately show ?thesis using Suc.IH by blast
  qed (use Suc.prems in simp)
qed simp

lemma RecordAudits_contained:
  "(\<And>i. containment_reliable (env i)) \<Longrightarrow> contained_ok s \<Longrightarrow> contained_ok (snd (RecordAudits update rep env req s))"
  using tries_contained [of env] by (metis RecordAudits_def prod.collapse)

lemma RecordReverificationResult_contained:
  assumes "\<And>i. containment_reliable (env i)" "contained_ok s"
  shows "contained_ok (fst (RecordReverificationResult update rep env job outcome reputation s))"
proof -
  have R: "contained_ok (fst (remove_job env (job_Locator job) t))" if "contained_ok t" for t
    by (rule remove_contained [OF _ that]) (simp add: next_call_def assms(1))
  have A: "contained_ok (snd (RecordAudits update rep env req s))" for req
    by (rule RecordAudits_contained) (rule assms)+
  show ?thesis
    unfolding RecordReverificationResult_def Let_def case_prod_beta
    by (cases "outcome \<in> {OutcomeNotPerformed, OutcomeTimedOut, OutcomeNodeOffline}")
      (simp_all only: if_True if_False fst_conv A R)
qed

lemma set_contained_same: "z = z\<lparr>on_Contained := c\<rparr> \<longleftrightarrow> on_Contained z = c"
  by (cases z) auto

text \<open>
  Property C13. As long as the overlay can be changed and the queue can be read, recording audits and the
  results of reverifications keeps a node marked as contained exactly while the queue has a job of it,
  whatever else fails. And whatever has failed before, one run of the synchronisation chore restores the
  agreement, leaving the queue and the time of the nodes that were marked rightly.
\<close>

theorem containment_agrees:
  shows "((\<forall>i. containment_reliable (env i)) \<and> contained_ok s \<longrightarrow>
      contained_ok (snd (RecordAudits update rep env req s)) \<and>
      contained_ok (fst (RecordReverificationResult update rep env job outcome reputation s))) \<and>
    (\<not> ce_queue_fails e \<and> \<not> ce_overlay_fails e \<longrightarrow>
      contained_ok (syncContainedStatus e t) \<and> sat_queue (syncContainedStatus e t) = sat_queue t \<and>
      (\<forall>n node since. sat_nodes t n = Some node \<and> on_Contained node = Some since \<and> queued n (sat_queue t) \<longrightarrow>
         sat_nodes (syncContainedStatus e t) n = Some node))"
proof (rule conjI)
  show "(\<forall>i. containment_reliable (env i)) \<and> contained_ok s \<longrightarrow>
      contained_ok (snd (RecordAudits update rep env req s)) \<and>
      contained_ok (fst (RecordReverificationResult update rep env job outcome reputation s))"
    using RecordAudits_contained RecordReverificationResult_contained by blast
  show "\<not> ce_queue_fails e \<and> \<not> ce_overlay_fails e \<longrightarrow>
      contained_ok (syncContainedStatus e t) \<and> sat_queue (syncContainedStatus e t) = sat_queue t \<and>
      (\<forall>n node since. sat_nodes t n = Some node \<and> on_Contained node = Some since \<and> queued n (sat_queue t) \<longrightarrow>
         sat_nodes (syncContainedStatus e t) n = Some node)"
    by (auto simp: syncContainedStatus_def contained_ok_def SetAllContainedNodes_def reverify_GetAllContainedNodes_def queued_def Let_def
      set_contained_same split: if_splits)
qed

subsection \<open>What a reverification does\<close>

text \<open>No call fails.\<close>

definition all_fine :: "(time \<times> rep_error option) call_env \<Rightarrow> bool" where
  "all_fine env \<longleftrightarrow> \<not> ce_get_fails env \<and> \<not> ce_overlay_fails env \<and> \<not> ce_queue_fails env \<and> \<not> ce_lookup_fails env \<and>
     snd (ce_db env) = None"

lemma reputations_Update_fine:
  assumes "snd e = None" "reputations_Update cfg e n k now d = (d', res)"
  shows "is_update res"
proof -
  obtain m where m: "UpdateRequestToMutations cfg k now = (m, None)" "OnlineHistory m \<noteq> None" using single_request by blast
  obtain row phase where a: "ApplyUpdates_alone cfg (fst e) m now (d n) = (row, phase)" by fastforce
  from total.alone_count [OF m(2) a] show ?thesis using assms m(1) a by (auto simp: reputations_Update_def)
qed

lemma fine_audit:
  assumes "all_fine env" "known_active reputation"
  shows "\<exists>s'. ApplyAudit (reputations_Update cfg) emails env n reputation k s = (s', None) \<and> sat_queue s' = sat_queue s \<and>
    sat_db s' = fst (reputations_Update cfg (ce_db env) n k (ce_now env) (sat_db s)) \<and>
    (\<forall>n'. in_row r_TotalAuditCount (sat_db s' n') = in_row r_TotalAuditCount (sat_db s n') + (if n' = n then 1 else 0))"
proof -
  obtain s' err where a: "ApplyAudit (reputations_Update cfg) emails env n reputation k s = (s', err)" by fastforce
  obtain d' res where u: "reputations_Update cfg (ce_db env) n k (ce_now env) (sat_db s) = (d', res)" by fastforce
  note known = ApplyAudit_known [of reputation "reputations_Update cfg" env n k s d' res emails, OF assms(2) u]
  have "is_update res" using reputations_Update_fine [OF _ u] assms(1) by (simp add: all_fine_def)
  then have "err = None" "sat_db s' = d'"
    using known a assms(1) by (simp_all add: all_fine_def)
  then show ?thesis
    using rep_table.ApplyAudit_counts [OF TrueI assms(2) _ a] assms(1) a u by (simp add: overlay_reliable_def all_fine_def)
qed

lemma record_nothing: "nothing_to_record req \<Longrightarrow> record_tries update rep env tries req s = (req, s)"
  by (cases tries) simp_all

lemma fine_remove:
  assumes "all_fine (next_call env s)"
  shows "sat_queue (fst (remove_job env piece s)) = fst (reverify_Remove piece (sat_queue s)) \<and> snd (remove_job env piece s)"
  using assms by (auto simp: remove_job_def containment_Delete_def all_fine_def Let_def split: prod.split)

text \<open>The audit result that the result of a reverification stands for, if any.\<close>

definition counts_as :: "reporter \<Rightarrow> ReverificationJob \<Rightarrow> Outcome \<Rightarrow> AuditType option" where
  "counts_as rep job outcome = (case outcome of
     OutcomeSuccess \<Rightarrow> Some AuditSuccess
   | OutcomeFailure \<Rightarrow> Some AuditFailure
   | OutcomeUnknownError \<Rightarrow> Some AuditUnknown
   | OutcomeNodeOffline \<Rightarrow> Some AuditOffline
   | OutcomeTimedOut \<Rightarrow> if job_ReverifyCount job < rp_maxReverifyCount rep then None else Some AuditFailure
   | OutcomeNotPerformed \<Rightarrow> None
   | OutcomeNotNecessary \<Rightarrow> None)"


subsection \<open>Results that count twice\<close>

definition vet_config :: rep_Config where
  "vet_config = early_config\<lparr>AuditCount := 1\<rparr>"

definition new_node :: overlay_node where
  "new_node = ex_node\<lparr>on_VettedAt := None\<rparr>"

definition ex_satellite :: "(node_id \<Rightarrow> dbx_Reputation option) satellite" where
  "ex_satellite = \<lparr>sat_db = (\<lambda>_. None), sat_nodes = [5 \<mapsto> new_node], sat_events = [], sat_queue = [], sat_calls = 0\<rparr>"

definition ex_reporter :: reporter where
  "ex_reporter = \<lparr>rp_maxRetries = 3, rp_maxReverifyCount = 3, rp_sendNodeEmails = True\<rparr>"

definition one_success :: Report where
  "one_success = \<lparr>Successes = [5], Fails = [], Offlines = [], PendingAudits = [], Unknown = [], NodesReputation = [5 \<mapsto> getNodeStats new_node]\<rparr>"

text \<open>The first call of the overlay fails; the next try is two seconds later.\<close>

definition overlay_fails_once :: "nat \<Rightarrow> (time \<times> rep_error option) call_env" where
  "overlay_fails_once i =
     (if i = 0 then (ex_env (20, None) 20)\<lparr>ce_overlay_fails := True\<rparr> else ex_env (20 + 2 * Second, None) (20 + 2 * Second))"

text \<open>A report of one result.\<close>

definition one_result :: "AuditType \<Rightarrow> node_id \<Rightarrow> ReputationStatus \<Rightarrow> Report" where
  "one_result k n reputation =
     \<lparr>Successes = (if k = AuditSuccess then [n] else []), Fails = (if k = AuditFailure then [n] else []),
      Offlines = (if k = AuditOffline then [n] else []), PendingAudits = [],
      Unknown = (if k = AuditUnknown then [n] else []), NodesReputation = [n \<mapsto> reputation]\<rparr>"

lemma record_one:
  assumes "ApplyAudit update (rp_sendNodeEmails rep) (next_call env s) n reputation k s = (s', err)"
  shows "record_tries update rep env (Suc m) (one_result k n reputation) s =
    (if err = None then (\<lambda>req. (req, called s')) ((one_result k n reputation)\<lparr>Successes := [], Fails := [], Offlines := [], Unknown := []\<rparr>)
     else record_tries update rep env m (one_result k n reputation) (called s'))"
  using assms by (cases k; cases err) (simp_all add: one_result_def nothing_to_record_def status_of_def record_nothing)

text \<open>
  Property C39. A result counts twice when the overlay fails at the wrong moment. The update of the
  reputation succeeds with a change of the status (a node is vetted, suspended or disqualified), its copy to
  the overlay fails, and in the next try nothing does: the whole audit is applied again. Nothing is left over to
  be logged, and the total count of the node has grown by two for one result.
\<close>

theorem retry_counts_twice:
  assumes "known_active reputation" and "0 < rp_maxRetries rep"
    and "reputations_Update cfg (ce_db (env c)) n k (ce_now (env c)) (sat_db s) = (d, Updated info)"
    and "fst (hasReputationChanged info reputation (ce_now (env c)))" and "ce_overlay_fails (env c)"
    and "all_fine (env (c + 1))" and "sat_calls s = c"
    and "RecordAudits (reputations_Update cfg) rep env (one_result k n reputation) s = (rest, s')"
  shows "results_for rep (one_result k n reputation) n = 1 \<and> nothing_to_record rest \<and>
    in_row r_TotalAuditCount (sat_db s' n) = in_row r_TotalAuditCount (sat_db s n) + 2"
proof -
  let ?req = "one_result k n reputation"
  obtain m where m: "nat (rp_maxRetries rep + 1) = Suc (Suc m)"
    using assms(2) by (metis Suc_nat_eq_nat_zadd1 add.commute nat_int pos_int_cases less_imp_le zero_le_imp_eq_int Suc_pred' of_nat_0_less_iff)
  obtain s1 err where a: "ApplyAudit (reputations_Update cfg) (rp_sendNodeEmails rep) (next_call env s) n reputation k s = (s1, err)" by fastforce
  obtain evs where ch: "hasReputationChanged info reputation (ce_now (env c)) = (True, evs)" using assms(4) by (metis prod.collapse)
  have "err \<noteq> None \<and> sat_db s1 = d \<and> sat_calls s1 = c"
    using a assms(1,3,5,7) ch by (auto simp: ApplyAudit_def known_active_def next_call_def Service_UpdateReputation_def Let_def)
  then have first: "err \<noteq> None" "sat_db s1 = d" "next_call env (called s1) = env (c + 1)" by (simp_all add: next_call_def)
  have d: "in_row r_TotalAuditCount (d n) = in_row r_TotalAuditCount (sat_db s n) + 1"
    using rep_table.counts [OF TrueI TrueI assms(3), of n] by simp
  obtain s2 where b: "ApplyAudit (reputations_Update cfg) (rp_sendNodeEmails rep) (next_call env (called s1)) n reputation k (called s1) = (s2, None)"
    "in_row r_TotalAuditCount (sat_db s2 n) = in_row r_TotalAuditCount (d n) + 1"
    using fine_audit [of "next_call env (called s1)" reputation cfg "rp_sendNodeEmails rep" n k "called s1"] assms(1,6) first by auto
  have "RecordAudits (reputations_Update cfg) rep env ?req s =
      (?req\<lparr>Successes := [], Fails := [], Offlines := [], Unknown := []\<rparr>, called s2)"
    using first(1) by (simp only: RecordAudits_def m record_one [OF a] record_one [OF b(1)] if_False if_True simp_thms)
  then have "rest = ?req\<lparr>Successes := [], Fails := [], Offlines := [], Unknown := []\<rparr>" "sat_db s' = sat_db s2"
    using assms(8) by auto
  then show ?thesis using b(2) d by (cases k) (simp_all add: one_result_def results_for_def due_failures_def nothing_to_record_def)
qed

text \<open>The success that vets a node: it counts twice, and the node, which is vetted in the table, is not in the
  overlay, because the second try finds no change of its own second.\<close>

lemma retry_counts_twice_witness:
  "\<exists>rest s r node. RecordAudits (reputations_Update vet_config) ex_reporter overlay_fails_once one_success ex_satellite = (rest, s) \<and>
    nothing_to_record rest \<and> in_row r_TotalAuditCount (sat_db s 5) = 2 \<and>
    sat_db s 5 = Some r \<and> r_VettedAt r = Some 20 \<and> sat_nodes s 5 = Some node \<and> on_VettedAt node = None"
proof -
  let ?a = "RecordAudits (reputations_Update vet_config) ex_reporter overlay_fails_once one_success ex_satellite"
  let ?u = "reputations_Update vet_config (ce_db (overlay_fails_once 0)) 5 AuditSuccess (ce_now (overlay_fails_once 0)) (sat_db ex_satellite)"
  obtain rest s where a: "?a = (rest, s)" by fastforce
  have one: "one_success = one_result AuditSuccess 5 (getNodeStats new_node)" by (simp add: one_success_def one_result_def)
  have u: "case ?u of (d, Updated info) \<Rightarrow> fst (hasReputationChanged info (getNodeStats new_node) (ce_now (overlay_fails_once 0))) | _ \<Rightarrow> False"
    by code_simp
  then obtain d info where i: "?u = (d, Updated info)" "fst (hasReputationChanged info (getNodeStats new_node) (ce_now (overlay_fails_once 0)))"
    by (cases ?u) (auto split: update_result.splits)
  have "known_active (getNodeStats new_node)" "0 < rp_maxRetries ex_reporter" "ce_overlay_fails (overlay_fails_once 0)"
    "all_fine (overlay_fails_once (0 + 1))" "sat_calls ex_satellite = 0" "in_row r_TotalAuditCount (sat_db ex_satellite 5) = 0"
    by code_simp+
  note c = this
  have "nothing_to_record rest \<and> in_row r_TotalAuditCount (sat_db s 5) = 2"
    using retry_counts_twice [OF c(1,2) i c(3,4,5) a [unfolded one]] c(6) by simp
  moreover have "(case sat_db (snd ?a) 5 of Some r \<Rightarrow> r_VettedAt r = Some 20 | None \<Rightarrow> False) \<and>
      (case sat_nodes (snd ?a) 5 of Some node \<Rightarrow> on_VettedAt node = None | None \<Rightarrow> False)"
    by code_simp
  ultimately show ?thesis using a by (auto split: option.splits)
qed

definition last_timeout :: ReverificationJob where
  "last_timeout = \<lparr>job_Locator = ex_piece, job_InsertedAt = 0, job_ReverifyCount = 3, job_LastAttempt = 0\<rparr>"

definition contained_satellite :: "(node_id \<Rightarrow> dbx_Reputation option) satellite" where
  "contained_satellite = ex_satellite\<lparr>
     sat_queue := [\<lparr>ra_locator = ex_piece, ra_inserted_at = 0, ra_last_attempt = Some 10, ra_reverify_count = 3\<rparr>],
     sat_nodes := [5 \<mapsto> new_node\<lparr>on_Contained := Some 0\<rparr>]\<rparr>"

text \<open>The second call, the removal of the job, fails.\<close>

definition removal_fails :: "nat \<Rightarrow> (time \<times> rep_error option) call_env" where
  "removal_fails i = (ex_env (20, None) 20)\<lparr>ce_queue_fails := (i = 1)\<rparr>"

lemma failed_removal_counts_again:
  "let (s1, ok1) = RecordReverificationResult (reputations_Update early_config) ex_reporter removal_fails last_timeout
       OutcomeTimedOut (getNodeStats new_node) contained_satellite;
     (s2, ok2) = RecordReverificationResult (reputations_Update early_config) ex_reporter (\<lambda>_. ex_env (30, None) 30)
       (last_timeout\<lparr>job_ReverifyCount := 4\<rparr>) OutcomeTimedOut (getNodeStats new_node) s1 in
   ok1 \<and> sat_queue s1 = sat_queue contained_satellite \<and> in_row r_TotalAuditCount (sat_db s1 5) = 1 \<and>
   ok2 \<and> sat_queue s2 = [] \<and> in_row r_TotalAuditCount (sat_db s2 5) = 2"
  by code_simp

subsection \<open>Witnesses\<close>

definition fine_env :: "nat \<Rightarrow> (time \<times> rep_error option) call_env" where
  "fine_env _ = ex_env (20, None) 20"


lemma contained_satellite_ok: "contained_ok contained_satellite"
  by (auto simp: contained_ok_def contained_satellite_def ex_satellite_def queued_def ex_piece_def split: if_splits)

lemma containment_agrees_witness:
  "contained_ok (fst (RecordReverificationResult (reputations_Update early_config) ex_reporter fine_env last_timeout
     OutcomeSuccess (getNodeStats new_node) contained_satellite))"
proof -
  have "\<forall>i. containment_reliable (fine_env i)" by (simp add: fine_env_def containment_reliable_def ex_env_def)
  from conjunct2 [OF mp [OF conjunct1 [OF containment_agrees] conjI [OF this contained_satellite_ok]]] show ?thesis .
qed


end
