(* ===== verification/NodeSelection.thy ===== *)
theory NodeSelection
  imports ReputationService
begin

text \<open>
  The selection of nodes for uploads (\<open>satellite/nodeselection/uploadselection\<close>): one node of each network,
  none of which holds a piece already, first of the new nodes and then of the reputable ones. A network is
  chosen by a random permutation, which is an argument, and the draw for a network is any number, taken
  modulo the number of its nodes. Which countries a placement allows is an argument too. The order of a Go
  map is open; networks are in the order of their first node here.
\<close>

record upload_node =
  un_ID :: node_id
  un_LastNet :: string
  un_CountryCode :: string

record upload_criteria =
  uc_ExcludeNodeIDs :: "node_id list"
  uc_AutoExcludeSubnets :: "string list option"
  uc_AllowedCountry :: "string \<Rightarrow> bool"
  uc_ExcludedCountryCodes :: "string list"

text \<open>The network is marked before the country of the node is looked at.\<close>

definition MatchInclude :: "upload_criteria \<Rightarrow> upload_node \<Rightarrow> upload_criteria \<times> bool" where
  "MatchInclude c node =
     (if un_ID node \<in> set (uc_ExcludeNodeIDs c) then (c, False)
      else if \<not> uc_AllowedCountry c (un_CountryCode node) then (c, False)
      else
        (case uc_AutoExcludeSubnets c of
           None \<Rightarrow> (c, \<not> (\<exists>code \<in> set (uc_ExcludedCountryCodes c). code \<noteq> '''' \<and> un_CountryCode node = code))
         | Some nets \<Rightarrow>
             if un_LastNet node \<in> set nets then (c, False)
             else (c\<lparr>uc_AutoExcludeSubnets := Some (un_LastNet node # nets)\<rparr>,
               \<not> (\<exists>code \<in> set (uc_ExcludedCountryCodes c). code \<noteq> '''' \<and> un_CountryCode node = code))))"

text \<open>The loop over the candidates in the order they are drawn.\<close>

fun select_loop :: "int \<Rightarrow> upload_criteria \<Rightarrow> upload_node list \<Rightarrow> upload_node list \<Rightarrow> upload_criteria \<times> upload_node list" where
  "select_loop n c selected [] = (c, selected)"
| "select_loop n c selected (node # nodes) =
     (case MatchInclude c node of
        (c, False) \<Rightarrow> select_loop n c selected nodes
      | (c, True) \<Rightarrow>
          let selected = selected @ [node] in
          if int (length selected) \<ge> n then (c, selected) else select_loop n c selected nodes)"

definition SelectByID_Select ::
  "nat list \<Rightarrow> upload_node list \<Rightarrow> int \<Rightarrow> upload_criteria \<Rightarrow> upload_criteria \<times> upload_node list" where
  "SelectByID_Select perm nodes n c =
     (if n \<le> 0 then (c, []) else select_loop n c [] (map (\<lambda>idx. nodes ! idx) perm))"

definition SelectBySubnetFromNodes :: "upload_node list \<Rightarrow> upload_node list list" where
  "SelectBySubnetFromNodes nodes =
     map (\<lambda>net. filter (\<lambda>node. un_LastNet node = net) nodes) (remdups (map un_LastNet nodes))"

definition SelectBySubnet_Select ::
  "nat list \<Rightarrow> (nat \<Rightarrow> nat) \<Rightarrow> upload_node list list \<Rightarrow> int \<Rightarrow> upload_criteria \<Rightarrow> upload_criteria \<times> upload_node list" where
  "SelectBySubnet_Select perm draw subnets n c =
     (if n \<le> 0 then (c, [])
      else select_loop n c [] (map (\<lambda>idx. let nodes = subnets ! idx in nodes ! (draw idx mod length nodes)) perm))"

record upload_state =
  us_netByID :: "node_id \<rightharpoonup> string"
  us_Reputable :: "upload_node list list"
  us_New :: "upload_node list list"

definition upload_NewState :: "upload_node list \<Rightarrow> upload_node list \<Rightarrow> upload_state" where
  "upload_NewState reputableNodes newNodes =
     \<lparr>us_netByID = map_of (rev (map (\<lambda>node. (un_ID node, un_LastNet node)) (reputableNodes @ newNodes))),
      us_Reputable = SelectBySubnetFromNodes reputableNodes, us_New = SelectBySubnetFromNodes newNodes\<rparr>"

record upload_request =
  ur_Count :: int
  ur_NewFraction :: rat
  ur_ExcludedIDs :: "node_id list"
  ur_AllowedCountry :: "string \<Rightarrow> bool"
  ur_ExcludedCountryCodes :: "string list"

text \<open>The random choices: a permutation and the draws for each of the two selectors.\<close>

record upload_choices =
  ch_new_perm :: "nat list"
  ch_new_draw :: "nat \<Rightarrow> nat"
  ch_reputable_perm :: "nat list"
  ch_reputable_draw :: "nat \<Rightarrow> nat"

text \<open>The conversion of a float to an integer drops the fraction.\<close>

definition to_int :: "rat \<Rightarrow> int" where
  "to_int x = (if x < 0 then - \<lfloor>- x\<rfloor> else \<lfloor>x\<rfloor>)"

lemma to_int_le: "x \<le> of_int n \<Longrightarrow> to_int x \<le> max 0 n"
proof (cases "x < 0")
  case True
  then have "0 \<le> \<lfloor>- x\<rfloor>" by simp
  then have "- \<lfloor>- x\<rfloor> \<le> max 0 n" by linarith
  with True show ?thesis by (simp only: to_int_def if_True)
qed (simp add: to_int_def floor_le_iff le_max_iff_disj)

text \<open>The result is the nodes and whether there are too few of them, which is an error.\<close>

definition upload_Select :: "upload_choices \<Rightarrow> upload_state \<Rightarrow> upload_request \<Rightarrow> upload_node list \<times> bool" where
  "upload_Select choices state request =
     (let totalCount = ur_Count request;
          newCount = to_int (of_int totalCount * ur_NewFraction request);
          criteria = \<lparr>uc_ExcludeNodeIDs = ur_ExcludedIDs request,
            uc_AutoExcludeSubnets = Some (List.map_filter (us_netByID state) (ur_ExcludedIDs request)),
            uc_AllowedCountry = ur_AllowedCountry request, uc_ExcludedCountryCodes = ur_ExcludedCountryCodes request\<rparr>;
          (criteria, new) = SelectBySubnet_Select (ch_new_perm choices) (ch_new_draw choices) (us_New state) newCount criteria;
          reputableCount = totalCount - int (length new);
          (_, reputable) = SelectBySubnet_Select (ch_reputable_perm choices) (ch_reputable_draw choices)
            (us_Reputable state) reputableCount criteria;
          selected = new @ reputable
      in (selected, int (length selected) < totalCount))"

subsection \<open>What is selected\<close>

definition admits :: "upload_criteria \<Rightarrow> upload_node \<Rightarrow> bool" where
  "admits c node \<longleftrightarrow> un_ID node \<notin> set (uc_ExcludeNodeIDs c) \<and> uc_AllowedCountry c (un_CountryCode node) \<and>
     (\<forall>code \<in> set (uc_ExcludedCountryCodes c). code \<noteq> '''' \<longrightarrow> un_CountryCode node \<noteq> code)"

definition marked :: "upload_criteria \<Rightarrow> string set" where
  "marked c = (case uc_AutoExcludeSubnets c of None \<Rightarrow> {} | Some nets \<Rightarrow> set nets)"

text \<open>Nothing but the networks that are marked changes, and there are more of them.\<close>

definition tightened :: "upload_criteria \<Rightarrow> upload_criteria \<Rightarrow> bool" where
  "tightened c c' \<longleftrightarrow> uc_ExcludeNodeIDs c' = uc_ExcludeNodeIDs c \<and> uc_AllowedCountry c' = uc_AllowedCountry c \<and>
     uc_ExcludedCountryCodes c' = uc_ExcludedCountryCodes c \<and> uc_AutoExcludeSubnets c' \<noteq> None \<and> marked c \<subseteq> marked c'"

lemma MatchInclude_networks:
  assumes "MatchInclude c node = (c', ok)" and "uc_AutoExcludeSubnets c \<noteq> None"
  shows "tightened c c' \<and> (ok \<longrightarrow> admits c node \<and> un_LastNet node \<notin> marked c \<and> un_LastNet node \<in> marked c')"
  using assms by (auto simp: MatchInclude_def tightened_def admits_def marked_def split: if_splits option.splits)

lemma tightened_trans: "tightened c c' \<Longrightarrow> tightened c' c'' \<Longrightarrow> tightened c c''"
  by (force simp: tightened_def marked_def)

lemma tightened_admits: "tightened c c' \<Longrightarrow> admits c' = admits c \<and> marked c \<subseteq> marked c' \<and> uc_AutoExcludeSubnets c' \<noteq> None"
  by (auto simp: tightened_def admits_def marked_def fun_eq_iff)

lemma tightened_refl: "uc_AutoExcludeSubnets c \<noteq> None \<Longrightarrow> tightened c c"
  by (simp add: tightened_def)

text \<open>The nodes a selection adds.\<close>

definition selection :: "upload_criteria \<Rightarrow> upload_criteria \<Rightarrow> upload_node list \<Rightarrow> bool" where
  "selection c c' nodes \<longleftrightarrow> tightened c c' \<and> distinct (map un_LastNet nodes) \<and>
     (\<forall>node \<in> set nodes. admits c node \<and> un_LastNet node \<notin> marked c \<and> un_LastNet node \<in> marked c')"

lemma selection_Nil: "uc_AutoExcludeSubnets c \<noteq> None \<Longrightarrow> selection c c []"
  by (simp add: selection_def tightened_refl)

lemma selection_append:
  assumes "selection c c' xs" "selection c' c'' ys"
  shows "selection c c'' (xs @ ys)"
proof -
  have t: "tightened c c'" "tightened c' c''" and x: "\<forall>n \<in> set xs. un_LastNet n \<in> marked c'"
    and y: "\<forall>n \<in> set ys. un_LastNet n \<notin> marked c'" using assms by (simp_all add: selection_def)
  have "un_LastNet ` set xs \<inter> un_LastNet ` set ys = {}" using x y by auto
  then show ?thesis
    using assms tightened_admits [OF t(1)] tightened_admits [OF t(2)] tightened_trans [OF t]
    by (auto simp: selection_def)
qed

lemma select_loop_selection:
  "select_loop n c selected nodes = (c', selected') \<Longrightarrow> uc_AutoExcludeSubnets c \<noteq> None \<Longrightarrow> int (length selected) < n \<Longrightarrow>
    \<exists>added. selected' = selected @ added \<and> selection c c' added \<and> set added \<subseteq> set nodes \<and> int (length selected') \<le> n"
proof (induction nodes arbitrary: c selected)
  case Nil
  then show ?case by (simp add: selection_Nil)
next
  case (Cons node nodes)
  obtain c1 ok where m: "MatchInclude c node = (c1, ok)" by fastforce
  note step = MatchInclude_networks [OF m Cons.prems(2)]
  have c1: "uc_AutoExcludeSubnets c1 \<noteq> None" using step tightened_admits by blast
  show ?case
  proof (cases ok)
    case False
    with Cons.prems(1) m have r: "select_loop n c1 selected nodes = (c', selected')" by simp
    obtain added where a: "selected' = selected @ added" "selection c1 c' added" "set added \<subseteq> set nodes"
      "int (length selected') \<le> n" using Cons.IH [OF r c1 Cons.prems(3)] by blast
    have "selection c c1 []" using step by (simp add: selection_def)
    from selection_append [OF this a(2)] a show ?thesis by auto
  next
    case True
    have one: "selection c c1 [node]" using step True by (simp add: selection_def)
    show ?thesis
    proof (cases "int (length (selected @ [node])) \<ge> n")
      case full: True
      with Cons.prems m True have "c' = c1" "selected' = selected @ [node]" by simp_all
      with one Cons.prems(3) show ?thesis by auto
    next
      case False
      with Cons.prems m True have r: "select_loop n c1 (selected @ [node]) nodes = (c', selected')" by simp
      obtain added where a: "selected' = (selected @ [node]) @ added" "selection c1 c' added" "set added \<subseteq> set nodes"
        "int (length selected') \<le> n" using Cons.IH [OF r c1] False by auto
      from selection_append [OF one a(2)] a show ?thesis by (auto intro!: exI [of _ "node # added"])
    qed
  qed
qed

lemma SelectBySubnet_selection:
  assumes "SelectBySubnet_Select perm draw subnets n c = (c', selected)" and "uc_AutoExcludeSubnets c \<noteq> None"
  shows "selection c c' selected \<and> int (length selected) \<le> max 0 n"
proof (cases "n \<le> 0")
  case True
  then show ?thesis using assms by (simp add: SelectBySubnet_Select_def selection_Nil)
next
  case False
  then show ?thesis
    using assms select_loop_selection [of n c "[]" _ c' selected] by (auto simp: SelectBySubnet_Select_def)
qed

definition upload_criteria_of :: "upload_state \<Rightarrow> upload_request \<Rightarrow> upload_criteria" where
  "upload_criteria_of state request = \<lparr>uc_ExcludeNodeIDs = ur_ExcludedIDs request,
     uc_AutoExcludeSubnets = Some (List.map_filter (us_netByID state) (ur_ExcludedIDs request)),
     uc_AllowedCountry = ur_AllowedCountry request, uc_ExcludedCountryCodes = ur_ExcludedCountryCodes request\<rparr>"

lemma upload_Select_cases:
  assumes "upload_Select choices state request = (selected, few)"
  obtains new reputable c' where "selected = new @ reputable"
    "int (length new) \<le> max 0 (to_int (of_int (ur_Count request) * ur_NewFraction request))"
    "int (length reputable) \<le> max 0 (ur_Count request - int (length new))"
    "selection (upload_criteria_of state request) c' selected" "few \<longleftrightarrow> int (length selected) < ur_Count request"
proof -
  let ?c = "upload_criteria_of state request"
  let ?k = "to_int (of_int (ur_Count request) * ur_NewFraction request)"
  obtain c1 new where n: "SelectBySubnet_Select (ch_new_perm choices) (ch_new_draw choices) (us_New state) ?k ?c = (c1, new)" by fastforce
  obtain c2 reputable where r: "SelectBySubnet_Select (ch_reputable_perm choices) (ch_reputable_draw choices)
      (us_Reputable state) (ur_Count request - int (length new)) c1 = (c2, reputable)" by fastforce
  have res: "selected = new @ reputable" "few \<longleftrightarrow> int (length selected) < ur_Count request"
    using assms n r by (auto simp: upload_Select_def upload_criteria_of_def Let_def)
  have one: "selection ?c c1 new" "int (length new) \<le> max 0 ?k"
    using SelectBySubnet_selection [OF n] by (simp_all add: upload_criteria_of_def)
  have two: "selection c1 c2 reputable" "int (length reputable) \<le> max 0 (ur_Count request - int (length new))"
    using SelectBySubnet_selection [OF r] tightened_admits one(1) by (auto simp: selection_def)
  show thesis using that [of new reputable c2] res one(2) two(2) selection_append [OF one(1) two(1)] by simp
qed

lemma upload_Select_excluded:
  "upload_Select choices state request = (selected, few) \<Longrightarrow> node \<in> set selected \<Longrightarrow> un_ID node \<notin> set (ur_ExcludedIDs request)"
  by (erule upload_Select_cases) (auto simp: selection_def admits_def upload_criteria_of_def)

text \<open>
  Lemma. The nodes selected for an upload or a repair are on different networks; none of them is
  excluded, is on the network of an excluded node that is known, or is in a country that is not allowed; there are
  no more than asked for, and it is an error exactly when there are fewer.
\<close>

theorem upload_selection_apart:
  assumes "upload_Select choices state request = (selected, few)" and "0 \<le> ur_NewFraction request" "ur_NewFraction request \<le> 1"
  shows "distinct (map un_LastNet selected) \<and>
    (\<forall>node \<in> set selected. un_ID node \<notin> set (ur_ExcludedIDs request) \<and>
       Some (un_LastNet node) \<notin> us_netByID state ` set (ur_ExcludedIDs request) \<and>
       ur_AllowedCountry request (un_CountryCode node) \<and>
       (un_CountryCode node \<noteq> '''' \<longrightarrow> un_CountryCode node \<notin> set (ur_ExcludedCountryCodes request))) \<and>
    int (length selected) \<le> max 0 (ur_Count request) \<and> (few \<longleftrightarrow> int (length selected) < ur_Count request)"
proof -
  let ?c = "upload_criteria_of state request"
  obtain new reputable c' where r: "selected = new @ reputable"
    "int (length new) \<le> max 0 (to_int (of_int (ur_Count request) * ur_NewFraction request))"
    "int (length reputable) \<le> max 0 (ur_Count request - int (length new))"
    "selection ?c c' selected" "few \<longleftrightarrow> int (length selected) < ur_Count request"
    using assms(1) by (rule upload_Select_cases)
  have "of_int (ur_Count request) * ur_NewFraction request \<le> of_int (max 0 (ur_Count request))"
    using assms(2,3) by (auto simp: max_def mult_left_le mult_nonpos_nonneg)
  then have "to_int (of_int (ur_Count request) * ur_NewFraction request) \<le> max 0 (ur_Count request)" using to_int_le by fastforce
  then have len: "int (length selected) \<le> max 0 (ur_Count request)" using r(1-3) by auto
  have "Some net \<in> us_netByID state ` set (ur_ExcludedIDs request) \<Longrightarrow> net \<in> marked ?c" for net
    by (auto simp: marked_def upload_criteria_of_def List.map_filter_def image_iff) (metis option.sel option.discI)
  then show ?thesis using len r(4,5) by (auto simp: selection_def admits_def upload_criteria_of_def)
qed

definition ex_upload_node :: "nat \<Rightarrow> nat \<Rightarrow> string \<Rightarrow> upload_node" where
  "ex_upload_node n net country = \<lparr>un_ID = of_nat n, un_LastNet = [char_of (net + 48)], un_CountryCode = country\<rparr>"

definition ex_upload_state :: upload_state where
  "ex_upload_state = upload_NewState [ex_upload_node 1 1 ''US'', ex_upload_node 2 2 ''DE'', ex_upload_node 3 2 ''DE'', ex_upload_node 4 3 ''FR'']
     [ex_upload_node 5 1 ''US'', ex_upload_node 6 4 ''US'']"

definition ex_upload_request :: "node_id list \<Rightarrow> string list \<Rightarrow> upload_request" where
  "ex_upload_request ids codes =
     \<lparr>ur_Count = 3, ur_NewFraction = 1 / 2, ur_ExcludedIDs = ids, ur_AllowedCountry = (\<lambda>_. True), ur_ExcludedCountryCodes = codes\<rparr>"

definition ex_choices :: upload_choices where
  "ex_choices = \<lparr>ch_new_perm = [1, 0], ch_new_draw = (\<lambda>_. 0), ch_reputable_perm = [1, 0, 2], ch_reputable_draw = (\<lambda>_. 3)\<rparr>"

theorem upload_selection_apart_witness:
  "map un_ID (fst (upload_Select ex_choices ex_upload_state (ex_upload_request [4] []))) = [6, 3, 1] \<and>
   distinct (map un_LastNet (fst (upload_Select ex_choices ex_upload_state (ex_upload_request [4] []))))"
proof -
  have m: "map un_ID (fst (upload_Select ex_choices ex_upload_state (ex_upload_request [4] []))) = [6, 3, 1]"
    by code_simp
  from upload_selection_apart [of ex_choices ex_upload_state "ex_upload_request [4] []"
      "fst (upload_Select ex_choices ex_upload_state (ex_upload_request [4] []))"
      "snd (upload_Select ex_choices ex_upload_state (ex_upload_request [4] []))"] m
  show ?thesis by (simp add: ex_upload_request_def)
qed

text \<open>A new node in an excluded country keeps its network from the reputable nodes: the node of another
  country on that network is not selected, and the request fails.\<close>

lemma excluded_country_marks_network:
  "upload_Select \<lparr>ch_new_perm = [0], ch_new_draw = (\<lambda>_. 0), ch_reputable_perm = [0], ch_reputable_draw = (\<lambda>_. 0)\<rparr>
     (upload_NewState [ex_upload_node 1 1 ''US''] [ex_upload_node 2 1 ''RU''])
     \<lparr>ur_Count = 1, ur_NewFraction = 1, ur_ExcludedIDs = [], ur_AllowedCountry = (\<lambda>_. True), ur_ExcludedCountryCodes = [''RU'']\<rparr>
   = ([], True)"
  by code_simp

end
