(* ===== verification/RepairTransfer.thy ===== *)
theory RepairTransfer
  imports MetaTypes "HOL-Library.Multiset"
begin

text \<open>
  The transfers of the repairer (\<open>repair/repairer/ec.go\<close>): the download of enough pieces to reconstruct a
  segment, by goroutines that share counters under a lock and wait on a condition, and the upload of the
  pieces that are missing. What a storage node answers, and whether signatures verify, is an argument; the
  erasure code, connections and files, and errors of closing them, are not modelled. A limit is the node it is for, at the index of its
  piece.
\<close>

subsection \<open>The outcome of an audited piece (\<open>audit/pieces.go\<close>)\<close>

datatype PieceAudit = PieceAuditUnknown | PieceAuditFailure | PieceAuditOffline | PieceAuditContained | PieceAuditSuccess

datatype rpc_status = RpcUnknown | RpcNotFound | RpcDeadlineExceeded | RpcOther

text \<open>What the code asks of an error: its classes, whether a deadline passed, and the status of the call.\<close>

record transfer_error =
  te_hash_failed :: bool
  te_dial_failed :: bool
  te_rpc :: bool
  te_deadline :: bool
  te_status :: "rpc_status option"

definition PieceAuditFromErr :: "transfer_error option \<Rightarrow> PieceAudit" where
  "PieceAuditFromErr err =
     (case err of
        None \<Rightarrow> PieceAuditSuccess
      | Some e \<Rightarrow>
          if te_rpc e
          then (if te_deadline e \<or> te_status e = Some RpcUnknown then PieceAuditOffline else PieceAuditUnknown)
          else if te_status e = Some RpcNotFound then PieceAuditFailure
          else if te_status e = Some RpcDeadlineExceeded then PieceAuditContained
          else PieceAuditUnknown)"

subsection \<open>Downloading a piece\<close>

text \<open>What a storage node does when it is asked for a piece.\<close>

record download_attempt =
  da_dial :: "transfer_error option"
  da_download :: "transfer_error option"
  da_read :: "transfer_error option"
  da_size :: int
  da_hash :: "(piece_id \<times> byte list) option"
  da_limit :: "piece_id option"
  da_limit_signed :: bool
  da_calculated :: "byte list"
  da_hash_signed :: bool

definition plain_error :: transfer_error where
  "plain_error = \<lparr>te_hash_failed = False, te_dial_failed = False, te_rpc = False, te_deadline = False, te_status = None\<rparr>"

definition verifyPieceHash :: "piece_id option \<Rightarrow> (piece_id \<times> byte list) option \<Rightarrow> byte list \<Rightarrow> bool \<Rightarrow> bool" where
  "verifyPieceHash limit hash expectedHash verified =
     (case (limit, hash) of
        (Some limit_id, Some (hash_id, h)) \<Rightarrow>
          length expectedHash \<noteq> 0 \<and> limit_id = hash_id \<and> h = expectedHash \<and> verified
      | _ \<Rightarrow> False)"

definition downloadAndVerifyPiece :: "int \<Rightarrow> download_attempt \<Rightarrow> transfer_error option" where
  "downloadAndVerifyPiece pieceSize a =
     (case da_dial a of Some e \<Rightarrow> Some (e\<lparr>te_dial_failed := True\<rparr>) | None \<Rightarrow>
      (case da_download a of Some e \<Rightarrow> Some e | None \<Rightarrow>
      (case da_read a of Some e \<Rightarrow> Some e | None \<Rightarrow>
         if da_size a \<noteq> pieceSize then Some plain_error
         else if da_hash a = None then Some plain_error
         else if da_limit a = None then Some plain_error
         else if \<not> da_limit_signed a then Some plain_error
         else if \<not> verifyPieceHash (da_limit a) (da_hash a) (da_calculated a) (da_hash_signed a)
         then Some (plain_error\<lparr>te_hash_failed := True\<rparr>)
         else None)))"

text \<open>The last address a node was seen at is tried first, when it is another one.\<close>

record piece_source =
  ps_last_address :: bool
  ps_first :: download_attempt
  ps_second :: download_attempt

definition fetch_piece :: "int \<Rightarrow> piece_source \<Rightarrow> transfer_error option" where
  "fetch_piece pieceSize src =
     (let err = downloadAndVerifyPiece pieceSize (ps_first src)
      in case err of
           Some e \<Rightarrow> if ps_last_address src \<and> te_dial_failed e then downloadAndVerifyPiece pieceSize (ps_second src) else err
         | None \<Rightarrow> None)"

definition fetch_outcome :: "transfer_error option \<Rightarrow> PieceAudit" where
  "fetch_outcome err =
     (case err of Some e \<Rightarrow> if te_hash_failed e then PieceAuditFailure else PieceAuditFromErr err | None \<Rightarrow> PieceAuditSuccess)"

subsection \<open>\<open>Get\<close>\<close>

record FetchResultReport =
  fr_Successful :: "nat list"
  fr_Failed :: "nat list"
  fr_Offline :: "nat list"
  fr_Contained :: "nat list"
  fr_Unknown :: "nat list"

definition empty_report :: FetchResultReport where
  "empty_report = \<lparr>fr_Successful = [], fr_Failed = [], fr_Offline = [], fr_Contained = [], fr_Unknown = []\<rparr>"

text \<open>The state of the download: the limits whose goroutine is not started, the goroutines that are about to
  look at the counters, that wait on the condition and that download, and the shared variables.\<close>

record get_state =
  gs_pending :: "nat list"
  gs_awake :: "nat list"
  gs_waiting :: "nat list"
  gs_downloading :: "nat list"
  gs_successfulPieces :: int
  gs_inProgress :: int
  gs_unusedLimits :: int
  gs_errorCount :: int
  gs_pieces :: FetchResultReport

record get_params =
  gp_required :: int
  gp_minFailures :: int
  gp_outcome :: "nat \<Rightarrow> PieceAudit"

definition report_piece :: "nat \<Rightarrow> PieceAudit \<Rightarrow> FetchResultReport \<Rightarrow> FetchResultReport" where
  "report_piece i audit r =
     (case audit of
        PieceAuditSuccess \<Rightarrow> r\<lparr>fr_Successful := fr_Successful r @ [i]\<rparr>
      | PieceAuditFailure \<Rightarrow> r\<lparr>fr_Failed := fr_Failed r @ [i]\<rparr>
      | PieceAuditOffline \<Rightarrow> r\<lparr>fr_Offline := fr_Offline r @ [i]\<rparr>
      | PieceAuditContained \<Rightarrow> r\<lparr>fr_Contained := fr_Contained r @ [i]\<rparr>
      | PieceAuditUnknown \<Rightarrow> r\<lparr>fr_Unknown := fr_Unknown r @ [i]\<rparr>)"

text \<open>What happens next: the limiter starts a goroutine, one that is awake looks at the counters, or one
  finishes its download and signals, which wakes one of those that wait.\<close>

datatype get_event = Spawn | Evaluate nat | Finish nat "nat option"

definition broadcast :: "get_state \<Rightarrow> get_state" where
  "broadcast s = s\<lparr>gs_awake := gs_awake s @ gs_waiting s, gs_waiting := []\<rparr>"

definition signal :: "nat option \<Rightarrow> get_state \<Rightarrow> get_state option" where
  "signal w s =
     (case w of
        None \<Rightarrow> if gs_waiting s = [] then Some s else None
      | Some j \<Rightarrow> if j \<in> set (gs_waiting s)
          then Some (s\<lparr>gs_awake := gs_awake s @ [j], gs_waiting := remove1 j (gs_waiting s)\<rparr>) else None)"

definition get_evaluate :: "get_params \<Rightarrow> nat \<Rightarrow> get_state \<Rightarrow> get_state" where
  "get_evaluate prm i s0 =
     (let s = s0\<lparr>gs_awake := remove1 i (gs_awake s0)\<rparr> in
      if gs_successfulPieces s \<ge> gp_required prm \<and> gs_errorCount s \<ge> gp_minFailures prm then broadcast s
      else if gs_successfulPieces s + gs_inProgress s + gs_unusedLimits s < gp_required prm \<or>
              gs_errorCount s + gs_inProgress s + gs_unusedLimits s < gp_minFailures prm then broadcast s
      else if gs_successfulPieces s + gs_inProgress s \<ge> gp_required prm \<and>
              gs_errorCount s + gs_inProgress s \<ge> gp_minFailures prm
      then s\<lparr>gs_waiting := gs_waiting s @ [i]\<rparr>
      else s\<lparr>gs_unusedLimits := gs_unusedLimits s - 1, gs_inProgress := gs_inProgress s + 1,
             gs_downloading := gs_downloading s @ [i]\<rparr>)"

definition get_finish :: "get_params \<Rightarrow> nat \<Rightarrow> get_state \<Rightarrow> get_state" where
  "get_finish prm i s =
     (let s = s\<lparr>gs_downloading := remove1 i (gs_downloading s), gs_inProgress := gs_inProgress s - 1,
               gs_pieces := report_piece i (gp_outcome prm i) (gs_pieces s)\<rparr>
      in if gp_outcome prm i = PieceAuditSuccess
         then s\<lparr>gs_successfulPieces := gs_successfulPieces s + 1\<rparr>
         else s\<lparr>gs_errorCount := gs_errorCount s + 1\<rparr>)"

definition active :: "get_state \<Rightarrow> nat list" where
  "active s = gs_awake s @ gs_waiting s @ gs_downloading s"

definition get_next :: "get_params \<Rightarrow> get_event \<Rightarrow> get_state \<Rightarrow> get_state option" where
  "get_next prm ev s =
     (case ev of
        Spawn \<Rightarrow> (case gs_pending s of
            [] \<Rightarrow> None
          | i # rest \<Rightarrow> if int (length (active s)) < gp_required prm
              then Some (s\<lparr>gs_pending := rest, gs_awake := gs_awake s @ [i]\<rparr>) else None)
      | Evaluate i \<Rightarrow> if i \<in> set (gs_awake s) then Some (get_evaluate prm i s) else None
      | Finish i w \<Rightarrow> if i \<in> set (gs_downloading s) then signal w (get_finish prm i s) else None)"

inductive get_step :: "get_params \<Rightarrow> get_state \<Rightarrow> get_state \<Rightarrow> bool" for prm where
  "get_next prm ev s = Some s' \<Longrightarrow> get_step prm s s'"

definition finished_get :: "get_state \<Rightarrow> bool" where
  "finished_get s \<longleftrightarrow> gs_pending s = [] \<and> active s = []"

definition nonNil :: "node_id option list \<Rightarrow> nat list" where
  "nonNil limits = filter (\<lambda>i. limits ! i \<noteq> None) [0 ..< length limits]"

definition get_start :: "node_id option list \<Rightarrow> get_state" where
  "get_start limits =
     \<lparr>gs_pending = nonNil limits, gs_awake = [], gs_waiting = [], gs_downloading = [], gs_successfulPieces = 0,
      gs_inProgress = 0, gs_unusedLimits = int (length (nonNil limits)), gs_errorCount = 0, gs_pieces = empty_report\<rparr>"

fun get_run :: "get_params \<Rightarrow> get_event list \<Rightarrow> get_state \<Rightarrow> get_state option" where
  "get_run prm [] s = Some s"
| "get_run prm (ev # evs) s = (case get_next prm ev s of None \<Rightarrow> None | Some s' \<Rightarrow> get_run prm evs s')"

text \<open>\<open>Get\<close> along a schedule that finishes; other schedules have no result. The error that the code cannot
  reconstruct from what was fetched carries the number of pieces.\<close>

datatype get_error = GetInvalid | Irreparable int int

definition ec_Get ::
  "get_params \<Rightarrow> int \<Rightarrow> node_id option list \<Rightarrow> get_event list \<Rightarrow> (FetchResultReport \<times> get_error option) option" where
  "ec_Get prm totalCount limits schedule =
     (if int (length limits) \<noteq> totalCount then Some (empty_report, Some GetInvalid)
      else if int (length (nonNil limits)) < gp_required prm + gp_minFailures prm then Some (empty_report, Some GetInvalid)
      else case get_run prm schedule (get_start limits) of
        None \<Rightarrow> None
      | Some s \<Rightarrow>
          if \<not> finished_get s then None
          else if gs_successfulPieces s < gp_required prm
          then Some (gs_pieces s, Some (Irreparable (gs_successfulPieces s) (gp_required prm)))
          else if gs_errorCount s < gp_minFailures prm then Some (gs_pieces s, Some GetInvalid)
          else Some (gs_pieces s, None))"

subsection \<open>What \<open>Get\<close> does\<close>

definition reported :: "FetchResultReport \<Rightarrow> nat list" where
  "reported r = fr_Successful r @ fr_Failed r @ fr_Offline r @ fr_Contained r @ fr_Unknown r"

fun category :: "PieceAudit \<Rightarrow> FetchResultReport \<Rightarrow> nat list" where
  "category PieceAuditSuccess r = fr_Successful r"
| "category PieceAuditFailure r = fr_Failed r"
| "category PieceAuditOffline r = fr_Offline r"
| "category PieceAuditContained r = fr_Contained r"
| "category PieceAuditUnknown r = fr_Unknown r"

lemma category_report: "category a (report_piece i b r) = (if a = b then category a r @ [i] else category a r)"
  by (cases a; cases b) (simp_all add: report_piece_def)

lemma reported_report [simp]: "mset (reported (report_piece i b r)) = add_mset i (mset (reported r))"
  by (cases b) (simp_all add: report_piece_def reported_def)

lemma reported_empty [simp]: "reported empty_report = []" "category a empty_report = []"
  by (simp_all add: reported_def empty_report_def) (cases a; simp)

lemma category_reported: "i \<in> set (category a r) \<Longrightarrow> i \<in> set (reported r)"
  by (cases a) (simp_all add: reported_def)

lemma reported_category: "i \<in> set (reported r) \<Longrightarrow> \<exists>a. i \<in> set (category a r)"
  by (auto simp: reported_def) (metis category.simps)+

text \<open>The limits that are still to be tried, are tried, or were tried.\<close>

definition tracked :: "get_state \<Rightarrow> nat multiset" where
  "tracked s = mset (gs_pending s) + mset (gs_awake s) + mset (gs_waiting s) + mset (gs_downloading s) + mset (reported (gs_pieces s))"

definition counters_ok :: "get_params \<Rightarrow> node_id option list \<Rightarrow> get_state \<Rightarrow> bool" where
  "counters_ok prm limits s \<longleftrightarrow>
     gs_successfulPieces s = int (length (fr_Successful (gs_pieces s))) \<and>
     gs_inProgress s = int (length (gs_downloading s)) \<and> 0 \<le> gs_errorCount s \<and>
     gs_unusedLimits s = int (length (nonNil limits)) - gs_inProgress s - int (length (reported (gs_pieces s))) \<and>
     gs_successfulPieces s + gs_inProgress s \<le> gp_required prm \<and>
     (\<forall>a. \<forall>i \<in> set (category a (gs_pieces s)). gp_outcome prm i = a)"

text \<open>Whoever waits is needed no more or will be woken.\<close>

definition waiters_ok :: "get_params \<Rightarrow> get_state \<Rightarrow> bool" where
  "waiters_ok prm s \<longleftrightarrow> gs_waiting s = [] \<or>
     gp_required prm \<le> gs_successfulPieces s + gs_inProgress s + int (length (gs_awake s)) \<and>
     (gp_required prm \<le> gs_successfulPieces s \<longrightarrow> gs_awake s \<noteq> [])"

text \<open>A limit is only given up when there is enough or cannot be enough.\<close>

definition given_up_ok :: "get_params \<Rightarrow> node_id option list \<Rightarrow> get_state \<Rightarrow> bool" where
  "given_up_ok prm limits s \<longleftrightarrow> tracked s = mset (nonNil limits) \<or> gp_required prm \<le> gs_successfulPieces s \<or>
     gs_successfulPieces s + gs_inProgress s + gs_unusedLimits s < gp_required prm"

definition get_inv :: "get_params \<Rightarrow> node_id option list \<Rightarrow> get_state \<Rightarrow> bool" where
  "get_inv prm limits s \<longleftrightarrow>
     tracked s \<subseteq># mset (nonNil limits) \<and> counters_ok prm limits s \<and> waiters_ok prm s \<and> given_up_ok prm limits s"

lemma get_inv_start: "0 < gp_required prm \<Longrightarrow> get_inv prm limits (get_start limits)"
  by (simp add: get_inv_def tracked_def counters_ok_def waiters_ok_def given_up_ok_def get_start_def)
    (simp add: empty_report_def)

lemma sub_distinct: "mset xs \<subseteq># mset ys \<Longrightarrow> distinct ys \<Longrightarrow> distinct xs"
proof -
  assume "mset xs \<subseteq># mset ys" and d: "distinct ys"
  then obtain m where "mset ys = mset xs + m" by (auto simp: mset_subset_eq_exists_conv)
  moreover obtain zs where "mset zs = m" using ex_mset by blast
  ultimately have "mset ys = mset (xs @ zs)" by simp
  then have "distinct (xs @ zs)" using d mset_eq_imp_distinct_iff by blast
  then show "distinct xs" by simp
qed

lemma remove1_member: "i \<in> set xs \<Longrightarrow> add_mset i (mset xs - {#i#}) = mset xs \<and> length (remove1 i xs) = length xs - 1 \<and> xs \<noteq> []"
  by (auto simp: length_remove1)

lemma Spawn_inv:
  assumes "get_next prm Spawn s = Some s'" "get_inv prm limits s"
  shows "get_inv prm limits s'"
  using assms
  by (auto simp: get_inv_def tracked_def counters_ok_def waiters_ok_def given_up_ok_def get_next_def
      split: list.splits if_splits)

lemma Evaluate_inv:
  assumes "get_next prm (Evaluate i) s = Some s'" "get_inv prm limits s" "gp_minFailures prm = 0"
  shows "get_inv prm limits s'"
proof -
  have i: "i \<in> set (gs_awake s)" and s': "s' = get_evaluate prm i s" using assms(1) by (auto simp: get_next_def split: if_splits)
  note m = remove1_member [OF i]
  have l: "0 < length (gs_awake s)" using i by (cases "gs_awake s") auto
  let ?t = "mset (gs_pending s) + (mset (gs_awake s) - {#i#}) + mset (gs_waiting s) + mset (gs_downloading s) + mset (reported (gs_pieces s))"
  have t: "tracked s = add_mset i ?t" using m unfolding tracked_def by (metis (no_types, lifting) add_mset_add_single union_assoc union_commute)
  then have sub: "?t \<subseteq># mset (nonNil limits)" using assms(2) by (metis get_inv_def mset_subset_eq_insertD subset_mset.less_le)
  have c: "counters_ok prm limits s" "waiters_ok prm s" "given_up_ok prm limits s" using assms(2) by (simp_all add: get_inv_def)
  have "size (tracked s) \<le> length (nonNil limits)" using assms(2) size_mset_mono by (fastforce simp: get_inv_def)
  then have u: "\<not> gs_errorCount s + gs_inProgress s + gs_unusedLimits s < gp_minFailures prm" "gp_minFailures prm \<le> gs_errorCount s"
    "gp_minFailures prm \<le> gs_errorCount s + gs_inProgress s"
    using c(1) assms(3) by (simp_all add: counters_ok_def tracked_def)
  note evaluate = get_evaluate_def Let_def broadcast_def
  note inv_defs = get_inv_def tracked_def counters_ok_def waiters_ok_def given_up_ok_def
  consider (exit) "gp_required prm \<le> gs_successfulPieces s \<or> gs_successfulPieces s + gs_inProgress s + gs_unusedLimits s < gp_required prm"
    | (wait) "gs_successfulPieces s < gp_required prm" "gp_required prm \<le> gs_successfulPieces s + gs_inProgress s"
      "\<not> gs_successfulPieces s + gs_inProgress s + gs_unusedLimits s < gp_required prm"
    | (start) "gs_successfulPieces s + gs_inProgress s < gp_required prm" "gs_successfulPieces s < gp_required prm"
      "\<not> gs_successfulPieces s + gs_inProgress s + gs_unusedLimits s < gp_required prm"
    using c(1) by (fastforce simp: counters_ok_def)
  then show ?thesis
  proof cases
    case exit
    then have s'': "s' = s\<lparr>gs_awake := remove1 i (gs_awake s) @ gs_waiting s, gs_waiting := []\<rparr>"
      using u by (auto simp: s' evaluate)
    show ?thesis using c sub exit unfolding s'' by (simp add: inv_defs ac_simps)
  next
    case wait
    then have s'': "s' = s\<lparr>gs_awake := remove1 i (gs_awake s), gs_waiting := gs_waiting s @ [i]\<rparr>"
      using u by (simp add: s' evaluate)
    show ?thesis using c sub wait t unfolding s'' by (auto simp: inv_defs ac_simps)
  next
    case start
    then have s'': "s' = s\<lparr>gs_awake := remove1 i (gs_awake s), gs_unusedLimits := gs_unusedLimits s - 1,
        gs_inProgress := gs_inProgress s + 1, gs_downloading := gs_downloading s @ [i]\<rparr>"
      using u by (simp add: s' evaluate)
    show ?thesis using c sub start t l unfolding s'' by (auto simp: inv_defs ac_simps length_remove1)
  qed
qed


lemma get_finish_fields [simp]:
  "gs_pending (get_finish prm i s) = gs_pending s" "gs_awake (get_finish prm i s) = gs_awake s"
  "gs_waiting (get_finish prm i s) = gs_waiting s" "gs_downloading (get_finish prm i s) = remove1 i (gs_downloading s)"
  "gs_unusedLimits (get_finish prm i s) = gs_unusedLimits s" "gs_inProgress (get_finish prm i s) = gs_inProgress s - 1"
  "gs_pieces (get_finish prm i s) = report_piece i (gp_outcome prm i) (gs_pieces s)"
  "gs_successfulPieces (get_finish prm i s) = gs_successfulPieces s + (if gp_outcome prm i = PieceAuditSuccess then 1 else 0)"
  "gs_errorCount (get_finish prm i s) = gs_errorCount s + (if gp_outcome prm i = PieceAuditSuccess then 0 else 1)"
  by (simp_all add: get_finish_def Let_def)

lemma signal_fields:
  assumes "signal w s = Some s'"
  shows "gs_pending s' = gs_pending s \<and> gs_downloading s' = gs_downloading s \<and> gs_successfulPieces s' = gs_successfulPieces s \<and>
    gs_inProgress s' = gs_inProgress s \<and> gs_unusedLimits s' = gs_unusedLimits s \<and> gs_errorCount s' = gs_errorCount s \<and>
    gs_pieces s' = gs_pieces s \<and> mset (gs_awake s') + mset (gs_waiting s') = mset (gs_awake s) + mset (gs_waiting s) \<and>
    (gs_waiting s \<noteq> [] \<longrightarrow> length (gs_awake s') = length (gs_awake s) + 1) \<and> (gs_waiting s = [] \<longrightarrow> s' = s)"
  using assms by (auto simp: signal_def split: option.splits if_splits)

lemma Finish_inv:
  assumes "get_next prm (Finish i w) s = Some s'" "get_inv prm limits s"
  shows "get_inv prm limits s'"
proof -
  have i: "i \<in> set (gs_downloading s)" and w: "signal w (get_finish prm i s) = Some s'"
    using assms(1) by (auto simp: get_next_def split: if_splits)
  have c: "counters_ok prm limits s" "waiters_ok prm s" "given_up_ok prm limits s" "tracked s \<subseteq># mset (nonNil limits)"
    using assms(2) by (simp_all add: get_inv_def)
  note f = signal_fields [OF w]
  note m = remove1_member [OF i]
  have l: "0 < length (gs_downloading s)" using i by (cases "gs_downloading s") auto
  have mi: "gs_downloading s' = remove1 i (gs_downloading s)" "int (length (gs_downloading s')) = int (length (gs_downloading s)) - 1"
    using f m by (simp, cases "gs_downloading s") simp_all
  have "tracked s' = mset (gs_pending s) + (mset (gs_awake s') + mset (gs_waiting s')) +
      (mset (gs_downloading s) - {#i#}) + add_mset i (mset (reported (gs_pieces s)))"
    using f mi(1) by (simp add: tracked_def)
  also have "\<dots> = mset (gs_pending s) + (mset (gs_awake s) + mset (gs_waiting s)) +
      add_mset i (mset (gs_downloading s) - {#i#}) + mset (reported (gs_pieces s))" using f by simp
  also have "\<dots> = tracked s" using m by (simp add: tracked_def)
  finally have t: "tracked s' = tracked s" .
  have len: "length (reported (gs_pieces s')) = Suc (length (reported (gs_pieces s)))"
    using f arg_cong [OF reported_report, of size] by (metis get_finish_fields(7) size_add_mset size_mset)
  have succ: "int (length (fr_Successful (gs_pieces s'))) =
      int (length (fr_Successful (gs_pieces s))) + (if gp_outcome prm i = PieceAuditSuccess then 1 else 0)"
    using f category_report [of PieceAuditSuccess i "gp_outcome prm i" "gs_pieces s"] by auto
  have cat: "\<forall>a. \<forall>j \<in> set (category a (gs_pieces s')). gp_outcome prm j = a"
    using f c(1) by (auto simp: counters_ok_def category_report split: if_splits)
  have "counters_ok prm limits s'"
    using c(1) f mi(2) len succ cat unfolding counters_ok_def by (intro conjI) (simp_all split: if_splits)
  moreover have "waiters_ok prm s'"
  proof (cases "gs_waiting s = []")
    case True
    with w have "gs_waiting s' = []" using f by simp
    then show ?thesis by (simp add: waiters_ok_def)
  next
    case False
    then have "gs_awake s' \<noteq> []" using f by auto
    with False show ?thesis using c(2) f by (auto simp: waiters_ok_def)
  qed
  moreover have "given_up_ok prm limits s'" using c(3) f t by (auto simp: given_up_ok_def)
  ultimately show ?thesis using c(4) t by (simp add: get_inv_def)
qed

lemma get_step_inv:
  assumes "get_step prm s s'" "get_inv prm limits s" "gp_minFailures prm = 0"
  shows "get_inv prm limits s'"
proof -
  obtain ev where "get_next prm ev s = Some s'" using assms(1) by (auto elim: get_step.cases)
  then show ?thesis using Spawn_inv Evaluate_inv Finish_inv assms(2,3) by (cases ev) blast+
qed

lemma get_reach_inv:
  assumes "(get_step prm)\<^sup>*\<^sup>* (get_start limits) s" "0 < gp_required prm" "gp_minFailures prm = 0"
  shows "get_inv prm limits s"
  using assms(1) by (induction rule: rtranclp_induct) (use get_inv_start assms(2,3) get_step_inv in blast)+

text \<open>Goroutines end, and until then they have fewer and fewer steps left.\<close>

definition get_left :: "get_state \<Rightarrow> nat" where
  "get_left s = length (gs_pending s @ active s)"

definition get_measure :: "(get_state \<times> get_state) set" where
  "get_measure = measures [get_left, \<lambda>s. 2 * length (gs_pending s) + length (gs_awake s)]"

lemma get_step_measure:
  assumes "get_step prm s s'"
  shows "(s', s) \<in> get_measure"
proof -
  obtain ev where ev: "get_next prm ev s = Some s'" using assms by (auto elim: get_step.cases)
  show ?thesis
  proof (cases ev)
    case Spawn
    then show ?thesis using ev
      by (auto simp: get_next_def get_measure_def get_left_def active_def split: list.splits if_splits)
  next
    case (Evaluate i)
    with ev have i: "i \<in> set (gs_awake s)" and s': "s' = get_evaluate prm i s" by (auto simp: get_next_def split: if_splits)
    have "0 < length (gs_awake s)" using i by (cases "gs_awake s") auto
    then show ?thesis using i
      by (auto simp: s' get_evaluate_def Let_def broadcast_def get_measure_def get_left_def active_def length_remove1)
  next
    case (Finish i w)
    with ev have i: "i \<in> set (gs_downloading s)" and w: "signal w (get_finish prm i s) = Some s'"
      by (auto simp: get_next_def split: if_splits)
    note f = signal_fields [OF w]
    have "0 < length (gs_downloading s)" using i by (cases "gs_downloading s") auto
    moreover have "length (gs_awake s') + length (gs_waiting s') = length (gs_awake s) + length (gs_waiting s)"
      using f by (metis get_finish_fields(2,3) size_mset size_union)
    moreover have "length (gs_downloading s') < length (gs_downloading s)"
      using f remove1_member [OF i] \<open>0 < length (gs_downloading s)\<close> by simp
    ultimately have "get_left s' < get_left s" using f by (simp add: get_left_def active_def)
    then show ?thesis by (simp add: get_measure_def)
  qed
qed

lemma get_enabled:
  assumes "get_inv prm limits s" "0 < gp_required prm" "\<not> finished_get s"
  shows "\<exists>s'. get_step prm s s'"
proof -
  consider (download) i where "i \<in> set (gs_downloading s)" | (awake) i where "i \<in> set (gs_awake s)"
    | (pending) "gs_awake s = []" "gs_downloading s = []"
    by (metis list.set_intros(1) neq_Nil_conv)
  then show ?thesis
  proof cases
    case download
    obtain s' where "signal (case gs_waiting s of [] \<Rightarrow> None | j # _ \<Rightarrow> Some j) (get_finish prm i s) = Some s'"
      by (cases "gs_waiting s") (auto simp: signal_def)
    then show ?thesis using download get_step.intros [of prm "Finish i _" s] by (fastforce simp: get_next_def)
  next
    case awake
    then have "get_step prm s (get_evaluate prm i s)" using get_step.intros [of prm "Evaluate i" s] by (simp add: get_next_def)
    then show ?thesis by blast
  next
    case pending
    have w: "gs_waiting s = []" using assms(1) pending by (auto simp: get_inv_def waiters_ok_def counters_ok_def)
    then obtain i rest where "gs_pending s = i # rest"
      using assms(3) pending by (cases "gs_pending s") (auto simp: finished_get_def active_def)
    then have "get_step prm s (s\<lparr>gs_pending := rest, gs_awake := gs_awake s @ [i]\<rparr>)"
      using pending w assms(2) by (intro get_step.intros [of prm Spawn]) (simp add: get_next_def active_def)
    then show ?thesis by blast
  qed
qed

text \<open>What is left when all goroutines have ended.\<close>

lemma finished_report:
  assumes "get_inv prm limits s" "finished_get s"
  shows "gs_successfulPieces s = int (length (fr_Successful (gs_pieces s)))"
    and "gs_successfulPieces s \<le> gp_required prm"
    and "distinct (reported (gs_pieces s)) \<and> set (reported (gs_pieces s)) \<subseteq> set (nonNil limits)"
    and "\<And>a i. i \<in> set (category a (gs_pieces s)) \<Longrightarrow> gp_outcome prm i = a"
    and "gs_successfulPieces s = gp_required prm \<longleftrightarrow>
      gp_required prm \<le> int (card {i \<in> set (nonNil limits). gp_outcome prm i = PieceAuditSuccess})"
proof -
  let ?r = "gs_pieces s" and ?good = "{i \<in> set (nonNil limits). gp_outcome prm i = PieceAuditSuccess}"
  have c: "counters_ok prm limits s" "given_up_ok prm limits s" "tracked s \<subseteq># mset (nonNil limits)"
    using assms(1) by (simp_all add: get_inv_def)
  have t: "tracked s = mset (reported ?r)" "gs_inProgress s = 0"
    using assms(2) c(1) by (simp_all add: tracked_def finished_get_def active_def counters_ok_def)
  have dN: "distinct (nonNil limits)" by (simp add: nonNil_def)
  show n: "gs_successfulPieces s = int (length (fr_Successful ?r))" and le: "gs_successfulPieces s \<le> gp_required prm"
    and out: "\<And>a i. i \<in> set (category a ?r) \<Longrightarrow> gp_outcome prm i = a"
    using c(1) t(2) by (simp_all add: counters_ok_def)
  have "mset (reported ?r) \<subseteq># mset (nonNil limits)" using c(3) t(1) by simp
  then show d: "distinct (reported ?r) \<and> set (reported ?r) \<subseteq> set (nonNil limits)"
    using dN sub_distinct by (metis mset_subset_eqD set_mset_mset subsetI)
  have dS: "distinct (fr_Successful ?r)" using d by (simp add: reported_def)
  have goodS: "set (fr_Successful ?r) = ?good \<inter> set (reported ?r)"
    using d out out [of _ PieceAuditSuccess] reported_category [of _ ?r] category_reported [of _ PieceAuditSuccess ?r] by fastforce
  have card_le: "card ?good \<le> card (set (fr_Successful ?r)) + card (set (nonNil limits) - set (reported ?r))"
  proof -
    have "?good \<subseteq> set (fr_Successful ?r) \<union> (set (nonNil limits) - set (reported ?r))" using goodS by blast
    then have "card ?good \<le> card (set (fr_Successful ?r) \<union> (set (nonNil limits) - set (reported ?r)))"
      by (intro card_mono) auto
    then show ?thesis using card_Un_le le_trans by blast
  qed
  have unused: "int (card (set (nonNil limits) - set (reported ?r))) = gs_unusedLimits s"
    using c(1) t(2) d dN by (simp add: counters_ok_def card_Diff_subset distinct_card of_nat_diff card_mono flip: distinct_card)
  have nS: "gs_successfulPieces s = int (card (set (fr_Successful ?r)))" using n dS by (simp add: distinct_card)
  show "gs_successfulPieces s = gp_required prm \<longleftrightarrow> gp_required prm \<le> int (card ?good)"
  proof
    assume "gs_successfulPieces s = gp_required prm"
    moreover have "card (set (fr_Successful ?r)) \<le> card ?good" using goodS by (intro card_mono) auto
    ultimately show "gp_required prm \<le> int (card ?good)" using nS by simp
  next
    assume enough: "gp_required prm \<le> int (card ?good)"
    have "int (card ?good) \<le> gs_successfulPieces s + gs_unusedLimits s" using card_le nS unused by linarith
    then have "\<not> gs_successfulPieces s + gs_inProgress s + gs_unusedLimits s < gp_required prm" using enough t(2) by linarith
    with c(2) have "tracked s = mset (nonNil limits) \<or> gp_required prm \<le> gs_successfulPieces s" by (simp add: given_up_ok_def)
    then show "gs_successfulPieces s = gp_required prm"
    proof
      assume "tracked s = mset (nonNil limits)"
      then have "set (reported ?r) = set (nonNil limits)" using t(1) by (metis mset_eq_setD)
      then have "card (set (nonNil limits) - set (reported ?r)) = 0" by simp
      then show ?thesis using card_le nS enough le by linarith
    qed (use le in linarith)
  qed
qed

text \<open>A run along a schedule.\<close>

lemma get_run_reach: "get_run prm evs s = Some s' \<Longrightarrow> (get_step prm)\<^sup>*\<^sup>* s s'"
proof (induction evs arbitrary: s)
  case (Cons ev evs)
  then obtain t where t: "get_next prm ev s = Some t" "get_run prm evs t = Some s'" by (auto split: option.splits)
  then show ?case using Cons.IH get_step.intros [OF t(1)] by (meson converse_rtranclp_into_rtranclp)
qed simp

lemma get_reach_run: "(get_step prm)\<^sup>*\<^sup>* s s' \<Longrightarrow> \<exists>evs. get_run prm evs s = Some s'"
proof (induction rule: converse_rtranclp_induct)
  case (step y z)
  then obtain ev evs where "get_next prm ev y = Some z" "get_run prm evs z = Some s'" by (auto elim: get_step.cases)
  then have "get_run prm (ev # evs) y = Some s'" by simp
  then show ?case by blast
qed (use get_run.simps(1) in blast)

lemma wf_get_measure: "wf get_measure"
  by (simp add: get_measure_def)

lemma get_reach_finished:
  assumes "get_inv prm limits s" "0 < gp_required prm" "gp_minFailures prm = 0"
  shows "\<exists>s'. (get_step prm)\<^sup>*\<^sup>* s s' \<and> finished_get s'"
  using assms(1)
proof (induction s rule: wf_induct_rule [OF wf_get_measure])
  case (1 s)
  show ?case
  proof (cases "finished_get s")
    case False
    then obtain t where t: "get_step prm s t" using get_enabled 1(2) assms(2) by blast
    then obtain s' where "(get_step prm)\<^sup>*\<^sup>* t s'" "finished_get s'"
      using 1(1) get_step_measure get_step_inv 1(2) assms(3) by blast
    with t show ?thesis by (meson converse_rtranclp_into_rtranclp)
  qed blast
qed

text \<open>
  Lemma. A download always ends: the steps of the goroutines decrease a measure, and as long as one of them has
  not ended, there is a step, so nobody waits for a signal that does not come.
\<close>

theorem Get_terminates:
  assumes "0 < gp_required prm" "gp_minFailures prm = 0" "(get_step prm)\<^sup>*\<^sup>* (get_start limits) s"
  shows "wf {(s', s). get_step prm s s'} \<and> (finished_get s \<or> (\<exists>s'. get_step prm s s'))"
proof
  have "{(s', s). get_step prm s s'} \<subseteq> get_measure" using get_step_measure by auto
  then show "wf {(s', s). get_step prm s s'}" using wf_subset [OF wf_get_measure] by blast
  show "finished_get s \<or> (\<exists>s'. get_step prm s s')"
    using get_enabled [OF get_reach_inv [OF assms(3,1,2)] assms(1)] by blast
qed

definition ex_get_params :: get_params where
  "ex_get_params = \<lparr>gp_required = 2, gp_minFailures = 0, gp_outcome =
     (\<lambda>i. if i = 0 then PieceAuditOffline else if i = 3 then PieceAuditFailure else PieceAuditSuccess)\<rparr>"

definition ex_limits :: "node_id option list" where
  "ex_limits = [Some 10, None, Some 12, Some 13, Some 14]"

definition ex_schedule :: "get_event list" where
  "ex_schedule = [Spawn, Spawn, Evaluate 0, Evaluate 2, Finish 2 None, Spawn, Evaluate 3, Finish 0 (Some 3), Evaluate 3,
     Finish 3 None, Spawn, Evaluate 4, Finish 4 None]"

theorem Get_terminates_witness:
  "\<exists>s'. get_step ex_get_params (get_start ex_limits) s'"
  using Get_terminates [of ex_get_params ex_limits "get_start ex_limits"]
  by (simp add: ex_get_params_def finished_get_def get_start_def nonNil_def ex_limits_def)

lemma ec_Get_finished:
  assumes "ec_Get prm totalCount limits schedule = Some (pieces, err)" "gp_minFailures prm = 0"
  obtains (invalid) "pieces = empty_report" "err = Some GetInvalid"
      "int (length limits) \<noteq> totalCount \<or> int (length (nonNil limits)) < gp_required prm"
    | (finished) s where "get_run prm schedule (get_start limits) = Some s" "finished_get s" "pieces = gs_pieces s"
      "err = (if gs_successfulPieces s < gp_required prm then Some (Irreparable (gs_successfulPieces s) (gp_required prm))
        else if gs_errorCount s < 0 then Some GetInvalid else None)"
  using assms by (auto simp: ec_Get_def split: if_splits option.splits)

text \<open>Without a goroutine nothing is fetched.\<close>

lemma no_goroutine:
  assumes "get_run prm schedule (get_start limits) = Some s" "gp_required prm \<le> 0"
  shows "s = get_start limits"
proof (cases schedule)
  case (Cons ev evs)
  have "get_next prm ev (get_start limits) = None"
    using assms(2) by (auto simp: get_next_def get_start_def active_def split: get_event.split list.split)
  then show ?thesis using assms(1) Cons by simp
qed (use assms(1) in simp)

lemma ec_Get_report:
  assumes "ec_Get prm totalCount limits schedule = Some (pieces, err)" "gp_minFailures prm = 0"
  shows "distinct (reported pieces) \<and> set (reported pieces) \<subseteq> set (nonNil limits) \<and>
    (\<forall>a. \<forall>i \<in> set (category a pieces). gp_outcome prm i = a)"
  using assms
proof (cases rule: ec_Get_finished)
  case (finished s)
  show ?thesis
  proof (cases "0 < gp_required prm")
    case True
    note inv = get_reach_inv [OF get_run_reach [OF finished(1)] True assms(2)]
    show ?thesis using finished_report [OF inv finished(2)] finished(3) by auto
  next
    case False
    then have "s = get_start limits" using no_goroutine [OF finished(1)] by simp
    then show ?thesis using finished(3) by (simp add: get_start_def)
  qed
qed simp

text \<open>
  Lemma. A download reports every piece at most once and under what its node did, and it succeeds, with exactly as
  many pieces as are needed, if and only if that many of its nodes deliver their piece, in whatever order they answer.
\<close>

theorem Get_succeeds_iff:
  assumes "0 < gp_required prm" "gp_minFailures prm = 0" "int (length limits) = totalCount" "gp_required prm \<le> int (length (nonNil limits))"
    and "ec_Get prm totalCount limits schedule = Some (pieces, err)"
  shows "distinct (reported pieces) \<and> set (reported pieces) \<subseteq> set (nonNil limits) \<and>
    (\<forall>a. \<forall>i \<in> set (category a pieces). gp_outcome prm i = a) \<and>
    (err = None \<longleftrightarrow> gp_required prm \<le> int (card {i \<in> set (nonNil limits). gp_outcome prm i = PieceAuditSuccess})) \<and>
    (err = None \<longrightarrow> int (length (fr_Successful pieces)) = gp_required prm)"
  using assms(5,2)
proof (cases rule: ec_Get_finished)
  case invalid
  then show ?thesis using assms(3,4) by simp
next
  case (finished s)
  have inv: "get_inv prm limits s" by (rule get_reach_inv [OF get_run_reach [OF finished(1)] assms(1,2)])
  note r = finished_report [OF inv finished(2)]
  have "0 \<le> gs_errorCount s" using inv by (simp add: get_inv_def counters_ok_def)
  then have "err = None \<longleftrightarrow> gs_successfulPieces s = gp_required prm" using finished(4) r(2) by auto
  then show ?thesis using r finished(3) by auto
qed

theorem Get_succeeds_iff_witness:
  "\<exists>pieces. ec_Get ex_get_params 5 ex_limits ex_schedule = Some (pieces, None) \<and> fr_Successful pieces = [2, 4] \<and>
     int (length (fr_Successful pieces)) = 2"
proof -
  have r: "ec_Get ex_get_params 5 ex_limits ex_schedule =
      Some (\<lparr>fr_Successful = [2, 4], fr_Failed = [3], fr_Offline = [0], fr_Contained = [], fr_Unknown = []\<rparr>, None)"
    by code_simp
  from Get_succeeds_iff [OF _ _ _ _ r] r show ?thesis
    by (simp add: ex_get_params_def nonNil_def ex_limits_def)
qed

text \<open>A node that still has the piece, and answers, is not blamed for it.\<close>

definition honest_attempt :: "int \<Rightarrow> download_attempt \<Rightarrow> bool" where
  "honest_attempt pieceSize a \<longleftrightarrow> da_dial a = None \<and> da_download a = None \<and> da_read a = None \<and> da_size a = pieceSize \<and>
     da_limit_signed a \<and> da_hash_signed a \<and> da_calculated a \<noteq> [] \<and>
     (\<exists>pid. da_limit a = Some pid \<and> da_hash a = Some (pid, da_calculated a))"

lemma honest_fetch:
  assumes "honest_attempt pieceSize (ps_first src)"
  shows "fetch_outcome (fetch_piece pieceSize src) = PieceAuditSuccess"
proof -
  have "downloadAndVerifyPiece pieceSize (ps_first src) = None"
    using assms by (auto simp: honest_attempt_def downloadAndVerifyPiece_def verifyPieceHash_def)
  then show ?thesis by (simp add: fetch_piece_def fetch_outcome_def)
qed

text \<open>A node fails the audit only when it says that it does not have the piece, or when the hash it sends with it, or the
  signature of the hash, is not that of the data.\<close>

definition answered :: "download_attempt \<Rightarrow> transfer_error \<Rightarrow> bool" where
  "answered a e \<longleftrightarrow> da_dial a = Some e \<or> da_download a = Some e \<or> da_read a = Some e"

lemma download_error:
  assumes "downloadAndVerifyPiece pieceSize a = Some e"
  shows "(\<exists>e'. answered a e' \<and> te_hash_failed e = te_hash_failed e' \<and> te_status e = te_status e') \<or>
    \<not> te_hash_failed e \<and> te_status e = None \<or> \<not> verifyPieceHash (da_limit a) (da_hash a) (da_calculated a) (da_hash_signed a)"
proof -
  consider (dial) x where "da_dial a = Some x" | (download) x where "da_dial a = None" "da_download a = Some x"
    | (read) x where "da_dial a = None" "da_download a = None" "da_read a = Some x"
    | (answer) "da_dial a = None" "da_download a = None" "da_read a = None" by fastforce
  then show ?thesis
  proof cases
    case dial
    then have "e = x\<lparr>te_dial_failed := True\<rparr>" using assms by (simp add: downloadAndVerifyPiece_def)
    with dial show ?thesis by (auto simp: answered_def intro!: exI [of _ x])
  next
    case download
    then have "e = x" using assms by (simp add: downloadAndVerifyPiece_def)
    with download show ?thesis by (auto simp: answered_def)
  next
    case read
    then have "e = x" using assms by (simp add: downloadAndVerifyPiece_def)
    with read show ?thesis by (auto simp: answered_def)
  next
    case answer
    then have "(if da_size a \<noteq> pieceSize \<or> da_hash a = None \<or> da_limit a = None \<or> \<not> da_limit_signed a then Some plain_error
         else if \<not> verifyPieceHash (da_limit a) (da_hash a) (da_calculated a) (da_hash_signed a)
         then Some (plain_error\<lparr>te_hash_failed := True\<rparr>) else None) = Some e"
      using assms by (simp add: downloadAndVerifyPiece_def split: if_splits)
    then show ?thesis by (auto simp: plain_error_def split: if_splits)
  qed
qed

lemma fetch_failure:
  assumes "fetch_outcome (fetch_piece pieceSize src) = PieceAuditFailure"
    and "\<forall>a \<in> {ps_first src, ps_second src}. \<forall>e. answered a e \<longrightarrow> \<not> te_hash_failed e"
  shows "\<exists>a \<in> {ps_first src, ps_second src}.
    (\<exists>e. answered a e \<and> te_status e = Some RpcNotFound) \<or>
    \<not> verifyPieceHash (da_limit a) (da_hash a) (da_calculated a) (da_hash_signed a)"
proof -
  obtain e where e: "fetch_piece pieceSize src = Some e" "te_hash_failed e \<or> te_status e = Some RpcNotFound"
    using assms(1) by (auto simp: fetch_outcome_def PieceAuditFromErr_def split: option.splits if_splits)
  obtain a where a: "downloadAndVerifyPiece pieceSize a = Some e" "a \<in> {ps_first src, ps_second src}"
    using e(1) by (auto simp: fetch_piece_def Let_def split: option.splits if_splits)
  have no_hash: "\<not> te_hash_failed e'" if "answered a e'" for e' using assms(2) a(2) that by blast
  from download_error [OF a(1)] have "(\<exists>e. answered a e \<and> te_status e = Some RpcNotFound) \<or>
    \<not> verifyPieceHash (da_limit a) (da_hash a) (da_calculated a) (da_hash_signed a)"
  proof (elim disjE exE conjE)
    fix e' assume e': "answered a e'" "te_hash_failed e = te_hash_failed e'" "te_status e = te_status e'"
    with no_hash e(2) show ?thesis by auto
  qed (use e(2) in simp_all)
  with a(2) show ?thesis by blast
qed

subsection \<open>Uploading the pieces\<close>

text \<open>How the upload of a piece ends; the order in which the results arrive, and which uploads are still cancelled after
  enough have succeeded or the timer has fired, is the argument.\<close>

datatype put_result = PutDone | PutFailed | PutCancelled

definition unique :: "node_id option list \<Rightarrow> bool" where
  "unique limits \<longleftrightarrow> length limits < 2 \<or>
     (let ids = sort (map (\<lambda>limit. case limit of Some n \<Rightarrow> n | None \<Rightarrow> 0) limits)
      in \<forall>i \<in> {1 ..< length ids}. \<not> (ids ! i \<noteq> 0 \<and> ids ! i = ids ! (i - 1)))"

fun put_loop :: "node_id option list \<Rightarrow> (nat \<times> put_result) list \<Rightarrow> node_id option list \<Rightarrow> int \<Rightarrow> node_id option list \<times> int" where
  "put_loop limits [] successfulNodes successfulCount = (successfulNodes, successfulCount)"
| "put_loop limits ((i, res) # infos) successfulNodes successfulCount =
     (if limits ! i = None \<or> res \<noteq> PutDone then put_loop limits infos successfulNodes successfulCount
      else put_loop limits infos (successfulNodes[i := limits ! i]) (successfulCount + 1))"

definition ec_Repair ::
  "int \<Rightarrow> node_id option list \<Rightarrow> bool \<Rightarrow> (nat \<times> put_result) list \<Rightarrow> bool \<Rightarrow> (node_id option list) option" where
  "ec_Repair totalCount limits encode_fails infos cancelled =
     (if int (length limits) \<noteq> totalCount then None
      else if \<not> unique limits then None
      else if encode_fails then None
      else case put_loop limits infos (replicate (length limits) None) 0 of
        (successfulNodes, successfulCount) \<Rightarrow>
          if successfulCount = 0 \<or> cancelled then None else Some successfulNodes)"

lemma put_loop_spec:
  assumes "\<forall>(i, res) \<in> set infos. i < length limits" "length nodes = length limits"
  shows "put_loop limits infos nodes k = (nodes', k') \<Longrightarrow> length nodes' = length limits \<and>
    (\<forall>i < length limits. nodes' ! i = (if (i, PutDone) \<in> set infos \<and> limits ! i \<noteq> None then limits ! i else nodes ! i)) \<and>
    (k' = k \<longleftrightarrow> (\<forall>(i, res) \<in> set infos. res \<noteq> PutDone \<or> limits ! i = None)) \<and> k \<le> k'"
  using assms
proof (induction infos arbitrary: nodes k)
  case (Cons x infos)
  obtain i res where x: "x = (i, res)" by (cases x)
  show ?case
  proof (cases "limits ! i = None \<or> res \<noteq> PutDone")
    case True
    then have "put_loop limits infos nodes k = (nodes', k')" using Cons.prems(1) x by simp
    then show ?thesis using Cons.IH [of nodes k] Cons.prems True x by auto
  next
    case False
    then have "put_loop limits infos (nodes[i := limits ! i]) (k + 1) = (nodes', k')" using Cons.prems(1) x by (simp split: if_splits)
    then show ?thesis using Cons.IH [of "nodes[i := limits ! i]" "k + 1"] Cons.prems False x
      by (auto simp: nth_list_update)
  qed
qed auto

lemma put_loop_sound:
  "put_loop limits infos nodes k = (nodes', k') \<Longrightarrow> length nodes' = length nodes \<and>
    (\<forall>i < length nodes. nodes' ! i = nodes ! i \<or> (i, PutDone) \<in> set infos \<and> nodes' ! i = limits ! i)"
proof (induction infos arbitrary: nodes k)
  case (Cons x infos)
  obtain i res where x: "x = (i, res)" by (cases x)
  show ?case
  proof (cases "limits ! i = None \<or> res \<noteq> PutDone")
    case True
    then have "put_loop limits infos nodes k = (nodes', k')" using Cons.prems x by simp
    from Cons.IH [OF this] show ?thesis by auto
  next
    case False
    then have "put_loop limits infos (nodes[i := limits ! i]) (k + 1) = (nodes', k')" using Cons.prems x by (simp split: if_splits)
    note IH = Cons.IH [OF this]
    have "nodes' ! l = nodes ! l \<or> (l, PutDone) \<in> set (x # infos) \<and> nodes' ! l = limits ! l" if "l < length nodes" for l
      using IH x False that by (cases "l = i") auto
    then show ?thesis using IH by simp
  qed
qed simp

lemma ec_Repair_sound:
  assumes "ec_Repair totalCount limits encode_fails infos cancelled = Some nodes"
  shows "unique limits \<and> length nodes = length limits \<and>
    (\<forall>i < length limits. \<forall>n. nodes ! i = Some n \<longrightarrow> (i, PutDone) \<in> set infos \<and> limits ! i = Some n)"
proof -
  obtain k where p: "put_loop limits infos (replicate (length limits) None) 0 = (nodes, k)" and u: "unique limits"
    using assms by (auto simp: ec_Repair_def split: if_splits prod.splits)
  from put_loop_sound [OF p] u show ?thesis by fastforce
qed

text \<open>Pieces that are stored are exactly those whose upload has ended well.\<close>

lemma ec_Repair_nodes:
  assumes "ec_Repair totalCount limits encode_fails infos cancelled = Some nodes" "\<forall>(i, res) \<in> set infos. i < length limits"
  shows "length nodes = length limits \<and> (\<exists>i < length limits. nodes ! i \<noteq> None) \<and>
    (\<forall>i < length limits. nodes ! i = (if (i, PutDone) \<in> set infos then limits ! i else None))"
proof -
  obtain k where p: "put_loop limits infos (replicate (length limits) None) 0 = (nodes, k)" and k: "k \<noteq> 0"
    using assms(1) by (auto simp: ec_Repair_def split: if_splits prod.splits)
  note r = put_loop_spec [OF assms(2) _ p]
  then obtain i res where "(i, res) \<in> set infos" "res = PutDone" "limits ! i \<noteq> None" using k by fastforce
  with r assms(2) show ?thesis by (auto intro!: exI [of _ i])
qed
end
