(* ===== verification/Spec2Isabelle.thy ===== *)
theory Spec2Isabelle
  imports MetaPromote MetaSweep MetaListObjects MetricsObserver Retain Reporter NodeSelection RepairTransfer
begin

text \<open>
  A model of the core of a satellite: its metadata database (\<open>satellite/metabase\<close>), the loop over all
  segments and its observers (\<open>rangedloop\<close>, \<open>metrics\<close>, \<open>accounting/nodetally\<close>, \<open>gc/bloomfilter\<close>, \<open>audit\<close>),
  garbage collection on the storage node (\<open>storagenode/retain\<close>), the reputation of nodes
  (\<open>reputation\<close>, \<open>satellitedb/reputations.go\<close>), what becomes of audits (\<open>audit/reporter.go\<close>, the two
  queues, containment), the selection of nodes for uploads and the transfers of the repairer, with
  the theorems that say what they promise.

  The program. A satellite stores for each object a row (location, version, stream id, status,
  counts and totals) and for each segment of its stream a row with the pieces that hold it on
  storage nodes, each piece a number and a short alias of a node. Uplinks begin an object, write its
  segments, and commit it; objects are listed, moved, copied on the server (a copy shares the
  pieces of its ancestor), updated and deleted; background chores delete expired and abandoned
  objects. A loop goes over all segments, in ranges of stream ids, and hands them to observers:
  statistics, the bytes each node holds, a bloom filter for each node of the pieces it has to
  keep, and a sample of segments to audit. Nodes delete what their filter does not contain. The
  audits of the sample end in the reputations, a table with a cache in front of it, which
  disqualify and suspend nodes; the overlay has a copy of the status; pieces that did not come in
  time wait in a queue until they are reverified, and their node is contained that long.

  How the model is made. The tables are lists of rows in one record, \<open>store\<close>; an operation takes
  its options, the time of the statement where the SQL says \<open>now()\<close>, and the store, and returns the
  store it leaves together with its result, an error being \<open>Inl\<close>. A statement is translated
  from its SQL text: conditions as filters, \<open>ON CONFLICT\<close> as an upsert, \<open>ORDER BY\<close> as a stable sort
  by the columns as the database compares them (\<open>int8\<close> is signed). A transaction that fails keeps
  the tables it began with, but not the alias table and the cached map, which are reached
  outside of it. Strings are byte lists, identifiers are words, numbers of Go are \<open>int\<close> with their
  wrap-around written out where the code can reach it; the scores and fractions that are \<open>float64\<close>
  in the code are rationals, so inequalities about them hold up to rounding.

  What is atomic. Statements and transactions are serialised; this holds also for the statements
  of the queues, whose claims of a job take no lock of their own. \<open>FinishCopyObject\<close> reads the source's segments outside its
  transaction, and the model at its moment: those of a committed stream only change their pieces,
  which are not read, or go, which is an error. \<open>BeginCopyObject\<close> and \<open>BeginMoveObject\<close> are operations of
  their own, so a finish meets any later store. The deletion of expired and abandoned objects
  is there twice: as one sequential run over the current tables (\<open>DeleteExpiredObjects\<close>,
  \<open>DeleteZombieObjects\<close>; the clause \<open>AS OF SYSTEM TIME\<close> is left out), and in the step relation as the deletion
  of a batch that was selected at any earlier time, which covers that clause and whatever runs in
  between, but for a selected object that was moved: it would lose its segments, as a lemma of
  \<open>MetaSweep\<close> shows. An audit (\<open>ApplyAudit\<close>) is one step, with the failures of its calls as arguments, and so
  is the removal of a reverification job; the compare and swap of the reputations
  (\<open>ReputationSwaps\<close>), the cache (\<open>WriteCache\<close>), the workers of the retain service (\<open>Retain\<close>) and the goroutines of a
  download (\<open>RepairTransfer\<close>) are step relations with every interleaving.

  Theories and what they model:
  \<^item> \<open>Prelude\<close>, \<open>Bytes\<close>: results, tables with unique keys, sorting, little-endian bytes and varints;
  \<^item> \<open>MetaTypes\<close> (\<open>common.go\<close>), \<open>Encoding\<close> (\<open>encoding.go\<close>), \<open>AliasPieces\<close> (\<open>aliaspiece.go\<close>): locations and
    keys, pieces, columns and their codecs; round trips and the laws of \<open>Pieces.Update\<close>;
  \<^item> \<open>AliasCache\<close> (\<open>alias.go\<close>, \<open>aliascache.go\<close>): node aliases and their cached map, against an
    interface of the alias database that its model provides;
  \<^item> \<open>CommitActions\<close> (\<open>commit_object.go\<close>): what a commit computes from the segments;
  \<^item> \<open>MetaStore\<close>, \<open>MetaDelete\<close>, \<open>MetaCommit\<close>, \<open>MetaMove\<close>, \<open>MetaGC\<close> (\<open>get.go\<close>, \<open>commit.go\<close>, \<open>delete.go\<close>,
    \<open>move_object.go\<close>, \<open>copy_object.go\<close>, \<open>update.go\<close>, \<open>metadata.go\<close>, \<open>delete_objects.go\<close>): the tables and
    the operations that change them;
  \<^item> \<open>MetaInvariant\<close>, \<open>MetaProps\<close>, \<open>MetaVersions\<close>, \<open>MetaAlias\<close>, \<open>MetaPromote\<close>, \<open>MetaSweep\<close>: all operations as a
    step relation, reachable stores, and what holds in them: keys, owners and completeness of
    committed objects, at most one committed version of a location, aliases in agreement with
    the cache, pieces that survive the deletion of other objects, and what the chores delete;
  \<^item> \<open>Paging\<close>: iteration in batches while the tables change, as an interface of three laws;
  \<^item> \<open>MetaList\<close>, \<open>MetaListing\<close>, \<open>MetaListObjects\<close> (\<open>list.go\<close>, \<open>iterator.go\<close>, \<open>list_objects.go\<close>): listing objects,
    the iterator against its reference definition and against the single query;
  \<^item> \<open>MetaSegments\<close>, \<open>MetaSegmentProps\<close> (\<open>list_segments.go\<close>, \<open>list_verify_segments.go\<close>, \<open>streamstat.go\<close>,
    \<open>stats.go\<close>): listing segments and positions, by pages and by ranges;
  \<^item> \<open>MetaLoop\<close>, \<open>MetaLoopProps\<close> (\<open>loop.go\<close>): iterating over all objects and over ranges of segments,
    bucket tallies;
  \<^item> \<open>RangedLoop\<close>, \<open>RangedLoopProps\<close>, \<open>ObserverLaws\<close> (\<open>metabase/rangedloop\<close>): ranges of stream ids, providers of
    batches, observers with their partials, and the interface between the loop and an observer: what
    the observer has to promise of its operations, and what a run promises it in return, for
    every order in which the ranges advance;
  \<^item> \<open>MetricsObserver\<close> (\<open>metrics\<close>), \<open>NodeTally\<close> (\<open>accounting/nodetally\<close>), \<open>BloomFilters\<close>, \<open>BloomFilterProps\<close>
    (\<open>gc/bloomfilter\<close>), \<open>AuditSampling\<close> (\<open>audit/reservoir.go\<close>, \<open>audit/observer.go\<close>): the observers, each an
    interpretation of that interface;
  \<^item> \<open>Retain\<close> (\<open>storagenode/retain\<close>): the queue of retain requests, its workers and the walk over the
    pieces, and the end-to-end safety of garbage collection;
  \<^item> \<open>VerifyQueue\<close>, \<open>ReverifyQueue\<close> (\<open>satellitedb/verifyqueue.go\<close>, \<open>reverifyqueue.go\<close>): the queues of audits;
  \<^item> \<open>Reputation\<close>, \<open>ReputationUpdates\<close>, \<open>ReputationSwaps\<close> (\<open>reputation\<close>, \<open>satellitedb/reputations.go\<close>): scores and
    histories, the update of a row, and the callers that race for it;
  \<^item> \<open>WriteCache\<close>, \<open>WriteCacheProps\<close> (\<open>reputation/writecache.go\<close>): the cache in front of the table: what it holds,
    estimates and synchronises;
  \<^item> \<open>ReputationService\<close> (\<open>reputation/service.go\<close>, the status in \<open>overlaycache.go\<close>): \<open>ApplyAudit\<close> over an interface of the
    reputations that both the table and the cache provide;
  \<^item> \<open>Reporter\<close> (\<open>audit/reporter.go\<close>, \<open>satellitedb/containment.go\<close>, \<open>audit/reverify_chore.go\<close>): recording reports and
    reverifications, and containment;
  \<^item> \<open>NodeSelection\<close> (\<open>nodeselection/uploadselection\<close>): the nodes for an upload are on different networks;
  \<^item> \<open>RepairTransfer\<close> (\<open>repair/repairer/ec.go\<close>, \<open>audit/pieces.go\<close>): the download of a segment for repair, which
    always ends and succeeds if enough pieces are good, and the upload of the repaired pieces.

  What is an argument. Code that is not in the repository, and what is random: the bloom filter
  and piece id derivation of \<open>common\<close> (with the law that a filter contains what was added), the keys drawn by
  a reservoir, permutations and draws of the node selection, what storage nodes answer and whether
  signatures verify, the order in which goroutines run, clocks, and which calls of the database
  fail. The order of a Go map is a rotation of one list where the audit queue is filled, and that of first
  occurrence in the node selection. A segment of size zero, which \<open>CommitSegment\<close>
  refuses, would have the key zero in a reservoir, where the code has infinity, and
  \<open>nextTimeForSync\<close> divides integers, where the code divides floats.

  Bounds and fuel. Callers' loops take the list of stores their calls meet, or a number of pages; the
  theorems ask for more of them than there are rows, which is enough because every call but the
  last returns a row; the one that does not get to the end (positions, one at a time) is part of its
  theorem. \<open>skip_past\<close>, the loop of the listing iterator over the keys of a prefix, and \<open>due_entries\<close>,
  the loop of the cache over its heap, are partial functions whose termination is a theorem; the
  steps of a download decrease a measure.

  Not modelled: the connection to the database and its failures where they are not an argument,
  monitoring and logging, cancellation of contexts, and the parts of the repository the manifest
  lists as such: user interfaces, RPC glue, generated code, programs that wire the peers together.
\<close>

end
